(* ===== verification/Prelude.thy ===== *)
theory Prelude
  imports Main "HOL-Library.Word" "HOL-Library.Char_ord" "HOL-Library.List_Lexorder"
    "HOL-Library.Sublist"
begin

text \<open>
  Shared vocabulary of the development: the pieces of the Rust standard library that the
  Experience runtime uses (string slices, \<open>Result\<close> pipelines, ordered maps), with the
  generic lemmas that the component theories rely on.

  A \<open>string\<close> is the UTF-8 byte sequence of a Rust \<open>str\<close>: one HOL character is one byte, so
  \<open>len\<close>, \<open>find\<close>, slicing and \<open>as_bytes\<close> are exact. Case folding and white space are the
  ASCII fragments of the Rust functions; all other bytes are left alone.
\<close>

section \<open>Collections of facts\<close>

named_theorems rust_str \<open>laws of the Rust string helpers\<close>
named_theorems result_simps \<open>laws of fallible pipelines\<close>
named_theorems map_simps \<open>laws of the ordered and hashed maps\<close>

type_synonym u64 = "64 word"
type_synonym 'v btree = "(string \<times> 'v) list"

section \<open>Characters\<close>

definition is_whitespace :: "char \<Rightarrow> bool" where
  "is_whitespace c \<longleftrightarrow> c = CHR '' '' \<or> c = CHR 0x09 \<or> c = CHR 0x0A \<or> c = CHR 0x0B
     \<or> c = CHR 0x0C \<or> c = CHR 0x0D"

definition byte_of :: "char \<Rightarrow> nat" where
  "byte_of c = of_char c"

definition is_ascii_upper :: "char \<Rightarrow> bool" where
  "is_ascii_upper c \<longleftrightarrow> 65 \<le> byte_of c \<and> byte_of c \<le> 90"

definition is_ascii_lower :: "char \<Rightarrow> bool" where
  "is_ascii_lower c \<longleftrightarrow> 97 \<le> byte_of c \<and> byte_of c \<le> 122"

definition is_ascii_alphabetic :: "char \<Rightarrow> bool" where
  "is_ascii_alphabetic c \<longleftrightarrow> is_ascii_upper c \<or> is_ascii_lower c"

definition is_ascii_digit :: "char \<Rightarrow> bool" where
  "is_ascii_digit c \<longleftrightarrow> 48 \<le> byte_of c \<and> byte_of c \<le> 57"

definition is_ascii_alphanumeric :: "char \<Rightarrow> bool" where
  "is_ascii_alphanumeric c \<longleftrightarrow> is_ascii_alphabetic c \<or> is_ascii_digit c"

definition lower_char :: "char \<Rightarrow> char" where
  "lower_char c = (if is_ascii_upper c then char_of (byte_of c + 32) else c)"

definition upper_char :: "char \<Rightarrow> char" where
  "upper_char c = (if is_ascii_lower c then char_of (byte_of c - 32) else c)"

lemma byte_of_lt [simp]: "byte_of c < 256"
  by (simp add: byte_of_def)

lemma byte_of_char_of [simp]: "n < 256 \<Longrightarrow> byte_of (char_of n) = n"
  by (simp add: byte_of_def)

lemma lower_char_lower [simp]: "lower_char (lower_char c) = lower_char c"
  by (auto simp: lower_char_def is_ascii_upper_def)

section \<open>String slices\<close>

definition to_lowercase :: "string \<Rightarrow> string" where
  "to_lowercase s = map lower_char s"

definition to_uppercase :: "string \<Rightarrow> string" where
  "to_uppercase s = map upper_char s"

definition starts_with :: "string \<Rightarrow> string \<Rightarrow> bool" where
  "starts_with s p \<longleftrightarrow> take (length p) s = p"

definition ends_with :: "string \<Rightarrow> string \<Rightarrow> bool" where
  "ends_with s p \<longleftrightarrow> length p \<le> length s \<and> drop (length s - length p) s = p"

definition strip_prefix :: "string \<Rightarrow> string \<Rightarrow> string option" where
  "strip_prefix s p = (if starts_with s p then Some (drop (length p) s) else None)"

definition strip_suffix :: "string \<Rightarrow> string \<Rightarrow> string option" where
  "strip_suffix s p = (if ends_with s p then Some (take (length s - length p) s) else None)"

fun find_str :: "string \<Rightarrow> string \<Rightarrow> nat option" where
  "find_str [] p = (if p = [] then Some 0 else None)"
| "find_str (c # cs) p =
     (if starts_with (c # cs) p then Some 0 else map_option Suc (find_str cs p))"

definition contains_str :: "string \<Rightarrow> string \<Rightarrow> bool" where
  "contains_str s p \<longleftrightarrow> find_str s p \<noteq> None"

definition trim_start :: "string \<Rightarrow> string" where
  "trim_start s = dropWhile is_whitespace s"

definition trim_end :: "string \<Rightarrow> string" where
  "trim_end s = rev (dropWhile is_whitespace (rev s))"

definition trim_str :: "string \<Rightarrow> string" where
  "trim_str s = trim_end (trim_start s)"

definition trim_matches :: "(char \<Rightarrow> bool) \<Rightarrow> string \<Rightarrow> string" where
  "trim_matches P s = rev (dropWhile P (rev (dropWhile P s)))"

definition trim_end_matches :: "(char \<Rightarrow> bool) \<Rightarrow> string \<Rightarrow> string" where
  "trim_end_matches P s = rev (dropWhile P (rev s))"

fun split_pred :: "(char \<Rightarrow> bool) \<Rightarrow> string \<Rightarrow> string list" where
  "split_pred P [] = [[]]"
| "split_pred P (c # cs) =
     (if P c then [] # split_pred P cs
      else case split_pred P cs of
             [] \<Rightarrow> [[c]]
           | w # ws \<Rightarrow> (c # w) # ws)"

definition split_char :: "char \<Rightarrow> string \<Rightarrow> string list" where
  "split_char d s = split_pred (\<lambda>c. c = d) s"

definition split_whitespace :: "string \<Rightarrow> string list" where
  "split_whitespace s = filter (\<lambda>w. w \<noteq> []) (split_pred is_whitespace s)"

fun join_str :: "string \<Rightarrow> string list \<Rightarrow> string" where
  "join_str sep [] = []"
| "join_str sep [w] = w"
| "join_str sep (w # ws) = w @ sep @ join_str sep ws"

definition replace_char :: "char \<Rightarrow> char \<Rightarrow> string \<Rightarrow> string" where
  "replace_char a b s = map (\<lambda>c. if c = a then b else c) s"

definition strip_cr :: "string \<Rightarrow> string" where
  "strip_cr s = (if s \<noteq> [] \<and> last s = CHR 0x0D then butlast s else s)"

definition str_lines :: "string \<Rightarrow> string list" where
  "str_lines s =
     (let ws = split_char (CHR 0x0A) s
      in map strip_cr (butlast ws) @ (if last ws = [] then [] else [last ws]))"

text \<open>Decoding bytes: the continuation bytes a lead byte requires, as ranges; \<open>String::from_utf8\<close> accepts
  exactly the complete sequences, \<open>from_utf8_lossy\<close> replaces each maximal broken sequence by U+FFFD.\<close>

definition utf8_tail :: "nat \<Rightarrow> (nat \<times> nat) list option" where
  "utf8_tail b =
     (if b < 0x80 then Some []
      else if 0xC2 \<le> b \<and> b \<le> 0xDF then Some [(0x80, 0xBF)]
      else if b = 0xE0 then Some [(0xA0, 0xBF), (0x80, 0xBF)]
      else if b = 0xED then Some [(0x80, 0x9F), (0x80, 0xBF)]
      else if 0xE1 \<le> b \<and> b \<le> 0xEF then Some [(0x80, 0xBF), (0x80, 0xBF)]
      else if b = 0xF0 then Some [(0x90, 0xBF), (0x80, 0xBF), (0x80, 0xBF)]
      else if 0xF1 \<le> b \<and> b \<le> 0xF3 then Some [(0x80, 0xBF), (0x80, 0xBF), (0x80, 0xBF)]
      else if b = 0xF4 then Some [(0x80, 0x8F), (0x80, 0xBF), (0x80, 0xBF)]
      else None)"

fun cont_len :: "(nat \<times> nat) list \<Rightarrow> string \<Rightarrow> nat" where
  "cont_len ((lo, hi) # rs) (c # cs) =
     (if lo \<le> byte_of c \<and> byte_of c \<le> hi then Suc (cont_len rs cs) else 0)"
| "cont_len _ _ = 0"

fun utf8_valid :: "string \<Rightarrow> bool" where
  "utf8_valid [] \<longleftrightarrow> True"
| "utf8_valid (c # cs) \<longleftrightarrow>
     (case utf8_tail (byte_of c) of
        None \<Rightarrow> False
      | Some rs \<Rightarrow> cont_len rs cs = length rs \<and> utf8_valid (drop (length rs) cs))"

fun utf8_lossy :: "string \<Rightarrow> string" where
  "utf8_lossy [] = []"
| "utf8_lossy (c # cs) =
     (case utf8_tail (byte_of c) of
        None \<Rightarrow> [CHR 0xEF, CHR 0xBF, CHR 0xBD] @ utf8_lossy cs
      | Some rs \<Rightarrow>
          (if cont_len rs cs = length rs
           then c # take (length rs) cs @ utf8_lossy (drop (length rs) cs)
           else [CHR 0xEF, CHR 0xBF, CHR 0xBD] @ utf8_lossy (drop (cont_len rs cs) cs)))"

lemma utf8_lossy_valid [simp]: "utf8_valid s \<Longrightarrow> utf8_lossy s = s"
  by (induction s rule: utf8_valid.induct) (auto split: option.splits)

text \<open>Characters of the UTF-8 sequence: every byte that is not a continuation byte starts one.\<close>

definition is_continuation :: "char \<Rightarrow> bool" where
  "is_continuation c \<longleftrightarrow> 128 \<le> byte_of c \<and> byte_of c < 192"

definition char_count :: "string \<Rightarrow> nat" where
  "char_count s = length (filter (\<lambda>c. \<not> is_continuation c) s)"

fun take_chars :: "nat \<Rightarrow> string \<Rightarrow> string" where
  "take_chars n [] = []"
| "take_chars n (c # cs) =
     (if is_continuation c then c # take_chars n cs
      else case n of 0 \<Rightarrow> [] | Suc m \<Rightarrow> c # take_chars m cs)"

definition is_char_boundary :: "string \<Rightarrow> nat \<Rightarrow> bool" where
  "is_char_boundary s i \<longleftrightarrow> i = 0 \<or> i = length s \<or> (i < length s \<and> \<not> is_continuation (s ! i))"

lemma starts_with_prefix [rust_str]: "starts_with s p \<longleftrightarrow> prefix p s"
  by (auto simp: starts_with_def prefix_def) (metis append_take_drop_id)

lemma starts_with_append [simp]: "starts_with (p @ s) p"
  by (simp add: starts_with_def)

lemma starts_with_Nil [simp]: "starts_with s []"
  by (simp add: starts_with_def)

lemma ends_with_suffix [rust_str]: "ends_with s p \<longleftrightarrow> suffix p s"
  by (auto simp: ends_with_def suffix_def) (metis append_take_drop_id)

lemma strip_prefix_append [simp]: "strip_prefix (p @ s) p = Some s"
  by (simp add: strip_prefix_def)

lemma strip_prefix_SomeD [rust_str]: "strip_prefix s p = Some t \<Longrightarrow> s = p @ t"
  by (auto simp: strip_prefix_def starts_with_prefix prefix_def split: if_splits)

lemma strip_suffix_append [simp]: "strip_suffix (s @ p) p = Some s"
  by (simp add: strip_suffix_def ends_with_def)

lemma find_str_Some_split:
  "find_str s p = Some i \<Longrightarrow> s = take i s @ p @ drop (i + length p) s \<and> i + length p \<le> length s"
proof (induction s p arbitrary: i rule: find_str.induct)
  case (2 c cs p)
  show ?case
  proof (cases "starts_with (c # cs) p")
    case True
    then obtain t where "c # cs = p @ t" by (auto simp: starts_with_prefix prefix_def)
    moreover have "i = 0" using 2(2) True by simp
    ultimately show ?thesis by simp
  next
    case False
    with 2(2) obtain j where j: "find_str cs p = Some j" "i = Suc j" by auto
    from 2(1)[OF False j(1)] j(2) show ?thesis by simp
  qed
qed (auto split: if_splits)

lemma find_str_None_iff: "find_str s p = None \<longleftrightarrow> \<not> sublist p s"
proof (induction s p rule: find_str.induct)
  case (2 c cs p)
  then show ?case by (auto simp: starts_with_prefix sublist_Cons_right)
qed simp

lemma contains_str_sublist [rust_str]: "contains_str s p \<longleftrightarrow> sublist p s"
  by (simp add: contains_str_def find_str_None_iff)

lemma find_str_least: "find_str s p = Some i \<Longrightarrow> j < i \<Longrightarrow> \<not> starts_with (drop j s) p"
proof (induction s p arbitrary: i j rule: find_str.induct)
  case (2 c cs p)
  then show ?case by (cases j) (auto split: if_splits)
qed (auto split: if_splits)

lemma trim_str_first: "trim_str s = c # t \<Longrightarrow> \<not> is_whitespace c"
proof -
  assume h: "trim_str s = c # t"
  let ?d = "dropWhile is_whitespace s"
  have "prefix (trim_str s) ?d"
    by (simp add: trim_str_def trim_end_def trim_start_def flip: suffix_to_prefix)
      (metis suffix_dropWhile rev_rev_ident suffix_to_prefix)
  with h obtain r where "?d = c # r" by (metis prefix_Cons prefix_order.dual_order.refl list.exhaust prefix_Nil list.distinct(1) list.inject)
  then show ?thesis by (metis hd_dropWhile list.distinct(1) list.sel(1))
qed

lemma trim_str_id: "s = [] \<or> (\<not> is_whitespace (hd s) \<and> \<not> is_whitespace (last s)) \<Longrightarrow> trim_str s = s"
proof (cases s)
  case (Cons a t)
  assume "s = [] \<or> (\<not> is_whitespace (hd s) \<and> \<not> is_whitespace (last s))"
  with Cons have h: "\<not> is_whitespace (hd s)" "\<not> is_whitespace (hd (rev s))"
    unfolding hd_rev by blast+
  then have "dropWhile is_whitespace s = s" "dropWhile is_whitespace (rev s) = rev s"
    using Cons by (auto simp: dropWhile_eq_self_iff)
  then show ?thesis by (simp add: trim_str_def trim_start_def trim_end_def)
qed (simp add: trim_str_def trim_start_def trim_end_def)

lemma trim_str_sublist: "sublist (trim_str s) s"
proof -
  have "prefix (trim_str s) (dropWhile is_whitespace s)"
    by (simp add: trim_str_def trim_end_def trim_start_def flip: suffix_to_prefix)
      (metis suffix_dropWhile rev_rev_ident suffix_to_prefix)
  then show ?thesis
    by (meson prefix_imp_sublist suffix_dropWhile suffix_imp_sublist sublist_order.order_trans)
qed

lemma split_pred_not_Nil [simp]: "split_pred P s \<noteq> []"
  by (induction s) (auto split: list.splits)

lemma split_pred_no_sep: "w \<in> set (split_pred P s) \<Longrightarrow> c \<in> set w \<Longrightarrow> \<not> P c"
proof (induction s arbitrary: w)
  case (Cons a s)
  then show ?case by (cases "split_pred P s") (fastforce split: if_splits)+
qed simp

lemma split_pred_chars: "w \<in> set (split_pred P s) \<Longrightarrow> set w \<subseteq> set s"
proof (induction s arbitrary: w)
  case (Cons a s)
  then show ?case by (cases "split_pred P s") (fastforce split: if_splits)+
qed simp

lemma split_pred_single: "(\<forall>c \<in> set s. \<not> P c) \<Longrightarrow> split_pred P s = [s]"
  by (induction s) auto

lemma join_split_char [rust_str]: "join_str [d] (split_char d s) = s"
proof (induction s)
  case (Cons a s)
  then show ?case
    by (cases "split_pred (\<lambda>c. c = d) s"; cases "tl (split_pred (\<lambda>c. c = d) s)")
      (auto simp: split_char_def)
qed (simp add: split_char_def)

lemma split_pred_append: "\<forall>c \<in> set x. \<not> P c \<Longrightarrow> P d \<Longrightarrow> split_pred P (x @ d # y) = x # split_pred P y"
  by (induction x) auto

lemma split_join:
  "ws \<noteq> [] \<Longrightarrow> \<forall>w \<in> set ws. d \<notin> set w \<Longrightarrow> split_char d (join_str [d] ws) = ws"
proof (induction ws rule: induct_list012)
  case (2 w)
  then show ?case by (auto simp: split_char_def intro!: split_pred_single)
next
  case (3 w v ws)
  have "split_pred (\<lambda>c. c = d) (w @ d # join_str [d] (v # ws)) = w # split_pred (\<lambda>c. c = d) (join_str [d] (v # ws))"
    using 3(4) by (intro split_pred_append) auto
  with 3(2,4) show ?case by (simp add: split_char_def)
qed simp

lemma replace_char_id: "a \<notin> set s \<Longrightarrow> replace_char a b s = s"
  by (induction s) (auto simp: replace_char_def)

lemma set_join_str: "set (join_str sep ws) \<subseteq> set sep \<union> (\<Union>w \<in> set ws. set w)"
  by (induction sep ws rule: join_str.induct) auto

lemma replace_char_absent: "a \<noteq> b \<Longrightarrow> a \<notin> set (replace_char a b s)"
  by (auto simp: replace_char_def)

section \<open>Numbers in decimal and hexadecimal\<close>

definition digit_char :: "nat \<Rightarrow> char" where
  "digit_char d = (if d < 10 then char_of (48 + d) else char_of (87 + d))"

fun nat_digits :: "nat \<Rightarrow> string" where
  "nat_digits n = (if n < 10 then [digit_char n] else nat_digits (n div 10) @ [digit_char (n mod 10)])"

declare nat_digits.simps [simp del]

definition int_text :: "int \<Rightarrow> string" where
  "int_text i = (if i < 0 then CHR ''-'' # nat_digits (nat (- i)) else nat_digits (nat i))"

fun hex_digits :: "nat \<Rightarrow> nat \<Rightarrow> string" where
  "hex_digits 0 n = []"
| "hex_digits (Suc k) n = hex_digits k (n div 16) @ [digit_char (n mod 16)]"

lemma length_hex_digits [simp]: "length (hex_digits k n) = k"
  by (induction k arbitrary: n) auto

lemma byte_of_digit_char: "n < 16 \<Longrightarrow> byte_of (digit_char n) = (if n < 10 then 48 + n else 87 + n)"
  by (simp add: digit_char_def)

lemma digit_char_inj: "a < 16 \<Longrightarrow> b < 16 \<Longrightarrow> digit_char a = digit_char b \<Longrightarrow> a = b"
proof -
  assume a: "a < 16" and b: "b < 16" and "digit_char a = digit_char b"
  then have "byte_of (digit_char a) = byte_of (digit_char b)" by simp
  then show "a = b"
    unfolding byte_of_digit_char [OF a] byte_of_digit_char [OF b] using a b
    by (simp split: if_splits)
qed

section \<open>Fallible pipelines\<close>

text \<open>\<open>iter().map(f).collect::<Result<Vec<_>, _>>()\<close>: the first error wins.\<close>

fun try_map :: "('a \<Rightarrow> 'e + 'b) \<Rightarrow> 'a list \<Rightarrow> 'e + 'b list" where
  "try_map f [] = Inr []"
| "try_map f (x # xs) =
     (case f x of
        Inl e \<Rightarrow> Inl e
      | Inr y \<Rightarrow> (case try_map f xs of Inl e \<Rightarrow> Inl e | Inr ys \<Rightarrow> Inr (y # ys)))"

lemma try_map_cong [fundef_cong]:
  "xs = ys \<Longrightarrow> (\<And>x. x \<in> set ys \<Longrightarrow> f x = g x) \<Longrightarrow> try_map f xs = try_map g ys"
  by (induction ys arbitrary: xs) (auto split: sum.splits)

lemma try_map_InrI: "list_all2 (\<lambda>x y. f x = Inr y) xs ys \<Longrightarrow> try_map f xs = Inr ys"
  by (induction rule: list_all2_induct) auto

lemma try_map_InrD: "try_map f xs = Inr ys \<Longrightarrow> list_all2 (\<lambda>x y. f x = Inr y) xs ys"
  by (induction xs arbitrary: ys) (auto split: sum.splits)

lemma try_map_Inr_iff [result_simps]:
  "try_map f xs = Inr ys \<longleftrightarrow> list_all2 (\<lambda>x y. f x = Inr y) xs ys"
  by (blast intro: try_map_InrI try_map_InrD)

lemma try_map_Inl:
  "try_map f xs = Inl e \<Longrightarrow> \<exists>x \<in> set xs. f x = Inl e"
  by (induction xs) (auto split: sum.splits)

lemma try_map_pure: "(\<forall>x \<in> set xs. f x = Inr (g x)) \<Longrightarrow> try_map f xs = Inr (map g xs)"
  by (induction xs) auto

section \<open>Ordered maps\<close>

text \<open>
  \<open>BTreeMap<K, V>\<close> as its iteration sequence: an association list with strictly
  increasing keys (byte order on strings).
\<close>

fun bt_insert :: "'k::linorder \<Rightarrow> 'v \<Rightarrow> ('k \<times> 'v) list \<Rightarrow> ('k \<times> 'v) list" where
  "bt_insert k v [] = [(k, v)]"
| "bt_insert k v ((k', v') # m) =
     (if k < k' then (k, v) # (k', v') # m
      else if k = k' then (k, v) # m
      else (k', v') # bt_insert k v m)"

definition bt_get :: "('k \<times> 'v) list \<Rightarrow> 'k \<Rightarrow> 'v option" where
  "bt_get m k = map_of m k"

definition bt_remove :: "'k \<Rightarrow> ('k \<times> 'v) list \<Rightarrow> ('k \<times> 'v) list" where
  "bt_remove k m = filter (\<lambda>p. fst p \<noteq> k) m"

definition bt_sorted :: "('k::linorder \<times> 'v) list \<Rightarrow> bool" where
  "bt_sorted m \<longleftrightarrow> sorted_wrt (<) (map fst m)"

definition bt_contains :: "('k \<times> 'v) list \<Rightarrow> 'k \<Rightarrow> bool" where
  "bt_contains m k \<longleftrightarrow> bt_get m k \<noteq> None"

lemma keys_bt_insert [map_simps]: "fst ` set (bt_insert k v m) = insert k (fst ` set m)"
proof (induction m)
  case (Cons p m)
  then show ?case by (cases p) (simp add: insert_commute)
qed simp

lemma bt_sorted_Nil [simp]: "bt_sorted []"
  by (simp add: bt_sorted_def)

lemma bt_sorted_insert [simp, intro]: "bt_sorted m \<Longrightarrow> bt_sorted (bt_insert k v m)"
  unfolding bt_sorted_def
proof (induction m)
  case (Cons p m)
  obtain k' v' where p: "p = (k', v')" by (cases p)
  have "\<forall>x \<in> fst ` set (bt_insert k v m). k' < x" if "k' < k"
    using Cons.prems that p by (auto simp: keys_bt_insert)
  with Cons p show ?case by (auto simp: not_less less_le order.strict_trans)
qed simp

lemma bt_sorted_remove [simp, intro]: "bt_sorted m \<Longrightarrow> bt_sorted (bt_remove k m)"
  unfolding bt_sorted_def bt_remove_def
  by (induction m) auto

lemma bt_get_Nil [simp]: "bt_get [] k = None"
  by (simp add: bt_get_def)

lemma bt_get_insert [map_simps]:
  "bt_get (bt_insert k v m) x = (if x = k then Some v else bt_get m x)"
  unfolding bt_get_def by (induction m) auto

lemma bt_get_remove [map_simps]:
  "bt_get (bt_remove k m) x = (if x = k then None else bt_get m x)"
  unfolding bt_get_def bt_remove_def by (induction m) auto

lemma bt_insert_same: "bt_sorted m \<Longrightarrow> bt_get m k = Some v \<Longrightarrow> bt_insert k v m = m"
  unfolding bt_get_def bt_sorted_def
  by (induction m) (auto dest!: map_of_SomeD split: if_splits)

lemma bt_sorted_ext: "bt_sorted m \<Longrightarrow> bt_sorted m' \<Longrightarrow> (\<And>k. bt_get m k = bt_get m' k) \<Longrightarrow> m = m'"
proof -
  assume s: "bt_sorted m" "bt_sorted m'" and g: "\<And>k. bt_get m k = bt_get m' k"
  have d: "distinct (map fst m)" "distinct (map fst m')"
    using s by (auto simp: bt_sorted_def strict_sorted_iff)
  have "set m = set m'"
    using g d by (auto simp: bt_get_def set_eq_iff) (metis map_of_eq_Some_iff)+
  moreover have "sorted (map fst m)" "sorted (map fst m')"
    using s by (auto simp: bt_sorted_def strict_sorted_iff)
  ultimately show "m = m'"
    using d map_sorted_distinct_set_unique [of fst m m'] by (simp add: distinct_map)
qed

text \<open>Collecting pairs into a \<open>BTreeMap\<close>: later pairs overwrite earlier ones.\<close>

definition bt_collect :: "('k::linorder \<times> 'v) list \<Rightarrow> ('k \<times> 'v) list" where
  "bt_collect ps = fold (\<lambda>(k, v) m. bt_insert k v m) ps []"

lemma bt_sorted_fold: "bt_sorted m \<Longrightarrow> bt_sorted (fold (\<lambda>(k, v) m. bt_insert k v m) ps m)"
  by (induction ps arbitrary: m) auto

lemma bt_sorted_collect [simp]: "bt_sorted (bt_collect ps)"
  by (simp add: bt_collect_def bt_sorted_fold)

lemma bt_insert_last: "bt_sorted (m @ [(k, v)]) \<Longrightarrow> bt_insert k v m = m @ [(k, v)]"
  unfolding bt_sorted_def
  by (induction m) (auto simp: sorted_wrt_append not_less less_le)

lemma bt_get_collect: "bt_get (bt_collect ps) k = map_of (rev ps) k"
proof -
  have "bt_get (fold (\<lambda>(k, v) m. bt_insert k v m) ps m) k = (map_of m ++ map_of (rev ps)) k" for m
  proof (induction ps arbitrary: m)
    case (Cons p ps)
    then show ?case by (cases p) (simp add: map_simps map_add_def bt_get_def [symmetric] split: option.split)
  qed (simp add: bt_get_def)
  then show ?thesis by (simp add: bt_collect_def)
qed

lemma bt_collect_id [simp]: "bt_sorted m \<Longrightarrow> bt_collect m = m"
proof (induction m rule: rev_induct)
  case (snoc p m)
  have "bt_sorted m" using snoc.prems by (simp add: bt_sorted_def sorted_wrt_append)
  with snoc show ?case by (cases p) (simp add: bt_collect_def bt_insert_last)
qed (simp add: bt_collect_def)

lemma option_eqI: "(\<And>x. a = Some x \<longleftrightarrow> b = Some x) \<Longrightarrow> a = b"
  by (cases a) (metis option.exhaust)+

section \<open>Lists\<close>

lemma map_update_same:
  "i < length xs \<Longrightarrow> f y = f (xs ! i) \<Longrightarrow> map f (xs[i := y]) = map f xs"
  by (simp add: map_update) (metis list_update_id nth_map)

definition remove_at :: "nat \<Rightarrow> 'a list \<Rightarrow> 'a list" where
  "remove_at i xs = take i xs @ drop (Suc i) xs"

lemma map_remove_at: "map f (remove_at i xs) = remove_at i (map f xs)"
  by (simp add: remove_at_def take_map drop_map)

lemma distinct_remove_at: "distinct xs \<Longrightarrow> distinct (remove_at i xs)"
proof (cases "i < length xs")
  case True
  assume "distinct xs"
  with True have "distinct (take i xs @ xs ! i # drop (Suc i) xs)" by (simp add: id_take_nth_drop [symmetric])
  then show ?thesis by (simp add: remove_at_def)
qed (simp add: remove_at_def)

lemma set_remove_at:
  "i < length xs \<Longrightarrow> distinct xs \<Longrightarrow> set (remove_at i xs) = set xs - {xs ! i}"
proof -
  assume i: "i < length xs" and d: "distinct xs"
  have e: "xs = take i xs @ xs ! i # drop (Suc i) xs" using i by (rule id_take_nth_drop)
  have "xs ! i \<notin> set (remove_at i xs)"
    using d e unfolding remove_at_def by (metis distinct_append not_distinct_conv_prefix Un_iff distinct.simps(2) set_append disjoint_iff list.set_intros(1))
  moreover have "set xs = insert (xs ! i) (set (remove_at i xs))"
    using arg_cong [OF e, of set] by (simp add: remove_at_def)
  ultimately show ?thesis by auto
qed

end
