(* ===== verification/Json.thy ===== *)
theory Json
  imports Prelude
begin

text \<open>
  The values of \<open>serde_json::Value\<close> that flow through proposals, workflow arguments,
  predicates and observations, with the accessors the runtime calls on them and the compact
  printer behind \<open>Value::to_string\<close> (used by the mechanical trigger match). Numbers are the
  integer fragment; an object is a \<open>BTreeMap\<close>, so its pairs are sorted by key.
\<close>

section \<open>Values and accessors\<close>

datatype json =
    JNull
  | JBool bool
  | JNumber int
  | JString string
  | JArray "json list"
  | JObject "(string \<times> json) list"

fun json_get :: "json \<Rightarrow> string \<Rightarrow> json option" where
  "json_get (JObject m) k = bt_get m k"
| "json_get _ k = None"

fun as_str :: "json \<Rightarrow> string option" where
  "as_str (JString s) = Some s"
| "as_str _ = None"

fun as_array :: "json \<Rightarrow> json list option" where
  "as_array (JArray xs) = Some xs"
| "as_array _ = None"

fun as_bool :: "json \<Rightarrow> bool option" where
  "as_bool (JBool b) = Some b"
| "as_bool _ = None"

fun as_i64 :: "json \<Rightarrow> int option" where
  "as_i64 (JNumber n) = (if - (2 ^ 63) \<le> n \<and> n < 2 ^ 63 then Some n else None)"
| "as_i64 _ = None"

definition get_str :: "json \<Rightarrow> string \<Rightarrow> string option" where
  "get_str v k = Option.bind (json_get v k) as_str"

text \<open>Building an object literal (\<open>json!({...})\<close>) sorts its keys.\<close>

definition json_object :: "(string \<times> json) list \<Rightarrow> json" where
  "json_object ps = JObject (bt_collect ps)"

text \<open>Well-formed values: every object is a strictly sorted map.\<close>

fun json_wf :: "json \<Rightarrow> bool" where
  "json_wf (JArray xs) \<longleftrightarrow> (\<forall>x \<in> set xs. json_wf x)"
| "json_wf (JObject m) \<longleftrightarrow> bt_sorted m \<and> (\<forall>p \<in> set m. json_wf (snd p))"
| "json_wf _ \<longleftrightarrow> True"

section \<open>The compact printer\<close>

definition escape_char :: "char \<Rightarrow> string" where
  "escape_char c =
     (if c = CHR 0x22 then [CHR 0x5C, CHR 0x22]
      else if c = CHR 0x5C then [CHR 0x5C, CHR 0x5C]
      else if c = CHR 0x08 then [CHR 0x5C, CHR ''b'']
      else if c = CHR 0x09 then [CHR 0x5C, CHR ''t'']
      else if c = CHR 0x0A then [CHR 0x5C, CHR ''n'']
      else if c = CHR 0x0C then [CHR 0x5C, CHR ''f'']
      else if c = CHR 0x0D then [CHR 0x5C, CHR ''r'']
      else if byte_of c < 32 then [CHR 0x5C, CHR ''u''] @ hex_digits 4 (byte_of c)
      else [c])"

definition quote_str :: "string \<Rightarrow> string" where
  "quote_str s = [CHR 0x22] @ concat (map escape_char s) @ [CHR 0x22]"

fun json_text :: "json \<Rightarrow> string" where
  "json_text JNull = ''null''"
| "json_text (JBool b) = (if b then ''true'' else ''false'')"
| "json_text (JNumber n) = int_text n"
| "json_text (JString s) = quote_str s"
| "json_text (JArray xs) = ''['' @ join_str '','' (map json_text xs) @ '']''"
| "json_text (JObject m) =
     ''{'' @ join_str '','' (map (\<lambda>(k, v). quote_str k @ '':'' @ json_text v) m) @ ''}''"

lemma json_get_JObject_wf:
  "json_wf v \<Longrightarrow> json_get v k = Some w \<Longrightarrow> json_wf w"
  by (cases v) (auto simp: bt_get_def dest!: map_of_SomeD)

lemma json_object_wf: "(\<forall>p \<in> set ps. json_wf (snd p)) \<Longrightarrow> json_wf (json_object ps)"
proof -
  have step: "\<forall>q \<in> set (bt_insert k v m). json_wf (snd q)"
    if "json_wf v" "\<forall>q \<in> set m. json_wf (snd q)" for k v and m :: "json btree"
    using that
  proof (induction m)
    case (Cons p m)
    then show ?case by (cases p) simp
  qed simp
  have "\<forall>q \<in> set (fold (\<lambda>(k, v) m. bt_insert k v m) ps m). json_wf (snd q)"
    if "\<forall>p \<in> set ps. json_wf (snd p)" "\<forall>q \<in> set m. json_wf (snd q)" for m :: "json btree"
    using that
  proof (induction ps arbitrary: m)
    case (Cons p ps)
    obtain k v where p: "p = (k, v)" by (cases p)
    with Cons.prems have "\<forall>q \<in> set (bt_insert k v m). json_wf (snd q)" by (intro step) auto
    with Cons p show ?case by simp
  qed simp
  from this [of "[]"] show "(\<forall>p \<in> set ps. json_wf (snd p)) \<Longrightarrow> json_wf (json_object ps)"
    using bt_sorted_collect [of ps] by (simp add: json_object_def bt_collect_def)
qed

lemma json_get_object: "json_get (json_object ps) k = map_of (rev ps) k"
  by (simp add: json_object_def bt_get_collect)

lemma get_str_object [simp]: "get_str (JObject m) k = Option.bind (bt_get m k) as_str"
  by (simp add: get_str_def)

end
