(* ===== verification/Filesystem.thy ===== *)
theory Filesystem
  imports Prelude
begin

text \<open>
  The fragment of \<open>std::fs\<close> and \<open>std::path\<close> that the runtime calls, over an explicit Unix file
  tree with symbolic links. A path is its list of components below the root; the tree maps
  resolved paths to files, directories and links. Every operation resolves symbolic links the
  way the system call does: \<open>open\<close> follows a final link (also a dangling one, which creates
  the link target), \<open>rename\<close>, \<open>mkdir\<close> and \<open>unlink\<close> do not. Link targets are stored resolved.
  Permissions, quotas and concurrent writers are not modelled.
\<close>

section \<open>Paths\<close>

type_synonym path = "string list"

definition path_of_text :: "string \<Rightarrow> path" where
  "path_of_text s = filter (\<lambda>c. c \<noteq> [] \<and> c \<noteq> ''.'') (split_char (CHR ''/'') s)"

definition path_text :: "path \<Rightarrow> string" where
  "path_text p = (if p = [] then ''/'' else concat (map (\<lambda>c. CHR ''/'' # c) p))"

text \<open>\<open>Path::join\<close>: an absolute right operand replaces the left one. Trailing separators are dropped.\<close>

definition path_join :: "path \<Rightarrow> string \<Rightarrow> path" where
  "path_join p s = (if starts_with s ''/'' then path_of_text s else p @ path_of_text s)"

definition path_parent :: "path \<Rightarrow> path option" where
  "path_parent p = (if p = [] then None else Some (butlast p))"

fun path_strip_prefix :: "path \<Rightarrow> path \<Rightarrow> path option" where
  "path_strip_prefix p [] = Some p"
| "path_strip_prefix [] (b # bs) = None"
| "path_strip_prefix (a # as) (b # bs) = (if a = b then path_strip_prefix as bs else None)"

lemma path_strip_prefix_Some_iff [simp]: "path_strip_prefix p b = Some r \<longleftrightarrow> p = b @ r"
  by (induction p b rule: path_strip_prefix.induct) auto

lemma path_strip_prefix_append [simp]: "path_strip_prefix (b @ r) b = Some r"
  by simp

definition path_starts_with :: "path \<Rightarrow> path \<Rightarrow> bool" where
  "path_starts_with p b \<longleftrightarrow> path_strip_prefix p b \<noteq> None"

lemma path_starts_with_prefix: "path_starts_with p b \<longleftrightarrow> prefix b p"
  by (auto simp: path_starts_with_def prefix_def)

text \<open>A relative path as text: \<open>rel.to_string_lossy()\<close> of a stripped prefix.\<close>

definition rel_text :: "path \<Rightarrow> string" where
  "rel_text r = join_str ''/'' r"

section \<open>The tree\<close>

datatype node = FileNode string | DirNode | LinkNode path

record fsys =
  tree :: "(path \<times> node) list"
  dir_size :: nat

datatype io_error =
  ENOENT | ENOTDIR | EISDIR | EEXIST | ENOTEMPTY | EINVAL | ELOOP | NotRegularFile | InvalidUtf8

fun io_text :: "io_error \<Rightarrow> string" where
  "io_text ENOENT = ''No such file or directory (os error 2)''"
| "io_text ENOTDIR = ''Not a directory (os error 20)''"
| "io_text EISDIR = ''Is a directory (os error 21)''"
| "io_text EEXIST = ''File exists (os error 17)''"
| "io_text ENOTEMPTY = ''Directory not empty (os error 39)''"
| "io_text EINVAL = ''Invalid argument (os error 22)''"
| "io_text ELOOP = ''Too many levels of symbolic links (os error 40)''"
| "io_text NotRegularFile = ''the source path is neither a regular file nor a symlink to a regular file''"
| "io_text InvalidUtf8 = ''stream did not contain valid UTF-8''"

definition node_at :: "fsys \<Rightarrow> path \<Rightarrow> node option" where
  "node_at fs p = bt_get (tree fs) p"

definition put_node :: "path \<Rightarrow> node \<Rightarrow> fsys \<Rightarrow> fsys" where
  "put_node p n fs = fs\<lparr>tree := bt_insert p n (tree fs)\<rparr>"

definition drop_node :: "path \<Rightarrow> fsys \<Rightarrow> fsys" where
  "drop_node p fs = fs\<lparr>tree := bt_remove p (tree fs)\<rparr>"

definition follow :: "fsys \<Rightarrow> path \<Rightarrow> path" where
  "follow fs p = (case node_at fs p of Some (LinkNode t) \<Rightarrow> t | _ \<Rightarrow> p)"

definition walk :: "fsys \<Rightarrow> path \<Rightarrow> string \<Rightarrow> path" where
  "walk fs cur c = (if c = ''..'' then butlast cur else follow fs (cur @ [c]))"

definition resolve_path :: "fsys \<Rightarrow> path \<Rightarrow> path" where
  "resolve_path fs p = foldl (walk fs) [] p"

definition locate :: "fsys \<Rightarrow> path \<Rightarrow> path" where
  "locate fs p = (if p = [] then [] else resolve_path fs (butlast p) @ [last p])"

definition stat :: "fsys \<Rightarrow> path \<Rightarrow> node option" where
  "stat fs p = (case node_at fs (resolve_path fs p) of Some (LinkNode _) \<Rightarrow> None | r \<Rightarrow> r)"

section \<open>Operations\<close>

definition fs_exists :: "fsys \<Rightarrow> path \<Rightarrow> bool" where
  "fs_exists fs p \<longleftrightarrow> stat fs p \<noteq> None"

definition fs_is_dir :: "fsys \<Rightarrow> path \<Rightarrow> bool" where
  "fs_is_dir fs p \<longleftrightarrow> stat fs p = Some DirNode"

definition fs_is_file :: "fsys \<Rightarrow> path \<Rightarrow> bool" where
  "fs_is_file fs p \<longleftrightarrow> (case stat fs p of Some (FileNode _) \<Rightarrow> True | _ \<Rightarrow> False)"

definition fs_canonicalize :: "fsys \<Rightarrow> path \<Rightarrow> io_error + path" where
  "fs_canonicalize fs p = (if fs_exists fs p then Inr (resolve_path fs p) else Inl ENOENT)"

definition fs_len :: "fsys \<Rightarrow> path \<Rightarrow> io_error + nat" where
  "fs_len fs p =
     (case stat fs p of
        Some (FileNode c) \<Rightarrow> Inr (length c)
      | Some _ \<Rightarrow> Inr (dir_size fs)
      | None \<Rightarrow> Inl ENOENT)"

definition fs_read_bytes :: "fsys \<Rightarrow> path \<Rightarrow> io_error + string" where
  "fs_read_bytes fs p =
     (case stat fs p of
        Some (FileNode c) \<Rightarrow> Inr c
      | Some _ \<Rightarrow> Inl EISDIR
      | None \<Rightarrow> Inl ENOENT)"

definition fs_read_to_string :: "fsys \<Rightarrow> path \<Rightarrow> io_error + string" where
  "fs_read_to_string fs p =
     (case fs_read_bytes fs p of
        Inl e \<Rightarrow> Inl e
      | Inr c \<Rightarrow> (if utf8_valid c then Inr c else Inl InvalidUtf8))"

text \<open>Opening for writing: \<open>old\<close> receives the previous bytes (empty for a new file).\<close>

definition fs_open_write :: "(string \<Rightarrow> string) \<Rightarrow> fsys \<Rightarrow> path \<Rightarrow> io_error + fsys" where
  "fs_open_write new fs p =
     (let r = resolve_path fs p
      in case node_at fs r of
           Some (FileNode c) \<Rightarrow> Inr (put_node r (FileNode (new c)) fs)
         | Some DirNode \<Rightarrow> Inl EISDIR
         | Some (LinkNode _) \<Rightarrow> Inl ELOOP
         | None \<Rightarrow>
             (case path_parent r of
                None \<Rightarrow> Inl EISDIR
              | Some d \<Rightarrow>
                  (case node_at fs d of
                     Some DirNode \<Rightarrow> Inr (put_node r (FileNode (new [])) fs)
                   | Some _ \<Rightarrow> Inl ENOTDIR
                   | None \<Rightarrow> Inl ENOENT)))"

definition fs_write_bytes :: "fsys \<Rightarrow> path \<Rightarrow> string \<Rightarrow> io_error + fsys" where
  "fs_write_bytes fs p c = fs_open_write (\<lambda>_. c) fs p"

definition fs_append_bytes :: "fsys \<Rightarrow> path \<Rightarrow> string \<Rightarrow> io_error + fsys" where
  "fs_append_bytes fs p c = fs_open_write (\<lambda>old. old @ c) fs p"

text \<open>\<open>fs::copy\<close> truncates the destination before it reads when both names are one file.\<close>

definition fs_copy :: "fsys \<Rightarrow> path \<Rightarrow> path \<Rightarrow> io_error + fsys" where
  "fs_copy fs src dst =
     (case stat fs src of
        Some (FileNode c) \<Rightarrow>
          fs_write_bytes fs dst (if resolve_path fs src = resolve_path fs dst then [] else c)
      | Some _ \<Rightarrow> Inl NotRegularFile
      | None \<Rightarrow> Inl ENOENT)"

definition fs_mkdir :: "fsys \<Rightarrow> path \<Rightarrow> io_error + fsys" where
  "fs_mkdir fs p =
     (if fs_is_dir fs p then Inr fs
      else case node_at fs (locate fs p) of
             Some (FileNode _) \<Rightarrow> Inl EEXIST
           | Some (LinkNode _) \<Rightarrow> Inl EEXIST
           | Some DirNode \<Rightarrow> Inr fs
           | None \<Rightarrow>
               (case node_at fs (butlast (locate fs p)) of
                  Some DirNode \<Rightarrow> Inr (put_node (locate fs p) DirNode fs)
                | Some _ \<Rightarrow> Inl ENOTDIR
                | None \<Rightarrow> Inl ENOENT))"

fun fs_mkdirs :: "fsys \<Rightarrow> path \<Rightarrow> path \<Rightarrow> io_error + fsys" where
  "fs_mkdirs fs pre [] = Inr fs"
| "fs_mkdirs fs pre (c # cs) =
     (case fs_mkdir fs (pre @ [c]) of
        Inl e \<Rightarrow> Inl e
      | Inr fs' \<Rightarrow> fs_mkdirs fs' (pre @ [c]) cs)"

definition fs_create_dir_all :: "fsys \<Rightarrow> path \<Rightarrow> io_error + fsys" where
  "fs_create_dir_all fs p = fs_mkdirs fs [] p"

definition fs_remove_file :: "fsys \<Rightarrow> path \<Rightarrow> io_error + fsys" where
  "fs_remove_file fs p =
     (case node_at fs (locate fs p) of
        Some DirNode \<Rightarrow> Inl EISDIR
      | Some _ \<Rightarrow> Inr (drop_node (locate fs p) fs)
      | None \<Rightarrow> Inl ENOENT)"

definition drop_below :: "path \<Rightarrow> fsys \<Rightarrow> fsys" where
  "drop_below p fs = fs\<lparr>tree := filter (\<lambda>e. \<not> path_starts_with (fst e) p) (tree fs)\<rparr>"

definition fs_remove_dir_all :: "fsys \<Rightarrow> path \<Rightarrow> io_error + fsys" where
  "fs_remove_dir_all fs p =
     (case node_at fs (locate fs p) of
        Some DirNode \<Rightarrow> Inr (drop_below (locate fs p) fs)
      | Some (LinkNode _) \<Rightarrow> Inr (drop_node (locate fs p) fs)
      | Some (FileNode _) \<Rightarrow> Inl ENOTDIR
      | None \<Rightarrow> Inl ENOENT)"

definition has_children :: "fsys \<Rightarrow> path \<Rightarrow> bool" where
  "has_children fs p \<longleftrightarrow> list_ex (\<lambda>e. path_starts_with (fst e) p \<and> fst e \<noteq> p) (tree fs)"

definition move_tree :: "path \<Rightarrow> path \<Rightarrow> fsys \<Rightarrow> fsys" where
  "move_tree src dst fs =
     fs\<lparr>tree := fold (\<lambda>(q, n) m.
          case path_strip_prefix q src of
            Some r \<Rightarrow> bt_insert (dst @ r) n (bt_remove q m)
          | None \<Rightarrow> m) (tree fs) (tree fs)\<rparr>"

definition fs_rename :: "fsys \<Rightarrow> path \<Rightarrow> path \<Rightarrow> io_error + fsys" where
  "fs_rename fs src dst =
     (let s = locate fs src; d = locate fs dst
      in case node_at fs s of
           None \<Rightarrow> Inl ENOENT
         | Some n \<Rightarrow>
             (if s = d then Inr fs
              else case node_at fs (butlast d) of
                     None \<Rightarrow> Inl ENOENT
                   | Some DirNode \<Rightarrow>
                       (case (n, node_at fs d) of
                          (DirNode, target) \<Rightarrow>
                            (if path_starts_with d s then Inl EINVAL
                             else case target of
                                    None \<Rightarrow> Inr (move_tree s d fs)
                                  | Some DirNode \<Rightarrow>
                                      (if has_children fs d then Inl ENOTEMPTY
                                       else Inr (move_tree s d fs))
                                  | Some _ \<Rightarrow> Inl ENOTDIR)
                        | (_, Some DirNode) \<Rightarrow> Inl EISDIR
                        | (_, _) \<Rightarrow> Inr (put_node d n (drop_node s fs)))
                   | Some _ \<Rightarrow> Inl ENOTDIR))"

section \<open>Laws\<close>

lemma node_at_put [simp]: "node_at (put_node p n fs) q = (if q = p then Some n else node_at fs q)"
  by (simp add: node_at_def put_node_def map_simps)

lemma node_at_drop [simp]: "node_at (drop_node p fs) q = (if q = p then None else node_at fs q)"
  by (simp add: node_at_def drop_node_def map_simps)

lemma node_at_drop_below [simp]:
  "node_at (drop_below p fs) q = (if prefix p q then None else node_at fs q)"
proof -
  have "bt_get (filter (\<lambda>e. \<not> path_starts_with (fst e) p) m) q =
      (if prefix p q then None else bt_get m q)" for m :: "(path \<times> node) list"
    unfolding bt_get_def by (induction m) (auto simp: path_starts_with_prefix)
  then show ?thesis by (simp add: node_at_def drop_below_def)
qed

lemma resolve_path_Nil [simp]: "resolve_path fs [] = []"
  by (simp add: resolve_path_def)

lemma resolve_path_snoc: "resolve_path fs (p @ [c]) = walk fs (resolve_path fs p) c"
  by (simp add: resolve_path_def)

lemma resolve_path_append: "resolve_path fs (p @ q) = foldl (walk fs) (resolve_path fs p) q"
  by (simp add: resolve_path_def)

text \<open>Resolution depends on the links of the tree only.\<close>

definition links_of :: "fsys \<Rightarrow> path \<Rightarrow> path option" where
  "links_of fs p = (case node_at fs p of Some (LinkNode t) \<Rightarrow> Some t | _ \<Rightarrow> None)"

lemma follow_links: "follow fs p = (case links_of fs p of Some t \<Rightarrow> t | None \<Rightarrow> p)"
  by (simp add: follow_def links_of_def split: option.splits node.splits)

lemma resolve_path_cong: "(\<And>p. links_of fs p = links_of fs' p) \<Longrightarrow> resolve_path fs q = resolve_path fs' q"
proof (induction q rule: rev_induct)
  case (snoc c q)
  then show ?case by (simp add: resolve_path_snoc walk_def follow_links)
qed simp

lemma fs_open_write_cases:
  assumes "fs_open_write new fs p = Inr fs'"
  obtains c where "fs' = put_node (resolve_path fs p) (FileNode (new c)) fs"
    and "node_at fs (resolve_path fs p) = Some (FileNode c) \<or> node_at fs (resolve_path fs p) = None \<and> c = []"
  using assms by (auto simp: fs_open_write_def Let_def split: option.splits node.splits)

lemma fs_mkdir_cases:
  assumes "fs_mkdir fs p = Inr fs'"
  shows "fs' = fs \<or> (fs' = put_node (locate fs p) DirNode fs \<and> node_at fs (locate fs p) = None)"
  using assms by (auto simp: fs_mkdir_def split: option.splits node.splits if_splits)

end
