(* ===== verification/Text.thy ===== *)
theory Text
  imports Json Filesystem
begin

text \<open>
  More of the Rust text vocabulary, used by the learning half of the runtime: characters of a
  UTF-8 text, splitting on a substring, replacement, stateful fallible maps, and number parsing.
\<close>

section \<open>Characters of a text\<close>

text \<open>\<open>str::chars\<close>: a lead byte with the continuation bytes that follow it.\<close>

function chars_of :: "string \<Rightarrow> string list" where
  "chars_of [] = []"
| "chars_of (c # cs) = (c # takeWhile is_continuation cs) # chars_of (dropWhile is_continuation cs)"
  by pat_completeness auto
termination
  by (relation "measure length") (auto simp: le_imp_less_Suc length_dropWhile_le)

lemma concat_chars_of [simp]: "concat (chars_of s) = s"
  by (induction s rule: chars_of.induct) simp_all

definition tail_chars :: "string \<Rightarrow> nat \<Rightarrow> string" where
  "tail_chars s limit =
     (let count = length (chars_of s)
      in if count \<le> limit then s else concat (drop (count - limit) (chars_of s)))"

definition head_chars :: "string \<Rightarrow> nat \<Rightarrow> string" where
  "head_chars s limit = concat (take limit (chars_of s))"

section \<open>Splitting and replacing\<close>

text \<open>\<open>str::split\<close> with a non-empty pattern.\<close>

function split_on :: "string \<Rightarrow> string \<Rightarrow> string list" where
  "split_on sep s =
     (if sep = [] then [s]
      else case find_str s sep of
             None \<Rightarrow> [s]
           | Some i \<Rightarrow> take i s # split_on sep (drop (i + length sep) s))"
  by pat_completeness auto
termination
proof (relation "measure (\<lambda>(_, s). length s)", goal_cases)
  case (2 sep s i)
  then show ?case using find_str_Some_split [OF 2(2)] by (cases sep) auto
qed simp

declare split_on.simps [simp del]

lemma split_on_absent: "\<not> contains_str s sep \<Longrightarrow> split_on sep s = [s]"
  by (simp add: split_on.simps [of sep s] contains_str_def)

definition split_once :: "string \<Rightarrow> string \<Rightarrow> (string \<times> string) option" where
  "split_once s d = map_option (\<lambda>i. (take i s, drop (i + length d) s)) (find_str s d)"

text \<open>\<open>str::match_indices\<close>: positions of the non-overlapping occurrences, offset by \<open>base\<close>.\<close>

function match_indices :: "string \<Rightarrow> string \<Rightarrow> nat \<Rightarrow> nat list" where
  "match_indices s v base =
     (if v = [] then []
      else case find_str s v of
             None \<Rightarrow> []
           | Some i \<Rightarrow> (base + i) # match_indices (drop (i + length v) s) v (base + i + length v))"
  by pat_completeness auto
termination
proof (relation "measure (\<lambda>(s, _, _). length s)", goal_cases)
  case (2 s v base i)
  then show ?case using find_str_Some_split [OF 2(2)] by (cases v) auto
qed simp

declare match_indices.simps [simp del]

definition trim_start_matches :: "(char \<Rightarrow> bool) \<Rightarrow> string \<Rightarrow> string" where
  "trim_start_matches P s = dropWhile P s"

text \<open>The last position a predicate holds at (\<open>str::rfind\<close> with a predicate).\<close>

fun rfind_char :: "(char \<Rightarrow> bool) \<Rightarrow> string \<Rightarrow> nat option" where
  "rfind_char P [] = None"
| "rfind_char P (c # cs) =
     (case rfind_char P cs of
        Some i \<Rightarrow> Some (Suc i)
      | None \<Rightarrow> (if P c then Some 0 else None))"

definition rsplit_once :: "char \<Rightarrow> string \<Rightarrow> (string \<times> string) option" where
  "rsplit_once d s = map_option (\<lambda>i. (take i s, drop (Suc i) s)) (rfind_char (\<lambda>c. c = d) s)"

section \<open>Stateful fallible maps\<close>

fun st_map :: "('a \<Rightarrow> 's \<Rightarrow> 'e + ('b \<times> 's)) \<Rightarrow> 'a list \<Rightarrow> 's \<Rightarrow> 'e + ('b list \<times> 's)" where
  "st_map f [] s = Inr ([], s)"
| "st_map f (x # xs) s =
     (case f x s of
        Inl e \<Rightarrow> Inl e
      | Inr (y, s1) \<Rightarrow>
          (case st_map f xs s1 of
             Inl e \<Rightarrow> Inl e
           | Inr (ys, s2) \<Rightarrow> Inr (y # ys, s2)))"

lemma st_map_cong [fundef_cong]:
  "xs = ys \<Longrightarrow> s = t \<Longrightarrow> (\<And>x u. x \<in> set ys \<Longrightarrow> f x u = g x u) \<Longrightarrow> st_map f xs s = st_map g ys t"
  by (induction ys arbitrary: xs s t) (auto split: sum.splits)

section \<open>Numbers and names\<close>

definition digit_value :: "char \<Rightarrow> nat" where
  "digit_value c = byte_of c - 48"

text \<open>\<open>str::parse::<u16>\<close>: an optional plus sign, then at least one digit, at most 65535.\<close>

definition parse_u16 :: "string \<Rightarrow> nat option" where
  "parse_u16 s =
     (let ds = (case s of c # cs \<Rightarrow> (if c = CHR ''+'' then cs else s) | [] \<Rightarrow> s);
          v = foldl (\<lambda>n c. 10 * n + digit_value c) 0 ds
      in if ds = [] \<or> \<not> list_all is_ascii_digit ds \<or> 65535 < v then None else Some v)"

definition equal_ignore_case :: "string \<Rightarrow> string \<Rightarrow> bool" where
  "equal_ignore_case s t \<longleftrightarrow> to_lowercase s = to_lowercase t"

text \<open>\<open>Path::canonicalize\<close> of a path text, relative to the working directory of the process.\<close>

definition canonicalize_text :: "fsys \<Rightarrow> path \<Rightarrow> string \<Rightarrow> io_error + path" where
  "canonicalize_text fs here t =
     (if t = [] then Inl ENOENT else fs_canonicalize fs (path_join here t))"


definition root_fs :: fsys where
  "root_fs = \<lparr>tree = [([], DirNode)], dir_size = 4096\<rparr>"

section \<open>Laws\<close>

lemma join_str_hd: "ws \<noteq> [] \<Longrightarrow> hd ws \<noteq> [] \<Longrightarrow> join_str sep ws \<noteq> [] \<and> hd (join_str sep ws) = hd (hd ws)"
  by (induction ws rule: induct_list012) auto

lemma join_str_last: "ws \<noteq> [] \<Longrightarrow> list_all (\<lambda>w. w \<noteq> []) ws \<Longrightarrow> last (join_str sep ws) = last (last ws)"
proof (induction ws rule: induct_list012)
  case (3 v w ws)
  then show ?case using join_str_hd [of "w # ws" sep] by auto
qed auto

end
