(* ===== verification/Domain.thy ===== *)
theory Domain
  imports Json
begin

text \<open>
  The compiled schema (\<open>experience-core/src/domain\<close>): action proposals and the mechanical
  trigger pattern, three-valued predicates over observed facts, workflow steps, the
  \<open>Experience\<close> artifact with its schema check, the lifecycle transition table, the canonical
  tool vocabulary, and the closed result types of the Action Gate.

  The lifecycle table is also presented as a step relation, so that statements about every
  history of qualification actions can be proved by rule induction.
\<close>

section \<open>Actions and predicates\<close>

record ActionProposal =
  prop_tool :: string
  prop_args :: json

definition args_text :: "ActionProposal \<Rightarrow> string" where
  "args_text p = json_text (prop_args p)"

record ActionPattern =
  pat_tool :: string
  command_pattern :: "string option"

definition pattern_matches :: "ActionPattern \<Rightarrow> ActionProposal \<Rightarrow> bool" where
  "pattern_matches pat p =
     (if pat_tool pat \<noteq> prop_tool p then False
      else case command_pattern pat of
             None \<Rightarrow> True
           | Some q \<Rightarrow> q = [] \<or> contains_str (to_lowercase (args_text p)) (to_lowercase q))"

datatype TruthValue = TV_True | TV_False | TV_Unknown

record Predicate =
  pred_key :: string
  pred_expected :: json

definition pred_probe :: "Predicate \<Rightarrow> json option \<Rightarrow> TruthValue" where
  "pred_probe p observed =
     (case observed of
        None \<Rightarrow> TV_Unknown
      | Some actual \<Rightarrow> (if actual = pred_expected p then TV_True else TV_False))"

record StateFact =
  fact_key :: string
  fact_val :: json
  fact_evidence :: string
  fact_verified_at :: nat
  fact_ttl :: "nat option"

definition StateFact_new :: "string \<Rightarrow> json \<Rightarrow> string \<Rightarrow> nat \<Rightarrow> StateFact" where
  "StateFact_new key val evidence verified_at =
     \<lparr>fact_key = key, fact_val = val, fact_evidence = evidence,
      fact_verified_at = verified_at, fact_ttl = None\<rparr>"

definition satisfies :: "StateFact \<Rightarrow> Predicate \<Rightarrow> TruthValue" where
  "satisfies f p =
     (if fact_key f \<noteq> pred_key p then TV_Unknown else pred_probe p (Some (fact_val f)))"

definition fact_value :: "StateFact list \<Rightarrow> string \<Rightarrow> json option" where
  "fact_value facts key = map_option fact_val (find (\<lambda>f. fact_key f = key) facts)"

section \<open>The Experience artifact\<close>

record WorkflowStep =
  step_action :: string
  step_args :: json

datatype VerificationStep =
    ReadFile string "string option"
  | Probe Predicate

datatype FailurePolicy = StopAndReport

datatype UndoPolicy = Unsupported

datatype ExperienceStatus = Draft | Candidate | Validated | Active | Decaying | Disabled

datatype QualificationAction =
  Validate | Activate | ForceActivate | Invalidate | Disable | Revalidate | Decay

record Experience =
  exp_name :: string
  exp_trigger :: ActionPattern
  exp_preconditions :: "Predicate list"
  exp_workflow :: "WorkflowStep list"
  exp_postconditions :: "Predicate list"
  exp_verification :: "VerificationStep list"
  exp_failure_policy :: FailurePolicy
  exp_undo :: UndoPolicy
  exp_status :: ExperienceStatus

datatype SchemaIssue =
  EmptyName | EmptyTriggerTool | EmptyWorkflow | EmptyStepAction nat | EmptyPostconditions

definition schema_issues :: "Experience \<Rightarrow> SchemaIssue list" where
  "schema_issues e =
     (if trim_str (exp_name e) = [] then [EmptyName] else []) @
     (if trim_str (pat_tool (exp_trigger e)) = [] then [EmptyTriggerTool] else []) @
     (if exp_workflow e = [] then [EmptyWorkflow]
      else concat (map (\<lambda>(i, s). if trim_str (step_action s) = [] then [EmptyStepAction i] else [])
                       (enumerate 0 (exp_workflow e)))) @
     (if exp_postconditions e = [] then [EmptyPostconditions] else [])"

definition is_schema_valid :: "Experience \<Rightarrow> bool" where
  "is_schema_valid e \<longleftrightarrow> schema_issues e = []"

definition postconditions_satisfied_by :: "Experience \<Rightarrow> StateFact list \<Rightarrow> bool" where
  "postconditions_satisfied_by e state_after =
     list_all (\<lambda>c. pred_probe c (fact_value state_after (pred_key c)) = TV_True)
       (exp_postconditions e)"

section \<open>The lifecycle transition table\<close>

fun status_debug :: "ExperienceStatus \<Rightarrow> string" where
  "status_debug Draft = ''Draft''"
| "status_debug Candidate = ''Candidate''"
| "status_debug Validated = ''Validated''"
| "status_debug Active = ''Active''"
| "status_debug Decaying = ''Decaying''"
| "status_debug Disabled = ''Disabled''"

fun status_transition :: "ExperienceStatus \<Rightarrow> QualificationAction \<Rightarrow> string + ExperienceStatus" where
  "status_transition s Validate =
     (if s = Candidate then Inr Validated
      else Inl (''validate requires CANDIDATE, was '' @ status_debug s))"
| "status_transition s Activate =
     (if s = Validated then Inr Active
      else Inl (''activation requires VALIDATED, was '' @ status_debug s
                @ '' (override cannot skip qualification)''))"
| "status_transition s ForceActivate =
     (if s = Validated then Inr Active
      else Inl (''activation requires VALIDATED, was '' @ status_debug s
                @ '' (override cannot skip qualification)''))"
| "status_transition s Invalidate =
     (if s = Candidate then Inr Disabled
      else Inl (''invalidate requires CANDIDATE, was '' @ status_debug s))"
| "status_transition s Disable = Inr Disabled"
| "status_transition s Revalidate =
     (if s = Disabled \<or> s = Decaying then Inr Validated
      else Inl (''revalidate requires DISABLED/DECAYING, was '' @ status_debug s))"
| "status_transition s Decay =
     (if s = Active then Inr Decaying
      else Inl (''decay requires ACTIVE, was '' @ status_debug s))"

inductive status_run :: "ExperienceStatus \<Rightarrow> QualificationAction list \<Rightarrow> ExperienceStatus \<Rightarrow> bool" where
  status_run_refl: "status_run s [] s"
| status_run_step: "status_run s acts t \<Longrightarrow> status_transition t a = Inr u \<Longrightarrow> status_run s (acts @ [a]) u"

inductive_cases status_run_NilE: "status_run s [] t"
inductive_simps status_run_snoc: "status_run s (acts @ [a]) u"

section \<open>Capability vocabulary\<close>

definition CANONICAL_TOOLS :: "string list" where
  "CANONICAL_TOOLS = [''exec_command'', ''exec'', ''write_file'', ''read_file'', ''append_file'',
     ''mkdir'', ''copy_file'', ''move_file'', ''delete_file'']"

definition RESERVED_CAPABILITIES :: "string list" where
  "RESERVED_CAPABILITIES = [''computer_use'']"

definition is_known_capability :: "string \<Rightarrow> bool" where
  "is_known_capability n \<longleftrightarrow> n \<in> set CANONICAL_TOOLS \<or> n \<in> set RESERVED_CAPABILITIES"

definition canonical_tool :: "string \<Rightarrow> string option" where
  "canonical_tool n =
     (if n = ''commandExecution'' \<or> n = ''exec_command'' then Some ''exec_command''
      else if n = ''write_file'' then Some ''write_file''
      else if n = ''read_file'' then Some ''read_file''
      else None)"

section \<open>Gate decisions and results\<close>

datatype GateTier = TierA | TierB | TierC | TierD

datatype GateDecision =
    Miss
  | Hit string GateTier
  | Satisfied string GateTier "StateFact list"
  | TemplateHit string GateTier "string btree" string Experience

fun is_hit :: "GateDecision \<Rightarrow> bool" where
  "is_hit (Hit _ _) = True"
| "is_hit _ = False"

fun is_satisfied :: "GateDecision \<Rightarrow> bool" where
  "is_satisfied (Satisfied _ _ _) = True"
| "is_satisfied _ = False"

fun is_takeover :: "GateDecision \<Rightarrow> bool" where
  "is_takeover (TemplateHit _ _ _ _ _) = True"
| "is_takeover d = (is_hit d \<or> is_satisfied d)"

fun experience_name :: "GateDecision \<Rightarrow> string option" where
  "experience_name Miss = None"
| "experience_name (Hit e _) = Some e"
| "experience_name (Satisfied e _ _) = Some e"
| "experience_name (TemplateHit e _ _ _ _) = Some e"

datatype CompletionStatus = Completed | Partial | CFailed

datatype VerificationStatus = Verified | Unverified | VFailed

record ExecutedStep =
  done_action :: string
  done_args :: json
  done_evidence :: "string option"

record ExecutedSideEffect =
  eff_description :: string
  eff_evidence :: "string option"

record TemplateBindingAudit =
  audit_template :: string
  audit_bindings :: "string btree"
  audit_fingerprint :: string

record GateHitResult =
  proposed_action :: ActionProposal
  state_before :: "StateFact list"
  executed :: "ExecutedStep list"
  state_after :: "StateFact list"
  execution_evidence :: "string list"
  executed_side_effects :: "ExecutedSideEffect list"
  completion_status :: CompletionStatus
  verification_status :: VerificationStatus
  template_audit :: "TemplateBindingAudit option"

definition res_completed :: "ActionProposal \<Rightarrow> StateFact list \<Rightarrow> ExecutedStep list \<Rightarrow> StateFact list
    \<Rightarrow> string list \<Rightarrow> ExecutedSideEffect list \<Rightarrow> GateHitResult" where
  "res_completed p before ex after ev eff =
     \<lparr>proposed_action = p, state_before = before, executed = ex, state_after = after,
      execution_evidence = ev, executed_side_effects = eff,
      completion_status = Completed, verification_status = Verified, template_audit = None\<rparr>"

definition res_partial :: "ActionProposal \<Rightarrow> StateFact list \<Rightarrow> ExecutedStep list \<Rightarrow> StateFact list
    \<Rightarrow> string list \<Rightarrow> ExecutedSideEffect list \<Rightarrow> GateHitResult" where
  "res_partial p before ex after ev eff =
     \<lparr>proposed_action = p, state_before = before, executed = ex, state_after = after,
      execution_evidence = ev, executed_side_effects = eff,
      completion_status = Partial, verification_status = Unverified, template_audit = None\<rparr>"

definition res_failed :: "ActionProposal \<Rightarrow> StateFact list \<Rightarrow> ExecutedStep list \<Rightarrow> StateFact list
    \<Rightarrow> string list \<Rightarrow> ExecutedSideEffect list \<Rightarrow> GateHitResult" where
  "res_failed p before ex after ev eff =
     \<lparr>proposed_action = p, state_before = before, executed = ex, state_after = after,
      execution_evidence = ev, executed_side_effects = eff,
      completion_status = CFailed, verification_status = VFailed, template_audit = None\<rparr>"

definition is_success :: "GateHitResult \<Rightarrow> bool" where
  "is_success r \<longleftrightarrow> completion_status r = Completed \<and> verification_status r = Verified"

definition with_template_audit :: "GateHitResult \<Rightarrow> TemplateBindingAudit option \<Rightarrow> GateHitResult" where
  "with_template_audit r audit = r\<lparr>template_audit := audit\<rparr>"

lemmas result_constructors = res_completed_def res_partial_def res_failed_def

section \<open>Laws of predicates and the schema check\<close>

lemma pattern_matches_tool: "pattern_matches pat p \<Longrightarrow> pat_tool pat = prop_tool p"
  by (simp add: pattern_matches_def split: if_splits)

lemma pred_probe_True_iff: "pred_probe p o' = TV_True \<longleftrightarrow> o' = Some (pred_expected p)"
  by (auto simp: pred_probe_def split: option.splits)

lemma pred_probe_Unknown_iff: "pred_probe p o' = TV_Unknown \<longleftrightarrow> o' = None"
  by (auto simp: pred_probe_def split: option.splits)

lemma fact_value_Some: "fact_value facts k = Some v \<Longrightarrow> \<exists>f \<in> set facts. fact_key f = k \<and> fact_val f = v"
  by (auto simp: fact_value_def find_Some_iff)

lemma fact_value_None_iff: "fact_value facts k = None \<longleftrightarrow> k \<notin> fact_key ` set facts"
  by (auto simp: fact_value_def find_None_iff)

lemma postconditions_satisfied_by_iff:
  "postconditions_satisfied_by e fs \<longleftrightarrow>
     (\<forall>c \<in> set (exp_postconditions e). fact_value fs (pred_key c) = Some (pred_expected c))"
  by (simp add: postconditions_satisfied_by_def list_all_iff pred_probe_True_iff)

lemma is_schema_valid_iff:
  "is_schema_valid e \<longleftrightarrow>
     trim_str (exp_name e) \<noteq> [] \<and> trim_str (pat_tool (exp_trigger e)) \<noteq> [] \<and>
     exp_workflow e \<noteq> [] \<and> (\<forall>s \<in> set (exp_workflow e). trim_str (step_action s) \<noteq> []) \<and>
     exp_postconditions e \<noteq> []"
proof -
  have steps: "(\<forall>p \<in> set (enumerate 0 ws). trim_str (step_action (snd p)) \<noteq> [])
      \<longleftrightarrow> (\<forall>s \<in> set ws. trim_str (step_action s) \<noteq> [])" for ws :: "WorkflowStep list"
    by (metis (no_types, lifting) in_set_zip enumerate_eq_zip image_iff map_snd_enumerate list.set_map)
  show ?thesis
    using steps [of "exp_workflow e"]
    by (auto simp: is_schema_valid_def schema_issues_def case_prod_unfold split: if_splits)
qed

section \<open>Laws of the lifecycle\<close>

lemma transition_Active_iff:
  "status_transition s a = Inr Active \<longleftrightarrow> s = Validated \<and> (a = Activate \<or> a = ForceActivate)"
  by (cases a) auto

lemma transition_Validated_iff:
  "status_transition s a = Inr Validated \<longleftrightarrow>
     (s = Candidate \<and> a = Validate) \<or> ((s = Disabled \<or> s = Decaying) \<and> a = Revalidate)"
  by (cases a) auto

lemma transition_never_back:
  "status_transition s a = Inr t \<Longrightarrow> t \<noteq> Draft \<and> t \<noteq> Candidate"
  by (cases a) (auto split: if_splits)

lemma status_run_validated:
  "status_run s acts t \<Longrightarrow> t = Validated \<Longrightarrow> s \<noteq> Validated \<Longrightarrow> s \<noteq> Active \<Longrightarrow>
     Validate \<in> set acts \<or> Revalidate \<in> set acts"
  by (induction rule: status_run.induct) (auto simp: transition_Validated_iff)


text \<open>C15: no history of qualification actions reaches ACTIVE except by a final activation step out
  of VALIDATED (the forced override included), and VALIDATED itself is only reached from an
  unqualified status through a validate or a revalidate action.\<close>

theorem activation_needs_qualification:
  assumes "status_run s acts Active" and "s \<noteq> Active"
  shows "\<exists>bs a. acts = bs @ [a] \<and> (a = Activate \<or> a = ForceActivate) \<and> status_run s bs Validated \<and>
    (s \<noteq> Validated \<longrightarrow> Validate \<in> set bs \<or> Revalidate \<in> set bs)"
proof (cases acts rule: rev_cases)
  case Nil
  with assms show ?thesis by (auto elim: status_run_NilE)
next
  case (snoc bs a)
  with assms(1) obtain t where t: "status_run s bs t" "status_transition t a = Inr Active"
    by (auto simp: status_run_snoc)
  then have "t = Validated" "a = Activate \<or> a = ForceActivate" by (auto simp: transition_Active_iff)
  with t snoc assms(2) show ?thesis using status_run_validated by blast
qed

theorem activation_needs_qualification_witness:
  "\<exists>bs a. [Validate, ForceActivate] = bs @ [a] \<and> (a = Activate \<or> a = ForceActivate) \<and>
     status_run Candidate bs Validated \<and> (Candidate \<noteq> Validated \<longrightarrow> Validate \<in> set bs \<or> Revalidate \<in> set bs)"
proof -
  have "status_run Candidate ([] @ [Validate]) Validated"
    by (rule status_run_step [OF status_run_refl]) simp
  then have "status_run Candidate ([Validate] @ [ForceActivate]) Active"
    using status_run_step [of Candidate "[Validate]" Validated ForceActivate Active] by simp
  from activation_needs_qualification [OF this] show ?thesis by simp
qed

text \<open>The schema check reports every structural defect and nothing else: an empty list means a
  name, a trigger tool, a non-empty workflow whose every step names an action, and at least
  one postcondition; a defective step is reported under its own index.\<close>

theorem schema_issues_exact:
  "(EmptyName \<in> set (schema_issues e) \<longleftrightarrow> trim_str (exp_name e) = []) \<and>
   (EmptyTriggerTool \<in> set (schema_issues e) \<longleftrightarrow> trim_str (pat_tool (exp_trigger e)) = []) \<and>
   (EmptyWorkflow \<in> set (schema_issues e) \<longleftrightarrow> exp_workflow e = []) \<and>
   (EmptyStepAction i \<in> set (schema_issues e) \<longleftrightarrow>
      i < length (exp_workflow e) \<and> trim_str (step_action (exp_workflow e ! i)) = []) \<and>
   (EmptyPostconditions \<in> set (schema_issues e) \<longleftrightarrow> exp_postconditions e = [])"
  by (auto simp: schema_issues_def in_set_enumerate_eq split: if_splits)

end
