(* ===== verification/Template.thy ===== *)
theory Template
  imports Domain
begin

text \<open>
  Parameterized templates (\<open>domain/template.rs\<close>): the capture rule, the bind-time constraint
  check, the placeholder renderer and \<open>bind\<close>, which turns a template into a concrete
  Experience or refuses. The FNV-1a audit fingerprint is computed on 64-bit words.

  A reference reading of placeholder text (\<open>template_segments\<close>) gives the renderer an abstract
  specification: a template is a sequence of literal characters and named holes.
\<close>

unbundle bit_operations_syntax

section \<open>Data\<close>

record TemplateParameter =
  param_name :: string
  param_source :: string
  param_kind :: string
  param_prefix :: "string option"
  param_suffix :: "string option"
  param_required :: bool

definition PARAM_KIND_TEXT :: string where "PARAM_KIND_TEXT = ''text''"
definition PARAM_KIND_PATH :: string where "PARAM_KIND_PATH = ''path''"
definition PARAM_KIND_TOKEN :: string where "PARAM_KIND_TOKEN = ''token''"

definition default_required :: bool where "default_required = True"
definition default_kind :: string where "default_kind = PARAM_KIND_TEXT"

datatype TemplateBindError =
    MissingParameter string
  | MalformedCapture string
  | UnknownPlaceholder string
  | EmptyParameter string
  | InvalidParameter string string

definition quoted_name :: "string \<Rightarrow> string" where
  "quoted_name n = [CHR 0x27] @ n @ [CHR 0x27]"

fun bind_error_text :: "TemplateBindError \<Rightarrow> string" where
  "bind_error_text (MissingParameter n) = ''missing parameter '' @ quoted_name n"
| "bind_error_text (MalformedCapture n) = ''malformed capture for '' @ quoted_name n"
| "bind_error_text (UnknownPlaceholder n) = ''unknown placeholder '' @ quoted_name n"
| "bind_error_text (EmptyParameter n) = ''empty parameter '' @ quoted_name n"
| "bind_error_text (InvalidParameter n r) = ''invalid parameter '' @ quoted_name n @ '': '' @ r"

record ExperienceTemplate =
  tmpl_name :: string
  tmpl_trigger :: ActionPattern
  tmpl_parameters :: "TemplateParameter list"
  tmpl_workflow :: "WorkflowStep list"
  tmpl_preconditions :: "Predicate list"
  tmpl_postconditions :: "Predicate list"
  tmpl_verification :: "VerificationStep list"
  tmpl_failure_policy :: FailurePolicy
  tmpl_undo :: UndoPolicy
  tmpl_status :: ExperienceStatus

definition template_schema_issues :: "ExperienceTemplate \<Rightarrow> SchemaIssue list" where
  "template_schema_issues t =
     (if trim_str (tmpl_name t) = [] then [EmptyName] else []) @
     (if trim_str (pat_tool (tmpl_trigger t)) = [] then [EmptyTriggerTool] else []) @
     (if tmpl_workflow t = [] then [EmptyWorkflow] else []) @
     (if tmpl_postconditions t = [] then [EmptyPostconditions] else [])"

definition template_is_schema_valid :: "ExperienceTemplate \<Rightarrow> bool" where
  "template_is_schema_valid t \<longleftrightarrow> template_schema_issues t = []"

section \<open>Capture and validation\<close>

definition source_text :: "string \<Rightarrow> ActionProposal \<Rightarrow> string \<Rightarrow> string" where
  "source_text source p cwd =
     (if source = ''task'' then
        (let found = (case json_get (prop_args p) ''task'' of
                        Some v \<Rightarrow> Some v
                      | None \<Rightarrow> json_get (prop_args p) ''text'')
         in case Option.bind found as_str of Some t \<Rightarrow> t | None \<Rightarrow> args_text p)
      else if source = ''action'' then args_text p
      else if source = ''cwd'' then cwd
      else args_text p)"

definition capture_parameter :: "string \<Rightarrow> string option \<Rightarrow> string option \<Rightarrow> string option" where
  "capture_parameter source pre suf =
     (case (case pre of
              Some p \<Rightarrow> map_option (\<lambda>i. i + length p) (find_str source p)
            | None \<Rightarrow> Some 0) of
        None \<Rightarrow> None
      | Some start \<Rightarrow>
          (let tail = drop start source
           in case (case suf of Some q \<Rightarrow> find_str tail q | None \<Rightarrow> Some (length tail)) of
                None \<Rightarrow> None
              | Some stop \<Rightarrow> Some (trim_str (take stop tail))))"

definition capture :: "string \<Rightarrow> TemplateParameter \<Rightarrow> string option" where
  "capture source prm = capture_parameter source (param_prefix prm) (param_suffix prm)"

definition shell_metachars :: "char list" where
  "shell_metachars = [CHR '';'', CHR ''&'', CHR ''|'', CHR ''<'', CHR ''>'', CHR ''$'',
     CHR 0x60, CHR 0x22, CHR 0x27, CHR 0x0A, CHR 0x0D]"

definition names_drive :: "string \<Rightarrow> bool" where
  "names_drive s \<longleftrightarrow> 2 \<le> length s \<and> s ! 1 = CHR '':'' \<and> is_ascii_alphabetic (s ! 0)"

definition validate_value :: "TemplateParameter \<Rightarrow> string \<Rightarrow> TemplateBindError + unit" where
  "validate_value prm v =
     (let invalid = (\<lambda>reason. Inl (InvalidParameter (param_name prm) reason))
      in if param_kind prm = PARAM_KIND_PATH then
           (let normalized = replace_char (CHR 0x5C) (CHR ''/'') v
            in if starts_with normalized ''/'' then
                 invalid ''path must be workspace-relative, not absolute''
               else if names_drive normalized then
                 invalid ''path must not name a drive''
               else if list_ex (\<lambda>c. c = ''..'') (split_char (CHR ''/'') normalized) then
                 invalid (''path must not contain a '' @ quoted_name ''..'' @ '' component'')
               else Inr ())
         else if param_kind prm = PARAM_KIND_TOKEN then
           (if list_ex is_whitespace v then invalid ''token must not contain whitespace''
            else if list_ex (\<lambda>c. c \<in> set shell_metachars) v then
              invalid ''token must not contain shell metacharacters''
            else Inr ())
         else Inr ())"

section \<open>Rendering\<close>

function render_loop :: "string \<Rightarrow> string btree \<Rightarrow> string \<Rightarrow> string \<Rightarrow> TemplateBindError + string" where
  "render_loop input bindings rest output =
     (case find_str rest ''${'' of
        None \<Rightarrow> Inr (output @ rest)
      | Some start \<Rightarrow>
          (let after = drop (start + 2) rest
           in case find_str after ''}'' of
                None \<Rightarrow> Inl (MalformedCapture input)
              | Some stop \<Rightarrow>
                  (let nm = take stop after
                   in case bt_get bindings nm of
                        None \<Rightarrow> Inl (UnknownPlaceholder nm)
                      | Some v \<Rightarrow>
                          render_loop input bindings (drop (stop + 1) after)
                            (output @ take start rest @ v))))"
  by pat_completeness auto
termination
proof (relation "measure (\<lambda>(_, _, rest, _). length rest)", goal_cases)
  case (2 inp b rest out start after stop nm v)
  from 2(1) have "start + 2 \<le> length rest" using find_str_Some_split [of rest "''${''" start] by simp
  with 2(2) show ?case by auto
qed simp

declare render_loop.simps [simp del]

definition render_string :: "string \<Rightarrow> string btree \<Rightarrow> TemplateBindError + string" where
  "render_string input bindings = render_loop input bindings input []"

fun render_value :: "json \<Rightarrow> string btree \<Rightarrow> TemplateBindError + json" where
  "render_value (JString t) b =
     (case render_string t b of Inl e \<Rightarrow> Inl e | Inr s \<Rightarrow> Inr (JString s))"
| "render_value (JArray xs) b =
     (case try_map (\<lambda>x. render_value x b) xs of Inl e \<Rightarrow> Inl e | Inr ys \<Rightarrow> Inr (JArray ys))"
| "render_value (JObject m) b =
     (case try_map (\<lambda>(k, v). case render_value v b of Inl e \<Rightarrow> Inl e | Inr w \<Rightarrow> Inr (k, w)) m of
        Inl e \<Rightarrow> Inl e
      | Inr ps \<Rightarrow> Inr (JObject (bt_collect ps)))"
| "render_value v b = Inr v"

definition render_steps :: "WorkflowStep list \<Rightarrow> string btree \<Rightarrow> TemplateBindError + WorkflowStep list" where
  "render_steps steps b =
     try_map (\<lambda>s. case render_value (step_args s) b of
                    Inl e \<Rightarrow> Inl e
                  | Inr a \<Rightarrow> Inr \<lparr>step_action = step_action s, step_args = a\<rparr>) steps"

definition render_predicate :: "string btree \<Rightarrow> Predicate \<Rightarrow> TemplateBindError + Predicate" where
  "render_predicate b p =
     (case render_string (pred_key p) b of
        Inl e \<Rightarrow> Inl e
      | Inr k \<Rightarrow> (case render_value (pred_expected p) b of
                   Inl e \<Rightarrow> Inl e
                 | Inr v \<Rightarrow> Inr \<lparr>pred_key = k, pred_expected = v\<rparr>))"

definition render_predicates :: "Predicate list \<Rightarrow> string btree \<Rightarrow> TemplateBindError + Predicate list" where
  "render_predicates ps b = try_map (render_predicate b) ps"

fun render_verification_step :: "string btree \<Rightarrow> VerificationStep \<Rightarrow> TemplateBindError + VerificationStep" where
  "render_verification_step b (ReadFile path expect_content) =
     (case render_string path b of
        Inl e \<Rightarrow> Inl e
      | Inr p \<Rightarrow>
          (case expect_content of
             None \<Rightarrow> Inr (ReadFile p None)
           | Some content \<Rightarrow>
               (case render_string content b of
                  Inl e \<Rightarrow> Inl e
                | Inr c \<Rightarrow> Inr (ReadFile p (Some c)))))"
| "render_verification_step b (Probe pr) =
     (case render_predicates [pr] b of Inl e \<Rightarrow> Inl e | Inr ps \<Rightarrow> Inr (Probe (hd ps)))"

definition render_verification :: "VerificationStep list \<Rightarrow> string btree \<Rightarrow> TemplateBindError + VerificationStep list" where
  "render_verification steps b = try_map (render_verification_step b) steps"

section \<open>Binding\<close>

fun capture_all :: "TemplateParameter list \<Rightarrow> ActionProposal \<Rightarrow> string \<Rightarrow> string btree
    \<Rightarrow> TemplateBindError + string btree" where
  "capture_all [] p cwd b = Inr b"
| "capture_all (prm # ps) p cwd b =
     (case capture (source_text (param_source prm) p cwd) prm of
        Some v \<Rightarrow>
          (if v \<noteq> [] then
             (case validate_value prm v of
                Inl e \<Rightarrow> Inl e
              | Inr _ \<Rightarrow> capture_all ps p cwd (bt_insert (param_name prm) v b))
           else if param_required prm then Inl (EmptyParameter (param_name prm))
           else capture_all ps p cwd b)
      | None \<Rightarrow>
          (if param_required prm then Inl (MissingParameter (param_name prm))
           else capture_all ps p cwd b))"

definition template_bind :: "ExperienceTemplate \<Rightarrow> ActionProposal \<Rightarrow> string
    \<Rightarrow> TemplateBindError + (Experience \<times> string btree)" where
  "template_bind t p cwd =
     (case capture_all (tmpl_parameters t) p cwd [] of
        Inl e \<Rightarrow> Inl e
      | Inr b \<Rightarrow>
     (case render_predicates (tmpl_preconditions t) b of
        Inl e \<Rightarrow> Inl e
      | Inr pre \<Rightarrow>
     (case render_steps (tmpl_workflow t) b of
        Inl e \<Rightarrow> Inl e
      | Inr steps \<Rightarrow>
     (case render_predicates (tmpl_postconditions t) b of
        Inl e \<Rightarrow> Inl e
      | Inr post \<Rightarrow>
     (case render_verification (tmpl_verification t) b of
        Inl e \<Rightarrow> Inl e
      | Inr ver \<Rightarrow>
          Inr (\<lparr>exp_name = tmpl_name t, exp_trigger = tmpl_trigger t, exp_preconditions = pre,
                exp_workflow = steps, exp_postconditions = post, exp_verification = ver,
                exp_failure_policy = tmpl_failure_policy t, exp_undo = tmpl_undo t,
                exp_status = tmpl_status t\<rparr>, b))))))"

section \<open>The audit fingerprint\<close>

definition fnv_offset :: u64 where "fnv_offset = 0xcbf29ce484222325"
definition fnv_prime :: u64 where "fnv_prime = 0x100000001b3"

definition fnv_step :: "char \<Rightarrow> u64 \<Rightarrow> u64" where
  "fnv_step c h = (h XOR word_of_nat (byte_of c)) * fnv_prime"

definition fnv_hash :: "string \<Rightarrow> u64" where
  "fnv_hash material = fold fnv_step material fnv_offset"

definition stable_fingerprint :: "string \<Rightarrow> string" where
  "stable_fingerprint material = hex_digits 16 (unat (fnv_hash material))"

definition binding_material :: "string \<Rightarrow> string btree \<Rightarrow> string" where
  "binding_material n b = n @ concat (map (\<lambda>(k, v). [CHR 0x1F] @ k @ ''='' @ v) b)"

definition binding_fingerprint :: "ExperienceTemplate \<Rightarrow> string btree \<Rightarrow> string" where
  "binding_fingerprint t b = stable_fingerprint (binding_material (tmpl_name t) b)"


section \<open>A reference reading of placeholder text\<close>

datatype segment = Lit char | Hole string

function template_segments :: "string \<Rightarrow> segment list option" where
  "template_segments [] = Some []"
| "template_segments (c # cs) =
     (if c = CHR ''$'' \<and> cs \<noteq> [] \<and> hd cs = CHR ''{'' then
        (let rest = dropWhile (\<lambda>x. x \<noteq> CHR ''}'') (tl cs)
         in if rest = [] then None
            else map_option (Cons (Hole (takeWhile (\<lambda>x. x \<noteq> CHR ''}'') (tl cs))))
                   (template_segments (tl rest)))
      else map_option (Cons (Lit c)) (template_segments cs))"
  by pat_completeness auto
termination
proof (relation "measure length", goal_cases)
  case (2 c cs rest)
  have "length rest \<le> length (tl cs)" unfolding 2(2) by (rule length_dropWhile_le)
  with 2(1) show ?case by (cases cs) auto
qed auto

fun segment_text :: "string btree \<Rightarrow> segment \<Rightarrow> string" where
  "segment_text b (Lit c) = [c]"
| "segment_text b (Hole n) = the (bt_get b n)"

fun segment_bound :: "string btree \<Rightarrow> segment \<Rightarrow> bool" where
  "segment_bound b (Lit c) = True"
| "segment_bound b (Hole n) = (bt_get b n \<noteq> None)"

lemma find_char_Some:
  "find_str s [d] = Some j \<Longrightarrow>
     takeWhile (\<lambda>x. x \<noteq> d) s = take j s \<and> dropWhile (\<lambda>x. x \<noteq> d) s = d # drop (Suc j) s"
  by (induction s arbitrary: j) (auto simp: starts_with_def split: if_splits)

lemma find_char_None: "find_str s [d] = None \<Longrightarrow> dropWhile (\<lambda>x. x \<noteq> d) s = []"
  by (induction s) (auto simp: starts_with_def split: if_splits)

lemma hole_start: "starts_with (c # cs) ''${'' \<longleftrightarrow> c = CHR ''$'' \<and> cs \<noteq> [] \<and> hd cs = CHR ''{''"
  by (cases cs) (auto simp: starts_with_def)

lemma segments_lit:
  "\<not> starts_with (c # cs) ''${'' \<Longrightarrow>
     template_segments (c # cs) = map_option (Cons (Lit c)) (template_segments cs)"
  unfolding hole_start template_segments.simps(2) by (rule if_not_P)

lemma segments_brace:
  "template_segments (CHR ''$'' # CHR ''{'' # cs) =
     (case find_str cs ''}'' of
        None \<Rightarrow> None
      | Some j \<Rightarrow> map_option (Cons (Hole (take j cs))) (template_segments (drop (j + 1) cs)))"
proof (cases "find_str cs ''}''")
  case None
  with find_char_None [OF None] show ?thesis by (simp add: template_segments.simps(2))
next
  case (Some j)
  with find_char_Some [OF Some] show ?thesis by (simp add: template_segments.simps(2))
qed

declare template_segments.simps(2) [simp del]

lemma segments_literal: "find_str s ''${'' = None \<Longrightarrow> template_segments s = Some (map Lit s)"
  by (induction s) (auto simp: segments_lit split: if_splits)

lemma segments_upto:
  "find_str s ''${'' = Some i \<Longrightarrow>
     template_segments s = map_option ((@) (map Lit (take i s))) (template_segments (drop i s))"
proof (induction s arbitrary: i)
  case (Cons c cs)
  show ?case
  proof (cases "starts_with (c # cs) ''${''")
    case True
    then have "i = 0" using Cons.prems by simp
    then show ?thesis by (simp add: option.map_ident)
  next
    case False
    then obtain j where j: "find_str cs ''${'' = Some j" "i = Suc j" using Cons.prems by auto
    from False have "template_segments (c # cs) = map_option (Cons (Lit c)) (template_segments cs)"
      by (rule segments_lit)
    also have "\<dots> = map_option ((@) (map Lit (take i (c # cs)))) (template_segments (drop i (c # cs)))"
      using Cons.IH [OF j(1)] j(2) by (cases "template_segments (drop j cs)") auto
    finally show ?thesis .
  qed
qed simp

lemma segments_hole:
  assumes "find_str s ''${'' = Some i"
  shows "template_segments (drop i s) =
    (case find_str (drop (i + 2) s) ''}'' of
       None \<Rightarrow> None
     | Some j \<Rightarrow> map_option (Cons (Hole (take j (drop (i + 2) s))))
                  (template_segments (drop (j + 1) (drop (i + 2) s))))"
proof -
  have s: "drop i s = CHR ''$'' # CHR ''{'' # drop (i + 2) s"
  proof -
    have "i + 2 \<le> length s" and "s = take i s @ ''${'' @ drop (i + 2) s"
      using find_str_Some_split [OF assms] by simp_all
    from arg_cong [OF this(2), of "drop i"] this(1) show ?thesis by simp
  qed
  show ?thesis unfolding s by (rule segments_brace)
qed

lemma render_loop_spec:
  "render_loop inp b rest acc = Inr r \<longleftrightarrow>
     (\<exists>g. template_segments rest = Some g \<and> list_all (segment_bound b) g \<and>
          r = acc @ concat (map (segment_text b) g))"
proof (induction inp b rest acc rule: render_loop.induct)
  case (1 inp b rest acc)
  show ?case
  proof (cases "find_str rest ''${''")
    case None
    then show ?thesis
      by (auto simp: render_loop.simps [of _ _ rest] segments_literal list_all_iff comp_def)
  next
    case (Some i)
    let ?after = "drop (i + 2) rest"
    have seg: "template_segments rest = map_option ((@) (map Lit (take i rest)))
      (case find_str ?after ''}'' of
         None \<Rightarrow> None
       | Some j \<Rightarrow> map_option (Cons (Hole (take j ?after))) (template_segments (drop (j + 1) ?after)))"
      using segments_upto [OF Some] segments_hole [OF Some] by simp
    have lits: "list_all (segment_bound b) (map Lit xs)"
        "concat (map (segment_text b) (map Lit xs)) = xs" for xs
      by (induction xs) auto
    show ?thesis
    proof (cases "find_str ?after ''}''")
      case None
      then show ?thesis using seg Some by (simp add: render_loop.simps [of _ _ rest])
    next
      case (Some j)
      note j = Some
      show ?thesis
      proof (cases "bt_get b (take j ?after)")
        case None
        then show ?thesis
          using seg j \<open>find_str rest ''${'' = Some i\<close>
          by (cases "template_segments (drop (j + 1) ?after)")
            (simp_all add: render_loop.simps [of _ _ rest])
      next
        case (Some v)
        note IH = "1.IH" [OF \<open>find_str rest ''${'' = Some i\<close> refl j refl Some]
        show ?thesis
          using seg j Some \<open>find_str rest ''${'' = Some i\<close> lits IH
          by (cases "template_segments (drop (j + 1) ?after)")
            (simp_all add: render_loop.simps [of _ _ rest] list_all_append)
      qed
    qed
  qed
qed


section \<open>The renderer against the reference reading\<close>

text \<open>The placeholder renderer agrees with the reference reading of placeholder text. It
  succeeds exactly when every opened placeholder is closed and names a binding, and the text
  it returns is the literal characters with each hole replaced by its bound value.\<close>

theorem render_string_refines:
  "render_string s b = Inr r \<longleftrightarrow>
     (\<exists>g. template_segments s = Some g \<and> list_all (segment_bound b) g \<and>
          r = concat (map (segment_text b) g))"
  by (simp add: render_string_def render_loop_spec)

definition string_renderable :: "string btree \<Rightarrow> string \<Rightarrow> bool" where
  "string_renderable b s \<longleftrightarrow>
     (case template_segments s of None \<Rightarrow> False | Some g \<Rightarrow> list_all (segment_bound b) g)"

lemma render_string_Inr_ex: "(\<exists>r. render_string s b = Inr r) \<longleftrightarrow> string_renderable b s"
  by (auto simp: render_string_def render_loop_spec string_renderable_def split: option.splits)

lemma render_string_cases:
  obtains r where "string_renderable b s" "render_string s b = Inr r"
  | err where "\<not> string_renderable b s" "render_string s b = Inl err"
  using render_string_Inr_ex [of s b] by (cases "render_string s b") auto

text \<open>All the text of a value that the renderer visits: string leaves, not object keys.\<close>

fun json_strings :: "json \<Rightarrow> string list" where
  "json_strings (JString s) = [s]"
| "json_strings (JArray xs) = concat (map json_strings xs)"
| "json_strings (JObject m) = concat (map (\<lambda>p. json_strings (snd p)) m)"
| "json_strings _ = []"

lemma try_map_ex: "(\<exists>ys. try_map f xs = Inr ys) \<longleftrightarrow> (\<forall>x \<in> set xs. \<exists>y. f x = Inr y)"
  by (induction xs) (auto split: sum.splits)

lemma render_value_ex:
  "(\<exists>w. render_value v b = Inr w) \<longleftrightarrow> list_all (string_renderable b) (json_strings v)"
proof (induction v b rule: render_value.induct)
  case (1 t b)
  then show ?case by (cases rule: render_string_cases [of b t]) auto
next
  case (2 xs b)
  have "(\<exists>w. render_value (JArray xs) b = Inr w) \<longleftrightarrow> (\<exists>ys. try_map (\<lambda>x. render_value x b) xs = Inr ys)"
    by (auto split: sum.splits)
  with 2 show ?case by (simp add: try_map_ex list_all_iff)
next
  case (3 m b)
  let ?f = "\<lambda>(k, v). case render_value v b of Inl e \<Rightarrow> Inl e | Inr w \<Rightarrow> Inr (k, w)"
  have "(\<exists>w. render_value (JObject m) b = Inr w) \<longleftrightarrow> (\<exists>ys. try_map ?f m = Inr ys)"
    by (auto split: sum.splits)
  also have "\<dots> \<longleftrightarrow> (\<forall>p \<in> set m. \<exists>w. render_value (snd p) b = Inr w)"
    unfolding try_map_ex by (auto split: sum.splits)
  also have "\<dots> \<longleftrightarrow> (\<forall>p \<in> set m. list_all (string_renderable b) (json_strings (snd p)))"
    using 3 by (metis (no_types, lifting) surjective_pairing)
  finally show ?case by (simp add: list_all_iff)
qed auto

lemma render_steps_ex:
  "(\<exists>r. render_steps ss b = Inr r) \<longleftrightarrow>
     (\<forall>s \<in> set ss. list_all (string_renderable b) (json_strings (step_args s)))"
  unfolding render_steps_def try_map_ex render_value_ex [symmetric]
proof (intro ball_cong refl)
  fix s :: WorkflowStep
  show "(\<exists>y. (case render_value (step_args s) b of Inl e \<Rightarrow> Inl e
         | Inr a \<Rightarrow> Inr \<lparr>step_action = step_action s, step_args = a\<rparr>) = Inr y)
      \<longleftrightarrow> (\<exists>w. render_value (step_args s) b = Inr w)"
    by (cases "render_value (step_args s) b") auto
qed

definition predicate_strings :: "Predicate \<Rightarrow> string list" where
  "predicate_strings p = pred_key p # json_strings (pred_expected p)"

lemma render_predicate_ex:
  "(\<exists>r. render_predicate b p = Inr r) \<longleftrightarrow> list_all (string_renderable b) (predicate_strings p)"
proof (cases rule: render_string_cases [of b "pred_key p"])
  case (1 r)
  then show ?thesis
    by (auto simp: render_predicate_def predicate_strings_def render_value_ex [symmetric] split: sum.splits)
next
  case (2 err)
  then show ?thesis by (simp add: render_predicate_def predicate_strings_def)
qed

lemma render_predicates_ex:
  "(\<exists>r. render_predicates ps b = Inr r) \<longleftrightarrow>
     (\<forall>p \<in> set ps. list_all (string_renderable b) (predicate_strings p))"
  by (simp add: render_predicates_def try_map_ex render_predicate_ex)

fun verification_strings :: "VerificationStep \<Rightarrow> string list" where
  "verification_strings (ReadFile path c) = path # (case c of None \<Rightarrow> [] | Some s \<Rightarrow> [s])"
| "verification_strings (Probe p) = predicate_strings p"

lemma render_verification_step_ex:
  "(\<exists>r. render_verification_step b v = Inr r) \<longleftrightarrow>
     list_all (string_renderable b) (verification_strings v)"
proof (cases v)
  case (ReadFile path c)
  then show ?thesis
    by (cases rule: render_string_cases [of b path])
      (auto simp: render_string_Inr_ex [symmetric] split: option.splits sum.splits)
next
  case (Probe p)
  then show ?thesis
    using render_predicates_ex [of "[p]" b] by (auto split: sum.splits)
qed

lemma render_verification_ex:
  "(\<exists>r. render_verification vs b = Inr r) \<longleftrightarrow>
     (\<forall>v \<in> set vs. list_all (string_renderable b) (verification_strings v))"
  by (simp add: render_verification_def try_map_ex render_verification_step_ex)

section \<open>Binding\<close>

definition param_accepts :: "ActionProposal \<Rightarrow> string \<Rightarrow> TemplateParameter \<Rightarrow> bool" where
  "param_accepts p cwd prm \<longleftrightarrow>
     (case capture (source_text (param_source prm) p cwd) prm of
        Some v \<Rightarrow> (if v \<noteq> [] then validate_value prm v = Inr () else \<not> param_required prm)
      | None \<Rightarrow> \<not> param_required prm)"

definition param_value :: "ActionProposal \<Rightarrow> string \<Rightarrow> TemplateParameter \<Rightarrow> string" where
  "param_value p cwd prm =
     (case capture (source_text (param_source prm) p cwd) prm of Some v \<Rightarrow> v | None \<Rightarrow> [])"

definition captured_bindings :: "TemplateParameter list \<Rightarrow> ActionProposal \<Rightarrow> string \<Rightarrow> string btree \<Rightarrow> string btree" where
  "captured_bindings ps p cwd b =
     fold (\<lambda>prm m. if param_value p cwd prm \<noteq> [] then bt_insert (param_name prm) (param_value p cwd prm) m else m) ps b"

lemma capture_all_Inr_iff:
  "capture_all ps p cwd b = Inr b' \<longleftrightarrow>
     list_all (param_accepts p cwd) ps \<and> b' = captured_bindings ps p cwd b"
proof (induction ps p cwd b rule: capture_all.induct)
  case (2 prm ps p cwd b)
  then show ?case
    by (auto simp: param_accepts_def param_value_def captured_bindings_def
        split: option.splits sum.splits)
qed (auto simp: captured_bindings_def)

lemma captured_bindings_sorted: "bt_sorted b \<Longrightarrow> bt_sorted (captured_bindings ps p cwd b)"
  unfolding captured_bindings_def by (induction ps arbitrary: b) auto

lemma captured_bindings_Nil [simp]: "captured_bindings [] p cwd b = b"
  by (simp add: captured_bindings_def)

lemma captured_bindings_Cons:
  "captured_bindings (q # ps) p cwd b =
     captured_bindings ps p cwd
       (if param_value p cwd q \<noteq> [] then bt_insert (param_name q) (param_value p cwd q) b else b)"
  by (simp add: captured_bindings_def)

lemma captured_bindings_cases:
  "bt_get (captured_bindings ps p cwd b) n = Some v \<Longrightarrow>
     bt_get b n = Some v \<or>
     (\<exists>prm \<in> set ps. param_name prm = n \<and> v = param_value p cwd prm \<and> v \<noteq> [])"
proof (induction ps arbitrary: b)
  case (Cons q ps)
  from Cons.IH [OF Cons.prems [unfolded captured_bindings_Cons]] show ?case
    by (auto simp: map_simps split: if_splits)
qed simp

lemma captured_bindings_mono:
  "bt_get b n \<noteq> None \<Longrightarrow> bt_get (captured_bindings ps p cwd b) n \<noteq> None"
proof (induction ps arbitrary: b)
  case (Cons q ps)
  show ?case unfolding captured_bindings_Cons
    by (rule Cons.IH) (use Cons.prems in \<open>simp add: map_simps\<close>)
qed simp

lemma captured_bindings_bound:
  "prm \<in> set ps \<Longrightarrow> param_value p cwd prm \<noteq> [] \<Longrightarrow>
     bt_get (captured_bindings ps p cwd b) (param_name prm) \<noteq> None"
proof (induction ps arbitrary: b)
  case (Cons q ps)
  show ?case
  proof (cases "prm = q")
    case True
    then show ?thesis
      using Cons.prems unfolding captured_bindings_Cons
      by (intro captured_bindings_mono) (simp add: map_simps)
  next
    case False
    with Cons show ?thesis by (simp add: captured_bindings_Cons)
  qed
qed simp

lemma param_accepts_value:
  "param_accepts p cwd prm \<Longrightarrow> param_value p cwd prm \<noteq> [] \<Longrightarrow>
     validate_value prm (param_value p cwd prm) = Inr ()"
  by (auto simp: param_accepts_def param_value_def split: option.splits if_splits)

lemma param_accepts_required:
  "param_accepts p cwd prm \<Longrightarrow> param_required prm \<Longrightarrow> param_value p cwd prm \<noteq> []"
  by (auto simp: param_accepts_def param_value_def split: option.splits if_splits)

definition template_renderable :: "ExperienceTemplate \<Rightarrow> string btree \<Rightarrow> bool" where
  "template_renderable t b \<longleftrightarrow>
     list_all (string_renderable b)
       (concat (map predicate_strings (tmpl_preconditions t)) @
        concat (map (\<lambda>s. json_strings (step_args s)) (tmpl_workflow t)) @
        concat (map predicate_strings (tmpl_postconditions t)) @
        concat (map verification_strings (tmpl_verification t)))"

lemma template_bind_Inr_iff:
  "template_bind t p cwd = Inr (e, b) \<longleftrightarrow>
     capture_all (tmpl_parameters t) p cwd [] = Inr b \<and>
     (\<exists>pre steps post ver.
        render_predicates (tmpl_preconditions t) b = Inr pre \<and>
        render_steps (tmpl_workflow t) b = Inr steps \<and>
        render_predicates (tmpl_postconditions t) b = Inr post \<and>
        render_verification (tmpl_verification t) b = Inr ver \<and>
        e = \<lparr>exp_name = tmpl_name t, exp_trigger = tmpl_trigger t, exp_preconditions = pre,
             exp_workflow = steps, exp_postconditions = post, exp_verification = ver,
             exp_failure_policy = tmpl_failure_policy t, exp_undo = tmpl_undo t,
             exp_status = tmpl_status t\<rparr>)"
  unfolding template_bind_def by (auto split: sum.splits)

lemma body_renders_iff:
  "(\<exists>pre steps post ver.
      render_predicates (tmpl_preconditions t) b = Inr pre \<and>
      render_steps (tmpl_workflow t) b = Inr steps \<and>
      render_predicates (tmpl_postconditions t) b = Inr post \<and>
      render_verification (tmpl_verification t) b = Inr ver) \<longleftrightarrow> template_renderable t b"
proof -
  have "template_renderable t b \<longleftrightarrow>
      (\<exists>r. render_predicates (tmpl_preconditions t) b = Inr r) \<and>
      (\<exists>r. render_steps (tmpl_workflow t) b = Inr r) \<and>
      (\<exists>r. render_predicates (tmpl_postconditions t) b = Inr r) \<and>
      (\<exists>r. render_verification (tmpl_verification t) b = Inr r)"
    unfolding render_predicates_ex render_steps_ex render_verification_ex template_renderable_def
    by (auto simp: list_all_iff)
  then show ?thesis by blast
qed


text \<open>Binding is total on exactly the proposals the template can honour. It succeeds if and
  only if every parameter is captured and passes its bind-time constraint (or is optional and
  absent) and every placeholder of the body is well formed and bound; in every other case it
  refuses with an error and produces no Experience.\<close>

theorem template_bind_succeeds_iff:
  "(\<exists>e b. template_bind t p cwd = Inr (e, b)) \<longleftrightarrow>
     list_all (param_accepts p cwd) (tmpl_parameters t) \<and>
     template_renderable t (captured_bindings (tmpl_parameters t) p cwd [])"
  unfolding template_bind_Inr_iff capture_all_Inr_iff body_renders_iff [symmetric] by blast

lemma render_steps_actions:
  "render_steps ss b = Inr rs \<Longrightarrow> map step_action rs = map step_action ss"
proof -
  assume "render_steps ss b = Inr rs"
  then have "list_all2 (\<lambda>s r. step_action r = step_action s) ss rs"
    unfolding render_steps_def try_map_Inr_iff
    by (rule list_all2_mono) (auto split: sum.splits)
  then show ?thesis by (induction rule: list_all2_induct) auto
qed

text \<open>What a successful binding guarantees. The instance keeps the template's name, trigger,
  status and the tool of every step; every required parameter is bound; and every binding is a
  non-empty value captured from the request by the rule of a parameter of that name, which
  passed that parameter's constraint.\<close>

theorem template_bind_sound:
  assumes "template_bind t p cwd = Inr (e, b)"
  shows "exp_name e = tmpl_name t \<and> exp_trigger e = tmpl_trigger t \<and> exp_status e = tmpl_status t \<and>
    map step_action (exp_workflow e) = map step_action (tmpl_workflow t) \<and> bt_sorted b \<and>
    (\<forall>prm \<in> set (tmpl_parameters t). param_required prm \<longrightarrow> bt_get b (param_name prm) \<noteq> None) \<and>
    (\<forall>n v. bt_get b n = Some v \<longrightarrow>
       (\<exists>prm \<in> set (tmpl_parameters t). param_name prm = n \<and> v \<noteq> [] \<and>
          capture (source_text (param_source prm) p cwd) prm = Some v \<and>
          validate_value prm v = Inr ()))"
proof -
  from assms obtain steps where
      acc: "list_all (param_accepts p cwd) (tmpl_parameters t)" and
      b: "b = captured_bindings (tmpl_parameters t) p cwd []" and
      steps: "render_steps (tmpl_workflow t) b = Inr steps" and
      e: "exp_name e = tmpl_name t" "exp_trigger e = tmpl_trigger t" "exp_status e = tmpl_status t"
         "exp_workflow e = steps"
    unfolding template_bind_Inr_iff capture_all_Inr_iff by auto
  have bound: "bt_get b (param_name prm) \<noteq> None"
    if "prm \<in> set (tmpl_parameters t)" "param_required prm" for prm
    using acc that unfolding b
    by (intro captured_bindings_bound) (auto simp: list_all_iff dest: param_accepts_required)
  have origin: "\<exists>prm \<in> set (tmpl_parameters t). param_name prm = n \<and> v \<noteq> [] \<and>
          capture (source_text (param_source prm) p cwd) prm = Some v \<and> validate_value prm v = Inr ()"
    if h: "bt_get b n = Some v" for n v
  proof -
    from captured_bindings_cases [OF h [unfolded b]] obtain prm where
      prm: "prm \<in> set (tmpl_parameters t)" "param_name prm = n" "v = param_value p cwd prm" "v \<noteq> []"
      by auto
    then have "capture (source_text (param_source prm) p cwd) prm = Some v"
      by (auto simp: param_value_def split: option.splits)
    moreover have "validate_value prm v = Inr ()"
      using acc prm by (auto simp: list_all_iff dest: param_accepts_value)
    ultimately show ?thesis using prm by blast
  qed
  show ?thesis
    using e render_steps_actions [OF steps] bound origin captured_bindings_sorted [of "[]"] b by auto
qed

definition demo_template :: ExperienceTemplate where
  "demo_template =
     \<lparr>tmpl_name = ''touch'', tmpl_trigger = \<lparr>pat_tool = ''task'', command_pattern = Some ''Create''\<rparr>,
      tmpl_parameters = [\<lparr>param_name = ''file'', param_source = ''task'', param_kind = ''path'',
        param_prefix = Some ''create '', param_suffix = Some '' now'', param_required = True\<rparr>],
      tmpl_workflow = [\<lparr>step_action = ''write_file'',
        step_args = JObject [(''content'', JString ''x''), (''path'', JString ''d/${file}'')]\<rparr>],
      tmpl_preconditions = [],
      tmpl_postconditions = [\<lparr>pred_key = ''file:d/${file}.exists'', pred_expected = JBool True\<rparr>],
      tmpl_verification = [], tmpl_failure_policy = StopAndReport, tmpl_undo = Unsupported,
      tmpl_status = Active\<rparr>"

definition demo_proposal :: ActionProposal where
  "demo_proposal = \<lparr>prop_tool = ''task'', prop_args = JObject [(''task'', JString ''create a.txt now'')]\<rparr>"

definition demo_instance :: Experience where
  "demo_instance =
     \<lparr>exp_name = ''touch'', exp_trigger = \<lparr>pat_tool = ''task'', command_pattern = Some ''Create''\<rparr>,
      exp_preconditions = [],
      exp_workflow = [\<lparr>step_action = ''write_file'',
        step_args = JObject [(''content'', JString ''x''), (''path'', JString ''d/a.txt'')]\<rparr>],
      exp_postconditions = [\<lparr>pred_key = ''file:d/a.txt.exists'', pred_expected = JBool True\<rparr>],
      exp_verification = [], exp_failure_policy = StopAndReport, exp_undo = Unsupported,
      exp_status = Active\<rparr>"

lemma demo_bind: "template_bind demo_template demo_proposal ''/w'' = Inr (demo_instance, [(''file'', ''a.txt'')])"
  by code_simp

theorem template_bind_sound_witness:
  "bt_get [(''file'', ''a.txt'')] ''file'' = Some ''a.txt'' \<and>
   (\<exists>prm \<in> set (tmpl_parameters demo_template). param_name prm = ''file'' \<and>
      validate_value prm ''a.txt'' = Inr ())"
proof -
  have g: "bt_get [(''file'', ''a.txt'')] ''file'' = Some ''a.txt''" by (simp add: bt_get_def)
  with template_bind_sound [OF demo_bind] show ?thesis by blast
qed

section \<open>The fingerprint\<close>

definition fnv_prime_inverse :: u64 where "fnv_prime_inverse = 0xce965057aff6957b"

lemma fnv_prime_unit: "fnv_prime * fnv_prime_inverse = 1"
  by (simp add: fnv_prime_def fnv_prime_inverse_def)

lemma fnv_mult_inj:
  assumes "(x :: u64) * fnv_prime = y * fnv_prime"
  shows "x = y"
proof -
  have "x * fnv_prime * fnv_prime_inverse = y * fnv_prime * fnv_prime_inverse"
    by (simp only: assms)
  then show ?thesis by (simp only: mult.assoc fnv_prime_unit mult_1_right)
qed

lemma xor_cancel_right: "((h :: u64) XOR a) XOR a = h"
  by (simp add: xor.assoc)

lemma xor_cancel_left: "(h :: u64) XOR (h XOR a) = a"
  by (simp add: xor.assoc [symmetric])

lemma fnv_step_inj:
  assumes "fnv_step c h = fnv_step c h'"
  shows "h = h'"
  using arg_cong [OF fnv_mult_inj [OF assms [unfolded fnv_step_def]],
      of "\<lambda>z. z XOR word_of_nat (byte_of c)"]
  by (simp only: xor_cancel_right)

lemma fnv_step_byte_inj:
  assumes "fnv_step c h = fnv_step d h"
  shows "c = d"
proof -
  have "(word_of_nat (byte_of c) :: u64) = word_of_nat (byte_of d)"
    using arg_cong [OF fnv_mult_inj [OF assms [unfolded fnv_step_def]], of "\<lambda>z. h XOR z"]
    by (simp only: xor_cancel_left)
  then have "unat (word_of_nat (byte_of c) :: u64) = unat (word_of_nat (byte_of d) :: u64)"
    by (simp only:)
  moreover have "unat (word_of_nat (byte_of x) :: u64) = byte_of x" for x
  proof -
    have "byte_of x < 2 ^ 64" by (rule less_trans [OF byte_of_lt]) simp
    then show ?thesis by (simp add: unsigned_of_nat take_bit_nat_eq_self)
  qed
  ultimately show ?thesis by (simp add: byte_of_def)
qed

lemma fold_fnv_inj: "fold fnv_step s h = fold fnv_step s h' \<Longrightarrow> h = h'"
  by (induction s arbitrary: h h') (auto dest: fnv_step_inj)

lemma hex_digits_inj: "a < 16 ^ k \<Longrightarrow> b < 16 ^ k \<Longrightarrow> hex_digits k a = hex_digits k b \<Longrightarrow> a = b"
proof (induction k arbitrary: a b)
  case (Suc k)
  then have "a div 16 = b div 16" by (intro Suc.IH) auto
  moreover have "a mod 16 = b mod 16" using Suc.prems by (intro digit_char_inj) auto
  ultimately show ?case by (metis div_mult_mod_eq)
qed simp

lemma stable_fingerprint_eq_iff: "stable_fingerprint x = stable_fingerprint y \<longleftrightarrow> fnv_hash x = fnv_hash y"
proof -
  have "unat (h :: u64) < 16 ^ 16" for h using unsigned_less [of h] by simp
  then show ?thesis unfolding stable_fingerprint_def by (metis hex_digits_inj word_unat_eq_iff)
qed

lemma fingerprint_one_byte:
  "c \<noteq> d \<Longrightarrow> stable_fingerprint (xs @ c # ys) \<noteq> stable_fingerprint (xs @ d # ys)"
  by (auto simp: stable_fingerprint_eq_iff fnv_hash_def dest!: fold_fnv_inj fnv_step_byte_inj)

lemma hex_digits_chars:
  "c \<in> set (hex_digits k n) \<Longrightarrow> is_ascii_digit c \<or> (97 \<le> byte_of c \<and> byte_of c \<le> 102)"
proof (induction k arbitrary: n)
  case (Suc k)
  have "n mod 16 < 16" by simp
  with byte_of_digit_char [OF this] Suc show ?case
    by (auto simp: is_ascii_digit_def split: if_splits)
qed simp

text \<open>The audit fingerprint of a bound instance is sixteen lower-case hexadecimal digits, and
  it always tells apart two instances of a template whose captured values differ in a single
  byte (each FNV-1a round is injective in the state and in the byte, on 64-bit words).\<close>

theorem binding_fingerprint_sensitive:
  assumes "c \<noteq> d"
  shows "binding_fingerprint t (l @ (n, x @ c # y) # r) \<noteq> binding_fingerprint t (l @ (n, x @ d # y) # r) \<and>
    length (binding_fingerprint t (l @ (n, x @ c # y) # r)) = 16 \<and>
    (\<forall>h \<in> set (binding_fingerprint t (l @ (n, x @ c # y) # r)).
       is_ascii_digit h \<or> (97 \<le> byte_of h \<and> byte_of h \<le> 102))"
proof -
  have split: "binding_material m (l @ (n, x @ k # y) # r) =
      (binding_material m l @ [CHR 0x1F] @ n @ ''='' @ x) @ k # (y @ binding_material [] r)" for k m
    by (simp add: binding_material_def)
  show ?thesis
    unfolding binding_fingerprint_def split
  proof (intro conjI ballI)
    show "stable_fingerprint ((binding_material (tmpl_name t) l @ [CHR 0x1F] @ n @ ''='' @ x) @ c # (y @ binding_material [] r))
        \<noteq> stable_fingerprint ((binding_material (tmpl_name t) l @ [CHR 0x1F] @ n @ ''='' @ x) @ d # (y @ binding_material [] r))"
      by (rule fingerprint_one_byte [OF assms])
  qed (auto simp: stable_fingerprint_def dest: hex_digits_chars)
qed

theorem binding_fingerprint_sensitive_witness:
  "binding_fingerprint demo_template [(''file'', ''a.txt'')] \<noteq>
   binding_fingerprint demo_template [(''file'', ''b.txt'')]"
  using binding_fingerprint_sensitive
    [of "CHR ''a''" "CHR ''b''" demo_template "[]" "''file''" "[]" "''.txt''" "[]"] by simp

end
