(* ===== verification/Shell_Translate.thy ===== *)
theory Shell_Translate
  imports Text Domain Template
begin

text \<open>
  Translation of an observed trace into canonical capabilities (\<open>shell_translate.rs\<close>, with the
  observation types of \<open>template_induce.rs\<close>): a table of recognised command shapes with a named
  refusal for everything else. The working directory of the process and the file system, which
  \<open>Path::canonicalize\<close> consults, are arguments.
\<close>

section \<open>Observations\<close>

record ObservedStep =
  obs_action :: string
  obs_args :: json

record ObservedTask =
  obs_task :: string
  obs_steps :: "ObservedStep list"
  obs_succeeded :: bool

definition ObservedStep_new :: "string \<Rightarrow> json \<Rightarrow> ObservedStep" where
  "ObservedStep_new action args = \<lparr>obs_action = action, obs_args = args\<rparr>"

datatype TranslateReject =
    UnsupportedTool string
  | UnsupportedCommand (reject_tool: string) (reject_command: string) (reject_reason: string)

fun translate_label :: "TranslateReject \<Rightarrow> string" where
  "translate_label (UnsupportedTool _) = ''unsupported_tool''"
| "translate_label (UnsupportedCommand _ _ _) = ''unsupported_command''"

fun translate_reject_text :: "TranslateReject \<Rightarrow> string" where
  "translate_reject_text (UnsupportedTool tool) = ''tool '' @ quoted_name tool @ '' has no canonical capability''"
| "translate_reject_text (UnsupportedCommand tool command reason) =
     tool @ ''('' @ quoted_name command @ '') is not translatable: '' @ reason"

section \<open>Lexing one command segment\<close>

fun split_redirect_loop :: "string \<Rightarrow> bool \<Rightarrow> bool \<Rightarrow> string \<Rightarrow> (string \<times> string) option" where
  "split_redirect_loop [] in_single in_double left = None"
| "split_redirect_loop (c # cs) in_single in_double left =
     (if c = CHR 0x27 \<and> \<not> in_double then split_redirect_loop cs (\<not> in_single) in_double (left @ [c])
      else if c = CHR 0x22 \<and> \<not> in_single then split_redirect_loop cs in_single (\<not> in_double) (left @ [c])
      else if c = CHR ''>'' \<and> \<not> in_single \<and> \<not> in_double then Some (left, cs)
      else split_redirect_loop cs in_single in_double (left @ [c]))"

definition split_redirect :: "string \<Rightarrow> (string \<times> string) option" where
  "split_redirect segment = split_redirect_loop segment False False []"

fun tokenize_loop :: "string \<Rightarrow> char option \<Rightarrow> string \<Rightarrow> string list \<Rightarrow> string + string list" where
  "tokenize_loop [] quote current tokens =
     (if quote \<noteq> None then Inl ''unbalanced quote''
      else Inr (if current \<noteq> [] then tokens @ [current] else tokens))"
| "tokenize_loop (c # cs) quote current tokens =
     (case quote of
        Some active \<Rightarrow>
          (if c = active then tokenize_loop cs None current tokens
           else tokenize_loop cs quote (current @ [c]) tokens)
      | None \<Rightarrow>
          (if c = CHR 0x22 \<or> c = CHR 0x27 then tokenize_loop cs (Some c) current tokens
           else if is_whitespace c then
             (if current \<noteq> [] then tokenize_loop cs None [] (tokens @ [current])
              else tokenize_loop cs None current tokens)
           else tokenize_loop cs None (current @ [c]) tokens))"

definition tokenize :: "string \<Rightarrow> string + string list" where
  "tokenize segment = tokenize_loop segment None [] []"

definition is_flag :: "string \<Rightarrow> bool" where
  "is_flag token \<longleftrightarrow> starts_with token ''-''"

definition two_paths :: "string list \<Rightarrow> string + (string \<times> string)" where
  "two_paths rest =
     (case filter (\<lambda>token. \<not> is_flag token) rest of
        source # target # _ \<Rightarrow> Inr (source, target)
      | _ \<Rightarrow> Inl ''expected exactly two paths'')"

definition flags_debug :: "string list \<Rightarrow> string" where
  "flags_debug flags = ''['' @ join_str '', '' (map quote_str flags) @ '']''"

fun flag_value_loop :: "string list \<Rightarrow> string list \<Rightarrow> string + string" where
  "flag_value_loop flags [] = Inl (''missing one of '' @ flags_debug flags)"
| "flag_value_loop flags (token # rest) =
     (let lowered = to_lowercase token
      in if lowered \<in> set flags then
           (case rest of v # _ \<Rightarrow> Inr v | [] \<Rightarrow> Inl (lowered @ '' without a value''))
         else if list_ex (\<lambda>flag. starts_with lowered (flag @ ''='')) flags then
           (case split_once token ''='' of
              Some (_, raw) \<Rightarrow> Inr raw
            | None \<Rightarrow> flag_value_loop flags rest)
         else flag_value_loop flags rest)"

definition flag_value :: "string list \<Rightarrow> string list \<Rightarrow> string + string" where
  "flag_value rest flags = flag_value_loop flags rest"

definition last_operand :: "string list \<Rightarrow> string option" where
  "last_operand rest = find (\<lambda>token. \<not> is_flag token) (rev rest)"

section \<open>One segment\<close>

definition path_flags :: "string list" where
  "path_flags = [''-path'', ''-literalpath'']"

definition exec_programs :: "string list" where
  "exec_programs = [''git'', ''python'', ''python3'', ''py'', ''node'', ''cargo'', ''go'', ''npm'', ''npx'']"

definition transfer_step :: "string \<Rightarrow> string \<times> string \<Rightarrow> ObservedStep" where
  "transfer_step action = (\<lambda>(source, target).
     ObservedStep_new action (json_object [(''source'', JString source), (''target'', JString target)]))"

definition path_step :: "string \<Rightarrow> string \<Rightarrow> ObservedStep" where
  "path_step action p = ObservedStep_new action (json_object [(''path'', JString p)])"

definition write_step :: "string \<Rightarrow> string \<Rightarrow> ObservedStep" where
  "write_step p content =
     ObservedStep_new ''write_file'' (json_object [(''path'', JString p), (''content'', JString content)])"

definition strip_quotes :: "string \<Rightarrow> string" where
  "strip_quotes s = trim_matches (\<lambda>c. c = CHR 0x27) (trim_matches (\<lambda>c. c = CHR 0x22) (trim_str s))"

definition translate_redirect :: "string \<Rightarrow> string \<Rightarrow> string + ObservedStep" where
  "translate_redirect left right =
     (case tokenize left of
        Inl e \<Rightarrow> Inl e
      | Inr tokens \<Rightarrow>
          (let program = (case tokens of t # _ \<Rightarrow> to_lowercase t | [] \<Rightarrow> []);
               target = strip_quotes right
           in if target = [] then Inl ''redirect without a path''
              else if program = ''echo'' \<or> program = ''write-output'' \<or> program = ''printf'' then
                Inr (write_step target (join_str '' '' (tl tokens)))
              else Inl (quoted_name program @ '' with redirect is not translatable'')))"

definition transfer_by_flags :: "string \<Rightarrow> string list \<Rightarrow> string + ObservedStep" where
  "transfer_by_flags action rest =
     (case flag_value rest path_flags of
        Inl e \<Rightarrow> Inl e
      | Inr source \<Rightarrow>
          (case flag_value rest [''-destination''] of
             Inl e \<Rightarrow> Inl e
           | Inr target \<Rightarrow> Inr (transfer_step action (source, target))))"

definition path_by_flags :: "string \<Rightarrow> string list \<Rightarrow> string + ObservedStep" where
  "path_by_flags action rest =
     (case flag_value rest path_flags of Inl e \<Rightarrow> Inl e | Inr p \<Rightarrow> Inr (path_step action p))"

definition path_by_position :: "string \<Rightarrow> string \<Rightarrow> string list \<Rightarrow> string + ObservedStep" where
  "path_by_position action program rest =
     (case last_operand rest of
        Some p \<Rightarrow> Inr (path_step action p)
      | None \<Rightarrow> Inl (program @ '' without a path''))"

definition translate_command :: "string \<Rightarrow> string \<Rightarrow> string list \<Rightarrow> string + ObservedStep" where
  "translate_command segment program rest =
     (if program \<in> set exec_programs then
        Inr (ObservedStep_new ''exec'' (json_object [(''program'', JString program), (''args'', JArray (map JString rest))]))
      else if program = ''mv'' \<or> program = ''move'' then
        map_sum id (transfer_step ''move_file'') (two_paths rest)
      else if program = ''move-item'' then transfer_by_flags ''move_file'' rest
      else if program = ''cp'' \<or> program = ''copy'' then
        map_sum id (transfer_step ''copy_file'') (two_paths rest)
      else if program = ''copy-item'' then transfer_by_flags ''copy_file'' rest
      else if program = ''mkdir'' \<or> program = ''md'' then path_by_position ''mkdir'' ''mkdir'' rest
      else if program = ''new-item'' then
        (if \<not> contains_str (to_lowercase segment) ''directory''
         then Inl ''new-item is only translatable for -ItemType Directory''
         else path_by_flags ''mkdir'' rest)
      else if program = ''rm'' \<or> program = ''del'' \<or> program = ''erase'' then
        path_by_position ''delete_file'' ''rm'' rest
      else if program = ''remove-item'' then path_by_flags ''delete_file'' rest
      else if program = ''set-content'' then
        (case flag_value rest path_flags of
           Inl e \<Rightarrow> Inl e
         | Inr p \<Rightarrow>
             Inr (write_step p (case flag_value rest [''-value''] of Inr v \<Rightarrow> v | Inl _ \<Rightarrow> [])))
      else Inl (quoted_name program @ '' is not in the translatable vocabulary''))"

definition translate_segment :: "string \<Rightarrow> string + ObservedStep" where
  "translate_segment segment =
     (case split_redirect segment of
        Some (left, right) \<Rightarrow> translate_redirect left right
      | None \<Rightarrow>
          (case tokenize segment of
             Inl e \<Rightarrow> Inl e
           | Inr [] \<Rightarrow> Inl ''empty segment''
           | Inr (first # rest) \<Rightarrow> translate_command segment (to_lowercase first) rest))"

section \<open>Whole tool calls\<close>

definition refused_syntax :: "string \<Rightarrow> bool" where
  "refused_syntax command \<longleftrightarrow>
     contains_str command ''|'' \<or> contains_str command ''$('' \<or> contains_str command [CHR 0x60] \<or>
     contains_str command ''*'' \<or> (contains_str command ''&'' \<and> \<not> contains_str command ''&&'')"

definition command_segments :: "string \<Rightarrow> string list" where
  "command_segments command =
     filter (\<lambda>s. s \<noteq> []) (map trim_str (concat (map (split_char (CHR '';'')) (split_on ''&&'' command))))"

definition translate_shell :: "ObservedStep \<Rightarrow> TranslateReject + ObservedStep list" where
  "translate_shell step =
     (case (case get_str (obs_args step) ''command'' of
              Some c \<Rightarrow> Some c
            | None \<Rightarrow> get_str (obs_args step) ''cmd'') of
        None \<Rightarrow> Inl (UnsupportedCommand (obs_action step) (json_text (obs_args step)) ''no command string'')
      | Some command \<Rightarrow>
          (let reject = (\<lambda>reason. UnsupportedCommand (obs_action step) command reason)
           in if refused_syntax command then Inl (reject ''pipe, substitution, glob or background job'')
              else
                (case try_map (\<lambda>segment.
                        if starts_with segment ''cd '' then Inl (reject ''cd is not part of a canonical workflow'')
                        else map_sum reject id (translate_segment segment)) (command_segments command) of
                   Inl e \<Rightarrow> Inl e
                 | Inr [] \<Rightarrow> Inl (reject ''empty command'')
                 | Inr translated \<Rightarrow> Inr translated)))"

fun patch_loop :: "string list \<Rightarrow> string option \<Rightarrow> string list \<Rightarrow> ObservedStep list \<Rightarrow> string + ObservedStep list" where
  "patch_loop [] current content translated =
     Inr (case current of
            Some p \<Rightarrow> translated @ [write_step p (join_str [CHR 0x0A] content)]
          | None \<Rightarrow> translated)"
| "patch_loop (line # rest) current content translated =
     (case strip_prefix line ''*** Add File:'' of
        Some p \<Rightarrow>
          patch_loop rest (Some (trim_str p)) []
            (case current of
               Some q \<Rightarrow> translated @ [write_step q (join_str [CHR 0x0A] content)]
             | None \<Rightarrow> translated)
      | None \<Rightarrow>
          (if starts_with line ''*** Update File:'' \<or> starts_with line ''*** Delete File:'' then
             Inl (''only '' @ quoted_name ''Add File'' @ '' hunks are translatable'')
           else if starts_with line ''*** '' then patch_loop rest current content translated
           else if current = None then patch_loop rest current content translated
           else case strip_prefix line ''+'' of
                  Some added \<Rightarrow> patch_loop rest current (content @ [added]) translated
                | None \<Rightarrow> patch_loop rest current content translated))"

definition translate_patch :: "ObservedStep \<Rightarrow> TranslateReject + ObservedStep list" where
  "translate_patch step =
     (case Option.bind (case json_get (obs_args step) ''input'' of
                          Some v \<Rightarrow> Some v
                        | None \<Rightarrow> json_get (obs_args step) ''patch'') as_str of
        None \<Rightarrow> Inl (UnsupportedCommand ''apply_patch'' (json_text (obs_args step)) ''no patch body'')
      | Some patch \<Rightarrow>
          (let reject = UnsupportedCommand ''apply_patch'' patch
           in case patch_loop (str_lines patch) None [] [] of
                Inl reason \<Rightarrow> Inl (reject reason)
              | Inr [] \<Rightarrow> Inl (reject ''no added file'')
              | Inr translated \<Rightarrow> Inr translated))"

definition passthrough_tools :: "string list" where
  "passthrough_tools = [''exec'', ''read_file'', ''write_file'', ''append_file'', ''mkdir'', ''copy_file'',
     ''move_file'', ''delete_file'']"

definition translate_step :: "ObservedStep \<Rightarrow> TranslateReject + ObservedStep list" where
  "translate_step step =
     (if obs_action step = ''shell'' \<or> obs_action step = ''exec_command'' then translate_shell step
      else if obs_action step = ''apply_patch'' then translate_patch step
      else if obs_action step = ''write_stdin'' then
        (case get_str (obs_args step) ''chars'' of
           None \<Rightarrow> Inr []
         | Some chars \<Rightarrow>
             (if chars = [] then Inr []
              else Inl (UnsupportedCommand ''write_stdin'' chars ''input to a live session cannot be replayed'')))
      else if obs_action step \<in> set passthrough_tools then Inr [step]
      else Inl (UnsupportedTool (obs_action step)))"

section \<open>Whole observations\<close>

definition declared_workdir :: "ObservedStep \<Rightarrow> string option" where
  "declared_workdir step =
     Option.bind (case json_get (obs_args step) ''workdir'' of
                    Some v \<Rightarrow> Some v
                  | None \<Rightarrow> json_get (obs_args step) ''cwd'') as_str"

definition same_path :: "fsys \<Rightarrow> path \<Rightarrow> string \<Rightarrow> string \<Rightarrow> bool" where
  "same_path fs here left right =
     (case (canonicalize_text fs here left, canonicalize_text fs here right) of
        (Inr l, Inr r) \<Rightarrow> l = r
      | _ \<Rightarrow> equal_ignore_case left right)"

fun canonicalize_loop :: "fsys \<Rightarrow> path \<Rightarrow> ObservedStep list \<Rightarrow> string option \<Rightarrow> ObservedStep list
    \<Rightarrow> TranslateReject + ObservedStep list" where
  "canonicalize_loop fs here [] declared steps = Inr steps"
| "canonicalize_loop fs here (step # rest) declared steps =
     (let continue = (\<lambda>d. case translate_step step of
                            Inl e \<Rightarrow> Inl e
                          | Inr extra \<Rightarrow> canonicalize_loop fs here rest d (steps @ extra))
      in case declared_workdir step of
           None \<Rightarrow> continue declared
         | Some workdir \<Rightarrow>
             (case declared of
                None \<Rightarrow> continue (Some workdir)
              | Some first \<Rightarrow>
                  (if same_path fs here first workdir then continue declared
                   else Inl (UnsupportedCommand (obs_action step) workdir
                     (''steps of one observation ran in different working directories (first '' @
                      quoted_name first @ '')'')))))"

definition canonicalize :: "fsys \<Rightarrow> path \<Rightarrow> ObservedTask \<Rightarrow> TranslateReject + ObservedTask" where
  "canonicalize fs here task =
     (case canonicalize_loop fs here (obs_steps task) None [] of
        Inl e \<Rightarrow> Inl e
      | Inr steps \<Rightarrow> Inr \<lparr>obs_task = obs_task task, obs_steps = steps, obs_succeeded = obs_succeeded task\<rparr>)"

definition guard_workdir :: "fsys \<Rightarrow> path \<Rightarrow> ObservedStep \<Rightarrow> string option \<Rightarrow> TranslateReject + unit" where
  "guard_workdir fs here step workspace =
     (case workspace of
        None \<Rightarrow> Inr ()
      | Some w \<Rightarrow>
          (case declared_workdir step of
             None \<Rightarrow> Inr ()
           | Some declared \<Rightarrow>
               (if same_path fs here declared w then Inr ()
                else Inl (UnsupportedCommand (obs_action step) declared
                  (''step ran outside the observation workspace ('' @ w @ '')'')))))"

definition canonicalize_in_workspace :: "fsys \<Rightarrow> path \<Rightarrow> ObservedTask \<Rightarrow> string option \<Rightarrow> TranslateReject + ObservedTask" where
  "canonicalize_in_workspace fs here task workspace =
     (case try_map (\<lambda>step. case guard_workdir fs here step workspace of
                             Inl e \<Rightarrow> Inl e
                           | Inr _ \<Rightarrow> translate_step step) (obs_steps task) of
        Inl e \<Rightarrow> Inl e
      | Inr stepss \<Rightarrow>
          Inr \<lparr>obs_task = obs_task task, obs_steps = concat stepss, obs_succeeded = obs_succeeded task\<rparr>)"


section \<open>Only canonical steps come out\<close>

definition canonical_step :: "ObservedStep \<Rightarrow> bool" where
  "canonical_step s \<longleftrightarrow> obs_action s \<in> set passthrough_tools"

lemmas step_shapes = ObservedStep_new_def transfer_step_def path_step_def write_step_def

lemma transfer_canonical [intro]: "a = ''move_file'' \<or> a = ''copy_file'' \<Longrightarrow> canonical_step (transfer_step a x)"
  by (auto simp: canonical_step_def step_shapes passthrough_tools_def split: prod.splits)

lemma path_canonical [intro]: "a = ''mkdir'' \<or> a = ''delete_file'' \<Longrightarrow> canonical_step (path_step a p)"
  by (auto simp: canonical_step_def step_shapes passthrough_tools_def)

lemma write_canonical [intro]: "canonical_step (write_step p content)"
  by (simp add: canonical_step_def step_shapes passthrough_tools_def)

lemma exec_canonical [intro]: "canonical_step (ObservedStep_new ''exec'' args)"
  by (simp add: canonical_step_def step_shapes passthrough_tools_def)

text \<open>Every result of a partial translation is canonical.\<close>

definition yields_canonical :: "'e + ObservedStep \<Rightarrow> bool" where
  "yields_canonical r \<longleftrightarrow> (\<forall>s. r = Inr s \<longrightarrow> canonical_step s)"

lemma yields_Inl [intro]: "yields_canonical (Inl e)"
  by (simp add: yields_canonical_def)

lemma yields_Inr [intro]: "canonical_step s \<Longrightarrow> yields_canonical (Inr s)"
  by (simp add: yields_canonical_def)

lemma yields_if: "yields_canonical x \<Longrightarrow> yields_canonical y \<Longrightarrow> yields_canonical (if b then x else y)"
  by simp

lemma yields_sum: "(\<And>e. yields_canonical (f e)) \<Longrightarrow> (\<And>v. yields_canonical (g v)) \<Longrightarrow> yields_canonical (case_sum f g r)"
  by (cases r) auto

lemma yields_option: "yields_canonical x \<Longrightarrow> (\<And>v. yields_canonical (f v)) \<Longrightarrow> yields_canonical (case_option x f r)"
  by (cases r) auto

lemma yields_map_sum: "(\<And>v. canonical_step (f v)) \<Longrightarrow> yields_canonical (map_sum id f r)"
  by (cases r) auto

lemmas yields_rules = yields_if yields_sum yields_option yields_map_sum yields_Inl yields_Inr
  transfer_canonical path_canonical write_canonical exec_canonical

lemma translate_command_canonical: "yields_canonical (translate_command segment program rest)"
  unfolding translate_command_def transfer_by_flags_def path_by_flags_def path_by_position_def
  by (intro yields_rules) simp_all

lemma translate_redirect_canonical: "yields_canonical (translate_redirect left right)"
  unfolding translate_redirect_def Let_def by (intro yields_rules)

lemma translate_segment_canonical: "translate_segment segment = Inr s \<Longrightarrow> canonical_step s"
  using translate_redirect_canonical translate_command_canonical
  by (auto simp: translate_segment_def yields_canonical_def split: option.splits sum.splits list.splits)

lemma map_sum_Inr_iff: "map_sum f id r = Inr y \<longleftrightarrow> r = Inr y"
  by (cases r) auto

lemma translate_shell_canonical:
  assumes "translate_shell step = Inr ss"
  shows "list_all canonical_step ss"
proof -
  from assms obtain command where "try_map (\<lambda>segment.
      if starts_with segment ''cd '' then Inl (UnsupportedCommand (obs_action step) command ''cd is not part of a canonical workflow'')
      else map_sum (UnsupportedCommand (obs_action step) command) id (translate_segment segment)) (command_segments command) = Inr ss"
    by (auto simp: translate_shell_def Let_def split: option.splits if_splits sum.splits list.splits)
  then have "list_all2 (\<lambda>segment s. translate_segment segment = Inr s) (command_segments command) ss"
    unfolding try_map_Inr_iff
    by (rule list.rel_mono_strong) (auto simp: map_sum_Inr_iff split: if_splits)
  then show ?thesis
    by (induction rule: list_all2_induct) (auto intro: translate_segment_canonical)
qed

lemma patch_loop_canonical:
  "patch_loop ls current content translated = Inr ss \<Longrightarrow> list_all canonical_step translated \<Longrightarrow> list_all canonical_step ss"
proof (induction ls current content translated rule: patch_loop.induct)
  case (1 current content translated)
  then show ?case by (auto split: option.splits)
next
  case (2 line rest current content translated)
  then show ?case by (cases current) (auto split: option.splits if_splits)
qed

lemma translate_step_canonical: "translate_step step = Inr ss \<Longrightarrow> list_all canonical_step ss"
  by (auto simp: translate_step_def translate_patch_def canonical_step_def [of step] Let_def
      dest: translate_shell_canonical patch_loop_canonical
      split: if_splits option.splits sum.splits list.splits)

lemma translate_canonical_step: "canonical_step s \<Longrightarrow> translate_step s = Inr [s]"
  by (auto simp: canonical_step_def translate_step_def passthrough_tools_def)

lemma canonicalize_loop_canonical:
  "canonicalize_loop fs here ss declared steps = Inr out \<Longrightarrow> list_all canonical_step steps \<Longrightarrow> list_all canonical_step out"
proof (induction ss arbitrary: declared steps)
  case (Cons s ss)
  then show ?case
    by (auto simp: Let_def dest: translate_step_canonical split: option.splits sum.splits if_splits)
qed simp



definition demo_trace :: ObservedTask where
  "demo_trace = \<lparr>obs_task = ''archive a'', obs_steps =
     [ObservedStep_new ''shell'' (json_object [(''command'', JString ''mkdir d && mv a d/a'')])], obs_succeeded = True\<rparr>"


section \<open>Plain commands\<close>

definition plain_char :: "char \<Rightarrow> bool" where
  "plain_char c \<longleftrightarrow> is_ascii_alphanumeric c \<or> c = CHR ''.'' \<or> c = CHR ''/'' \<or> c = CHR ''_''"

definition plain_word :: "string \<Rightarrow> bool" where
  "plain_word w \<longleftrightarrow> w \<noteq> [] \<and> list_all plain_char w"

lemma plain_char_facts:
  assumes "plain_char c"
  shows "\<not> is_whitespace c" "c \<noteq> CHR 0x22" "c \<noteq> CHR 0x27" "c \<noteq> CHR ''>''" "c \<noteq> CHR ''|''" "c \<noteq> CHR ''$''"
    "c \<noteq> CHR 0x60" "c \<noteq> CHR ''*''" "c \<noteq> CHR ''&''" "c \<noteq> CHR '';''" "c \<noteq> CHR ''-''"
  using assms
  by (auto simp: plain_char_def is_ascii_alphanumeric_def is_ascii_alphabetic_def is_ascii_upper_def
      is_ascii_lower_def is_ascii_digit_def is_whitespace_def byte_of_def)

lemma not_plain [simp]:
  "\<not> plain_char (CHR ''|'')" "\<not> plain_char (CHR ''$'')" "\<not> plain_char (CHR 0x60)" "\<not> plain_char (CHR ''*'')"
  "\<not> plain_char (CHR ''&'')" "\<not> plain_char (CHR '';'')" "\<not> plain_char (CHR ''-'')" "\<not> plain_char (CHR ''>'')"
  by code_simp+

lemma tokenize_word:
  "list_all plain_char w \<Longrightarrow> tokenize_loop (w @ rest) None current tokens = tokenize_loop rest None (current @ w) tokens"
  by (induction w arbitrary: current) (auto simp: plain_char_facts)

lemma tokenize_words:
  "list_all plain_word ws \<Longrightarrow> tokenize_loop (join_str '' '' ws) None [] tokens = Inr (tokens @ ws)"
proof (induction ws arbitrary: tokens rule: induct_list012)
  case (2 w)
  then show ?case using tokenize_word [of w "[]" "[]" tokens] by (auto simp: plain_word_def)
next
  case (3 v w ws)
  then have v: "list_all plain_char v" "v \<noteq> []" by (auto simp: plain_word_def)
  have "is_whitespace (CHR '' '')" by (simp add: is_whitespace_def)
  with v 3 show ?case
    using tokenize_word [OF v(1), of "'' '' @ join_str '' '' (w # ws)" "[]" tokens] by simp
qed simp

lemma split_redirect_None: "CHR ''>'' \<notin> set s \<Longrightarrow> split_redirect s = None"
proof -
  have "CHR ''>'' \<notin> set s \<Longrightarrow> split_redirect_loop s a b left = None" for a b left
    by (induction s arbitrary: a b left) auto
  then show "CHR ''>'' \<notin> set s \<Longrightarrow> split_redirect s = None" by (simp add: split_redirect_def)
qed

lemma contains_str_chars: "contains_str s p \<Longrightarrow> set p \<subseteq> set s"
  by (auto simp: contains_str_sublist sublist_def)

lemma set_plain_words: "list_all plain_word ws \<Longrightarrow> c \<in> set (join_str '' '' ws) \<Longrightarrow> plain_char c \<or> c = CHR '' ''"
  using set_join_str [of "'' ''" ws] by (auto simp: list_all_iff plain_word_def)

definition rm_command :: "string list \<Rightarrow> ObservedStep" where
  "rm_command ws = ObservedStep_new ''shell'' (json_object [(''command'', JString (join_str '' '' (''rm'' # ws)))])"

lemma plain_segment:
  assumes "list_all plain_word ws" "ws \<noteq> []"
  shows "command_segments (join_str '' '' ws) = [join_str '' '' ws]" "\<not> refused_syntax (join_str '' '' ws)"
proof -
  let ?s = "join_str '' '' ws"
  have cs: "c \<notin> set ?s" if "\<not> plain_char c" "c \<noteq> CHR '' ''" for c
    using set_plain_words [OF assms(1)] that by blast
  have absent: "\<not> contains_str ?s p" if "c \<in> set p" "\<not> plain_char c" "c \<noteq> CHR '' ''" for p c
    using cs [OF that(2,3)] contains_str_chars [of ?s p] that(1) by blast
  show "\<not> refused_syntax ?s"
    unfolding refused_syntax_def
    using absent [of "CHR ''|''" "''|''"] absent [of "CHR ''$''" "''$(''"] absent [of "CHR 0x60" "[CHR 0x60]"]
      absent [of "CHR ''*''" "''*''"] absent [of "CHR ''&''" "''&''"] by simp
  have "\<not> contains_str ?s ''&&''" using absent [of "CHR ''&''" "''&&''"] by simp
  then have one: "split_on ''&&'' ?s = [?s]" by (rule split_on_absent)
  have two: "split_char (CHR '';'') ?s = [?s]"
    using split_join [of "[?s]" "CHR '';''"] cs [of "CHR '';''"] by simp
  have "plain_word (hd ws)" "plain_word (last ws)" "list_all (\<lambda>w. w \<noteq> []) ws"
    using assms by (auto simp: list_all_iff plain_word_def)
  then have ends: "?s \<noteq> []" "\<not> is_whitespace (hd ?s)" "\<not> is_whitespace (last ?s)"
    using join_str_hd [OF assms(2)] join_str_last [OF assms(2)] plain_char_facts(1)
    by (auto simp: plain_word_def list_all_iff)
  then have "trim_str ?s = ?s" by (intro trim_str_id) blast
  with ends(1) show "command_segments ?s = [?s]" by (simp add: command_segments_def one two)
qed

text \<open>A translated \<open>rm\<close> deletes one file only. For every list of plain operands, a shell call
  \<open>rm a b c\<close> is accepted and becomes a single \<open>delete_file\<close> of the last operand: the other
  deletions are dropped without a refusal, so the stored body does less than the observed
  command did.\<close>

theorem rm_keeps_last_operand_only:
  assumes "ws \<noteq> []" and "list_all plain_word ws"
  shows "translate_step (rm_command ws) = Inr [path_step ''delete_file'' (last ws)]"
proof -
  let ?s = "join_str '' '' (''rm'' # ws)"
  have rm: "plain_word ''rm''" by code_simp
  with assms(2) have all: "list_all plain_word (''rm'' # ws)" by simp
  have "CHR ''>'' \<notin> set ?s" using set_plain_words [OF all, of "CHR ''>''"] by auto
  then have red: "split_redirect ?s = None" by (rule split_redirect_None)
  have tok: "tokenize ?s = Inr (''rm'' # ws)" using tokenize_words [OF all, of "[]"] by (simp add: tokenize_def)
  have low: "to_lowercase ''rm'' = ''rm''" by code_simp
  have noflag: "\<not> is_flag w" if "w \<in> set ws" for w
  proof -
    have "list_all plain_char w" using that assms(2) by (auto simp: list_all_iff plain_word_def)
    then show ?thesis by (cases w) (auto simp: is_flag_def starts_with_def)
  qed
  have "last_operand ws = Some (last ws)"
    using assms(1) noflag by (cases ws rule: rev_cases) (auto simp: last_operand_def)
  then have cmd: "translate_command ?s ''rm'' ws = Inr (path_step ''delete_file'' (last ws))"
    by (simp add: translate_command_def path_by_position_def exec_programs_def)
  have seg: "translate_segment ?s = Inr (path_step ''delete_file'' (last ws))"
    unfolding translate_segment_def red tok by (simp only: low cmd option.case sum.case list.case)
  have segs: "command_segments ?s = [?s]" "\<not> refused_syntax ?s" using plain_segment [OF all] by blast+
  have nocd: "\<not> starts_with ?s ''cd ''" using assms(1) by (cases ws) (simp_all add: starts_with_def)
  have str: "get_str (obs_args (rm_command ws)) ''command'' = Some ?s"
    by (simp add: rm_command_def ObservedStep_new_def json_object_def bt_collect_def bt_get_def)
  have "translate_shell (rm_command ws) = Inr [path_step ''delete_file'' (last ws)]"
    unfolding translate_shell_def str Let_def option.case segs using segs(2) by (simp add: nocd seg)
  then show ?thesis by (simp add: translate_step_def rm_command_def ObservedStep_new_def)
qed

theorem rm_keeps_last_operand_only_witness:
  "translate_step (rm_command [''a.txt'', ''b.txt'']) = Inr [path_step ''delete_file'' ''b.txt'']"
proof -
  have "list_all plain_word [''a.txt'', ''b.txt'']" by code_simp
  with rm_keeps_last_operand_only [of "[''a.txt'', ''b.txt'']"] show ?thesis by simp
qed

end
