(* ===== verification/Policy.thy ===== *)
theory Policy
  imports Template
begin

text \<open>
  Capability policy (\<open>policy.rs\<close>): the per-scope permission record, the verdict on a workflow
  action, session narrowing, API validation and the subset test on session requests. Sizes
  and timeouts are \<open>u64\<close> words.

  The locale \<open>narrowing\<close> states what a client may rely on: narrowing is the meet of the verdicts.
  It is interpreted on the model of \<open>CapabilityPolicy\<close>.
\<close>

section \<open>Data and defaults\<close>

definition POLICY_FAMILIES :: "string list" where
  "POLICY_FAMILIES = [''fs_read'', ''fs_write'', ''fs_delete'', ''exec'', ''network'']"

definition GLOBAL_SCOPE_KEY :: string where "GLOBAL_SCOPE_KEY = ''__global__''"
definition FS_WRITE_WORKSPACE_ONLY :: string where "FS_WRITE_WORKSPACE_ONLY = ''workspace_only''"
definition FS_WRITE_DENY :: string where "FS_WRITE_DENY = ''deny''"
definition EXEC_OFF :: string where "EXEC_OFF = ''off''"
definition EXEC_ALLOWLIST :: string where "EXEC_ALLOWLIST = ''allowlist''"
definition NETWORK_OFF :: string where "NETWORK_OFF = ''off''"
definition NETWORK_ALLOWLIST :: string where "NETWORK_ALLOWLIST = ''allowlist''"
definition DEFAULT_READ_MAX_BYTES :: u64 where "DEFAULT_READ_MAX_BYTES = 20480"
definition MAX_SPECIAL_GRANT_BYTES :: u64 where "MAX_SPECIAL_GRANT_BYTES = 8 * 1024 * 1024"

lemmas policy_values = FS_WRITE_WORKSPACE_ONLY_def FS_WRITE_DENY_def EXEC_OFF_def EXEC_ALLOWLIST_def
  NETWORK_OFF_def NETWORK_ALLOWLIST_def

record FsReadPolicy =
  fr_enabled :: bool
  fr_workspace_only :: bool
  fr_max_bytes :: u64
  fr_special_grant_bytes :: "u64 option"

definition FsReadPolicy_default :: FsReadPolicy where
  "FsReadPolicy_default = \<lparr>fr_enabled = True, fr_workspace_only = True,
     fr_max_bytes = DEFAULT_READ_MAX_BYTES, fr_special_grant_bytes = None\<rparr>"

definition effective_max_bytes :: "FsReadPolicy \<Rightarrow> u64" where
  "effective_max_bytes r =
     (let granted = (case fr_special_grant_bytes r of
                       Some v \<Rightarrow> min v MAX_SPECIAL_GRANT_BYTES
                     | None \<Rightarrow> 0)
      in max (min (fr_max_bytes r) MAX_SPECIAL_GRANT_BYTES) granted)"

record ExecPolicy =
  ex_mode :: string
  ex_allow :: "string list"
  ex_timeout_secs :: u64
  ex_output_cap :: u64
  ex_allow_legacy_shell :: bool

definition ExecPolicy_default :: ExecPolicy where
  "ExecPolicy_default = \<lparr>ex_mode = EXEC_OFF, ex_allow = [], ex_timeout_secs = 60,
     ex_output_cap = 20000, ex_allow_legacy_shell = False\<rparr>"

record NetworkPolicy =
  net_mode :: string
  net_allow :: "string list"

definition NetworkPolicy_default :: NetworkPolicy where
  "NetworkPolicy_default = \<lparr>net_mode = NETWORK_OFF, net_allow = []\<rparr>"

record CapabilityPolicy =
  fs_read :: FsReadPolicy
  fs_write :: string
  fs_delete :: string
  pol_exec :: ExecPolicy
  pol_network :: NetworkPolicy

definition CapabilityPolicy_default :: CapabilityPolicy where
  "CapabilityPolicy_default = \<lparr>fs_read = FsReadPolicy_default, fs_write = FS_WRITE_WORKSPACE_ONLY,
     fs_delete = FS_WRITE_DENY, pol_exec = ExecPolicy_default, pol_network = NetworkPolicy_default\<rparr>"

record PolicyDecision =
  pd_action :: string
  pd_family :: string
  pd_reason :: string

section \<open>Verdicts\<close>

definition read_max_bytes :: "CapabilityPolicy \<Rightarrow> u64" where
  "read_max_bytes p = effective_max_bytes (fs_read p)"

definition refuse :: "string \<Rightarrow> string \<Rightarrow> string \<Rightarrow> PolicyDecision + unit" where
  "refuse action family reason =
     Inl \<lparr>pd_action = action, pd_family = family, pd_reason = reason\<rparr>"

definition policy_check :: "CapabilityPolicy \<Rightarrow> string \<Rightarrow> PolicyDecision + unit" where
  "policy_check p action =
     (if action = ''write_file'' \<or> action = ''append_file'' \<or> action = ''mkdir''
         \<or> action = ''copy_file'' \<or> action = ''move_file'' then
        (if fs_write p = FS_WRITE_DENY then refuse action ''fs_write'' ''fs_write=deny'' else Inr ())
      else if action = ''delete_file'' then
        (if fs_delete p \<noteq> FS_WRITE_WORKSPACE_ONLY then refuse action ''fs_delete'' ''fs_delete=deny''
         else Inr ())
      else if action = ''read_file'' then
        (if fr_enabled (fs_read p) then Inr () else refuse action ''fs_read'' ''fs_read=disabled'')
      else if action = ''exec'' \<or> action = ''exec_command'' then
        (if ex_mode (pol_exec p) = EXEC_ALLOWLIST then Inr () else refuse action ''exec'' ''exec=off'')
      else refuse action ''unknown'' ''unsupported_action'')"

definition policy_allows :: "CapabilityPolicy \<Rightarrow> string \<Rightarrow> bool" where
  "policy_allows p action \<longleftrightarrow> policy_check p action = Inr ()"

section \<open>Narrowing\<close>

definition intersection :: "string list \<Rightarrow> string list \<Rightarrow> string list" where
  "intersection left right = remdups_adj (sort (filter (\<lambda>v. list_ex (\<lambda>w. w = v) right) left))"

definition narrow_read :: "FsReadPolicy \<Rightarrow> FsReadPolicy \<Rightarrow> FsReadPolicy" where
  "narrow_read base req =
     (let m1 = (if \<not> fr_enabled req then base\<lparr>fr_enabled := False\<rparr> else base);
          m2 = (if \<not> fr_workspace_only req then m1\<lparr>fr_workspace_only := True\<rparr> else m1);
          cap = effective_max_bytes req
      in if cap < effective_max_bytes m2
         then m2\<lparr>fr_max_bytes := cap, fr_special_grant_bytes := None\<rparr> else m2)"

definition narrow_exec :: "ExecPolicy \<Rightarrow> ExecPolicy \<Rightarrow> ExecPolicy" where
  "narrow_exec base req =
     (if ex_mode req \<noteq> EXEC_ALLOWLIST \<and> ex_mode base = EXEC_ALLOWLIST then ExecPolicy_default
      else if ex_mode req = EXEC_ALLOWLIST then
        base\<lparr>ex_allow := intersection (ex_allow base) (ex_allow req),
             ex_timeout_secs := min (ex_timeout_secs base) (ex_timeout_secs req),
             ex_output_cap := min (ex_output_cap base) (ex_output_cap req),
             ex_allow_legacy_shell := ex_allow_legacy_shell base \<and> ex_allow_legacy_shell req\<rparr>
      else base)"

definition narrow_network :: "NetworkPolicy \<Rightarrow> NetworkPolicy \<Rightarrow> NetworkPolicy" where
  "narrow_network base req =
     (if net_mode req \<noteq> NETWORK_ALLOWLIST \<and> net_mode base = NETWORK_ALLOWLIST then NetworkPolicy_default
      else if net_mode req = NETWORK_ALLOWLIST then
        base\<lparr>net_allow := intersection (net_allow base) (net_allow req)\<rparr>
      else base)"

definition policy_narrow :: "CapabilityPolicy \<Rightarrow> CapabilityPolicy \<Rightarrow> CapabilityPolicy" where
  "policy_narrow base req =
     \<lparr>fs_read = narrow_read (fs_read base) (fs_read req),
      fs_write = (if fs_write req = FS_WRITE_DENY then FS_WRITE_DENY else fs_write base),
      fs_delete = (if fs_delete req \<noteq> FS_WRITE_WORKSPACE_ONLY then FS_WRITE_DENY else fs_delete base),
      pol_exec = narrow_exec (pol_exec base) (pol_exec req),
      pol_network = narrow_network (pol_network base) (pol_network req)\<rparr>"

section \<open>Validation and the subset test\<close>

definition validate_policy :: "CapabilityPolicy \<Rightarrow> string + unit" where
  "validate_policy p =
     (let ex = pol_exec p; nw = pol_network p; rd = fs_read p in
      if fs_write p \<noteq> FS_WRITE_WORKSPACE_ONLY \<and> fs_write p \<noteq> FS_WRITE_DENY then
        Inl (''invalid fs_write '' @ quoted_name (fs_write p))
      else if fs_delete p \<noteq> FS_WRITE_WORKSPACE_ONLY \<and> fs_delete p \<noteq> FS_WRITE_DENY then
        Inl (''invalid fs_delete '' @ quoted_name (fs_delete p))
      else if ex_mode ex \<noteq> EXEC_OFF \<and> ex_mode ex \<noteq> EXEC_ALLOWLIST then
        Inl (''invalid exec.mode '' @ quoted_name (ex_mode ex))
      else if ex_mode ex = EXEC_ALLOWLIST \<and> ex_allow ex = [] then
        Inl ''exec.mode=allowlist requires a non-empty allow list''
      else if ex_timeout_secs ex = 0 \<or> ex_timeout_secs ex > 3600 then
        Inl ''exec.timeout_secs must be within 1..=3600''
      else if ex_output_cap ex = 0 \<or> ex_output_cap ex > 10 * 1024 * 1024 then
        Inl ''exec.output_cap must be within 1..=10485760''
      else if net_mode nw \<noteq> NETWORK_OFF \<and> net_mode nw \<noteq> NETWORK_ALLOWLIST then
        Inl (''invalid network.mode '' @ quoted_name (net_mode nw))
      else if net_mode nw = NETWORK_ALLOWLIST \<and> net_allow nw = [] then
        Inl ''network.mode=allowlist requires a non-empty allow list''
      else if fr_max_bytes rd = 0 then
        Inl ''fs_read.max_bytes must be >= 1''
      else case fr_special_grant_bytes rd of
             None \<Rightarrow> Inr ()
           | Some grant \<Rightarrow>
               (if grant = 0 \<or> grant > MAX_SPECIAL_GRANT_BYTES then
                  Inl (''fs_read.special_grant_bytes must be within 1..=''
                       @ nat_digits (unat MAX_SPECIAL_GRANT_BYTES))
                else if grant < fr_max_bytes rd then
                  Inl ''fs_read.special_grant_bytes must be >= fs_read.max_bytes''
                else Inr ()))"

definition request_within :: "CapabilityPolicy \<Rightarrow> CapabilityPolicy \<Rightarrow> bool" where
  "request_within base req =
     (let bx = pol_exec base; rx = pol_exec req; bn = pol_network base; rn = pol_network req in
      if read_max_bytes req > read_max_bytes base then False
      else if fs_write req \<noteq> FS_WRITE_DENY \<and> fs_write base = FS_WRITE_DENY then False
      else if fs_delete req = FS_WRITE_WORKSPACE_ONLY \<and> fs_delete base \<noteq> FS_WRITE_WORKSPACE_ONLY then False
      else if ex_mode rx = EXEC_ALLOWLIST \<and>
              (ex_mode bx \<noteq> EXEC_ALLOWLIST
               \<or> \<not> list_all (\<lambda>program. list_ex (\<lambda>v. v = program) (ex_allow bx)) (ex_allow rx)
               \<or> (ex_allow_legacy_shell rx \<and> \<not> ex_allow_legacy_shell bx)
               \<or> (ex_timeout_secs rx > ex_timeout_secs bx \<or> ex_output_cap rx > ex_output_cap bx)) then False
      else if net_mode rn = NETWORK_ALLOWLIST \<and>
              (net_mode bn \<noteq> NETWORK_ALLOWLIST
               \<or> \<not> list_all (\<lambda>host. list_ex (\<lambda>v. v = host) (net_allow bn)) (net_allow rn)) then False
      else True)"

definition capability_family :: "string \<Rightarrow> string option" where
  "capability_family n =
     (if n = ''read_file'' then Some ''fs_read''
      else if n = ''write_file'' then Some ''fs_write''
      else if n = ''delete_file'' then Some ''fs_delete''
      else if n = ''exec_command'' \<or> n = ''exec'' then Some ''exec''
      else if n = ''network'' then Some ''network''
      else None)"

section \<open>What a session may rely on\<close>

locale narrowing =
  fixes permits :: "'p \<Rightarrow> 'a \<Rightarrow> bool" and restrict :: "'p \<Rightarrow> 'p \<Rightarrow> 'p"
  assumes permits_restrict: "permits (restrict b r) a \<longleftrightarrow> permits b a \<and> permits r a"
begin

lemma restrict_never_widens: "permits (restrict b r) a \<Longrightarrow> permits b a"
  by (simp add: permits_restrict)

lemma permits_chain: "permits (foldl restrict b rs) a \<longleftrightarrow> permits b a \<and> (\<forall>r \<in> set rs. permits r a)"
  by (induction rs arbitrary: b) (auto simp: permits_restrict)

lemma chain_order_irrelevant:
  "set rs = set rs' \<Longrightarrow> permits (foldl restrict b rs) a \<longleftrightarrow> permits (foldl restrict b rs') a"
  by (simp add: permits_chain)

end

lemma fr_enabled_narrow [simp]:
  "fr_enabled (narrow_read b r) \<longleftrightarrow> fr_enabled b \<and> fr_enabled r"
  by (simp add: narrow_read_def Let_def)

lemma ex_mode_narrow:
  "ex_mode (narrow_exec b r) = EXEC_ALLOWLIST \<longleftrightarrow> ex_mode b = EXEC_ALLOWLIST \<and> ex_mode r = EXEC_ALLOWLIST"
  by (simp add: narrow_exec_def ExecPolicy_default_def policy_values)

lemma allows_narrow_iff:
  "policy_allows (policy_narrow b r) a \<longleftrightarrow> policy_allows b a \<and> policy_allows r a"
  by (simp add: policy_allows_def policy_check_def policy_narrow_def refuse_def ex_mode_narrow)
    (simp add: policy_values)

interpretation session: narrowing policy_allows policy_narrow
  by unfold_locales (rule allows_narrow_iff)



lemma effective_le_max: "effective_max_bytes r \<le> MAX_SPECIAL_GRANT_BYTES"
  by (simp add: effective_max_bytes_def Let_def split: option.splits)

lemma effective_narrow:
  "effective_max_bytes (narrow_read b r) = min (effective_max_bytes b) (effective_max_bytes r)"
proof -
  let ?m = "\<lambda>e w. b\<lparr>fr_enabled := e, fr_workspace_only := w\<rparr>"
  have same: "effective_max_bytes (b\<lparr>fr_enabled := e\<rparr>) = effective_max_bytes b"
      "effective_max_bytes (b\<lparr>fr_workspace_only := w\<rparr>) = effective_max_bytes b"
      "effective_max_bytes (?m e w) = effective_max_bytes b" for e w
    by (simp_all add: effective_max_bytes_def)
  have capped: "effective_max_bytes (x\<lparr>fr_max_bytes := effective_max_bytes r, fr_special_grant_bytes := None\<rparr>)
      = effective_max_bytes r" for x
  proof -
    have "effective_max_bytes (x\<lparr>fr_max_bytes := m, fr_special_grant_bytes := None\<rparr>)
        = min m MAX_SPECIAL_GRANT_BYTES" for m
      by (simp add: effective_max_bytes_def)
    then show ?thesis using effective_le_max [of r] by (simp add: min_def)
  qed
  show ?thesis
    by (auto simp: narrow_read_def Let_def same capped min_def)
qed

lemma set_intersection [simp]: "set (intersection l r) = set l \<inter> set r"
  by (auto simp: intersection_def list_ex_iff)

text \<open>Narrowing is quantitative too. The read cap of the merged policy is the smaller of the
  two effective caps; when programs stay enabled, the merged allow list is the intersection
  of the two lists, and the timeout, the output cap and the legacy-shell switch never exceed
  either side. Network hosts are intersected in the same way.\<close>

theorem narrow_limits:
  "read_max_bytes (policy_narrow b r) = min (read_max_bytes b) (read_max_bytes r) \<and>
   (ex_mode (pol_exec (policy_narrow b r)) = EXEC_ALLOWLIST \<longrightarrow>
      set (ex_allow (pol_exec (policy_narrow b r))) = set (ex_allow (pol_exec b)) \<inter> set (ex_allow (pol_exec r)) \<and>
      ex_timeout_secs (pol_exec (policy_narrow b r)) = min (ex_timeout_secs (pol_exec b)) (ex_timeout_secs (pol_exec r)) \<and>
      ex_output_cap (pol_exec (policy_narrow b r)) = min (ex_output_cap (pol_exec b)) (ex_output_cap (pol_exec r)) \<and>
      (ex_allow_legacy_shell (pol_exec (policy_narrow b r)) \<longleftrightarrow>
         ex_allow_legacy_shell (pol_exec b) \<and> ex_allow_legacy_shell (pol_exec r))) \<and>
   (net_mode (pol_network (policy_narrow b r)) = NETWORK_ALLOWLIST \<longrightarrow>
      set (net_allow (pol_network (policy_narrow b r))) = set (net_allow (pol_network b)) \<inter> set (net_allow (pol_network r)))"
  unfolding read_max_bytes_def policy_narrow_def
  by (simp add: effective_narrow narrow_exec_def narrow_network_def ExecPolicy_default_def
      NetworkPolicy_default_def policy_values)

definition exec_policy_demo :: "string list \<Rightarrow> u64 \<Rightarrow> CapabilityPolicy" where
  "exec_policy_demo programs timeout = CapabilityPolicy_default\<lparr>pol_exec :=
     ExecPolicy_default\<lparr>ex_mode := EXEC_ALLOWLIST, ex_allow := programs, ex_timeout_secs := timeout\<rparr>\<rparr>"

theorem narrow_limits_witness:
  "ex_timeout_secs (pol_exec (policy_narrow (exec_policy_demo [''git'', ''cargo''] 30) (exec_policy_demo [''git''] 90))) = 30 \<and>
   set (ex_allow (pol_exec (policy_narrow (exec_policy_demo [''git'', ''cargo''] 30) (exec_policy_demo [''git''] 90)))) = {''git''}"
proof -
  let ?b = "exec_policy_demo [''git'', ''cargo''] 30" and ?r = "exec_policy_demo [''git''] 90"
  have "ex_mode (pol_exec (policy_narrow ?b ?r)) = EXEC_ALLOWLIST"
    by (simp add: policy_narrow_def ex_mode_narrow exec_policy_demo_def)
  with narrow_limits [of ?b ?r] show ?thesis by (simp add: exec_policy_demo_def)
qed

text \<open>A session request accepted by the subset test stays inside the stored policy: it allows
  no write, delete or program action that the stored policy denies, asks for no larger read
  cap, and lists no program and no host outside the stored lists. (The test does not compare
  the read switch, so \<open>read_file\<close> is excluded; narrowing covers it.)\<close>

theorem request_within_sound:
  assumes "request_within base req"
  shows "(\<forall>a. a \<noteq> ''read_file'' \<longrightarrow> policy_allows req a \<longrightarrow> policy_allows base a) \<and>
    read_max_bytes req \<le> read_max_bytes base \<and>
    (ex_mode (pol_exec req) = EXEC_ALLOWLIST \<longrightarrow>
       set (ex_allow (pol_exec req)) \<subseteq> set (ex_allow (pol_exec base)) \<and>
       ex_timeout_secs (pol_exec req) \<le> ex_timeout_secs (pol_exec base) \<and>
       ex_output_cap (pol_exec req) \<le> ex_output_cap (pol_exec base)) \<and>
    (net_mode (pol_network req) = NETWORK_ALLOWLIST \<longrightarrow>
       net_mode (pol_network base) = NETWORK_ALLOWLIST \<and>
       set (net_allow (pol_network req)) \<subseteq> set (net_allow (pol_network base)))"
proof -
  note w = assms [unfolded request_within_def Let_def]
  have "policy_allows base a" if "a \<noteq> ''read_file''" "policy_allows req a" for a
    using that w by (auto simp: policy_allows_def policy_check_def refuse_def split: if_splits)
  then show ?thesis using w by (auto simp: list_all_iff list_ex_iff not_less split: if_splits)
qed

theorem request_within_sound_witness:
  "request_within (exec_policy_demo [''git'', ''cargo''] 30) (exec_policy_demo [''git''] 20) \<and>
   set (ex_allow (pol_exec (exec_policy_demo [''git''] 20))) \<subseteq> {''git'', ''cargo''}"
proof -
  have r: "request_within (exec_policy_demo [''git'', ''cargo''] 30) (exec_policy_demo [''git''] 20)"
    by (simp add: request_within_def exec_policy_demo_def CapabilityPolicy_default_def
        ExecPolicy_default_def NetworkPolicy_default_def policy_values Let_def read_max_bytes_def)
  from request_within_sound [OF r] r show ?thesis
    by (simp add: exec_policy_demo_def ExecPolicy_default_def)
qed


text \<open>Every policy that passes API validation has usable limits: a timeout between 1 and 3600
  seconds, an output cap between 1 byte and 10 MiB, a non-empty program list whenever programs
  are enabled, and an effective read cap between 1 byte and the 8 MiB ceiling.\<close>

theorem validate_policy_limits:
  assumes "validate_policy p = Inr ()"
  shows "1 \<le> ex_timeout_secs (pol_exec p) \<and> ex_timeout_secs (pol_exec p) \<le> 3600 \<and>
    1 \<le> ex_output_cap (pol_exec p) \<and> ex_output_cap (pol_exec p) \<le> 10485760 \<and>
    (policy_allows p ''exec'' \<longrightarrow> ex_allow (pol_exec p) \<noteq> []) \<and>
    1 \<le> read_max_bytes p \<and> read_max_bytes p \<le> MAX_SPECIAL_GRANT_BYTES"
proof -
  note v = assms [unfolded validate_policy_def Let_def]
  have pos: "1 \<le> x" if "x \<noteq> 0" for x :: u64 using that by (simp add: word_le_nat_alt unat_gt_0 Suc_leI)
  have "fr_max_bytes (fs_read p) \<noteq> 0" using v by (auto split: if_splits)
  then have "1 \<le> min (fr_max_bytes (fs_read p)) MAX_SPECIAL_GRANT_BYTES"
    using pos by (simp add: MAX_SPECIAL_GRANT_BYTES_def)
  then have "1 \<le> read_max_bytes p"
    by (auto simp: read_max_bytes_def effective_max_bytes_def Let_def le_max_iff_disj)
  then show ?thesis
    using v pos effective_le_max [of "fs_read p"]
    by (auto simp: policy_allows_def policy_check_def refuse_def read_max_bytes_def not_less split: if_splits)
qed

theorem validate_policy_limits_witness:
  "validate_policy (exec_policy_demo [''git''] 30) = Inr () \<and>
   read_max_bytes (exec_policy_demo [''git''] 30) \<le> MAX_SPECIAL_GRANT_BYTES"
proof -
  have v: "validate_policy (exec_policy_demo [''git''] 30) = Inr ()"
    by (simp add: validate_policy_def exec_policy_demo_def CapabilityPolicy_default_def
        ExecPolicy_default_def NetworkPolicy_default_def FsReadPolicy_default_def
        DEFAULT_READ_MAX_BYTES_def policy_values Let_def)
  from validate_policy_limits [OF v] v show ?thesis by simp
qed

end
