(* ===== verification/Safety.thy ===== *)
theory Safety
  imports Template Filesystem
begin

text \<open>
  Workspace containment (\<open>safety.rs\<close>): \<open>safe_join\<close> joins a relative path below a canonical
  workspace root and refuses the escape vectors (absolute, drive and UNC paths, \<open>..\<close>, alternate
  data streams, reserved device names, symbolic links that leave the root). The Unix flavour
  of \<open>std::path\<close> is used: the fence itself treats both separators as separators.
\<close>

section \<open>The fence\<close>

datatype FsGuardError =
    Empty | Absolute | DriveRelative | Unc | Escapes | Ads | Reserved | SymlinkEscape
  | WorkspaceMissing | GuardIo string

fun guard_error_text :: "FsGuardError \<Rightarrow> string" where
  "guard_error_text Empty = ''empty path''"
| "guard_error_text Absolute = ''absolute path rejected''"
| "guard_error_text DriveRelative = ''drive-relative path rejected''"
| "guard_error_text Unc = ''UNC path rejected''"
| "guard_error_text Escapes = ''path escapes the workspace''"
| "guard_error_text Ads = ''alternate data stream rejected''"
| "guard_error_text Reserved = ''reserved device name rejected''"
| "guard_error_text SymlinkEscape = ''symlink escapes the workspace''"
| "guard_error_text WorkspaceMissing = ''workspace does not exist''"
| "guard_error_text (GuardIo e) = ''io error: '' @ e"

definition is_reserved_component :: "string \<Rightarrow> bool" where
  "is_reserved_component component =
     (let stem = to_uppercase (trim_str (hd (split_char (CHR ''.'') component)))
      in stem \<in> {''CON'', ''PRN'', ''AUX'', ''NUL''} \<or>
         (length stem = 4 \<and> (starts_with stem ''COM'' \<or> starts_with stem ''LPT'')
          \<and> is_ascii_digit (stem ! 3)))"

definition is_separator :: "char \<Rightarrow> bool" where
  "is_separator c \<longleftrightarrow> c = CHR ''/'' \<or> c = CHR 0x5C"

fun join_components :: "path \<Rightarrow> string list \<Rightarrow> FsGuardError + path" where
  "join_components candidate [] = Inr candidate"
| "join_components candidate (raw # rest) =
     (let component = trim_str raw
      in if component = [] \<or> component = ''.'' then join_components candidate rest
         else if CHR '':'' \<in> set component then Inl Ads
         else if component = ''..'' then Inl Escapes
         else if is_reserved_component component then Inl Reserved
         else join_components (candidate @ [component]) rest)"

definition under_root :: "string \<Rightarrow> string \<Rightarrow> bool" where
  "under_root root_text t \<longleftrightarrow>
     t = root_text \<or> starts_with t (root_text @ [CHR 0x5C]) \<or> starts_with t (root_text @ ''/'')"

definition guard_root_text :: "path \<Rightarrow> string" where
  "guard_root_text root = to_lowercase (trim_end_matches is_separator (path_text root))"

function symlink_check :: "fsys \<Rightarrow> string \<Rightarrow> path \<Rightarrow> FsGuardError + unit" where
  "symlink_check fs root_text ancestor =
     (if fs_exists fs ancestor then
        (case fs_canonicalize fs ancestor of
           Inl e \<Rightarrow> Inl (GuardIo (io_text e))
         | Inr canonical \<Rightarrow>
             (if under_root root_text (to_lowercase (path_text canonical)) then Inr ()
              else Inl SymlinkEscape))
      else case path_parent ancestor of
             Some parent \<Rightarrow> (if parent \<noteq> ancestor then symlink_check fs root_text parent else Inr ())
           | None \<Rightarrow> Inr ())"
  by pat_completeness auto
termination
  by (relation "measure (\<lambda>(_, _, p). length p)") (auto simp: path_parent_def split: if_splits)

declare symlink_check.simps [simp del]

definition safe_join :: "fsys \<Rightarrow> path \<Rightarrow> string \<Rightarrow> FsGuardError + path" where
  "safe_join fs workspace relative =
     (let t = trim_str relative
      in if t = [] then Inl Empty
         else if starts_with t [CHR 0x5C, CHR 0x5C] \<or> starts_with t ''//'' then Inl Unc
         else if names_drive t then
           (if length t = 2 \<or> (t ! 2 \<noteq> CHR 0x5C \<and> t ! 2 \<noteq> CHR ''/'') then Inl DriveRelative
            else Inl Absolute)
         else if starts_with t ''/'' \<or> starts_with t [CHR 0x5C] then Inl Absolute
         else case fs_canonicalize fs workspace of
                Inl _ \<Rightarrow> Inl WorkspaceMissing
              | Inr root \<Rightarrow>
                  (case join_components root (split_pred is_separator t) of
                     Inl e \<Rightarrow> Inl e
                   | Inr candidate \<Rightarrow>
                       (if \<not> under_root (guard_root_text root) (to_lowercase (path_text candidate))
                        then Inl Escapes
                        else case symlink_check fs (guard_root_text root) candidate of
                               Inl e \<Rightarrow> Inl e
                             | Inr _ \<Rightarrow> Inr candidate)))"

section \<open>Lexical containment\<close>

definition safe_component :: "string \<Rightarrow> bool" where
  "safe_component c \<longleftrightarrow> c \<noteq> [] \<and> c \<noteq> ''.'' \<and> c \<noteq> ''..'' \<and> CHR '':'' \<notin> set c \<and>
     CHR ''/'' \<notin> set c \<and> CHR 0x5C \<notin> set c \<and> trim_str c = c \<and> \<not> is_reserved_component c"

lemma trim_str_idem [simp]: "trim_str (trim_str s) = trim_str s"
proof -
  have e: "trim_end (trim_end x) = trim_end x" for x
    by (simp add: trim_end_def dropWhile_idem)
  have "trim_start (trim_str s) = trim_str s"
    using trim_str_first [of s] by (cases "trim_str s") (auto simp: trim_start_def)
  then show ?thesis by (simp add: trim_str_def e)
qed

lemma trim_str_set: "set (trim_str s) \<subseteq> set s"
  using trim_str_sublist [of s] by (rule set_mono_sublist)

lemma join_components_safe:
  "join_components cand raws = Inr p \<Longrightarrow> \<forall>r \<in> set raws. \<forall>c \<in> set r. \<not> is_separator c \<Longrightarrow>
     \<exists>comps. p = cand @ comps \<and> (\<forall>c \<in> set comps. safe_component c)"
proof (induction cand raws rule: join_components.induct)
  case (2 cand raw rest)
  let ?c = "trim_str raw"
  have rest: "\<forall>r \<in> set rest. \<forall>c \<in> set r. \<not> is_separator c" using 2(4) by simp
  show ?case
  proof (cases "?c = [] \<or> ?c = ''.''")
    case True
    then show ?thesis using 2(1) [OF refl True] 2(3) rest by (auto simp: Let_def)
  next
    case False
    with 2(3) have ok: "CHR '':'' \<notin> set ?c" "?c \<noteq> ''..''" "\<not> is_reserved_component ?c"
      and j: "join_components (cand @ [?c]) rest = Inr p"
      by (auto simp: Let_def split: if_splits)
    have "CHR ''/'' \<notin> set ?c \<and> CHR 0x5C \<notin> set ?c"
    proof -
      have "\<forall>c \<in> set raw. \<not> is_separator c" using 2(4) by simp
      then show ?thesis using trim_str_set [of raw] unfolding is_separator_def by blast
    qed
    then have "safe_component ?c" using False ok by (simp add: safe_component_def)
    moreover obtain comps where "p = (cand @ [?c]) @ comps" "\<forall>c \<in> set comps. safe_component c"
      using 2(2) [OF refl False] ok j rest by auto
    ultimately show ?thesis by (intro exI [of _ "?c # comps"]) auto
  qed
qed simp

lemma safe_join_Inr:
  assumes "safe_join fs ws rel = Inr p"
  obtains root comps where "fs_canonicalize fs ws = Inr root" "p = root @ comps"
    "\<forall>c \<in> set comps. safe_component c" "symlink_check fs (guard_root_text root) p = Inr ()"
    "under_root (guard_root_text root) (to_lowercase (path_text p))"
    "join_components root (split_pred is_separator (trim_str rel)) = Inr p"
proof -
  from assms obtain root where r: "fs_canonicalize fs ws = Inr root"
      "join_components root (split_pred is_separator (trim_str rel)) = Inr p"
      "symlink_check fs (guard_root_text root) p = Inr ()"
      "under_root (guard_root_text root) (to_lowercase (path_text p))"
    by (auto simp: safe_join_def Let_def split: if_splits sum.splits)
  have "\<exists>comps. p = root @ comps \<and> (\<forall>c \<in> set comps. safe_component c)"
    by (rule join_components_safe [OF r(2)]) (auto dest: split_pred_no_sep)
  with r that show thesis by blast
qed

text \<open>A path the fence accepts is the canonical workspace root followed by harmless components
  only: none is empty, \<open>.\<close> or \<open>..\<close>, none holds a separator or a colon, none has surrounding
  white space and none is a reserved device name.\<close>

theorem safe_join_contained:
  assumes "safe_join fs ws rel = Inr p"
  shows "\<exists>root comps. fs_canonicalize fs ws = Inr root \<and> p = root @ comps \<and>
    (\<forall>c \<in> set comps. c \<noteq> [] \<and> c \<noteq> ''.'' \<and> c \<noteq> ''..'' \<and> CHR '':'' \<notin> set c \<and> CHR ''/'' \<notin> set c \<and>
       CHR 0x5C \<notin> set c \<and> trim_str c = c \<and> \<not> is_reserved_component c)"
  using assms by (elim safe_join_Inr) (auto simp: safe_component_def)


section \<open>Symbolic links\<close>

text \<open>A sane tree: directories above every entry, no \<open>..\<close> among names, no dangling link.\<close>

definition entry_ok :: "fsys \<Rightarrow> path \<Rightarrow> node \<Rightarrow> bool" where
  "entry_ok fs p n \<longleftrightarrow> ''..'' \<notin> set p \<and> (p \<noteq> [] \<longrightarrow> node_at fs (butlast p) = Some DirNode) \<and>
     (case n of
        LinkNode t \<Rightarrow> (case node_at fs t of None \<Rightarrow> False | Some (LinkNode _) \<Rightarrow> False | _ \<Rightarrow> True)
      | _ \<Rightarrow> True)"

definition tree_ok :: "fsys \<Rightarrow> bool" where
  "tree_ok fs \<longleftrightarrow> node_at fs [] = Some DirNode \<and> list_all (\<lambda>(p, n). entry_ok fs p n) (tree fs)"

lemma tree_okD: "tree_ok fs \<Longrightarrow> node_at fs p = Some n \<Longrightarrow> entry_ok fs p n"
  by (auto simp: tree_ok_def list_all_iff node_at_def bt_get_def dest!: map_of_SomeD)

lemma tree_ok_parent: "tree_ok fs \<Longrightarrow> node_at fs q = None \<Longrightarrow> node_at fs (q @ [c]) = None"
  by (rule ccontr) (auto dest!: tree_okD simp: entry_ok_def)

lemma resolve_missing:
  assumes "tree_ok fs" "\<not> fs_exists fs (a @ [c])" "c \<noteq> ''..''"
  shows "resolve_path fs (a @ [c]) = resolve_path fs a @ [c] \<and> node_at fs (resolve_path fs a @ [c]) = None"
proof (cases "node_at fs (resolve_path fs a @ [c])")
  case None
  then show ?thesis using assms(3) by (simp add: resolve_path_snoc walk_def follow_def)
next
  case (Some n)
  from tree_okD [OF assms(1) Some] have "fs_exists fs (a @ [c])"
    using Some assms(3)
    by (auto simp: fs_exists_def stat_def resolve_path_snoc walk_def follow_def entry_ok_def
        split: node.splits option.splits)
  with assms(2) show ?thesis by simp
qed

lemma walk_missing:
  "tree_ok fs \<Longrightarrow> node_at fs q = None \<Longrightarrow> ''..'' \<notin> set rest \<Longrightarrow> foldl (walk fs) q rest = q @ rest"
proof (induction rest arbitrary: q)
  case (Cons c rest)
  then have "node_at fs (q @ [c]) = None" by (simp add: tree_ok_parent)
  moreover from this have "walk fs q c = q @ [c]" using Cons.prems by (auto simp: walk_def follow_def)
  ultimately show ?case using Cons by simp
qed simp

lemma resolve_below:
  assumes "tree_ok fs" "rest \<noteq> [] \<longrightarrow> \<not> fs_exists fs (a @ [hd rest])" "''..'' \<notin> set rest"
  shows "resolve_path fs (a @ rest) = resolve_path fs a @ rest"
proof (cases rest)
  case (Cons c cs)
  with assms resolve_missing [of fs a c]
  have r: "resolve_path fs (a @ [c]) = resolve_path fs a @ [c]"
    and n: "node_at fs (resolve_path fs a @ [c]) = None" by auto
  have "resolve_path fs (a @ rest) = foldl (walk fs) (resolve_path fs (a @ [c])) cs"
    using Cons by (simp add: resolve_path_append)
  also have "\<dots> = (resolve_path fs a @ [c]) @ cs"
    unfolding r using assms Cons n by (intro walk_missing) auto
  finally show ?thesis using Cons by simp
qed simp

lemma symlink_check_ok:
  assumes "symlink_check fs rt p = Inr ()" "node_at fs [] = Some DirNode"
  shows "\<exists>a rest. p = a @ rest \<and> under_root rt (to_lowercase (path_text (resolve_path fs a))) \<and>
    (rest \<noteq> [] \<longrightarrow> \<not> fs_exists fs (a @ [hd rest]))"
  using assms
proof (induction p rule: rev_induct)
  case Nil
  then have "fs_exists fs []" by (simp add: fs_exists_def stat_def)
  then show ?case
    using Nil by (auto simp: symlink_check.simps [of _ _ "[]"] fs_canonicalize_def split: if_splits)
next
  case (snoc c p)
  show ?case
  proof (cases "fs_exists fs (p @ [c])")
    case True
    then show ?thesis
      using snoc.prems
      by (intro exI [of _ "p @ [c]"] exI [of _ "[]"])
        (auto simp: symlink_check.simps [of _ _ "p @ [c]"] fs_canonicalize_def split: if_splits)
  next
    case False
    then have "symlink_check fs rt p = Inr ()"
      using snoc.prems by (simp add: symlink_check.simps [of _ _ "p @ [c]"] path_parent_def)
    from snoc.IH [OF this snoc.prems(2)] obtain a rest where
      h: "p = a @ rest" "under_root rt (to_lowercase (path_text (resolve_path fs a)))"
         "rest \<noteq> [] \<longrightarrow> \<not> fs_exists fs (a @ [hd rest])" by blast
    with False show ?thesis
      by (intro exI [of _ a] exI [of _ "rest @ [c]"]) (cases rest; auto)
  qed
qed

lemma lower_slash_iff [simp]: "lower_char c = CHR ''/'' \<longleftrightarrow> c = CHR ''/''"
proof -
  have "char_of (byte_of c + 32) \<noteq> CHR ''/''" if u: "is_ascii_upper c"
  proof
    assume "char_of (byte_of c + 32) = CHR ''/''"
    then have "byte_of (char_of (byte_of c + 32)) = byte_of (CHR ''/'')" by (rule arg_cong)
    then show False using u by (simp add: is_ascii_upper_def byte_of_def [of "CHR ''/''"])
  qed
  moreover have "\<not> is_ascii_upper (CHR ''/'')" by (simp add: is_ascii_upper_def byte_of_def)
  ultimately show ?thesis by (auto simp: lower_char_def)
qed

lemma lower_slash [simp]: "lower_char (CHR ''/'') = CHR ''/''"
  by (simp only: lower_slash_iff)

lemma guard_root_text_not_slash: "guard_root_text root \<noteq> ''/''"
proof
  assume h: "guard_root_text root = ''/''"
  let ?t = "trim_end_matches is_separator (path_text root)"
  from h have t: "?t = ''/''" by (auto simp: guard_root_text_def to_lowercase_def)
  have "rev ?t = dropWhile is_separator (rev (path_text root))" by (simp only: trim_end_matches_def rev_rev_ident)
  with t have "dropWhile is_separator (rev (path_text root)) = ''/''" by simp
  with hd_dropWhile [of is_separator "rev (path_text root)"] show False
    by (simp add: is_separator_def)
qed

lemma path_text_append: "a \<noteq> [] \<Longrightarrow> path_text (a @ b) = path_text a @ concat (map (\<lambda>c. CHR ''/'' # c) b)"
  unfolding path_text_def by (simp only: append_is_Nil_conv simp_thms if_False map_append concat_append)

lemma under_root_extend:
  assumes "under_root rt (to_lowercase (path_text a))" "rt \<noteq> ''/''"
  shows "under_root rt (to_lowercase (path_text (a @ b)))"
proof (cases "a = [] \<or> b = []")
  case True
  then show ?thesis
  proof
    assume a: "a = []"
    have slash: "to_lowercase ''/'' = ''/''" by (simp add: to_lowercase_def)
    have "rt = []"
      using assms a by (auto simp: under_root_def path_text_def slash starts_with_prefix prefix_Cons)
    moreover have "starts_with (to_lowercase (path_text b)) ''/''"
      by (cases b) (auto simp: path_text_def to_lowercase_def starts_with_def)
    ultimately show ?thesis using a by (simp add: under_root_def)
  next
    assume "b = []"
    then show ?thesis using assms by simp
  qed
next
  case False
  let ?t = "to_lowercase (path_text a)" and ?u = "to_lowercase (concat (map (\<lambda>c. CHR ''/'' # c) b))"
  have e: "to_lowercase (path_text (a @ b)) = ?t @ ?u"
    using False by (simp add: path_text_append to_lowercase_def)
  have u: "prefix ''/'' ?u" using False by (cases b) (auto simp: to_lowercase_def)
  have ext: "prefix x (?t @ ?u)" if "prefix x ?t" for x using that by (rule prefix_prefix)
  show ?thesis
    using assms(1) u ext unfolding under_root_def e starts_with_prefix by auto
qed


definition demo_fs :: fsys where
  "demo_fs = \<lparr>tree = [([], DirNode), ([''w''], DirNode), ([''w'', ''a.txt''], FileNode ''old'')], dir_size = 4096\<rparr>"

lemma demo_fs_ok: "tree_ok demo_fs"
  by code_simp

lemma demo_safe_join: "safe_join demo_fs [''w''] ''d/n.txt'' = Inr [''w'', ''d'', ''n.txt'']"
  by code_simp

theorem safe_join_contained_witness:
  "\<exists>root comps. fs_canonicalize demo_fs [''w''] = Inr root \<and> [''w'', ''d'', ''n.txt''] = root @ comps \<and>
    (\<forall>c \<in> set comps. c \<noteq> [] \<and> c \<noteq> ''.'' \<and> c \<noteq> ''..'' \<and> CHR '':'' \<notin> set c \<and> CHR ''/'' \<notin> set c \<and>
       CHR 0x5C \<notin> set c \<and> trim_str c = c \<and> \<not> is_reserved_component c)"
  by (rule safe_join_contained [OF demo_safe_join])



section \<open>Refusals\<close>

definition escape_vector :: "string \<Rightarrow> bool" where
  "escape_vector rel =
     (let t = trim_str rel
      in t = [] \<or> starts_with t ''/'' \<or> starts_with t [CHR 0x5C] \<or> names_drive t \<or>
         list_ex (\<lambda>raw. let c = trim_str raw
                        in c = ''..'' \<or> CHR '':'' \<in> set c \<or> is_reserved_component c)
           (split_pred is_separator t))"

lemma not_reserved_empty [simp]: "\<not> is_reserved_component []" "\<not> is_reserved_component ''.''"
  by (simp_all add: is_reserved_component_def split_char_def trim_str_def trim_start_def trim_end_def
      to_uppercase_def Let_def)

lemma join_components_refuses:
  "list_ex (\<lambda>raw. let c = trim_str raw in c = ''..'' \<or> CHR '':'' \<in> set c \<or> is_reserved_component c) raws
   \<Longrightarrow> \<exists>e. join_components cand raws = Inl e"
proof (induction cand raws rule: join_components.induct)
  case (2 cand raw rest)
  show ?case
  proof (cases "trim_str raw = [] \<or> trim_str raw = ''.''")
    case True
    then show ?thesis using 2(1) [OF refl True] 2(3) by (auto simp: Let_def)
  next
    case False
    then show ?thesis using 2(2) [OF refl False] 2(3) by (auto simp: Let_def)
  qed
qed simp

text \<open>Every escape vector is refused, whatever the file system holds: an empty path, a path with
  a leading separator, a drive letter, a \<open>..\<close> component, a colon in a component (alternate data
  stream) or a reserved device name never yields a path.\<close>

theorem safe_join_refuses:
  assumes "escape_vector rel"
  shows "\<exists>err. safe_join fs ws rel = Inl err"
proof (rule ccontr)
  assume "\<not> ?thesis"
  then obtain p where p: "safe_join fs ws rel = Inr p" by (cases "safe_join fs ws rel") auto
  then obtain root where j: "join_components root (split_pred is_separator (trim_str rel)) = Inr p"
    by (rule safe_join_Inr)
  have "trim_str rel \<noteq> []" "\<not> starts_with (trim_str rel) ''/''"
      "\<not> starts_with (trim_str rel) [CHR 0x5C]" "\<not> names_drive (trim_str rel)"
    using p by (auto simp: safe_join_def Let_def split: if_splits)
  with assms have "list_ex (\<lambda>raw. let c = trim_str raw
      in c = ''..'' \<or> CHR '':'' \<in> set c \<or> is_reserved_component c) (split_pred is_separator (trim_str rel))"
    unfolding escape_vector_def Let_def by blast
  from join_components_refuses [OF this, of root] j show False by simp
qed

theorem safe_join_refuses_witness:
  "\<exists>err. safe_join demo_fs [''w''] ''d/../../etc/passwd'' = Inl err"
proof -
  have "escape_vector ''d/../../etc/passwd''" by code_simp
  then show ?thesis by (rule safe_join_refuses)
qed

text \<open>Bind-time validation and the fence agree: a value that a \<open>path\<close> parameter accepted is never
  refused by the fence as empty, absolute, drive-relative or UNC.\<close>

theorem validated_path_not_absolute:
  assumes "param_kind prm = PARAM_KIND_PATH" and "validate_value prm v = Inr ()"
    and "trim_str v = v" and "v \<noteq> []"
  shows "safe_join fs ws v \<notin> {Inl Empty, Inl Absolute, Inl DriveRelative, Inl Unc}"
proof -
  let ?n = "replace_char (CHR 0x5C) (CHR ''/'') v"
  from assms(1,2) have n: "\<not> starts_with ?n ''/''" "\<not> names_drive ?n"
    by (auto simp: validate_value_def Let_def split: if_splits)
  obtain c cs where v: "v = c # cs" using assms(4) by (cases v) auto
  have c: "c \<noteq> CHR ''/''" "c \<noteq> CHR 0x5C"
    using n(1) v by (auto simp: replace_char_def starts_with_def split: if_splits)
  have "\<not> names_drive v"
    using n(2) v c by (cases cs) (auto simp: names_drive_def replace_char_def)
  moreover have "\<not> starts_with v ''/''" "\<not> starts_with v [CHR 0x5C]"
      "\<not> starts_with v [CHR 0x5C, CHR 0x5C]" "\<not> starts_with v ''//''"
    using v c by (auto simp: starts_with_def)
  moreover have "join_components root raws \<notin> {Inl Empty, Inl Absolute, Inl DriveRelative, Inl Unc}" for root raws
    by (induction root raws rule: join_components.induct) (auto simp: Let_def)
  moreover have "symlink_check fs rt p \<notin> {Inl Empty, Inl Absolute, Inl DriveRelative, Inl Unc}" for rt p
  proof (induction p rule: rev_induct)
    case Nil
    then show ?case by (auto simp: symlink_check.simps [of _ _ "[]"] path_parent_def split: sum.splits)
  next
    case (snoc x p)
    then show ?case
      by (auto simp: symlink_check.simps [of _ _ "p @ [x]"] path_parent_def split: sum.splits)
  qed
  ultimately show ?thesis
    using assms(3,4) by (auto simp: safe_join_def Let_def split: sum.splits if_splits)
qed

theorem validated_path_not_absolute_witness:
  "safe_join demo_fs [''w''] ''a.txt'' \<notin> {Inl Empty, Inl Absolute, Inl DriveRelative, Inl Unc}"
proof -
  let ?prm = "hd (tmpl_parameters demo_template)"
  have "param_kind ?prm = PARAM_KIND_PATH" by code_simp
  moreover have "validate_value ?prm ''a.txt'' = Inr ()" by code_simp
  moreover have "trim_str ''a.txt'' = ''a.txt''" by code_simp
  ultimately show ?thesis using validated_path_not_absolute [of ?prm "''a.txt''"] by simp
qed

section \<open>Acceptance\<close>

definition link_free :: "fsys \<Rightarrow> bool" where
  "link_free fs \<longleftrightarrow> list_all (\<lambda>(p, n). case n of LinkNode _ \<Rightarrow> False | _ \<Rightarrow> True) (tree fs)"

lemma link_freeD: "link_free fs \<Longrightarrow> node_at fs p \<noteq> Some (LinkNode t)"
  by (auto simp: link_free_def list_all_iff node_at_def bt_get_def dest!: map_of_SomeD)

lemma resolve_link_free: "link_free fs \<Longrightarrow> ''..'' \<notin> set p \<Longrightarrow> resolve_path fs p = p"
proof (induction p rule: rev_induct)
  case (snoc c p)
  then show ?case
    by (auto simp: resolve_path_snoc walk_def follow_def dest: link_freeD split: option.splits node.splits)
qed simp

lemma set_bt_insert: "set (bt_insert k v m) \<subseteq> Set.insert (k, v) (set m)"
  by (induction k v m rule: bt_insert.induct) auto

lemma link_free_iff: "link_free fs \<longleftrightarrow> (\<forall>p t. (p, LinkNode t) \<notin> set (tree fs))"
  unfolding link_free_def list_all_iff by (fastforce split: node.splits)

lemma link_free_put: "link_free fs \<Longrightarrow> (\<And>t. n \<noteq> LinkNode t) \<Longrightarrow> link_free (put_node p n fs)"
  using set_bt_insert [of p n "tree fs"] by (force simp: link_free_iff put_node_def)

lemma link_free_drop: "link_free fs \<Longrightarrow> link_free (drop_node p fs)"
  by (simp add: link_free_iff drop_node_def bt_remove_def)

lemma locate_link_free: "link_free fs \<Longrightarrow> ''..'' \<notin> set p \<Longrightarrow> locate fs p = p"
  by (cases p rule: rev_cases) (auto simp: locate_def resolve_link_free)

lemma safe_component_ends:
  "safe_component c \<Longrightarrow> \<not> is_whitespace (hd c) \<and> \<not> is_whitespace (last c)"
proof -
  assume c: "safe_component c"
  then have t: "trim_str c = c" "c \<noteq> []" by (simp_all add: safe_component_def)
  then obtain x xs where x: "c = x # xs" by (cases c) auto
  with t have "\<not> is_whitespace (hd c)" using trim_str_first [of c x xs] by simp
  moreover have "last c = hd (dropWhile is_whitespace (rev (trim_start c)))"
    using t by (metis trim_str_def trim_end_def last_rev rev_is_Nil_conv)
  moreover have "dropWhile is_whitespace (rev (trim_start c)) \<noteq> []"
    using t by (metis trim_str_def trim_end_def rev_is_Nil_conv)
  ultimately show ?thesis using hd_dropWhile by metis
qed

lemma rel_text_ends:
  "comps \<noteq> [] \<Longrightarrow> \<forall>c \<in> set comps. c \<noteq> [] \<Longrightarrow>
     rel_text comps \<noteq> [] \<and> hd (rel_text comps) = hd (hd comps) \<and> last (rel_text comps) = last (last comps)"
proof (induction comps rule: induct_list012)
  case (3 a b cs)
  then show ?case by (auto simp: rel_text_def)
qed (auto simp: rel_text_def)

lemma split_rel_text:
  "comps \<noteq> [] \<Longrightarrow> \<forall>c \<in> set comps. CHR ''/'' \<notin> set c \<and> CHR 0x5C \<notin> set c \<Longrightarrow>
     split_pred is_separator (rel_text comps) = comps"
proof (induction comps rule: induct_list012)
  case (2 a)
  then show ?case by (auto simp: rel_text_def is_separator_def intro!: split_pred_single)
next
  case (3 a b cs)
  have app: "split_pred P (x @ d # y) = x # split_pred P y"
    if "\<forall>c \<in> set x. \<not> P c" "P d" for P and x y :: string and d
    using that by (induction x) auto
  have "\<forall>c \<in> set a. \<not> is_separator c" using 3(4) by (auto simp: is_separator_def)
  moreover have "is_separator (CHR ''/'')" by (simp add: is_separator_def)
  ultimately have "split_pred is_separator (a @ CHR ''/'' # rel_text (b # cs)) =
      a # split_pred is_separator (rel_text (b # cs))" by (rule app)
  with 3(2,4) show ?case by (simp add: rel_text_def)
qed simp

lemma join_components_accepts:
  "\<forall>c \<in> set comps. safe_component c \<Longrightarrow> join_components root comps = Inr (root @ comps)"
  by (induction comps arbitrary: root) (auto simp: safe_component_def Let_def)

definition clean_root :: "path \<Rightarrow> bool" where
  "clean_root r \<longleftrightarrow> ''..'' \<notin> set r \<and> (\<forall>c \<in> set r. c \<noteq> [] \<and> CHR ''/'' \<notin> set c \<and> CHR 0x5C \<notin> set c)"

lemma under_root_self:
  assumes "clean_root r"
  shows "under_root (guard_root_text r) (to_lowercase (path_text r))"
proof (cases r rule: rev_cases)
  case Nil
  then show ?thesis
    by (simp add: guard_root_text_def path_text_def under_root_def trim_end_matches_def is_separator_def
        to_lowercase_def starts_with_def)
next
  case (snoc q c)
  with assms have c: "c \<noteq> []" "\<not> is_separator (last c)"
    unfolding clean_root_def is_separator_def by (auto dest: last_in_set)
  have "last (path_text r) = last c" "path_text r \<noteq> []" using snoc c by (auto simp: path_text_def)
  then have "dropWhile is_separator (rev (path_text r)) = rev (path_text r)"
    using c by (auto simp: dropWhile_eq_self_iff hd_rev)
  then show ?thesis by (simp add: guard_root_text_def trim_end_matches_def under_root_def)
qed

lemma symlink_check_link_free:
  assumes "link_free fs" "fs_exists fs root" "clean_root root" "''..'' \<notin> set comps"
  shows "symlink_check fs (guard_root_text root) (root @ comps) = Inr ()"
  using assms(4)
proof (induction comps rule: rev_induct)
  case Nil
  have "resolve_path fs root = root" using assms by (auto intro!: resolve_link_free simp: clean_root_def)
  then show ?case
    using assms under_root_self by (simp add: symlink_check.simps [of _ _ root] fs_canonicalize_def)
next
  case (snoc c cs)
  have "resolve_path fs (root @ cs @ [c]) = root @ cs @ [c]"
    using assms snoc.prems by (auto intro!: resolve_link_free simp: clean_root_def)
  moreover have "under_root (guard_root_text root) (to_lowercase (path_text (root @ cs @ [c])))"
    using under_root_extend [OF under_root_self guard_root_text_not_slash] assms(3) by simp
  ultimately show ?case
    using snoc
    by (auto simp: symlink_check.simps [of _ _ "root @ cs @ [c]"] fs_canonicalize_def path_parent_def butlast_append)
qed

lemma safe_join_accepts:
  assumes "link_free fs" "fs_exists fs root" "clean_root root" "comps \<noteq> []" "\<forall>c \<in> set comps. safe_component c"
  shows "safe_join fs root (rel_text comps) = Inr (root @ comps)"
proof -
  let ?t = "rel_text comps"
  have nz: "\<forall>c \<in> set comps. c \<noteq> []" using assms(5) by (auto simp: safe_component_def)
  note ends = rel_text_ends [OF assms(4) nz]
  have h: "safe_component (hd comps)" "safe_component (last comps)" using assms(4,5) by auto
  have trim: "trim_str ?t = ?t"
    using ends safe_component_ends [OF h(1)] safe_component_ends [OF h(2)] by (intro trim_str_id) auto
  have split: "split_pred is_separator ?t = comps"
    using assms(4,5) by (intro split_rel_text) (auto simp: safe_component_def)
  have "hd ?t \<in> set (hd comps)" using ends assms(4) nz by auto
  then have hd: "hd ?t \<noteq> CHR ''/''" "hd ?t \<noteq> CHR 0x5C" using h(1) by (auto simp: safe_component_def)
  have "CHR '':'' \<notin> set ?t"
    using assms(5) unfolding rel_text_def
    by (induction comps rule: induct_list012) (auto simp: safe_component_def)
  then have nd: "\<not> names_drive ?t" by (auto simp: names_drive_def) (metis Suc_le_lessD nth_mem numeral_2_eq_2 One_nat_def)
  have ns: "\<not> starts_with ?t (x # xs)" if "x = CHR ''/'' \<or> x = CHR 0x5C" for x xs
    using hd that ends by (cases ?t) (auto simp: starts_with_def)
  have res: "resolve_path fs root = root" using assms by (auto intro!: resolve_link_free simp: clean_root_def)
  have dots: "''..'' \<notin> set comps" using assms(5) by (auto simp: safe_component_def)
  show ?thesis
    unfolding safe_join_def Let_def trim split
    using ends ns nd assms(2) res join_components_accepts [OF assms(5), of root]
      under_root_extend [OF under_root_self [OF assms(3)] guard_root_text_not_slash, of comps]
      symlink_check_link_free [OF assms(1,2,3) dots]
    by (simp add: fs_canonicalize_def)
qed

end
