(* ===== verification/Store.thy ===== *)
theory Store
  imports Policy Safety Complex_Main
begin

text \<open>
  The experience store (\<open>store.rs\<close>): the lists of compiled experiences and templates, the
  derived indexes (name to position, trigger tool to active names), the identity-addressed
  metadata, status transitions, scope policies, references, and persistence through a
  versioned envelope written atomically.

  A \<open>HashMap\<close> is represented by its sorted contents, because the code never depends on the
  iteration order of one. The JSON reader and printer of \<open>serde_json\<close> are parameters \<open>parse\<close>
  and \<open>print\<close> of the operations that use them.
\<close>

section \<open>Derived indexes\<close>

definition push_active :: "string \<Rightarrow> string \<Rightarrow> string list btree \<Rightarrow> string list btree" where
  "push_active tool name m =
     bt_insert tool ((case bt_get m tool of Some names \<Rightarrow> names | None \<Rightarrow> []) @ [name]) m"

definition index_names :: "('a \<Rightarrow> string) \<Rightarrow> 'a list \<Rightarrow> nat btree" where
  "index_names nm xs = fold (\<lambda>(i, x) m. bt_insert (nm x) i m) (enumerate 0 xs) []"

definition index_active :: "('a \<Rightarrow> string) \<Rightarrow> ('a \<Rightarrow> bool) \<Rightarrow> ('a \<Rightarrow> string) \<Rightarrow> 'a list \<Rightarrow> string list btree" where
  "index_active nm act tool xs =
     fold (\<lambda>x m. if act x then push_active (tool x) (nm x) m else m) xs []"

section \<open>Data\<close>

definition CURRENT_SCHEMA_VERSION :: nat where "CURRENT_SCHEMA_VERSION = 1"

record ReferenceEntry =
  ref_id :: string
  ref_title :: string
  ref_scope :: "string option"
  ref_tags :: "string list"
  ref_body :: string
  ref_steps :: "string list"
  ref_tools_used :: "string list"
  ref_plugins_used :: "string list"
  ref_source_agent :: "string option"
  ref_declared :: bool
  ref_trust_level :: string
  ref_evidence_summary :: "string option"
  ref_created_at :: nat

record CandidateOrigin =
  org_task_signature :: string
  org_session_id :: "string option"
  org_distiller :: string
  org_recorded_at :: nat

record StoreFile =
  file_schema_version :: nat
  file_experiences :: "Experience list"
  file_templates :: "ExperienceTemplate list"
  file_pinned :: "string list"
  file_scopes :: "string btree"
  file_display_names :: "string btree"
  file_user_usage :: "string btree"
  file_user_confidence :: "rat btree"
  file_references :: "ReferenceEntry btree"
  file_scope_policies :: "CapabilityPolicy btree"
  file_candidate_origins :: "CandidateOrigin btree"

definition StoreFile_default :: StoreFile where
  "StoreFile_default =
     \<lparr>file_schema_version = CURRENT_SCHEMA_VERSION, file_experiences = [], file_templates = [],
      file_pinned = [], file_scopes = [], file_display_names = [], file_user_usage = [],
      file_user_confidence = [], file_references = [], file_scope_policies = [],
      file_candidate_origins = []\<rparr>"

datatype StoreError =
    StoreIo io_error
  | InvalidSchemaVersion nat nat
  | SchemaInvalid string "SchemaIssue list"
  | DuplicateName string
  | NotFound string
  | TransitionError string
  | Serialization string

fun issue_debug :: "SchemaIssue \<Rightarrow> string" where
  "issue_debug EmptyName = ''EmptyName''"
| "issue_debug EmptyTriggerTool = ''EmptyTriggerTool''"
| "issue_debug EmptyWorkflow = ''EmptyWorkflow''"
| "issue_debug (EmptyStepAction n) = ''EmptyStepAction('' @ nat_digits n @ '')''"
| "issue_debug EmptyPostconditions = ''EmptyPostconditions''"

definition issues_debug :: "SchemaIssue list \<Rightarrow> string" where
  "issues_debug issues = ''['' @ join_str '', '' (map issue_debug issues) @ '']''"

fun store_error_text :: "StoreError \<Rightarrow> string" where
  "store_error_text (StoreIo e) = ''io error: '' @ io_text e"
| "store_error_text (InvalidSchemaVersion found current) =
     ''unsupported store schema version '' @ nat_digits found @ '' (current: '' @ nat_digits current @ '')''"
| "store_error_text (SchemaInvalid name issues) =
     ''experience '' @ quoted_name name @ '' failed schema validation: '' @ issues_debug issues"
| "store_error_text (DuplicateName name) = ''experience '' @ quoted_name name @ '' already exists''"
| "store_error_text (NotFound name) = ''experience '' @ quoted_name name @ '' not found''"
| "store_error_text (TransitionError message) = ''illegal transition: '' @ message"
| "store_error_text (Serialization e) = ''serialization error: '' @ e"

record ExperienceStore =
  store_path :: "path option"
  experiences :: "Experience list"
  templates :: "ExperienceTemplate list"
  pinned :: "string list"
  scopes :: "string btree"
  display_names :: "string btree"
  user_usage :: "string btree"
  user_confidence :: "rat btree"
  references :: "ReferenceEntry btree"
  scope_policies :: "CapabilityPolicy btree"
  candidate_origins :: "CandidateOrigin btree"
  by_name :: "nat btree"
  active_by_tool :: "string list btree"
  templates_by_name :: "nat btree"
  active_templates_by_tool :: "string list btree"

definition ExperienceStore_default :: ExperienceStore where
  "ExperienceStore_default =
     \<lparr>store_path = None, experiences = [], templates = [], pinned = [], scopes = [],
      display_names = [], user_usage = [], user_confidence = [], references = [],
      scope_policies = [], candidate_origins = [], by_name = [], active_by_tool = [],
      templates_by_name = [], active_templates_by_tool = []\<rparr>"

abbreviation exp_active :: "Experience \<Rightarrow> bool" where
  "exp_active e \<equiv> exp_status e = Active"

abbreviation exp_tool :: "Experience \<Rightarrow> string" where
  "exp_tool e \<equiv> pat_tool (exp_trigger e)"

abbreviation tmpl_active :: "ExperienceTemplate \<Rightarrow> bool" where
  "tmpl_active t \<equiv> tmpl_status t = Active"

abbreviation tmpl_tool :: "ExperienceTemplate \<Rightarrow> string" where
  "tmpl_tool t \<equiv> pat_tool (tmpl_trigger t)"

definition reindex :: "ExperienceStore \<Rightarrow> ExperienceStore" where
  "reindex s =
     s\<lparr>by_name := index_names exp_name (experiences s),
       active_by_tool := index_active exp_name exp_active exp_tool (experiences s),
       templates_by_name := index_names tmpl_name (templates s),
       active_templates_by_tool := index_active tmpl_name tmpl_active tmpl_tool (templates s)\<rparr>"

section \<open>Artifacts\<close>

definition store_insert :: "Experience \<Rightarrow> ExperienceStore \<Rightarrow> StoreError + ExperienceStore" where
  "store_insert e s =
     (let issues = schema_issues e
      in if issues \<noteq> [] then Inl (SchemaInvalid (exp_name e) issues)
         else if bt_contains (by_name s) (exp_name e) then Inl (DuplicateName (exp_name e))
         else Inr (s\<lparr>by_name := bt_insert (exp_name e) (length (experiences s)) (by_name s),
                     active_by_tool :=
                       (if exp_active e then push_active (exp_tool e) (exp_name e) (active_by_tool s)
                        else active_by_tool s),
                     experiences := experiences s @ [e]\<rparr>))"

definition store_get :: "ExperienceStore \<Rightarrow> string \<Rightarrow> Experience option" where
  "store_get s name = map_option (\<lambda>i. experiences s ! i) (bt_get (by_name s) name)"

definition contains :: "ExperienceStore \<Rightarrow> string \<Rightarrow> bool" where
  "contains s name \<longleftrightarrow> bt_contains (by_name s) name \<or> bt_contains (templates_by_name s) name"

definition insert_template :: "ExperienceTemplate \<Rightarrow> ExperienceStore \<Rightarrow> StoreError + ExperienceStore" where
  "insert_template t s =
     (let issues = template_schema_issues t
      in if issues \<noteq> [] then Inl (SchemaInvalid (tmpl_name t) issues)
         else if bt_contains (templates_by_name s) (tmpl_name t) then Inl (DuplicateName (tmpl_name t))
         else Inr (s\<lparr>templates_by_name := bt_insert (tmpl_name t) (length (templates s)) (templates_by_name s),
                     active_templates_by_tool :=
                       (if tmpl_active t then push_active (tmpl_tool t) (tmpl_name t) (active_templates_by_tool s)
                        else active_templates_by_tool s),
                     templates := templates s @ [t]\<rparr>))"

definition template :: "ExperienceStore \<Rightarrow> string \<Rightarrow> ExperienceTemplate option" where
  "template s name = map_option (\<lambda>i. templates s ! i) (bt_get (templates_by_name s) name)"

definition templates_for :: "ExperienceStore \<Rightarrow> ActionProposal \<Rightarrow> ExperienceTemplate list" where
  "templates_for s p =
     (case bt_get (active_templates_by_tool s) (prop_tool p) of
        None \<Rightarrow> []
      | Some names \<Rightarrow>
          concat (map (\<lambda>name. case template s name of
                                Some t \<Rightarrow> (if pattern_matches (tmpl_trigger t) p then [t] else [])
                              | None \<Rightarrow> []) names))"

definition bind_template :: "ExperienceStore \<Rightarrow> string \<Rightarrow> ActionProposal \<Rightarrow> string
    \<Rightarrow> TemplateBindError + (Experience \<times> string btree)" where
  "bind_template s name p cwd =
     (case template s name of
        None \<Rightarrow> Inl (MissingParameter name)
      | Some t \<Rightarrow> template_bind t p cwd)"

definition transition_status :: "string \<Rightarrow> QualificationAction \<Rightarrow> ExperienceStore
    \<Rightarrow> StoreError + (ExperienceStatus \<times> ExperienceStore)" where
  "transition_status name action s =
     (case bt_get (by_name s) name of
        None \<Rightarrow> Inl (NotFound name)
      | Some i \<Rightarrow>
          (case status_transition (exp_status (experiences s ! i)) action of
             Inl m \<Rightarrow> Inl (TransitionError m)
           | Inr next \<Rightarrow>
               Inr (next, reindex (s\<lparr>experiences :=
                      (experiences s)[i := (experiences s ! i)\<lparr>exp_status := next\<rparr>]\<rparr>))))"

definition replace_existing :: "string \<Rightarrow> Experience \<Rightarrow> ExperienceStore \<Rightarrow> StoreError + ExperienceStore" where
  "replace_existing name replacement s =
     (case bt_get (by_name s) name of
        None \<Rightarrow> Inl (NotFound name)
      | Some i \<Rightarrow>
          (let issues = schema_issues replacement
           in if issues \<noteq> [] then Inl (SchemaInvalid name issues)
              else Inr (reindex (s\<lparr>experiences := (experiences s)[i :=
                     replacement\<lparr>exp_name := name, exp_status := exp_status (experiences s ! i)\<rparr>]\<rparr>))))"

definition transition_template_status :: "string \<Rightarrow> QualificationAction \<Rightarrow> ExperienceStore
    \<Rightarrow> StoreError + (ExperienceStatus \<times> ExperienceStore)" where
  "transition_template_status name action s =
     (case bt_get (templates_by_name s) name of
        None \<Rightarrow> Inl (NotFound name)
      | Some i \<Rightarrow>
          (case status_transition (tmpl_status (templates s ! i)) action of
             Inl m \<Rightarrow> Inl (TransitionError m)
           | Inr next \<Rightarrow>
               Inr (next, reindex (s\<lparr>templates :=
                      (templates s)[i := (templates s ! i)\<lparr>tmpl_status := next\<rparr>]\<rparr>))))"

definition drop_metadata :: "string \<Rightarrow> ExperienceStore \<Rightarrow> ExperienceStore" where
  "drop_metadata name s =
     s\<lparr>pinned := filter (\<lambda>p. p \<noteq> name) (pinned s),
       scopes := bt_remove name (scopes s),
       display_names := bt_remove name (display_names s),
       user_usage := bt_remove name (user_usage s),
       user_confidence := bt_remove name (user_confidence s),
       candidate_origins := bt_remove name (candidate_origins s)\<rparr>"

definition remove_template :: "string \<Rightarrow> ExperienceStore \<Rightarrow> StoreError + ExperienceStore" where
  "remove_template name s =
     (case bt_get (templates_by_name s) name of
        None \<Rightarrow> Inl (NotFound name)
      | Some i \<Rightarrow>
          Inr (reindex ((drop_metadata name (s\<lparr>templates_by_name := bt_remove name (templates_by_name s)\<rparr>))
                 \<lparr>templates := remove_at i (templates s)\<rparr>)))"

definition store_remove :: "string \<Rightarrow> ExperienceStore \<Rightarrow> StoreError + ExperienceStore" where
  "store_remove name s =
     (case bt_get (by_name s) name of
        None \<Rightarrow> Inl (NotFound name)
      | Some i \<Rightarrow>
          Inr (reindex ((drop_metadata name (s\<lparr>by_name := bt_remove name (by_name s)\<rparr>))
                 \<lparr>experiences := remove_at i (experiences s)\<rparr>)))"

definition all_experiences :: "ExperienceStore \<Rightarrow> Experience list" where
  "all_experiences s = experiences s"

definition store_len :: "ExperienceStore \<Rightarrow> nat" where
  "store_len s = length (experiences s)"

definition store_is_empty :: "ExperienceStore \<Rightarrow> bool" where
  "store_is_empty s \<longleftrightarrow> experiences s = []"

section \<open>Identity-addressed metadata\<close>

definition pin :: "string \<Rightarrow> ExperienceStore \<Rightarrow> StoreError + ExperienceStore" where
  "pin name s =
     (if \<not> contains s name then Inl (NotFound name)
      else Inr (if list_ex (\<lambda>p. p = name) (pinned s) then s else s\<lparr>pinned := pinned s @ [name]\<rparr>))"

definition unpin :: "string \<Rightarrow> ExperienceStore \<Rightarrow> StoreError + ExperienceStore" where
  "unpin name s = Inr (s\<lparr>pinned := filter (\<lambda>p. p \<noteq> name) (pinned s)\<rparr>)"

definition is_pinned :: "ExperienceStore \<Rightarrow> string \<Rightarrow> bool" where
  "is_pinned s name = list_ex (\<lambda>p. p = name) (pinned s)"

definition scope_of :: "ExperienceStore \<Rightarrow> string \<Rightarrow> string option" where
  "scope_of s name = bt_get (scopes s) name"

definition is_in_scope :: "ExperienceStore \<Rightarrow> string \<Rightarrow> string option \<Rightarrow> bool" where
  "is_in_scope s name scope =
     (case scope of
        None \<Rightarrow> True
      | Some sc \<Rightarrow> (case bt_get (scopes s) name of Some assigned \<Rightarrow> assigned = sc | None \<Rightarrow> True))"

definition set_scope :: "string \<Rightarrow> string option \<Rightarrow> ExperienceStore \<Rightarrow> StoreError + ExperienceStore" where
  "set_scope name scope s =
     (if \<not> contains s name then Inl (NotFound name)
      else Inr (case scope of
                  Some sc \<Rightarrow> s\<lparr>scopes := bt_insert name sc (scopes s)\<rparr>
                | None \<Rightarrow> s\<lparr>scopes := bt_remove name (scopes s)\<rparr>))"

definition active_in_scope :: "ExperienceStore \<Rightarrow> string option \<Rightarrow> Experience list" where
  "active_in_scope s scope =
     filter (\<lambda>e. exp_status e = Active \<and> is_in_scope s (exp_name e) scope) (experiences s)"

definition global_policy :: "ExperienceStore \<Rightarrow> CapabilityPolicy" where
  "global_policy s =
     (case bt_get (scope_policies s) GLOBAL_SCOPE_KEY of Some p \<Rightarrow> p | None \<Rightarrow> CapabilityPolicy_default)"

definition policy_for_scope :: "ExperienceStore \<Rightarrow> string option \<Rightarrow> CapabilityPolicy" where
  "policy_for_scope s scope =
     (case scope of
        Some sc \<Rightarrow> (case bt_get (scope_policies s) sc of Some p \<Rightarrow> p | None \<Rightarrow> global_policy s)
      | None \<Rightarrow> global_policy s)"

definition has_policy_for_scope :: "ExperienceStore \<Rightarrow> string \<Rightarrow> bool" where
  "has_policy_for_scope s scope = bt_contains (scope_policies s) scope"

definition set_candidate_origin :: "string \<Rightarrow> CandidateOrigin \<Rightarrow> ExperienceStore \<Rightarrow> ExperienceStore" where
  "set_candidate_origin name origin s =
     s\<lparr>candidate_origins := bt_insert name origin (candidate_origins s)\<rparr>"

definition candidate_origin_of :: "ExperienceStore \<Rightarrow> string \<Rightarrow> CandidateOrigin option" where
  "candidate_origin_of s name = bt_get (candidate_origins s) name"

definition set_scope_policy :: "string \<Rightarrow> CapabilityPolicy option \<Rightarrow> ExperienceStore \<Rightarrow> StoreError + ExperienceStore" where
  "set_scope_policy scope policy s =
     (if trim_str scope = [] then Inl (Serialization ''empty policy scope'')
      else Inr (case policy of
                  Some p \<Rightarrow> s\<lparr>scope_policies := bt_insert scope p (scope_policies s)\<rparr>
                | None \<Rightarrow> s\<lparr>scope_policies := bt_remove scope (scope_policies s)\<rparr>))"

definition display_name_of :: "ExperienceStore \<Rightarrow> string \<Rightarrow> string option" where
  "display_name_of s name = bt_get (display_names s) name"

definition set_display_name :: "string \<Rightarrow> string option \<Rightarrow> ExperienceStore \<Rightarrow> StoreError + ExperienceStore" where
  "set_display_name name display s =
     (if \<not> contains s name then Inl (NotFound name)
      else Inr (case display of
                  Some v \<Rightarrow> s\<lparr>display_names := bt_insert name v (display_names s)\<rparr>
                | None \<Rightarrow> s\<lparr>display_names := bt_remove name (display_names s)\<rparr>))"

definition user_usage_of :: "ExperienceStore \<Rightarrow> string \<Rightarrow> string option" where
  "user_usage_of s name = bt_get (user_usage s) name"

definition is_usage_allowed :: "ExperienceStore \<Rightarrow> string \<Rightarrow> bool" where
  "is_usage_allowed s name = (case bt_get (user_usage s) name of Some u \<Rightarrow> u \<noteq> ''deny'' | None \<Rightarrow> True)"

definition set_user_usage :: "string \<Rightarrow> string option \<Rightarrow> ExperienceStore \<Rightarrow> StoreError + ExperienceStore" where
  "set_user_usage name usage s =
     (if \<not> bt_contains (by_name s) name then Inl (NotFound name)
      else case usage of
             Some u \<Rightarrow>
               (if u = ''auto'' \<or> u = ''allow'' \<or> u = ''deny'' then
                  Inr (s\<lparr>user_usage := bt_insert name u (user_usage s)\<rparr>)
                else Inl (TransitionError (''invalid user usage '' @ quoted_name u @ '' (auto|allow|deny)'')))
           | None \<Rightarrow> Inr (s\<lparr>user_usage := bt_remove name (user_usage s)\<rparr>))"

definition user_confidence_of :: "ExperienceStore \<Rightarrow> string \<Rightarrow> rat option" where
  "user_confidence_of s name = bt_get (user_confidence s) name"

text \<open>\<open>f64::round\<close> on a non-negative value: to the nearest integer, halves up.\<close>

definition round_hundredths :: "rat \<Rightarrow> rat" where
  "round_hundredths v = of_int \<lfloor>v * 100 + 1 / 2\<rfloor> / 100"

definition set_user_confidence :: "string \<Rightarrow> rat option \<Rightarrow> ExperienceStore \<Rightarrow> StoreError + ExperienceStore" where
  "set_user_confidence name v s =
     (if \<not> contains s name then Inl (NotFound name)
      else case v of
             Some x \<Rightarrow>
               (if 0 \<le> x \<and> x \<le> 1 then
                  Inr (s\<lparr>user_confidence := bt_insert name (round_hundredths x) (user_confidence s)\<rparr>)
                else Inl (TransitionError ''user confidence must be within 0.0..=1.0''))
           | None \<Rightarrow> Inr (s\<lparr>user_confidence := bt_remove name (user_confidence s)\<rparr>))"

section \<open>References\<close>

definition reference :: "ExperienceStore \<Rightarrow> string \<Rightarrow> ReferenceEntry option" where
  "reference s rid = bt_get (references s) rid"

definition insert_reference :: "ReferenceEntry \<Rightarrow> ExperienceStore \<Rightarrow> StoreError + ExperienceStore" where
  "insert_reference entry s =
     (if trim_str (ref_id entry) = [] \<or> trim_str (ref_title entry) = [] then
        Inl (SchemaInvalid (ref_id entry) [EmptyName])
      else if bt_contains (references s) (ref_id entry) then Inl (DuplicateName (ref_id entry))
      else Inr (s\<lparr>references := bt_insert (ref_id entry) entry (references s)\<rparr>))"

definition remove_reference :: "string \<Rightarrow> ExperienceStore \<Rightarrow> StoreError + ExperienceStore" where
  "remove_reference rid s =
     (if bt_contains (references s) rid then Inr (s\<lparr>references := bt_remove rid (references s)\<rparr>)
      else Inl (NotFound rid))"

definition references_in_scope :: "ExperienceStore \<Rightarrow> string option \<Rightarrow> ReferenceEntry list" where
  "references_in_scope s scope =
     filter (\<lambda>entry. case scope of
                       None \<Rightarrow> True
                     | Some sc \<Rightarrow> (case ref_scope entry of None \<Rightarrow> True | Some v \<Rightarrow> v = sc))
       (map snd (references s))"

section \<open>Matching\<close>

definition candidates_for :: "ExperienceStore \<Rightarrow> ActionProposal \<Rightarrow> Experience list" where
  "candidates_for s p =
     (case bt_get (active_by_tool s) (prop_tool p) of
        None \<Rightarrow> []
      | Some names \<Rightarrow>
          concat (map (\<lambda>name. case store_get s name of
                                Some e \<Rightarrow> (if pattern_matches (exp_trigger e) p then [e] else [])
                              | None \<Rightarrow> []) names))"

section \<open>Persistence\<close>

fun insert_all :: "Experience list \<Rightarrow> ExperienceStore \<Rightarrow> StoreError + ExperienceStore" where
  "insert_all [] s = Inr s"
| "insert_all (e # es) s = (case store_insert e s of Inl x \<Rightarrow> Inl x | Inr s' \<Rightarrow> insert_all es s')"

fun insert_all_templates :: "ExperienceTemplate list \<Rightarrow> ExperienceStore \<Rightarrow> StoreError + ExperienceStore" where
  "insert_all_templates [] s = Inr s"
| "insert_all_templates (t # ts) s =
     (case insert_template t s of Inl x \<Rightarrow> Inl x | Inr s' \<Rightarrow> insert_all_templates ts s')"

definition from_file :: "StoreFile \<Rightarrow> StoreError + ExperienceStore" where
  "from_file file =
     (if file_schema_version file \<noteq> CURRENT_SCHEMA_VERSION then
        Inl (InvalidSchemaVersion (file_schema_version file) CURRENT_SCHEMA_VERSION)
      else
        (case insert_all (file_experiences file)
                (ExperienceStore_default\<lparr>pinned := file_pinned file, scopes := bt_collect (file_scopes file),
                   display_names := bt_collect (file_display_names file),
                   user_usage := bt_collect (file_user_usage file),
                   user_confidence := bt_collect (file_user_confidence file),
                   references := file_references file, scope_policies := file_scope_policies file,
                   candidate_origins := file_candidate_origins file\<rparr>) of
           Inl e \<Rightarrow> Inl e
         | Inr s \<Rightarrow> insert_all_templates (file_templates file) s))"

definition from_json :: "(string \<Rightarrow> string + StoreFile) \<Rightarrow> string \<Rightarrow> StoreError + ExperienceStore" where
  "from_json parse json =
     (case parse json of Inl e \<Rightarrow> Inl (Serialization e) | Inr file \<Rightarrow> from_file file)"

definition with_path :: "path \<Rightarrow> ExperienceStore \<Rightarrow> ExperienceStore" where
  "with_path p s = s\<lparr>store_path := Some p\<rparr>"

definition store_open :: "(string \<Rightarrow> string + StoreFile) \<Rightarrow> fsys \<Rightarrow> path \<Rightarrow> StoreError + ExperienceStore" where
  "store_open parse fs p =
     (case fs_read_to_string fs p of
        Inr json \<Rightarrow> (case from_json parse json of Inl e \<Rightarrow> Inl e | Inr s \<Rightarrow> Inr (with_path p s))
      | Inl ENOENT \<Rightarrow> Inr (with_path p ExperienceStore_default)
      | Inl e \<Rightarrow> Inl (StoreIo e))"

definition to_file :: "ExperienceStore \<Rightarrow> StoreFile" where
  "to_file s =
     \<lparr>file_schema_version = CURRENT_SCHEMA_VERSION, file_experiences = experiences s,
      file_templates = templates s, file_pinned = pinned s,
      file_scopes = bt_collect (scopes s), file_display_names = bt_collect (display_names s),
      file_user_usage = bt_collect (user_usage s), file_user_confidence = bt_collect (user_confidence s),
      file_references = references s, file_scope_policies = scope_policies s,
      file_candidate_origins = candidate_origins s\<rparr>"

definition temp_path_for :: "path \<Rightarrow> path" where
  "temp_path_for p = butlast p @ [''.'' @ (if p = [] then ''store.json'' else last p) @ ''.tmp'']"

definition try_remove :: "fsys \<Rightarrow> path \<Rightarrow> fsys" where
  "try_remove fs p = (case fs_remove_file fs p of Inl _ \<Rightarrow> fs | Inr fs' \<Rightarrow> fs')"

definition atomic_write :: "fsys \<Rightarrow> path \<Rightarrow> string \<Rightarrow> fsys \<times> (StoreError + unit)" where
  "atomic_write fs p bytes =
     (let temp = temp_path_for p
      in case fs_write_bytes fs temp bytes of
           Inl e \<Rightarrow> (try_remove fs temp, Inl (StoreIo e))
         | Inr fs1 \<Rightarrow>
             (case fs_rename fs1 temp p of
                Inr fs2 \<Rightarrow> (fs2, Inr ())
              | Inl _ \<Rightarrow>
                  (case fs_remove_file fs1 p of
                     Inl e \<Rightarrow> (try_remove fs1 temp, Inl (StoreIo e))
                   | Inr fs2 \<Rightarrow>
                       (case fs_rename fs2 temp p of
                          Inr fs3 \<Rightarrow> (fs3, Inr ())
                        | Inl e \<Rightarrow> (try_remove fs2 temp, Inl (StoreIo e))))))"

definition save_to_path :: "(StoreFile \<Rightarrow> string) \<Rightarrow> fsys \<Rightarrow> ExperienceStore \<Rightarrow> path \<Rightarrow> fsys \<times> (StoreError + unit)" where
  "save_to_path print fs s p =
     (let json = print (to_file s)
      in case path_parent p of
           None \<Rightarrow> atomic_write fs p json
         | Some parent \<Rightarrow>
             (case fs_create_dir_all fs parent of
                Inl e \<Rightarrow> (fs, Inl (StoreIo e))
              | Inr fs1 \<Rightarrow> atomic_write fs1 p json))"

definition save :: "(StoreFile \<Rightarrow> string) \<Rightarrow> fsys \<Rightarrow> ExperienceStore \<Rightarrow> fsys \<times> (StoreError + unit)" where
  "save print fs s =
     (case store_path s of Some p \<Rightarrow> save_to_path print fs s p | None \<Rightarrow> (fs, Inr ()))"


section \<open>Laws of the derived indexes\<close>

lemma index_names_Nil [simp]: "index_names nm [] = []"
  by (simp add: index_names_def)

lemma index_names_snoc:
  "index_names nm (xs @ [x]) = bt_insert (nm x) (length xs) (index_names nm xs)"
  by (simp add: index_names_def enumerate_append_eq)

lemma index_names_None_iff: "bt_get (index_names nm xs) n = None \<longleftrightarrow> n \<notin> nm ` set xs"
  by (induction xs rule: rev_induct) (auto simp: index_names_snoc map_simps)

lemma index_names_get:
  "distinct (map nm xs) \<Longrightarrow> bt_get (index_names nm xs) n = Some i \<longleftrightarrow> i < length xs \<and> nm (xs ! i) = n"
proof (induction xs rule: rev_induct)
  case (snoc x xs)
  then have IH: "bt_get (index_names nm xs) n = Some i \<longleftrightarrow> i < length xs \<and> nm (xs ! i) = n"
    and fresh: "nm x \<notin> nm ` set xs" by auto
  show ?case
  proof (cases "n = nm x")
    case True
    then show ?thesis
      using fresh by (auto simp: index_names_snoc map_simps nth_append less_Suc_eq image_iff)
        (metis nth_mem)
  next
    case False
    then show ?thesis using IH by (auto simp: index_names_snoc map_simps nth_append less_Suc_eq)
  qed
qed simp

lemma index_active_snoc:
  "index_active nm act tool (xs @ [x]) =
     (if act x then push_active (tool x) (nm x) (index_active nm act tool xs) else index_active nm act tool xs)"
  by (simp add: index_active_def)

definition active_names :: "('a \<Rightarrow> string) \<Rightarrow> ('a \<Rightarrow> bool) \<Rightarrow> ('a \<Rightarrow> string) \<Rightarrow> 'a list \<Rightarrow> string \<Rightarrow> string list" where
  "active_names nm act tool xs t = map nm (filter (\<lambda>x. act x \<and> tool x = t) xs)"

lemma index_active_get:
  "bt_get (index_active nm act tool xs) t =
     (if active_names nm act tool xs t = [] then None else Some (active_names nm act tool xs t))"
proof (induction xs rule: rev_induct)
  case Nil
  then show ?case by (simp add: index_active_def active_names_def)
next
  case (snoc x xs)
  then show ?case
    by (auto simp: index_active_snoc push_active_def map_simps active_names_def split: option.splits if_splits)
qed

section \<open>The store invariant\<close>

definition store_sorted :: "ExperienceStore \<Rightarrow> bool" where
  "store_sorted s \<longleftrightarrow> bt_sorted (scopes s) \<and> bt_sorted (display_names s) \<and> bt_sorted (user_usage s) \<and>
     bt_sorted (user_confidence s) \<and> bt_sorted (references s) \<and> bt_sorted (scope_policies s) \<and>
     bt_sorted (candidate_origins s)"

definition store_indexed :: "ExperienceStore \<Rightarrow> bool" where
  "store_indexed s \<longleftrightarrow> by_name s = index_names exp_name (experiences s) \<and>
     active_by_tool s = index_active exp_name exp_active exp_tool (experiences s) \<and>
     templates_by_name s = index_names tmpl_name (templates s) \<and>
     active_templates_by_tool s = index_active tmpl_name tmpl_active tmpl_tool (templates s)"

definition store_wf :: "ExperienceStore \<Rightarrow> bool" where
  "store_wf s \<longleftrightarrow> store_indexed s \<and> store_sorted s \<and>
     distinct (map exp_name (experiences s)) \<and> list_all is_schema_valid (experiences s) \<and>
     distinct (map tmpl_name (templates s)) \<and> list_all template_is_schema_valid (templates s)"

lemma store_wf_default: "store_wf ExperienceStore_default"
  by (simp add: store_wf_def store_indexed_def store_sorted_def ExperienceStore_default_def
      index_active_def)

lemma store_indexed_reindex [simp]: "store_indexed (reindex s)"
  by (simp add: store_indexed_def reindex_def)

lemma store_wf_reindex:
  "store_sorted s \<Longrightarrow> distinct (map exp_name (experiences s)) \<Longrightarrow> list_all is_schema_valid (experiences s) \<Longrightarrow>
   distinct (map tmpl_name (templates s)) \<Longrightarrow> list_all template_is_schema_valid (templates s) \<Longrightarrow>
   store_wf (reindex s)"
  by (simp add: store_wf_def store_sorted_def) (simp add: reindex_def)

lemma by_name_get: "store_wf s \<Longrightarrow> bt_get (by_name s) n = Some i \<longleftrightarrow>
    i < length (experiences s) \<and> exp_name (experiences s ! i) = n"
  by (simp add: store_wf_def store_indexed_def index_names_get)

lemma by_name_None: "store_wf s \<Longrightarrow> bt_get (by_name s) n = None \<longleftrightarrow> n \<notin> exp_name ` set (experiences s)"
  by (simp add: store_wf_def store_indexed_def index_names_None_iff)

lemma templates_by_name_get: "store_wf s \<Longrightarrow> bt_get (templates_by_name s) n = Some i \<longleftrightarrow>
    i < length (templates s) \<and> tmpl_name (templates s ! i) = n"
  by (simp add: store_wf_def store_indexed_def index_names_get)

lemma templates_by_name_None:
  "store_wf s \<Longrightarrow> bt_get (templates_by_name s) n = None \<longleftrightarrow> n \<notin> tmpl_name ` set (templates s)"
  by (simp add: store_wf_def store_indexed_def index_names_None_iff)

lemma distinct_lookup: "distinct (map f xs) \<Longrightarrow> i < length xs \<Longrightarrow> j < length xs \<Longrightarrow> f (xs ! i) = f (xs ! j) \<Longrightarrow> i = j"
  by (metis distinct_conv_nth length_map nth_map)

lemma store_get_iff: "store_wf s \<Longrightarrow> store_get s n = Some e \<longleftrightarrow> e \<in> set (experiences s) \<and> exp_name e = n"
  by (auto simp: store_get_def by_name_get in_set_conv_nth)

lemma template_iff: "store_wf s \<Longrightarrow> template s n = Some t \<longleftrightarrow> t \<in> set (templates s) \<and> tmpl_name t = n"
  by (auto simp: template_def templates_by_name_get in_set_conv_nth)

section \<open>Every operation keeps the invariant\<close>

lemma schema_valid_rename_status:
  "schema_issues (e\<lparr>exp_status := st\<rparr>) = schema_issues e"
  by (simp add: schema_issues_def)

lemma schema_valid_rename:
  "is_schema_valid e \<Longrightarrow> trim_str n \<noteq> [] \<Longrightarrow> is_schema_valid (e\<lparr>exp_name := n, exp_status := st\<rparr>)"
  by (simp add: is_schema_valid_iff)

lemma template_valid_status:
  "template_is_schema_valid (t\<lparr>tmpl_status := st\<rparr>) \<longleftrightarrow> template_is_schema_valid t"
  by (simp add: template_is_schema_valid_def template_schema_issues_def)

lemma list_all_update: "list_all P xs \<Longrightarrow> P y \<Longrightarrow> list_all P (xs[i := y])"
  by (auto simp: list_all_iff dest: set_update_subset_insert [THEN subsetD])

lemma list_all_remove_at: "list_all P xs \<Longrightarrow> list_all P (remove_at i xs)"
  by (auto simp: list_all_iff remove_at_def dest: in_set_takeD in_set_dropD)

lemma insert_wf: "store_wf s \<Longrightarrow> store_insert e s = Inr s' \<Longrightarrow> store_wf s'"
  by (auto simp: store_insert_def Let_def store_wf_def store_indexed_def store_sorted_def bt_contains_def
      index_names_snoc index_active_snoc index_names_None_iff is_schema_valid_def split: if_splits)

lemma insert_template_wf: "store_wf s \<Longrightarrow> insert_template t s = Inr s' \<Longrightarrow> store_wf s'"
  by (auto simp: insert_template_def Let_def store_wf_def store_indexed_def store_sorted_def bt_contains_def
      index_names_snoc index_active_snoc index_names_None_iff template_is_schema_valid_def split: if_splits)

lemma transition_wf:
  assumes "store_wf s" "transition_status n a s = Inr (st, s')"
  shows "store_wf s'"
proof -
  from assms obtain i where i: "i < length (experiences s)"
      and s': "s' = reindex (s\<lparr>experiences := (experiences s)[i := (experiences s ! i)\<lparr>exp_status := st\<rparr>]\<rparr>)"
    by (auto simp: transition_status_def by_name_get split: option.splits sum.splits)
  have "is_schema_valid (experiences s ! i)" using assms(1) i by (simp add: store_wf_def list_all_length)
  then show ?thesis
    unfolding s' using assms(1) i
    by (intro store_wf_reindex)
      (auto simp: store_wf_def store_sorted_def map_update_same is_schema_valid_def schema_valid_rename_status
        intro!: list_all_update)
qed

lemma transition_template_wf:
  assumes "store_wf s" "transition_template_status n a s = Inr (st, s')"
  shows "store_wf s'"
proof -
  from assms obtain i where i: "i < length (templates s)"
      and s': "s' = reindex (s\<lparr>templates := (templates s)[i := (templates s ! i)\<lparr>tmpl_status := st\<rparr>]\<rparr>)"
    by (auto simp: transition_template_status_def templates_by_name_get split: option.splits sum.splits)
  have "template_is_schema_valid (templates s ! i)" using assms(1) i by (simp add: store_wf_def list_all_length)
  then show ?thesis
    unfolding s' using assms(1) i
    by (intro store_wf_reindex)
      (auto simp: store_wf_def store_sorted_def map_update_same template_valid_status intro!: list_all_update)
qed

lemma replace_wf:
  assumes "store_wf s" "replace_existing n r s = Inr s'"
  shows "store_wf s'"
proof -
  from assms obtain i where i: "i < length (experiences s)" "exp_name (experiences s ! i) = n"
      and v: "is_schema_valid r"
      and s': "s' = reindex (s\<lparr>experiences := (experiences s)[i :=
                 r\<lparr>exp_name := n, exp_status := exp_status (experiences s ! i)\<rparr>]\<rparr>)"
    by (auto simp: replace_existing_def by_name_get Let_def is_schema_valid_def split: option.splits if_splits)
  have "is_schema_valid (experiences s ! i)" using assms(1) i by (simp add: store_wf_def list_all_length)
  then have "trim_str n \<noteq> []" using i by (auto simp: is_schema_valid_iff)
  then show ?thesis
    unfolding s' using assms(1) i v
    by (intro store_wf_reindex)
      (auto simp: store_wf_def store_sorted_def map_update_same schema_valid_rename intro!: list_all_update)
qed

lemma drop_metadata_sorted: "store_sorted s \<Longrightarrow> store_sorted (drop_metadata n s)"
  by (simp add: store_sorted_def drop_metadata_def)

lemma remove_wf:
  assumes "store_wf s" "store_remove n s = Inr s'"
  shows "store_wf s'"
proof -
  from assms(2) obtain i where
    s': "s' = reindex ((drop_metadata n (s\<lparr>by_name := bt_remove n (by_name s)\<rparr>))\<lparr>experiences := remove_at i (experiences s)\<rparr>)"
    by (auto simp: store_remove_def split: option.splits)
  show ?thesis
    unfolding s' using assms(1)
    by (intro store_wf_reindex)
      (auto simp: store_wf_def store_sorted_def drop_metadata_def map_remove_at distinct_remove_at
        intro!: list_all_remove_at)
qed

lemma remove_template_wf:
  assumes "store_wf s" "remove_template n s = Inr s'"
  shows "store_wf s'"
proof -
  from assms(2) obtain i where
    s': "s' = reindex ((drop_metadata n (s\<lparr>templates_by_name := bt_remove n (templates_by_name s)\<rparr>))\<lparr>templates := remove_at i (templates s)\<rparr>)"
    by (auto simp: remove_template_def split: option.splits)
  show ?thesis
    unfolding s' using assms(1)
    by (intro store_wf_reindex)
      (auto simp: store_wf_def store_sorted_def drop_metadata_def map_remove_at distinct_remove_at
        intro!: list_all_remove_at)
qed

lemmas metadata_defs = pin_def unpin_def set_scope_def set_candidate_origin_def set_scope_policy_def
  set_display_name_def set_user_usage_def set_user_confidence_def insert_reference_def remove_reference_def

lemmas wf_defs = store_wf_def store_indexed_def store_sorted_def

inductive store_step :: "ExperienceStore \<Rightarrow> ExperienceStore \<Rightarrow> bool" where
  step_insert: "store_insert e s = Inr s' \<Longrightarrow> store_step s s'"
| step_insert_template: "insert_template t s = Inr s' \<Longrightarrow> store_step s s'"
| step_transition: "transition_status n a s = Inr (st, s') \<Longrightarrow> store_step s s'"
| step_transition_template: "transition_template_status n a s = Inr (st, s') \<Longrightarrow> store_step s s'"
| step_replace: "replace_existing n r s = Inr s' \<Longrightarrow> store_step s s'"
| step_remove: "store_remove n s = Inr s' \<Longrightarrow> store_step s s'"
| step_remove_template: "remove_template n s = Inr s' \<Longrightarrow> store_step s s'"
| step_pin: "pin n s = Inr s' \<Longrightarrow> store_step s s'"
| step_unpin: "unpin n s = Inr s' \<Longrightarrow> store_step s s'"
| step_scope: "set_scope n sc s = Inr s' \<Longrightarrow> store_step s s'"
| step_policy: "set_scope_policy k pol s = Inr s' \<Longrightarrow> store_step s s'"
| step_origin: "store_step s (set_candidate_origin n org s)"
| step_display: "set_display_name n d s = Inr s' \<Longrightarrow> store_step s s'"
| step_usage: "set_user_usage n u s = Inr s' \<Longrightarrow> store_step s s'"
| step_confidence: "set_user_confidence n c s = Inr s' \<Longrightarrow> store_step s s'"
| step_reference: "insert_reference r s = Inr s' \<Longrightarrow> store_step s s'"
| step_unreference: "remove_reference k s = Inr s' \<Longrightarrow> store_step s s'"

lemma store_step_wf: "store_step s s' \<Longrightarrow> store_wf s \<Longrightarrow> store_wf s'"
proof (induction rule: store_step.induct)
  case (step_pin n s s')
  then show ?case by (auto simp: wf_defs pin_def split: if_splits)
next
  case (step_unpin n s s')
  then show ?case by (auto simp: wf_defs unpin_def)
next
  case (step_scope n sc s s')
  then show ?case by (auto simp: wf_defs set_scope_def split: if_splits option.splits)
next
  case (step_policy k pol s s')
  then show ?case by (auto simp: wf_defs set_scope_policy_def split: if_splits option.splits)
next
  case (step_origin s n org)
  then show ?case by (auto simp: wf_defs set_candidate_origin_def)
next
  case (step_display n d s s')
  then show ?case by (auto simp: wf_defs set_display_name_def split: if_splits option.splits)
next
  case (step_usage n u s s')
  then show ?case by (auto simp: wf_defs set_user_usage_def split: if_splits option.splits)
next
  case (step_confidence n c s s')
  then show ?case by (auto simp: wf_defs set_user_confidence_def split: if_splits option.splits)
next
  case (step_reference r s s')
  then show ?case by (auto simp: wf_defs insert_reference_def split: if_splits)
next
  case (step_unreference k s s')
  then show ?case by (auto simp: wf_defs remove_reference_def split: if_splits)
qed (blast intro: insert_wf insert_template_wf transition_wf transition_template_wf replace_wf
      remove_wf remove_template_wf)+


section \<open>The store as a keyed map of artifacts\<close>

locale artifact_map =
  fixes inv :: "'s \<Rightarrow> bool" and key :: "'a \<Rightarrow> string" and look :: "'s \<Rightarrow> string \<Rightarrow> 'a option"
    and ins :: "'a \<Rightarrow> 's \<Rightarrow> 'e + 's" and del :: "string \<Rightarrow> 's \<Rightarrow> 'e + 's"
  assumes ins_inv: "inv s \<Longrightarrow> ins a s = Inr s' \<Longrightarrow> inv s'"
    and ins_fresh: "inv s \<Longrightarrow> ins a s = Inr s' \<Longrightarrow> look s (key a) = None"
    and look_ins: "inv s \<Longrightarrow> ins a s = Inr s' \<Longrightarrow> look s' n = (if n = key a then Some a else look s n)"
    and del_inv: "inv s \<Longrightarrow> del k s = Inr s' \<Longrightarrow> inv s'"
    and del_defined: "inv s \<Longrightarrow> (\<exists>s'. del k s = Inr s') \<longleftrightarrow> look s k \<noteq> None"
    and look_del: "inv s \<Longrightarrow> del k s = Inr s' \<Longrightarrow> look s' n = (if n = k then None else look s n)"
begin

lemma ins_del_restores:
  assumes "inv s" "ins a s = Inr s1"
  shows "\<exists>s2. del (key a) s1 = Inr s2 \<and> inv s2 \<and> (\<forall>n. look s2 n = look s n)"
proof -
  have "inv s1" using assms by (rule ins_inv)
  moreover have "look s1 (key a) \<noteq> None" using look_ins [OF assms] by simp
  ultimately obtain s2 where d: "del (key a) s1 = Inr s2" using del_defined by blast
  have "look s2 n = look s n" for n
    using look_del [OF \<open>inv s1\<close> d] look_ins [OF assms] ins_fresh [OF assms] by simp
  then show ?thesis using d del_inv [OF \<open>inv s1\<close> d] by blast
qed

lemma no_double_insert: "inv s \<Longrightarrow> ins a s = Inr s1 \<Longrightarrow> key b = key a \<Longrightarrow> ins b s1 \<noteq> Inr s2"
  using ins_fresh ins_inv look_ins by (metis option.distinct(1))

end

lemma remove_at_elem:
  "distinct (map f xs) \<Longrightarrow> i < length xs \<Longrightarrow> x \<in> set (remove_at i xs) \<longleftrightarrow> x \<in> set xs \<and> f x \<noteq> f (xs ! i)"
proof -
  assume d: "distinct (map f xs)" and i: "i < length xs"
  then have "set (remove_at i xs) = set xs - {xs ! i}"
    by (intro set_remove_at) (auto simp: distinct_map)
  moreover have "x \<in> set xs \<Longrightarrow> f x = f (xs ! i) \<longleftrightarrow> x = xs ! i"
    using d i nth_mem [OF i] unfolding distinct_map inj_on_def by blast
  ultimately show ?thesis by blast
qed

lemma store_get_insert:
  "store_wf s \<Longrightarrow> store_insert e s = Inr s' \<Longrightarrow> store_get s' n = (if n = exp_name e then Some e else store_get s n)"
  by (auto simp: store_insert_def store_get_def Let_def map_simps nth_append by_name_get
      split: if_splits intro!: option.map_cong)

lemma store_get_remove:
  assumes "store_wf s" "store_remove k s = Inr s'"
  shows "store_get s' n = (if n = k then None else store_get s n)"
proof -
  from assms obtain i where i: "i < length (experiences s)" "exp_name (experiences s ! i) = k"
      and e: "experiences s' = remove_at i (experiences s)"
    by (auto simp: store_remove_def by_name_get reindex_def split: option.splits)
  have wf': "store_wf s'" using assms by (rule remove_wf)
  have "store_get s' n = Some x \<longleftrightarrow> n \<noteq> k \<and> store_get s n = Some x" for x
  proof -
    have "distinct (map exp_name (experiences s))" using assms(1) by (simp add: store_wf_def)
    from remove_at_elem [OF this i(1), of x] show ?thesis
      unfolding store_get_iff [OF wf'] store_get_iff [OF assms(1)] e i(2) by blast
  qed
  then show ?thesis by (intro option_eqI) (cases "n = k"; simp)
qed

lemma store_remove_defined: "store_wf s \<Longrightarrow> (\<exists>s'. store_remove k s = Inr s') \<longleftrightarrow> store_get s k \<noteq> None"
  by (auto simp: store_remove_def store_get_def split: option.splits)

interpretation exps: artifact_map store_wf exp_name store_get store_insert store_remove
proof unfold_locales
  fix s e s' assume "store_wf s" "store_insert e s = Inr s'"
  then show "store_get s (exp_name e) = None"
    by (auto simp: store_insert_def store_get_def bt_contains_def Let_def split: if_splits)
qed (rule insert_wf store_get_insert remove_wf store_remove_defined store_get_remove; assumption)+

lemma template_insert_lookup:
  "store_wf s \<Longrightarrow> insert_template t s = Inr s' \<Longrightarrow> template s' n = (if n = tmpl_name t then Some t else template s n)"
  by (auto simp: insert_template_def template_def Let_def map_simps nth_append templates_by_name_get
      split: if_splits intro!: option.map_cong)

lemma template_remove_lookup:
  assumes "store_wf s" "remove_template k s = Inr s'"
  shows "template s' n = (if n = k then None else template s n)"
proof -
  from assms obtain i where i: "i < length (templates s)" "tmpl_name (templates s ! i) = k"
      and e: "templates s' = remove_at i (templates s)"
    by (auto simp: remove_template_def templates_by_name_get reindex_def split: option.splits)
  have wf': "store_wf s'" using assms by (rule remove_template_wf)
  have "template s' n = Some x \<longleftrightarrow> n \<noteq> k \<and> template s n = Some x" for x
  proof -
    have "distinct (map tmpl_name (templates s))" using assms(1) by (simp add: store_wf_def)
    from remove_at_elem [OF this i(1), of x] show ?thesis
      unfolding template_iff [OF wf'] template_iff [OF assms(1)] e i(2) by blast
  qed
  then show ?thesis by (intro option_eqI) (cases "n = k"; simp)
qed

lemma template_remove_defined: "store_wf s \<Longrightarrow> (\<exists>s'. remove_template k s = Inr s') \<longleftrightarrow> template s k \<noteq> None"
  by (auto simp: remove_template_def template_def split: option.splits)

interpretation tmpls: artifact_map store_wf tmpl_name template insert_template remove_template
proof unfold_locales
  fix s t s' assume "store_wf s" "insert_template t s = Inr s'"
  then show "template s (tmpl_name t) = None"
    by (auto simp: insert_template_def template_def bt_contains_def Let_def split: if_splits)
qed (rule insert_template_wf template_insert_lookup remove_template_wf template_remove_defined
      template_remove_lookup; assumption)+

section \<open>Loading and saving\<close>

definition file_sorted :: "StoreFile \<Rightarrow> bool" where
  "file_sorted f \<longleftrightarrow> bt_sorted (file_scopes f) \<and> bt_sorted (file_display_names f) \<and>
     bt_sorted (file_user_usage f) \<and> bt_sorted (file_user_confidence f) \<and> bt_sorted (file_references f) \<and>
     bt_sorted (file_scope_policies f) \<and> bt_sorted (file_candidate_origins f)"

lemma insert_all_wf: "store_wf s \<Longrightarrow> insert_all es s = Inr s' \<Longrightarrow> store_wf s'"
  by (induction es arbitrary: s) (auto split: sum.splits dest: insert_wf)

lemma insert_all_templates_wf: "store_wf s \<Longrightarrow> insert_all_templates ts s = Inr s' \<Longrightarrow> store_wf s'"
  by (induction ts arbitrary: s) (auto split: sum.splits dest: insert_template_wf)

lemma from_file_wf:
  assumes "file_sorted f" "from_file f = Inr s"
  shows "store_wf s"
proof -
  let ?s0 = "ExperienceStore_default\<lparr>pinned := file_pinned f, scopes := bt_collect (file_scopes f),
                   display_names := bt_collect (file_display_names f),
                   user_usage := bt_collect (file_user_usage f),
                   user_confidence := bt_collect (file_user_confidence f),
                   references := file_references f, scope_policies := file_scope_policies f,
                   candidate_origins := file_candidate_origins f\<rparr>"
  have wf0: "store_wf ?s0"
    using assms(1) by (simp add: wf_defs file_sorted_def ExperienceStore_default_def index_active_def)
  from assms(2) obtain s1 where "insert_all (file_experiences f) ?s0 = Inr s1"
      and s1: "insert_all_templates (file_templates f) s1 = Inr s"
    by (auto simp: from_file_def split: if_splits sum.splits)
  from insert_all_wf [OF wf0 this(1)] s1 show ?thesis by (rule insert_all_templates_wf)
qed

inductive store_reachable :: "ExperienceStore \<Rightarrow> bool" where
  reach_default: "store_reachable ExperienceStore_default"
| reach_load: "file_sorted f \<Longrightarrow> from_file f = Inr s \<Longrightarrow> store_reachable s"
| reach_path: "store_reachable s \<Longrightarrow> store_reachable (with_path p s)"
| reach_step: "store_reachable s \<Longrightarrow> store_step s s' \<Longrightarrow> store_reachable s'"

lemma store_reachable_imp_wf: "store_reachable s \<Longrightarrow> store_wf s"
proof (induction rule: store_reachable.induct)
  case reach_default
  then show ?case by (rule store_wf_default)
next
  case (reach_load f s)
  then show ?case by (rule from_file_wf)
next
  case (reach_path s p)
  then show ?case by (simp add: wf_defs with_path_def)
next
  case (reach_step s s')
  then show ?case by (blast intro: store_step_wf)
qed




lemma lookup_select:
  "\<forall>x \<in> set xs. look (nm x) = Some x \<Longrightarrow>
     concat (map (\<lambda>n. case look n of Some x \<Rightarrow> (if P x then [x] else []) | None \<Rightarrow> []) (map nm xs)) = filter P xs"
  by (induction xs) auto

lemma indexed_select:
  assumes idx: "bt_get m t = (if active_names nm act tool xs t = [] then None else Some (active_names nm act tool xs t))"
    and look: "\<forall>x \<in> set xs. look (nm x) = Some x" and tool: "\<forall>x. P x \<longrightarrow> tool x = t"
  shows "(case bt_get m t of None \<Rightarrow> []
      | Some names \<Rightarrow> concat (map (\<lambda>n. case look n of Some x \<Rightarrow> (if P x then [x] else []) | None \<Rightarrow> []) names))
    = filter (\<lambda>x. act x \<and> P x) xs"
proof -
  let ?act = "filter (\<lambda>x. act x \<and> tool x = t) xs"
  have "(case bt_get m t of None \<Rightarrow> []
      | Some names \<Rightarrow> concat (map (\<lambda>n. case look n of Some x \<Rightarrow> (if P x then [x] else []) | None \<Rightarrow> []) names))
    = concat (map (\<lambda>n. case look n of Some x \<Rightarrow> (if P x then [x] else []) | None \<Rightarrow> []) (map nm ?act))"
    unfolding idx by (simp add: active_names_def)
  also have "\<dots> = filter P ?act" using look by (intro lookup_select) simp
  also have "\<dots> = filter (\<lambda>x. act x \<and> P x) xs"
    using tool by (auto simp: filter_filter intro!: filter_cong)
  finally show ?thesis .
qed

lemma candidates_for_wf:
  "store_wf s \<Longrightarrow> candidates_for s p =
     filter (\<lambda>e. exp_status e = Active \<and> pattern_matches (exp_trigger e) p) (experiences s)"
  unfolding candidates_for_def
  by (rule indexed_select [where nm = exp_name and tool = exp_tool])
    (auto simp: store_get_iff index_active_get store_wf_def store_indexed_def dest: pattern_matches_tool)

lemma templates_for_wf:
  "store_wf s \<Longrightarrow> templates_for s p =
     filter (\<lambda>t. tmpl_status t = Active \<and> pattern_matches (tmpl_trigger t) p) (templates s)"
  unfolding templates_for_def
  by (rule indexed_select [where nm = tmpl_name and tool = tmpl_tool])
    (auto simp: template_iff index_active_get store_wf_def store_indexed_def dest: pattern_matches_tool)

text \<open>C12: the indexed candidate lookups compute what a full scan would: the ACTIVE experiences (and
  templates) whose trigger matches the proposal, in insertion order; nothing that is not
  ACTIVE is ever offered to the Gate.\<close>

theorem indexed_lookup_equals_scan:
  assumes "store_reachable s"
  shows "candidates_for s p =
      filter (\<lambda>e. exp_status e = Active \<and> pattern_matches (exp_trigger e) p) (experiences s) \<and>
    templates_for s p =
      filter (\<lambda>t. tmpl_status t = Active \<and> pattern_matches (tmpl_trigger t) p) (templates s)"
  using store_reachable_imp_wf [OF assms] by (simp add: candidates_for_wf templates_for_wf)

definition demo_store :: ExperienceStore where
  "demo_store = (case store_insert demo_instance ExperienceStore_default of Inr s \<Rightarrow> s | Inl _ \<Rightarrow> ExperienceStore_default)"

lemma demo_store_insert: "store_insert demo_instance ExperienceStore_default = Inr demo_store"
proof -
  have "\<exists>s. store_insert demo_instance ExperienceStore_default = Inr s"
    by (simp add: store_insert_def Let_def bt_contains_def ExperienceStore_default_def demo_instance_def
        schema_issues_def trim_str_def trim_start_def trim_end_def is_whitespace_def)
  then show ?thesis by (auto simp: demo_store_def)
qed

lemma demo_store_reachable: "store_reachable demo_store"
  by (rule reach_step [OF reach_default step_insert [OF demo_store_insert]])

theorem indexed_lookup_equals_scan_witness:
  "candidates_for demo_store demo_proposal =
     filter (\<lambda>e. exp_status e = Active \<and> pattern_matches (exp_trigger e) demo_proposal) (experiences demo_store)"
  using indexed_lookup_equals_scan [OF demo_store_reachable] by blast

text \<open>Inserting and then removing an experience leaves every lookup as it was, the removal always
  succeeds, and in between a second insertion under the same name is refused.\<close>

theorem insert_remove_roundtrip:
  assumes "store_reachable s" and "store_insert e s = Inr s1"
  shows "store_get s1 (exp_name e) = Some e \<and>
    (\<forall>e' s2. exp_name e' = exp_name e \<longrightarrow> store_insert e' s1 \<noteq> Inr s2) \<and>
    (\<exists>s2. store_remove (exp_name e) s1 = Inr s2 \<and> (\<forall>n. store_get s2 n = store_get s n))"
  using exps.look_ins [OF store_reachable_imp_wf [OF assms(1)] assms(2)]
    exps.no_double_insert [OF store_reachable_imp_wf [OF assms(1)] assms(2)]
    exps.ins_del_restores [OF store_reachable_imp_wf [OF assms(1)] assms(2)] by auto

theorem insert_remove_roundtrip_witness:
  "store_get demo_store (exp_name demo_instance) = Some demo_instance"
  using insert_remove_roundtrip [OF reach_default demo_store_insert] by blast


section \<open>Round trip through the envelope\<close>

lemma reindex_id: "store_indexed s \<Longrightarrow> reindex s = s"
  by (simp add: store_indexed_def reindex_def)

lemma reindex_fields [simp]:
  "experiences (reindex s) = experiences s" "templates (reindex s) = templates s"
  by (simp_all add: reindex_def)

lemma reindex_absorb [simp]:
  "reindex ((reindex s)\<lparr>experiences := es\<rparr>) = reindex (s\<lparr>experiences := es\<rparr>)"
  "reindex ((reindex s)\<lparr>templates := ts\<rparr>) = reindex (s\<lparr>templates := ts\<rparr>)"
  by (simp_all add: reindex_def)

lemma insert_indexed:
  assumes "store_indexed s" "is_schema_valid e" "exp_name e \<notin> exp_name ` set (experiences s)"
  shows "store_insert e s = Inr (reindex (s\<lparr>experiences := experiences s @ [e]\<rparr>))"
  using assms
  by (cases s) (simp add: store_insert_def Let_def is_schema_valid_def bt_contains_def store_indexed_def
      index_names_None_iff reindex_def index_names_snoc index_active_snoc)

lemma insert_template_indexed:
  assumes "store_indexed s" "template_is_schema_valid t" "tmpl_name t \<notin> tmpl_name ` set (templates s)"
  shows "insert_template t s = Inr (reindex (s\<lparr>templates := templates s @ [t]\<rparr>))"
  using assms
  by (cases s) (simp add: insert_template_def Let_def template_is_schema_valid_def bt_contains_def store_indexed_def
      index_names_None_iff reindex_def index_names_snoc index_active_snoc)

lemma insert_all_indexed:
  "store_indexed s \<Longrightarrow> list_all is_schema_valid es \<Longrightarrow> distinct (map exp_name (experiences s @ es)) \<Longrightarrow>
     insert_all es s = Inr (reindex (s\<lparr>experiences := experiences s @ es\<rparr>))"
proof (induction es arbitrary: s)
  case Nil
  then show ?case by (simp add: reindex_id)
next
  case (Cons e es)
  let ?s = "reindex (s\<lparr>experiences := experiences s @ [e]\<rparr>)"
  have "store_insert e s = Inr ?s" using Cons.prems by (intro insert_indexed) auto
  moreover have "insert_all es ?s = Inr (reindex (?s\<lparr>experiences := experiences ?s @ es\<rparr>))"
    using Cons.prems by (intro Cons.IH) auto
  ultimately show ?case by simp
qed

lemma insert_all_templates_indexed:
  "store_indexed s \<Longrightarrow> list_all template_is_schema_valid ts \<Longrightarrow> distinct (map tmpl_name (templates s @ ts)) \<Longrightarrow>
     insert_all_templates ts s = Inr (reindex (s\<lparr>templates := templates s @ ts\<rparr>))"
proof (induction ts arbitrary: s)
  case Nil
  then show ?case by (simp add: reindex_id)
next
  case (Cons t ts)
  let ?s = "reindex (s\<lparr>templates := templates s @ [t]\<rparr>)"
  have "insert_template t s = Inr ?s" using Cons.prems by (intro insert_template_indexed) auto
  moreover have "insert_all_templates ts ?s = Inr (reindex (?s\<lparr>templates := templates ?s @ ts\<rparr>))"
    using Cons.prems by (intro Cons.IH) auto
  ultimately show ?case by simp
qed

lemma from_to_file:
  assumes "store_wf s"
  shows "from_file (to_file s) = Inr (s\<lparr>store_path := None\<rparr>)"
proof -
  let ?s0 = "ExperienceStore_default\<lparr>pinned := pinned s, scopes := scopes s, display_names := display_names s,
      user_usage := user_usage s, user_confidence := user_confidence s, references := references s,
      scope_policies := scope_policies s, candidate_origins := candidate_origins s\<rparr>"
  have "store_indexed ?s0"
    by (simp add: store_indexed_def ExperienceStore_default_def index_active_def)
  then have "insert_all (experiences s) ?s0 = Inr (reindex (?s0\<lparr>experiences := experiences s\<rparr>))"
    using assms insert_all_indexed [of ?s0 "experiences s"]
    by (simp add: store_wf_def ExperienceStore_default_def)
  moreover have "insert_all_templates (templates s) (reindex (?s0\<lparr>experiences := experiences s\<rparr>)) =
      Inr (reindex (?s0\<lparr>experiences := experiences s, templates := templates s\<rparr>))"
  proof -
    let ?s1 = "reindex (?s0\<lparr>experiences := experiences s\<rparr>)"
    have "insert_all_templates (templates s) ?s1 = Inr (reindex (?s1\<lparr>templates := templates ?s1 @ templates s\<rparr>))"
      using assms by (intro insert_all_templates_indexed) (simp_all add: store_wf_def ExperienceStore_default_def)
    then show ?thesis by (simp add: ExperienceStore_default_def)
  qed
  moreover have "reindex (?s0\<lparr>experiences := experiences s, templates := templates s\<rparr>) = s\<lparr>store_path := None\<rparr>"
    using assms by (cases s) (simp add: store_wf_def store_indexed_def reindex_def ExperienceStore_default_def)
  ultimately show ?thesis
    using assms by (simp add: from_file_def to_file_def store_wf_def store_sorted_def)
qed

lemma mkdirs_existing:
  assumes "link_free fs" "tree_ok fs"
  shows "node_at fs (pre @ cs) = Some DirNode \<Longrightarrow> ''..'' \<notin> set (pre @ cs) \<Longrightarrow> fs_mkdirs fs pre cs = Inr fs"
proof (induction cs arbitrary: pre)
  case (Cons c cs)
  have up: "node_at fs (q @ r) = Some DirNode \<Longrightarrow> node_at fs q = Some DirNode" for q r
  proof (induction r rule: rev_induct)
    case (snoc x r)
    then have "entry_ok fs (q @ r @ [x]) DirNode" using tree_okD [OF assms(2)] by blast
    then have "node_at fs (q @ r) = Some DirNode" by (simp add: entry_ok_def butlast_append)
    then show ?case by (rule snoc.IH)
  qed simp
  have "node_at fs (pre @ [c]) = Some DirNode" using Cons.prems up [of "pre @ [c]" cs] by simp
  then have "fs_is_dir fs (pre @ [c])"
    using Cons.prems assms(1) by (simp add: fs_is_dir_def stat_def resolve_link_free)
  then have "fs_mkdir fs (pre @ [c]) = Inr fs" by (simp add: fs_mkdir_def)
  then show ?case using Cons by simp
qed simp

lemma temp_path_differs: "p \<noteq> [] \<Longrightarrow> temp_path_for p \<noteq> p"
proof
  assume p: "p \<noteq> []" and eq: "temp_path_for p = p"
  from arg_cong [OF eq, of last] p have "''.'' @ last p @ ''.tmp'' = last p" by (simp add: temp_path_for_def)
  from arg_cong [OF this, of length] show False by simp
qed

lemma atomic_write_reads_back:
  assumes "link_free fs" "''..'' \<notin> set p" "p \<noteq> []" "node_at fs (butlast p) = Some DirNode"
    "node_at fs p \<noteq> Some DirNode" "node_at fs (temp_path_for p) \<noteq> Some DirNode"
  shows "\<exists>fs'. atomic_write fs p bytes = (fs', Inr ()) \<and> fs_read_bytes fs' p = Inr bytes"
proof -
  let ?t = "temp_path_for p"
  have t: "butlast ?t = butlast p" "?t \<noteq> []" "''..'' \<notin> set ?t"
    using assms(2,3) by (auto simp: temp_path_for_def dest: in_set_butlastD)
  have ne: "?t \<noteq> p" using assms(3) by (rule temp_path_differs)
  let ?fs1 = "put_node ?t (FileNode bytes) fs"
  have w: "fs_write_bytes fs ?t bytes = Inr ?fs1"
    using assms t link_freeD [OF assms(1), of ?t]
    by (auto simp: fs_write_bytes_def fs_open_write_def resolve_link_free path_parent_def Let_def
        split: option.splits node.splits)
  have lf1: "link_free ?fs1" using assms(1) by (simp add: link_free_put)
  have bp: "butlast p \<noteq> ?t" using assms(3) t by (metis append_butlast_last_id length_append_singleton length_butlast n_not_Suc_n)
  let ?fs2 = "put_node p (FileNode bytes) (drop_node ?t ?fs1)"
  have r: "fs_rename ?fs1 ?t p = Inr ?fs2"
    using assms t ne bp link_freeD [OF assms(1), of p]
    by (auto simp: fs_rename_def Let_def locate_link_free [OF lf1] split: option.splits node.splits)
  have "link_free ?fs2" using link_free_drop [OF lf1] by (intro link_free_put) auto
  then have "fs_read_bytes ?fs2 p = Inr bytes"
    using assms(2) by (simp add: fs_read_bytes_def stat_def resolve_link_free)
  then show ?thesis using w r by (auto simp: atomic_write_def Let_def)
qed



section \<open>Transitions and shared names\<close>

text \<open>A status transition goes through the lifecycle table and touches nothing else: the new status
  is the one the table gives, only the named experience changes and only in its status, and
  the experience is offered to the Gate afterwards exactly if its new status is ACTIVE.\<close>

theorem transition_status_exact:
  assumes "store_reachable s" and "transition_status n a s = Inr (st, s')"
  shows "\<exists>e. store_get s n = Some e \<and> status_transition (exp_status e) a = Inr st \<and>
    store_get s' n = Some (e\<lparr>exp_status := st\<rparr>) \<and>
    (\<forall>m. m \<noteq> n \<longrightarrow> store_get s' m = store_get s m) \<and>
    templates s' = templates s \<and> pinned s' = pinned s \<and> scopes s' = scopes s \<and>
    (e\<lparr>exp_status := st\<rparr> \<in> set (candidates_for s' p) \<longleftrightarrow> st = Active \<and> pattern_matches (exp_trigger e) p)"
proof -
  have wf: "store_wf s" using assms(1) by (rule store_reachable_imp_wf)
  have wf': "store_wf s'" using transition_wf [OF wf assms(2)] .
  from assms(2) obtain i where i: "i < length (experiences s)" "exp_name (experiences s ! i) = n"
      "status_transition (exp_status (experiences s ! i)) a = Inr st" and
      s': "s' = reindex (s\<lparr>experiences := (experiences s)[i := (experiences s ! i)\<lparr>exp_status := st\<rparr>]\<rparr>)"
    by (auto simp: transition_status_def by_name_get [OF wf] split: option.splits sum.splits)
  let ?e = "experiences s ! i"
  have old: "store_get s n = Some ?e" using i by (simp add: store_get_iff [OF wf])
  have exps': "experiences s' = (experiences s)[i := ?e\<lparr>exp_status := st\<rparr>]" by (simp add: s' reindex_def)
  have names: "map exp_name (experiences s') = map exp_name (experiences s)"
    using i(1) by (simp add: exps' map_update_same)
  have new: "store_get s' n = Some (?e\<lparr>exp_status := st\<rparr>)"
    using i by (auto simp: store_get_iff [OF wf'] exps' set_update_memI)
  have other: "store_get s' m = store_get s m" if "m \<noteq> n" for m
  proof (rule option_eqI)
    fix x
    have "x \<in> set (experiences s') \<longleftrightarrow> x \<in> set (experiences s)" if "exp_name x \<noteq> n"
      using that i by (auto simp: exps' in_set_conv_nth nth_list_update)
    then show "store_get s' m = Some x \<longleftrightarrow> store_get s m = Some x"
      using that by (auto simp: store_get_iff [OF wf'] store_get_iff [OF wf])
  qed
  have "?e\<lparr>exp_status := st\<rparr> \<in> set (experiences s')" using new by (simp add: store_get_iff [OF wf'])
  then have cand: "?e\<lparr>exp_status := st\<rparr> \<in> set (candidates_for s' p) \<longleftrightarrow>
      st = Active \<and> pattern_matches (exp_trigger ?e) p"
    by (auto simp: candidates_for_wf [OF wf'])
  have frame: "templates s' = templates s" "pinned s' = pinned s" "scopes s' = scopes s"
    by (simp_all add: s' reindex_def)
  show ?thesis
    by (intro exI [of _ ?e] conjI allI impI old i(3) new other cand frame)
qed

theorem transition_status_exact_witness:
  "\<exists>st s' e. transition_status ''touch'' Disable demo_store = Inr (st, s') \<and>
     store_get s' ''touch'' = Some (e\<lparr>exp_status := st\<rparr>)"
proof -
  have "store_get demo_store ''touch'' = Some demo_instance"
    using exps.look_ins [OF store_wf_default demo_store_insert, of "''touch''"]
    by (simp add: demo_instance_def)
  then have "\<exists>st s'. transition_status ''touch'' Disable demo_store = Inr (st, s')"
    by (auto simp: transition_status_def store_get_def)
  then obtain st s' where t: "transition_status ''touch'' Disable demo_store = Inr (st, s')" by blast
  from transition_status_exact [OF demo_store_reachable t] t show ?thesis by blast
qed

end
