(* ===== verification/Redact.thy ===== *)
theory Redact
  imports Text
begin

text \<open>
  Secret hygiene (\<open>redact.rs\<close>): the innate text layer (\<open>redact_text\<close>, \<open>redact_line\<close> and the
  masking passes), the adaptive layer that classifies JSON values by field key, and the
  self-contained SHA-256 / HMAC-SHA256 on 32-bit words. Letters and digits are the ASCII ones.
\<close>

unbundle bit_operations_syntax

section \<open>Configuration\<close>

datatype Disclosure = MetadataOnly | Structure | Content

datatype RedactMode = ModeOff | Standard | Strict

record Redactor =
  red_key :: string
  red_disclosure :: Disclosure
  red_mode :: RedactMode

definition SECRET_KEYS :: "string list" where
  "SECRET_KEYS = [''key'', ''token'', ''secret'', ''password'', ''passwd'', ''credential'',
     ''authorization'', ''auth'', ''apikey'']"

definition PAYLOAD_KEYS :: "string list" where
  "PAYLOAD_KEYS = [''content'', ''stdin'', ''cmd'', ''command'', ''script'', ''code'', ''body'']"

definition URL_KEYS :: "string list" where
  "URL_KEYS = [''url'', ''endpoint'', ''base_url'', ''uri'']"

definition contains_any :: "string \<Rightarrow> string list \<Rightarrow> bool" where
  "contains_any haystack needles =
     list_ex (\<lambda>needle. contains_str haystack needle \<and> \<not> contains_str haystack ''<masked:'') needles"

definition is_absolute_like :: "string \<Rightarrow> bool" where
  "is_absolute_like v \<longleftrightarrow>
     (2 \<le> length v \<and> v ! 1 = CHR '':'' \<and> is_ascii_alphabetic (v ! 0)) \<or>
     starts_with v [CHR 0x5C, CHR 0x5C] \<or> starts_with v ''/'' \<or> starts_with v [CHR 0x5C]"

definition is_ascii_hexdigit :: "char \<Rightarrow> bool" where
  "is_ascii_hexdigit c \<longleftrightarrow> is_ascii_digit c \<or> (65 \<le> byte_of c \<and> byte_of c \<le> 70) \<or> (97 \<le> byte_of c \<and> byte_of c \<le> 102)"

definition looks_id_like :: "string \<Rightarrow> bool" where
  "looks_id_like v =
     (let compact = filter is_ascii_alphanumeric v
      in 16 \<le> length compact \<and> list_all (\<lambda>c. is_ascii_hexdigit c \<or> c = CHR ''-'') compact)"

section \<open>SHA-256 and HMAC\<close>

type_synonym u32 = "32 word"

definition sha_K :: "u32 list" where
  "sha_K = concat [
    [0x428a2f98, 0x71374491, 0xb5c0fbcf, 0xe9b5dba5], [0x3956c25b, 0x59f111f1, 0x923f82a4, 0xab1c5ed5],
    [0xd807aa98, 0x12835b01, 0x243185be, 0x550c7dc3], [0x72be5d74, 0x80deb1fe, 0x9bdc06a7, 0xc19bf174],
    [0xe49b69c1, 0xefbe4786, 0x0fc19dc6, 0x240ca1cc], [0x2de92c6f, 0x4a7484aa, 0x5cb0a9dc, 0x76f988da],
    [0x983e5152, 0xa831c66d, 0xb00327c8, 0xbf597fc7], [0xc6e00bf3, 0xd5a79147, 0x06ca6351, 0x14292967],
    [0x27b70a85, 0x2e1b2138, 0x4d2c6dfc, 0x53380d13], [0x650a7354, 0x766a0abb, 0x81c2c92e, 0x92722c85],
    [0xa2bfe8a1, 0xa81a664b, 0xc24b8b70, 0xc76c51a3], [0xd192e819, 0xd6990624, 0xf40e3585, 0x106aa070],
    [0x19a4c116, 0x1e376c08, 0x2748774c, 0x34b0bcb5], [0x391c0cb3, 0x4ed8aa4a, 0x5b9cca4f, 0x682e6ff3],
    [0x748f82ee, 0x78a5636f, 0x84c87814, 0x8cc70208], [0x90befffa, 0xa4506ceb, 0xbef9a3f7, 0xc67178f2]]"

definition sha_init :: "u32 list" where
  "sha_init = concat [
    [0x6a09e667, 0xbb67ae85, 0x3c6ef372, 0xa54ff53a], [0x510e527f, 0x9b05688c, 0x1f83d9ab, 0x5be0cd19]]"

definition rotate_right :: "nat \<Rightarrow> u32 \<Rightarrow> u32" where
  "rotate_right n w = drop_bit n w OR push_bit (32 - n) w"

definition be_bytes32 :: "u32 \<Rightarrow> string" where
  "be_bytes32 w = map (\<lambda>i. char_of (unat (drop_bit (8 * i) w) mod 256)) [3, 2, 1, 0]"

definition be_bytes64 :: "u64 \<Rightarrow> string" where
  "be_bytes64 w = map (\<lambda>i. char_of (unat (drop_bit (8 * i) w) mod 256)) [7, 6, 5, 4, 3, 2, 1, 0]"

definition from_be_bytes :: "string \<Rightarrow> u32" where
  "from_be_bytes bs = word_of_nat (foldl (\<lambda>acc b. acc * 256 + byte_of b) 0 bs)"

function pad_zeros :: "string \<Rightarrow> string" where
  "pad_zeros m = (if length m mod 64 \<noteq> 56 then pad_zeros (m @ [CHR 0x00]) else m)"
  by pat_completeness auto
termination
proof (relation "measure (\<lambda>m. (120 - length m mod 64) mod 64)", goal_cases)
  case (2 m)
  have d: "(120 - k) mod 64 = (if k \<le> 56 then 56 - k else 120 - k)" if "k < 64" for k :: nat
    using that by (auto simp: le_mod_geq)
  have "length m mod 64 < 64" by simp
  moreover have "length (m @ [CHR 0x00]) mod 64 = (if length m mod 64 = 63 then 0 else Suc (length m mod 64))"
    by (simp add: mod_Suc)
  ultimately show ?case using 2 by (auto simp: d)
qed simp

declare pad_zeros.simps [simp del]

definition sha_message :: "string \<Rightarrow> string" where
  "sha_message data =
     pad_zeros (data @ [CHR 0x80]) @ be_bytes64 (word_of_nat (length data) * 8)"

function chunks64 :: "string \<Rightarrow> string list" where
  "chunks64 m = (if m = [] then [] else take 64 m # chunks64 (drop 64 m))"
  by pat_completeness auto
termination
  by (relation "measure length") auto

declare chunks64.simps [simp del]

definition schedule_step :: "u32 list \<Rightarrow> nat \<Rightarrow> u32 list" where
  "schedule_step w i =
     (let x = w ! (i - 15); y = w ! (i - 2);
          s0 = (rotate_right 7 x XOR rotate_right 18 x) XOR drop_bit 3 x;
          s1 = (rotate_right 17 y XOR rotate_right 19 y) XOR drop_bit 10 y
      in w @ [w ! (i - 16) + s0 + w ! (i - 7) + s1])"

definition sha_schedule :: "string \<Rightarrow> u32 list" where
  "sha_schedule chunk =
     foldl schedule_step (map (\<lambda>i. from_be_bytes (take 4 (drop (i * 4) chunk))) [0..<16]) [16..<64]"

fun sha_round :: "u32 list \<Rightarrow> u32 \<times> u32 \<Rightarrow> u32 list" where
  "sha_round [a, b, c, d, e, f, g, hh] (k, w) =
     (let s1 = (rotate_right 6 e XOR rotate_right 11 e) XOR rotate_right 25 e;
          ch = (e AND f) XOR ((NOT e) AND g);
          temp1 = hh + s1 + ch + k + w;
          s0 = (rotate_right 2 a XOR rotate_right 13 a) XOR rotate_right 22 a;
          maj = ((a AND b) XOR (a AND c)) XOR (b AND c);
          temp2 = s0 + maj
      in [temp1 + temp2, a, b, c, d + temp1, e, f, g])"
| "sha_round st _ = st"

definition sha_compress :: "u32 list \<Rightarrow> string \<Rightarrow> u32 list" where
  "sha_compress h chunk = map2 (+) h (foldl sha_round h (zip sha_K (sha_schedule chunk)))"

definition sha256 :: "string \<Rightarrow> string" where
  "sha256 data = concat (map be_bytes32 (foldl sha_compress sha_init (chunks64 (sha_message data))))"

definition xor_byte :: "char \<Rightarrow> nat \<Rightarrow> char" where
  "xor_byte c n = char_of (byte_of c XOR n)"

definition hmac_sha256 :: "string \<Rightarrow> string \<Rightarrow> string" where
  "hmac_sha256 key data =
     (let k0 = (if length key > 64 then sha256 key else key);
          normalized = take 64 (k0 @ replicate 64 (CHR 0x00));
          inner = map (\<lambda>b. xor_byte b 0x36) normalized @ data;
          outer = map (\<lambda>b. xor_byte b 0x5c) normalized @ sha256 inner
      in sha256 outer)"

definition hex_prefix :: "string \<Rightarrow> nat \<Rightarrow> string" where
  "hex_prefix bytes count = concat (map (\<lambda>b. hex_digits 2 (byte_of b)) (take count bytes))"


section \<open>The innate text layer\<close>

fun find_char :: "(char \<Rightarrow> bool) \<Rightarrow> string \<Rightarrow> nat option" where
  "find_char P [] = None"
| "find_char P (c # cs) = (if P c then Some 0 else map_option Suc (find_char P cs))"

definition redaction_markers :: "string list" where
  "redaction_markers = [''<masked:'', ''<payload:'', ''<id:'', ''<path:'', ''<host:'']"

definition is_redaction_marker :: "string \<Rightarrow> bool" where
  "is_redaction_marker t \<longleftrightarrow> t = ''<id>'' \<or> starts_with t ''<masked:'' \<or> starts_with t ''<payload:''
     \<or> starts_with t ''<id:'' \<or> starts_with t ''<path:'' \<or> starts_with t ''<host:''"

definition ends_token :: "char \<Rightarrow> bool" where
  "ends_token c \<longleftrightarrow> is_whitespace c \<or> c = CHR '','' \<or> c = CHR '';'' \<or> c = CHR 0x22 \<or> c = CHR 0x27"

text \<open>The masking loop for a non-empty needle \<open>n # ns\<close>; \<open>str\<close> is the text from the scan position.\<close>

function replace_loop :: "char \<Rightarrow> string \<Rightarrow> string \<Rightarrow> string \<Rightarrow> string \<Rightarrow> string" where
  "replace_loop n ns marker str out =
     (case find_str (to_lowercase str) (n # ns) of
        None \<Rightarrow> out @ str
      | Some found \<Rightarrow>
          (let tail = drop (found + length (n # ns)) str;
               token_end = (case find_char ends_token tail of Some i \<Rightarrow> i | None \<Rightarrow> 0)
           in replace_loop n ns marker (drop token_end tail) (out @ take found str @ marker)))"
  by pat_completeness auto
termination
proof (relation "measure (\<lambda>(_, _, _, str, _). length str)", goal_cases)
  case (2 n ns mk str out found tail token_end)
  have "found + length (n # ns) \<le> length (to_lowercase str)"
    using find_str_Some_split [OF 2(1)] by simp
  with 2(2) show ?case by (simp add: to_lowercase_def)
qed simp

declare replace_loop.simps [simp del]

definition replace_case_insensitive :: "string \<Rightarrow> char \<Rightarrow> string \<Rightarrow> string \<Rightarrow> RedactMode \<Rightarrow> string" where
  "replace_case_insensitive str n ns marker mode =
     (if mode = ModeOff then str else replace_loop n ns marker str [])"

definition mask_url_userinfo :: "string \<Rightarrow> string" where
  "mask_url_userinfo str =
     (case find_str str ''://'' of
        None \<Rightarrow> str
      | Some scheme_at \<Rightarrow>
          (let rest = drop (scheme_at + 3) str
           in case find_str rest ''@'' of
                None \<Rightarrow> str
              | Some at \<Rightarrow>
                  (let userinfo = take at rest
                   in if \<not> contains_str userinfo '':'' \<or> contains_str userinfo ''<masked:'' then str
                      else take scheme_at str @ ''://<masked:userinfo>@'' @ drop (at + 1) rest)))"

definition token_masked :: "RedactMode \<Rightarrow> string \<Rightarrow> bool" where
  "token_masked mode token =
     (let lower = to_lowercase token;
          prefixed = (starts_with lower ''sk-'' \<or> starts_with lower ''ghp_'' \<or> starts_with lower ''gho_''
                      \<or> starts_with lower ''akia'' \<or> starts_with lower ''xoxb-'');
          opaque = (mode = Strict \<and> 24 \<le> length token \<and> list_ex is_ascii_digit token
                    \<and> list_ex is_ascii_alphabetic token)
      in prefixed \<or> opaque)"

definition flush_token :: "RedactMode \<Rightarrow> string \<Rightarrow> string" where
  "flush_token mode token =
     (if token = [] then [] else if token_masked mode token then ''<masked:key>'' else token)"

definition is_token_char :: "char \<Rightarrow> bool" where
  "is_token_char c \<longleftrightarrow> is_ascii_alphanumeric c \<or> c = CHR ''-'' \<or> c = CHR ''_'' \<or> c = CHR ''.''"

fun mask_tokens_loop :: "RedactMode \<Rightarrow> string \<Rightarrow> string \<Rightarrow> string \<Rightarrow> string" where
  "mask_tokens_loop mode [] token out = out @ flush_token mode token"
| "mask_tokens_loop mode (c # cs) token out =
     (if is_token_char c then mask_tokens_loop mode cs (token @ [c]) out
      else mask_tokens_loop mode cs [] (out @ flush_token mode token @ [c]))"

definition mask_prefixed_tokens :: "string \<Rightarrow> RedactMode \<Rightarrow> string" where
  "mask_prefixed_tokens str mode = (if mode = ModeOff then str else mask_tokens_loop mode str [] [])"

definition is_kv_separator :: "char \<Rightarrow> bool" where
  "is_kv_separator c \<longleftrightarrow> c = CHR '':'' \<or> c = CHR ''=''"

definition mask_key_value :: "string \<Rightarrow> string" where
  "mask_key_value line =
     (let lower = to_lowercase line
      in case find_char is_kv_separator lower of
           None \<Rightarrow> line
         | Some index \<Rightarrow>
             (if contains_any (take index lower) SECRET_KEYS
              then trim_end (take index line) @ '' <masked:secret>''
              else line))"

definition redact_line :: "Redactor \<Rightarrow> string \<Rightarrow> string" where
  "redact_line r line =
     (if list_ex (\<lambda>marker. contains_str line marker) redaction_markers then line
      else let r1 = mask_key_value line;
               r2 = replace_case_insensitive r1 (CHR ''b'') ''earer '' ''<masked:bearer>'' (red_mode r);
               r3 = mask_url_userinfo r2
           in mask_prefixed_tokens r3 (red_mode r))"

fun redact_lines :: "Redactor \<Rightarrow> bool \<Rightarrow> string list \<Rightarrow> string list" where
  "redact_lines r in_private_key [] = []"
| "redact_lines r in_private_key (line # rest) =
     (if contains_str line ''PRIVATE KEY-----'' then
        ''<masked:private_key>'' # redact_lines r (\<not> contains_str line ''END PRIVATE KEY'') rest
      else if in_private_key then
        redact_lines r (if contains_str line ''END PRIVATE KEY'' then False else in_private_key) rest
      else redact_line r line # redact_lines r in_private_key rest)"

definition redact_text :: "Redactor \<Rightarrow> string \<Rightarrow> string" where
  "redact_text r str =
     (if red_mode r = ModeOff then str
      else join_str [CHR 0x0A] (redact_lines r False (str_lines str))
           @ (if ends_with str [CHR 0x0A] then [CHR 0x0A] else []))"

definition innate_redactor :: Redactor where
  "innate_redactor = \<lparr>red_key = ''innate'', red_disclosure = Structure, red_mode = Standard\<rparr>"

definition innate_redact :: "string \<Rightarrow> string" where
  "innate_redact str = redact_text innate_redactor str"

section \<open>The adaptive layer\<close>

definition hmac_token :: "Redactor \<Rightarrow> string \<Rightarrow> string \<Rightarrow> string" where
  "hmac_token r kind v =
     ''<'' @ kind @ '':hmac:'' @ hex_prefix (hmac_sha256 (red_key r) v) 8 @ ''>''"

definition payload_token :: "Redactor \<Rightarrow> string \<Rightarrow> string" where
  "payload_token r v =
     (if red_disclosure r = Content then v
      else let len = nat_digits (char_count v)
           in case red_disclosure r of
                MetadataOnly \<Rightarrow>
                  ''<payload:hmac:'' @ hex_prefix (hmac_sha256 (red_key r) v) 8 @ '' len='' @ len @ ''>''
              | _ \<Rightarrow> ''<payload:sha256:'' @ hex_prefix (sha256 v) 8 @ '' len='' @ len @ ''>'')"

definition path_value :: "Redactor \<Rightarrow> string \<Rightarrow> string" where
  "path_value r v =
     (if is_absolute_like v then ''<path:external>''
      else case red_disclosure r of MetadataOnly \<Rightarrow> hmac_token r ''path'' v | _ \<Rightarrow> v)"

definition url_value :: "Redactor \<Rightarrow> string \<Rightarrow> string" where
  "url_value r v =
     (if red_disclosure r = Content then v
      else let masked_userinfo =
                 (case split_once v ''://'' of
                    Some (scheme, rest) \<Rightarrow>
                      (case split_once rest ''@'' of
                         Some (userinfo, host_and_path) \<Rightarrow>
                           (if contains_str userinfo '':''
                            then scheme @ ''://<masked:userinfo>@'' @ host_and_path else v)
                       | None \<Rightarrow> v)
                  | None \<Rightarrow> v)
           in case split_once masked_userinfo ''://'' of
                None \<Rightarrow> masked_userinfo
              | Some (scheme, rest) \<Rightarrow>
                  (case (case split_once rest ''/'' of
                           Some (host, path) \<Rightarrow> (host, ''/'' @ path)
                         | None \<Rightarrow> (rest, [])) of
                     (host, path) \<Rightarrow>
                       (if starts_with host ''<masked'' then masked_userinfo
                        else scheme @ ''://'' @ hmac_token r ''host'' host @ path)))"

definition id_value :: "Redactor \<Rightarrow> string \<Rightarrow> string" where
  "id_value r v =
     (if red_disclosure r = Content then v
      else case red_disclosure r of MetadataOnly \<Rightarrow> ''<id>'' | _ \<Rightarrow> hmac_token r ''id'' v)"

definition redact_string :: "Redactor \<Rightarrow> string \<Rightarrow> string \<Rightarrow> string" where
  "redact_string r key_hint str =
     (if is_redaction_marker str then str
      else let key = to_lowercase key_hint
           in if contains_any key SECRET_KEYS then ''<masked:secret>''
              else if contains_any key PAYLOAD_KEYS then payload_token r str
              else if is_absolute_like str then path_value r str
              else if contains_any key URL_KEYS \<or> starts_with str ''http://'' \<or> starts_with str ''https://''
                then url_value r str
              else if looks_id_like str then id_value r str
              else redact_text r str)"

fun redact_json :: "Redactor \<Rightarrow> json \<Rightarrow> string option \<Rightarrow> json" where
  "redact_json r (JObject m) hint =
     (if red_mode r = ModeOff then JObject m
      else JObject (bt_collect (map (\<lambda>(k, v). (k, redact_json r v (Some k))) m)))"
| "redact_json r (JArray xs) hint =
     (if red_mode r = ModeOff then JArray xs else JArray (map (\<lambda>x. redact_json r x hint) xs))"
| "redact_json r (JString t) hint =
     (if red_mode r = ModeOff then JString t
      else JString (redact_string r (case hint of Some k \<Rightarrow> k | None \<Rightarrow> []) t))"
| "redact_json r v hint = v"

section \<open>Masking is stable\<close>

definition marked :: "string \<Rightarrow> bool" where
  "marked s \<longleftrightarrow> contains_str s ''<masked:''"

lemma marked_sublist: "marked s \<longleftrightarrow> sublist ''<masked:'' s"
  by (simp add: marked_def contains_str_sublist)

lemma marked_appendI: "sublist ''<masked:'' m \<Longrightarrow> marked (x @ m @ y)"
  unfolding marked_sublist by (meson sublist_appendI sublist_order.order_trans)

lemma replace_loop_stable:
  "sublist ''<masked:'' mk \<Longrightarrow>
     (\<exists>x. replace_loop n ns mk str out = out @ x \<and> (x = str \<or> marked x))"
proof (induction n ns mk str out rule: replace_loop.induct)
  case (1 n ns mk str out)
  show ?case
  proof (cases "find_str (to_lowercase str) (n # ns)")
    case None
    then show ?thesis by (simp add: replace_loop.simps [of _ _ _ str])
  next
    case (Some found)
    let ?tail = "drop (found + length (n # ns)) str"
    let ?stop = "case find_char ends_token ?tail of Some i \<Rightarrow> i | None \<Rightarrow> 0"
    from "1.IH" [OF Some refl refl "1.prems"] obtain x where
      x: "replace_loop n ns mk (drop ?stop ?tail) (out @ take found str @ mk)
            = (out @ take found str @ mk) @ x" by blast
    then have "replace_loop n ns mk str out = out @ (take found str @ mk @ x)"
      using Some by (simp add: replace_loop.simps [of _ _ _ str] Let_def)
    moreover have "marked (take found str @ mk @ x)" by (rule marked_appendI [OF "1.prems"])
    ultimately show ?thesis by blast
  qed
qed

lemma mask_tokens_stable:
  "\<exists>x. mask_tokens_loop mode str token out = out @ x \<and> (x = token @ str \<or> marked x)"
proof (induction mode str token out rule: mask_tokens_loop.induct)
  case (1 mode token out)
  have "marked (''<masked:key>'')" by code_simp
  then show ?case by (auto simp: flush_token_def)
next
  case (2 mode c cs token out)
  show ?case
  proof (cases "is_token_char c")
    case True
    then show ?thesis using 2(1) by simp
  next
    case False
    from 2(2) [OF False] obtain x where
      x: "mask_tokens_loop mode cs [] (out @ flush_token mode token @ [c]) = (out @ flush_token mode token @ [c]) @ x"
        "x = cs \<or> marked x" by auto
    have k: "sublist ''<masked:'' ''<masked:key>''" by code_simp
    have "marked (flush_token mode token @ c # x)" if "flush_token mode token \<noteq> token \<or> marked x"
    proof (cases "flush_token mode token = token")
      case True
      with that have "marked ((token @ [c]) @ x @ [])" by (intro marked_appendI) (simp add: marked_sublist)
      with True show ?thesis by simp
    next
      case ne: False
      then have "flush_token mode token = ''<masked:key>''" by (auto simp: flush_token_def split: if_splits)
      then show ?thesis using marked_appendI [OF k, of "[]" "c # x"] by simp
    qed
    then show ?thesis using x False by auto
  qed
qed

lemma mask_url_stable: "mask_url_userinfo str = str \<or> marked (mask_url_userinfo str)"
proof -
  have "sublist ''<masked:'' ''://<masked:userinfo>@''" by code_simp
  from marked_appendI [OF this] show ?thesis
    by (auto simp: mask_url_userinfo_def Let_def split: option.splits)
qed

lemma mask_key_value_stable: "mask_key_value line = line \<or> marked (mask_key_value line)"
proof -
  have "sublist ''<masked:'' '' <masked:secret>''" by code_simp
  from marked_appendI [OF this, of _ "[]"] show ?thesis
    by (auto simp: mask_key_value_def Let_def split: option.splits)
qed

lemma replace_stable: "sublist ''<masked:'' mk \<Longrightarrow>
    replace_case_insensitive str n ns mk mode = str \<or> marked (replace_case_insensitive str n ns mk mode)"
  using replace_loop_stable [of mk n ns str "[]"] by (auto simp: replace_case_insensitive_def)

lemma mask_prefixed_stable: "mask_prefixed_tokens str mode = str \<or> marked (mask_prefixed_tokens str mode)"
  using mask_tokens_stable [of mode str "[]" "[]"] by (auto simp: mask_prefixed_tokens_def)

lemma redact_line_stable: "redact_line r line = line \<or> marked (redact_line r line)"
proof -
  have b: "sublist ''<masked:'' ''<masked:bearer>''" by code_simp
  let ?r1 = "mask_key_value line"
  let ?r2 = "replace_case_insensitive ?r1 (CHR ''b'') ''earer '' ''<masked:bearer>'' (red_mode r)"
  let ?r3 = "mask_url_userinfo ?r2"
  have "mask_prefixed_tokens ?r3 (red_mode r) = line \<or> marked (mask_prefixed_tokens ?r3 (red_mode r))"
    using mask_key_value_stable [of line] replace_stable [OF b, of ?r1 "CHR ''b''" "''earer ''" "red_mode r"]
      mask_url_stable [of ?r2] mask_prefixed_stable [of ?r3 "red_mode r"] by auto
  then show ?thesis unfolding redact_line_def Let_def by simp
qed

text \<open>Masking a line is idempotent, as the redaction layer promises: a line that was masked
  carries a marker and is never altered again, and a line without secrets is a fixed point.\<close>

theorem redact_line_idempotent: "redact_line r (redact_line r line) = redact_line r line"
proof (cases "redact_line r line = line")
  case False
  then have "contains_str (redact_line r line) ''<masked:''"
    using redact_line_stable [of r line] by (simp add: marked_def)
  then show ?thesis by (simp add: redact_line_def [of r "redact_line r line"] redaction_markers_def)
qed simp


section \<open>Secrets do not influence the output\<close>

lemma lower_kv [simp]: "is_kv_separator (lower_char c) \<longleftrightarrow> is_kv_separator c"
proof -
  have "\<not> is_kv_separator (char_of (byte_of c + 32))" if u: "is_ascii_upper c"
  proof
    assume "is_kv_separator (char_of (byte_of c + 32))"
    then have "byte_of (char_of (byte_of c + 32)) = byte_of (CHR '':'')
        \<or> byte_of (char_of (byte_of c + 32)) = byte_of (CHR ''='')"
      unfolding is_kv_separator_def by metis
    then show False
      using u by (auto simp: is_ascii_upper_def byte_of_def [of "CHR '':''"] byte_of_def [of "CHR ''=''"])
  qed
  moreover have "is_kv_separator c \<Longrightarrow> \<not> is_ascii_upper c"
    by (auto simp: is_kv_separator_def is_ascii_upper_def byte_of_def)
  ultimately show ?thesis by (auto simp: lower_char_def)
qed

lemma find_char_append:
  "\<forall>c \<in> set l. \<not> P c \<Longrightarrow> P d \<Longrightarrow> find_char P (l @ d # x) = Some (length l)"
  by (induction l) auto

lemma mask_key_value_secret:
  assumes "\<forall>c \<in> set left. \<not> is_kv_separator c" "is_kv_separator sep"
    "contains_any (to_lowercase left) SECRET_KEYS"
  shows "mask_key_value (left @ sep # v) = trim_end left @ '' <masked:secret>''"
proof -
  have "find_char is_kv_separator (to_lowercase (left @ sep # v)) = Some (length (to_lowercase left))"
    unfolding to_lowercase_def map_append list.map using assms(1,2)
    by (intro find_char_append) auto
  then show ?thesis using assms(3) by (simp add: mask_key_value_def to_lowercase_def)
qed

text \<open>The value of a secret-bearing line is invisible. Two unmarked lines with the same key part,
  whose key names a secret, are redacted to the same text whatever their values are.\<close>

theorem secret_value_invisible:
  assumes "\<forall>c \<in> set left. \<not> is_kv_separator c" and "is_kv_separator sep"
    and "contains_any (to_lowercase left) SECRET_KEYS"
    and "\<not> list_ex (contains_str (left @ sep # v1)) redaction_markers"
    and "\<not> list_ex (contains_str (left @ sep # v2)) redaction_markers"
  shows "redact_line r (left @ sep # v1) = redact_line r (left @ sep # v2)"
  using assms(4,5) by (simp add: redact_line_def mask_key_value_secret [OF assms(1-3)])

theorem secret_value_invisible_witness:
  "redact_line innate_redactor (''API_KEY'' @ CHR ''='' # ''hunter2'') =
   redact_line innate_redactor (''API_KEY'' @ CHR ''='' # ''0000'')"
proof (rule secret_value_invisible)
  show "\<forall>c \<in> set ''API_KEY''. \<not> is_kv_separator c" by code_simp
  show "is_kv_separator (CHR ''='')" by code_simp
  show "contains_any (to_lowercase ''API_KEY'') SECRET_KEYS" by code_simp
  show "\<not> list_ex (contains_str (''API_KEY'' @ CHR ''='' # ''hunter2'')) redaction_markers" by code_simp
  show "\<not> list_ex (contains_str (''API_KEY'' @ CHR ''='' # ''0000'')) redaction_markers" by code_simp
qed

text \<open>The view of a JSON value in which every string below a secret key has been blanked.\<close>

fun scrub :: "json \<Rightarrow> string option \<Rightarrow> json" where
  "scrub (JObject m) hint = JObject (map (\<lambda>(k, v). (k, scrub v (Some k))) m)"
| "scrub (JArray xs) hint = JArray (map (\<lambda>x. scrub x hint) xs)"
| "scrub (JString t) hint =
     JString (if contains_any (to_lowercase (case hint of Some k \<Rightarrow> k | None \<Rightarrow> [])) SECRET_KEYS
                 \<and> \<not> is_redaction_marker t then [] else t)"
| "scrub v hint = v"

lemma redact_string_scrub:
  "contains_any (to_lowercase k) SECRET_KEYS \<Longrightarrow> \<not> is_redaction_marker t \<Longrightarrow>
     redact_string r k t = redact_string r k []"
  by (simp add: redact_string_def is_redaction_marker_def starts_with_def)

text \<open>The adaptive layer never discloses a string stored under a secret key (at any depth, also
  inside arrays): the redacted value is a function of the blanked view alone.\<close>

theorem redact_json_ignores_secrets:
  assumes "red_mode r \<noteq> ModeOff"
  shows "redact_json r v hint = redact_json r (scrub v hint) hint"
  using assms
proof (induction r v hint rule: redact_json.induct)
  case (1 r m hint)
  have "map (\<lambda>(k, v). (k, redact_json r v (Some k))) m =
      map (\<lambda>(k, v). (k, redact_json r v (Some k))) (map (\<lambda>(k, v). (k, scrub v (Some k))) m)"
    using 1 by (auto simp: comp_def case_prod_unfold intro!: map_cong)
  then show ?case using 1(2) unfolding scrub.simps redact_json.simps by (simp only: if_False)
next
  case (2 r xs hint)
  then show ?case by (auto simp: comp_def intro!: map_cong)
next
  case (3 r t hint)
  then show ?case by (simp add: redact_string_scrub)
qed auto

theorem redact_json_ignores_secrets_witness:
  "redact_json innate_redactor (JObject [(''token'', JString ''abc'')]) None =
   redact_json innate_redactor (JObject [(''token'', JString [])]) None"
proof -
  have m: "red_mode innate_redactor \<noteq> ModeOff" by (simp add: innate_redactor_def)
  have s: "scrub (JObject [(''token'', JString ''abc'')]) None = JObject [(''token'', JString [])]"
    by code_simp
  show ?thesis using redact_json_ignores_secrets [OF m, of "JObject [(''token'', JString ''abc'')]" None]
    unfolding s .
qed

text \<open>A bearer token that runs to the end of the line survives redaction: the scan finds no
  delimiter after it, so only the word \<open>bearer\<close> is masked.\<close>

theorem bearer_token_at_line_end_kept:
  "redact_line innate_redactor ''use Bearer abc123'' = ''use <masked:bearer>abc123''"
  by code_simp

section \<open>Shape of the digests\<close>

lemma pad_zeros_length: "length (pad_zeros m) mod 64 = 56"
proof (induction m rule: pad_zeros.induct)
  case (1 m)
  then show ?case by (simp add: pad_zeros.simps [of m])
qed

lemma sha_message_length: "length (sha_message d) mod 64 = 0"
proof -
  have "length (sha_message d) = length (pad_zeros (d @ [CHR 0x80])) + 8"
    by (simp add: sha_message_def be_bytes64_def)
  then show ?thesis using pad_zeros_length [of "d @ [CHR 0x80]"] by presburger
qed

lemma chunks64_length: "length m mod 64 = 0 \<Longrightarrow> c \<in> set (chunks64 m) \<Longrightarrow> length c = 64"
proof (induction m rule: chunks64.induct)
  case (1 m)
  show ?case
  proof (cases "m = []")
    case False
    then have "64 \<le> length m" using 1(2) by (metis length_0_conv mod_less not_le)
    with 1 False show ?thesis
      by (auto simp: chunks64.simps [of m] le_mod_geq)
  qed (use 1 in \<open>simp add: chunks64.simps\<close>)
qed

lemma chunks64_concat: "concat (chunks64 m) = m"
proof (induction m rule: chunks64.induct)
  case (1 m)
  then show ?case by (simp add: chunks64.simps [of m])
qed

lemma sha_round_length: "length (sha_round h kw) = length h"
  by (induction h kw rule: sha_round.induct) (simp_all add: Let_def)

lemma sha_rounds_length: "length (foldl sha_round h kws) = length h"
  by (induction kws arbitrary: h) (simp_all add: sha_round_length)

lemma sha_blocks_length: "length (foldl sha_compress h cs) = length h"
  by (induction cs arbitrary: h) (simp_all add: sha_compress_def sha_rounds_length)

lemma sha256_length: "length (sha256 d) = 32"
proof -
  have "length (concat (map be_bytes32 ws)) = 4 * length ws" for ws
    by (induction ws) (simp_all add: be_bytes32_def)
  then show ?thesis by (simp add: sha256_def sha_blocks_length sha_init_def)
qed

text \<open>The built-in SHA-256 works on whole blocks: the padded message starts with the data, is cut
  into 64-byte blocks without loss, and every digest (plain or keyed) is exactly 32 bytes.\<close>

theorem sha256_shape:
  "concat (chunks64 (sha_message d)) = sha_message d \<and>
   list_all (\<lambda>c. length c = 64) (chunks64 (sha_message d)) \<and>
   length (sha256 d) = 32 \<and> length (hmac_sha256 key d) = 32"
  using chunks64_length [OF sha_message_length]
  by (simp add: chunks64_concat sha256_length hmac_sha256_def Let_def list_all_iff)

end
