(* ===== verification/Induce.thy ===== *)
theory Induce
  imports Shell_Translate Store Redact "HOL-Library.Product_Lexorder"
begin

text \<open>
  Deterministic template induction from two successful observations (\<open>template_induce.rs\<close>):
  structural agreement, capture rules read off the request texts and checked against both runs,
  the effect table that gives the induced body its predicates, and the store entry point that
  files the result as a candidate.
\<close>

section \<open>Refusals and budgets\<close>

datatype InduceReject =
    TaskNotSuccessful string
  | NoActionEvidence
  | StepCountMismatch nat nat
  | ActionMismatch nat string string
  | UnknownCapability string
  | UnstableShape nat string
  | EphemeralIdentifier string
  | NotCapturable string
  | NoParameterDifference
  | NoVerifiableEffect
  | TooManyParameters nat
  | WeakTaskSignature nat
  | StoreRefused string

fun induce_label :: "InduceReject \<Rightarrow> string" where
  "induce_label (TaskNotSuccessful _) = ''task_not_successful''"
| "induce_label NoActionEvidence = ''no_action_evidence''"
| "induce_label (StepCountMismatch _ _) = ''step_count_mismatch''"
| "induce_label (ActionMismatch _ _ _) = ''action_mismatch''"
| "induce_label (UnknownCapability _) = ''unknown_capability''"
| "induce_label (UnstableShape _ _) = ''unstable_shape''"
| "induce_label (EphemeralIdentifier _) = ''ephemeral_identifier''"
| "induce_label (NotCapturable _) = ''not_capturable''"
| "induce_label NoParameterDifference = ''no_parameter_difference''"
| "induce_label NoVerifiableEffect = ''no_verifiable_effect''"
| "induce_label (TooManyParameters _) = ''too_many_parameters''"
| "induce_label (WeakTaskSignature _) = ''weak_task_signature''"
| "induce_label (StoreRefused _) = ''store_rejected''"

fun induce_text :: "InduceReject \<Rightarrow> string" where
  "induce_text (TaskNotSuccessful arm) = ''observation '' @ quoted_name arm @ '' did not succeed''"
| "induce_text NoActionEvidence = ''observation has no tool calls''"
| "induce_text (StepCountMismatch a b) = ''step count differs: '' @ nat_digits a @ '' vs '' @ nat_digits b"
| "induce_text (ActionMismatch at_step a b) =
     ''step '' @ nat_digits at_step @ '' differs: '' @ quoted_name a @ '' vs '' @ quoted_name b"
| "induce_text (UnknownCapability n) = ''unknown capability '' @ quoted_name n"
| "induce_text (UnstableShape at_step reason) = ''step '' @ nat_digits at_step @ '' has an unstable shape: '' @ reason"
| "induce_text (EphemeralIdentifier v) = quoted_name v @ '' looks like an ephemeral identifier''"
| "induce_text (NotCapturable v) = quoted_name v @ '' has no capture rule that binds both runs''"
| "induce_text NoParameterDifference = ''observations are identical; induce an instance, not a template''"
| "induce_text NoVerifiableEffect = ''workflow has no observable postcondition''"
| "induce_text (TooManyParameters n) = nat_digits n @ '' parameters exceeds the induction budget''"
| "induce_text (WeakTaskSignature n) = ''task texts share only '' @ nat_digits n @ '' leading characters''"
| "induce_text (StoreRefused reason) = ''store refused the candidate: '' @ reason"

definition MAX_INDUCED_PARAMETERS :: nat where "MAX_INDUCED_PARAMETERS = 8"
definition MAX_PARAMETER_VALUE_LEN :: nat where "MAX_PARAMETER_VALUE_LEN = 128"
definition MIN_TASK_SIGNATURE_PREFIX :: nat where "MIN_TASK_SIGNATURE_PREFIX = 8"

definition likely_ephemeral_identifier :: "string \<Rightarrow> bool" where
  "likely_ephemeral_identifier s =
     list_ex (\<lambda>token. 16 \<le> length token \<and> list_all (\<lambda>c. is_ascii_hexdigit c \<or> c = CHR ''-'') token)
       (split_pred (\<lambda>c. \<not> (is_ascii_alphanumeric c \<or> c = CHR ''-'' \<or> c = CHR ''_'')) s)"

section \<open>Anchors\<close>

definition binds_to :: "string option \<Rightarrow> string option \<Rightarrow> string \<Rightarrow> string \<Rightarrow> bool" where
  "binds_to pre suf source expected \<longleftrightarrow> capture_parameter source pre suf = Some expected"

definition common_prefix :: "string \<Rightarrow> string \<Rightarrow> string" where
  "common_prefix a b =
     concat (map fst (takeWhile (\<lambda>(l, r). l = r) (zip (chars_of a) (chars_of b))))"

definition occurrences :: "string \<Rightarrow> string \<Rightarrow> nat list" where
  "occurrences s v = (if v = [] then [] else take 4 (match_indices s v 0))"

definition word_char :: "char \<Rightarrow> bool" where
  "word_char c \<longleftrightarrow> is_ascii_alphanumeric c \<or> c = CHR ''_''"

definition anchors :: "string \<Rightarrow> string option \<Rightarrow> string option list" where
  "anchors window word =
     (if trim_str window = [] then [None]
      else Some window # (case word of
                            Some w \<Rightarrow> (if w \<noteq> window then [Some w] else [])
                          | None \<Rightarrow> []) @ [None])"

definition anchor_before :: "string \<Rightarrow> string option list" where
  "anchor_before before_a =
     (let window = trim_start_matches word_char (tail_chars before_a 24)
      in anchors window (find (\<lambda>piece. trim_str piece \<noteq> []) (rev (split_pred is_whitespace window))))"

definition anchor_after :: "string \<Rightarrow> string option list" where
  "anchor_after after_a =
     (let window = trim_end_matches word_char (head_chars after_a 24)
      in anchors window (find (\<lambda>piece. trim_str piece \<noteq> []) (split_pred is_whitespace window)))"

definition path_like :: "string \<Rightarrow> bool" where
  "path_like v \<longleftrightarrow> (contains_str v ''/'' \<or> contains_str v [CHR 0x5C]) \<and> \<not> contains_str v ''://'' \<and>
     \<not> starts_with v ''/'' \<and> \<not> starts_with v [CHR 0x5C]"

definition looks_like_path :: "string \<Rightarrow> string \<Rightarrow> bool" where
  "looks_like_path a b \<longleftrightarrow> path_like a \<or> path_like b"

fun sanitize_loop :: "string \<Rightarrow> string \<Rightarrow> string" where
  "sanitize_loop [] out = out"
| "sanitize_loop (c # cs) out =
     (if is_ascii_alphanumeric c then sanitize_loop cs (out @ [lower_char c])
      else if \<not> ends_with out ''_'' then sanitize_loop cs (out @ ''_'')
      else sanitize_loop cs out)"

definition sanitize :: "string \<Rightarrow> string" where
  "sanitize s = trim_matches (\<lambda>c. c = CHR ''_'') (sanitize_loop s [])"

definition last_alnum_run :: "string \<Rightarrow> string" where
  "last_alnum_run s =
     (case find (\<lambda>run. run \<noteq> []) (rev (split_pred (\<lambda>c. \<not> is_ascii_alphanumeric c) s)) of
        Some run \<Rightarrow> sanitize run
      | None \<Rightarrow> [])"

section \<open>The inducer\<close>

record Inducer =
  ind_parameters :: "TemplateParameter list"
  ind_rules :: "((string \<times> string) \<times> string) list"
  ind_names :: "nat btree"

definition Inducer_new :: Inducer where
  "Inducer_new = \<lparr>ind_parameters = [], ind_rules = [], ind_names = []\<rparr>"

definition unique_base :: "string option \<Rightarrow> string \<Rightarrow> string \<Rightarrow> string" where
  "unique_base hint pre suf =
     (let fallback = (if last_alnum_run pre = []
                      then (if last_alnum_run suf = [] then ''value'' else last_alnum_run suf)
                      else last_alnum_run pre)
      in case hint of
           Some h \<Rightarrow> (if sanitize h \<noteq> [] then sanitize h else fallback)
         | None \<Rightarrow> fallback)"

definition unique_name :: "string option \<Rightarrow> string \<Rightarrow> string \<Rightarrow> Inducer \<Rightarrow> string \<times> Inducer" where
  "unique_name hint pre suf i =
     (let base = unique_base hint pre suf;
          counter = Suc (case bt_get (ind_names i) base of Some n \<Rightarrow> n | None \<Rightarrow> 0)
      in (if counter = 1 then base else base @ ''_'' @ nat_digits counter,
          i\<lparr>ind_names := bt_insert base counter (ind_names i)\<rparr>))"

definition rule_key :: "string option \<times> string option \<Rightarrow> string \<times> string" where
  "rule_key = (\<lambda>(pre, suf). (case pre of Some p \<Rightarrow> p | None \<Rightarrow> [], case suf of Some s \<Rightarrow> s | None \<Rightarrow> []))"

definition record_parameter :: "string option \<Rightarrow> string option \<Rightarrow> string option \<Rightarrow> string \<Rightarrow> string \<Rightarrow> Inducer
    \<Rightarrow> string \<times> Inducer" where
  "record_parameter hint pre suf value_a value_b i =
     (let key = rule_key (pre, suf)
      in case bt_get (ind_rules i) key of
           Some existing \<Rightarrow> (existing, i)
         | None \<Rightarrow>
             (case unique_name hint (fst key) (snd key) i of
                (name, i1) \<Rightarrow>
                  (name, i1\<lparr>ind_rules := bt_insert key name (ind_rules i1),
                           ind_parameters := ind_parameters i1 @
                             [\<lparr>param_name = name, param_source = ''task'',
                               param_kind = (if looks_like_path value_a value_b then PARAM_KIND_PATH else PARAM_KIND_TEXT),
                               param_prefix = pre, param_suffix = suf, param_required = True\<rparr>]\<rparr>)))"

definition rule_candidates :: "string \<Rightarrow> string \<Rightarrow> string \<Rightarrow> string \<Rightarrow> (string option \<times> string option) list" where
  "rule_candidates task_a task_b value_a value_b =
     concat (map (\<lambda>index_a. concat (map (\<lambda>index_b.
         concat (map (\<lambda>pre. map (\<lambda>suf. (pre, suf)) (anchor_after (drop (index_a + length value_a) task_a)))
                     (anchor_before (take index_a task_a))))
       (occurrences task_b value_b))) (occurrences task_a value_a))"

definition rule_ok :: "string \<Rightarrow> string \<Rightarrow> string \<Rightarrow> string \<Rightarrow> string option \<times> string option \<Rightarrow> bool" where
  "rule_ok task_a task_b value_a value_b = (\<lambda>(pre, suf).
     \<not> (pre = None \<and> suf = None) \<and> binds_to pre suf task_a value_a \<and> binds_to pre suf task_b value_b)"

definition induce_parameter :: "string \<Rightarrow> string \<Rightarrow> string \<Rightarrow> string \<Rightarrow> string option \<Rightarrow> Inducer
    \<Rightarrow> InduceReject + (string \<times> Inducer)" where
  "induce_parameter task_a task_b value_a value_b hint i =
     (if length value_a > MAX_PARAMETER_VALUE_LEN \<or> length value_b > MAX_PARAMETER_VALUE_LEN then
        Inl (NotCapturable value_a)
      else if likely_ephemeral_identifier value_a \<or> likely_ephemeral_identifier value_b then
        Inl (EphemeralIdentifier value_a)
      else if trim_str value_a = [] \<or> trim_str value_b = [] then Inl (NotCapturable value_a)
      else case find (rule_ok task_a task_b value_a value_b) (rule_candidates task_a task_b value_a value_b) of
             Some (pre, suf) \<Rightarrow> Inr (record_parameter hint pre suf value_a value_b i)
           | None \<Rightarrow> Inl (NotCapturable value_a))"

definition placeholder :: "string \<Rightarrow> string" where
  "placeholder n = ''${'' @ n @ ''}''"

lemma zip_size [termination_simp]: "(x, y) \<in> set (zip xs ys) \<Longrightarrow> size x < Suc (size_list size xs)"
  by (drule set_zip_leftD) (simp add: size_list_estimation' less_Suc_eq_le)

fun parameterize :: "string \<Rightarrow> string \<Rightarrow> nat \<Rightarrow> json \<Rightarrow> json \<Rightarrow> string option \<Rightarrow> Inducer
    \<Rightarrow> InduceReject + (json \<times> Inducer)" where
  "parameterize ta tb at_step (JString a) vb hint i =
     (case vb of
        JString b \<Rightarrow>
          (if a = b then Inr (JString a, i)
           else case induce_parameter ta tb a b hint i of
                  Inl e \<Rightarrow> Inl e
                | Inr (name, i1) \<Rightarrow> Inr (JString (placeholder name), i1))
      | _ \<Rightarrow> Inl (UnstableShape at_step ''non-string value differs between runs''))"
| "parameterize ta tb at_step (JArray xs) vb hint i =
     (case vb of
        JArray ys \<Rightarrow>
          (if length xs \<noteq> length ys then
             Inl (UnstableShape at_step (''array length '' @ nat_digits (length xs) @ '' vs '' @ nat_digits (length ys)))
           else case st_map (\<lambda>(x, y) s. parameterize ta tb at_step x y None s) (zip xs ys) i of
                  Inl e \<Rightarrow> Inl e
                | Inr (zs, i1) \<Rightarrow> Inr (JArray zs, i1))
      | _ \<Rightarrow> Inl (UnstableShape at_step ''non-string value differs between runs''))"
| "parameterize ta tb at_step (JObject ma) vb hint i =
     (case vb of
        JObject mb \<Rightarrow>
          (if length ma \<noteq> length mb then
             Inl (UnstableShape at_step (''object arity '' @ nat_digits (length ma) @ '' vs '' @ nat_digits (length mb)))
           else case st_map (\<lambda>(k, x) s.
                        case bt_get mb k of
                          None \<Rightarrow> Inl (UnstableShape at_step (''key '' @ quoted_name k @ '' missing from the second run''))
                        | Some y \<Rightarrow>
                            (case parameterize ta tb at_step x y (Some k) s of
                               Inl e \<Rightarrow> Inl e
                             | Inr (z, s1) \<Rightarrow> Inr ((k, z), s1))) ma i of
                  Inl e \<Rightarrow> Inl e
                | Inr (zs, i1) \<Rightarrow> Inr (JObject (bt_collect zs), i1))
      | _ \<Rightarrow> Inl (UnstableShape at_step ''non-string value differs between runs''))"
| "parameterize ta tb at_step va vb hint i =
     (if va = vb then Inr (va, i)
      else Inl (UnstableShape at_step ''non-string value differs between runs''))"

section \<open>Effects\<close>

definition push_unique :: "Predicate \<Rightarrow> Predicate list \<Rightarrow> Predicate list" where
  "push_unique p ps = (if p \<in> set ps then ps else ps @ [p])"

definition exists_pred :: "string \<Rightarrow> bool \<Rightarrow> Predicate" where
  "exists_pred p expected = \<lparr>pred_key = ''file:'' @ p @ ''.exists'', pred_expected = JBool expected\<rparr>"

definition push_opt :: "Predicate option \<Rightarrow> Predicate list \<Rightarrow> Predicate list" where
  "push_opt p ps = (case p of Some q \<Rightarrow> push_unique q ps | None \<Rightarrow> ps)"

definition content_pred :: "string \<Rightarrow> WorkflowStep \<Rightarrow> Predicate option" where
  "content_pred target step =
     (if step_action step \<noteq> ''write_file'' then None
      else case get_str (step_args step) ''content'' of
             None \<Rightarrow> None
           | Some content \<Rightarrow>
               (if \<not> contains_str content ''${'' \<and> length content \<le> 256
                then Some \<lparr>pred_key = ''file:'' @ target @ ''.content'', pred_expected = JString content\<rparr>
                else None))"

definition step_effects :: "WorkflowStep \<Rightarrow> Predicate list \<times> Predicate list \<Rightarrow> Predicate list \<times> Predicate list" where
  "step_effects step = (\<lambda>(pre, post).
     let arg = get_str (step_args step);
         is = (\<lambda>expected p. exists_pred p expected)
     in if step_action step = ''move_file'' then
          (push_opt (map_option (is True) (arg ''source'')) pre,
           push_opt (map_option (is True) (arg ''target''))
             (push_opt (map_option (is False) (arg ''source'')) post))
        else if step_action step = ''copy_file'' then
          (push_opt (map_option (is True) (arg ''source'')) pre,
           push_opt (map_option (is True) (arg ''target'')) post)
        else if step_action step = ''delete_file'' then
          (push_opt (map_option (is True) (arg ''path'')) pre,
           push_opt (map_option (is False) (arg ''path'')) post)
        else if step_action step = ''mkdir'' \<or> step_action step = ''write_file'' \<or> step_action step = ''append_file'' then
          (case arg ''path'' of
             None \<Rightarrow> (pre, post)
           | Some target \<Rightarrow> (pre, push_opt (content_pred target step) (push_unique (is True target) post)))
        else if step_action step = ''read_file'' then
          (push_opt (map_option (is True) (arg ''path'')) pre, post)
        else (pre, post))"

definition effects_for :: "WorkflowStep list \<Rightarrow> Predicate list \<times> Predicate list \<times> VerificationStep list" where
  "effects_for workflow =
     (case fold step_effects workflow ([], []) of
        (pre, post) \<Rightarrow> (pre, post, map Probe post))"

section \<open>Naming\<close>

definition task_signature_prefix :: "string \<Rightarrow> string \<Rightarrow> InduceReject + string" where
  "task_signature_prefix a b =
     (let common = common_prefix (to_lowercase a) (to_lowercase b);
          cut = (case rfind_char is_whitespace common of
                   Some index \<Rightarrow> (if MIN_TASK_SIGNATURE_PREFIX \<le> index then take index common else common)
                 | None \<Rightarrow> common);
          trimmed = trim_str cut
      in if char_count trimmed < MIN_TASK_SIGNATURE_PREFIX
         then Inl (WeakTaskSignature (char_count trimmed)) else Inr trimmed)"

fun squeeze_once :: "string \<Rightarrow> string" where
  "squeeze_once (c # d # cs) =
     (if c = CHR ''_'' \<and> d = CHR ''_'' then CHR ''_'' # squeeze_once cs else c # squeeze_once (d # cs))"
| "squeeze_once cs = cs"

lemma squeeze_once_le: "length (squeeze_once s) \<le> length s"
  by (induction s rule: squeeze_once.induct) auto

lemma squeeze_once_less: "contains_str s ''__'' \<Longrightarrow> length (squeeze_once s) < length s"
proof (induction s rule: squeeze_once.induct)
  case (1 c d cs)
  show ?case
  proof (cases "c = CHR ''_'' \<and> d = CHR ''_''")
    case True
    then show ?thesis using squeeze_once_le [of cs] by simp
  next
    case False
    with 1(3) have "contains_str (d # cs) ''__''"
      by (auto simp: contains_str_sublist sublist_Cons_right)
    with 1(2) [OF False] False show ?thesis by auto
  qed
qed (auto simp: contains_str_sublist sublist_Cons_right)

function squeeze :: "string \<Rightarrow> string" where
  "squeeze s = (if contains_str s ''__'' then squeeze (squeeze_once s) else s)"
  by pat_completeness auto
termination
  by (relation "measure length") (auto dest: squeeze_once_less)

declare squeeze.simps [simp del]

definition template_candidate_name :: "string \<Rightarrow> TemplateParameter list \<Rightarrow> string" where
  "template_candidate_name task parameters =
     (let signature = concat (map (\<lambda>ch. if length ch = 1 \<and> is_ascii_alphanumeric (hd ch) then ch else ''_'')
                        (chars_of (to_lowercase task)));
          trimmed = trim_matches (\<lambda>c. c = CHR ''_'') (squeeze signature);
          shapes = remdups_adj (sort (map (\<lambda>p. sanitize (param_name p)) parameters))
      in ''tcand_'' @ take 40 trimmed @ ''__'' @ join_str ''_'' shapes)"

section \<open>Induction\<close>

fun agree_steps :: "nat \<Rightarrow> (ObservedStep \<times> ObservedStep) list \<Rightarrow> InduceReject + unit" where
  "agree_steps n [] = Inr ()"
| "agree_steps n ((first, second) # rest) =
     (if obs_action first \<noteq> obs_action second then
        Inl (ActionMismatch n (obs_action first) (obs_action second))
      else if obs_action first \<notin> set CANONICAL_TOOLS then Inl (UnknownCapability (obs_action first))
      else agree_steps (Suc n) rest)"

definition induce_workflow :: "ObservedTask \<Rightarrow> ObservedTask \<Rightarrow> InduceReject + (WorkflowStep list \<times> Inducer)" where
  "induce_workflow a b =
     st_map (\<lambda>(n, first, second) i.
        case parameterize (obs_task a) (obs_task b) n (obs_args first) (obs_args second) None i of
          Inl e \<Rightarrow> Inl e
        | Inr (args, i1) \<Rightarrow> Inr (\<lparr>step_action = obs_action first, step_args = args\<rparr>, i1))
       (enumerate 0 (zip (obs_steps a) (obs_steps b))) Inducer_new"

definition induced_template :: "ObservedTask \<Rightarrow> WorkflowStep list \<Rightarrow> TemplateParameter list \<Rightarrow> string \<Rightarrow> ExperienceTemplate" where
  "induced_template a workflow parameters pattern =
     (case effects_for workflow of
        (pre, post, ver) \<Rightarrow>
          \<lparr>tmpl_name = template_candidate_name (obs_task a) parameters,
           tmpl_trigger = \<lparr>pat_tool = ''task'', command_pattern = Some pattern\<rparr>,
           tmpl_parameters = parameters, tmpl_workflow = workflow, tmpl_preconditions = pre,
           tmpl_postconditions = post, tmpl_verification = ver, tmpl_failure_policy = StopAndReport,
           tmpl_undo = Unsupported, tmpl_status = Candidate\<rparr>)"

definition induce :: "ObservedTask \<Rightarrow> ObservedTask \<Rightarrow> InduceReject + ExperienceTemplate" where
  "induce a b =
     (if \<not> obs_succeeded a then Inl (TaskNotSuccessful ''a'')
      else if \<not> obs_succeeded b then Inl (TaskNotSuccessful ''b'')
      else if obs_steps a = [] \<or> obs_steps b = [] then Inl NoActionEvidence
      else if length (obs_steps a) \<noteq> length (obs_steps b) then
        Inl (StepCountMismatch (length (obs_steps a)) (length (obs_steps b)))
      else case agree_steps 0 (zip (obs_steps a) (obs_steps b)) of
        Inl e \<Rightarrow> Inl e
      | Inr _ \<Rightarrow>
          (case induce_workflow a b of
             Inl e \<Rightarrow> Inl e
           | Inr (workflow, i) \<Rightarrow>
               (if ind_parameters i = [] then Inl NoParameterDifference
                else if length (ind_parameters i) > MAX_INDUCED_PARAMETERS then
                  Inl (TooManyParameters (length (ind_parameters i)))
                else if fst (snd (effects_for workflow)) = [] then Inl NoVerifiableEffect
                else case task_signature_prefix (obs_task a) (obs_task b) of
                  Inl e \<Rightarrow> Inl e
                | Inr pattern \<Rightarrow>
                    (let t = induced_template a workflow (ind_parameters i) pattern
                     in if template_schema_issues t \<noteq> [] then
                          Inl (UnstableShape 0 (''induced template failed schema: '' @ issues_debug (template_schema_issues t)))
                        else Inr t))))"

definition induce_into_store :: "ObservedTask \<Rightarrow> ObservedTask \<Rightarrow> string \<Rightarrow> string option \<Rightarrow> nat
    \<Rightarrow> ExperienceStore \<Rightarrow> (InduceReject + string) \<times> ExperienceStore" where
  "induce_into_store a b distiller session_id recorded_at s =
     (case induce a b of
        Inl e \<Rightarrow> (Inl e, s)
      | Inr t \<Rightarrow>
          (case insert_template t s of
             Inl err \<Rightarrow> (Inl (StoreRefused (store_error_text err)), s)
           | Inr s1 \<Rightarrow>
               (Inr (tmpl_name t),
                set_candidate_origin (tmpl_name t)
                  \<lparr>org_task_signature = obs_task a, org_session_id = session_id,
                   org_distiller = distiller, org_recorded_at = recorded_at\<rparr> s1)))"


section \<open>Names and rules\<close>

lemma lower_alnum_not_brace: "is_ascii_alphanumeric c \<Longrightarrow> lower_char c \<noteq> CHR ''}''"
proof
  assume a: "is_ascii_alphanumeric c" and l: "lower_char c = CHR ''}''"
  have "byte_of (lower_char c) = 125" using l by (simp add: byte_of_def)
  with a show False
    by (auto simp: lower_char_def is_ascii_alphanumeric_def is_ascii_alphabetic_def is_ascii_upper_def
        is_ascii_lower_def is_ascii_digit_def split: if_splits)
qed

lemma set_trim_matches: "set (trim_matches P s) \<subseteq> set s"
proof
  fix c assume "c \<in> set (trim_matches P s)"
  then have "c \<in> set (dropWhile P (rev (dropWhile P s)))" by (simp add: trim_matches_def)
  then show "c \<in> set s" by (metis set_dropWhileD set_rev)
qed

lemma digit_char_digit: "n < 10 \<Longrightarrow> digit_char n \<noteq> CHR ''}''"
proof
  assume "n < 10" "digit_char n = CHR ''}''"
  then have "byte_of (digit_char n) = 125" by (simp add: byte_of_def)
  with \<open>n < 10\<close> show False by (simp add: digit_char_def)
qed

lemma nat_digits_no_brace: "CHR ''}'' \<notin> set (nat_digits n)"
proof (induction n rule: nat_digits.induct)
  case (1 n)
  then show ?case using digit_char_digit [of n] digit_char_digit [of "n mod 10"] by (subst nat_digits.simps) auto
qed

lemma sanitize_no_brace: "CHR ''}'' \<notin> set (sanitize s)"
proof -
  have "CHR ''}'' \<notin> set out \<Longrightarrow> CHR ''}'' \<notin> set (sanitize_loop s out)" for out
  proof (induction s arbitrary: out)
    case (Cons c s)
    have "is_ascii_alphanumeric c \<Longrightarrow> CHR ''}'' \<notin> set (out @ [lower_char c])"
      using Cons.prems lower_alnum_not_brace [of c] by auto
    with Cons show ?case by simp
  qed simp
  from this [of "[]"] have "CHR ''}'' \<notin> set (sanitize_loop s [])" by simp
  then show ?thesis using set_trim_matches [of _ "sanitize_loop s []"] unfolding sanitize_def by blast
qed

lemma last_alnum_run_no_brace: "CHR ''}'' \<notin> set (last_alnum_run s)"
  by (simp add: last_alnum_run_def sanitize_no_brace split: option.splits)

lemma unique_base_no_brace: "CHR ''}'' \<notin> set (unique_base hint pre suf)"
  by (simp add: unique_base_def Let_def sanitize_no_brace last_alnum_run_no_brace split: option.splits)

lemma unique_name_no_brace: "unique_name hint pre suf i = (name, i') \<Longrightarrow> CHR ''}'' \<notin> set name"
  using unique_base_no_brace [of hint pre suf] nat_digits_no_brace
  by (auto simp: unique_name_def Let_def split: if_splits)

lemma anchors_not_empty: "(\<And>w. word = Some w \<Longrightarrow> w \<noteq> []) \<Longrightarrow> x \<in> set (anchors window word) \<Longrightarrow> x \<noteq> Some []"
  by (auto simp: anchors_def trim_str_def trim_start_def trim_end_def split: if_splits option.splits)

lemma found_piece_not_empty: "find (\<lambda>piece. trim_str piece \<noteq> []) ps = Some w \<Longrightarrow> w \<noteq> []"
  by (auto simp: find_Some_iff trim_str_def trim_start_def trim_end_def)

lemma rule_candidates_not_empty:
  "(pre, suf) \<in> set (rule_candidates ta tb va vb) \<Longrightarrow> pre \<noteq> Some [] \<and> suf \<noteq> Some []"
  by (auto simp: rule_candidates_def anchor_before_def anchor_after_def Let_def
      dest!: anchors_not_empty [rotated] dest: found_piece_not_empty)

lemma rule_key_inj:
  "rule_key (p, s) = rule_key (p', s') \<Longrightarrow> p \<noteq> Some [] \<Longrightarrow> s \<noteq> Some [] \<Longrightarrow> p' \<noteq> Some [] \<Longrightarrow> s' \<noteq> Some [] \<Longrightarrow>
   p = p' \<and> s = s'"
  by (auto simp: rule_key_def split: option.splits)

section \<open>What the inducer keeps\<close>

definition rule_param :: "TemplateParameter \<Rightarrow> bool" where
  "rule_param prm \<longleftrightarrow> param_source prm = ''task'' \<and> param_required prm \<and> CHR ''}'' \<notin> set (param_name prm) \<and>
     param_prefix prm \<noteq> Some [] \<and> param_suffix prm \<noteq> Some []"

definition inducer_ok :: "Inducer \<Rightarrow> bool" where
  "inducer_ok i \<longleftrightarrow> list_all rule_param (ind_parameters i) \<and>
     (\<forall>key name. bt_get (ind_rules i) key = Some name \<longrightarrow>
        (\<exists>prm \<in> set (ind_parameters i). param_name prm = name \<and> rule_key (param_prefix prm, param_suffix prm) = key))"

definition grows :: "Inducer \<Rightarrow> Inducer \<Rightarrow> bool" where
  "grows i i' \<longleftrightarrow> set (ind_parameters i) \<subseteq> set (ind_parameters i')"

lemma inducer_ok_new: "inducer_ok Inducer_new"
  by (simp add: inducer_ok_def Inducer_new_def)

lemma record_parameter_ok:
  assumes i: "inducer_ok i" and pre: "pre \<noteq> Some []" and suf: "suf \<noteq> Some []"
    and r: "record_parameter hint pre suf va vb i = (name, i')"
  shows "inducer_ok i' \<and> grows i i' \<and>
    (\<exists>prm \<in> set (ind_parameters i'). param_name prm = name \<and> param_prefix prm = pre \<and> param_suffix prm = suf)"
proof (cases "bt_get (ind_rules i) (rule_key (pre, suf))")
  case (Some existing)
  with r have [simp]: "i' = i" "name = existing" by (simp_all add: record_parameter_def)
  from Some i obtain prm where prm: "prm \<in> set (ind_parameters i)" "param_name prm = existing"
      "rule_key (param_prefix prm, param_suffix prm) = rule_key (pre, suf)"
    unfolding inducer_ok_def by blast
  moreover have "rule_param prm" using i prm(1) by (simp add: inducer_ok_def list_all_iff)
  ultimately have "param_prefix prm = pre \<and> param_suffix prm = suf"
    using rule_key_inj [OF prm(3)] pre suf by (simp add: rule_param_def)
  with prm i show ?thesis by (auto simp: grows_def)
next
  case None
  obtain n i1 where u: "unique_name hint (fst (rule_key (pre, suf))) (snd (rule_key (pre, suf))) i = (n, i1)"
    by (metis surj_pair)
  then have i1: "ind_parameters i1 = ind_parameters i" "ind_rules i1 = ind_rules i"
    by (auto simp: unique_name_def Let_def)
  let ?p = "\<lparr>param_name = n, param_source = ''task'',
     param_kind = (if looks_like_path va vb then PARAM_KIND_PATH else PARAM_KIND_TEXT),
     param_prefix = pre, param_suffix = suf, param_required = True\<rparr>"
  from r None u have [simp]: "name = n" and
    i': "i' = i1\<lparr>ind_rules := bt_insert (rule_key (pre, suf)) n (ind_rules i1), ind_parameters := ind_parameters i1 @ [?p]\<rparr>"
    by (auto simp: record_parameter_def Let_def)
  have "rule_param ?p" using unique_name_no_brace [OF u] pre suf by (simp add: rule_param_def)
  with i have "inducer_ok i'"
    by (auto simp: inducer_ok_def i' i1 map_simps list_all_iff)
  then show ?thesis by (auto simp: grows_def i' i1)
qed

lemma induce_parameter_ok:
  assumes "inducer_ok i" "induce_parameter ta tb va vb hint i = Inr (name, i')"
  shows "inducer_ok i' \<and> grows i i' \<and>
    (\<exists>prm \<in> set (ind_parameters i'). param_name prm = name \<and> capture ta prm = Some va \<and> capture tb prm = Some vb)"
proof -
  from assms(2) obtain pre suf where
    f: "find (rule_ok ta tb va vb) (rule_candidates ta tb va vb) = Some (pre, suf)" and
    r: "record_parameter hint pre suf va vb i = (name, i')"
    by (auto simp: induce_parameter_def split: if_splits option.splits)
  from f have ok: "rule_ok ta tb va vb (pre, suf)" and "(pre, suf) \<in> set (rule_candidates ta tb va vb)"
    by (auto simp: find_Some_iff)
  then have "pre \<noteq> Some []" "suf \<noteq> Some []" using rule_candidates_not_empty by blast+
  with record_parameter_ok [OF assms(1) _ _ r] ok show ?thesis
    by (fastforce simp: rule_ok_def binds_to_def capture_def)
qed


section \<open>Reproduction\<close>

lemma st_map_run:
  assumes run: "st_map f xs s = Inr (ys, s')" and s: "I s"
    and step: "\<And>x s y s'. x \<in> set xs \<Longrightarrow> f x s = Inr (y, s') \<Longrightarrow> I s \<Longrightarrow> I s' \<and> le s s' \<and> Q x y s'"
    and refl: "\<And>s. le s s" and trans: "\<And>a b c. le a b \<Longrightarrow> le b c \<Longrightarrow> le a c"
    and mono: "\<And>x y a b. Q x y a \<Longrightarrow> le a b \<Longrightarrow> Q x y b"
  shows "I s' \<and> le s s' \<and> list_all2 (\<lambda>x y. Q x y s') xs ys"
  using run s step
proof (induction xs arbitrary: s ys)
  case Nil
  then show ?case by (simp add: refl)
next
  case (Cons x xs)
  from Cons.prems(1) obtain y s1 ys' where y: "f x s = Inr (y, s1)" "st_map f xs s1 = Inr (ys', s')" "ys = y # ys'"
    by (auto split: sum.splits prod.splits)
  have one: "I s1" "le s s1" "Q x y s1" using Cons.prems(3) [OF _ y(1) Cons.prems(2)] by auto
  have "I s' \<and> le s1 s' \<and> list_all2 (\<lambda>x y. Q x y s') xs ys'"
    by (rule Cons.IH [OF y(2) one(1)], rule Cons.prems(3)) auto
  with one y(3) show ?case using trans mono by auto
qed

text \<open>A value reproduces an observed value when every binding that gives each parameter its capture
  from the request text renders it to that value.\<close>

definition captures :: "TemplateParameter list \<Rightarrow> string \<Rightarrow> string btree \<Rightarrow> bool" where
  "captures ps task b \<longleftrightarrow>
     (\<forall>prm \<in> set ps. \<exists>v. capture task prm = Some v \<and> bt_get b (param_name prm) = Some v)"

definition reproduces :: "string \<Rightarrow> json \<Rightarrow> json \<Rightarrow> Inducer \<Rightarrow> bool" where
  "reproduces task v orig i \<longleftrightarrow> (\<forall>b. captures (ind_parameters i) task b \<longrightarrow> render_value v b = Inr orig)"

lemma reproduces_mono: "reproduces task v orig i \<Longrightarrow> grows i i' \<Longrightarrow> reproduces task v orig i'"
  by (auto simp: reproduces_def captures_def grows_def)

text \<open>Literals that contain no placeholder opener.\<close>

fun hole_free :: "json \<Rightarrow> bool" where
  "hole_free (JString s) \<longleftrightarrow> \<not> contains_str s ''${''"
| "hole_free (JArray xs) \<longleftrightarrow> (\<forall>x \<in> set xs. hole_free x)"
| "hole_free (JObject m) \<longleftrightarrow> (\<forall>p \<in> set m. hole_free (snd p))"
| "hole_free _ \<longleftrightarrow> True"

lemma render_literal: "\<not> contains_str s ''${'' \<Longrightarrow> render_string s b = Inr s"
  by (simp add: render_string_def render_loop.simps [of s b s] contains_str_def)

lemma find_close: "CHR ''}'' \<notin> set n \<Longrightarrow> find_str (n @ ''}'') ''}'' = Some (length n)"
  by (induction n) (auto simp: starts_with_def)

lemma render_placeholder:
  assumes "CHR ''}'' \<notin> set n" "bt_get b n = Some v"
  shows "render_string (placeholder n) b = Inr v"
proof -
  have "find_str (placeholder n) ''${'' = Some 0" by (simp add: placeholder_def starts_with_def)
  moreover have "drop (0 + 2) (placeholder n) = n @ ''}''" by (simp add: placeholder_def)
  moreover have "render_loop (placeholder n) b [] v = Inr v" by (subst render_loop.simps) simp
  ultimately show ?thesis
    unfolding render_string_def by (subst render_loop.simps) (simp add: find_close assms)
qed

lemma placeholder_reproduces:
  assumes "inducer_ok i" "prm \<in> set (ind_parameters i)" "capture task prm = Some v"
  shows "reproduces task (JString (placeholder (param_name prm))) (JString v) i"
proof -
  have "CHR ''}'' \<notin> set (param_name prm)" using assms(1,2) by (auto simp: inducer_ok_def list_all_iff rule_param_def)
  then show ?thesis
    using assms(2,3) by (auto simp: reproduces_def captures_def render_placeholder)
qed

lemma same_keys:
  assumes "bt_sorted ma" "bt_sorted mb" "length ma = length mb" "\<forall>k \<in> fst ` set ma. bt_get mb k \<noteq> None"
  shows "map fst ma = map fst mb"
proof (rule sorted_distinct_set_unique)
  have s: "sorted_wrt (<) (map fst ma)" "sorted_wrt (<) (map fst mb)" using assms(1,2) by (simp_all add: bt_sorted_def)
  then show "sorted (map fst ma)" "distinct (map fst ma)" "sorted (map fst mb)" "distinct (map fst mb)"
    by (simp_all add: strict_sorted_iff)
  have "fst ` set ma \<subseteq> fst ` set mb"
    using assms(4) by (force simp: bt_get_def dest: map_of_SomeD)
  moreover have "card (fst ` set ma) = card (fst ` set mb)"
    using \<open>distinct (map fst ma)\<close> \<open>distinct (map fst mb)\<close> assms(3) by (metis distinct_card length_map list.set_map)
  ultimately show "set (map fst ma) = set (map fst mb)" by (simp add: card_subset_eq)
qed


definition reproduces_both :: "string \<Rightarrow> string \<Rightarrow> json \<Rightarrow> json \<Rightarrow> json \<Rightarrow> Inducer \<Rightarrow> bool" where
  "reproduces_both ta tb va vb v i \<longleftrightarrow> reproduces ta v va i \<and> reproduces tb v vb i"

lemma reproduces_both_mono: "reproduces_both ta tb va vb v i \<Longrightarrow> grows i i' \<Longrightarrow> reproduces_both ta tb va vb v i'"
  by (auto simp: reproduces_both_def intro: reproduces_mono)

lemma grows_refl: "grows i i" and grows_trans: "grows i i' \<Longrightarrow> grows i' i'' \<Longrightarrow> grows i i''"
  by (auto simp: grows_def)

lemma render_array:
  assumes "list_all2 (\<lambda>x z. reproduces t z x i) xs zs"
  shows "reproduces t (JArray zs) (JArray xs) i"
  unfolding reproduces_def
proof (intro allI impI)
  fix b assume c: "captures (ind_parameters i) t b"
  have "try_map (\<lambda>z. render_value z b) zs = Inr xs"
    using assms c by (intro try_map_InrI) (auto simp: list_all2_conv_all_nth reproduces_def)
  then show "render_value (JArray zs) b = Inr (JArray xs)" by simp
qed

lemma render_object:
  assumes "list_all2 (\<lambda>p q. fst p = fst q \<and> reproduces t (snd q) (snd p) i) m zs" and "bt_sorted m"
  shows "reproduces t (JObject (bt_collect zs)) (JObject m) i"
  unfolding reproduces_def
proof (intro allI impI)
  fix b assume c: "captures (ind_parameters i) t b"
  have "map fst zs = map fst m"
    using assms(1) by (simp add: list_all2_conv_all_nth list_eq_iff_nth_eq)
  then have "bt_sorted zs" using assms(2) by (simp add: bt_sorted_def)
  moreover have "try_map (\<lambda>(k, v). case render_value v b of Inl e \<Rightarrow> Inl e | Inr w \<Rightarrow> Inr (k, w)) zs = Inr m"
  proof (rule try_map_InrI)
    have one: "(case q of (k, v) \<Rightarrow> case render_value v b of Inl e \<Rightarrow> Inl e | Inr w \<Rightarrow> Inr (k, w)) = Inr p"
      if "fst p = fst q \<and> reproduces t (snd q) (snd p) i" for p q
      using that c by (cases p; cases q) (simp add: reproduces_def)
    show "list_all2 (\<lambda>q p. (case q of (k, v) \<Rightarrow> case render_value v b of Inl e \<Rightarrow> Inl e | Inr w \<Rightarrow> Inr (k, w)) = Inr p) zs m"
      using assms(1) unfolding list_all2_conv_all_nth by (intro conjI allI impI) (simp, rule one, simp)
  qed
  ultimately show "render_value (JObject (bt_collect zs)) b = Inr (JObject m)"
    using assms(2) by simp
qed

definition induces :: "string \<Rightarrow> string \<Rightarrow> nat \<Rightarrow> json \<Rightarrow> bool" where
  "induces ta tb n va \<longleftrightarrow> (\<forall>vb hint i v i'. parameterize ta tb n va vb hint i = Inr (v, i') \<longrightarrow> inducer_ok i \<longrightarrow>
     json_wf va \<longrightarrow> json_wf vb \<longrightarrow> hole_free va \<longrightarrow>
     inducer_ok i' \<and> grows i i' \<and> reproduces_both ta tb va vb v i')"

lemma inducesI:
  "(\<And>vb hint i v i'. parameterize ta tb n va vb hint i = Inr (v, i') \<Longrightarrow> inducer_ok i \<Longrightarrow> json_wf va \<Longrightarrow> json_wf vb \<Longrightarrow>
      hole_free va \<Longrightarrow> inducer_ok i' \<and> grows i i' \<and> reproduces_both ta tb va vb v i') \<Longrightarrow> induces ta tb n va"
  unfolding induces_def by blast

lemma inducesD:
  "induces ta tb n va \<Longrightarrow> parameterize ta tb n va vb hint i = Inr (v, i') \<Longrightarrow> inducer_ok i \<Longrightarrow> json_wf va \<Longrightarrow>
   json_wf vb \<Longrightarrow> hole_free va \<Longrightarrow> inducer_ok i' \<and> grows i i' \<and> reproduces_both ta tb va vb v i'"
  unfolding induces_def by blast

lemma induces_string: "induces ta tb n (JString a)"
proof (rule inducesI)
  fix vb hint i v i'
  assume run: "parameterize ta tb n (JString a) vb hint i = Inr (v, i')" and i: "inducer_ok i" and h: "hole_free (JString a)"
  from run obtain b where b: "vb = JString b" by (cases vb) auto
  show "inducer_ok i' \<and> grows i i' \<and> reproduces_both ta tb (JString a) vb v i'"
  proof (cases "a = b")
    case True
    with run b i h show ?thesis by (auto simp: reproduces_both_def reproduces_def render_literal grows_refl)
  next
    case False
    with run b obtain name where p: "induce_parameter ta tb a b hint i = Inr (name, i')" "v = JString (placeholder name)"
      by (auto split: sum.splits)
    with induce_parameter_ok [OF i p(1)] b show ?thesis
      by (auto simp: reproduces_both_def intro: placeholder_reproduces)
  qed
qed

lemma induces_array:
  assumes "\<And>x. x \<in> set xs \<Longrightarrow> induces ta tb n x"
  shows "induces ta tb n (JArray xs)"
proof (rule inducesI)
  fix vb hint i v i'
  assume run: "parameterize ta tb n (JArray xs) vb hint i = Inr (v, i')" and i: "inducer_ok i"
    and wf: "json_wf (JArray xs)" "json_wf vb" and h: "hole_free (JArray xs)"
  from run obtain ys where ys: "vb = JArray ys" "length xs = length ys" by (cases vb) (auto split: if_splits)
  with run obtain zs where
    z: "st_map (\<lambda>(x, y) s. parameterize ta tb n x y None s) (zip xs ys) i = Inr (zs, i')" "v = JArray zs"
    by (cases "st_map (\<lambda>(x, y) s. parameterize ta tb n x y None s) (zip xs ys) i") auto
  have r: "inducer_ok i' \<and> grows i i' \<and>
      list_all2 (\<lambda>p z. reproduces_both ta tb (fst p) (snd p) z i') (zip xs ys) zs"
  proof (rule st_map_run [where I = inducer_ok and le = grows and
        Q = "\<lambda>p z. reproduces_both ta tb (fst p) (snd p) z", OF z(1) i])
    fix p s y s' assume p: "p \<in> set (zip xs ys)" "(case p of (x, y) \<Rightarrow> parameterize ta tb n x y None) s = Inr (y, s')" "inducer_ok s"
    have "(fst p, snd p) \<in> set (zip xs ys)" using p(1) by simp
    then have mem: "fst p \<in> set xs" "snd p \<in> set ys" by (rule set_zip_leftD, rule set_zip_rightD)
    then have "json_wf (fst p)" "json_wf (snd p)" "hole_free (fst p)" using wf h ys(1) by simp_all
    moreover have "parameterize ta tb n (fst p) (snd p) None s = Inr (y, s')" using p(2) by (cases p) simp
    ultimately show "inducer_ok s' \<and> grows s s' \<and> reproduces_both ta tb (fst p) (snd p) y s'"
      using inducesD [OF assms [OF mem(1)]] p(3) by blast
  qed (rule grows_refl, erule (1) grows_trans, erule (1) reproduces_both_mono)
  then have "list_all2 (\<lambda>x z. reproduces ta z x i') xs zs" "list_all2 (\<lambda>y z. reproduces tb z y i') ys zs"
    using ys(2) by (simp_all add: list_all2_conv_all_nth reproduces_both_def)
  with r ys(1) z(2) show "inducer_ok i' \<and> grows i i' \<and> reproduces_both ta tb (JArray xs) vb v i'"
    by (simp add: reproduces_both_def render_array)
qed

lemma field_step:
  assumes "\<And>y w hint s s'. parameterize ta tb n x y hint s = Inr (w, s') \<Longrightarrow> inducer_ok s \<Longrightarrow> json_wf y \<Longrightarrow>
      inducer_ok s' \<and> grows s s' \<and> reproduces_both ta tb x y w s'"
    and "(case bt_get mb k of None \<Rightarrow> Inl err
        | Some y \<Rightarrow> (case parameterize ta tb n x y (Some k) s of Inl e \<Rightarrow> Inl e | Inr (z, s1) \<Rightarrow> Inr ((k, z), s1))) = Inr (q, s')"
    and "inducer_ok s" and "\<forall>p \<in> set mb. json_wf (snd p)"
  shows "inducer_ok s' \<and> grows s s' \<and> k = fst q \<and> (\<exists>y. bt_get mb k = Some y \<and> reproduces_both ta tb x y (snd q) s')"
proof -
  from assms(2) obtain y w where y: "bt_get mb k = Some y" "parameterize ta tb n x y (Some k) s = Inr (w, s')" "q = (k, w)"
    by (auto split: option.splits sum.splits)
  have "(k, y) \<in> set mb" using y(1) by (simp add: bt_get_def map_of_SomeD)
  then have "json_wf y" using assms(4) by auto
  from assms(1) [OF y(2) assms(3) this] y show ?thesis by simp
qed

lemma induces_object:
  assumes "\<And>p. p \<in> set ma \<Longrightarrow> induces ta tb n (snd p)"
  shows "induces ta tb n (JObject ma)"
proof (rule inducesI)
  fix vb hint i v i'
  assume run: "parameterize ta tb n (JObject ma) vb hint i = Inr (v, i')" and i: "inducer_ok i"
    and wf: "json_wf (JObject ma)" "json_wf vb" and h: "hole_free (JObject ma)"
  from run obtain mb where mb: "vb = JObject mb" "length ma = length mb" by (cases vb) (auto split: if_splits)
  let ?f = "\<lambda>(k, x) s. case bt_get mb k of
      None \<Rightarrow> Inl (UnstableShape n (''key '' @ quoted_name k @ '' missing from the second run''))
    | Some y \<Rightarrow> (case parameterize ta tb n x y (Some k) s of Inl e \<Rightarrow> Inl e | Inr (z, s1) \<Rightarrow> Inr ((k, z), s1))"
  let ?Q = "\<lambda>p q j. fst p = fst q \<and> (\<exists>y. bt_get mb (fst p) = Some y \<and> reproduces_both ta tb (snd p) y (snd q) j)"
  from run mb obtain zs where z: "st_map ?f ma i = Inr (zs, i')" "v = JObject (bt_collect zs)"
    by (cases "st_map ?f ma i") auto
  have r: "inducer_ok i' \<and> grows i i' \<and> list_all2 (\<lambda>p q. ?Q p q i') ma zs"
  proof (rule st_map_run [where I = inducer_ok and le = grows and Q = ?Q, OF z(1) i])
    fix p s q s' assume p: "p \<in> set ma" "?f p s = Inr (q, s')" "inducer_ok s"
    then have "json_wf (snd p)" "hole_free (snd p)" using wf(1) h by simp_all
    with inducesD [OF assms [OF p(1)]] have one: "parameterize ta tb n (snd p) y hint s = Inr (w, s') \<Longrightarrow>
        inducer_ok s \<Longrightarrow> json_wf y \<Longrightarrow> inducer_ok s' \<and> grows s s' \<and> reproduces_both ta tb (snd p) y w s'" for y w hint s s'
      by blast
    show "inducer_ok s' \<and> grows s s' \<and> ?Q p q s'"
      by (rule field_step [OF one]) (use p wf(2) mb(1) in \<open>simp_all add: case_prod_unfold\<close>)
  qed (rule grows_refl, erule (1) grows_trans, metis reproduces_both_mono)
  have sorted: "bt_sorted ma" "bt_sorted mb" using wf mb(1) by simp_all
  have look: "length zs = length ma" "\<And>k. k < length ma \<Longrightarrow> ?Q (ma ! k) (zs ! k) i'"
    using r unfolding list_all2_conv_all_nth by (simp, metis)
  have keys: "map fst ma = map fst mb"
  proof (rule same_keys [OF sorted mb(2)], intro ballI)
    fix k assume "k \<in> fst ` set ma"
    then obtain j where "j < length ma" "k = fst (ma ! j)" by (auto simp: in_set_conv_nth simp flip: in_set_conv_nth) (metis fst_conv in_set_conv_nth)
    with look(2) [of j] show "bt_get mb k \<noteq> None" by auto
  qed
  have key: "fst (ma ! k) = fst (mb ! k)" if "k < length ma" for k
    using keys that mb(2) by (metis nth_map)
  have dist: "distinct (map fst mb)" using sorted(2) by (simp add: bt_sorted_def strict_sorted_iff)
  have val: "bt_get mb (fst (ma ! k)) = Some (snd (mb ! k))" if "k < length ma" for k
    using that key mb(2) dist by (simp add: bt_get_def)
  have both: "reproduces ta (snd (zs ! k)) (snd (ma ! k)) i'" "reproduces tb (snd (zs ! k)) (snd (mb ! k)) i'"
      "fst (ma ! k) = fst (zs ! k)" "fst (mb ! k) = fst (zs ! k)" if "k < length ma" for k
    using look(2) [OF that] val [OF that] key [OF that] by (auto simp: reproduces_both_def)
  have "list_all2 (\<lambda>p q. fst p = fst q \<and> reproduces tb (snd q) (snd p) i') mb zs"
    unfolding list_all2_conv_all_nth using both(2,4) look(1) mb(2) by simp
  moreover have "list_all2 (\<lambda>p q. fst p = fst q \<and> reproduces ta (snd q) (snd p) i') ma zs"
    unfolding list_all2_conv_all_nth using both(1,3) look(1) by simp
  ultimately show "inducer_ok i' \<and> grows i i' \<and> reproduces_both ta tb (JObject ma) vb v i'"
    using r sorted z(2) mb(1) by (simp add: reproduces_both_def render_object)
qed

lemma induces_all: "induces ta tb n va"
proof (induction va)
  case (JString a)
  then show ?case by (rule induces_string)
next
  case (JArray xs)
  then show ?case by (rule induces_array)
next
  case (JObject ma)
  then show ?case by (intro induces_object) (auto simp: snds.simps)
qed (auto simp: induces_def reproduces_both_def reproduces_def grows_refl split: if_splits)


section \<open>The whole observation\<close>

definition clean_trace :: "ObservedTask \<Rightarrow> bool" where
  "clean_trace t \<longleftrightarrow> (\<forall>s \<in> set (obs_steps t). json_wf (obs_args s) \<and> hole_free (obs_args s))"

definition workflow_of :: "ObservedTask \<Rightarrow> WorkflowStep list" where
  "workflow_of t = map (\<lambda>s. \<lparr>step_action = obs_action s, step_args = obs_args s\<rparr>) (obs_steps t)"

lemma agree_actions:
  "agree_steps n (zip xs ys) = Inr () \<Longrightarrow> length xs = length ys \<Longrightarrow> map obs_action xs = map obs_action ys"
proof (induction xs arbitrary: n ys)
  case (Cons x xs)
  then show ?case by (cases ys) (auto split: if_splits)
qed simp

lemma induce_workflow_ok:
  assumes run: "induce_workflow a b = Inr (workflow, i)" and clean: "clean_trace a" "clean_trace b"
    and len: "length (obs_steps a) = length (obs_steps b)"
  shows "inducer_ok i \<and> list_all2 (\<lambda>(first, second) w. step_action w = obs_action first \<and>
    reproduces_both (obs_task a) (obs_task b) (obs_args first) (obs_args second) (step_args w) i)
    (zip (obs_steps a) (obs_steps b)) workflow"
proof -
  let ?Q = "\<lambda>p w j. step_action w = obs_action (fst (snd p)) \<and>
    reproduces_both (obs_task a) (obs_task b) (obs_args (fst (snd p))) (obs_args (snd (snd p))) (step_args w) j"
  let ?ps = "enumerate 0 (zip (obs_steps a) (obs_steps b))"
  have "inducer_ok i \<and> grows Inducer_new i \<and> list_all2 (\<lambda>p w. ?Q p w i) ?ps workflow"
  proof (rule st_map_run [where I = inducer_ok and le = grows and Q = ?Q, OF run [unfolded induce_workflow_def] inducer_ok_new])
    fix p s w s'
    assume p: "p \<in> set ?ps" "inducer_ok s" and
      f: "(case p of (n, first, second) \<Rightarrow> \<lambda>i.
        case parameterize (obs_task a) (obs_task b) n (obs_args first) (obs_args second) None i of
          Inl e \<Rightarrow> Inl e | Inr (args, i1) \<Rightarrow> Inr (\<lparr>step_action = obs_action first, step_args = args\<rparr>, i1)) s = Inr (w, s')"
    obtain n x y where pn: "p = (n, x, y)" by (cases p)
    have "(x, y) \<in> set (zip (obs_steps a) (obs_steps b))" using p(1) by (auto simp: pn in_set_enumerate_eq in_set_zip)
    then have mem: "x \<in> set (obs_steps a)" "y \<in> set (obs_steps b)" by (rule set_zip_leftD, rule set_zip_rightD)
    from f pn obtain v where v: "parameterize (obs_task a) (obs_task b) n (obs_args x) (obs_args y) None s = Inr (v, s')"
        "w = \<lparr>step_action = obs_action x, step_args = v\<rparr>"
      by (auto split: sum.splits)
    from inducesD [OF induces_all v(1) p(2)] mem clean v(2) pn
    show "inducer_ok s' \<and> grows s s' \<and> ?Q p w s'" by (simp add: clean_trace_def)
  qed (rule grows_refl, erule (1) grows_trans, erule conjE, rule conjI, assumption, erule (1) reproduces_both_mono)
  then have i: "inducer_ok i" and l: "length ?ps = length workflow" and
      q: "\<forall>k < length ?ps. ?Q (?ps ! k) (workflow ! k) i"
    unfolding list_all2_conv_all_nth by blast+
  have "?ps ! k = (k, zip (obs_steps a) (obs_steps b) ! k)" if "k < length ?ps" for k
    using that by (simp add: nth_enumerate_eq)
  with i l q show ?thesis unfolding list_all2_conv_all_nth case_prod_unfold by simp
qed

lemma captured_bindings_exact:
  assumes "distinct (map param_name ps)" "prm \<in> set ps" "param_value p d prm \<noteq> []"
  shows "bt_get (captured_bindings ps p d b) (param_name prm) = Some (param_value p d prm)"
  using assms
proof (induction ps arbitrary: b)
  case (Cons q ps)
  show ?case
  proof (cases "prm = q")
    case True
    obtain v where v: "bt_get (captured_bindings (q # ps) p d b) (param_name prm) = Some v"
      using captured_bindings_bound [OF Cons.prems(2,3)] by blast
    have "param_name r \<noteq> param_name q" if "r \<in> set ps" for r using Cons.prems(1) that by (metis distinct.simps(2) image_eqI list.simps(9) list.set_map)
    with v True Cons.prems(3) show ?thesis
      unfolding captured_bindings_Cons by (auto dest!: captured_bindings_cases simp: map_simps)
  next
    case False
    with Cons show ?thesis by (simp add: captured_bindings_Cons)
  qed
qed simp


lemma induced_template_fields:
  "tmpl_parameters (induced_template a w ps pat) = ps" "tmpl_workflow (induced_template a w ps pat) = w"
  "tmpl_status (induced_template a w ps pat) = Candidate"
  by (simp_all add: induced_template_def case_prod_unfold)

lemma induce_InrE:
  assumes "induce a b = Inr t"
  obtains workflow i where "length (obs_steps a) = length (obs_steps b)"
    "map obs_action (obs_steps a) = map obs_action (obs_steps b)"
    "induce_workflow a b = Inr (workflow, i)" "tmpl_workflow t = workflow"
    "tmpl_parameters t = ind_parameters i" "tmpl_status t = Candidate"
    "0 < length (ind_parameters i)" "length (ind_parameters i) \<le> MAX_INDUCED_PARAMETERS"
    "obs_succeeded a" "obs_succeeded b" "template_schema_issues t = []"
proof -
  from assms have g: "obs_succeeded a" "obs_succeeded b" "length (obs_steps a) = length (obs_steps b)"
      "agree_steps 0 (zip (obs_steps a) (obs_steps b)) = Inr ()"
    by (auto simp: induce_def split: if_splits sum.splits)
  from assms g obtain workflow i pat where w: "induce_workflow a b = Inr (workflow, i)"
      "t = induced_template a workflow (ind_parameters i) pat" "ind_parameters i \<noteq> []"
      "length (ind_parameters i) \<le> MAX_INDUCED_PARAMETERS" "template_schema_issues t = []"
    by (auto simp: induce_def Let_def split: if_splits sum.splits)
  show ?thesis
    by (rule that [OF g(3) agree_actions [OF g(4,3)] w(1)]) (use w g in \<open>simp_all add: induced_template_fields\<close>)
qed

lemma captures_of_bind:
  assumes "template_bind t p d = Inr (e, bs)" "distinct (map param_name (tmpl_parameters t))"
    and "list_all rule_param (tmpl_parameters t)" "source_text ''task'' p d = task"
  shows "captures (tmpl_parameters t) task bs"
  unfolding captures_def
proof
  fix prm assume m: "prm \<in> set (tmpl_parameters t)"
  from assms(1) have acc: "list_all (param_accepts p d) (tmpl_parameters t)"
      and bs: "bs = captured_bindings (tmpl_parameters t) p d []"
    by (simp_all add: template_bind_Inr_iff capture_all_Inr_iff)
  have "rule_param prm" using m assms(3) by (simp add: list_all_iff)
  then have req: "param_source prm = ''task''" "param_required prm" by (simp_all add: rule_param_def)
  have v: "param_value p d prm \<noteq> []" using m acc req param_accepts_required by (simp add: list_all_iff)
  then have "capture task prm = Some (param_value p d prm)"
    by (auto simp: param_value_def req assms(4) split: option.splits)
  with captured_bindings_exact [OF assms(2) m v] bs
  show "\<exists>v. capture task prm = Some v \<and> bt_get bs (param_name prm) = Some v" by blast
qed

lemma rendered_workflow:
  assumes "list_all2 (\<lambda>s w. step_action w = obs_action s \<and> reproduces task (step_args w) (obs_args s) i) steps ws"
    and "captures (ind_parameters i) task bs" "render_steps ws bs = Inr rs"
  shows "rs = map (\<lambda>s. \<lparr>step_action = obs_action s, step_args = obs_args s\<rparr>) steps"
proof -
  have "list_all2 (\<lambda>w r. (case render_value (step_args w) bs of Inl e \<Rightarrow> Inl e
      | Inr a \<Rightarrow> Inr \<lparr>step_action = step_action w, step_args = a\<rparr>) = Inr r) ws rs"
    using assms(3) by (simp add: render_steps_def try_map_Inr_iff)
  then show ?thesis
    using assms(1,2) by (auto simp: list_all2_conv_all_nth reproduces_def intro!: nth_equalityI split: sum.splits)
qed

text \<open>C17: an induced template reproduces both runs it was induced from. Whenever the parameter names of
  an induced template are distinct and binding accepts the request text of one of the two
  observations, the bound workflow is exactly the sequence of steps that was observed in that
  run, action by action and argument by argument. The observed arguments must be JSON maps in
  key order (as parsed) without a literal placeholder opener. The template is a candidate, never
  active, and carries between one and eight parameters.\<close>

theorem induced_template_reproduces:
  assumes "induce a b = Inr t" and "clean_trace a" and "clean_trace b"
    and "distinct (map param_name (tmpl_parameters t))"
  shows "tmpl_status t = Candidate \<and> 0 < length (tmpl_parameters t) \<and> length (tmpl_parameters t) \<le> 8 \<and>
    (\<forall>run p d e bs. run = a \<or> run = b \<longrightarrow> source_text ''task'' p d = obs_task run \<longrightarrow>
       template_bind t p d = Inr (e, bs) \<longrightarrow> exp_workflow e = workflow_of run)"
proof -
  from assms(1) obtain workflow i where len: "length (obs_steps a) = length (obs_steps b)"
    and acts: "map obs_action (obs_steps a) = map obs_action (obs_steps b)"
    and run: "induce_workflow a b = Inr (workflow, i)" and t: "tmpl_workflow t = workflow"
      "tmpl_parameters t = ind_parameters i" "tmpl_status t = Candidate"
      "0 < length (ind_parameters i)" "length (ind_parameters i) \<le> MAX_INDUCED_PARAMETERS"
    by (rule induce_InrE)
  from induce_workflow_ok [OF run assms(2,3) len] have ok: "inducer_ok i" and
    both: "length workflow = length (obs_steps a)" "\<And>k. k < length (obs_steps a) \<Longrightarrow>
      step_action (workflow ! k) = obs_action (obs_steps a ! k) \<and>
      reproduces (obs_task a) (step_args (workflow ! k)) (obs_args (obs_steps a ! k)) i \<and>
      reproduces (obs_task b) (step_args (workflow ! k)) (obs_args (obs_steps b ! k)) i"
    using len by (auto simp: list_all2_conv_all_nth reproduces_both_def)
  have act: "obs_action (obs_steps a ! k) = obs_action (obs_steps b ! k)" if "k < length (obs_steps a)" for k
    using acts that len by (metis nth_map)
  have rep: "list_all2 (\<lambda>s w. step_action w = obs_action s \<and> reproduces (obs_task run) (step_args w) (obs_args s) i)
      (obs_steps run) workflow" if "run = a \<or> run = b" for run
    using that both act len by (auto simp: list_all2_conv_all_nth)
  have params: "list_all rule_param (tmpl_parameters t)" using ok t(2) by (simp add: inducer_ok_def)
  have "exp_workflow e = workflow_of run"
    if "run = a \<or> run = b" "source_text ''task'' p d = obs_task run" "template_bind t p d = Inr (e, bs)" for run p d e bs
  proof -
    have "render_steps workflow bs = Inr (exp_workflow e)"
      using that(3) t(1) by (auto simp: template_bind_Inr_iff)
    from rendered_workflow [OF rep [OF that(1)] _ this] captures_of_bind [OF that(3) assms(4) params that(2)] t(2)
    show ?thesis by (simp add: workflow_of_def)
  qed
  with t show ?thesis by (simp add: MAX_INDUCED_PARAMETERS_def)
qed


definition demo_run :: "string \<Rightarrow> ObservedTask" where
  "demo_run f = \<lparr>obs_task = ''archive report '' @ f @ '' for good now'',
     obs_steps = [ObservedStep_new ''delete_file'' (json_object [(''path'', JString f)])], obs_succeeded = True\<rparr>"

definition demo_request :: "string \<Rightarrow> ActionProposal" where
  "demo_request f = \<lparr>prop_tool = ''task'', prop_args = JObject [(''task'', JString (obs_task (demo_run f)))]\<rparr>"

definition demo_induced :: ExperienceTemplate where
  "demo_induced = (case induce (demo_run ''x.md'') (demo_run ''y.md'') of Inr t \<Rightarrow> t | Inl _ \<Rightarrow> demo_template)"

theorem induced_template_reproduces_witness:
  "\<exists>e bs. template_bind demo_induced (demo_request ''y.md'') ''/w'' = Inr (e, bs) \<and> exp_workflow e = workflow_of (demo_run ''y.md'')"
proof -
  have "\<not> isl (induce (demo_run ''x.md'') (demo_run ''y.md''))" by code_simp
  then have i: "induce (demo_run ''x.md'') (demo_run ''y.md'') = Inr demo_induced"
    by (cases "induce (demo_run ''x.md'') (demo_run ''y.md'')") (auto simp: demo_induced_def)
  have c: "clean_trace (demo_run ''x.md'')" "clean_trace (demo_run ''y.md'')" by code_simp+
  have d: "distinct (map param_name (tmpl_parameters demo_induced))" by code_simp
  have s: "source_text ''task'' (demo_request ''y.md'') ''/w'' = obs_task (demo_run ''y.md'')" by code_simp
  have "\<not> isl (template_bind demo_induced (demo_request ''y.md'') ''/w'')" by code_simp
  then obtain e bs where b: "template_bind demo_induced (demo_request ''y.md'') ''/w'' = Inr (e, bs)"
    by (cases "template_bind demo_induced (demo_request ''y.md'') ''/w''") auto
  from induced_template_reproduces [OF i c d] s b show ?thesis by blast
qed

end
