(* ===== verification/Learning.thy ===== *)
theory Learning
  imports Induce
begin

text \<open>
  Learning from a finished session (\<open>experience/trace_event.rs\<close>, \<open>trace_reader.rs\<close>,
  \<open>learning_l1.rs\<close>, \<open>process_log.rs\<close>): the typed trace events, selection of the last round, the
  necessity gate, the deterministic distiller and the candidate writer. Decoding one JSON trace
  entry is serde's derived decoder and an argument of \<open>select_round\<close>; a distiller is the record of
  the two trait methods.
\<close>

section \<open>Trace events\<close>

definition TRACE_SCHEMA_VERSION :: nat where "TRACE_SCHEMA_VERSION = 1"

datatype TraceEvent =
    Submitted
  | Accepted
  | AgentStarted
  | AlreadyStarted
  | Reasoning
  | TurnCompleted
  | ToolCall string "string option" "string option"
  | ToolResult string "string option"
  | EventFailed string string
  | Delegate string string "string list"
  | Legacy string

fun event_label :: "TraceEvent \<Rightarrow> string" where
  "event_label Submitted = ''submitted''"
| "event_label Accepted = ''accepted''"
| "event_label AgentStarted = ''agent_started''"
| "event_label AlreadyStarted = ''already_started''"
| "event_label Reasoning = ''reasoning''"
| "event_label TurnCompleted = ''turn_completed''"
| "event_label (ToolCall name _ _) = ''tool_call:'' @ name"
| "event_label (ToolResult name _) = ''tool_result:'' @ name"
| "event_label (EventFailed phase _) = ''failed:'' @ phase"
| "event_label (Delegate agent _ _) = ''delegate:'' @ agent"
| "event_label (Legacy l) = l"

fun is_noisy_repeat :: "TraceEvent \<Rightarrow> bool" where
  "is_noisy_repeat Reasoning = True"
| "is_noisy_repeat _ = False"

fun is_legacy :: "TraceEvent \<Rightarrow> bool" where
  "is_legacy (Legacy _) = True"
| "is_legacy _ = False"

fun is_tool_call :: "TraceEvent \<Rightarrow> bool" where
  "is_tool_call (ToolCall _ _ _) = True"
| "is_tool_call _ = False"

section \<open>Selecting the round\<close>

datatype RoundSelection = LastRound

record RoundTrace =
  round_task :: string
  round_events :: "TraceEvent list"

definition round_labels :: "RoundTrace \<Rightarrow> string list" where
  "round_labels r = map event_label (round_events r)"

fun rposition :: "('a \<Rightarrow> bool) \<Rightarrow> 'a list \<Rightarrow> nat option" where
  "rposition P [] = None"
| "rposition P (x # xs) =
     (case rposition P xs of
        Some i \<Rightarrow> Some (Suc i)
      | None \<Rightarrow> (if P x then Some 0 else None))"

fun decode_all :: "(json \<Rightarrow> TraceEvent option) \<Rightarrow> json list \<Rightarrow> TraceEvent list option" where
  "decode_all decode [] = Some []"
| "decode_all decode (v # vs) =
     (case decode v of
        None \<Rightarrow> None
      | Some e \<Rightarrow> map_option ((#) e) (decode_all decode vs))"

definition round_task_of :: "json \<Rightarrow> nat \<Rightarrow> string" where
  "round_task_of session rounds_before =
     (case Option.bind (Option.bind (json_get session ''round_tasks'') as_array)
             (\<lambda>tasks. if rounds_before < length tasks then as_str (tasks ! rounds_before) else None) of
        Some t \<Rightarrow> t
      | None \<Rightarrow> (case get_str session ''task'' of Some t \<Rightarrow> t | None \<Rightarrow> []))"

definition select_round :: "(json \<Rightarrow> TraceEvent option) \<Rightarrow> json \<Rightarrow> RoundSelection \<Rightarrow> RoundTrace option" where
  "select_round decode session selection =
     (if get_str session ''status'' \<noteq> Some ''completed'' then None
      else case Option.bind (json_get session ''trace'') as_array of
        None \<Rightarrow> None
      | Some trace \<Rightarrow>
          (case decode_all decode trace of
             None \<Rightarrow> None
           | Some events \<Rightarrow>
               (if list_ex is_legacy events then None
                else case rposition (\<lambda>e. e = Submitted) events of
                  None \<Rightarrow> None
                | Some last_submitted \<Rightarrow>
                    (let rounds_before = length (filter (\<lambda>e. e = Submitted) (take last_submitted events));
                         rnd = drop last_submitted events
                     in if \<not> list_ex (\<lambda>e. e = TurnCompleted) rnd then None
                        else case selection of
                          LastRound \<Rightarrow>
                            Some \<lparr>round_task = round_task_of session rounds_before, round_events = rnd\<rparr>))))"

section \<open>The necessity gate\<close>

definition MAX_CLEAN_TOOL_STEPS :: nat where "MAX_CLEAN_TOOL_STEPS = 3"

datatype RejectReason =
    TerminalNotSuccess
  | NoToolEvidence
  | RepeatNoImprovement
  | DistillUnavailable
  | ToolBoundaryInvalid
  | UnstableRound

fun reject_label :: "RejectReason \<Rightarrow> string" where
  "reject_label TerminalNotSuccess = ''terminal_not_success''"
| "reject_label NoToolEvidence = ''no_action_evidence''"
| "reject_label RepeatNoImprovement = ''repeat_no_improvement''"
| "reject_label DistillUnavailable = ''distill_unavailable''"
| "reject_label ToolBoundaryInvalid = ''tool_boundary_invalid''"
| "reject_label UnstableRound = ''unstable_shape''"

datatype Necessity = Reject RejectReason | CleanShort | Dirty

definition task_signature :: "string \<Rightarrow> string" where
  "task_signature task = to_lowercase (join_str '' '' (split_whitespace task))"

definition necessity :: "RoundTrace \<Rightarrow> bool \<Rightarrow> bool \<Rightarrow> Necessity" where
  "necessity rnd terminal_success existing_same_signature =
     (if \<not> terminal_success then Reject TerminalNotSuccess
      else
        (let tool_calls = length (filter is_tool_call (round_events rnd))
         in if tool_calls = 0 then Reject NoToolEvidence
            else if existing_same_signature then Reject RepeatNoImprovement
            else if tool_calls \<le> MAX_CLEAN_TOOL_STEPS then CleanShort
            else Dirty))"

fun event_ephemeral :: "TraceEvent \<Rightarrow> bool" where
  "event_ephemeral (ToolCall _ _ (Some summary)) = likely_ephemeral_identifier summary"
| "event_ephemeral _ = False"

definition round_has_ephemeral_identifier :: "RoundTrace \<Rightarrow> bool" where
  "round_has_ephemeral_identifier rnd = list_ex event_ephemeral (round_events rnd)"

section \<open>Distilling\<close>

definition candidate_name :: "string \<Rightarrow> string" where
  "candidate_name task = ''cand_'' @ replace_char (CHR '' '') (CHR ''_'') (task_signature task)"

fun usable_args :: "json \<Rightarrow> bool" where
  "usable_args (JObject m) \<longleftrightarrow> m \<noteq> []"
| "usable_args _ \<longleftrightarrow> False"

fun check_steps :: "WorkflowStep list \<Rightarrow> string + unit" where
  "check_steps [] = Inr ()"
| "check_steps (step # steps) =
     (if step_action step \<notin> set CANONICAL_TOOLS then Inl (''unknown tool '' @ quoted_name (step_action step))
      else if \<not> usable_args (step_args step) then
        Inl (''tool '' @ quoted_name (step_action step) @ '' has no usable arguments'')
      else check_steps steps)"

definition validate_tool_boundary :: "Experience \<Rightarrow> string + unit" where
  "validate_tool_boundary candidate = check_steps (exp_workflow candidate)"

record L1Distiller =
  distill :: "RoundTrace \<Rightarrow> Experience option"
  accepts_dirty :: bool

fun distill_steps :: "TraceEvent list \<Rightarrow> WorkflowStep list option" where
  "distill_steps [] = Some []"
| "distill_steps (ToolCall name _ args_summary # events) =
     (case canonical_tool name of
        None \<Rightarrow> None
      | Some tool \<Rightarrow>
          (if tool \<noteq> ''exec_command'' then None
           else case args_summary of
             None \<Rightarrow> None
           | Some summary \<Rightarrow>
               map_option ((#) \<lparr>step_action = tool, step_args = json_object [(''cmd'', JString summary)]\<rparr>)
                 (distill_steps events)))"
| "distill_steps (_ # events) = distill_steps events"

definition PENDING_VALIDATION :: string where
  "PENDING_VALIDATION = ''candidate.pending_validation''"

definition deterministic_distill :: "RoundTrace \<Rightarrow> Experience option" where
  "deterministic_distill rnd =
     (case distill_steps (round_events rnd) of
        None \<Rightarrow> None
      | Some [] \<Rightarrow> None
      | Some (step # steps) \<Rightarrow>
          Some \<lparr>exp_name = candidate_name (round_task rnd),
                exp_trigger = \<lparr>pat_tool = step_action step, command_pattern = None\<rparr>,
                exp_preconditions = [\<lparr>pred_key = ''cwd.exists'', pred_expected = JBool True\<rparr>],
                exp_workflow = step # steps,
                exp_postconditions = [\<lparr>pred_key = PENDING_VALIDATION, pred_expected = JBool True\<rparr>],
                exp_verification = [], exp_failure_policy = StopAndReport, exp_undo = Unsupported,
                exp_status = Draft\<rparr>)"

definition DeterministicDistiller :: L1Distiller where
  "DeterministicDistiller = \<lparr>distill = deterministic_distill, accepts_dirty = False\<rparr>"

section \<open>Writing the candidate\<close>

definition write_candidate :: "Experience \<Rightarrow> ExperienceStore \<Rightarrow> string + ExperienceStore" where
  "write_candidate draft s = map_sum store_error_text id (store_insert (draft\<lparr>exp_status := Candidate\<rparr>) s)"

definition sink_once :: "RoundTrace \<Rightarrow> bool \<Rightarrow> bool \<Rightarrow> L1Distiller \<Rightarrow> ExperienceStore
    \<Rightarrow> (string + string option) \<times> ExperienceStore" where
  "sink_once rnd terminal_success existing_same_signature distiller s =
     (case necessity rnd terminal_success existing_same_signature of
        Reject reason \<Rightarrow> (Inr (Some (reject_label reason)), s)
      | n \<Rightarrow>
          (if n = Dirty \<and> \<not> accepts_dirty distiller then (Inr (Some (reject_label DistillUnavailable)), s)
           else if round_has_ephemeral_identifier rnd then (Inr (Some (reject_label UnstableRound)), s)
           else case distill distiller rnd of
             None \<Rightarrow> (Inr (Some (reject_label DistillUnavailable)), s)
           | Some draft \<Rightarrow>
               (case validate_tool_boundary draft of
                  Inl _ \<Rightarrow> (Inr (Some (reject_label ToolBoundaryInvalid)), s)
                | Inr _ \<Rightarrow>
                    (case write_candidate draft s of
                       Inl e \<Rightarrow> (Inl e, s)
                     | Inr s' \<Rightarrow> (Inr None, s')))))"

section \<open>The process log\<close>

datatype ProcessActor = ActorExperience | ActorLlm | ActorTool

record ProcessStep =
  proc_actor :: ProcessActor
  proc_action :: string
  proc_detail :: string

definition proc_experience :: "string \<Rightarrow> string \<Rightarrow> ProcessStep" where
  "proc_experience action detail = \<lparr>proc_actor = ActorExperience, proc_action = action, proc_detail = detail\<rparr>"

definition proc_llm :: "string \<Rightarrow> string \<Rightarrow> ProcessStep" where
  "proc_llm action detail = \<lparr>proc_actor = ActorLlm, proc_action = action, proc_detail = detail\<rparr>"

definition proc_tool :: "string \<Rightarrow> string \<Rightarrow> ProcessStep" where
  "proc_tool action detail = \<lparr>proc_actor = ActorTool, proc_action = action, proc_detail = detail\<rparr>"

fun actor_tag :: "ProcessActor \<Rightarrow> string" where
  "actor_tag ActorExperience = [CHR 0xE7, CHR 0xBB, CHR 0x8F, CHR 0xE9, CHR 0xAA, CHR 0x8C]"
| "actor_tag ActorLlm = ''LLM''"
| "actor_tag ActorTool = [CHR 0xE5, CHR 0xB7, CHR 0xA5, CHR 0xE5, CHR 0x85, CHR 0xB7]"

definition process_line :: "nat \<Rightarrow> ProcessStep \<Rightarrow> string" where
  "process_line index step =
     ''['' @ nat_digits (index + 1) @ ''] '' @ actor_tag (proc_actor step) @ '': '' @ proc_action step @
     (if proc_detail step = [] then [] else '' '' @ [CHR 0xE2, CHR 0x80, CHR 0x94] @ '' '' @ proc_detail step)"

definition render_process_log :: "ProcessStep list \<Rightarrow> string" where
  "render_process_log steps =
     join_str [CHR 0x0A] (map (\<lambda>(index, step). process_line index step) (enumerate 0 steps))"


section \<open>What a selected round is\<close>

lemma rposition_SomeD:
  "rposition P xs = Some i \<Longrightarrow> i < length xs \<and> P (xs ! i) \<and> list_all (\<lambda>x. \<not> P x) (drop (Suc i) xs)"
proof (induction xs arbitrary: i)
  case (Cons x xs)
  have none: "rposition P ys = None \<Longrightarrow> list_all (\<lambda>x. \<not> P x) ys" for ys
    by (induction ys) (auto split: option.splits if_splits)
  from Cons.prems show ?case
  proof (cases "rposition P xs")
    case None
    with Cons.prems none show ?thesis by (auto split: if_splits)
  next
    case (Some j)
    with Cons.prems Cons.IH [of j] show ?thesis by auto
  qed
qed simp

lemma decode_all_Some_iff: "decode_all decode vs = Some es \<longleftrightarrow> list_all2 (\<lambda>v e. decode v = Some e) vs es"
  by (induction vs arbitrary: es) (auto simp: list_all2_Cons1 split: option.splits)

text \<open>Only a completed, typed and evidenced round is learned from. A selected round belongs to a
  session whose status is completed and whose whole trace decodes without a legacy entry; its
  events are the end of that trace, starting at the last submission and containing no other,
  and they include the completion of the turn.\<close>

theorem selected_round_is_evidence:
  assumes "select_round decode session sel = Some r"
  shows "get_str session ''status'' = Some ''completed'' \<and>
    (\<exists>trace events i. Option.bind (json_get session ''trace'') as_array = Some trace \<and>
       list_all2 (\<lambda>v e. decode v = Some e) trace events \<and> \<not> list_ex is_legacy events \<and>
       round_events r = drop i events) \<and>
    (\<exists>rest. round_events r = Submitted # rest \<and> Submitted \<notin> set rest \<and> TurnCompleted \<in> set rest)"
proof -
  from assms have status: "get_str session ''status'' = Some ''completed''"
    by (simp add: select_round_def split: if_splits)
  with assms obtain trace events i where tr: "Option.bind (json_get session ''trace'') as_array = Some trace"
    and ev: "decode_all decode trace = Some events" and leg: "\<not> list_ex is_legacy events"
    and pos: "rposition (\<lambda>e. e = Submitted) events = Some i" and evs: "round_events r = drop i events"
    and fin: "list_ex (\<lambda>e. e = TurnCompleted) (drop i events)"
    by (auto simp: select_round_def Let_def split: option.splits if_splits RoundSelection.splits)
  from rposition_SomeD [OF pos] have i: "i < length events" "events ! i = Submitted"
    "list_all (\<lambda>x. x \<noteq> Submitted) (drop (Suc i) events)" by auto
  then have d: "drop i events = Submitted # drop (Suc i) events" by (metis Cons_nth_drop_Suc)
  have "TurnCompleted \<in> set (drop (Suc i) events)" using fin unfolding d by (auto simp: list_ex_iff)
  with i(3) d evs have "\<exists>rest. round_events r = Submitted # rest \<and> Submitted \<notin> set rest \<and> TurnCompleted \<in> set rest"
    by (auto simp: list_all_iff)
  with status tr ev leg evs show ?thesis by (auto simp: decode_all_Some_iff)
qed

definition demo_decode :: "json \<Rightarrow> TraceEvent option" where
  "demo_decode v = (case get_str v ''kind'' of
     Some k \<Rightarrow> (if k = ''submitted'' then Some Submitted else if k = ''turnCompleted'' then Some TurnCompleted else None)
   | None \<Rightarrow> None)"

definition demo_session :: json where
  "demo_session = json_object [(''status'', JString ''completed''), (''task'', JString ''t''),
     (''trace'', JArray [json_object [(''kind'', JString ''submitted'')], json_object [(''kind'', JString ''submitted'')],
        json_object [(''kind'', JString ''turnCompleted'')]])]"

theorem selected_round_is_evidence_witness:
  "\<exists>r. select_round demo_decode demo_session LastRound = Some r \<and> Submitted \<notin> set (tl (round_events r))"
proof -
  have "select_round demo_decode demo_session LastRound \<noteq> None" by code_simp
  then obtain r where r: "select_round demo_decode demo_session LastRound = Some r" by blast
  from selected_round_is_evidence [OF r] r show ?thesis by auto
qed

section \<open>Learning cannot activate\<close>

lemma sink_once_cases:
  obtains "snd (sink_once rnd ok seen d s) = s"
    | draft s' where "sink_once rnd ok seen d s = (Inr None, s')" "store_insert (draft\<lparr>exp_status := Candidate\<rparr>) s = Inr s'"
      "distill d rnd = Some draft" "validate_tool_boundary draft = Inr ()" "ok" "\<not> seen"
      "\<not> round_has_ephemeral_identifier rnd" "list_ex is_tool_call (round_events rnd)"
proof (cases "snd (sink_once rnd ok seen d s) = s")
  case False
  have tools: "ok \<and> \<not> seen \<and> list_ex is_tool_call (round_events rnd)" if "\<not> (\<exists>r. necessity rnd ok seen = Reject r)"
    using that by (auto simp: necessity_def Let_def list_ex_iff filter_empty_conv split: if_splits)
  from False have n: "\<not> (\<exists>r. necessity rnd ok seen = Reject r)" by (auto simp: sink_once_def)
  with False obtain draft where draft: "distill d rnd = Some draft" "validate_tool_boundary draft = Inr ()"
    "\<not> round_has_ephemeral_identifier rnd"
    and r: "sink_once rnd ok seen d s = (case write_candidate draft s of Inl e \<Rightarrow> (Inl e, s) | Inr s' \<Rightarrow> (Inr None, s'))"
    by (auto simp: sink_once_def split: Necessity.splits if_splits option.splits sum.splits)
  with False obtain s' where "write_candidate draft s = Inr s'" by (auto split: sum.splits)
  with r have "sink_once rnd ok seen d s = (Inr None, s')" "store_insert (draft\<lparr>exp_status := Candidate\<rparr>) s = Inr s'"
    by (auto simp: write_candidate_def map_sum_Inr_iff)
  with draft tools [OF n] show thesis using that(2) by blast
qed (use that in blast)

text \<open>C19: learning writes candidates and nothing else. For every distiller, whatever status its draft
  claims, one pass of the learning sink over a reachable store either leaves the store
  untouched or appends exactly one schema-valid CANDIDATE; the store stays reachable and the
  Gate is offered exactly the same experiences and templates for every proposal.\<close>

theorem learning_never_activates:
  assumes "store_reachable s" and "sink_once rnd ok seen d s = (r, s')"
  shows "(s' = s \<or> (r = Inr None \<and> (\<exists>e. experiences s' = experiences s @ [e] \<and> exp_status e = Candidate \<and> is_schema_valid e)))
    \<and> store_reachable s' \<and> (\<forall>p. candidates_for s' p = candidates_for s p \<and> templates_for s' p = templates_for s p)"
proof (rule sink_once_cases [of rnd ok seen d s])
  assume "snd (sink_once rnd ok seen d s) = s"
  with assms show ?thesis by simp
next
  fix draft s'' assume o: "sink_once rnd ok seen d s = (Inr None, s'')"
    and ins: "store_insert (draft\<lparr>exp_status := Candidate\<rparr>) s = Inr s''"
  with assms(2) have eq: "s'' = s'" "r = Inr None" by simp_all
  let ?e = "draft\<lparr>exp_status := Candidate\<rparr>"
  from ins eq have new: "experiences s' = experiences s @ [?e]" "templates s' = templates s" "is_schema_valid ?e"
    by (auto simp: store_insert_def Let_def is_schema_valid_def split: if_splits)
  from ins eq assms(1) have re: "store_reachable s'" by (auto intro: reach_step step_insert)
  note wfs = store_reachable_imp_wf [OF assms(1)] store_reachable_imp_wf [OF re]
  have "candidates_for s' p = candidates_for s p \<and> templates_for s' p = templates_for s p" for p
    unfolding candidates_for_wf [OF wfs(1)] candidates_for_wf [OF wfs(2)] templates_for_wf [OF wfs(1)]
      templates_for_wf [OF wfs(2)] new by simp
  with re new eq show ?thesis by (auto intro!: exI [of _ ?e])
qed

definition demo_round :: RoundTrace where
  "demo_round = \<lparr>round_task = ''Run tests'', round_events = [Submitted, ToolCall ''exec_command'' None (Some ''cargo test''), TurnCompleted]\<rparr>"

theorem learning_never_activates_witness:
  "\<exists>e s'. sink_once demo_round True False DeterministicDistiller ExperienceStore_default = (Inr None, s') \<and>
     experiences s' = [e] \<and> exp_status e = Candidate"
proof -
  obtain r s' where o: "sink_once demo_round True False DeterministicDistiller ExperienceStore_default = (r, s')" by fastforce
  have "fst (sink_once demo_round True False DeterministicDistiller ExperienceStore_default) = Inr None"
    "length (experiences (snd (sink_once demo_round True False DeterministicDistiller ExperienceStore_default))) = 1"
    by code_simp+
  with o have r: "r = Inr None" "length (experiences s') = 1" by simp_all
  then have "s' \<noteq> ExperienceStore_default" by (auto simp: ExperienceStore_default_def)
  with learning_never_activates [OF reach_default o] r o show ?thesis by (auto simp: ExperienceStore_default_def)
qed

end
