(* ===== verification/Exec.thy ===== *)
theory Exec
  imports Policy Safety Redact
begin

text \<open>
  The shared step executor (\<open>exec.rs\<close>): policy check, workspace fence, backup before mutation,
  the file actions, the process action with its allow list and deny list, the run manifest and
  restore. A step is a computation over an explicit state (file system and recorded backup
  entries) that returns an error or a result together with the state it leaves behind, so an
  error after a partial effect is visible.

  Spawning a process, the process environment and the target platform are the record
  \<open>Host\<close>, a parameter of the steps; the JSON codec of the manifest and the clock are parameters
  of the manifest functions.
\<close>

section \<open>Data\<close>

record StepError =
  se_outcome :: string
  se_detail :: string

definition err_invalid :: "string \<Rightarrow> string \<Rightarrow> StepError" where
  "err_invalid action detail = \<lparr>se_outcome = ''invalid'', se_detail = action @ '': '' @ detail\<rparr>"

definition err_execution :: "string \<Rightarrow> string \<Rightarrow> StepError" where
  "err_execution action detail = \<lparr>se_outcome = ''execution_error'', se_detail = action @ '': '' @ detail\<rparr>"

record StepExecution =
  sx_evidence :: string
  sx_side_effects :: "string list"
  sx_content :: string
  sx_backed_up :: bool
  sx_exit_code :: "int option"
  sx_stdout :: string
  sx_stderr :: string

record BackupEntry =
  be_rel_path :: string
  be_backup_path :: "string option"
  be_existed :: bool
  be_directory :: bool

record BackupManifest =
  bm_schema_version :: nat
  bm_workspace :: string
  bm_session_id :: "string option"
  bm_created_at :: nat
  bm_entries :: "BackupEntry list"

definition BACKUP_SCHEMA_VERSION :: nat where "BACKUP_SCHEMA_VERSION = 1"
definition BACKUP_MANIFEST_FILE :: string where "BACKUP_MANIFEST_FILE = ''manifest.json''"
definition DEFAULT_EXEC_TIMEOUT_SECS :: u64 where "DEFAULT_EXEC_TIMEOUT_SECS = 60"
definition DEFAULT_EXEC_OUTPUT_CAP :: u64 where "DEFAULT_EXEC_OUTPUT_CAP = 20000"

definition DANGEROUS_PROGRAM_DENYLIST :: "string list" where
  "DANGEROUS_PROGRAM_DENYLIST = [
    ''cmd'', ''powershell'', ''pwsh'', ''wscript'', ''cscript'', ''mshta'', ''rundll32'', ''reg'',
    ''regedit'', ''format'', ''diskpart'', ''bcdedit'', ''shutdown'', ''taskkill'', ''netsh'',
    ''sc'', ''schtasks'', ''at'', ''vssadmin'', ''wbadmin'', ''takeown'', ''icacls'', ''cacls'',
    ''attrib'', ''robocopy'', ''xcopy'', ''subst'', ''mklink'', ''setx'', ''wmic'']"

definition DANGEROUS_ARG_PATTERNS :: "string list" where
  "DANGEROUS_ARG_PATTERNS = [
    ''del /f /s'', ''del /f /q'', ''rd /s /q'', ''rmdir /s /q'', ''format '', ''shutdown '',
    ''remove-item -recurse -force'', ''rm -rf'', ''rmdir /s'', ''reg delete'', ''reg add'',
    ''invoke-expression'', ''iex('', ''-encodedcommand'', ''downloadstring'', ''| iex'',
    ''curl | sh'', ''curl | bash'', ''wget | sh'']"

text \<open>What the operating system reports about one spawned process.\<close>

datatype spawn_result =
    SpawnFailed string
  | WaitFailed string
  | TimedOut string string
  | Exited "int option" string string

record Host =
  host_windows :: bool
  host_env_vars :: "string list"
  host_spawn :: "string \<Rightarrow> string list \<Rightarrow> path \<Rightarrow> (string \<times> string) list \<Rightarrow> string list \<Rightarrow> u64
    \<Rightarrow> fsys \<Rightarrow> spawn_result \<times> fsys"

record StepContext =
  ctx_workspace :: path
  canonical_workspace :: path
  ctx_policy :: CapabilityPolicy
  run_root :: "path option"
  scratch :: "path option"
  backup_root :: "path option"

definition StepContext_new :: "fsys \<Rightarrow> path \<Rightarrow> CapabilityPolicy \<Rightarrow> StepContext" where
  "StepContext_new fs workspace policy =
     \<lparr>ctx_workspace = workspace,
      canonical_workspace = (case fs_canonicalize fs workspace of Inr c \<Rightarrow> c | Inl _ \<Rightarrow> workspace),
      ctx_policy = policy, run_root = None, scratch = None, backup_root = None\<rparr>"

definition with_run_root :: "path \<Rightarrow> StepContext \<Rightarrow> StepContext" where
  "with_run_root root c = c\<lparr>run_root := Some root\<rparr>"

definition with_scratch :: "path \<Rightarrow> StepContext \<Rightarrow> StepContext" where
  "with_scratch root c = c\<lparr>scratch := Some root\<rparr>"

definition with_backup :: "path \<Rightarrow> StepContext \<Rightarrow> StepContext" where
  "with_backup root c = c\<lparr>backup_root := Some root\<rparr>"

definition fs_base :: "StepContext \<Rightarrow> path" where
  "fs_base c = (case scratch c of Some root \<Rightarrow> root | None \<Rightarrow> canonical_workspace c)"

section \<open>Step computations\<close>

record exec_state =
  st_fs :: fsys
  st_backups :: "BackupEntry list option"

type_synonym 'a step_m = "exec_state \<Rightarrow> (StepError + 'a) \<times> exec_state"

definition sm_return :: "'a \<Rightarrow> 'a step_m" where
  "sm_return x = (\<lambda>s. (Inr x, s))"

definition sm_fail :: "StepError \<Rightarrow> 'a step_m" where
  "sm_fail e = (\<lambda>s. (Inl e, s))"

definition sm_bind :: "'a step_m \<Rightarrow> ('a \<Rightarrow> 'b step_m) \<Rightarrow> 'b step_m" where
  "sm_bind m f = (\<lambda>s. case m s of (Inl e, s') \<Rightarrow> (Inl e, s') | (Inr x, s') \<Rightarrow> f x s')"

definition sm_get :: "(exec_state \<Rightarrow> 'a) \<Rightarrow> 'a step_m" where
  "sm_get f = (\<lambda>s. (Inr (f s), s))"

definition sm_lift :: "StepError + 'a \<Rightarrow> 'a step_m" where
  "sm_lift r = (\<lambda>s. (r, s))"

text \<open>One file-system call whose error becomes an \<open>execution_error\<close> of the step.\<close>

definition sm_io :: "(io_error \<Rightarrow> StepError) \<Rightarrow> (fsys \<Rightarrow> io_error + fsys) \<Rightarrow> unit step_m" where
  "sm_io err f = (\<lambda>s. case f (st_fs s) of
     Inl e \<Rightarrow> (Inl (err e), s)
   | Inr fs' \<Rightarrow> (Inr (), s\<lparr>st_fs := fs'\<rparr>))"

definition required_str :: "WorkflowStep \<Rightarrow> string \<Rightarrow> StepError + string" where
  "required_str step key =
     (case get_str (step_args step) key of
        Some v \<Rightarrow> Inr v
      | None \<Rightarrow> Inl (err_invalid (step_action step) (''missing string arg '' @ quoted_name key)))"

definition resolve :: "StepContext \<Rightarrow> WorkflowStep \<Rightarrow> string \<Rightarrow> path step_m" where
  "resolve c step key =
     sm_bind (sm_lift (required_str step key)) (\<lambda>raw.
     sm_bind (sm_get (\<lambda>s. safe_join (st_fs s) (fs_base c) raw)) (\<lambda>r.
       case r of
         Inr p \<Rightarrow> sm_return p
       | Inl e \<Rightarrow> sm_fail (err_execution (step_action step) (''path guard rejected: '' @ guard_error_text e))))"

definition push_backup :: "BackupEntry \<Rightarrow> unit step_m" where
  "push_backup entry = (\<lambda>s. (Inr (), s\<lparr>st_backups := map_option (\<lambda>es. es @ [entry]) (st_backups s)\<rparr>))"

definition recorded :: "BackupEntry list \<Rightarrow> string \<Rightarrow> bool" where
  "recorded entries rel = list_ex (\<lambda>entry. be_rel_path entry = rel) entries"

definition copy_to_backup :: "WorkflowStep \<Rightarrow> path \<Rightarrow> path \<Rightarrow> unit step_m" where
  "copy_to_backup step target copy =
     sm_bind
       (case path_parent copy of
          None \<Rightarrow> sm_return ()
        | Some parent \<Rightarrow>
            sm_io (\<lambda>e. err_execution (step_action step) (''cannot create backup dir: '' @ io_text e))
              (\<lambda>fs. fs_create_dir_all fs parent))
       (\<lambda>_. sm_io (\<lambda>e. err_execution (step_action step) (''backup failed: '' @ io_text e))
              (\<lambda>fs. fs_copy fs target copy))"

definition ensure_backup :: "StepContext \<Rightarrow> WorkflowStep \<Rightarrow> path \<Rightarrow> bool step_m" where
  "ensure_backup c step target =
     sm_bind (sm_get st_backups) (\<lambda>backups.
       case (backup_root c, backups, path_strip_prefix target (canonical_workspace c)) of
         (Some root, Some entries, Some relp) \<Rightarrow>
           (let rel = replace_char (CHR 0x5C) (CHR ''/'') (rel_text relp)
            in if recorded entries rel then sm_return True
               else
                 sm_bind (sm_get (\<lambda>s. fs_exists (st_fs s) target)) (\<lambda>existed.
                 sm_bind
                   (if existed then
                      sm_bind (copy_to_backup step target (root @ path_of_text rel))
                        (\<lambda>_. sm_return (Some (path_text (root @ path_of_text rel))))
                    else sm_return None)
                   (\<lambda>backup_path.
                 sm_bind (sm_get (\<lambda>s. fs_is_dir (st_fs s) target)) (\<lambda>isdir.
                 sm_bind (push_backup \<lparr>be_rel_path = rel, be_backup_path = backup_path,
                                        be_existed = existed, be_directory = isdir\<rparr>)
                   (\<lambda>_. sm_return True)))))
       | _ \<Rightarrow> sm_return False)"

definition record_created_dir :: "StepContext \<Rightarrow> path \<Rightarrow> unit step_m" where
  "record_created_dir c target =
     sm_bind (sm_get (\<lambda>s. fs_exists (st_fs s) target)) (\<lambda>there.
     sm_bind (sm_get st_backups) (\<lambda>backups.
       if there then sm_return ()
       else case (path_strip_prefix target (canonical_workspace c), backups) of
              (Some relp, Some entries) \<Rightarrow>
                (let rel = replace_char (CHR 0x5C) (CHR ''/'') (rel_text relp)
                 in if recorded entries rel then sm_return ()
                    else push_backup \<lparr>be_rel_path = rel, be_backup_path = None,
                                      be_existed = False, be_directory = True\<rparr>)
            | _ \<Rightarrow> sm_return ()))"

definition create_parents :: "WorkflowStep \<Rightarrow> path \<Rightarrow> unit step_m" where
  "create_parents step target =
     (case path_parent target of
        None \<Rightarrow> sm_return ()
      | Some parent \<Rightarrow>
          sm_io (\<lambda>e. err_execution (step_action step) (''cannot create parent dir: '' @ io_text e))
            (\<lambda>fs. fs_create_dir_all fs parent))"

section \<open>File actions\<close>

definition file_execution :: "string \<Rightarrow> string list \<Rightarrow> bool \<Rightarrow> StepExecution" where
  "file_execution evidence effects backed =
     \<lparr>sx_evidence = evidence, sx_side_effects = effects, sx_content = [], sx_backed_up = backed,
      sx_exit_code = None, sx_stdout = [], sx_stderr = []\<rparr>"

definition relative_or_full :: "StepContext \<Rightarrow> path \<Rightarrow> string" where
  "relative_or_full c target =
     (case path_strip_prefix target (canonical_workspace c) of
        Some r \<Rightarrow> replace_char (CHR 0x5C) (CHR ''/'') (rel_text r)
      | None \<Rightarrow> path_text target)"

definition write_file :: "StepContext \<Rightarrow> WorkflowStep \<Rightarrow> bool \<Rightarrow> StepExecution step_m" where
  "write_file c step appending =
     sm_bind (resolve c step ''path'') (\<lambda>target.
     sm_bind (sm_lift (required_str step ''content'')) (\<lambda>content.
     sm_bind (ensure_backup c step target) (\<lambda>backed_up.
     sm_bind (create_parents step target) (\<lambda>_.
     sm_bind
       (if appending then
          sm_io (\<lambda>e. err_execution (step_action step)
                        (''failed to open '' @ path_text target @ '': '' @ io_text e))
            (\<lambda>fs. fs_append_bytes fs target content)
        else
          sm_io (\<lambda>e. err_execution (step_action step)
                        (''failed to write '' @ path_text target @ '': '' @ io_text e))
            (\<lambda>fs. fs_write_bytes fs target content))
       (\<lambda>_.
         (let rel = relative_or_full c target; verb = (if appending then ''appended'' else ''wrote'')
          in sm_return (file_execution
               (verb @ '' '' @ rel @ '' ('' @ nat_digits (length content) @ '' bytes)'')
               [verb @ '' '' @ rel] backed_up)))))))"

definition mkdir :: "StepContext \<Rightarrow> WorkflowStep \<Rightarrow> StepExecution step_m" where
  "mkdir c step =
     sm_bind (resolve c step ''path'') (\<lambda>target.
     sm_bind (record_created_dir c target) (\<lambda>_.
     sm_bind (sm_io (\<lambda>e. err_execution (step_action step) (''failed to create dir: '' @ io_text e))
                (\<lambda>fs. fs_create_dir_all fs target)) (\<lambda>_.
       sm_return (file_execution (''created dir '' @ path_text target)
                   [''mkdir '' @ path_text target] False))))"

definition require_source :: "WorkflowStep \<Rightarrow> path \<Rightarrow> unit step_m" where
  "require_source step source =
     sm_bind (sm_get (\<lambda>s. fs_exists (st_fs s) source)) (\<lambda>there.
       if there then sm_return ()
       else sm_fail (err_invalid (step_action step) (''source not found: '' @ path_text source)))"

definition copy_file :: "StepContext \<Rightarrow> WorkflowStep \<Rightarrow> StepExecution step_m" where
  "copy_file c step =
     sm_bind (resolve c step ''source'') (\<lambda>source.
     sm_bind (resolve c step ''target'') (\<lambda>target.
     sm_bind (require_source step source) (\<lambda>_.
     sm_bind (ensure_backup c step target) (\<lambda>_.
     sm_bind (create_parents step target) (\<lambda>_.
     sm_bind (sm_io (\<lambda>e. err_execution (step_action step) (''copy failed: '' @ io_text e))
                (\<lambda>fs. fs_copy fs source target)) (\<lambda>_.
       (let what = path_text source @ '' -> '' @ path_text target
        in sm_return (file_execution (''copied '' @ what) [''copy '' @ what] True))))))))"

definition move_file :: "StepContext \<Rightarrow> WorkflowStep \<Rightarrow> StepExecution step_m" where
  "move_file c step =
     sm_bind (resolve c step ''source'') (\<lambda>source.
     sm_bind (resolve c step ''target'') (\<lambda>target.
     sm_bind (require_source step source) (\<lambda>_.
     sm_bind (ensure_backup c step source) (\<lambda>_.
     sm_bind (ensure_backup c step target) (\<lambda>_.
     sm_bind (create_parents step target) (\<lambda>_.
     sm_bind (sm_io (\<lambda>e. err_execution (step_action step) (''move failed: '' @ io_text e))
                (\<lambda>fs. fs_rename fs source target)) (\<lambda>_.
       (let what = path_text source @ '' -> '' @ path_text target
        in sm_return (file_execution (''moved '' @ what) [''move '' @ what] True)))))))))"

definition delete_file :: "StepContext \<Rightarrow> WorkflowStep \<Rightarrow> StepExecution step_m" where
  "delete_file c step =
     sm_bind (resolve c step ''path'') (\<lambda>target.
     sm_bind (ensure_backup c step target) (\<lambda>_.
     sm_bind (sm_get (\<lambda>s. fs_exists (st_fs s) target)) (\<lambda>there.
     sm_bind (if there then
                sm_io (\<lambda>e. err_execution (step_action step) (''delete failed: '' @ io_text e))
                  (\<lambda>fs. fs_remove_file fs target)
              else sm_return ()) (\<lambda>_.
       sm_return (file_execution (''deleted '' @ path_text target)
                   [''delete '' @ path_text target] True)))))"

definition read_file :: "StepContext \<Rightarrow> WorkflowStep \<Rightarrow> StepExecution step_m" where
  "read_file c step =
     sm_bind (resolve c step ''path'') (\<lambda>target.
       (let max = unat (read_max_bytes (ctx_policy c))
        in sm_bind (sm_get (\<lambda>s. fs_len (st_fs s) target)) (\<lambda>meta.
             case meta of
               Inl e \<Rightarrow> sm_fail (err_execution (step_action step)
                          (''cannot stat '' @ path_text target @ '': '' @ io_text e))
             | Inr len \<Rightarrow>
                 if len > max then
                   sm_fail (err_invalid (step_action step)
                     (''file is '' @ nat_digits len @ '' bytes, above the read cap '' @ nat_digits max @
                      '' (raise fs_read.max_bytes or grant a special_grant_bytes)''))
                 else
                   sm_bind (sm_get (\<lambda>s. fs_read_bytes (st_fs s) target)) (\<lambda>bytes.
                     case bytes of
                       Inl e \<Rightarrow> sm_fail (err_execution (step_action step)
                                  (''cannot read '' @ path_text target @ '': '' @ io_text e))
                     | Inr content \<Rightarrow>
                         sm_return ((file_execution
                           (''read '' @ path_text target @ '' ('' @ nat_digits len @ '' bytes, cap '' @
                            nat_digits max @ '')'') [] False)\<lparr>sx_content := innate_redact (utf8_lossy content)\<rparr>)))))"

section \<open>Processes\<close>

definition program_stem :: "string \<Rightarrow> string" where
  "program_stem program =
     (let name = to_lowercase (last (split_pred is_separator program))
      in case strip_suffix name ''.exe'' of Some s \<Rightarrow> s | None \<Rightarrow> name)"

definition resolve_program :: "fsys \<Rightarrow> StepContext \<Rightarrow> WorkflowStep \<Rightarrow> string \<Rightarrow> StepError + string" where
  "resolve_program fs c step program =
     (if contains_str program ''/'' \<or> contains_str program [CHR 0x5C] \<or> contains_str program '':'' then
        (if starts_with program ''/'' then
           (case fs_canonicalize fs (path_of_text program) of
              Inl e \<Rightarrow> Inl (err_invalid (step_action step) (''program not found: '' @ io_text e))
            | Inr canonical \<Rightarrow>
                (let in_workspace = path_starts_with canonical (canonical_workspace c);
                     in_run_root = (case run_root c of Some root \<Rightarrow> path_starts_with canonical root | None \<Rightarrow> False)
                 in if \<not> (in_workspace \<or> in_run_root) then
                      Inl (err_invalid (step_action step)
                        (''program outside workspace/run root: '' @ path_text canonical))
                    else Inr (path_text canonical)))
         else
           (case safe_join fs (canonical_workspace c) program of
              Inr p \<Rightarrow> Inr (path_text p)
            | Inl e \<Rightarrow> Inl (err_invalid (step_action step) (''program path rejected: '' @ guard_error_text e))))
      else case run_root c of
             Some root \<Rightarrow> (if fs_is_file fs (root @ [program]) then Inr (path_text (root @ [program])) else Inr program)
           | None \<Rightarrow> Inr program)"

definition denylist_hit :: "string \<Rightarrow> string list \<Rightarrow> string option" where
  "denylist_hit program args =
     (let stem = program_stem program
      in if stem \<in> set DANGEROUS_PROGRAM_DENYLIST then Some (''dangerous program: '' @ stem)
         else let joined = to_lowercase (program @ '' '' @ join_str '' '' args)
              in map_option (\<lambda>pattern. ''dangerous pattern: '' @ pattern)
                   (find (\<lambda>pattern. contains_str joined pattern) DANGEROUS_ARG_PATTERNS))"

definition is_sensitive_env :: "string \<Rightarrow> bool" where
  "is_sensitive_env key =
     (let upper = to_uppercase key
      in if upper = ''PATH'' \<or> upper = ''PATHEXT'' \<or> upper = ''SYSTEMROOT'' \<or> upper = ''WINDIR'' then False
         else ends_with upper ''_KEY'' \<or> ends_with upper ''_TOKEN'' \<or> ends_with upper ''_SECRET''
           \<or> ends_with upper ''_PASSWORD'' \<or> contains_str upper ''SECRET'' \<or> contains_str upper ''CREDENTIAL''
           \<or> contains_str upper ''APIKEY'' \<or> contains_str upper ''API_KEY'')"

primrec floor_boundary :: "string \<Rightarrow> nat \<Rightarrow> nat" where
  "floor_boundary s 0 = 0"
| "floor_boundary s (Suc n) = (if is_char_boundary s (Suc n) then Suc n else floor_boundary s n)"

definition ellipsis :: string where
  "ellipsis = [CHR 0xE2, CHR 0x80, CHR 0xA6]"

definition cap_output :: "string \<Rightarrow> u64 \<Rightarrow> string" where
  "cap_output s cap =
     (if length s \<le> unat cap then s
      else let stop = floor_boundary s (unat cap)
           in take stop s @ ellipsis @ ''[truncated '' @ nat_digits (length s - stop) @ '' bytes]'')"

definition exec_execution :: "string \<Rightarrow> int option \<Rightarrow> string \<Rightarrow> string \<Rightarrow> StepExecution" where
  "exec_execution evidence code out err =
     \<lparr>sx_evidence = evidence, sx_side_effects = [], sx_content = out, sx_backed_up = False,
      sx_exit_code = code, sx_stdout = out, sx_stderr = err\<rparr>"

definition exit_evidence :: "string \<Rightarrow> int option \<Rightarrow> string \<Rightarrow> string \<Rightarrow> string" where
  "exit_evidence program code out err =
     ''exec '' @ program @ '' -> exit='' @ (case code of Some i \<Rightarrow> int_text i | None \<Rightarrow> ''signal'') @
     '' (stdout '' @ nat_digits (length out) @ '' bytes, stderr '' @ nat_digits (length err) @ '' bytes)'' @
     (if err = [] then [] else ''; stderr head: '' @ take_chars 120 err)"

text \<open>A pipe reader keeps nothing when the bytes are not UTF-8: \<open>read_to_string\<close> leaves its buffer empty.\<close>

definition pipe_text :: "string \<Rightarrow> string" where
  "pipe_text bytes = (if utf8_valid bytes then bytes else [])"

definition collect_output :: "Host \<Rightarrow> StepContext \<Rightarrow> WorkflowStep \<Rightarrow> string \<Rightarrow> string list \<Rightarrow> path option
    \<Rightarrow> (string \<times> string) list \<Rightarrow> StepExecution step_m" where
  "collect_output h c step program args step_cwd env_additions =
     (if scratch c \<noteq> None then
        sm_return (exec_execution
          (''dry-run exec '' @ program @ '' (args '' @ nat_digits (length args) @ '', policy '' @
           ex_mode (pol_exec (ctx_policy c)) @ '', not spawned)'') None [] [])
      else
        (let cap = max (ex_output_cap (pol_exec (ctx_policy c))) 1;
             timeout = min (max (ex_timeout_secs (pol_exec (ctx_policy c))) 1) 3600
         in sm_bind (\<lambda>s. (resolve_program (st_fs s) c step program, s)) (\<lambda>resolved s.
              (case host_spawn h resolved args
                      (case step_cwd of Some d \<Rightarrow> d | None \<Rightarrow> canonical_workspace c)
                      env_additions (filter is_sensitive_env (host_env_vars h)) timeout (st_fs s) of
                 (result, fs') \<Rightarrow>
                   (let s' = s\<lparr>st_fs := fs'\<rparr>;
                        clean = (\<lambda>bytes. innate_redact (cap_output (pipe_text bytes) cap))
                    in case result of
                         SpawnFailed e \<Rightarrow> (Inl (err_execution (step_action step) (''spawn failed: '' @ e)), s')
                       | WaitFailed e \<Rightarrow> (Inl (err_execution (step_action step) (''wait failed: '' @ e)), s')
                       | TimedOut out err \<Rightarrow>
                           (Inr (exec_execution
                              (''exec '' @ program @ '' -> TIMEOUT after '' @ nat_digits (unat timeout) @
                               ''s (output capped at '' @ nat_digits (unat cap) @ '' bytes)'')
                              None (clean out) (clean err)), s')
                       | Exited code out err \<Rightarrow>
                           (Inr (exec_execution (exit_evidence program code (clean out) (clean err))
                              code (clean out) (clean err)), s'))))))"

definition string_args :: "WorkflowStep \<Rightarrow> StepError + string list" where
  "string_args step =
     (case Option.bind (json_get (step_args step) ''args'') as_array of
        None \<Rightarrow> Inr []
      | Some values \<Rightarrow>
          try_map (\<lambda>v. case as_str v of
                         Some t \<Rightarrow> Inr t
                       | None \<Rightarrow> Inl (err_invalid (step_action step) ''args must be an array of strings'')) values)"

definition env_pairs :: "WorkflowStep \<Rightarrow> (string \<times> string) list" where
  "env_pairs step =
     (case json_get (step_args step) ''env'' of
        Some (JObject m) \<Rightarrow> concat (map (\<lambda>(k, v). case as_str v of Some t \<Rightarrow> [(k, t)] | None \<Rightarrow> []) m)
      | _ \<Rightarrow> [])"

text \<open>The command a step asks for: program, arguments, working directory, environment.\<close>

definition command_shape :: "Host \<Rightarrow> fsys \<Rightarrow> StepContext \<Rightarrow> WorkflowStep \<Rightarrow> bool
    \<Rightarrow> StepError + (string \<times> string list \<times> path option \<times> (string \<times> string) list)" where
  "command_shape h fs c step legacy =
     (if legacy then
        (case required_str step ''cmd'' of
           Inl e \<Rightarrow> Inl e
         | Inr command \<Rightarrow>
             Inr (if host_windows h then ''cmd.exe'' else ''sh'',
                  [if host_windows h then ''/C'' else ''-c'', command], None, []))
      else
        (case required_str step ''program'' of
           Inl e \<Rightarrow> Inl e
         | Inr program \<Rightarrow>
             (case string_args step of
                Inl e \<Rightarrow> Inl e
              | Inr args \<Rightarrow>
                  (case get_str (step_args step) ''cwd'' of
                     None \<Rightarrow> Inr (program, args, None, env_pairs step)
                   | Some cwd \<Rightarrow>
                       (case safe_join fs (canonical_workspace c) cwd of
                          Inl e \<Rightarrow> Inl (err_invalid (step_action step) (''cwd rejected: '' @ guard_error_text e))
                        | Inr d \<Rightarrow> Inr (program, args, Some d, env_pairs step))))))"

definition denied :: "string \<Rightarrow> StepError" where
  "denied detail = \<lparr>se_outcome = ''invalid'', se_detail = detail\<rparr>"

definition program_allowed :: "ExecPolicy \<Rightarrow> string \<Rightarrow> bool" where
  "program_allowed p program \<longleftrightarrow>
     ex_allow p = [] \<or> list_ex (\<lambda>entry. program_stem entry = program_stem program) (ex_allow p)"

definition exec_program :: "Host \<Rightarrow> StepContext \<Rightarrow> WorkflowStep \<Rightarrow> bool \<Rightarrow> StepExecution step_m" where
  "exec_program h c step legacy =
     sm_bind (\<lambda>s. (command_shape h (st_fs s) c step legacy, s)) (\<lambda>(program, args, step_cwd, env_additions).
       (let pol = pol_exec (ctx_policy c)
        in if ex_mode pol \<noteq> EXEC_ALLOWLIST then
             sm_fail (denied (''policy denied step '' @ quoted_name (step_action step) @ '': exec (exec=off)''))
           else if legacy \<and> \<not> ex_allow_legacy_shell pol then
             sm_fail (denied (''policy denied step '' @ quoted_name (step_action step)
                              @ '': exec (legacy shell not allowed)''))
           else if \<not> program_allowed pol program then
             sm_fail (denied (''exec '' @ quoted_name program @ '' is not allowed by policy (allow: ''
                              @ join_str '','' (ex_allow pol) @ '')''))
           else case denylist_hit program args of
                  Some reason \<Rightarrow>
                    sm_fail (denied (''denylist refused step '' @ quoted_name (step_action step) @ '': '' @ reason))
                | None \<Rightarrow> collect_output h c step program args step_cwd env_additions))"

section \<open>One step\<close>

definition execute_step :: "Host \<Rightarrow> StepContext \<Rightarrow> WorkflowStep \<Rightarrow> StepExecution step_m" where
  "execute_step h c step =
     (case policy_check (ctx_policy c) (step_action step) of
        Inl d \<Rightarrow> sm_fail (denied (''policy denied step '' @ quoted_name (pd_action d) @ '': '' @ pd_family d
                                  @ '' ('' @ pd_reason d @ '')''))
      | Inr _ \<Rightarrow>
          (if step_action step = ''write_file'' then write_file c step False
           else if step_action step = ''append_file'' then write_file c step True
           else if step_action step = ''mkdir'' then mkdir c step
           else if step_action step = ''copy_file'' then copy_file c step
           else if step_action step = ''move_file'' then move_file c step
           else if step_action step = ''delete_file'' then delete_file c step
           else if step_action step = ''read_file'' then read_file c step
           else if step_action step = ''exec'' then exec_program h c step False
           else if step_action step = ''exec_command'' then exec_program h c step True
           else sm_fail (err_invalid (step_action step)
                  ''unsupported workflow action for the embedded executor'')))"

section \<open>Run manifest and restore\<close>

definition write_backup_manifest :: "(BackupManifest \<Rightarrow> string) \<Rightarrow> nat \<Rightarrow> fsys \<Rightarrow> path \<Rightarrow> path
    \<Rightarrow> string option \<Rightarrow> BackupEntry list \<Rightarrow> fsys \<times> (string + path)" where
  "write_backup_manifest print now fs root workspace session_id entries =
     (let manifest = \<lparr>bm_schema_version = BACKUP_SCHEMA_VERSION, bm_workspace = path_text workspace,
            bm_session_id = session_id, bm_created_at = now, bm_entries = entries\<rparr>;
          p = root @ [BACKUP_MANIFEST_FILE]
      in case fs_create_dir_all fs root of
           Inl e \<Rightarrow> (fs, Inl (io_text e))
         | Inr fs1 \<Rightarrow>
             (case fs_write_bytes fs1 p (print manifest) of
                Inl e \<Rightarrow> (fs1, Inl (io_text e))
              | Inr fs2 \<Rightarrow> (fs2, Inr p)))"

record RestoreReport =
  rr_restored :: "string list"
  rr_deleted :: "string list"

definition restore_entry :: "path \<Rightarrow> BackupEntry \<Rightarrow> fsys \<Rightarrow> fsys \<times> (string + bool)" where
  "restore_entry workspace entry fs =
     (case safe_join fs workspace (be_rel_path entry) of
        Inl e \<Rightarrow> (fs, Inl (''restore path guard rejected '' @ be_rel_path entry @ '': '' @ guard_error_text e))
      | Inr target \<Rightarrow>
          (case (be_backup_path entry, be_existed entry) of
             (Some copy, True) \<Rightarrow>
               (if \<not> fs_exists fs (path_of_text copy) then
                  (fs, Inl (''backup copy missing for '' @ be_rel_path entry))
                else case (case path_parent target of
                             None \<Rightarrow> Inr fs
                           | Some parent \<Rightarrow> fs_create_dir_all fs parent) of
                       Inl e \<Rightarrow> (fs, Inl (io_text e))
                     | Inr fs1 \<Rightarrow>
                         (case fs_copy fs1 (path_of_text copy) target of
                            Inl e \<Rightarrow> (fs1, Inl (io_text e))
                          | Inr fs2 \<Rightarrow> (fs2, Inr True)))
           | _ \<Rightarrow>
               (if \<not> fs_exists fs target then (fs, Inr False)
                else case (if fs_is_dir fs target then fs_remove_dir_all fs target
                           else fs_remove_file fs target) of
                       Inl e \<Rightarrow> (fs, Inl (io_text e))
                     | Inr fs1 \<Rightarrow> (fs1, Inr False))))"

fun restore_entries :: "path \<Rightarrow> BackupEntry list \<Rightarrow> RestoreReport \<Rightarrow> fsys \<Rightarrow> fsys \<times> (string + RestoreReport)" where
  "restore_entries workspace [] rep fs = (fs, Inr rep)"
| "restore_entries workspace (entry # rest) rep fs =
     (case restore_entry workspace entry fs of
        (fs', Inl e) \<Rightarrow> (fs', Inl e)
      | (fs', Inr True) \<Rightarrow>
          restore_entries workspace rest (rep\<lparr>rr_restored := rr_restored rep @ [be_rel_path entry]\<rparr>) fs'
      | (fs', Inr False) \<Rightarrow>
          restore_entries workspace rest (rep\<lparr>rr_deleted := rr_deleted rep @ [be_rel_path entry]\<rparr>) fs')"

definition restore_from_manifest :: "(string \<Rightarrow> string + BackupManifest) \<Rightarrow> fsys \<Rightarrow> path
    \<Rightarrow> fsys \<times> (string + RestoreReport)" where
  "restore_from_manifest parse fs manifest_path =
     (case fs_read_to_string fs manifest_path of
        Inl e \<Rightarrow> (fs, Inl (io_text e))
      | Inr json \<Rightarrow>
          (case parse json of
             Inl e \<Rightarrow> (fs, Inl (''invalid manifest: '' @ e))
           | Inr manifest \<Rightarrow>
               (if bm_schema_version manifest \<noteq> BACKUP_SCHEMA_VERSION then
                  (fs, Inl (''unsupported backup schema '' @ nat_digits (bm_schema_version manifest) @
                            '' (current '' @ nat_digits BACKUP_SCHEMA_VERSION @ '')''))
                else if path_parent manifest_path = None then
                  (fs, Inl ''manifest has no parent directory'')
                else restore_entries (path_of_text (bm_workspace manifest)) (rev (bm_entries manifest))
                       \<lparr>rr_restored = [], rr_deleted = []\<rparr> fs)))"


section \<open>Reasoning about step computations\<close>

text \<open>\<open>sm_ok I m Q\<close>: from a state satisfying \<open>I\<close>, \<open>m\<close> ends in a state satisfying \<open>I\<close> on every branch,
  and a value it returns satisfies \<open>Q\<close>.\<close>

definition sm_ok :: "(exec_state \<Rightarrow> bool) \<Rightarrow> 'a step_m \<Rightarrow> ('a \<Rightarrow> bool) \<Rightarrow> bool" where
  "sm_ok I m Q \<longleftrightarrow> (\<forall>s r s'. I s \<longrightarrow> m s = (r, s') \<longrightarrow> I s' \<and> (\<forall>x. r = Inr x \<longrightarrow> Q x))"

named_theorems step_rules \<open>rules that decompose a step computation\<close>

lemma sm_okI: "(\<And>s r s'. I s \<Longrightarrow> m s = (r, s') \<Longrightarrow> I s' \<and> (\<forall>x. r = Inr x \<longrightarrow> Q x)) \<Longrightarrow> sm_ok I m Q"
  unfolding sm_ok_def by blast

lemma sm_okD: "sm_ok I m Q \<Longrightarrow> I s \<Longrightarrow> m s = (r, s') \<Longrightarrow> I s' \<and> (\<forall>x. r = Inr x \<longrightarrow> Q x)"
  unfolding sm_ok_def by blast

lemma sm_bind_cases:
  assumes "sm_bind m f s = (r, s')"
  obtains e where "m s = (Inl e, s')" "r = Inl e"
  | x s1 where "m s = (Inr x, s1)" "f x s1 = (r, s')"
  using assms by (cases "m s") (auto simp: sm_bind_def split: sum.splits)

lemma sm_ok_bind:
  assumes m: "sm_ok I m Q" and f: "\<And>x. Q x \<Longrightarrow> sm_ok I (f x) R"
  shows "sm_ok I (sm_bind m f) R"
proof (rule sm_okI)
  fix s r s' assume s: "I s" and b: "sm_bind m f s = (r, s')"
  from b show "I s' \<and> (\<forall>x. r = Inr x \<longrightarrow> R x)"
  proof (cases rule: sm_bind_cases)
    case (1 err)
    then show ?thesis using sm_okD [OF m s] by simp
  next
    case (2 x s1)
    then have "I s1" "Q x" using sm_okD [OF m s 2(1)] by simp_all
    then show ?thesis using sm_okD [OF f] 2(2) by blast
  qed
qed

lemma sm_ok_return: "Q x \<Longrightarrow> sm_ok I (sm_return x) Q"
  by (simp add: sm_ok_def sm_return_def)

lemma sm_ok_fail [step_rules]: "sm_ok I (sm_fail e) Q"
  by (simp add: sm_ok_def sm_fail_def)

lemma sm_ok_get: "(\<And>s. I s \<Longrightarrow> Q (f s)) \<Longrightarrow> sm_ok I (sm_get f) Q"
  by (simp add: sm_ok_def sm_get_def)

lemma sm_ok_lift: "(\<And>x. r = Inr x \<Longrightarrow> Q x) \<Longrightarrow> sm_ok I (sm_lift r) Q"
  by (simp add: sm_ok_def sm_lift_def)

lemma sm_ok_io:
  "(\<And>s fs'. I s \<Longrightarrow> f (st_fs s) = Inr fs' \<Longrightarrow> I (s\<lparr>st_fs := fs'\<rparr>)) \<Longrightarrow> sm_ok I (sm_io err f) (\<lambda>_. True)"
  by (rule sm_okI) (auto simp: sm_io_def split: sum.splits)

lemma sm_ok_final: "sm_ok I m Q \<Longrightarrow> I s \<Longrightarrow> I (snd (m s))"
  by (cases "m s") (auto dest: sm_okD)

lemmas sm_defs = sm_bind_def sm_return_def sm_fail_def sm_get_def sm_lift_def sm_io_def

section \<open>Containment of the file actions\<close>

text \<open>All directories from the root down to the base of the run.\<close>

definition base_dirs :: "fsys \<Rightarrow> path \<Rightarrow> bool" where
  "base_dirs fs base \<longleftrightarrow> (\<forall>q. prefix q base \<longrightarrow> node_at fs q = Some DirNode)"

text \<open>The region a step may touch: below the base, and around the backup root when there is one.\<close>

definition region :: "StepContext \<Rightarrow> path \<Rightarrow> bool" where
  "region c q \<longleftrightarrow> prefix (fs_base c) q \<or>
     (case backup_root c of Some root \<Rightarrow> prefix root q \<or> prefix q root | None \<Rightarrow> False)"

definition confined :: "StepContext \<Rightarrow> fsys \<Rightarrow> exec_state \<Rightarrow> bool" where
  "confined c fs0 s \<longleftrightarrow> link_free (st_fs s) \<and> base_dirs (st_fs s) (fs_base c) \<and>
     (\<forall>q. \<not> region c q \<longrightarrow> node_at (st_fs s) q = node_at fs0 q)"

definition clean_comp :: "string \<Rightarrow> bool" where
  "clean_comp x \<longleftrightarrow> x \<noteq> [] \<and> x \<noteq> ''.'' \<and> x \<noteq> ''..'' \<and> CHR ''/'' \<notin> set x \<and> CHR 0x5C \<notin> set x"

definition plain_context :: "StepContext \<Rightarrow> bool" where
  "plain_context c \<longleftrightarrow> list_all clean_comp (fs_base c) \<and>
     (case backup_root c of Some root \<Rightarrow> list_all clean_comp root | None \<Rightarrow> True)"

lemma clean_no_dots: "list_all clean_comp p \<Longrightarrow> ''..'' \<notin> set p"
  by (auto simp: list_all_iff clean_comp_def)

lemma safe_clean: "safe_component x \<Longrightarrow> clean_comp x"
  by (simp add: safe_component_def clean_comp_def)

lemma rel_text_clean:
  assumes "list_all clean_comp r"
  shows "replace_char (CHR 0x5C) (CHR ''/'') (rel_text r) = rel_text r \<and> path_of_text (rel_text r) = r"
proof
  have "CHR 0x5C \<notin> set (rel_text r)"
    using set_join_str [of "''/''" r] assms by (auto simp: rel_text_def list_all_iff clean_comp_def)
  then show "replace_char (CHR 0x5C) (CHR ''/'') (rel_text r) = rel_text r" by (rule replace_char_id)
  show "path_of_text (rel_text r) = r"
  proof (cases r)
    case Nil
    then show ?thesis by (simp add: path_of_text_def rel_text_def split_char_def)
  next
    case (Cons x xs)
    then have "split_char (CHR ''/'') (rel_text r) = r"
      using assms unfolding rel_text_def by (intro split_join) (auto simp: list_all_iff clean_comp_def)
    then show ?thesis
      using assms by (auto simp: path_of_text_def list_all_iff clean_comp_def intro!: filter_True)
  qed
qed

lemma confined_put:
  assumes "confined c fs0 s" "region c q" "node_at (st_fs s) q \<noteq> Some DirNode" "\<And>t. n \<noteq> LinkNode t"
  shows "confined c fs0 (s\<lparr>st_fs := put_node q n (st_fs s)\<rparr>)"
  using assms by (auto simp: confined_def base_dirs_def link_free_put)

lemma confined_drop:
  assumes "confined c fs0 s" "region c q" "node_at (st_fs s) q \<noteq> Some DirNode"
  shows "confined c fs0 (s\<lparr>st_fs := drop_node q (st_fs s)\<rparr>)"
  using assms by (auto simp: confined_def base_dirs_def link_free_drop)

lemma confined_write:
  assumes "confined c fs0 s" "region c p" "''..'' \<notin> set p" "fs_open_write new (st_fs s) p = Inr fs'"
  shows "confined c fs0 (s\<lparr>st_fs := fs'\<rparr>)"
proof -
  have r: "resolve_path (st_fs s) p = p"
    using assms by (auto intro: resolve_link_free simp: confined_def)
  from assms(4) obtain x where "fs' = put_node p (FileNode (new x)) (st_fs s)"
      "node_at (st_fs s) p \<noteq> Some DirNode"
    by (rule fs_open_write_cases) (auto simp: r)
  with assms(1,2) show ?thesis by (auto intro: confined_put)
qed

lemma confined_mkdirs:
  "confined c fs0 s \<Longrightarrow> (\<And>q. prefix pre q \<Longrightarrow> prefix q (pre @ cs) \<Longrightarrow> q \<noteq> pre \<Longrightarrow>
      region c q \<or> node_at (st_fs s) q = Some DirNode) \<Longrightarrow>
   ''..'' \<notin> set (pre @ cs) \<Longrightarrow> fs_mkdirs (st_fs s) pre cs = Inr fs' \<Longrightarrow> confined c fs0 (s\<lparr>st_fs := fs'\<rparr>)"
proof (induction cs arbitrary: pre s)
  case Nil
  then show ?case by (cases s) auto
next
  case (Cons d cs)
  from Cons.prems(4) obtain fs1 where m: "fs_mkdir (st_fs s) (pre @ [d]) = Inr fs1"
      and rest: "fs_mkdirs fs1 (pre @ [d]) cs = Inr fs'" by (auto split: sum.splits)
  have loc: "locate (st_fs s) (pre @ [d]) = pre @ [d]"
    using Cons.prems by (auto intro: locate_link_free simp: confined_def)
  have here: "region c (pre @ [d]) \<or> node_at (st_fs s) (pre @ [d]) = Some DirNode"
    using Cons.prems(2) [of "pre @ [d]"] by simp
  have c1: "confined c fs0 (s\<lparr>st_fs := fs1\<rparr>)"
    using fs_mkdir_cases [OF m] loc here Cons.prems(1) by (auto intro: confined_put)
  have keep: "node_at fs1 q = Some DirNode" if "node_at (st_fs s) q = Some DirNode" for q
    using fs_mkdir_cases [OF m] that by auto
  have "confined c fs0 ((s\<lparr>st_fs := fs1\<rparr>)\<lparr>st_fs := fs'\<rparr>)"
  proof (rule Cons.IH [OF c1])
    fix q assume q: "prefix (pre @ [d]) q" "prefix q ((pre @ [d]) @ cs)" "q \<noteq> pre @ [d]"
    then have "prefix pre q" "q \<noteq> pre" by (auto dest: append_prefixD prefix_length_le)
    with q Cons.prems(2) [of q] keep show "region c q \<or> node_at (st_fs (s\<lparr>st_fs := fs1\<rparr>)) q = Some DirNode"
      by auto
  qed (use Cons.prems rest in auto)
  then show ?case by simp
qed

lemma confined_create_dir_all:
  assumes "confined c fs0 s" "\<And>q. prefix q p \<Longrightarrow> q \<noteq> [] \<Longrightarrow> region c q \<or> node_at (st_fs s) q = Some DirNode"
    "''..'' \<notin> set p" "fs_create_dir_all (st_fs s) p = Inr fs'"
  shows "confined c fs0 (s\<lparr>st_fs := fs'\<rparr>)"
  using assms confined_mkdirs [of c fs0 s "[]" p fs'] by (auto simp: fs_create_dir_all_def)

lemma below_base_prefix:
  assumes "confined c fs0 s" "prefix (fs_base c) p" "prefix q p"
  shows "region c q \<or> node_at (st_fs s) q = Some DirNode"
  using assms prefix_same_cases [OF assms(2,3)] by (auto simp: region_def confined_def base_dirs_def)

definition inside :: "StepContext \<Rightarrow> path \<Rightarrow> bool" where
  "inside c p \<longleftrightarrow> prefix (fs_base c) p \<and> list_all clean_comp p"

lemma resolve_inside [step_rules]:
  assumes "plain_context c"
  shows "sm_ok (confined c fs0) (resolve c step key) (inside c)"
  unfolding resolve_def
proof (rule sm_ok_bind [where Q = "\<lambda>_. True"])
  show "sm_ok (confined c fs0) (sm_lift (required_str step key)) (\<lambda>_. True)" by (simp add: sm_ok_lift)
  fix raw :: string
  have joined: "inside c p" if i: "confined c fs0 s" and j: "safe_join (st_fs s) (fs_base c) raw = Inr p" for s p
  proof -
    from j obtain root comps where r: "fs_canonicalize (st_fs s) (fs_base c) = Inr root" "p = root @ comps"
        "\<forall>x \<in> set comps. safe_component x" by (rule safe_join_Inr)
    have "root = fs_base c"
      using r(1) i assms resolve_link_free [of "st_fs s" "fs_base c"]
      by (auto simp: fs_canonicalize_def confined_def plain_context_def clean_no_dots split: if_splits)
    then show ?thesis using r assms by (auto simp: inside_def plain_context_def list_all_iff safe_clean)
  qed
  show "sm_ok (confined c fs0)
     (sm_bind (sm_get (\<lambda>s. safe_join (st_fs s) (fs_base c) raw))
       (\<lambda>r. case r of Inl e \<Rightarrow> sm_fail (err_execution (step_action step) (''path guard rejected: '' @ guard_error_text e))
            | Inr p \<Rightarrow> sm_return p)) (inside c)"
  proof (rule sm_ok_bind [where Q = "\<lambda>r. \<forall>p. r = Inr p \<longrightarrow> inside c p"])
    show "sm_ok (confined c fs0) (sm_get (\<lambda>s. safe_join (st_fs s) (fs_base c) raw)) (\<lambda>r. \<forall>p. r = Inr p \<longrightarrow> inside c p)"
      by (rule sm_ok_get) (use joined in blast)
    fix r :: "FsGuardError + path" assume "\<forall>p. r = Inr p \<longrightarrow> inside c p"
    then show "sm_ok (confined c fs0) (case r of
        Inl e \<Rightarrow> sm_fail (err_execution (step_action step) (''path guard rejected: '' @ guard_error_text e))
      | Inr p \<Rightarrow> sm_return p) (inside c)"
      by (cases r) (simp_all add: sm_ok_fail sm_ok_return)
  qed
qed

lemma create_parents_confined [step_rules]:
  assumes "inside c p"
  shows "sm_ok (confined c fs0) (create_parents step p) (\<lambda>_. True)"
proof (cases "path_parent p")
  case None
  then show ?thesis by (simp add: create_parents_def sm_ok_return)
next
  case (Some d)
  then have d: "prefix d p" "''..'' \<notin> set d"
    using assms clean_no_dots [of p]
    by (auto simp: path_parent_def inside_def prefixeq_butlast dest: in_set_butlastD split: if_splits)
  show ?thesis
    unfolding create_parents_def Some option.case
  proof (rule sm_ok_io)
    fix s fs' assume s: "confined c fs0 s" "fs_create_dir_all (st_fs s) d = Inr fs'"
    show "confined c fs0 (s\<lparr>st_fs := fs'\<rparr>)"
    proof (rule confined_create_dir_all [OF s(1) _ d(2) s(2)])
      fix q assume "prefix q d"
      then have "prefix q p" using d(1) by (rule prefix_order.trans)
      then show "region c q \<or> node_at (st_fs s) q = Some DirNode"
        using below_base_prefix [OF s(1)] assms unfolding inside_def by blast
    qed
  qed
qed


lemma sm_ok_seq: "sm_ok I m (\<lambda>_. True) \<Longrightarrow> (\<And>x. sm_ok I (f x) R) \<Longrightarrow> sm_ok I (sm_bind m f) R"
  by (rule sm_ok_bind)

lemma sm_ok_read: "sm_ok I (sm_get f) (\<lambda>_. True)"
  by (simp add: sm_ok_get)

lemma push_backup_confined: "sm_ok (confined c fs0) (push_backup e) (\<lambda>_. True)"
  by (rule sm_okI) (auto simp: push_backup_def confined_def)

lemma confined_copy:
  assumes "confined c fs0 s" "region c dst" "''..'' \<notin> set dst" "fs_copy (st_fs s) src dst = Inr fs'"
  shows "confined c fs0 (s\<lparr>st_fs := fs'\<rparr>)"
  using assms by (auto simp: fs_copy_def fs_write_bytes_def split: option.splits node.splits intro: confined_write)

lemma copy_to_backup_confined:
  assumes "plain_context c" "backup_root c = Some root" "list_all clean_comp rel"
  shows "sm_ok (confined c fs0) (copy_to_backup step target (root @ rel)) (\<lambda>_. True)"
  unfolding copy_to_backup_def
proof (rule sm_ok_seq)
  have clean: "list_all clean_comp (root @ rel)" using assms by (simp add: plain_context_def)
  have reg: "region c q" if "prefix q (root @ rel)" for q
    using assms(2) that prefix_same_cases [of q "root @ rel" root] by (auto simp: region_def)
  show "sm_ok (confined c fs0) (case path_parent (root @ rel) of None \<Rightarrow> sm_return ()
     | Some parent \<Rightarrow> sm_io (\<lambda>e. err_execution (step_action step) (''cannot create backup dir: '' @ io_text e))
         (\<lambda>fs. fs_create_dir_all fs parent)) (\<lambda>_. True)"
  proof (cases "path_parent (root @ rel)")
    case (Some d)
    then have d: "prefix d (root @ rel)" "''..'' \<notin> set d"
      using clean_no_dots [OF clean] by (auto simp: path_parent_def prefixeq_butlast dest: in_set_butlastD split: if_splits)
    show ?thesis
      unfolding Some option.case
    proof (rule sm_ok_io)
      fix s fs' assume s: "confined c fs0 s" "fs_create_dir_all (st_fs s) d = Inr fs'"
      show "confined c fs0 (s\<lparr>st_fs := fs'\<rparr>)"
        by (rule confined_create_dir_all [OF s(1) _ d(2) s(2)]) (use reg d(1) prefix_order.trans in blast)
    qed
  qed (simp add: sm_ok_return)
  show "sm_ok (confined c fs0) (sm_io (\<lambda>e. err_execution (step_action step) (''backup failed: '' @ io_text e))
      (\<lambda>fs. fs_copy fs target (root @ rel))) (\<lambda>_. True)" for x :: unit
    by (rule sm_ok_io, erule confined_copy) (use reg clean_no_dots [OF clean] in auto)
qed

lemma ensure_backup_confined [step_rules]:
  assumes "plain_context c" "inside c target"
  shows "sm_ok (confined c fs0) (ensure_backup c step target) (\<lambda>_. True)"
proof -
  have core: "sm_ok (confined c fs0)
      (sm_bind (sm_get (\<lambda>s. fs_exists (st_fs s) target)) (\<lambda>existed.
       sm_bind (if existed then sm_bind (copy_to_backup step target (root @ path_of_text rel)) (\<lambda>_. sm_return (Some (path_text (root @ path_of_text rel))))
                else sm_return None) (\<lambda>bp.
       sm_bind (sm_get (\<lambda>s. fs_is_dir (st_fs s) target)) (\<lambda>isdir.
       sm_bind (push_backup \<lparr>be_rel_path = rel, be_backup_path = bp, be_existed = existed, be_directory = isdir\<rparr>)
         (\<lambda>_. sm_return True))))) (\<lambda>_. True)"
    if "backup_root c = Some root" "list_all clean_comp (path_of_text rel)" for root rel
    using copy_to_backup_confined [OF assms(1) that]
    by (auto intro!: sm_ok_seq sm_ok_read push_backup_confined sm_ok_return)
  have "list_all clean_comp (path_of_text (replace_char (CHR 0x5C) (CHR ''/'') (rel_text relp)))"
    if "path_strip_prefix target (canonical_workspace c) = Some relp" for relp
  proof -
    have "list_all clean_comp relp" using assms(2) that by (simp add: inside_def)
    from rel_text_clean [OF this] this show ?thesis by simp
  qed
  with core show ?thesis
    unfolding ensure_backup_def Let_def
    by (intro sm_ok_seq sm_ok_read) (auto intro!: sm_ok_return split: option.splits)
qed

lemma record_created_dir_confined [step_rules]:
  "sm_ok (confined c fs0) (record_created_dir c target) (\<lambda>_. True)"
  unfolding record_created_dir_def Let_def
  by (intro sm_ok_seq sm_ok_read) (auto intro!: sm_ok_return push_backup_confined split: option.splits)

lemma require_source_confined [step_rules]:
  "sm_ok I (require_source step source) (\<lambda>_. True)"
  unfolding require_source_def by (intro sm_ok_seq sm_ok_read) (auto intro!: sm_ok_return sm_ok_fail)

section \<open>Renaming below the base\<close>

lemma move_tree_other:
  assumes "\<not> prefix src q" "\<not> prefix dst q"
  shows "node_at (move_tree src dst fs) q = node_at fs q"
proof -
  let ?f = "\<lambda>(q, n) m. case path_strip_prefix q src of
      Some r \<Rightarrow> bt_insert (dst @ r) n (bt_remove q m) | None \<Rightarrow> m"
  have "bt_get (fold ?f xs m) q = bt_get m q" for xs and m :: "(path \<times> node) list"
  proof (induction xs arbitrary: m)
    case (Cons x xs)
    obtain k n where x: "x = (k, n)" by (cases x)
    show ?case
    proof (cases "path_strip_prefix k src")
      case (Some r)
      then have "q \<noteq> dst @ r" "q \<noteq> k" using assms by auto
      then have "bt_get (?f x m) q = bt_get m q" using Some x by (simp add: map_simps)
      then show ?thesis using Cons.IH [of "?f x m"] by simp
    qed (use Cons x in simp)
  qed simp
  then show ?thesis by (simp add: node_at_def move_tree_def)
qed

lemma link_free_move:
  assumes "link_free fs"
  shows "link_free (move_tree src dst fs)"
proof -
  let ?f = "\<lambda>(q, n) m. case path_strip_prefix q src of
      Some r \<Rightarrow> bt_insert (dst @ r) n (bt_remove q m) | None \<Rightarrow> m"
  have "\<forall>p t. (p, LinkNode t) \<notin> set (fold ?f xs m)"
    if "\<forall>p t. (p, LinkNode t) \<notin> set xs" "\<forall>p t. (p, LinkNode t) \<notin> set m" for xs and m :: "(path \<times> node) list"
    using that
  proof (induction xs arbitrary: m)
    case (Cons x xs)
    obtain k n where x: "x = (k, n)" by (cases x)
    have "\<forall>p t. (p, LinkNode t) \<notin> set (?f x m)"
    proof (cases "path_strip_prefix k src")
      case (Some r)
      have "set (?f x m) \<subseteq> Set.insert (dst @ r, n) (set (bt_remove k m))"
        using Some x set_bt_insert by simp
      moreover have "\<forall>p t. (p, LinkNode t) \<notin> Set.insert (dst @ r, n) (set (bt_remove k m))"
        using Cons.prems x by (auto simp: bt_remove_def)
      ultimately show ?thesis by blast
    qed (use Cons.prems x in simp)
    with Cons show ?case by simp
  qed simp
  then show ?thesis using assms by (simp add: link_free_iff move_tree_def)
qed

lemma confined_rename:
  assumes "confined c fs0 s" "inside c src" "inside c dst" "fs_rename (st_fs s) src dst = Inr fs'"
  shows "confined c fs0 (s\<lparr>st_fs := fs'\<rparr>)"
proof -
  let ?fs = "st_fs s"
  have lf: "link_free ?fs" using assms(1) by (simp add: confined_def)
  have loc: "locate ?fs src = src" "locate ?fs dst = dst"
    using assms(2,3) lf by (auto simp: inside_def clean_no_dots intro!: locate_link_free)
  have reg: "region c src" "region c dst" using assms(2,3) by (auto simp: inside_def region_def)
  note r = assms(4) [unfolded fs_rename_def Let_def loc]
  obtain n where n: "node_at ?fs src = Some n" using r by (auto split: option.splits)
  show ?thesis
  proof (cases "src = dst")
    case True
    then show ?thesis using r n assms(1) by (cases s) auto
  next
    case ne: False
    show ?thesis
    proof (cases "n = DirNode")
      case True
      then have nd: "\<not> prefix src dst" and mv: "fs' = move_tree src dst ?fs"
          and tgt: "node_at ?fs dst = Some DirNode \<Longrightarrow> \<not> has_children ?fs dst"
        using r n ne by (auto simp: path_starts_with_prefix split: option.splits node.splits if_splits)
      have entry: "(src, DirNode) \<in> set (tree ?fs)"
        using n True by (auto simp: node_at_def bt_get_def dest: map_of_SomeD)
      have "src \<noteq> fs_base c" using nd assms(3) by (auto simp: inside_def)
      moreover have "dst \<noteq> fs_base c"
      proof
        assume d: "dst = fs_base c"
        then have "node_at ?fs dst = Some DirNode" using assms(1) by (simp add: confined_def base_dirs_def)
        moreover have "has_children ?fs dst"
          using d assms(2) ne unfolding has_children_def list_ex_iff
          by (intro bexI [OF _ entry]) (simp add: path_starts_with_prefix inside_def)
        ultimately show False using tgt by blast
      qed
      ultimately have up: "\<not> prefix src q \<and> \<not> prefix dst q" if "prefix q (fs_base c)" for q
        using that assms(2,3) unfolding inside_def by (meson prefix_order.antisym prefix_order.trans)
      have out: "\<not> prefix src q \<and> \<not> prefix dst q" if "\<not> region c q" for q
        using that assms(2,3) by (auto simp: inside_def region_def dest: prefix_order.trans)
      show ?thesis
        using assms(1) up out lf by (auto simp: confined_def mv base_dirs_def move_tree_other link_free_move)
    next
      case False
      then have mv: "fs' = put_node dst n (drop_node src ?fs)" and nd: "node_at ?fs dst \<noteq> Some DirNode"
        using r n ne by (auto split: option.splits node.splits if_splits)
      have "confined c fs0 (s\<lparr>st_fs := drop_node src ?fs\<rparr>)"
        using assms(1) reg(1) n False by (intro confined_drop) auto
      then have "confined c fs0 ((s\<lparr>st_fs := drop_node src ?fs\<rparr>)\<lparr>st_fs :=
          put_node dst n (st_fs (s\<lparr>st_fs := drop_node src ?fs\<rparr>))\<rparr>)"
        by (rule confined_put) (use reg(2) nd n link_freeD [OF lf] in auto)
      then show ?thesis by (simp add: mv)
    qed
  qed
qed

lemma confined_remove:
  assumes "confined c fs0 s" "inside c p" "fs_remove_file (st_fs s) p = Inr fs'"
  shows "confined c fs0 (s\<lparr>st_fs := fs'\<rparr>)"
proof -
  have "locate (st_fs s) p = p"
    using assms by (auto simp: inside_def clean_no_dots confined_def intro!: locate_link_free)
  then show ?thesis
    using assms by (auto simp: fs_remove_file_def inside_def region_def split: option.splits node.splits
        intro!: confined_drop)
qed


section \<open>Every file action is confined\<close>

lemma sm_ok_lift_any: "sm_ok I (sm_lift r) (\<lambda>_. True)"
  by (simp add: sm_ok_lift)

lemma inside_region: "inside c p \<Longrightarrow> region c p \<and> ''..'' \<notin> set p"
  by (simp add: inside_def region_def clean_no_dots)

lemma write_file_confined:
  assumes "plain_context c"
  shows "sm_ok (confined c fs0) (write_file c step b) (\<lambda>_. True)"
  unfolding write_file_def
proof (rule sm_ok_bind [OF resolve_inside [OF assms]])
  fix target assume t: "inside c target"
  have w: "sm_ok (confined c fs0) (sm_io err (\<lambda>fs. fs_open_write new fs target)) (\<lambda>_. True)" for err new
    by (rule sm_ok_io) (use inside_region [OF t] confined_write in blast)
  show "sm_ok (confined c fs0) (sm_bind (sm_lift (required_str step ''content'')) (\<lambda>content.
     sm_bind (ensure_backup c step target) (\<lambda>backed_up.
     sm_bind (create_parents step target) (\<lambda>_.
     sm_bind (if b then sm_io (\<lambda>e. err_execution (step_action step) (''failed to open '' @ path_text target @ '': '' @ io_text e))
                          (\<lambda>fs. fs_append_bytes fs target content)
              else sm_io (\<lambda>e. err_execution (step_action step) (''failed to write '' @ path_text target @ '': '' @ io_text e))
                          (\<lambda>fs. fs_write_bytes fs target content)) (\<lambda>_.
       (let rel = relative_or_full c target; verb = (if b then ''appended'' else ''wrote'')
          in sm_return (file_execution
               (verb @ '' '' @ rel @ '' ('' @ nat_digits (length content) @ '' bytes)'')
               [verb @ '' '' @ rel] backed_up))))))) (\<lambda>_. True)"
    unfolding fs_append_bytes_def fs_write_bytes_def Let_def
    using assms t w
    by (auto intro!: sm_ok_seq sm_ok_lift_any ensure_backup_confined create_parents_confined sm_ok_return)
qed

lemma mkdir_confined:
  assumes "plain_context c"
  shows "sm_ok (confined c fs0) (mkdir c step) (\<lambda>_. True)"
  unfolding mkdir_def
proof (rule sm_ok_bind [OF resolve_inside [OF assms]])
  fix target assume t: "inside c target"
  have "confined c fs0 (s\<lparr>st_fs := fs'\<rparr>)"
    if s: "confined c fs0 s" "fs_create_dir_all (st_fs s) target = Inr fs'" for s fs'
    using inside_region [OF t] t
    by (intro confined_create_dir_all [OF s(1) _ _ s(2)] below_base_prefix [OF s(1)]) (auto simp: inside_def)
  then show "sm_ok (confined c fs0) (sm_bind (record_created_dir c target) (\<lambda>_.
     sm_bind (sm_io (\<lambda>e. err_execution (step_action step) (''failed to create dir: '' @ io_text e))
                (\<lambda>fs. fs_create_dir_all fs target)) (\<lambda>_.
       sm_return (file_execution (''created dir '' @ path_text target)
                   [''mkdir '' @ path_text target] False)))) (\<lambda>_. True)"
    by (auto intro!: sm_ok_seq record_created_dir_confined sm_ok_io sm_ok_return)
qed

lemma copy_file_confined:
  assumes "plain_context c"
  shows "sm_ok (confined c fs0) (copy_file c step) (\<lambda>_. True)"
  unfolding copy_file_def Let_def
proof (intro sm_ok_bind [OF resolve_inside [OF assms]] sm_ok_seq require_source_confined
    ensure_backup_confined [OF assms] create_parents_confined sm_ok_return sm_ok_io)
  fix source target s fs'
  assume "inside c target" "confined c fs0 s" "fs_copy (st_fs s) source target = Inr fs'"
  then show "confined c fs0 (s\<lparr>st_fs := fs'\<rparr>)" using inside_region confined_copy by blast
qed auto

lemma move_file_confined:
  assumes "plain_context c"
  shows "sm_ok (confined c fs0) (move_file c step) (\<lambda>_. True)"
  unfolding move_file_def Let_def
proof (intro sm_ok_bind [OF resolve_inside [OF assms]] sm_ok_seq require_source_confined
    ensure_backup_confined [OF assms] create_parents_confined sm_ok_return sm_ok_io)
  fix source target s fs'
  assume "inside c source" "inside c target" "confined c fs0 s" "fs_rename (st_fs s) source target = Inr fs'"
  then show "confined c fs0 (s\<lparr>st_fs := fs'\<rparr>)" using confined_rename by blast
qed auto

lemma delete_file_confined:
  assumes "plain_context c"
  shows "sm_ok (confined c fs0) (delete_file c step) (\<lambda>_. True)"
  unfolding delete_file_def
proof (intro sm_ok_bind [OF resolve_inside [OF assms]] sm_ok_seq sm_ok_read
    ensure_backup_confined [OF assms] sm_ok_return)
  fix target there assume "inside c target"
  then show "sm_ok (confined c fs0) (if there then
      sm_io (\<lambda>e. err_execution (step_action step) (''delete failed: '' @ io_text e)) (\<lambda>fs. fs_remove_file fs target)
      else sm_return ()) (\<lambda>_. True)"
    using confined_remove by (auto intro!: sm_ok_io sm_ok_return)
qed auto

lemma read_file_unchanged: "snd (read_file c step s) = s"
proof -
  have "sm_ok (\<lambda>x. x = s) (read_file c step) (\<lambda>_. True)"
    unfolding read_file_def resolve_def Let_def
    by (auto intro!: sm_ok_seq sm_ok_lift_any sm_ok_read sm_ok_return sm_ok_fail split: sum.splits)
  then show ?thesis using sm_ok_final by blast
qed

lemma execute_file_step_confined:
  assumes "plain_context c" "step_action step \<noteq> ''exec''" "step_action step \<noteq> ''exec_command''"
  shows "sm_ok (confined c fs0) (execute_step h c step) (\<lambda>_. True)"
proof -
  have "sm_ok (confined c fs0) (read_file c step) (\<lambda>_. True)"
    by (rule sm_okI) (metis read_file_unchanged snd_conv)
  then show ?thesis
    using assms write_file_confined [OF assms(1)] mkdir_confined [OF assms(1)] copy_file_confined [OF assms(1)]
      move_file_confined [OF assms(1)] delete_file_confined [OF assms(1)]
    by (simp add: execute_step_def sm_ok_fail split: sum.splits)
qed

text \<open>No file action leaves the workspace. On a link-free tree whose base directory exists, a
  write, append, mkdir, copy, move, delete or read step changes no node outside the base
  directory of the run and the backup area, whether the step succeeds or fails part way; and
  the base directory itself survives, so the guarantee carries over to the next step.\<close>

theorem file_step_contained:
  assumes "plain_context c" and "link_free (st_fs s)" and "base_dirs (st_fs s) (fs_base c)"
    and "step_action step \<noteq> ''exec''" and "step_action step \<noteq> ''exec_command''"
    and "execute_step h c step s = (r, s')"
  shows "(\<forall>q. \<not> prefix (fs_base c) q \<longrightarrow>
        (\<forall>root. backup_root c = Some root \<longrightarrow> \<not> prefix root q \<and> \<not> prefix q root) \<longrightarrow>
        node_at (st_fs s') q = node_at (st_fs s) q) \<and>
    link_free (st_fs s') \<and> base_dirs (st_fs s') (fs_base c)"
proof -
  have "confined c (st_fs s) s" using assms(2,3) by (simp add: confined_def)
  with execute_file_step_confined [OF assms(1,4,5)] assms(6) have "confined c (st_fs s) s'"
    using sm_okD by blast
  then show ?thesis by (auto simp: confined_def region_def split: option.splits)
qed

definition demo_context :: StepContext where
  "demo_context = StepContext_new demo_fs [''w''] CapabilityPolicy_default"

definition demo_write :: WorkflowStep where
  "demo_write = \<lparr>step_action = ''write_file'',
     step_args = JObject [(''content'', JString ''hi''), (''path'', JString ''d/n.txt'')]\<rparr>"

definition demo_state :: exec_state where
  "demo_state = \<lparr>st_fs = demo_fs, st_backups = None\<rparr>"

definition demo_host :: Host where
  "demo_host = \<lparr>host_windows = False, host_env_vars = [''HOME'', ''API_KEY''],
     host_spawn = (\<lambda>_ _ _ _ _ _ fs. (Exited (Some 0) ''ok'' [], fs))\<rparr>"

lemma demo_base_dirs: "base_dirs demo_fs [''w'']"
  by (auto simp: base_dirs_def prefix_Cons demo_fs_def node_at_def bt_get_def)

theorem file_step_contained_witness:
  "node_at (st_fs (snd (execute_step demo_host demo_context demo_write demo_state))) [''etc''] = node_at demo_fs [''etc'']"
proof -
  have b: "fs_base demo_context = [''w'']" "backup_root demo_context = None"
    by code_simp+
  obtain r s' where e: "execute_step demo_host demo_context demo_write demo_state = (r, s')" by (metis surj_pair)
  have "plain_context demo_context" by code_simp
  moreover have "link_free (st_fs demo_state)" by code_simp
  moreover have "base_dirs (st_fs demo_state) (fs_base demo_context)"
    using demo_base_dirs b by (simp add: demo_state_def)
  moreover have "step_action demo_write \<noteq> ''exec''" "step_action demo_write \<noteq> ''exec_command''" by code_simp+
  ultimately show ?thesis
    using file_step_contained [OF _ _ _ _ _ e] e b by (auto simp: demo_state_def)
qed


section \<open>Refused steps\<close>

text \<open>A refused step has no effect at all. If the policy denies the action, the step fails with
  outcome \<open>invalid\<close>; if a program step is not covered by the allow list, hits the deny list, asks
  for a legacy shell that is not allowed, or runs as a dry run, then in every case the file
  system and the recorded backups are exactly as before and no process is spawned.\<close>

theorem refused_step_no_effect:
  "(\<forall>d. policy_check (ctx_policy c) (step_action step) = Inl d \<longrightarrow>
      (\<exists>err. execute_step h c step s = (Inl err, s) \<and> se_outcome err = ''invalid'')) \<and>
   (\<forall>legacy program args cwd env. command_shape h (st_fs s) c step legacy = Inr (program, args, cwd, env) \<longrightarrow>
      (ex_mode (pol_exec (ctx_policy c)) \<noteq> EXEC_ALLOWLIST \<or>
       (legacy \<and> \<not> ex_allow_legacy_shell (pol_exec (ctx_policy c))) \<or>
       \<not> program_allowed (pol_exec (ctx_policy c)) program \<or>
       denylist_hit program args \<noteq> None) \<longrightarrow>
      (\<exists>err. exec_program h c step legacy s = (Inl err, s) \<and> se_outcome err = ''invalid'')) \<and>
   (scratch c \<noteq> None \<longrightarrow> snd (exec_program h c step legacy s) = s)"
proof (intro conjI allI impI)
  fix d assume "policy_check (ctx_policy c) (step_action step) = Inl d"
  then show "\<exists>err. execute_step h c step s = (Inl err, s) \<and> se_outcome err = ''invalid''"
    by (simp add: execute_step_def sm_fail_def denied_def)
next
  fix legacy program args cwd env
  assume sh: "command_shape h (st_fs s) c step legacy = Inr (program, args, cwd, env)"
    and g: "ex_mode (pol_exec (ctx_policy c)) \<noteq> EXEC_ALLOWLIST \<or>
       (legacy \<and> \<not> ex_allow_legacy_shell (pol_exec (ctx_policy c))) \<or>
       \<not> program_allowed (pol_exec (ctx_policy c)) program \<or> denylist_hit program args \<noteq> None"
  show "\<exists>err. exec_program h c step legacy s = (Inl err, s) \<and> se_outcome err = ''invalid''"
    using g by (auto simp: exec_program_def sm_bind_def sh Let_def sm_fail_def denied_def split: option.splits)
next
  assume "scratch c \<noteq> None"
  then show "snd (exec_program h c step legacy s) = s"
    by (auto simp: exec_program_def sm_bind_def Let_def sm_fail_def collect_output_def sm_return_def
        split: option.splits sum.splits prod.splits)
qed

theorem refused_step_no_effect_witness:
  "\<exists>err. execute_step demo_host demo_context (demo_write\<lparr>step_action := ''delete_file''\<rparr>) demo_state = (Inl err, demo_state)
     \<and> se_outcome err = ''invalid''"
proof -
  have "\<exists>d. policy_check (ctx_policy demo_context) (step_action (demo_write\<lparr>step_action := ''delete_file''\<rparr>)) = Inl d"
    by (simp add: demo_context_def StepContext_new_def CapabilityPolicy_default_def policy_check_def refuse_def policy_values)
  then show ?thesis using refused_step_no_effect by blast
qed

lemma collect_output_dry_run:
  assumes "scratch c \<noteq> None"
  shows "collect_output h c step program args d env = sm_return (exec_execution
          (''dry-run exec '' @ program @ '' (args '' @ nat_digits (length args) @ '', policy '' @
           ex_mode (pol_exec (ctx_policy c)) @ '', not spawned)'') None [] [])"
  using assms by (simp add: collect_output_def)

text \<open>C10: whatever a spawned program is, it passed every guard: if the result of a program step depends
  on the host's process table, then programs are enabled by policy, the program's stem is on the
  allow list (when the list is non-empty), neither the deny list nor a dangerous pattern
  matches, a legacy shell string was explicitly allowed, and the run is not a dry run.\<close>

theorem spawned_program_passed_guards:
  assumes "exec_program h c step legacy s \<noteq> exec_program (h\<lparr>host_spawn := other\<rparr>) c step legacy s"
  shows "\<exists>program args. ex_mode (pol_exec (ctx_policy c)) = EXEC_ALLOWLIST \<and>
    (ex_allow (pol_exec (ctx_policy c)) \<noteq> [] \<longrightarrow>
       program_stem program \<in> program_stem ` set (ex_allow (pol_exec (ctx_policy c)))) \<and>
    program_stem program \<notin> set DANGEROUS_PROGRAM_DENYLIST \<and>
    (\<forall>pattern \<in> set DANGEROUS_ARG_PATTERNS.
       \<not> contains_str (to_lowercase (program @ '' '' @ join_str '' '' args)) pattern) \<and>
    (legacy \<longrightarrow> ex_allow_legacy_shell (pol_exec (ctx_policy c))) \<and> scratch c = None \<and>
    (\<exists>cwd env. command_shape h (st_fs s) c step legacy = Inr (program, args, cwd, env))"
proof -
  let ?pol = "pol_exec (ctx_policy c)"
  have shape: "command_shape (h\<lparr>host_spawn := other\<rparr>) fs c step legacy = command_shape h fs c step legacy" for fs
    by (simp add: command_shape_def)
  from assms obtain program args cwd env where sh:
    "command_shape h (st_fs s) c step legacy = Inr (program, args, cwd, env)"
    by (cases "command_shape h (st_fs s) c step legacy") (auto simp: exec_program_def sm_bind_def shape)
  note run = assms [unfolded exec_program_def sm_bind_def shape sh Let_def]
  have guards: "ex_mode ?pol = EXEC_ALLOWLIST" "legacy \<longrightarrow> ex_allow_legacy_shell ?pol"
      "program_allowed ?pol program" "denylist_hit program args = None"
    using run by (auto split: option.splits if_splits)
  have "scratch c = None"
  proof (rule ccontr)
    assume "scratch c \<noteq> None"
    then have "collect_output (h\<lparr>host_spawn := other\<rparr>) c = collect_output h c"
      by (simp add: fun_eq_iff collect_output_dry_run)
    from run [unfolded this] show False by blast
  qed
  moreover have "program_stem program \<notin> set DANGEROUS_PROGRAM_DENYLIST"
      "\<forall>pattern \<in> set DANGEROUS_ARG_PATTERNS. \<not> contains_str (to_lowercase (program @ '' '' @ join_str '' '' args)) pattern"
    using guards(4) by (auto simp: denylist_hit_def Let_def find_None_iff split: if_splits)
  moreover have "ex_allow ?pol \<noteq> [] \<longrightarrow> program_stem program \<in> program_stem ` set (ex_allow ?pol)"
    using guards(3) by (auto simp: program_allowed_def list_ex_iff intro: rev_image_eqI)
  ultimately show ?thesis using guards sh by blast
qed

definition demo_exec :: WorkflowStep where
  "demo_exec = \<lparr>step_action = ''exec'', step_args = JObject [(''program'', JString ''git'')]\<rparr>"

theorem spawned_program_passed_guards_witness:
  "\<exists>program. program_stem program \<in> program_stem ` set (ex_allow (pol_exec (ctx_policy (StepContext_new demo_fs [''w''] (exec_policy_demo [''git''] 30)))))
     \<and> program_stem program \<notin> set DANGEROUS_PROGRAM_DENYLIST"
proof -
  let ?c = "StepContext_new demo_fs [''w''] (exec_policy_demo [''git''] 30)"
  have "fst (exec_program (demo_host\<lparr>host_spawn := (\<lambda>_ _ _ _ _ _ fs. (WaitFailed [], fs))\<rparr>) ?c demo_exec False demo_state) \<noteq>
      fst (exec_program (demo_host\<lparr>host_spawn := (\<lambda>_ _ _ _ _ _ fs. (WaitFailed [], fs)), host_spawn := (\<lambda>_ _ _ _ _ _ fs. (SpawnFailed [], fs))\<rparr>) ?c demo_exec False demo_state)"
    by code_simp
  then have "exec_program (demo_host\<lparr>host_spawn := (\<lambda>_ _ _ _ _ _ fs. (WaitFailed [], fs))\<rparr>) ?c demo_exec False demo_state \<noteq>
      exec_program (demo_host\<lparr>host_spawn := (\<lambda>_ _ _ _ _ _ fs. (WaitFailed [], fs)), host_spawn := (\<lambda>_ _ _ _ _ _ fs. (SpawnFailed [], fs))\<rparr>) ?c demo_exec False demo_state"
    by (rule contrapos_nn) (rule arg_cong [where f = fst])
  from spawned_program_passed_guards [OF this] obtain program where
      "ex_allow (pol_exec (ctx_policy ?c)) \<noteq> [] \<longrightarrow>
         program_stem program \<in> program_stem ` set (ex_allow (pol_exec (ctx_policy ?c)))"
      "program_stem program \<notin> set DANGEROUS_PROGRAM_DENYLIST"
    by (elim exE conjE) (rule that)
  moreover have "ex_allow (pol_exec (ctx_policy ?c)) \<noteq> []" by code_simp
  ultimately show ?thesis by metis
qed

end
