(* ===== verification/Gate.thy ===== *)
theory Gate
  imports Store Exec
begin

text \<open>
  The synchronous Action Gate (\<open>experience-controller/src\<close>: \<open>probe.rs\<close>, \<open>runner.rs\<close>,
  \<open>runtime.rs\<close>). The runtime owns the store, a probe and a runner. One gate call decides
  (first candidate whose preconditions hold, or whose postconditions already hold; then the
  templates in the same way) and, unless the decision is a miss, executes the workflow step by
  step, verifies the postconditions and returns the result.

  The trait objects \<open>dyn Probe\<close> and \<open>dyn CapabilityRunner\<close> are fields of the runtime: a probe
  observes a key in the current file system, a runner executes a step and returns the changed
  file system. The atomic cancellation flag, which another thread may set at any moment, is the
  value it is read with before the \<open>i\<close>-th step; the clock is a reading per observation. A Rust
  panic is an \<open>Inl\<close> result.
\<close>

section \<open>Context, probes and runners\<close>

record GateContext =
  cwd :: path

definition exists_key :: "string \<Rightarrow> string" where
  "exists_key p = ''file:'' @ p @ ''.exists''"

definition content_key :: "string \<Rightarrow> string" where
  "content_key p = ''file:'' @ p @ ''.content''"

type_synonym probe_fn = "fsys \<Rightarrow> GateContext \<Rightarrow> string \<Rightarrow> json option"

definition LocalProbe :: probe_fn where
  "LocalProbe fs ctx key =
     (if key = ''cwd.exists'' then Some (JBool (fs_exists fs (cwd ctx)))
      else case strip_prefix key ''file:'' of
             None \<Rightarrow> None
           | Some rest \<Rightarrow>
               (case strip_suffix rest ''.exists'' of
                  Some relative \<Rightarrow> Some (JBool (fs_exists fs (path_join (cwd ctx) relative)))
                | None \<Rightarrow>
                    (case strip_suffix rest ''.content'' of
                       Some relative \<Rightarrow>
                         (case fs_read_to_string fs (path_join (cwd ctx) relative) of
                            Inr content \<Rightarrow> Some (JString content)
                          | Inl _ \<Rightarrow> None)
                     | None \<Rightarrow> None)))"

definition MapProbe :: "json btree \<Rightarrow> probe_fn" where
  "MapProbe facts fs ctx key = bt_get facts key"

record StepOutcome =
  out_evidence :: string
  out_side_effects :: "ExecutedSideEffect list"
  out_exit_code :: "int option"
  out_stdout :: string
  out_stderr :: string

definition out_succeeded :: "StepOutcome \<Rightarrow> bool" where
  "out_succeeded out \<longleftrightarrow> out_exit_code out = None \<or> out_exit_code out = Some 0"

type_synonym runner_fn = "GateContext \<Rightarrow> WorkflowStep \<Rightarrow> fsys \<Rightarrow> (string + StepOutcome) \<times> fsys"

record LocalRunner =
  lr_backup_root :: "path option"
  lr_policy :: CapabilityPolicy

definition LocalRunner_default :: LocalRunner where
  "LocalRunner_default = \<lparr>lr_backup_root = None, lr_policy = CapabilityPolicy_default\<rparr>"

definition runner_with_backup :: "path \<Rightarrow> LocalRunner" where
  "runner_with_backup dir = \<lparr>lr_backup_root = Some dir, lr_policy = CapabilityPolicy_default\<rparr>"

definition runner_with_policy :: "CapabilityPolicy \<Rightarrow> LocalRunner" where
  "runner_with_policy policy = \<lparr>lr_backup_root = None, lr_policy = policy\<rparr>"

definition runner_with_backup_and_policy :: "path \<Rightarrow> CapabilityPolicy \<Rightarrow> LocalRunner" where
  "runner_with_backup_and_policy dir policy = \<lparr>lr_backup_root = Some dir, lr_policy = policy\<rparr>"

definition outcome_of :: "StepExecution \<Rightarrow> StepOutcome" where
  "outcome_of x =
     \<lparr>out_evidence = sx_evidence x,
      out_side_effects = map (\<lambda>d. \<lparr>eff_description = d, eff_evidence = None\<rparr>) (sx_side_effects x),
      out_exit_code = sx_exit_code x, out_stdout = sx_stdout x, out_stderr = sx_stderr x\<rparr>"

definition runner_context :: "LocalRunner \<Rightarrow> GateContext \<Rightarrow> fsys \<Rightarrow> StepContext" where
  "runner_context lr ctx fs =
     (let c = StepContext_new fs (cwd ctx) (lr_policy lr)
      in case lr_backup_root lr of Some dir \<Rightarrow> with_backup dir c | None \<Rightarrow> c)"

definition LocalRunner_run :: "Host \<Rightarrow> LocalRunner \<Rightarrow> runner_fn" where
  "LocalRunner_run h lr ctx step fs =
     (case execute_step h (runner_context lr ctx fs) step
             \<lparr>st_fs = fs, st_backups = map_option (\<lambda>_. []) (lr_backup_root lr)\<rparr> of
        (Inr x, s') \<Rightarrow> (Inr (outcome_of x), st_fs s')
      | (Inl e, s') \<Rightarrow> (Inl (se_detail e), st_fs s'))"

section \<open>The runtime\<close>

datatype GateOutcome = OutMiss | OutHit GateHitResult

fun outcome_is_hit :: "GateOutcome \<Rightarrow> bool" where
  "outcome_is_hit OutMiss = False"
| "outcome_is_hit (OutHit _) = True"

record ExperienceGateRuntime =
  rt_store :: ExperienceStore
  rt_probe :: probe_fn
  rt_runner :: runner_fn
  rt_cancel :: "nat \<Rightarrow> bool"
  rt_clock :: "fsys \<Rightarrow> string \<Rightarrow> nat"

definition tier_for :: "Experience \<Rightarrow> GateTier" where
  "tier_for e = (if length (exp_workflow e) \<le> 1 then TierB else TierC)"

definition as_i32 :: "int \<Rightarrow> int" where
  "as_i32 v = (v + 2 ^ 31) mod 2 ^ 32 - 2 ^ 31"

definition expected_exit_code :: "WorkflowStep \<Rightarrow> int option" where
  "expected_exit_code step =
     (if step_action step \<noteq> ''exec'' \<and> step_action step \<noteq> ''exec_command'' then None
      else Some (case Option.bind (json_get (step_args step) ''expect_exit'') as_i64 of
                   Some v \<Rightarrow> as_i32 v
                 | None \<Rightarrow> 0))"

definition probe_predicate :: "ExperienceGateRuntime \<Rightarrow> fsys \<Rightarrow> GateContext \<Rightarrow> Predicate \<Rightarrow> TruthValue" where
  "probe_predicate rt fs ctx p = pred_probe p (rt_probe rt fs ctx (pred_key p))"

definition preconditions_hold :: "ExperienceGateRuntime \<Rightarrow> fsys \<Rightarrow> GateContext \<Rightarrow> Experience \<Rightarrow> bool" where
  "preconditions_hold rt fs ctx e =
     list_all (\<lambda>p. probe_predicate rt fs ctx p = TV_True) (exp_preconditions e)"

definition probed_fact :: "ExperienceGateRuntime \<Rightarrow> fsys \<Rightarrow> string \<Rightarrow> json \<Rightarrow> string \<Rightarrow> StateFact" where
  "probed_fact rt fs key v evidence = StateFact_new key v evidence (rt_clock rt fs key)"

fun collect_facts :: "ExperienceGateRuntime \<Rightarrow> fsys \<Rightarrow> GateContext \<Rightarrow> Predicate list \<Rightarrow> StateFact list \<Rightarrow> StateFact list option" where
  "collect_facts rt fs ctx [] facts = Some facts"
| "collect_facts rt fs ctx (p # ps) facts =
     (case rt_probe rt fs ctx (pred_key p) of
        None \<Rightarrow> None
      | Some observed \<Rightarrow>
          (if pred_probe p (Some observed) \<noteq> TV_True then None
           else collect_facts rt fs ctx ps (facts @ [probed_fact rt fs (pred_key p) observed ''probe''])))"

definition postcondition_facts :: "ExperienceGateRuntime \<Rightarrow> fsys \<Rightarrow> GateContext \<Rightarrow> Experience \<Rightarrow> StateFact list option" where
  "postcondition_facts rt fs ctx e =
     (if exp_postconditions e = [] then None
      else collect_facts rt fs ctx (exp_postconditions e) [])"

definition observe_facts :: "ExperienceGateRuntime \<Rightarrow> fsys \<Rightarrow> GateContext \<Rightarrow> string \<Rightarrow> Predicate list \<Rightarrow> StateFact list" where
  "observe_facts rt fs ctx evidence ps =
     concat (map (\<lambda>p. case rt_probe rt fs ctx (pred_key p) of
                        Some observed \<Rightarrow> [probed_fact rt fs (pred_key p) observed evidence]
                      | None \<Rightarrow> []) ps)"

definition observe_after :: "ExperienceGateRuntime \<Rightarrow> fsys \<Rightarrow> GateContext \<Rightarrow> Experience \<Rightarrow> StateFact list" where
  "observe_after rt fs ctx e = observe_facts rt fs ctx ''probe after failure'' (exp_postconditions e)"

section \<open>Deciding\<close>

fun decide_candidates :: "ExperienceGateRuntime \<Rightarrow> fsys \<Rightarrow> GateContext \<Rightarrow> Experience list \<Rightarrow> GateDecision option" where
  "decide_candidates rt fs ctx [] = None"
| "decide_candidates rt fs ctx (e # es) =
     (if preconditions_hold rt fs ctx e then Some (Hit (exp_name e) (tier_for e))
      else case postcondition_facts rt fs ctx e of
             Some after \<Rightarrow> Some (Satisfied (exp_name e) (tier_for e) after)
           | None \<Rightarrow> decide_candidates rt fs ctx es)"

fun decide_templates :: "ExperienceGateRuntime \<Rightarrow> fsys \<Rightarrow> GateContext \<Rightarrow> ActionProposal \<Rightarrow> ExperienceTemplate list \<Rightarrow> GateDecision" where
  "decide_templates rt fs ctx p [] = Miss"
| "decide_templates rt fs ctx p (t # ts) =
     (case template_bind t p (path_text (cwd ctx)) of
        Inl _ \<Rightarrow> decide_templates rt fs ctx p ts
      | Inr (e, bindings) \<Rightarrow>
          (if preconditions_hold rt fs ctx e then
             TemplateHit (exp_name e) (tier_for e) bindings (binding_fingerprint t bindings) e
           else case postcondition_facts rt fs ctx e of
                  Some after \<Rightarrow> Satisfied (exp_name e) (tier_for e) after
                | None \<Rightarrow> decide_templates rt fs ctx p ts))"

definition decide :: "ExperienceGateRuntime \<Rightarrow> fsys \<Rightarrow> GateContext \<Rightarrow> ActionProposal \<Rightarrow> GateDecision" where
  "decide rt fs ctx p =
     (case decide_candidates rt fs ctx (candidates_for (rt_store rt) p) of
        Some d \<Rightarrow> d
      | None \<Rightarrow> decide_templates rt fs ctx p (templates_for (rt_store rt) p))"

section \<open>Verification of postconditions\<close>

fun verify_step :: "ExperienceGateRuntime \<Rightarrow> fsys \<Rightarrow> GateContext \<Rightarrow> VerificationStep \<Rightarrow> StateFact list \<times> string list" where
  "verify_step rt fs ctx (ReadFile p expect_content) =
     (case fs_read_to_string fs (path_join (cwd ctx) p) of
        Inl e \<Rightarrow> ([], [''verification: failed to read '' @ p @ '': '' @ io_text e])
      | Inr content \<Rightarrow>
          (let there = probed_fact rt fs (exists_key p) (JBool True) (''read '' @ p)
           in case expect_content of
                None \<Rightarrow> ([there], [])
              | Some expected \<Rightarrow>
                  (if content = expected then
                     ([there, probed_fact rt fs (content_key p) (JString content) (''read '' @ p)],
                      [''verification: '' @ p @ '' content matches''])
                   else ([there], [''verification: '' @ p @ '' content mismatch'']))))"
| "verify_step rt fs ctx (Probe p) =
     (let observed = rt_probe rt fs ctx (pred_key p)
      in case pred_probe p observed of
           TV_True \<Rightarrow>
             ((case observed of Some v \<Rightarrow> [probed_fact rt fs (pred_key p) v ''probe''] | None \<Rightarrow> []),
              [''verification: '' @ pred_key p @ '' holds''])
         | TV_False \<Rightarrow> ([], [''verification: '' @ pred_key p @ '' does not hold''])
         | TV_Unknown \<Rightarrow> ([], [''verification: '' @ pred_key p @ '' not observable'']))"

definition verify_postconditions :: "ExperienceGateRuntime \<Rightarrow> fsys \<Rightarrow> GateContext \<Rightarrow> Experience \<Rightarrow> StateFact list \<times> string list" where
  "verify_postconditions rt fs ctx e =
     (let rs = map (verify_step rt fs ctx) (exp_verification e)
      in (concat (map fst rs), concat (map snd rs)))"

section \<open>Executing\<close>

definition exit_debug :: "int option \<Rightarrow> string" where
  "exit_debug code = (case code of Some n \<Rightarrow> ''Some('' @ int_text n @ '')'' | None \<Rightarrow> ''None'')"

definition exit_mismatch :: "WorkflowStep \<Rightarrow> StepOutcome \<Rightarrow> bool" where
  "exit_mismatch step out =
     (case expected_exit_code step of
        Some expected \<Rightarrow> out_exit_code out \<noteq> Some expected
      | None \<Rightarrow> False)"

definition exit_note :: "WorkflowStep \<Rightarrow> StepOutcome \<Rightarrow> string" where
  "exit_note step out =
     (case expected_exit_code step of
        Some expected \<Rightarrow> ''step '' @ quoted_name (step_action step) @ '' exited '' @ exit_debug (out_exit_code out) @
          '', expected '' @ int_text expected @ '': '' @ out_evidence out
      | None \<Rightarrow> [])"

definition finish_workflow :: "ExperienceGateRuntime \<Rightarrow> GateContext \<Rightarrow> ActionProposal \<Rightarrow> Experience \<Rightarrow> StateFact list
    \<Rightarrow> ExecutedStep list \<Rightarrow> string list \<Rightarrow> ExecutedSideEffect list \<Rightarrow> fsys \<Rightarrow> GateHitResult" where
  "finish_workflow rt ctx p e before ex ev eff fs =
     (case verify_postconditions rt fs ctx e of
        (after, remarks) \<Rightarrow>
          (if postconditions_satisfied_by e after
           then res_completed p before ex after (ev @ remarks) eff
           else res_partial p before ex after (ev @ remarks) eff))"

fun run_workflow :: "ExperienceGateRuntime \<Rightarrow> GateContext \<Rightarrow> ActionProposal \<Rightarrow> Experience \<Rightarrow> StateFact list \<Rightarrow> nat
    \<Rightarrow> WorkflowStep list \<Rightarrow> ExecutedStep list \<Rightarrow> string list \<Rightarrow> ExecutedSideEffect list \<Rightarrow> fsys
    \<Rightarrow> GateHitResult \<times> fsys" where
  "run_workflow rt ctx p e before i [] ex ev eff fs = (finish_workflow rt ctx p e before ex ev eff fs, fs)"
| "run_workflow rt ctx p e before i (step # steps) ex ev eff fs =
     (if rt_cancel rt i then
        (res_failed p before ex (observe_after rt fs ctx e)
           (ev @ [''workflow interrupted by cancellation'']) eff, fs)
      else case rt_runner rt ctx step fs of
        (Inl err, fs') \<Rightarrow>
          (res_failed p before ex (observe_after rt fs' ctx e)
             (ev @ [''step '' @ quoted_name (step_action step) @ '' failed: '' @ err]) eff, fs')
      | (Inr out, fs') \<Rightarrow>
          (if exit_mismatch step out then
             (res_failed p before ex (observe_after rt fs' ctx e) (ev @ [exit_note step out]) eff, fs')
           else
             run_workflow rt ctx p e before (Suc i) steps
               (ex @ [\<lparr>done_action = step_action step, done_args = step_args step,
                      done_evidence = Some (out_evidence out)\<rparr>])
               (ev @ [out_evidence out]) (eff @ out_side_effects out) fs'))"

definition execute_experience :: "ExperienceGateRuntime \<Rightarrow> GateContext \<Rightarrow> ActionProposal \<Rightarrow> Experience \<Rightarrow> fsys
    \<Rightarrow> GateHitResult \<times> fsys" where
  "execute_experience rt ctx p e fs =
     run_workflow rt ctx p e (observe_facts rt fs ctx ''probe'' (exp_preconditions e)) 0
       (exp_workflow e) [] [] [] fs"

definition execute_already_satisfied :: "ActionProposal \<Rightarrow> StateFact list \<Rightarrow> GateHitResult" where
  "execute_already_satisfied p after =
     res_completed p [] [] after
       (''experience already satisfied; no workflow step was executed'' #
        map (\<lambda>f. ''verification: '' @ fact_key f @ '' holds'') after) []"

definition with_audit :: "string \<Rightarrow> string btree \<Rightarrow> string \<Rightarrow> GateHitResult \<Rightarrow> GateHitResult" where
  "with_audit name bindings fingerprint r =
     with_template_audit
       (r\<lparr>execution_evidence := execution_evidence r @
          [''template '' @ quoted_name name @ '' bound '' @ nat_digits (length bindings) @
           '' parameter(s); fingerprint '' @ fingerprint]\<rparr>)
       (Some \<lparr>audit_template = name, audit_bindings = bindings, audit_fingerprint = fingerprint\<rparr>)"

fun gate_execute :: "ExperienceGateRuntime \<Rightarrow> GateContext \<Rightarrow> ActionProposal \<Rightarrow> GateDecision \<Rightarrow> fsys
    \<Rightarrow> (string + GateHitResult) \<times> fsys" where
  "gate_execute rt ctx p (TemplateHit name tier bindings fingerprint e) fs =
     (case execute_experience rt ctx p e fs of
        (r, fs') \<Rightarrow> (Inr (with_audit name bindings fingerprint r), fs'))"
| "gate_execute rt ctx p Miss fs = (Inl ''execute() called on a Miss; gate must pass through'', fs)"
| "gate_execute rt ctx p (Hit name tier) fs =
     (case store_get (rt_store rt) name of
        None \<Rightarrow> (Inl ''GateDecision references an experience that left the store'', fs)
      | Some e \<Rightarrow> (case execute_experience rt ctx p e fs of (r, fs') \<Rightarrow> (Inr r, fs')))"
| "gate_execute rt ctx p (Satisfied name tier after) fs =
     (case store_get (rt_store rt) name of
        None \<Rightarrow> (Inl ''GateDecision references an experience that left the store'', fs)
      | Some e \<Rightarrow> (Inr (execute_already_satisfied p after), fs))"

definition gate :: "ExperienceGateRuntime \<Rightarrow> GateContext \<Rightarrow> ActionProposal \<Rightarrow> fsys \<Rightarrow> (string + GateOutcome) \<times> fsys" where
  "gate rt ctx p fs =
     (case decide rt fs ctx p of
        Miss \<Rightarrow> (Inr OutMiss, fs)
      | d \<Rightarrow> (case gate_execute rt ctx p d fs of
                (Inr r, fs') \<Rightarrow> (Inr (OutHit r), fs')
              | (Inl panic, fs') \<Rightarrow> (Inl panic, fs')))"


section \<open>What a probe promises\<close>

lemma fact_value_SomeD:
  "fact_value facts k = Some v \<Longrightarrow> \<exists>f. f \<in> set facts \<and> fact_key f = k \<and> fact_val f = v"
  by (induction facts) (auto simp: fact_value_def split: if_splits)

text \<open>The contract between the runtime, which reads files itself during verification, and the probe:
  a file that could be read is observed as existing and with the content that was read.\<close>

locale file_probe =
  fixes probe :: probe_fn
  assumes read_exists: "fs_read_to_string fs (path_join (cwd ctx) p) = Inr c \<Longrightarrow>
      probe fs ctx (exists_key p) = Some (JBool True)"
    and read_content: "fs_read_to_string fs (path_join (cwd ctx) p) = Inr c \<Longrightarrow>
      probe fs ctx (content_key p) = Some (JString c)"
begin

lemma verify_step_truthful:
  assumes "rt_probe rt = probe" "f \<in> set (fst (verify_step rt fs ctx v))"
  shows "probe fs ctx (fact_key f) = Some (fact_val f)"
proof (cases v)
  case (ReadFile p expect)
  from assms(2) ReadFile obtain c where c: "fs_read_to_string fs (path_join (cwd ctx) p) = Inr c"
    by (auto split: sum.splits)
  have "fact_key f = exists_key p \<and> fact_val f = JBool True \<or>
      fact_key f = content_key p \<and> fact_val f = JString c"
    using assms(2) ReadFile c
    by (auto simp: probed_fact_def StateFact_new_def Let_def split: option.splits if_splits)
  then show ?thesis using read_exists [OF c] read_content [OF c] by auto
next
  case (Probe p)
  with assms(2) have "rt_probe rt fs ctx (fact_key f) = Some (fact_val f)"
    by (auto simp: probed_fact_def StateFact_new_def Let_def split: option.splits TruthValue.splits)
  then show ?thesis by (simp add: assms(1))
qed

lemma verified_facts_truthful:
  assumes "rt_probe rt = probe" "f \<in> set (fst (verify_postconditions rt fs ctx e))"
  shows "probe fs ctx (fact_key f) = Some (fact_val f)"
  using assms verify_step_truthful by (auto simp: verify_postconditions_def Let_def)

lemma satisfied_postconditions_observed:
  assumes "rt_probe rt = probe"
    and "postconditions_satisfied_by e (fst (verify_postconditions rt fs ctx e))"
    and "c \<in> set (exp_postconditions e)"
  shows "probe fs ctx (pred_key c) = Some (pred_expected c)"
proof -
  let ?facts = "fst (verify_postconditions rt fs ctx e)"
  from assms(2,3) have "fact_value ?facts (pred_key c) = Some (pred_expected c)"
    by (auto simp: postconditions_satisfied_by_def list_all_iff pred_probe_True_iff)
  then obtain f where "f \<in> set ?facts" "fact_key f = pred_key c" "fact_val f = pred_expected c"
    using fact_value_SomeD by blast
  with verified_facts_truthful [OF assms(1)] show ?thesis by metis
qed

lemma completed_run_observed:
  assumes "rt_probe rt = probe" "run_workflow rt ctx p e before i steps ex ev eff fs = (r, fs')"
    and "completion_status r = Completed" "c \<in> set (exp_postconditions e)"
  shows "probe fs' ctx (pred_key c) = Some (pred_expected c)"
  using assms(2)
proof (induction steps arbitrary: i ex ev eff fs)
  case Nil
  then have fin: "r = finish_workflow rt ctx p e before ex ev eff fs" "fs' = fs" by auto
  obtain after remarks where v: "verify_postconditions rt fs ctx e = (after, remarks)" by (metis surj_pair)
  from assms(3) have "postconditions_satisfied_by e after"
    by (auto simp: fin finish_workflow_def v result_constructors split: if_splits)
  then show ?case using satisfied_postconditions_observed [OF assms(1) _ assms(4)] v fin by simp
next
  case (Cons step steps)
  then show ?case
    using assms(3) by (auto simp: result_constructors split: if_splits prod.splits sum.splits)
qed

end

lemma ends_content_not_exists: "strip_suffix (p @ ''.content'') ''.exists'' = None"
proof -
  have "\<not> ends_with (p @ ''.content'') ''.exists''"
  proof
    assume "ends_with (p @ ''.content'') ''.exists''"
    then obtain q where "p @ ''.content'' = q @ ''.exists''" by (auto simp: ends_with_suffix suffix_def)
    then have "last (p @ ''.content'') = last (q @ ''.exists'')" by (rule arg_cong)
    then show False by simp
  qed
  then show ?thesis by (simp add: strip_suffix_def)
qed

lemma read_imp_exists: "fs_read_to_string fs p = Inr c \<Longrightarrow> fs_exists fs p"
  by (auto simp: fs_read_to_string_def fs_read_bytes_def fs_exists_def split: option.splits)

interpretation local_probe: file_probe LocalProbe
proof
  fix fs and ctx :: GateContext and p c
  assume r: "fs_read_to_string fs (path_join (cwd ctx) p) = Inr c"
  have pre: "strip_prefix (''file:'' @ q) ''file:'' = Some q" for q by (rule strip_prefix_append)
  have ne: "(''file:'' @ q = ''cwd.exists'') = False" for q by simp
  show "LocalProbe fs ctx (exists_key p) = Some (JBool True)"
    unfolding LocalProbe_def exists_key_def pre strip_suffix_append ne using read_imp_exists [OF r] by simp
  show "LocalProbe fs ctx (content_key p) = Some (JString c)"
    unfolding LocalProbe_def content_key_def pre ne by (simp add: r ends_content_not_exists)
qed

section \<open>What a runner promises\<close>

text \<open>A runner that keeps an invariant of the file system and changes it only within a frame.\<close>

locale framed_runner =
  fixes run :: runner_fn and ctx :: GateContext
    and ok :: "fsys \<Rightarrow> bool" and same :: "fsys \<Rightarrow> fsys \<Rightarrow> bool"
  assumes same_refl: "same fs fs"
    and same_trans: "same fs fs1 \<Longrightarrow> same fs1 fs2 \<Longrightarrow> same fs fs2"
    and run_ok: "ok fs \<Longrightarrow> run ctx step fs = (r, fs') \<Longrightarrow> ok fs' \<and> same fs fs'"
begin

lemma workflow_frame:
  assumes "rt_runner rt = run"
  shows "ok fs \<Longrightarrow> run_workflow rt ctx p e before i steps ex ev eff fs = (r, fs') \<Longrightarrow> ok fs' \<and> same fs fs'"
proof (induction steps arbitrary: i ex ev eff fs)
  case Nil
  then show ?case by (simp add: same_refl)
next
  case (Cons step steps)
  show ?case
  proof (cases "rt_cancel rt i")
    case True
    with Cons.prems show ?thesis by (auto simp: same_refl)
  next
    case False
    obtain o1 fs1 where s1: "run ctx step fs = (o1, fs1)" by (metis surj_pair)
    have "ok fs1" "same fs fs1" using run_ok [OF Cons.prems(1) s1] by auto
    with Cons.prems(2) False s1 show ?thesis
      using Cons.IH [OF \<open>ok fs1\<close>] same_trans by (auto simp: assms split: sum.splits if_splits)
  qed
qed

lemma execute_frame:
  assumes "rt_runner rt = run" "ok fs" "execute_experience rt ctx p e fs = (r, fs')"
  shows "ok fs' \<and> same fs fs'"
  using workflow_frame [OF assms(1,2)] assms(3) unfolding execute_experience_def by blast

lemma gate_execute_frame:
  assumes "rt_runner rt = run" "ok fs" "gate_execute rt ctx p d fs = (r, fs')"
  shows "ok fs' \<and> same fs fs'"
proof (cases d)
  case Miss
  with assms same_refl show ?thesis by auto
next
  case (Hit n t)
  with assms same_refl execute_frame [OF assms(1,2)] show ?thesis
    by (auto split: option.splits prod.splits)
next
  case (Satisfied n t after)
  with assms same_refl show ?thesis by (auto split: option.splits)
next
  case (TemplateHit n t b f e)
  with assms execute_frame [OF assms(1,2)] show ?thesis by (auto split: prod.splits)
qed

lemma gate_frame:
  assumes "rt_runner rt = run" "ok fs" "gate rt ctx p fs = (r, fs')"
  shows "ok fs' \<and> same fs fs'"
proof (cases "decide rt fs ctx p = Miss")
  case True
  with assms same_refl show ?thesis by (auto simp: gate_def)
next
  case False
  obtain r1 fs1 where g: "gate_execute rt ctx p (decide rt fs ctx p) fs = (r1, fs1)" by (metis surj_pair)
  with assms(3) False have "fs' = fs1"
    by (auto simp: gate_def split: GateDecision.splits sum.splits)
  with gate_execute_frame [OF assms(1,2) g] show ?thesis by simp
qed

end


definition runner_ok :: "LocalRunner \<Rightarrow> GateContext \<Rightarrow> fsys \<Rightarrow> bool" where
  "runner_ok lr ctx fs \<longleftrightarrow> ex_mode (pol_exec (lr_policy lr)) \<noteq> EXEC_ALLOWLIST \<and>
     list_all clean_comp (cwd ctx) \<and>
     (case lr_backup_root lr of Some dir \<Rightarrow> list_all clean_comp dir | None \<Rightarrow> True) \<and>
     link_free fs \<and> base_dirs fs (cwd ctx)"

definition outside :: "LocalRunner \<Rightarrow> GateContext \<Rightarrow> path \<Rightarrow> bool" where
  "outside lr ctx q \<longleftrightarrow> \<not> prefix (cwd ctx) q \<and>
     (case lr_backup_root lr of Some dir \<Rightarrow> \<not> prefix dir q \<and> \<not> prefix q dir | None \<Rightarrow> True)"

definition same_outside :: "LocalRunner \<Rightarrow> GateContext \<Rightarrow> fsys \<Rightarrow> fsys \<Rightarrow> bool" where
  "same_outside lr ctx fs fs' \<longleftrightarrow> (\<forall>q. outside lr ctx q \<longrightarrow> node_at fs' q = node_at fs q)"

lemma runner_context_base:
  assumes "runner_ok lr ctx fs"
  shows "fs_base (runner_context lr ctx fs) = cwd ctx" "backup_root (runner_context lr ctx fs) = lr_backup_root lr"
    "ctx_policy (runner_context lr ctx fs) = lr_policy lr"
proof -
  have "''..'' \<notin> set (cwd ctx)" "link_free fs" "node_at fs (cwd ctx) = Some DirNode"
    using assms clean_no_dots by (auto simp: runner_ok_def base_dirs_def)
  then have "fs_canonicalize fs (cwd ctx) = Inr (cwd ctx)"
    by (simp add: fs_canonicalize_def fs_exists_def stat_def resolve_link_free)
  then show "fs_base (runner_context lr ctx fs) = cwd ctx" "backup_root (runner_context lr ctx fs) = lr_backup_root lr"
    "ctx_policy (runner_context lr ctx fs) = lr_policy lr"
    by (simp_all add: runner_context_def fs_base_def StepContext_new_def with_backup_def Let_def split: option.splits)
qed

lemma exec_off_denied:
  "ex_mode (pol_exec pol) \<noteq> EXEC_ALLOWLIST \<Longrightarrow> action = ''exec'' \<or> action = ''exec_command'' \<Longrightarrow>
   \<exists>d. policy_check pol action = Inl d"
  by (auto simp: policy_check_def refuse_def)

lemma step_with_exec_off:
  assumes "plain_context c" "ex_mode (pol_exec (ctx_policy c)) \<noteq> EXEC_ALLOWLIST"
  shows "sm_ok (confined c fs0) (execute_step h c step) (\<lambda>_. True)"
proof (cases "step_action step = ''exec'' \<or> step_action step = ''exec_command''")
  case True
  with exec_off_denied [OF assms(2)] obtain d where "policy_check (ctx_policy c) (step_action step) = Inl d" by blast
  then show ?thesis by (simp add: execute_step_def sm_ok_fail)
next
  case False
  then show ?thesis using execute_file_step_confined [OF assms(1)] by blast
qed

interpretation local_runner: framed_runner "LocalRunner_run h lr" ctx "runner_ok lr ctx" "same_outside lr ctx"
  for h lr ctx
proof
  fix fs step r fs'
  assume ok: "runner_ok lr ctx fs" and run: "LocalRunner_run h lr ctx step fs = (r, fs')"
  let ?c = "runner_context lr ctx fs" and ?s = "\<lparr>st_fs = fs, st_backups = map_option (\<lambda>_. []) (lr_backup_root lr)\<rparr>"
  obtain r1 s1 where e: "execute_step h ?c step ?s = (r1, s1)" by (metis surj_pair)
  with run have fs': "fs' = st_fs s1" by (auto simp: LocalRunner_run_def split: sum.splits)
  have "plain_context ?c"
    using ok runner_context_base [OF ok] by (simp add: plain_context_def runner_ok_def)
  moreover have "ex_mode (pol_exec (ctx_policy ?c)) \<noteq> EXEC_ALLOWLIST"
    using ok runner_context_base [OF ok] by (simp add: runner_ok_def)
  moreover have "confined ?c fs ?s"
    using ok runner_context_base [OF ok] by (simp add: confined_def runner_ok_def)
  ultimately have "confined ?c fs s1"
    using sm_okD [OF step_with_exec_off _ e] by blast
  then show "runner_ok lr ctx fs' \<and> same_outside lr ctx fs fs'"
    using ok runner_context_base [OF ok]
    by (auto simp: confined_def runner_ok_def same_outside_def outside_def region_def fs' split: option.splits)
qed (auto simp: same_outside_def)

section \<open>Properties of the Gate\<close>

text \<open>C1: a gate call that may not run programs stays in the workspace. With a runner whose policy
  has exec switched off, started on a link-free tree whose working directory exists, a whole
  gate call (decision, every workflow step, verification) changes no node outside the working
  directory and the backup area, whatever the outcome, and the same holds for the next call.\<close>

theorem gate_stays_in_workspace:
  assumes "rt_runner rt = LocalRunner_run h lr" and "runner_ok lr ctx fs" and "gate rt ctx p fs = (r, fs')"
  shows "(\<forall>q. outside lr ctx q \<longrightarrow> node_at fs' q = node_at fs q) \<and> runner_ok lr ctx fs'"
  using local_runner.gate_frame [OF assms] by (simp add: same_outside_def)

definition demo_runtime :: ExperienceGateRuntime where
  "demo_runtime = \<lparr>rt_store = demo_store, rt_probe = LocalProbe,
     rt_runner = LocalRunner_run demo_host LocalRunner_default,
     rt_cancel = (\<lambda>_. False), rt_clock = (\<lambda>_ _. 7)\<rparr>"

definition demo_ctx :: GateContext where
  "demo_ctx = \<lparr>cwd = [''w'']\<rparr>"

lemma demo_runner_ok: "runner_ok LocalRunner_default demo_ctx demo_fs"
proof -
  have "list_all clean_comp (cwd demo_ctx)" "link_free demo_fs" by code_simp+
  then show ?thesis
    using demo_base_dirs
    by (simp add: runner_ok_def demo_ctx_def LocalRunner_default_def CapabilityPolicy_default_def
        ExecPolicy_default_def policy_values)
qed

theorem gate_stays_in_workspace_witness:
  "node_at (snd (gate demo_runtime demo_ctx demo_proposal demo_fs)) [''etc''] = node_at demo_fs [''etc'']"
proof -
  obtain r fs' where g: "gate demo_runtime demo_ctx demo_proposal demo_fs = (r, fs')" by (metis surj_pair)
  have "outside LocalRunner_default demo_ctx [''etc'']" by code_simp
  moreover have "rt_runner demo_runtime = LocalRunner_run demo_host LocalRunner_default"
    by (simp add: demo_runtime_def)
  ultimately show ?thesis using gate_stays_in_workspace [OF _ demo_runner_ok g] g by simp
qed


subsection \<open>The decision\<close>

text \<open>An experience applies when all its preconditions are observed, or all its postconditions
  (at least one) already are.\<close>

definition observed :: "ExperienceGateRuntime \<Rightarrow> fsys \<Rightarrow> GateContext \<Rightarrow> Predicate list \<Rightarrow> bool" where
  "observed rt fs ctx ps \<longleftrightarrow> (\<forall>c \<in> set ps. rt_probe rt fs ctx (pred_key c) = Some (pred_expected c))"

definition applies :: "ExperienceGateRuntime \<Rightarrow> fsys \<Rightarrow> GateContext \<Rightarrow> Experience \<Rightarrow> bool" where
  "applies rt fs ctx e \<longleftrightarrow> observed rt fs ctx (exp_preconditions e) \<or>
     (exp_postconditions e \<noteq> [] \<and> observed rt fs ctx (exp_postconditions e))"

lemma preconditions_hold_iff: "preconditions_hold rt fs ctx e \<longleftrightarrow> observed rt fs ctx (exp_preconditions e)"
  by (auto simp: preconditions_hold_def list_all_iff probe_predicate_def pred_probe_True_iff observed_def)

lemma collect_facts_iff:
  "collect_facts rt fs ctx ps facts =
     (if observed rt fs ctx ps
      then Some (facts @ map (\<lambda>c. probed_fact rt fs (pred_key c) (pred_expected c) ''probe'') ps) else None)"
  by (induction ps arbitrary: facts) (auto simp: observed_def pred_probe_def split: option.splits if_splits)

lemma postcondition_facts_iff:
  "postcondition_facts rt fs ctx e =
     (if exp_postconditions e \<noteq> [] \<and> observed rt fs ctx (exp_postconditions e)
      then Some (map (\<lambda>c. probed_fact rt fs (pred_key c) (pred_expected c) ''probe'') (exp_postconditions e)) else None)"
  by (simp add: postcondition_facts_def collect_facts_iff)

lemmas decide_simps = preconditions_hold_iff postcondition_facts_iff

lemma decide_candidates_None_iff:
  "decide_candidates rt fs ctx es = None \<longleftrightarrow> (\<forall>e \<in> set es. \<not> applies rt fs ctx e)"
  by (induction es) (auto simp: decide_simps applies_def)

lemma decide_templates_Miss_iff:
  "decide_templates rt fs ctx p ts = Miss \<longleftrightarrow>
     (\<forall>t \<in> set ts. \<forall>e b. template_bind t p (path_text (cwd ctx)) = Inr (e, b) \<longrightarrow> \<not> applies rt fs ctx e)"
proof (induction ts)
  case (Cons t ts)
  show ?case
  proof (cases "template_bind t p (path_text (cwd ctx))")
    case (Inl err)
    with Cons show ?thesis by simp
  next
    case (Inr x)
    with Cons show ?thesis by (cases x) (auto simp: decide_simps applies_def)
  qed
qed simp

text \<open>The experience a decision is about: a stored candidate or an instance of a stored template.\<close>

definition offered :: "ExperienceGateRuntime \<Rightarrow> GateContext \<Rightarrow> ActionProposal \<Rightarrow> Experience \<Rightarrow> bool" where
  "offered rt ctx p e \<longleftrightarrow>
     (e \<in> set (experiences (rt_store rt)) \<and> exp_status e = Active \<and> pattern_matches (exp_trigger e) p) \<or>
     (\<exists>t b. t \<in> set (templates (rt_store rt)) \<and> tmpl_status t = Active \<and> pattern_matches (tmpl_trigger t) p \<and>
        template_bind t p (path_text (cwd ctx)) = Inr (e, b))"

text \<open>C3: the Gate passes an action through exactly when nothing applies: no ACTIVE stored experience
  that matches the proposal, and no instance of an ACTIVE matching template that binds, has
  all its preconditions observed or all its postconditions already observed. An unobservable
  key counts as not observed.\<close>

theorem miss_iff_nothing_applies:
  assumes "store_reachable (rt_store rt)"
  shows "decide rt fs ctx p = Miss \<longleftrightarrow> (\<forall>e. offered rt ctx p e \<longrightarrow> \<not> applies rt fs ctx e)"
proof -
  note wf = store_reachable_imp_wf [OF assms]
  have "decide_candidates rt fs ctx es \<noteq> Some Miss" for es
    by (induction es) (auto split: option.splits)
  then have "decide rt fs ctx p = Miss \<longleftrightarrow>
      decide_candidates rt fs ctx (candidates_for (rt_store rt) p) = None \<and>
      decide_templates rt fs ctx p (templates_for (rt_store rt) p) = Miss"
    by (auto simp: decide_def split: option.splits)
  then show ?thesis
    unfolding decide_candidates_None_iff decide_templates_Miss_iff candidates_for_wf [OF wf] templates_for_wf [OF wf] offered_def
    by auto
qed

lemma decide_candidates_SomeD:
  "decide_candidates rt fs ctx es = Some d \<Longrightarrow> \<exists>e \<in> set es. applies rt fs ctx e \<and>
     (d = Hit (exp_name e) (tier_for e) \<and> observed rt fs ctx (exp_preconditions e) \<or>
      (\<exists>after. d = Satisfied (exp_name e) (tier_for e) after \<and>
         exp_postconditions e \<noteq> [] \<and> observed rt fs ctx (exp_postconditions e)))"
  by (induction es) (auto simp: decide_simps applies_def split: if_splits)

lemma decide_templates_takeover:
  "decide_templates rt fs ctx p ts = d \<Longrightarrow> d \<noteq> Miss \<Longrightarrow> \<exists>t \<in> set ts. \<exists>e b.
     template_bind t p (path_text (cwd ctx)) = Inr (e, b) \<and> applies rt fs ctx e \<and>
     (d = TemplateHit (exp_name e) (tier_for e) b (binding_fingerprint t b) e \<and> observed rt fs ctx (exp_preconditions e) \<or>
      (\<exists>after. d = Satisfied (exp_name e) (tier_for e) after \<and>
         exp_postconditions e \<noteq> [] \<and> observed rt fs ctx (exp_postconditions e)))"
proof (induction ts)
  case (Cons t ts)
  show ?case
  proof (cases "template_bind t p (path_text (cwd ctx))")
    case (Inl err)
    with Cons show ?thesis by auto
  next
    case (Inr x)
    with Cons show ?thesis by (cases x) (auto simp: decide_simps applies_def split: if_splits)
  qed
qed simp


theorem miss_iff_nothing_applies_witness:
  "decide (demo_runtime\<lparr>rt_probe := MapProbe []\<rparr>) demo_fs demo_ctx demo_proposal = Miss \<longleftrightarrow>
     (\<forall>e. offered (demo_runtime\<lparr>rt_probe := MapProbe []\<rparr>) demo_ctx demo_proposal e \<longrightarrow>
        \<not> applies (demo_runtime\<lparr>rt_probe := MapProbe []\<rparr>) demo_fs demo_ctx e)"
  by (rule miss_iff_nothing_applies) (simp add: demo_runtime_def demo_store_reachable)

lemma decide_cases:
  assumes "store_reachable (rt_store rt)" "decide rt fs ctx p = d"
  obtains "d = Miss"
  | e where "e \<in> set (experiences (rt_store rt))" "offered rt ctx p e" "applies rt fs ctx e"
      "d = Hit (exp_name e) (tier_for e)" "observed rt fs ctx (exp_preconditions e)"
  | t e b where "t \<in> set (templates (rt_store rt))" "template_bind t p (path_text (cwd ctx)) = Inr (e, b)"
      "offered rt ctx p e" "applies rt fs ctx e"
      "d = TemplateHit (exp_name e) (tier_for e) b (binding_fingerprint t b) e" "observed rt fs ctx (exp_preconditions e)"
  | e after where "offered rt ctx p e" "applies rt fs ctx e" "d = Satisfied (exp_name e) (tier_for e) after"
      "exp_postconditions e \<noteq> []" "observed rt fs ctx (exp_postconditions e)"
proof -
  note wf = store_reachable_imp_wf [OF assms(1)]
  note offers = candidates_for_wf [OF wf, of p] templates_for_wf [OF wf, of p]
  show ?thesis
  proof (cases "decide_candidates rt fs ctx (candidates_for (rt_store rt) p)")
    case (Some d')
    with assms(2) have "d' = d" by (simp add: decide_def)
    with decide_candidates_SomeD [OF Some] obtain e where
      "e \<in> set (candidates_for (rt_store rt) p)" "applies rt fs ctx e" and
      d: "d = Hit (exp_name e) (tier_for e) \<and> observed rt fs ctx (exp_preconditions e) \<or>
        (\<exists>after. d = Satisfied (exp_name e) (tier_for e) after \<and>
           exp_postconditions e \<noteq> [] \<and> observed rt fs ctx (exp_postconditions e))" by blast
    then have "e \<in> set (experiences (rt_store rt))" "offered rt ctx p e" "applies rt fs ctx e"
      by (auto simp: offers offered_def)
    with d that(2,4) show ?thesis by blast
  next
    case None
    show ?thesis
    proof (cases "d = Miss")
      case True
      with that(1) show ?thesis .
    next
      case False
      have "decide_templates rt fs ctx p (templates_for (rt_store rt) p) = d"
        using None assms(2) by (simp add: decide_def)
      from decide_templates_takeover [OF this False] obtain t e b where
        "t \<in> set (templates_for (rt_store rt) p)" and b: "template_bind t p (path_text (cwd ctx)) = Inr (e, b)" and
        a: "applies rt fs ctx e" and
        d: "d = TemplateHit (exp_name e) (tier_for e) b (binding_fingerprint t b) e \<and>
            observed rt fs ctx (exp_preconditions e) \<or>
          (\<exists>after. d = Satisfied (exp_name e) (tier_for e) after \<and>
             exp_postconditions e \<noteq> [] \<and> observed rt fs ctx (exp_postconditions e))" by blast
      then have "t \<in> set (templates (rt_store rt))" "offered rt ctx p e"
        using b by (auto simp: offers offered_def)
      with b a d that(3,4) show ?thesis by blast
    qed
  qed
qed

text \<open>C2: a takeover is justified by evidence. Whenever the Gate does not pass through, the decision
  names a stored ACTIVE matching experience, or a bound instance of an ACTIVE matching
  template, and either every precondition was observed with its expected value, or the
  decision is \<open>Satisfied\<close> and every postcondition, at least one, was already observed.\<close>

theorem takeover_justified:
  assumes "store_reachable (rt_store rt)" and "decide rt fs ctx p = d" and "d \<noteq> Miss"
  shows "\<exists>e. offered rt ctx p e \<and> experience_name d = Some (exp_name e) \<and>
    (if is_satisfied d then exp_postconditions e \<noteq> [] \<and> observed rt fs ctx (exp_postconditions e)
     else observed rt fs ctx (exp_preconditions e))"
  using assms(1,2) by (rule decide_cases) (use assms(3) in auto)

theorem takeover_justified_witness:
  "\<exists>e. offered demo_runtime demo_ctx demo_proposal e \<and>
     experience_name (decide demo_runtime demo_fs demo_ctx demo_proposal) = Some (exp_name e)"
proof -
  have "decide demo_runtime demo_fs demo_ctx demo_proposal \<noteq> Miss" by code_simp
  moreover have "store_reachable (rt_store demo_runtime)" by (simp add: demo_runtime_def demo_store_reachable)
  ultimately show ?thesis using takeover_justified [OF _ refl] by blast
qed

subsection \<open>Execution\<close>

lemma gate_Miss: "decide rt fs ctx p = Miss \<Longrightarrow> gate rt ctx p fs = (Inr OutMiss, fs)"
  by (simp add: gate_def)

lemma gate_takeover:
  "decide rt fs ctx p \<noteq> Miss \<Longrightarrow> gate rt ctx p fs =
     (case gate_execute rt ctx p (decide rt fs ctx p) fs of
        (Inr r, fs') \<Rightarrow> (Inr (OutHit r), fs') | (Inl panic, fs') \<Rightarrow> (Inl panic, fs'))"
  by (auto simp: gate_def split: GateDecision.splits)

text \<open>C5: the Gate never panics on an experience, but does on a template whose goal already holds.
  A gate call panics if and only if the decision is \<open>Satisfied\<close> for a name that is not the
  name of a stored experience; such a decision can only come from a template.\<close>

theorem gate_panics_iff:
  assumes "store_reachable (rt_store rt)"
  shows "isl (fst (gate rt ctx p fs)) \<longleftrightarrow>
    (\<exists>n t after. decide rt fs ctx p = Satisfied n t after \<and> store_get (rt_store rt) n = None)"
proof (rule decide_cases [OF assms refl])
  assume "decide rt fs ctx p = Miss"
  then show ?thesis by (simp add: gate_Miss)
next
  fix e assume e: "e \<in> set (experiences (rt_store rt))" "decide rt fs ctx p = Hit (exp_name e) (tier_for e)"
  then have "store_get (rt_store rt) (exp_name e) = Some e"
    by (simp add: store_get_iff [OF store_reachable_imp_wf [OF assms]])
  with e show ?thesis by (simp add: gate_takeover split: prod.splits)
next
  fix t e b assume "decide rt fs ctx p = TemplateHit (exp_name e) (tier_for e) b (binding_fingerprint t b) e"
  then show ?thesis by (simp add: gate_takeover split: prod.splits)
next
  fix e after assume "decide rt fs ctx p = Satisfied (exp_name e) (tier_for e) after"
  then show ?thesis by (auto simp: gate_takeover split: option.splits)
qed


definition guarded_template :: ExperienceTemplate where
  "guarded_template = demo_template\<lparr>tmpl_preconditions :=
     [\<lparr>pred_key = ''file:d/${file}.exists'', pred_expected = JBool False\<rparr>]\<rparr>"

definition guarded_store :: ExperienceStore where
  "guarded_store = (case insert_template guarded_template ExperienceStore_default of
     Inr s \<Rightarrow> s | Inl _ \<Rightarrow> ExperienceStore_default)"

lemma guarded_store_reachable: "store_reachable guarded_store"
proof -
  have "insert_template guarded_template ExperienceStore_default = Inr guarded_store" by code_simp
  from reach_step [OF reach_default step_insert_template [OF this]] show ?thesis .
qed

definition guarded_runtime :: ExperienceGateRuntime where
  "guarded_runtime = demo_runtime\<lparr>rt_store := guarded_store,
     rt_probe := MapProbe [(''file:d/a.txt.exists'', JBool True)]\<rparr>"

theorem gate_panics_iff_witness:
  "isl (fst (gate guarded_runtime demo_ctx demo_proposal demo_fs))"
proof -
  have "\<exists>n t after. decide guarded_runtime demo_fs demo_ctx demo_proposal = Satisfied n t after \<and>
      store_get (rt_store guarded_runtime) n = None"
  proof (intro exI conjI)
    show "decide guarded_runtime demo_fs demo_ctx demo_proposal = Satisfied ''touch'' TierB
        [\<lparr>fact_key = ''file:d/a.txt.exists'', fact_val = JBool True, fact_evidence = ''probe'',
          fact_verified_at = 7, fact_ttl = None\<rparr>]" by code_simp
    show "store_get (rt_store guarded_runtime) ''touch'' = None" by code_simp
  qed
  moreover have "store_reachable (rt_store guarded_runtime)"
    by (simp add: guarded_runtime_def guarded_store_reachable)
  ultimately show ?thesis using gate_panics_iff by blast
qed

lemma completed_observed:
  assumes "store_reachable (rt_store rt)" and "rt_probe rt = LocalProbe"
    and "gate rt ctx p fs = (Inr (OutHit r), fs')" and "completion_status r = Completed"
  shows "\<exists>e. offered rt ctx p e \<and> experience_name (decide rt fs ctx p) = Some (exp_name e) \<and>
    (\<forall>c \<in> set (exp_postconditions e). LocalProbe fs' ctx (pred_key c) = Some (pred_expected c))"
proof (rule decide_cases [OF assms(1) refl])
  assume "decide rt fs ctx p = Miss"
  with assms(3) show ?thesis by (simp add: gate_Miss)
next
  fix e assume e: "e \<in> set (experiences (rt_store rt))" "offered rt ctx p e"
    "decide rt fs ctx p = Hit (exp_name e) (tier_for e)"
  then have "store_get (rt_store rt) (exp_name e) = Some e"
    by (simp add: store_get_iff [OF store_reachable_imp_wf [OF assms(1)]])
  with e assms(3) have "execute_experience rt ctx p e fs = (r, fs')"
    by (auto simp: gate_takeover split: prod.splits)
  then have "\<forall>c \<in> set (exp_postconditions e). LocalProbe fs' ctx (pred_key c) = Some (pred_expected c)"
    using local_probe.completed_run_observed [OF assms(2) _ assms(4)] unfolding execute_experience_def by blast
  with e show ?thesis by auto
next
  fix t e b assume e: "offered rt ctx p e"
    "decide rt fs ctx p = TemplateHit (exp_name e) (tier_for e) b (binding_fingerprint t b) e"
  with assms(3) obtain r0 where r0: "execute_experience rt ctx p e fs = (r0, fs')"
      "r = with_audit (exp_name e) b (binding_fingerprint t b) r0"
    by (auto simp: gate_takeover split: prod.splits)
  then have "completion_status r0 = Completed"
    using assms(4) by (simp add: with_audit_def with_template_audit_def)
  with r0(1) have "\<forall>c \<in> set (exp_postconditions e). LocalProbe fs' ctx (pred_key c) = Some (pred_expected c)"
    using local_probe.completed_run_observed [OF assms(2)] unfolding execute_experience_def by blast
  with e show ?thesis by auto
next
  fix e after assume e: "offered rt ctx p e" "decide rt fs ctx p = Satisfied (exp_name e) (tier_for e) after"
    and o: "observed rt fs ctx (exp_postconditions e)"
  from e(2) assms(3) have "fs' = fs" by (auto simp: gate_takeover split: option.splits)
  with e o show ?thesis by (auto simp: observed_def assms(2))
qed

text \<open>C4: completion is never just asserted. With the local probe, whenever a gate call reports a
  completed result, every postcondition of the experience it was about is observed, with its
  expected value, in the file system the call leaves behind; this holds for stored
  experiences, for template instances and for the already-satisfied short cut.\<close>

theorem completed_means_observed:
  assumes "store_reachable (rt_store rt)" and "rt_probe rt = LocalProbe"
    and "gate rt ctx p fs = (Inr (OutHit r), fs')" and "completion_status r = Completed"
  shows "\<exists>e. offered rt ctx p e \<and> experience_name (decide rt fs ctx p) = Some (exp_name e) \<and>
    (\<forall>c \<in> set (exp_postconditions e). LocalProbe fs' ctx (pred_key c) = Some (pred_expected c))"
  using assms by (rule completed_observed)

definition probing_instance :: Experience where
  "probing_instance = demo_instance\<lparr>exp_verification := [ReadFile ''d/a.txt'' None]\<rparr>"

definition probing_store :: ExperienceStore where
  "probing_store = (case store_insert probing_instance ExperienceStore_default of
     Inr s \<Rightarrow> s | Inl _ \<Rightarrow> ExperienceStore_default)"

definition probing_runtime :: ExperienceGateRuntime where
  "probing_runtime = demo_runtime\<lparr>rt_store := probing_store\<rparr>"

theorem completed_means_observed_witness:
  "\<exists>r fs' e. gate probing_runtime demo_ctx demo_proposal demo_fs = (Inr (OutHit r), fs') \<and>
     completion_status r = Completed \<and> offered probing_runtime demo_ctx demo_proposal e \<and>
     (\<forall>c \<in> set (exp_postconditions e). LocalProbe fs' demo_ctx (pred_key c) = Some (pred_expected c))"
proof -
  have "store_insert probing_instance ExperienceStore_default = Inr probing_store" by code_simp
  from reach_step [OF reach_default step_insert [OF this]] have "store_reachable probing_store" .
  then have reach: "store_reachable (rt_store probing_runtime)" by (simp add: probing_runtime_def)
  have probe: "rt_probe probing_runtime = LocalProbe" by (simp add: probing_runtime_def demo_runtime_def)
  have "case fst (gate probing_runtime demo_ctx demo_proposal demo_fs) of
      Inr (OutHit r) \<Rightarrow> completion_status r = Completed | _ \<Rightarrow> False" by code_simp
  then obtain r fs' where g: "gate probing_runtime demo_ctx demo_proposal demo_fs = (Inr (OutHit r), fs')"
      "completion_status r = Completed"
    by (cases "gate probing_runtime demo_ctx demo_proposal demo_fs") (auto split: sum.splits GateOutcome.splits)
  from completed_means_observed [OF reach probe g] g show ?thesis by blast
qed

subsection \<open>The workflow\<close>

text \<open>The reference reading of a workflow: the steps applied in order.\<close>

definition apply_steps :: "runner_fn \<Rightarrow> GateContext \<Rightarrow> WorkflowStep list \<Rightarrow> fsys \<Rightarrow> fsys" where
  "apply_steps run ctx steps fs = foldl (\<lambda>fs step. snd (run ctx step fs)) fs steps"

definition steps_of :: "ExecutedStep list \<Rightarrow> (string \<times> json) list" where
  "steps_of ex = map (\<lambda>d. (done_action d, done_args d)) ex"

lemma run_workflow_prefix:
  assumes "run_workflow rt ctx p e before i steps ex ev eff fs = (r, fs')"
  shows "\<exists>n \<le> length steps.
    steps_of (executed r) = steps_of ex @ map (\<lambda>s. (step_action s, step_args s)) (take n steps) \<and>
    (completion_status r = CFailed \<longleftrightarrow> n < length steps) \<and>
    (fs' = apply_steps (rt_runner rt) ctx (take n steps) fs \<or>
     n < length steps \<and> fs' = apply_steps (rt_runner rt) ctx (take (Suc n) steps) fs)"
  using assms
proof (induction steps arbitrary: i ex ev eff fs)
  case Nil
  then show ?case
    by (auto simp: finish_workflow_def result_constructors apply_steps_def split: prod.splits if_splits)
next
  case (Cons step steps)
  obtain o1 fs1 where s1: "rt_runner rt ctx step fs = (o1, fs1)" by (metis surj_pair)
  show ?case
  proof (cases "rt_cancel rt i \<or> isl o1 \<or> exit_mismatch step (projr o1)")
    case True
    with Cons.prems s1 show ?thesis
      by (intro exI [of _ 0]) (auto simp: result_constructors apply_steps_def split: if_splits sum.splits)
  next
    case False
    then obtain out where out: "o1 = Inr out" by (cases o1) auto
    let ?d = "\<lparr>done_action = step_action step, done_args = step_args step, done_evidence = Some (out_evidence out)\<rparr>"
    from Cons.prems s1 False out have
      "run_workflow rt ctx p e before (Suc i) steps (ex @ [?d]) (ev @ [out_evidence out]) (eff @ out_side_effects out) fs1 = (r, fs')"
      by simp
    from Cons.IH [OF this] obtain n where n: "n \<le> length steps"
      "steps_of (executed r) = steps_of (ex @ [?d]) @ map (\<lambda>s. (step_action s, step_args s)) (take n steps)"
      "completion_status r = CFailed \<longleftrightarrow> n < length steps"
      "fs' = apply_steps (rt_runner rt) ctx (take n steps) fs1 \<or>
       n < length steps \<and> fs' = apply_steps (rt_runner rt) ctx (take (Suc n) steps) fs1" by blast
    then show ?thesis
      by (intro exI [of _ "Suc n"]) (auto simp: steps_of_def apply_steps_def s1)
  qed
qed

text \<open>A failure stops the chain. The steps reported as executed are the first \<open>n\<close> steps of the
  workflow, in order and with their arguments; the run failed exactly if \<open>n\<close> is smaller than
  the workflow, and the file system it leaves is the one the first \<open>n\<close> steps produce, plus at
  most the effect of the one step that was refused. No later step is ever attempted.\<close>

theorem failure_stops_workflow:
  assumes "execute_experience rt ctx p e fs = (r, fs')"
  shows "\<exists>n \<le> length (exp_workflow e).
    steps_of (executed r) = map (\<lambda>s. (step_action s, step_args s)) (take n (exp_workflow e)) \<and>
    (completion_status r = CFailed \<longleftrightarrow> n < length (exp_workflow e)) \<and>
    (fs' = apply_steps (rt_runner rt) ctx (take n (exp_workflow e)) fs \<or>
     n < length (exp_workflow e) \<and> fs' = apply_steps (rt_runner rt) ctx (take (Suc n) (exp_workflow e)) fs)"
  using run_workflow_prefix [OF assms [unfolded execute_experience_def]] by (simp add: steps_of_def)

theorem failure_stops_workflow_witness:
  "\<exists>n \<le> 1. steps_of (executed (fst (execute_experience demo_runtime demo_ctx demo_proposal demo_instance demo_fs))) =
     map (\<lambda>s. (step_action s, step_args s)) (take n (exp_workflow demo_instance))"
proof -
  have "length (exp_workflow demo_instance) = 1" by code_simp
  then show ?thesis
    using failure_stops_workflow [of demo_runtime demo_ctx demo_proposal demo_instance demo_fs]
    by (metis surj_pair fst_conv)
qed

text \<open>Only a takeover touches the world. A miss and an already-satisfied experience leave the file
  system exactly as it was, and the latter reports no executed step.\<close>

theorem passive_outcomes_change_nothing:
  assumes "\<And>e n t b f. decide rt fs ctx p \<noteq> Hit n t \<and> decide rt fs ctx p \<noteq> TemplateHit n t b f e"
  shows "snd (gate rt ctx p fs) = fs \<and>
    (\<forall>r. fst (gate rt ctx p fs) = Inr (OutHit r) \<longrightarrow> executed r = [] \<and> executed_side_effects r = [] \<and> is_success r)"
proof (cases "decide rt fs ctx p")
  case Miss
  then show ?thesis by (simp add: gate_Miss)
next
  case (Satisfied n t after)
  then show ?thesis
    by (auto simp: gate_takeover execute_already_satisfied_def result_constructors is_success_def split: option.splits)
qed (use assms in auto)

theorem passive_outcomes_change_nothing_witness:
  "snd (gate guarded_runtime demo_ctx demo_proposal demo_fs) = demo_fs"
proof -
  have "is_satisfied (decide guarded_runtime demo_fs demo_ctx demo_proposal)" by code_simp
  then have "decide guarded_runtime demo_fs demo_ctx demo_proposal \<noteq> Hit n t \<and>
      decide guarded_runtime demo_fs demo_ctx demo_proposal \<noteq> TemplateHit n t b f e" for e n t b f by auto
  from passive_outcomes_change_nothing [OF this] show ?thesis by blast
qed

end
