(* ===== verification/State_Source.thy ===== *)
theory State_Source
  imports Gate Redact
begin

text \<open>
  The state source registry (\<open>state_source.rs\<close>): which family produces a predicate key, and how each
  family observes it. The file family reads the modelled file system; what lies outside the
  process (the git executable, TCP) is the record \<open>World\<close>, an argument of every probe:
  \<open>git_process\<close> is the outcome of one spawned git command (exit success and raw standard
  output, or no process), \<open>http_peer\<close> the chunks a connected peer sends back for a request (or no
  connection), \<open>tcp_open\<close> whether a loopback connection attempt is accepted in time.
\<close>

section \<open>Observations and policy\<close>

record ProbeResult =
  pr_value :: "json option"
  pr_source :: string
  pr_observed_at :: nat
  pr_ttl :: "nat option"

record ProbePolicy =
  allow_network :: bool
  allow_git :: bool
  http_timeout_ms :: nat
  port_timeout_ms :: nat

definition ProbePolicy_default :: ProbePolicy where
  "ProbePolicy_default = \<lparr>allow_network = False, allow_git = True, http_timeout_ms = 2000, port_timeout_ms = 500\<rparr>"

datatype Loopback = LoopbackV4 | LoopbackV6

record World =
  git_process :: "string list \<Rightarrow> path \<Rightarrow> (bool \<times> string) option"
  http_peer :: "string \<Rightarrow> nat \<Rightarrow> nat \<Rightarrow> string \<Rightarrow> string list option"
  tcp_open :: "Loopback \<Rightarrow> nat \<Rightarrow> nat \<Rightarrow> bool"
  world_clock :: nat

definition pr_observed :: "World \<Rightarrow> json \<Rightarrow> string \<Rightarrow> nat option \<Rightarrow> ProbeResult" where
  "pr_observed w v source ttl =
     \<lparr>pr_value = Some v, pr_source = source, pr_observed_at = world_clock w, pr_ttl = ttl\<rparr>"

definition pr_unknown :: "World \<Rightarrow> string \<Rightarrow> ProbeResult" where
  "pr_unknown w source =
     \<lparr>pr_value = None, pr_source = source, pr_observed_at = world_clock w, pr_ttl = None\<rparr>"

section \<open>Families\<close>

definition FAMILIES :: "string list" where
  "FAMILIES = [''fs'', ''exec'', ''git'', ''http'', ''net'']"

definition family_of :: "string \<Rightarrow> string option" where
  "family_of key =
     (if key = ''cwd.exists'' \<or> starts_with key ''file:'' \<or> starts_with key ''dir:'' then Some ''fs''
      else if starts_with key ''process.'' then Some ''exec''
      else if starts_with key ''git.'' then Some ''git''
      else if starts_with key ''http.'' then Some ''http''
      else if starts_with key ''port.'' then Some ''net''
      else None)"

definition observable :: "string \<Rightarrow> bool" where
  "observable key \<longleftrightarrow> family_of key \<noteq> None"

section \<open>Files\<close>

definition hex :: "string \<Rightarrow> string" where
  "hex bytes = concat (map (\<lambda>b. hex_digits 2 (byte_of b)) bytes)"

definition probe_content :: "World \<Rightarrow> fsys \<Rightarrow> path \<Rightarrow> ProbeResult" where
  "probe_content w fs full =
     (case fs_read_to_string fs full of
        Inr content \<Rightarrow> pr_observed w (JString content) ''fs.read'' None
      | Inl e \<Rightarrow>
          (if fs_exists fs full then pr_unknown w (''fs.read:error:'' @ io_text e)
           else pr_observed w (JBool False) ''fs.read:missing'' None))"

definition probe_size :: "World \<Rightarrow> fsys \<Rightarrow> path \<Rightarrow> ProbeResult" where
  "probe_size w fs full =
     (case fs_len fs full of
        Inr n \<Rightarrow> pr_observed w (JNumber (int n)) ''fs.stat'' None
      | Inl _ \<Rightarrow> pr_observed w (JBool False) ''fs.stat:missing'' None)"

definition probe_sha256 :: "World \<Rightarrow> fsys \<Rightarrow> path \<Rightarrow> ProbeResult" where
  "probe_sha256 w fs full =
     (case fs_read_bytes fs full of
        Inr bytes \<Rightarrow> pr_observed w (JString (hex (sha256 bytes))) ''fs.sha256'' None
      | Inl _ \<Rightarrow> pr_observed w (JBool False) ''fs.sha256:missing'' None)"

definition probe_file :: "World \<Rightarrow> fsys \<Rightarrow> string \<Rightarrow> path \<Rightarrow> ProbeResult" where
  "probe_file w fs rest base_dir =
     (case strip_suffix rest ''.content'' of
        Some p \<Rightarrow> probe_content w fs (path_join base_dir p)
      | None \<Rightarrow>
     (case strip_suffix rest ''.exists'' of
        Some p \<Rightarrow> pr_observed w (JBool (fs_exists fs (path_join base_dir p))) ''fs.stat'' None
      | None \<Rightarrow>
     (case strip_suffix rest ''.size'' of
        Some p \<Rightarrow> probe_size w fs (path_join base_dir p)
      | None \<Rightarrow>
     (case strip_suffix rest ''.sha256'' of
        Some p \<Rightarrow> probe_sha256 w fs (path_join base_dir p)
      | None \<Rightarrow> pr_unknown w (''fs:unsupported-suffix:'' @ rest)))))"

section \<open>Git\<close>

definition run_git :: "World \<Rightarrow> string list \<Rightarrow> path \<Rightarrow> string option" where
  "run_git w args base_dir =
     (case git_process w args base_dir of
        None \<Rightarrow> None
      | Some (success, raw) \<Rightarrow>
          (if \<not> success \<and> (args = [] \<or> hd args \<noteq> ''status'') then None else Some (utf8_lossy raw)))"

definition head_branch :: "World \<Rightarrow> fsys \<Rightarrow> path \<Rightarrow> ProbeResult" where
  "head_branch w fs base_dir =
     (let head = (case fs_read_to_string fs (path_join base_dir ''.git/HEAD'') of Inr h \<Rightarrow> h | Inl _ \<Rightarrow> [])
      in case strip_prefix (trim_str head) ''ref: refs/heads/'' of
           Some branch \<Rightarrow> pr_observed w (JString branch) ''git.head'' (Some 30)
         | None \<Rightarrow> pr_unknown w ''git:unavailable'')"

definition probe_branch :: "World \<Rightarrow> fsys \<Rightarrow> path \<Rightarrow> ProbeResult" where
  "probe_branch w fs base_dir =
     (case run_git w [''rev-parse'', ''--abbrev-ref'', ''HEAD''] base_dir of
        Some out \<Rightarrow>
          (if trim_str out \<noteq> ''HEAD'' \<and> trim_str out \<noteq> []
           then pr_observed w (JString (trim_str out)) ''git'' (Some 30)
           else head_branch w fs base_dir)
      | None \<Rightarrow> head_branch w fs base_dir)"

definition probe_git :: "World \<Rightarrow> fsys \<Rightarrow> string \<Rightarrow> path \<Rightarrow> ProbePolicy \<Rightarrow> ProbeResult" where
  "probe_git w fs rest base_dir policy =
     (if \<not> allow_git policy then pr_unknown w ''git:policy-off''
      else if rest = ''branch'' then probe_branch w fs base_dir
      else if rest = ''dirty'' then
        (case run_git w [''status'', ''--porcelain''] base_dir of
           Some out \<Rightarrow> pr_observed w (JBool (trim_str out \<noteq> [])) ''git'' (Some 30)
         | None \<Rightarrow> pr_unknown w ''git:unavailable'')
      else if rest = ''last_commit'' then
        (case run_git w [''rev-parse'', ''HEAD''] base_dir of
           Some out \<Rightarrow> pr_observed w (JString (trim_str out)) ''git'' (Some 30)
         | None \<Rightarrow> pr_unknown w ''git:unavailable'')
      else pr_unknown w (''git:unsupported:'' @ rest))"

section \<open>HTTP and ports\<close>

record HttpFetch =
  fetch_status :: nat
  fetch_body :: string

definition http_crlf :: string where
  "http_crlf = [CHR 0x0D, CHR 0x0A]"

fun read_chunks :: "string list \<Rightarrow> string \<Rightarrow> string" where
  "read_chunks [] raw = raw"
| "read_chunks (chunk # chunks) raw =
     (if length (raw @ chunk) > 512 * 1024 then raw @ chunk else read_chunks chunks (raw @ chunk))"

definition split_authority :: "string \<Rightarrow> string \<times> string" where
  "split_authority rest =
     (case find_str rest ''/'' of
        Some i \<Rightarrow> (take i rest, drop i rest)
      | None \<Rightarrow> (rest, ''/''))"

definition host_port :: "string \<Rightarrow> (string \<times> nat) option" where
  "host_port authority =
     (case rsplit_once (CHR '':'') authority of
        Some (host, port) \<Rightarrow> map_option (\<lambda>n. (host, n)) (parse_u16 port)
      | None \<Rightarrow> Some (authority, 80))"

definition http_request :: "string \<Rightarrow> string \<Rightarrow> string" where
  "http_request authority target =
     ''GET '' @ target @ '' HTTP/1.0'' @ http_crlf @ ''Host: '' @ authority @ http_crlf @
     ''Connection: close'' @ http_crlf @ http_crlf"

definition parse_response :: "string \<Rightarrow> HttpFetch option" where
  "parse_response response =
     (case split_once response (http_crlf @ http_crlf) of
        None \<Rightarrow> None
      | Some (head, body) \<Rightarrow>
          (case str_lines head of
             [] \<Rightarrow> None
           | line # _ \<Rightarrow>
               (case split_whitespace line of
                  _ # code # _ \<Rightarrow> map_option (\<lambda>n. \<lparr>fetch_status = n, fetch_body = body\<rparr>) (parse_u16 code)
                | _ \<Rightarrow> None)))"

definition fetch_http :: "World \<Rightarrow> string \<Rightarrow> nat \<Rightarrow> HttpFetch option" where
  "fetch_http w url timeout_ms =
     (case strip_prefix url ''http://'' of
        None \<Rightarrow> None
      | Some rest \<Rightarrow>
          (case split_authority rest of
             (authority, target) \<Rightarrow>
               (case host_port authority of
                  None \<Rightarrow> None
                | Some (host, port) \<Rightarrow>
                    (case http_peer w host port (max 1 timeout_ms) (http_request authority target) of
                       None \<Rightarrow> None
                     | Some chunks \<Rightarrow> parse_response (utf8_lossy (read_chunks chunks []))))))"

definition probe_http :: "World \<Rightarrow> string \<Rightarrow> ProbePolicy \<Rightarrow> ProbeResult" where
  "probe_http w rest policy =
     (if \<not> allow_network policy then pr_unknown w ''http:policy-off''
      else case split_once rest '':'' of
        None \<Rightarrow> pr_unknown w (''http:unsupported:'' @ rest)
      | Some (kind, url) \<Rightarrow>
          (case fetch_http w url (http_timeout_ms policy) of
             None \<Rightarrow> pr_unknown w ''http:unreachable''
           | Some fetch \<Rightarrow>
               (if kind = ''status'' then pr_observed w (JNumber (int (fetch_status fetch))) ''http'' (Some 15)
                else if kind = ''body_sha256'' then
                  pr_observed w (JString (hex (sha256 (fetch_body fetch)))) ''http'' (Some 15)
                else pr_unknown w (''http:unsupported:'' @ kind))))"

definition probe_port :: "World \<Rightarrow> string \<Rightarrow> ProbePolicy \<Rightarrow> ProbeResult" where
  "probe_port w rest policy =
     (case parse_u16 rest of
        None \<Rightarrow> pr_unknown w (''port:invalid:'' @ rest)
      | Some port \<Rightarrow>
          pr_observed w (JBool (list_ex (\<lambda>addr. tcp_open w addr port (max 1 (port_timeout_ms policy)))
            [LoopbackV4, LoopbackV6])) ''net.port'' (Some 10))"

section \<open>One key\<close>

definition probe_dir :: "World \<Rightarrow> fsys \<Rightarrow> string \<Rightarrow> path \<Rightarrow> ProbeResult" where
  "probe_dir w fs rest base_dir =
     (case strip_suffix rest ''.exists'' of
        Some p \<Rightarrow> pr_observed w (JBool (fs_is_dir fs (path_join base_dir p))) ''fs.dir'' None
      | None \<Rightarrow> pr_unknown w ''fs.dir:unsupported-suffix'')"

definition state_probe :: "World \<Rightarrow> fsys \<Rightarrow> string \<Rightarrow> path \<Rightarrow> ProbePolicy \<Rightarrow> ProbeResult" where
  "state_probe w fs key base_dir policy =
     (if key = ''cwd.exists'' then pr_observed w (JBool (fs_is_dir fs base_dir)) ''cwd'' None
      else case strip_prefix key ''file:'' of
        Some rest \<Rightarrow> probe_file w fs rest base_dir
      | None \<Rightarrow>
     (case strip_prefix key ''dir:'' of
        Some rest \<Rightarrow> probe_dir w fs rest base_dir
      | None \<Rightarrow>
     (case strip_prefix key ''git.'' of
        Some rest \<Rightarrow> probe_git w fs rest base_dir policy
      | None \<Rightarrow>
     (case strip_prefix key ''http.'' of
        Some rest \<Rightarrow> probe_http w rest policy
      | None \<Rightarrow>
     (case strip_prefix key ''port.'' of
        Some rest \<Rightarrow> probe_port w (case strip_prefix rest ''open:'' of Some r \<Rightarrow> r | None \<Rightarrow> rest) policy
      | None \<Rightarrow>
     (case strip_prefix key ''port:'' of
        Some rest \<Rightarrow> probe_port w rest policy
      | None \<Rightarrow> pr_unknown w (''unregistered:'' @ key)))))))"


section \<open>Where an observation comes from\<close>

lemma pr_simps [simp]:
  "pr_value (pr_observed w v s t) = Some v" "pr_ttl (pr_observed w v s t) = t"
  "pr_value (pr_unknown w s) = None" "pr_ttl (pr_unknown w s) = None"
  by (simp_all add: pr_observed_def pr_unknown_def)

lemmas file_probes = probe_file_def probe_content_def probe_size_def probe_sha256_def probe_dir_def
lemmas git_probes = probe_git_def probe_branch_def head_branch_def Let_def

lemma strip_prefix_None_iff: "strip_prefix s t = None \<longleftrightarrow> \<not> starts_with s t"
  by (simp add: strip_prefix_def)

lemma strip_prefix_SomeE: "strip_prefix s t = Some r \<Longrightarrow> starts_with s t \<and> s = t @ r"
  using strip_prefix_SomeD [of s t r] by (auto simp: starts_with_append)

lemma file_probe_ttl: "pr_ttl (probe_file w fs rest d) = None" "pr_ttl (probe_dir w fs rest d) = None"
  by (auto simp: file_probes split: option.split sum.split)

lemma git_probe_observed:
  "pr_value (probe_git w fs rest d pol) = Some v \<Longrightarrow> allow_git pol \<and> pr_ttl (probe_git w fs rest d pol) = Some 30"
  by (auto simp: git_probes split: option.splits if_splits sum.splits)

lemma http_probe_observed:
  "pr_value (probe_http w rest pol) = Some v \<Longrightarrow> allow_network pol \<and> pr_ttl (probe_http w rest pol) = Some 15"
  by (auto simp: probe_http_def split: option.splits if_splits)

lemma port_probe_observed: "pr_value (probe_port w rest pol) = Some v \<Longrightarrow> pr_ttl (probe_port w rest pol) = Some 10"
  by (auto simp: probe_port_def split: option.splits)


lemma families:
  "family_of (''file:'' @ r) = Some ''fs''" "family_of (''dir:'' @ r) = Some ''fs''"
  "family_of (''process.'' @ r) = Some ''exec''" "family_of (''git.'' @ r) = Some ''git''"
  "family_of (''http.'' @ r) = Some ''http''" "family_of (''port.'' @ r) = Some ''net''"
  by (simp_all add: family_of_def starts_with_def)

text \<open>A file observation reads nothing of the outside world but the clock.\<close>

lemma same_clock:
  assumes "world_clock w' = world_clock w"
  shows "pr_observed w' v s t = pr_observed w v s t" "pr_unknown w' s = pr_unknown w s"
    "probe_file w' fs rest d = probe_file w fs rest d" "probe_dir w' fs rest d = probe_dir w fs rest d"
proof -
  have o: "pr_observed w' = pr_observed w" and u: "pr_unknown w' = pr_unknown w"
    using assms by (simp_all add: fun_eq_iff pr_observed_def pr_unknown_def)
  show "pr_observed w' v s t = pr_observed w v s t" "pr_unknown w' s = pr_unknown w s"
    "probe_file w' fs rest d = probe_file w fs rest d" "probe_dir w' fs rest d = probe_dir w fs rest d"
    unfolding file_probes o u by (rule refl)+
qed

text \<open>The one source a key is given to.\<close>

lemma probe_sources:
  obtains (fs) "family_of key = Some ''fs''" "pr_ttl (state_probe w fs key d pol) = None"
      "\<And>w'. world_clock w' = world_clock w \<Longrightarrow> state_probe w' fs key d pol = state_probe w fs key d pol"
    | (git) rest where "family_of key = Some ''git''" "state_probe w fs key d pol = probe_git w fs rest d pol"
    | (http) rest where "family_of key = Some ''http''" "state_probe w fs key d pol = probe_http w rest pol"
    | (net) rest where "family_of key = Some ''net'' \<or> starts_with key ''port:''" "state_probe w fs key d pol = probe_port w rest pol"
    | (other) "state_probe w fs key d pol = pr_unknown w (''unregistered:'' @ key)"
proof -
  show thesis
  proof (cases "key = ''cwd.exists''")
    case True
    then have "family_of key = Some ''fs''" by (simp add: family_of_def)
    then show thesis by (rule fs) (simp add: state_probe_def True, simp add: state_probe_def True, erule same_clock(1))
  next
    case c: False
    show thesis
    proof (cases "strip_prefix key ''file:''")
      case (Some r)
      note f = Some
      from Some have "family_of key = Some ''fs''" by (auto simp: families [unfolded append_Cons append_Nil] dest!: strip_prefix_SomeD)
      then show thesis
        by (rule fs) (simp add: state_probe_def c f file_probe_ttl, simp add: state_probe_def c f, erule same_clock(3))
    next
      case f: None
      show thesis
      proof (cases "strip_prefix key ''dir:''")
        case d: (Some r)
        then have "family_of key = Some ''fs''" by (auto simp: families [unfolded append_Cons append_Nil] dest!: strip_prefix_SomeD)
        then show thesis
          by (rule fs) (simp add: state_probe_def c f d file_probe_ttl, simp add: state_probe_def c f d, erule same_clock(4))
      next
        case d: None
        note step = state_probe_def [of w] c f d
        show thesis
        proof (cases "strip_prefix key ''git.''")
          case g: (Some r)
          then have "family_of key = Some ''git''" by (auto simp: families [unfolded append_Cons append_Nil] dest!: strip_prefix_SomeD)
          then show thesis by (rule git) (simp add: step g)
        next
          case g: None
          show thesis
          proof (cases "strip_prefix key ''http.''")
            case h: (Some r)
            then have "family_of key = Some ''http''" by (auto simp: families [unfolded append_Cons append_Nil] dest!: strip_prefix_SomeD)
            then show thesis by (rule http) (simp add: step g h)
          next
            case h: None
            show thesis
            proof (cases "strip_prefix key ''port.''")
              case p: (Some r)
              then have "family_of key = Some ''net'' \<or> starts_with key ''port:''"
                by (auto simp: families [unfolded append_Cons append_Nil] dest!: strip_prefix_SomeD)
              then show thesis by (rule net) (simp add: step g h p)
            next
              case p: None
              show thesis
              proof (cases "strip_prefix key ''port:''")
                case q: (Some r)
                then have "family_of key = Some ''net'' \<or> starts_with key ''port:''"
                  by (auto simp: strip_prefix_def split: if_splits)
                then show thesis by (rule net) (simp add: step g h p q)
              next
                case None
                show thesis by (rule other) (simp add: step g h p None)
              qed
            qed
          qed
        qed
      qed
    qed
  qed
qed


text \<open>Every observed value has a registered, permitted source. Whatever the outside world answers, a
  probe that yields a value was answered by the file family (never stale, no time to live, and
  independent of everything but the files and the clock), by git (only when the policy allows
  git, 30 seconds), by HTTP (only when the policy allows the network, 15 seconds) or by a
  loopback port attempt (10 seconds); in particular no \<open>process.\<close> key is ever observed here,
  although the registry calls it observable.\<close>

theorem observation_has_source:
  assumes "pr_value (state_probe w fs key d pol) = Some v"
  shows "(family_of key = Some ''fs'' \<and> pr_ttl (state_probe w fs key d pol) = None \<and>
           (\<forall>w'. world_clock w' = world_clock w \<longrightarrow> state_probe w' fs key d pol = state_probe w fs key d pol)) \<or>
         (family_of key = Some ''git'' \<and> allow_git pol \<and> pr_ttl (state_probe w fs key d pol) = Some 30) \<or>
         (family_of key = Some ''http'' \<and> allow_network pol \<and> pr_ttl (state_probe w fs key d pol) = Some 15) \<or>
         ((family_of key = Some ''net'' \<or> starts_with key ''port:'') \<and> pr_ttl (state_probe w fs key d pol) = Some 10)"
  using probe_sources [of key w fs d pol]
proof cases
  case fs
  then show ?thesis by blast
next
  case (git rest)
  with assms git_probe_observed [of w fs rest d pol v] show ?thesis by simp
next
  case (http rest)
  with assms http_probe_observed [of w rest pol v] show ?thesis by simp
next
  case (net rest)
  with assms port_probe_observed [of w rest pol v] show ?thesis by simp
next
  case other
  with assms show ?thesis by simp
qed

definition offline_world :: World where
  "offline_world = \<lparr>git_process = (\<lambda>_ _. Some (True, ''main'' @ [CHR 0x0A])), http_peer = (\<lambda>_ _ _ _. None),
     tcp_open = (\<lambda>_ _ _. False), world_clock = 0\<rparr>"

theorem observation_has_source_witness:
  "pr_ttl (state_probe offline_world root_fs ''git.branch'' [] ProbePolicy_default) = Some 30"
proof -
  have v: "pr_value (state_probe offline_world root_fs ''git.branch'' [] ProbePolicy_default) = Some (JString ''main'')"
    and f: "family_of ''git.branch'' = Some ''git''" "\<not> starts_with ''git.branch'' ''port:''" by code_simp+
  from observation_has_source [OF v] f show ?thesis by simp
qed

section \<open>Agreement with the probe of the Gate\<close>

lemma content_suffix_not_exists: "strip_suffix rest ''.exists'' = Some p \<Longrightarrow> strip_suffix rest ''.content'' = None"
proof (rule ccontr)
  assume "strip_suffix rest ''.exists'' = Some p" "strip_suffix rest ''.content'' \<noteq> None"
  then obtain q where "rest = q @ ''.content''" by (auto simp: strip_suffix_def ends_with_suffix suffix_def split: if_splits)
  with \<open>strip_suffix rest ''.exists'' = Some p\<close> show False using ends_content_not_exists [of q] by simp
qed

text \<open>The two probes of the runtime do not contradict each other. Whenever the probe of the Gate
  reaches a verdict on a predicate (true or false, not unknown) in a working directory that is
  not a plain file, the state source registry reaches the same verdict, with every policy and
  whatever the outside world looks like. The registry answers more keys, and calls the content
  of a missing file false where the Gate calls it unknown.\<close>

theorem probes_agree:
  assumes "pred_probe p (LocalProbe fs ctx (pred_key p)) \<noteq> TV_Unknown" and "\<not> fs_is_file fs (cwd ctx)"
  shows "pred_probe p (pr_value (state_probe w fs (pred_key p) (cwd ctx) pol)) = pred_probe p (LocalProbe fs ctx (pred_key p))"
proof -
  let ?k = "pred_key p"
  from assms(1) obtain v where v: "LocalProbe fs ctx ?k = Some v"
    by (auto simp: pred_probe_Unknown_iff)
  show ?thesis
  proof (cases "?k = ''cwd.exists''")
    case True
    have "fs_exists fs (cwd ctx) = fs_is_dir fs (cwd ctx)"
      using assms(2) by (auto simp: fs_exists_def fs_is_dir_def fs_is_file_def stat_def split: option.splits node.splits)
    then show ?thesis by (simp add: True LocalProbe_def state_probe_def)
  next
    case False
    with v obtain rest where r: "strip_prefix ?k ''file:'' = Some rest" by (auto simp: LocalProbe_def split: option.splits)
    have "probe_file w fs rest (cwd ctx) = pr_observed w v (pr_source (probe_file w fs rest (cwd ctx))) None"
    proof (cases "strip_suffix rest ''.exists''")
      case (Some q)
      with v False r show ?thesis
        by (simp add: LocalProbe_def probe_file_def content_suffix_not_exists pr_observed_def)
    next
      case None
      with v False r show ?thesis
        by (auto simp: LocalProbe_def probe_file_def probe_content_def pr_observed_def split: option.splits sum.splits)
    qed
    then have "pr_value (state_probe w fs ?k (cwd ctx) pol) = Some v"
      using False r by (simp add: state_probe_def) (metis pr_simps(1))
    with v show ?thesis by simp
  qed
qed


theorem probes_agree_witness:
  "pr_value (state_probe offline_world demo_fs ''file:a.txt.exists'' (cwd demo_ctx) ProbePolicy_default) = Some (JBool True)"
proof -
  let ?p = "\<lparr>pred_key = ''file:a.txt.exists'', pred_expected = JBool True\<rparr>"
  have h: "pred_probe ?p (LocalProbe demo_fs demo_ctx (pred_key ?p)) \<noteq> TV_Unknown" "\<not> fs_is_file demo_fs (cwd demo_ctx)"
    and t: "pred_probe ?p (LocalProbe demo_fs demo_ctx (pred_key ?p)) = TV_True"
    by code_simp+
  from probes_agree [OF h, of offline_world ProbePolicy_default, unfolded t]
  show ?thesis by (simp add: pred_probe_True_iff)
qed

end
