(* ===== verification/Containment.thy ===== *)
theory Containment
  imports Store Exec
begin

text \<open>
  What the calls of \<open>std::fs\<close> leave alone: on a tree without symbolic links each call changes only the nodes of a
  region. These are the laws by which the theories above bound the effects of the server, of the
  management service and of the gate.
\<close>

section \<open>Directories\<close>

lemma mkdir_link_free:
  assumes "link_free fs" "''..'' \<notin> set p" "fs_mkdir fs p = Inr fs'"
  shows "link_free fs' \<and> node_at fs' p = Some DirNode \<and> (\<forall>q. q \<noteq> p \<longrightarrow> node_at fs' q = node_at fs q) \<and>
    (node_at fs p \<noteq> None \<longrightarrow> fs' = fs)"
proof -
  have l: "locate fs p = p" "resolve_path fs p = p" using assms by (auto intro: locate_link_free resolve_link_free)
  from assms(3) show ?thesis
    using assms(1) l
    by (auto simp: fs_mkdir_def fs_is_dir_def stat_def link_free_put split: option.splits node.splits if_splits)
qed

lemma mkdirs_link_free:
  "link_free fs \<Longrightarrow> ''..'' \<notin> set (pre @ cs) \<Longrightarrow> fs_mkdirs fs pre cs = Inr fs' \<Longrightarrow>
   link_free fs' \<and> (cs \<noteq> [] \<longrightarrow> node_at fs' (pre @ cs) = Some DirNode) \<and>
   (\<forall>q. node_at fs' q \<noteq> node_at fs q \<longrightarrow> prefix q (pre @ cs) \<and> node_at fs q = None)"
proof (induction cs arbitrary: fs pre)
  case (Cons c cs)
  from Cons.prems obtain fs1 where m: "fs_mkdir fs (pre @ [c]) = Inr fs1" and ms: "fs_mkdirs fs1 (pre @ [c]) cs = Inr fs'"
    by (auto split: sum.splits)
  have one: "link_free fs1 \<and> node_at fs1 (pre @ [c]) = Some DirNode \<and>
      (\<forall>q. q \<noteq> pre @ [c] \<longrightarrow> node_at fs1 q = node_at fs q) \<and> (node_at fs (pre @ [c]) \<noteq> None \<longrightarrow> fs1 = fs)"
    by (rule mkdir_link_free) (use Cons.prems m in auto)
  have rest: "link_free fs' \<and> (cs \<noteq> [] \<longrightarrow> node_at fs' ((pre @ [c]) @ cs) = Some DirNode) \<and>
      (\<forall>q. node_at fs' q \<noteq> node_at fs1 q \<longrightarrow> prefix q ((pre @ [c]) @ cs) \<and> node_at fs1 q = None)"
    by (rule Cons.IH) (use one Cons.prems ms in auto)
  have new: "prefix q (pre @ c # cs) \<and> node_at fs q = None" if "node_at fs' q \<noteq> node_at fs q" for q
  proof (cases "node_at fs' q = node_at fs1 q")
    case True
    with that one have "q = pre @ [c]" by metis
    with that True one show ?thesis by (auto simp: prefix_def)
  next
    case False
    with rest one show ?thesis by (metis append.assoc append_Cons append_Nil option.distinct(1))
  qed
  have "node_at fs' (pre @ c # cs) = Some DirNode" using rest one ms by (cases cs) auto
  with rest new show ?case by blast
qed simp

section \<open>Regions\<close>

text \<open>\<open>kept R fs fs'\<close>: a link-free tree whose nodes outside the region \<open>R\<close> are those of \<open>fs\<close>.\<close>

definition kept :: "(path \<Rightarrow> bool) \<Rightarrow> fsys \<Rightarrow> fsys \<Rightarrow> bool" where
  "kept R fs fs' \<longleftrightarrow> link_free fs' \<and> (\<forall>q. \<not> R q \<longrightarrow> node_at fs' q = node_at fs q)"

lemma kept_refl: "link_free fs \<Longrightarrow> kept R fs fs"
  by (simp add: kept_def)

lemma kept_trans: "kept R fs fs1 \<Longrightarrow> kept R fs1 fs2 \<Longrightarrow> kept R fs fs2"
  by (simp add: kept_def)

lemma kept_mono: "kept R fs fs' \<Longrightarrow> (\<And>q. R q \<Longrightarrow> S q) \<Longrightarrow> kept S fs fs'"
  by (auto simp: kept_def)

lemma kept_link_free: "kept R fs fs' \<Longrightarrow> link_free fs'"
  by (simp add: kept_def)

lemma kept_write:
  assumes "link_free fs" "''..'' \<notin> set p" "R p" "fs_write_bytes fs p raw = Inr fs'"
  shows "kept R fs fs'"
proof -
  have "resolve_path fs p = p" using assms by (intro resolve_link_free)
  then obtain c where "fs' = put_node p (FileNode c) fs"
    using assms(4) unfolding fs_write_bytes_def by (metis fs_open_write_cases)
  with assms show ?thesis by (auto simp: kept_def link_free_put)
qed

lemma kept_rename:
  assumes "link_free fs" "''..'' \<notin> set src" "''..'' \<notin> set dst" "fs_rename fs src dst = Inr fs'"
    and R: "\<And>q. prefix src q \<Longrightarrow> R q" "\<And>q. prefix dst q \<Longrightarrow> R q"
  shows "kept R fs fs'"
proof -
  have loc: "locate fs src = src" "locate fs dst = dst" using assms by (auto intro: locate_link_free)
  from assms(4) [unfolded fs_rename_def Let_def loc]
  consider "fs' = fs" | "fs' = move_tree src dst fs" | n where "node_at fs src = Some n" "fs' = put_node dst n (drop_node src fs)"
    by (auto split: option.splits node.splits if_splits)
  then show ?thesis
  proof cases
    case 2
    then show ?thesis using assms(1) R by (auto simp: kept_def link_free_move intro!: move_tree_other)
  next
    case 3
    then have "\<And>t. n \<noteq> LinkNode t" using link_freeD [OF assms(1)] by blast
    with 3 assms(1) R show ?thesis by (auto simp: kept_def link_free_put link_free_drop)
  qed (use assms(1) in \<open>simp add: kept_refl\<close>)
qed

lemma kept_remove_file:
  assumes "link_free fs" "''..'' \<notin> set p" "R p" "fs_remove_file fs p = Inr fs'"
  shows "kept R fs fs'"
  using assms by (auto simp: fs_remove_file_def locate_link_free kept_def link_free_drop split: option.splits node.splits)

lemma kept_try_remove: "link_free fs \<Longrightarrow> ''..'' \<notin> set p \<Longrightarrow> R p \<Longrightarrow> kept R fs (try_remove fs p)"
  by (auto simp: try_remove_def kept_refl intro: kept_remove_file split: sum.split)

lemma kept_create_dir_all:
  assumes "link_free fs" "''..'' \<notin> set p" "\<And>q. prefix q p \<Longrightarrow> R q" "fs_create_dir_all fs p = Inr fs'"
  shows "kept R fs fs'"
  using mkdirs_link_free [of fs "[]" p fs'] assms by (auto simp: kept_def fs_create_dir_all_def)

text \<open>The area of a directory: everything below it, and the directories above it.\<close>

definition around :: "path \<Rightarrow> path \<Rightarrow> bool" where
  "around d q \<longleftrightarrow> prefix d q \<or> prefix q d"

lemma around_below: "prefix d p \<Longrightarrow> prefix p q \<Longrightarrow> around d q"
  by (auto simp: around_def intro: prefix_order.trans)

lemma kept_atomic_write:
  assumes lf: "link_free fs" and p: "''..'' \<notin> set p" and t: "''..'' \<notin> set (temp_path_for p)"
    and R: "\<And>q. prefix (temp_path_for p) q \<Longrightarrow> R q" "\<And>q. prefix p q \<Longrightarrow> R q"
  shows "kept R fs (fst (atomic_write fs p raw))"
proof -
  let ?t = "temp_path_for p"
  have rt: "R ?t" "R p" using R by auto
  note defs = atomic_write_def Let_def
  show ?thesis
  proof (cases "fs_write_bytes fs ?t raw")
    case (Inl e)
    then show ?thesis using lf t rt by (simp add: defs kept_try_remove)
  next
    case w: (Inr fs1)
    have k1: "kept R fs fs1" by (rule kept_write [where R = R, OF lf t rt(1) w])
    note lf1 = kept_link_free [OF k1]
    show ?thesis
    proof (cases "fs_rename fs1 ?t p")
      case r: (Inr fs2)
      have "kept R fs1 fs2" by (rule kept_rename [OF lf1 t p r R])
      with w r k1 show ?thesis by (auto simp: defs intro: kept_trans)
    next
      case r: (Inl e)
      show ?thesis
      proof (cases "fs_remove_file fs1 p")
        case d: (Inl e')
        have "kept R fs1 (try_remove fs1 ?t)" by (rule kept_try_remove [where R = R, OF lf1 t rt(1)])
        with w r d k1 show ?thesis by (auto simp: defs intro: kept_trans)
      next
        case d: (Inr fs2)
        have k2: "kept R fs1 fs2" by (rule kept_remove_file [where R = R, OF lf1 p rt(2) d])
        note lf2 = kept_link_free [OF k2]
        have "kept R fs2 (try_remove fs2 ?t)" by (rule kept_try_remove [where R = R, OF lf2 t rt(1)])
        moreover have "kept R fs2 fs3" if "fs_rename fs2 ?t p = Inr fs3" for fs3 by (rule kept_rename [OF lf2 t p that R])
        ultimately show ?thesis using w r d k1 k2 by (auto simp: defs intro: kept_trans split: sum.split)
      qed
    qed
  qed
qed

lemma path_join_clean: "clean_comp n \<Longrightarrow> path_join d n = d @ [n]"
proof -
  assume n: "clean_comp n"
  have "split_char (CHR ''/'') (join_str ''/'' [n]) = [n]" using n by (intro split_join) (auto simp: clean_comp_def)
  then have "split_char (CHR ''/'') n = [n]" by simp
  moreover have "\<not> starts_with n ''/''" using n by (cases n) (auto simp: starts_with_def clean_comp_def)
  ultimately show ?thesis using n by (simp add: path_join_def path_of_text_def clean_comp_def)
qed

end
