(* ===== verification/Qualification.thy ===== *)
theory Qualification
  imports Learning State_Source Containment "HOL-Library.Multiset"
begin

text \<open>
  Qualification of candidates and planning of delegated tasks (\<open>experience/qualification.rs\<close>,
  \<open>experience/delegation.rs\<close>): observability of predicates, the dry-run replay in a scratch
  directory, the evidence record, and the Select Plan step of the delegation loop. A Rust panic is
  the outer \<open>Inl\<close> of a result. Confidence scores are exact rationals (the rounding of \<open>f64\<close> sums is
  not modelled), event counters are unbounded; the scratch directory, named after the clock, is
  an argument.
\<close>

section \<open>Observable predicates\<close>

record ProbeSource =
  source_id :: string
  freshness_ttl :: nat

definition predicate_problem :: "(string \<Rightarrow> ProbeSource option) \<Rightarrow> Predicate \<Rightarrow> string option" where
  "predicate_problem source_of p =
     (if pred_key p = PENDING_VALIDATION then
        Some (pred_key p @ '': placeholder completion criterion is not evidence'')
      else case source_of (pred_key p) of
        Some source \<Rightarrow>
          (if 0 < freshness_ttl source then None
           else Some (pred_key p @ '': source has no freshness ttl''))
      | None \<Rightarrow> Some (pred_key p @ '': no observable state source binding''))"

definition predicates_observable :: "Predicate list \<Rightarrow> (string \<Rightarrow> ProbeSource option) \<Rightarrow> string list + unit" where
  "predicates_observable ps source_of =
     (let problems = List.map_filter (predicate_problem source_of) ps
      in if problems = [] then Inr () else Inl problems)"

definition resolve_from :: "ProbeSource btree \<Rightarrow> string \<Rightarrow> ProbeSource option" where
  "resolve_from m key = bt_get m key"

section \<open>Dry run\<close>

type_synonym 'a panicking = "string + 'a"

definition scratch_write :: "path \<Rightarrow> string \<Rightarrow> fsys \<Rightarrow> (string + unit) \<times> fsys" where
  "scratch_write tmp content fs =
     (let target = path_join tmp ''written.txt''
      in case fs_write_bytes fs target content of
           Inl e \<Rightarrow> (Inl (io_text e), fs)
         | Inr fs1 \<Rightarrow>
             (case fs_read_to_string fs1 target of
                Inl e \<Rightarrow> (Inl (io_text e), fs1)
              | Inr read_back \<Rightarrow>
                  (if read_back \<noteq> content then (Inl ''write_file scratch round-trip mismatch'', fs1)
                   else (Inr (), fs1))))"

definition dry_run_step :: "path \<Rightarrow> WorkflowStep \<Rightarrow> fsys \<Rightarrow> (string + unit) panicking \<times> fsys" where
  "dry_run_step tmp step fs =
     (if step_action step \<notin> set CANONICAL_TOOLS then
        (Inr (Inl (''unknown tool '' @ quoted_name (step_action step))), fs)
      else if step_action step = ''exec_command'' then
        (case get_str (step_args step) ''cmd'' of
           None \<Rightarrow> (Inr (Inl (''exec_command requires string arg '' @ quoted_name ''cmd'')), fs)
         | Some cmd \<Rightarrow>
             (if trim_str cmd = [] then (Inr (Inl (''exec_command '' @ quoted_name ''cmd'' @ '' is empty'')), fs)
              else (Inr (Inr ()), fs)))
      else if step_action step = ''write_file'' then
        (case get_str (step_args step) ''content'' of
           None \<Rightarrow> (Inr (Inl (''write_file requires string arg '' @ quoted_name ''content'')), fs)
         | Some content \<Rightarrow> (case scratch_write tmp content fs of (r, fs1) \<Rightarrow> (Inr r, fs1)))
      else if step_action step = ''read_file'' then
        (case json_get (step_args step) ''path'' of
           None \<Rightarrow> (Inr (Inl (''read_file requires arg '' @ quoted_name ''path'')), fs)
         | Some _ \<Rightarrow> (Inr (Inr ()), fs))
      else (Inl ''internal error: entered unreachable code: canonical tool checked above'', fs))"

fun dry_run_steps :: "path \<Rightarrow> WorkflowStep list \<Rightarrow> fsys \<Rightarrow> (string + unit) panicking \<times> fsys" where
  "dry_run_steps tmp [] fs = (Inr (Inr ()), fs)"
| "dry_run_steps tmp (step # steps) fs =
     (case dry_run_step tmp step fs of
        (Inr (Inr _), fs1) \<Rightarrow> dry_run_steps tmp steps fs1
      | stopped \<Rightarrow> stopped)"

definition dry_run_replayable :: "path \<Rightarrow> Experience \<Rightarrow> fsys \<Rightarrow> (string + unit) panicking \<times> fsys" where
  "dry_run_replayable tmp candidate fs =
     (case fs_create_dir_all fs tmp of
        Inl e \<Rightarrow> (Inr (Inl (io_text e)), fs)
      | Inr fs1 \<Rightarrow>
          (case dry_run_steps tmp (exp_workflow candidate) fs1 of
             (Inl panic, fs2) \<Rightarrow> (Inl panic, fs2)
           | (Inr outcome, fs2) \<Rightarrow>
               (Inr outcome, case fs_remove_dir_all fs2 tmp of Inr fs3 \<Rightarrow> fs3 | Inl _ \<Rightarrow> fs2)))"

definition qualify :: "path \<Rightarrow> Experience \<Rightarrow> (string \<Rightarrow> ProbeSource option) \<Rightarrow> fsys
    \<Rightarrow> (string list + unit) panicking \<times> fsys" where
  "qualify tmp candidate source_of fs =
     (case predicates_observable (exp_preconditions candidate) source_of of
        Inl problems \<Rightarrow> (Inr (Inl problems), fs)
      | Inr _ \<Rightarrow>
          (case dry_run_replayable tmp candidate fs of
             (Inl panic, fs1) \<Rightarrow> (Inl panic, fs1)
           | (Inr (Inl issue), fs1) \<Rightarrow> (Inr (Inl [issue]), fs1)
           | (Inr (Inr _), fs1) \<Rightarrow> (Inr (predicates_observable (exp_postconditions candidate) source_of), fs1)))"

section \<open>Evidence\<close>

record Evidence =
  successes :: nat
  misfires :: nat
  invalid :: nat
  execution_errors :: nat

record Activity =
  usage_count :: nat
  last_used_at :: nat

record ConfidenceRecord =
  score :: rat
  evidence :: Evidence
  activity :: Activity

definition ConfidenceRecord_default :: ConfidenceRecord where
  "ConfidenceRecord_default =
     \<lparr>score = 1 / 2, evidence = \<lparr>successes = 0, misfires = 0, invalid = 0, execution_errors = 0\<rparr>,
      activity = \<lparr>usage_count = 0, last_used_at = 0\<rparr>\<rparr>"

definition record_success :: "nat \<Rightarrow> ConfidenceRecord \<Rightarrow> ConfidenceRecord" where
  "record_success now c =
     c\<lparr>evidence := (evidence c)\<lparr>successes := successes (evidence c) + 1\<rparr>,
       activity := \<lparr>usage_count = usage_count (activity c) + 1, last_used_at = now\<rparr>,
       score := min (score c + 8 / 100) 1\<rparr>"

definition record_misfire :: "ConfidenceRecord \<Rightarrow> ConfidenceRecord" where
  "record_misfire c = c\<lparr>evidence := (evidence c)\<lparr>misfires := misfires (evidence c) + 1\<rparr>\<rparr>"

definition record_execution_error :: "nat \<Rightarrow> ConfidenceRecord \<Rightarrow> ConfidenceRecord" where
  "record_execution_error now c =
     c\<lparr>evidence := (evidence c)\<lparr>execution_errors := execution_errors (evidence c) + 1\<rparr>,
       activity := (activity c)\<lparr>last_used_at := now\<rparr>\<rparr>"

definition record_invalid :: "nat \<Rightarrow> ConfidenceRecord \<Rightarrow> ConfidenceRecord" where
  "record_invalid now c =
     c\<lparr>evidence := (evidence c)\<lparr>invalid := invalid (evidence c) + 1\<rparr>,
       activity := (activity c)\<lparr>last_used_at := now\<rparr>,
       score := max (score c - 2 / 10) 0\<rparr>"

record ExperienceQualification =
  qual_valid :: bool
  qual_lifecycle :: ExperienceStatus
  qual_confidence :: ConfidenceRecord

section \<open>Default sources\<close>

definition FS_PROBE_TTL_SECS :: nat where "FS_PROBE_TTL_SECS = 60"

definition resolve_default_source :: "string \<Rightarrow> ProbeSource option" where
  "resolve_default_source key =
     (case family_of key of
        None \<Rightarrow> None
      | Some family \<Rightarrow>
          (if family = ''fs'' then Some \<lparr>source_id = ''fs_probe'', freshness_ttl = FS_PROBE_TTL_SECS\<rparr>
           else if family = ''exec'' then Some \<lparr>source_id = ''exec_evidence'', freshness_ttl = 30\<rparr>
           else if family = ''git'' then Some \<lparr>source_id = ''git_probe'', freshness_ttl = 30\<rparr>
           else if family = ''http'' then Some \<lparr>source_id = ''http_probe'', freshness_ttl = 15\<rparr>
           else if family = ''net'' then Some \<lparr>source_id = ''net_probe'', freshness_ttl = 10\<rparr>
           else None))"

definition probe_value :: "World \<Rightarrow> fsys \<Rightarrow> string \<Rightarrow> path \<Rightarrow> json option" where
  "probe_value w fs key base_dir = pr_value (state_probe w fs key base_dir ProbePolicy_default)"

definition evaluate_predicate :: "World \<Rightarrow> fsys \<Rightarrow> string \<Rightarrow> json \<Rightarrow> path \<Rightarrow> TruthValue" where
  "evaluate_predicate w fs key expected base_dir =
     (case probe_value w fs key base_dir of
        Some actual \<Rightarrow> (if actual = expected then TV_True else TV_False)
      | None \<Rightarrow> TV_Unknown)"

definition fs_qualification_issues :: "Experience \<Rightarrow> string list + unit" where
  "fs_qualification_issues candidate =
     (case find (\<lambda>p. resolve_default_source (pred_key p) = None)
             (exp_preconditions candidate @ exp_postconditions candidate) of
        Some p \<Rightarrow> Inl [pred_key p @ '': no fs source binding'']
      | None \<Rightarrow> predicates_observable (exp_preconditions candidate) resolve_default_source)"

section \<open>Select Plan\<close>

record TaskSegment =
  seg_id :: string
  seg_text :: string

record StepResult =
  res_segment_id :: "string option"
  res_ok :: bool

record ExperiencePlan =
  selected :: "string list"
  skipped :: "string list"
  covered_segments :: "string list"
  remaining_segments :: "string list"
  plan_reason :: string

record CandidateRank =
  rank_name :: string
  coverage_hint :: nat
  confidence :: rat
  priority :: nat

text \<open>\<open>f64::EPSILON\<close>.\<close>

definition EPSILON :: rat where "EPSILON = 1 / 2 ^ 52"

definition rank_candidates :: "CandidateRank list \<Rightarrow> (string \<Rightarrow> bool) \<Rightarrow> CandidateRank list" where
  "rank_candidates candidates preconditions_pass =
     sort_key (\<lambda>c. (- int (coverage_hint c), - confidence c, - int (priority c)))
       (filter (\<lambda>c. preconditions_pass (rank_name c)) candidates)"

definition plan_for :: "TaskSegment list \<Rightarrow> CandidateRank \<Rightarrow> string list \<Rightarrow> string \<Rightarrow> ExperiencePlan" where
  "plan_for segments best skip reason =
     \<lparr>selected = [rank_name best], skipped = skip,
      covered_segments = map seg_id (take (min (coverage_hint best) (length segments)) segments),
      remaining_segments = map seg_id (drop (min (coverage_hint best) (length segments)) segments),
      plan_reason = reason\<rparr>"

definition no_plan :: "TaskSegment list \<Rightarrow> string list \<Rightarrow> string \<Rightarrow> ExperiencePlan" where
  "no_plan segments skip reason =
     \<lparr>selected = [], skipped = skip, covered_segments = [], remaining_segments = map seg_id segments,
      plan_reason = reason\<rparr>"

definition select_plan :: "TaskSegment list \<Rightarrow> CandidateRank list \<Rightarrow> (string \<Rightarrow> bool) \<Rightarrow> ExperiencePlan" where
  "select_plan segments candidates preconditions_pass =
     (case rank_candidates candidates preconditions_pass of
        [] \<Rightarrow> no_plan segments [] ''no_match''
      | [best] \<Rightarrow> plan_for segments best [] ''single_best''
      | first # second # others \<Rightarrow>
          (if coverage_hint first = coverage_hint second \<and> \<bar>confidence first - confidence second\<bar> < EPSILON
           then no_plan segments [rank_name first, rank_name second] ''conflict''
           else plan_for segments first (map rank_name (second # others)) ''best''))"

section \<open>Delegation\<close>

datatype ExperienceOutcome = ExpSuccess | ExpMisfire | ExpInvalid | ExpExecutionError

datatype DelegationOutcome = Delegated | DelegationCompleted | DelegationFailed

datatype TaskOutcome = TaskSuccess | TaskPartial | TaskFailed

definition completed_heading :: string where
  "completed_heading =
     [CHR 0x0A, CHR 0x0A] @
     ''[experience '' @
     [CHR 0xE5, CHR 0xB7, CHR 0xB2, CHR 0xE5, CHR 0xAE, CHR 0x8C, CHR 0xE6, CHR 0x88, CHR 0x90, CHR 0xE6, CHR 0xAD, CHR 0xA5,
      CHR 0xE9, CHR 0xAA, CHR 0xA4] @
     ''] ''"

definition verified_heading :: string where
  "verified_heading =
     [CHR 0x0A] @
     ''['' @
     [CHR 0xE5, CHR 0xB7, CHR 0xB2, CHR 0xE9, CHR 0xAA, CHR 0x8C, CHR 0xE8, CHR 0xAF, CHR 0x81, CHR 0xE7, CHR 0x8A, CHR 0xB6,
      CHR 0xE6, CHR 0x80, CHR 0x81] @
     ''] ''"

definition no_repeat_note :: string where
  "no_repeat_note =
     [CHR 0x0A, CHR 0x0A] @
     ''['' @
     [CHR 0xE6, CHR 0xB3, CHR 0xA8, CHR 0xE6, CHR 0x84, CHR 0x8F] @
     ''] '' @
     [CHR 0xE4, CHR 0xBB, CHR 0xA5, CHR 0xE4, CHR 0xB8, CHR 0x8A] @
     '' experience '' @
     [CHR 0xE6, CHR 0xAD, CHR 0xA5, CHR 0xE9, CHR 0xAA, CHR 0xA4, CHR 0xE5, CHR 0xB7, CHR 0xB2, CHR 0xE5, CHR 0x9C, CHR 0xA8,
      CHR 0xE8, CHR 0xBF, CHR 0x9B, CHR 0xE7, CHR 0xA8, CHR 0x8B, CHR 0xE5, CHR 0x86, CHR 0x85, CHR 0xE6, CHR 0x89, CHR 0xA7,
      CHR 0xE8, CHR 0xA1, CHR 0x8C, CHR 0xE5, CHR 0xB9, CHR 0xB6, CHR 0xE9, CHR 0x80, CHR 0x9A, CHR 0xE8, CHR 0xBF, CHR 0x87,
      CHR 0xE9, CHR 0xAA, CHR 0x8C, CHR 0xE8, CHR 0xAF, CHR 0x81, CHR 0xEF, CHR 0xBC, CHR 0x8C, CHR 0xE8, CHR 0xAF, CHR 0xB7,
      CHR 0xE5, CHR 0x8B, CHR 0xBF, CHR 0xE9, CHR 0x87, CHR 0x8D, CHR 0xE5, CHR 0xA4, CHR 0x8D, CHR 0xE6, CHR 0x89, CHR 0xA7,
      CHR 0xE8, CHR 0xA1, CHR 0x8C, CHR 0xEF, CHR 0xBC, CHR 0x9B, CHR 0xE4, CHR 0xB9, CHR 0x9F, CHR 0xE4, CHR 0xB8, CHR 0x8D,
      CHR 0xE8, CHR 0xA6, CHR 0x81, CHR 0xE9, CHR 0x87, CHR 0x8D, CHR 0xE5, CHR 0x86, CHR 0x99, CHR 0xE3, CHR 0x80, CHR 0x81,
      CHR 0xE8, CHR 0xA6, CHR 0x86, CHR 0xE7, CHR 0x9B, CHR 0x96, CHR 0xE3, CHR 0x80, CHR 0x81, CHR 0xE5, CHR 0x9B, CHR 0x9E,
      CHR 0xE6, CHR 0xBB, CHR 0x9A, CHR 0xE8, CHR 0xBF, CHR 0x99, CHR 0xE4, CHR 0xBA, CHR 0x9B, CHR 0xE6, CHR 0x96, CHR 0x87,
      CHR 0xE4, CHR 0xBB, CHR 0xB6, CHR 0xE6, CHR 0x94, CHR 0xB9, CHR 0xE5, CHR 0x8A, CHR 0xA8, CHR 0xE3, CHR 0x80, CHR 0x82,
      CHR 0xE5, CHR 0x8F, CHR 0xAA, CHR 0xE5, CHR 0xAE, CHR 0x8C, CHR 0xE6, CHR 0x88, CHR 0x90, CHR 0xE5, CHR 0x89, CHR 0xA9,
      CHR 0xE4, CHR 0xBD, CHR 0x99, CHR 0xE9, CHR 0x83, CHR 0xA8, CHR 0xE5, CHR 0x88, CHR 0x86, CHR 0xE6, CHR 0x88, CHR 0x96,
      CHR 0xE7, CHR 0xA1, CHR 0xAE, CHR 0xE8, CHR 0xAE, CHR 0xA4, CHR 0xE6, CHR 0x94, CHR 0xB6, CHR 0xE5, CHR 0xB0, CHR 0xBE,
      CHR 0xE5, CHR 0x8D, CHR 0xB3, CHR 0xE5, CHR 0x8F, CHR 0xAF, CHR 0xE3, CHR 0x80, CHR 0x82]"

definition delegation_text :: "string \<Rightarrow> string list \<Rightarrow> string list \<Rightarrow> string" where
  "delegation_text original_task completed_step_ids verified_state =
     original_task @
     (if completed_step_ids \<noteq> [] then completed_heading @ join_str '', '' completed_step_ids else []) @
     (if verified_state \<noteq> [] then verified_heading @ join_str '', '' verified_state else []) @
     (if completed_step_ids \<noteq> [] then no_repeat_note else [])"

datatype InjectionPolicy = InjectOff | InjectOn

fun injection_decision :: "InjectionPolicy \<Rightarrow> nat \<Rightarrow> bool \<times> string" where
  "injection_decision InjectOff n = (False, ''policy_off'')"
| "injection_decision InjectOn n = (if n = 0 then (False, ''no_reference_available'') else (True, ''policy_on''))"

fun apply_experience_usage :: "nat \<Rightarrow> ExperienceOutcome \<Rightarrow> ConfidenceRecord \<Rightarrow> ConfidenceRecord" where
  "apply_experience_usage now ExpSuccess c = record_success now c"
| "apply_experience_usage now ExpMisfire c = record_misfire c"
| "apply_experience_usage now ExpExecutionError c = record_execution_error now c"
| "apply_experience_usage now ExpInvalid c = record_invalid now c"


section \<open>What passes qualification\<close>

lemma map_filter_Nil_iff: "List.map_filter f xs = [] \<longleftrightarrow> (\<forall>x \<in> set xs. f x = None)"
  by (induction xs) (auto simp: map_filter_simps split: option.splits)

definition sourced :: "(string \<Rightarrow> ProbeSource option) \<Rightarrow> Predicate \<Rightarrow> bool" where
  "sourced source_of p \<longleftrightarrow> pred_key p \<noteq> PENDING_VALIDATION \<and>
     (\<exists>s. source_of (pred_key p) = Some s \<and> 0 < freshness_ttl s)"

lemma predicate_problem_None_iff: "predicate_problem source_of p = None \<longleftrightarrow> sourced source_of p"
  by (auto simp: predicate_problem_def sourced_def split: option.splits)

lemma predicates_observable_iff:
  "predicates_observable ps source_of = Inr () \<longleftrightarrow> (\<forall>p \<in> set ps. sourced source_of p)"
  by (auto simp: predicates_observable_def Let_def map_filter_Nil_iff predicate_problem_None_iff)

text \<open>The tools the dry run can replay, with the arguments it asks for.\<close>

definition replayable :: "WorkflowStep \<Rightarrow> bool" where
  "replayable step \<longleftrightarrow>
     step_action step = ''exec_command'' \<and> (\<exists>cmd. get_str (step_args step) ''cmd'' = Some cmd \<and> trim_str cmd \<noteq> []) \<or>
     step_action step = ''write_file'' \<and> get_str (step_args step) ''content'' \<noteq> None \<or>
     step_action step = ''read_file'' \<and> json_get (step_args step) ''path'' \<noteq> None"

lemma dry_run_step_ok: "fst (dry_run_step tmp step fs) = Inr (Inr ()) \<Longrightarrow> replayable step"
  by (auto simp: dry_run_step_def replayable_def split: if_splits option.splits)

lemma dry_run_steps_ok: "fst (dry_run_steps tmp steps fs) = Inr (Inr ()) \<Longrightarrow> list_all replayable steps"
proof (induction steps arbitrary: fs)
  case (Cons step steps)
  obtain r fs1 where d: "dry_run_step tmp step fs = (r, fs1)" by fastforce
  with Cons.prems have "r = Inr (Inr ())" by (cases r) (auto split: sum.splits)
  with d Cons dry_run_step_ok [of tmp step fs] show ?case by simp
qed simp

lemma qualified_checked:
  assumes "qualify tmp e source_of fs = (Inr (Inr ()), fs')"
  shows "(\<forall>p \<in> set (exp_preconditions e @ exp_postconditions e). sourced source_of p) \<and>
    list_all replayable (exp_workflow e)"
proof -
  from assms have pre: "predicates_observable (exp_preconditions e) source_of = Inr ()"
    by (auto simp: qualify_def split: sum.splits)
  with assms obtain fs1 where dry: "dry_run_replayable tmp e fs = (Inr (Inr ()), fs1)"
    and post: "predicates_observable (exp_postconditions e) source_of = Inr ()"
    by (auto simp: qualify_def split: sum.splits prod.splits)
  from dry obtain fs2 fs3 where "dry_run_steps tmp (exp_workflow e) fs2 = (Inr (Inr ()), fs3)"
    by (auto simp: dry_run_replayable_def split: sum.splits prod.splits)
  then have "list_all replayable (exp_workflow e)" using dry_run_steps_ok [of tmp "exp_workflow e" fs2] by simp
  with pre post show ?thesis by (auto simp: predicates_observable_iff)
qed


text \<open>A distilled candidate is a hypothesis, not evidence. Whatever the round, the state sources and
  the file system, the experience the deterministic distiller makes of it never passes
  qualification as it stands: its completion criterion is the placeholder, so it cannot reach
  VALIDATED before somebody has replaced it.\<close>

theorem distilled_never_qualifies:
  assumes "deterministic_distill rnd = Some e"
  shows "fst (qualify tmp (e\<lparr>exp_status := Candidate\<rparr>) source_of fs) \<noteq> Inr (Inr ())"
proof
  assume "fst (qualify tmp (e\<lparr>exp_status := Candidate\<rparr>) source_of fs) = Inr (Inr ())"
  then obtain fs' where q: "qualify tmp (e\<lparr>exp_status := Candidate\<rparr>) source_of fs = (Inr (Inr ()), fs')"
    by (metis prod.collapse)
  have "predicates_observable (exp_postconditions e) source_of = Inr ()"
    using q by (auto simp: qualify_def split: sum.splits prod.splits)
  moreover have "exp_postconditions e = [\<lparr>pred_key = PENDING_VALIDATION, pred_expected = JBool True\<rparr>]"
    using assms by (auto simp: deterministic_distill_def split: option.splits list.splits)
  ultimately show False by (simp add: predicates_observable_iff sourced_def)
qed


section \<open>The dry run can panic\<close>

text \<open>Tools of the canonical vocabulary the replay has no branch for.\<close>

definition unreplayable_tool :: "string \<Rightarrow> bool" where
  "unreplayable_tool t \<longleftrightarrow> t \<in> set CANONICAL_TOOLS \<and> t \<notin> {''exec_command'', ''write_file'', ''read_file''}"

lemma dry_run_step_panics: "isl (fst (dry_run_step tmp step fs)) \<longleftrightarrow> unreplayable_tool (step_action step)"
  by (auto simp: dry_run_step_def unreplayable_tool_def CANONICAL_TOOLS_def split: option.split prod.split)

lemma dry_run_steps_panics:
  "isl (fst (dry_run_steps tmp steps fs)) \<longleftrightarrow>
     (\<exists>n < length steps. fst (dry_run_steps tmp (take n steps) fs) = Inr (Inr ()) \<and> unreplayable_tool (step_action (steps ! n)))"
proof (induction steps arbitrary: fs)
  case (Cons step steps)
  obtain r fs1 where d: "dry_run_step tmp step fs = (r, fs1)" by fastforce
  have ex: "(\<exists>n < length (step # steps). P n) \<longleftrightarrow> P 0 \<or> (\<exists>n < length steps. P (Suc n))" for P
    by (auto simp: less_Suc_eq_0_disj)
  show ?case
  proof (cases "r = Inr (Inr ())")
    case True
    with dry_run_step_panics [of tmp step fs] d have "\<not> unreplayable_tool (step_action step)" by simp
    with True d Cons.IH [of fs1] show ?thesis unfolding ex by simp
  next
    case False
    then have "dry_run_steps tmp (step # ss) fs = (r, fs1)" for ss
      using d by (cases r) (auto split: sum.splits)
    with False d dry_run_step_panics [of tmp step fs] show ?thesis unfolding ex by (simp add: take_Suc_Cons)
  qed
qed simp

text \<open>Qualification panics on a canonical workflow it cannot replay. It panics if and only if the
  preconditions are observable, the scratch directory can be created, and the replay reaches a
  step whose tool is canonical but neither \<open>exec_command\<close>, \<open>write_file\<close> nor \<open>read_file\<close>, such as the
  \<open>move_file\<close> steps that template induction and shell translation produce.\<close>

theorem qualify_panics_iff:
  "isl (fst (qualify tmp e source_of fs)) \<longleftrightarrow>
     (\<forall>p \<in> set (exp_preconditions e). sourced source_of p) \<and>
     (\<exists>fs1 n. fs_create_dir_all fs tmp = Inr fs1 \<and> n < length (exp_workflow e) \<and>
        fst (dry_run_steps tmp (take n (exp_workflow e)) fs1) = Inr (Inr ()) \<and>
        unreplayable_tool (step_action (exp_workflow e ! n)))"
proof -
  have dry: "isl (fst (dry_run_replayable tmp e fs)) \<longleftrightarrow>
      (\<exists>fs1. fs_create_dir_all fs tmp = Inr fs1 \<and> isl (fst (dry_run_steps tmp (exp_workflow e) fs1)))"
    by (auto simp: dry_run_replayable_def split: sum.splits prod.splits)
  have "isl (fst (qualify tmp e source_of fs)) \<longleftrightarrow>
      predicates_observable (exp_preconditions e) source_of = Inr () \<and> isl (fst (dry_run_replayable tmp e fs))"
    by (auto simp: qualify_def split: sum.splits prod.splits)
  then show ?thesis unfolding dry dry_run_steps_panics predicates_observable_iff by blast
qed


definition demo_move :: Experience where
  "demo_move = demo_instance\<lparr>exp_preconditions := [], exp_workflow := [\<lparr>step_action = ''move_file'', step_args = JObject []\<rparr>]\<rparr>"

theorem qualify_panics_iff_witness:
  "isl (fst (qualify [''w'', ''tmp''] demo_move resolve_default_source demo_fs))"
proof -
  have d: "\<not> isl (fs_create_dir_all demo_fs [''w'', ''tmp''])" by code_simp
  then obtain fs1 where "fs_create_dir_all demo_fs [''w'', ''tmp''] = Inr fs1"
    by (cases "fs_create_dir_all demo_fs [''w'', ''tmp'']") auto
  moreover have "unreplayable_tool ''move_file''" by code_simp
  ultimately show ?thesis
    using qualify_panics_iff [of "[''w'', ''tmp'']" demo_move resolve_default_source demo_fs]
    by (simp add: demo_move_def)
qed

definition demo_write :: Experience where
  "demo_write = demo_instance\<lparr>exp_preconditions := [\<lparr>pred_key = ''cwd.exists'', pred_expected = JBool True\<rparr>],
     exp_postconditions := [\<lparr>pred_key = ''file:a.exists'', pred_expected = JBool True\<rparr>],
     exp_workflow := [\<lparr>step_action = ''write_file'', step_args = JObject [(''content'', JString ''x''), (''path'', JString ''a'')]\<rparr>]\<rparr>"


theorem distilled_never_qualifies_witness:
  "\<exists>e. deterministic_distill demo_round = Some e \<and>
     fst (qualify [''w'', ''tmp''] (e\<lparr>exp_status := Candidate\<rparr>) resolve_default_source demo_fs) \<noteq> Inr (Inr ())"
proof -
  have "deterministic_distill demo_round \<noteq> None" by code_simp
  then obtain e where e: "deterministic_distill demo_round = Some e" by blast
  from distilled_never_qualifies [OF e] e show ?thesis by blast
qed


section \<open>The dry run leaves no trace\<close>

lemma scratch_write_frame:
  assumes "link_free fs" "''..'' \<notin> set tmp" "node_at fs tmp = Some DirNode" "scratch_write tmp content fs = (r, fs')"
  shows "link_free fs' \<and> node_at fs' tmp = Some DirNode \<and> (\<forall>q. \<not> prefix tmp q \<longrightarrow> node_at fs' q = node_at fs q)"
proof (cases "fs_write_bytes fs (path_join tmp ''written.txt'') content")
  case (Inl e)
  with assms show ?thesis by (simp add: scratch_write_def)
next
  case (Inr fs1)
  have j: "path_join tmp ''written.txt'' = tmp @ [''written.txt'']"
    by (simp add: path_join_def path_of_text_def starts_with_def split_char_def)
  have "fs' = fs1" using assms(4) Inr by (auto simp: scratch_write_def Let_def split: sum.splits if_splits)
  moreover have "resolve_path fs (tmp @ [''written.txt'']) = tmp @ [''written.txt'']"
    by (rule resolve_link_free) (use assms in auto)
  ultimately have "\<exists>c. fs' = put_node (tmp @ [''written.txt'']) (FileNode c) fs"
    using Inr fs_open_write_cases unfolding fs_write_bytes_def j by metis
  with assms show ?thesis by (auto intro: link_free_put)
qed

lemma dry_run_steps_frame:
  "link_free fs \<Longrightarrow> ''..'' \<notin> set tmp \<Longrightarrow> node_at fs tmp = Some DirNode \<Longrightarrow> dry_run_steps tmp steps fs = (r, fs') \<Longrightarrow>
   link_free fs' \<and> node_at fs' tmp = Some DirNode \<and> (\<forall>q. \<not> prefix tmp q \<longrightarrow> node_at fs' q = node_at fs q)"
proof (induction steps arbitrary: fs)
  case (Cons step steps)
  obtain s fs1 where d: "dry_run_step tmp step fs = (s, fs1)" by fastforce
  have one: "link_free fs1 \<and> node_at fs1 tmp = Some DirNode \<and> (\<forall>q. \<not> prefix tmp q \<longrightarrow> node_at fs1 q = node_at fs q)"
  proof (cases "fs1 = fs")
    case False
    with d obtain content t where "scratch_write tmp content fs = (t, fs1)"
      by (auto simp: dry_run_step_def split: if_splits option.splits prod.splits)
    with Cons.prems show ?thesis by (intro scratch_write_frame)
  qed (use Cons.prems in simp)
  show ?case
  proof (cases "s = Inr (Inr ())")
    case True
    with d Cons.prems(4) have "dry_run_steps tmp steps fs1 = (r, fs')" by simp
    with Cons.IH [of fs1] one Cons.prems(2) show ?thesis by auto
  next
    case False
    with d Cons.prems(4) have "fs' = fs1" by (cases s) (auto split: sum.splits)
    with one show ?thesis by simp
  qed
qed simp

text \<open>C21: qualification leaves no trace. In a link-free tree, with a fresh scratch directory whose parent
  exists, a qualification that does not panic leaves every node of the file system exactly as
  it was, whatever its verdict; and even when it panics, nothing outside the scratch directory
  has changed.\<close>

theorem qualification_leaves_no_trace:
  assumes "link_free fs" and "''..'' \<notin> set tmp" and "tmp \<noteq> []" and "base_dirs fs (butlast tmp)"
    and "\<And>q. prefix tmp q \<Longrightarrow> node_at fs q = None" and "qualify tmp e source_of fs = (r, fs')"
  shows "(\<forall>q. \<not> prefix tmp q \<longrightarrow> node_at fs' q = node_at fs q) \<and> (\<not> isl r \<longrightarrow> (\<forall>q. node_at fs' q = node_at fs q))"
proof (cases "fs' = fs")
  case False
  with assms(6) obtain fs1 where mk: "fs_create_dir_all fs tmp = Inr fs1"
    by (auto simp: qualify_def dry_run_replayable_def split: sum.splits prod.splits)
  obtain t fs2 where run: "dry_run_steps tmp (exp_workflow e) fs1 = (t, fs2)" by fastforce
  have one: "link_free fs1 \<and> (tmp \<noteq> [] \<longrightarrow> node_at fs1 ([] @ tmp) = Some DirNode) \<and>
      (\<forall>q. node_at fs1 q \<noteq> node_at fs q \<longrightarrow> prefix q ([] @ tmp) \<and> node_at fs q = None)"
    by (rule mkdirs_link_free) (use assms mk in \<open>auto simp: fs_create_dir_all_def\<close>)
  have fr1: "node_at fs1 q = node_at fs q" if "\<not> prefix tmp q" for q
  proof (rule ccontr)
    assume "node_at fs1 q \<noteq> node_at fs q"
    with one have "prefix q tmp" "node_at fs q = None" by auto
    moreover from this that have "prefix q (butlast tmp)"
      using assms(3) by (metis append_butlast_last_id prefix_order.eq_iff prefix_snoc)
    ultimately show False using assms(4) by (simp add: base_dirs_def)
  qed
  have two: "link_free fs2 \<and> node_at fs2 tmp = Some DirNode \<and> (\<forall>q. \<not> prefix tmp q \<longrightarrow> node_at fs2 q = node_at fs1 q)"
    by (rule dry_run_steps_frame) (use one assms run in auto)
  then have rm: "fs_remove_dir_all fs2 tmp = Inr (drop_below tmp fs2)"
    using assms(2) by (simp add: fs_remove_dir_all_def locate_link_free)
  from False assms(6) mk run rm have "fs' = (if isl r then fs2 else drop_below tmp fs2)"
    by (auto simp: qualify_def dry_run_replayable_def split: sum.splits)
  with two fr1 assms(5) show ?thesis by auto
qed simp


theorem qualification_leaves_no_trace_witness:
  "node_at (snd (qualify [''w'', ''tmp''] demo_write resolve_default_source demo_fs)) [''w'', ''tmp''] = None"
proof -
  obtain r fs' where q: "qualify [''w'', ''tmp''] demo_write resolve_default_source demo_fs = (r, fs')" by fastforce
  have "\<not> isl (fst (qualify [''w'', ''tmp''] demo_write resolve_default_source demo_fs))" by code_simp
  with q have r: "\<not> isl r" by simp
  have l: "link_free demo_fs" by code_simp
  have b: "base_dirs demo_fs (butlast [''w'', ''tmp''])"
    by (auto simp: base_dirs_def prefix_Cons demo_fs_def node_at_def bt_get_def)
  have n: "prefix [''w'', ''tmp''] p \<Longrightarrow> node_at demo_fs p = None" for p
    by (auto simp: demo_fs_def node_at_def bt_get_def prefix_def)
  from qualification_leaves_no_trace [OF l _ _ b n q] r n [of "[''w'', ''tmp'']"] q show ?thesis by simp
qed

section \<open>Predicates nobody can observe\<close>

text \<open>Process predicates qualify but can never be decided. Every key of the process family resolves
  to a default source with a positive freshness limit, so a candidate may be qualified on it,
  yet evaluating it is always unknown, whatever the outside world, the files and the expected
  value: an experience that relies on it can never be seen to apply or to have completed.\<close>

theorem process_predicates_undecidable:
  "sourced resolve_default_source \<lparr>pred_key = ''process.'' @ rest, pred_expected = v\<rparr> \<and>
   evaluate_predicate w fs (''process.'' @ rest) v d = TV_Unknown"
proof -
  have "state_probe w fs (''process.'' @ rest) d ProbePolicy_default = pr_unknown w (''unregistered:'' @ ''process.'' @ rest)"
    by (simp add: state_probe_def strip_prefix_def starts_with_def)
  moreover have "family_of (''process.'' @ rest) = Some ''exec''" by (rule families)
  ultimately show ?thesis
    by (simp add: sourced_def PENDING_VALIDATION_def resolve_default_source_def evaluate_predicate_def probe_value_def)
qed

section \<open>The plan\<close>

abbreviation rank_key :: "CandidateRank \<Rightarrow> int \<times> rat \<times> int" where
  "rank_key c \<equiv> (- int (coverage_hint c), - confidence c, - int (priority c))"

lemma ranked_sorted: "sorted_wrt (\<lambda>x y. rank_key x \<le> rank_key y) (rank_candidates cs P)"
  using sorted_sort_key [of rank_key] by (simp add: rank_candidates_def sorted_map)

lemma ranked_mset: "mset (rank_candidates cs P) = mset (filter (\<lambda>c. P (rank_name c)) cs)"
  by (simp add: rank_candidates_def)

lemma plan_for_fields:
  "map seg_id segments = covered_segments (plan_for segments b s r) @ remaining_segments (plan_for segments b s r)"
  "selected (plan_for segments b s r) = [rank_name b]"
  by (simp_all add: plan_for_def flip: map_append)

lemma no_plan_fields:
  "remaining_segments (no_plan segments s r) = map seg_id segments"
  "selected (no_plan segments s r) = []" "covered_segments (no_plan segments s r) = []"
  by (simp_all add: no_plan_def)

text \<open>The best candidate beats another one clearly: more coverage, or the same and more confidence.\<close>

definition clearly_better :: "CandidateRank \<Rightarrow> CandidateRank \<Rightarrow> bool" where
  "clearly_better b c \<longleftrightarrow> coverage_hint c < coverage_hint b \<or>
     coverage_hint c = coverage_hint b \<and> confidence c + EPSILON \<le> confidence b"

text \<open>A plan never splits a tie and never loses a segment. Covered and remaining segments together
  are the task, in order. At most one experience is selected; if one is, its preconditions
  pass and it clearly beats every other candidate whose preconditions pass, in coverage or else
  by at least one machine epsilon of confidence; if none is, nothing is covered and the whole
  task is delegated.\<close>

theorem plan_selects_clear_winner:
  "map seg_id segments = covered_segments (select_plan segments cs P) @ remaining_segments (select_plan segments cs P) \<and>
   (selected (select_plan segments cs P) = [] \<and> covered_segments (select_plan segments cs P) = [] \<or>
    (\<exists>b others. mset (filter (\<lambda>c. P (rank_name c)) cs) = add_mset b (mset others) \<and>
       selected (select_plan segments cs P) = [rank_name b] \<and> list_all (clearly_better b) others))"
proof (cases "rank_candidates cs P")
  case Nil
  then show ?thesis by (simp add: select_plan_def no_plan_fields)
next
  case (Cons b rest)
  have m: "mset (filter (\<lambda>c. P (rank_name c)) cs) = add_mset b (mset rest)"
    using ranked_mset [of cs P] Cons by simp
  have sorted: "sorted_wrt (\<lambda>x y. rank_key x \<le> rank_key y) (b # rest)" using ranked_sorted [of cs P] Cons by simp
  show ?thesis
  proof (cases rest)
    case Nil
    with Cons m show ?thesis by (auto simp: select_plan_def plan_for_fields intro!: exI [of _ b] exI [of _ rest])
  next
    case r: (Cons c others)
    show ?thesis
    proof (cases "coverage_hint b = coverage_hint c \<and> \<bar>confidence b - confidence c\<bar> < EPSILON")
      case True
      with Cons r show ?thesis by (simp add: select_plan_def no_plan_fields)
    next
      case False
      have "clearly_better b x" if "x \<in> set rest" for x
      proof -
        from sorted r have bc: "rank_key b \<le> rank_key c" by simp
        from sorted r that have cx: "rank_key c \<le> rank_key x" by auto
        from False bc have "clearly_better b c"
          by (auto simp: clearly_better_def less_eq_prod_def abs_if split: if_splits)
        with cx show ?thesis by (auto simp: clearly_better_def less_eq_prod_def)
      qed
      then have "list_all (clearly_better b) rest" by (simp add: list_all_iff)
      moreover have "select_plan segments cs P = plan_for segments b (map rank_name rest) ''best''"
        using Cons r False by (auto simp: select_plan_def)
      ultimately show ?thesis using m by (auto simp: plan_for_fields)
    qed
  qed
qed

section \<open>Evidence is bounded\<close>

definition apply_usages :: "(nat \<times> ExperienceOutcome) list \<Rightarrow> ConfidenceRecord \<Rightarrow> ConfidenceRecord" where
  "apply_usages us c = foldl (\<lambda>c (now, u). apply_experience_usage now u c) c us"

text \<open>Confidence stays a probability and only the experience's own outcomes move it. After any
  sequence of reported outcomes the score lies between 0 and 1, a sequence without successes
  and invalid outcomes leaves it unchanged, and each kind of outcome is counted exactly as
  often as it was reported.\<close>

theorem evidence_bounded:
  assumes "0 \<le> score c" and "score c \<le> 1"
  shows "0 \<le> score (apply_usages us c) \<and> score (apply_usages us c) \<le> 1 \<and>
    (set (map snd us) \<subseteq> {ExpMisfire, ExpExecutionError} \<longrightarrow> score (apply_usages us c) = score c) \<and>
    successes (evidence (apply_usages us c)) = successes (evidence c) + count_list (map snd us) ExpSuccess \<and>
    misfires (evidence (apply_usages us c)) = misfires (evidence c) + count_list (map snd us) ExpMisfire \<and>
    invalid (evidence (apply_usages us c)) = invalid (evidence c) + count_list (map snd us) ExpInvalid \<and>
    execution_errors (evidence (apply_usages us c)) = execution_errors (evidence c) + count_list (map snd us) ExpExecutionError"
  using assms
proof (induction us arbitrary: c)
  case (Cons u us)
  obtain now k where u: "u = (now, k)" by (cases u)
  let ?c = "apply_experience_usage now k c"
  have step: "apply_usages (u # us) c = apply_usages us ?c" by (simp add: apply_usages_def u)
  have "0 \<le> score ?c" "score ?c \<le> 1"
    using Cons.prems by (cases k; simp add: record_success_def record_misfire_def record_invalid_def record_execution_error_def)+
  note ih = Cons.IH [OF this]
  show ?case unfolding step using ih
    by (cases k) (simp_all add: u record_success_def record_misfire_def record_invalid_def record_execution_error_def)
qed (simp add: apply_usages_def)

theorem evidence_bounded_witness:
  "score (apply_usages [(1, ExpMisfire), (2, ExpExecutionError)] ConfidenceRecord_default) = 1 / 2"
  using evidence_bounded [of ConfidenceRecord_default "[(1, ExpMisfire), (2, ExpExecutionError)]"]
  by (simp add: ConfidenceRecord_default_def)

end
