(* ===== verification/Similarity.thy ===== *)
theory Similarity
  imports Complex_Main Template "HOL-Library.Product_Lexorder" "HOL-Library.Multiset"
begin

text \<open>
  Read-only structural similarity of experiences (\<open>similarity.rs\<close>): component sets, the Jaccard
  score, the greedy family clusters and the ranked pairs. A score is the exact quotient of two
  counts; the rounding of the \<open>f64\<close> division is not modelled.
\<close>

section \<open>Fingerprints and the score\<close>

record Fingerprint =
  fp_tool :: string
  fp_pattern :: string
  fp_actions :: string
  fp_action_set :: "string set"

definition fp_components :: "Fingerprint \<Rightarrow> string set" where
  "fp_components fp =
     (\<lambda>a. ''action:'' @ a) ` fp_action_set fp \<union> {''tool:'' @ fp_tool fp} \<union>
     set (map (\<lambda>w. ''word:'' @ w) (filter (\<lambda>w. 3 \<le> length w) (split_whitespace (fp_pattern fp))))"

definition exp_fingerprint :: "Experience \<Rightarrow> Fingerprint" where
  "exp_fingerprint e =
     (let pattern = (case command_pattern (exp_trigger e) of Some p \<Rightarrow> p | None \<Rightarrow> [])
      in \<lparr>fp_tool = pat_tool (exp_trigger e),
          fp_pattern = to_lowercase (join_str '' '' (split_whitespace pattern)),
          fp_actions = join_str ''>'' (map step_action (exp_workflow e)),
          fp_action_set = set (map step_action (exp_workflow e))\<rparr>)"

definition jaccard :: "string set \<Rightarrow> string set \<Rightarrow> rat" where
  "jaccard l r =
     (if l = {} \<and> r = {} then 1
      else if card (l \<union> r) = 0 then 0
      else of_nat (card (l \<inter> r)) / of_nat (card (l \<union> r)))"

definition similarity :: "Experience \<Rightarrow> Experience \<Rightarrow> rat" where
  "similarity l r = jaccard (fp_components (exp_fingerprint l)) (fp_components (exp_fingerprint r))"

section \<open>Clusters\<close>

record Cluster =
  cl_label :: string
  cl_members :: "string list"
  max_similarity :: rat

definition cluster_score :: "Experience list \<Rightarrow> Experience \<Rightarrow> Cluster \<Rightarrow> rat option" where
  "cluster_score es e c =
     map_option (\<lambda>first. similarity first e) (find (\<lambda>x. exp_name x = hd (cl_members c)) es)"

fun place :: "Experience list \<Rightarrow> rat \<Rightarrow> Experience \<Rightarrow> Cluster list \<Rightarrow> Cluster list option" where
  "place es threshold e [] = None"
| "place es threshold e (c # cs) =
     (case cluster_score es e c of
        Some score \<Rightarrow>
          (if threshold \<le> score
           then Some (c\<lparr>cl_members := cl_members c @ [exp_name e],
                        max_similarity := max (max_similarity c) score\<rparr> # cs)
           else map_option ((#) c) (place es threshold e cs))
      | None \<Rightarrow> map_option ((#) c) (place es threshold e cs))"

definition new_cluster :: "Experience \<Rightarrow> Cluster" where
  "new_cluster e =
     (let fp = exp_fingerprint e
      in \<lparr>cl_label = fp_tool fp @ ''|'' @ fp_pattern fp @ ''|'' @ fp_actions fp,
          cl_members = [exp_name e], max_similarity = 0\<rparr>)"

definition add_to_clusters :: "Experience list \<Rightarrow> rat \<Rightarrow> Cluster list \<Rightarrow> Experience \<Rightarrow> Cluster list" where
  "add_to_clusters es threshold cs e =
     (case place es threshold e cs of Some cs' \<Rightarrow> cs' | None \<Rightarrow> cs @ [new_cluster e])"

definition clusters :: "Experience list \<Rightarrow> rat \<Rightarrow> Cluster list" where
  "clusters es threshold =
     sort_key (\<lambda>c. (- int (length (cl_members c)), cl_label c)) (foldl (add_to_clusters es threshold) [] es)"

section \<open>Pairs\<close>

record Pair =
  pair_left :: string
  pair_right :: string
  pair_similarity :: rat

fun all_pairs :: "rat \<Rightarrow> Experience list \<Rightarrow> Pair list" where
  "all_pairs threshold [] = []"
| "all_pairs threshold (l # rest) =
     map (\<lambda>r. \<lparr>pair_left = exp_name l, pair_right = exp_name r, pair_similarity = similarity l r\<rparr>)
       (filter (\<lambda>r. threshold \<le> similarity l r) rest) @ all_pairs threshold rest"

definition pairs :: "Experience list \<Rightarrow> rat \<Rightarrow> nat \<Rightarrow> Pair list" where
  "pairs es threshold cap =
     take cap (sort_key (\<lambda>p. (- pair_similarity p, pair_left p)) (all_pairs threshold es))"

section \<open>The score is a similarity\<close>

lemma finite_components [simp]: "finite (fp_components (exp_fingerprint e))"
  by (simp add: fp_components_def exp_fingerprint_def Let_def)

lemma components_not_empty: "fp_components f \<noteq> {}"
  by (simp add: fp_components_def)

lemma jaccard_bounds: "finite l \<Longrightarrow> finite r \<Longrightarrow> 0 \<le> jaccard l r \<and> jaccard l r \<le> 1"
  using card_mono [of "l \<union> r" "l \<inter> r"] by (auto simp: jaccard_def divide_le_eq)

lemma jaccard_sym: "jaccard l r = jaccard r l"
  by (simp add: jaccard_def Un_commute Int_commute conj_commute)

lemma jaccard_one_iff:
  assumes "finite l" "finite r"
  shows "jaccard l r = 1 \<longleftrightarrow> l = r"
proof
  assume j: "jaccard l r = 1"
  show "l = r"
  proof (cases "l \<union> r = {}")
    case False
    with assms have "card (l \<union> r) \<noteq> 0" by simp
    with j False have "card (l \<inter> r) = card (l \<union> r)" by (auto simp: jaccard_def divide_eq_1_iff split: if_splits)
    with assms have "l \<inter> r = l \<union> r" by (intro card_subset_eq) auto
    then show ?thesis by blast
  qed simp
qed (use assms in \<open>auto simp: jaccard_def\<close>)

text \<open>The structural score behaves like a similarity. For all experiences it lies between 0 and 1,
  does not depend on the order of the two arguments, and is 1 exactly for experiences with the
  same component set, in particular of an experience with itself.\<close>

theorem similarity_laws:
  "0 \<le> similarity a b \<and> similarity a b \<le> 1 \<and> similarity a b = similarity b a \<and>
   (similarity a b = 1 \<longleftrightarrow> fp_components (exp_fingerprint a) = fp_components (exp_fingerprint b)) \<and>
   similarity a a = 1"
  unfolding similarity_def
  using jaccard_bounds [of "fp_components (exp_fingerprint a)" "fp_components (exp_fingerprint b)"]
    jaccard_sym [of "fp_components (exp_fingerprint a)" "fp_components (exp_fingerprint b)"]
    jaccard_one_iff [of "fp_components (exp_fingerprint a)" "fp_components (exp_fingerprint b)"]
    jaccard_one_iff [of "fp_components (exp_fingerprint a)" "fp_components (exp_fingerprint a)"]
  by simp

section \<open>The clusters partition the store\<close>

text \<open>What every intermediate cluster list satisfies after the experiences \<open>seen\<close>.\<close>

definition family :: "Experience list \<Rightarrow> rat \<Rightarrow> Cluster \<Rightarrow> bool" where
  "family es threshold c \<longleftrightarrow> cl_members c \<noteq> [] \<and>
     (\<exists>first \<in> set es. exp_name first = hd (cl_members c) \<and>
        (\<forall>n \<in> set (tl (cl_members c)). \<exists>e \<in> set es. exp_name e = n \<and>
           threshold \<le> similarity first e \<and> similarity first e \<le> max_similarity c))"

definition partitions :: "Experience list \<Rightarrow> rat \<Rightarrow> Experience list \<Rightarrow> Cluster list \<Rightarrow> bool" where
  "partitions es threshold seen cs \<longleftrightarrow>
     mset (concat (map cl_members cs)) = mset (map exp_name seen) \<and> list_all (family es threshold) cs"

lemma find_by_name:
  assumes "distinct (map exp_name es)" "e \<in> set es"
  shows "find (\<lambda>x. exp_name x = exp_name e) es = Some e"
  using assms by (induction es) (auto simp: image_iff)

lemma cluster_score_Some:
  assumes "distinct (map exp_name es)" "family es threshold c" "cluster_score es e c = Some s"
  obtains first where "first \<in> set es" "exp_name first = hd (cl_members c)" "s = similarity first e"
    "\<forall>n \<in> set (tl (cl_members c)). \<exists>x \<in> set es. exp_name x = n \<and> threshold \<le> similarity first x \<and>
       similarity first x \<le> max_similarity c"
proof -
  from assms(2) obtain first where f: "first \<in> set es" "exp_name first = hd (cl_members c)"
    "\<forall>n \<in> set (tl (cl_members c)). \<exists>x \<in> set es. exp_name x = n \<and> threshold \<le> similarity first x \<and>
       similarity first x \<le> max_similarity c"
    unfolding family_def by blast
  from assms(3) find_by_name [OF assms(1) f(1)] f(2) have "s = similarity first e"
    by (simp add: cluster_score_def)
  with f show thesis using that by blast
qed

lemma place_partitions:
  assumes "distinct (map exp_name es)" "e \<in> set es" "place es threshold e cs = Some cs'"
    "list_all (family es threshold) cs"
  shows "mset (concat (map cl_members cs')) = add_mset (exp_name e) (mset (concat (map cl_members cs))) \<and>
    list_all (family es threshold) cs'"
  using assms(3,4)
proof (induction cs arbitrary: cs')
  case (Cons c cs)
  show ?case
  proof (cases "\<exists>s. cluster_score es e c = Some s \<and> threshold \<le> s")
    case True
    then obtain s where s: "cluster_score es e c = Some s" "threshold \<le> s" by blast
    have fam: "family es threshold c" using Cons.prems by simp
    obtain first where f: "first \<in> set es" "exp_name first = hd (cl_members c)" "s = similarity first e"
      "\<forall>n \<in> set (tl (cl_members c)). \<exists>x \<in> set es. exp_name x = n \<and> threshold \<le> similarity first x \<and>
         similarity first x \<le> max_similarity c"
      using cluster_score_Some [OF assms(1) fam s(1)] by blast
    have ne: "cl_members c \<noteq> []" using fam by (simp add: family_def)
    let ?c = "c\<lparr>cl_members := cl_members c @ [exp_name e], max_similarity := max (max_similarity c) s\<rparr>"
    have "\<forall>n \<in> set (tl (cl_members ?c)). \<exists>x \<in> set es. exp_name x = n \<and> threshold \<le> similarity first x \<and>
        similarity first x \<le> max_similarity ?c"
    proof
      fix n assume "n \<in> set (tl (cl_members ?c))"
      then consider "n \<in> set (tl (cl_members c))" | "n = exp_name e" using ne by (cases "cl_members c") auto
      then show "\<exists>x \<in> set es. exp_name x = n \<and> threshold \<le> similarity first x \<and> similarity first x \<le> max_similarity ?c"
      proof cases
        case 1
        with f(4) show ?thesis by (auto simp: le_max_iff_disj)
      next
        case 2
        with assms(2) s(2) f(3) show ?thesis by (intro bexI [of _ e]) simp_all
      qed
    qed
    then have "family es threshold ?c" unfolding family_def
      by (intro conjI bexI [of _ first]) (use f(1,2) ne in simp_all)
    with Cons.prems s show ?thesis by auto
  next
    case False
    with Cons.prems obtain ds where "place es threshold e cs = Some ds" "cs' = c # ds"
      by (auto split: option.splits if_splits)
    with Cons.IH [of ds] Cons.prems show ?thesis by auto
  qed
qed simp

lemma new_cluster_family: "e \<in> set es \<Longrightarrow> family es threshold (new_cluster e)"
  by (auto simp: family_def new_cluster_def Let_def)

lemma add_partitions:
  assumes "distinct (map exp_name es)" "e \<in> set es" "partitions es threshold seen cs"
  shows "partitions es threshold (seen @ [e]) (add_to_clusters es threshold cs e)"
  using assms place_partitions [OF assms(1,2)] new_cluster_family [OF assms(2), of threshold]
  by (cases "place es threshold e cs")
    (auto simp: partitions_def add_to_clusters_def new_cluster_def Let_def)

lemma fold_partitions:
  assumes "distinct (map exp_name es)" "set todo \<subseteq> set es" "partitions es threshold seen cs"
  shows "partitions es threshold (seen @ todo) (foldl (add_to_clusters es threshold) cs todo)"
  using assms(2,3)
proof (induction todo arbitrary: seen cs)
  case (Cons e todo)
  with add_partitions [OF assms(1), of e threshold seen cs] show ?case
    using Cons.IH [of "seen @ [e]"] by simp
qed simp

text \<open>The family report accounts for every experience exactly once. For experiences with distinct
  names, the members of the clusters are the names of the experiences, each occurring once;
  every further member of a cluster is at least threshold-similar to its first member and at most
  as similar as the reported maximum; and larger clusters come first.\<close>

theorem clusters_partition:
  assumes "distinct (map exp_name es)"
  shows "mset (concat (map cl_members (clusters es threshold))) = mset (map exp_name es) \<and>
    (\<forall>c \<in> set (clusters es threshold). family es threshold c) \<and>
    sorted_wrt (\<ge>) (map (\<lambda>c. length (cl_members c)) (clusters es threshold))"
proof -
  let ?k = "\<lambda>c. (- int (length (cl_members c)), cl_label c)"
  let ?cs = "foldl (add_to_clusters es threshold) [] es"
  have "partitions es threshold ([] @ es) ?cs"
    by (rule fold_partitions [OF assms]) (simp_all add: partitions_def)
  then have p: "mset (concat (map cl_members ?cs)) = mset (map exp_name es)" "list_all (family es threshold) ?cs"
    by (simp_all add: partitions_def)
  have m: "mset (concat (map cl_members (sort_key ?k ?cs))) = mset (concat (map cl_members ?cs))"
    unfolding mset_concat map_map sum_mset_sum_list [symmetric] mset_map mset_sort ..
  have "sorted_wrt (\<lambda>x y. ?k x \<le> ?k y) (clusters es threshold)"
    using sorted_sort_key [of ?k ?cs] by (simp add: clusters_def sorted_map)
  then have "sorted_wrt (\<ge>) (map (\<lambda>c. length (cl_members c)) (clusters es threshold))"
    unfolding sorted_wrt_map by (rule sorted_wrt_mono_rel [rotated]) (auto simp: less_eq_prod_def)
  moreover have "\<forall>c \<in> set (clusters es threshold). family es threshold c"
    using p(2) by (simp add: clusters_def list_all_iff)
  moreover have "mset (concat (map cl_members (clusters es threshold))) = mset (map exp_name es)"
    using m p(1) by (simp add: clusters_def)
  ultimately show ?thesis by blast
qed


definition demo_other :: Experience where
  "demo_other = demo_instance\<lparr>exp_name := ''other''\<rparr>"

theorem clusters_partition_witness:
  "mset (concat (map cl_members (clusters [demo_instance, demo_other] (1 / 2)))) = {#exp_name demo_instance, ''other''#}"
proof -
  have "distinct (map exp_name [demo_instance, demo_other])" by code_simp
  from clusters_partition [OF this, of "1 / 2"] show ?thesis by (simp add: demo_other_def)
qed

end
