(* ===== verification/Runtime_State.thy ===== *)
theory Runtime_State
  imports Complex_Main Learning
begin

text \<open>
  The turn-level experience system (\<open>experience/experience.rs\<close>, \<open>experience_state.rs\<close>,
  \<open>experience_executor.rs\<close>): re-runnable experiences with their validation, the state projection
  with its key lookup, registry, aging and learning snapshot, and the deterministic workflow
  executor. Numbers of type \<open>f32\<close> are real numbers (rounding is not modelled); a hash map is a
  key-sorted list of pairs. The action runner of the session layer is a function from its own
  state and a step to a result and its next state.
\<close>

section \<open>Experiences\<close>

datatype ExperienceKind = KindReflex | KindProcess | KindResult | KindReference

datatype LifeStatus = SNew | SCandidate | SValidated | SActive | SDecaying | SDisabled

datatype RiskLevel = RiskLow | RiskMedium | RiskHigh

fun risk_rank :: "RiskLevel \<Rightarrow> nat" where
  "risk_rank RiskLow = 0"
| "risk_rank RiskMedium = 1"
| "risk_rank RiskHigh = 2"

record ExperienceTrigger =
  trig_object :: "string option"
  trig_location :: "string option"
  trig_goal :: "string option"
  trig_keywords :: "string list"
  trig_context :: "json btree"

definition ExperienceTrigger_default :: ExperienceTrigger where
  "ExperienceTrigger_default =
     \<lparr>trig_object = None, trig_location = None, trig_goal = None, trig_keywords = [], trig_context = []\<rparr>"

record ExperienceCondition =
  cond_key :: string
  cond_expected :: json

record ExperienceWorkflowStep =
  wstep_name :: string
  wstep_args :: json

datatype InputScope = ScopeSingle | ScopeBatch | ScopeAny | ScopeUnknown

record Applicability =
  input_scope :: InputScope
  applicable_objects :: "string list"
  parameterized :: bool

definition Applicability_default :: Applicability where
  "Applicability_default = \<lparr>input_scope = ScopeUnknown, applicable_objects = [], parameterized = False\<rparr>"

definition applicability_is_default :: "Applicability \<Rightarrow> bool" where
  "applicability_is_default a \<longleftrightarrow> a = Applicability_default"

record RunExperience =
  rx_id :: string
  rx_name :: string
  rx_kind :: ExperienceKind
  rx_trigger :: ExperienceTrigger
  rx_conditions :: "ExperienceCondition list"
  rx_steps :: "ExperienceWorkflowStep list"
  rx_completion_criteria :: "string option"
  rx_failure_modes :: "string list"
  rx_assets :: "string btree"
  rx_applicability :: Applicability
  rx_title :: "string option"
  rx_note :: "string option"
  rx_created_at :: "nat option"
  rx_confidence :: real
  rx_risk :: RiskLevel
  rx_status :: LifeStatus
  rx_version :: nat

datatype ExperienceValidationError =
    EmptyName
  | EmptyTrigger
  | EmptyWorkflow
  | EmptyStepName nat
  | ConfidenceOutOfRange real
  | InvalidVersion nat

definition has_text :: "string option \<Rightarrow> bool" where
  "has_text v \<longleftrightarrow> (case v of Some t \<Rightarrow> t \<noteq> [] | None \<Rightarrow> False)"

definition trigger_has_signal :: "ExperienceTrigger \<Rightarrow> bool" where
  "trigger_has_signal t \<longleftrightarrow> trig_keywords t \<noteq> [] \<or> has_text (trig_object t) \<or> has_text (trig_location t) \<or>
     has_text (trig_goal t)"

fun empty_step_name :: "nat \<Rightarrow> ExperienceWorkflowStep list \<Rightarrow> nat option" where
  "empty_step_name i [] = None"
| "empty_step_name i (s # ss) = (if trim_str (wstep_name s) = [] then Some i else empty_step_name (Suc i) ss)"

definition rx_validate :: "RunExperience \<Rightarrow> ExperienceValidationError + unit" where
  "rx_validate x =
     (if trim_str (rx_name x) = [] then Inl EmptyName
      else if \<not> trigger_has_signal (rx_trigger x) then Inl EmptyTrigger
      else if rx_steps x = [] then Inl EmptyWorkflow
      else case empty_step_name 0 (rx_steps x) of
        Some i \<Rightarrow> Inl (EmptyStepName i)
      | None \<Rightarrow>
          (if \<not> (0 \<le> rx_confidence x \<and> rx_confidence x \<le> 1) then Inl (ConfidenceOutOfRange (rx_confidence x))
           else if rx_version x = 0 then Inl (InvalidVersion (rx_version x))
           else Inr ()))"

definition bump_version :: "RunExperience \<Rightarrow> RunExperience" where
  "bump_version x = x\<lparr>rx_version := rx_version x + 1\<rparr>"

section \<open>The state projection\<close>

record ExperienceContext =
  environment_key :: "string option"
  intent :: "string option"

record EnvironmentDetection =
  det_key :: string
  det_present :: bool
  det_detail :: "string option"

record EnvironmentState =
  environment_id :: "string option"
  env_cwd :: "string option"
  sandbox_level :: "string option"
  detections :: "EnvironmentDetection list"

record NetworkState =
  net_policy :: "string option"
  net_proxy :: "string option"
  net_reachability :: "string option"

record ConfigState =
  workspace_roots :: "string list"
  config_entries :: "string btree"

datatype ElementSource = SourceTurn | SourceStep | SourceDetection | SourceDeployed | SourceConfig

fun source_debug :: "ElementSource \<Rightarrow> string" where
  "source_debug SourceTurn = ''Turn''"
| "source_debug SourceStep = ''Step''"
| "source_debug SourceDetection = ''Detection''"
| "source_debug SourceDeployed = ''Deployed''"
| "source_debug SourceConfig = ''Config''"

record StateElement =
  elem_key :: string
  elem_value :: json
  elem_source :: ElementSource
  verified_at :: "nat option"
  elem_ttl :: "nat option"

record DeployedElement =
  dep_key :: string
  dep_value :: json
  dep_action :: string
  dep_ok :: bool
  dep_at :: string

datatype TaskStatus = TaskPending | TaskInProgress | TaskCompleted | TaskStatusFailed | TaskNeedsLlm

fun task_status_text :: "TaskStatus \<Rightarrow> string" where
  "task_status_text TaskPending = ''pending''"
| "task_status_text TaskInProgress = ''in_progress''"
| "task_status_text TaskCompleted = ''completed''"
| "task_status_text TaskStatusFailed = ''failed''"
| "task_status_text TaskNeedsLlm = ''needs_llm''"

record Task =
  task_description :: string
  task_status :: TaskStatus

datatype ExecutionMode = ModeReflex | ModeDeliberation | ModeConflict

record ExperienceAction =
  act_name :: string
  act_args :: json

record ActionResult =
  ar_ok :: bool
  ar_summary :: string
  ar_deployed :: "DeployedElement option"

record ExperienceState =
  current_goal :: "string option"
  current_context :: ExperienceContext
  environment :: EnvironmentState
  network :: NetworkState
  tools_available :: "string list"
  config :: ConfigState
  elements :: "StateElement list"
  deployed :: "DeployedElement list"
  process_log :: "ProcessStep list"
  task :: "Task option"
  executed_steps :: "string list"
  active_experience :: "string option"
  execution_mode :: ExecutionMode
  state_confidence :: real
  state_risk :: RiskLevel
  last_action :: "ExperienceAction option"
  last_result :: "ActionResult option"

definition ExperienceState_default :: ExperienceState where
  "ExperienceState_default =
     \<lparr>current_goal = None, current_context = \<lparr>environment_key = None, intent = None\<rparr>,
      environment = \<lparr>environment_id = None, env_cwd = None, sandbox_level = None, detections = []\<rparr>,
      network = \<lparr>net_policy = None, net_proxy = None, net_reachability = None\<rparr>, tools_available = [],
      config = \<lparr>workspace_roots = [], config_entries = []\<rparr>, elements = [], deployed = [], process_log = [],
      task = None, executed_steps = [], active_experience = None, execution_mode = ModeDeliberation,
      state_confidence = 0, state_risk = RiskLow, last_action = None, last_result = None\<rparr>"

section \<open>Lookup and registry\<close>

definition json_strings :: "string list \<Rightarrow> json" where
  "json_strings vs = JArray (map JString vs)"

definition DETECTION_PREFIX :: string where
  "DETECTION_PREFIX = ''environment.detection.''"

definition state_fields :: "ExperienceState \<Rightarrow> (string \<times> json option) list" where
  "state_fields st =
     [(''goal.description'', map_option JString (current_goal st)),
      (''context.intent'', map_option JString (intent (current_context st))),
      (''context.environment_key'', map_option JString (environment_key (current_context st))),
      (''environment.id'', map_option JString (environment_id (environment st))),
      (''environment.cwd'', map_option JString (env_cwd (environment st))),
      (''environment.sandbox_level'', map_option JString (sandbox_level (environment st))),
      (''network.policy'', map_option JString (net_policy (network st))),
      (''network.proxy'', map_option JString (net_proxy (network st))),
      (''network.reachability'', map_option JString (net_reachability (network st))),
      (''tools.available'', Some (json_strings (tools_available st))),
      (''config.workspace_roots'', Some (json_strings (workspace_roots (config st)))),
      (''config.entries'', Some (JObject (map (\<lambda>(k, v). (k, JString v)) (config_entries (config st))))),
      (''task.description'', map_option (\<lambda>t. JString (task_description t)) (task st)),
      (''task.status'', map_option (\<lambda>t. JString (task_status_text (task_status t))) (task st)),
      (''task.completed'', map_option (\<lambda>t. JBool (task_status t = TaskCompleted)) (task st)),
      (''executed_steps'', Some (json_strings (executed_steps st))),
      (''last_action.name'', map_option (\<lambda>a. JString (act_name a)) (last_action st)),
      (''last_result.ok'', map_option (\<lambda>r. JBool (ar_ok r)) (last_result st))]"

definition lookup :: "ExperienceState \<Rightarrow> string \<Rightarrow> json option" where
  "lookup st key =
     (case map_of (state_fields st) key of
        Some v \<Rightarrow> v
      | None \<Rightarrow>
          (case strip_prefix key DETECTION_PREFIX of
             Some detection_key \<Rightarrow>
               map_option (\<lambda>d. JBool (det_present d)) (find (\<lambda>d. det_key d = detection_key) (detections (environment st)))
           | None \<Rightarrow> map_option elem_value (find (\<lambda>e. elem_key e = key) (elements st))))"

definition state_satisfies :: "ExperienceState \<Rightarrow> string \<Rightarrow> json \<Rightarrow> bool" where
  "state_satisfies st key expected \<longleftrightarrow> lookup st key = Some expected"

fun upsert_list :: "StateElement \<Rightarrow> StateElement list \<Rightarrow> StateElement list" where
  "upsert_list e [] = [e]"
| "upsert_list e (x # xs) = (if elem_key x = elem_key e then e # xs else x # upsert_list e xs)"

definition upsert_element :: "StateElement \<Rightarrow> ExperienceState \<Rightarrow> ExperienceState" where
  "upsert_element e st = st\<lparr>elements := upsert_list e (elements st)\<rparr>"

definition inherit_session :: "ExperienceState \<Rightarrow> ExperienceState \<Rightarrow> ExperienceState" where
  "inherit_session previous st =
     (let st1 = st\<lparr>elements := elements previous, deployed := deployed previous, environment := environment previous,
                   network := network previous, tools_available := tools_available previous, config := config previous\<rparr>
      in if task st = None
         then st1\<lparr>task := task previous, executed_steps := executed_steps previous, process_log := process_log previous\<rparr>
         else st1)"

text \<open>\<open>u64::saturating_add\<close>.\<close>

definition sat_add64 :: "nat \<Rightarrow> nat \<Rightarrow> nat" where
  "sat_add64 a b = min (a + b) (2 ^ 64 - 1)"

definition elem_expired :: "nat \<Rightarrow> StateElement \<Rightarrow> bool" where
  "elem_expired now e \<longleftrightarrow>
     (case elem_ttl e of
        Some ttl \<Rightarrow> sat_add64 (case verified_at e of Some v \<Rightarrow> v | None \<Rightarrow> 0) ttl \<le> now
      | None \<Rightarrow> False)"

definition state_tick :: "nat \<Rightarrow> ExperienceState \<Rightarrow> string list \<times> ExperienceState" where
  "state_tick now st =
     (map elem_key (filter (elem_expired now) (elements st)),
      st\<lparr>elements := filter (\<lambda>e. \<not> elem_expired now e) (elements st)\<rparr>)"

section \<open>Payloads\<close>

definition json_opt :: "json option \<Rightarrow> json" where
  "json_opt v = (case v of Some j \<Rightarrow> j | None \<Rightarrow> JNull)"

definition handoff_payload :: "ExperienceState \<Rightarrow> json" where
  "handoff_payload st =
     json_object (map (\<lambda>(field, key). (field, json_opt (lookup st key)))
       [(''task'', ''task.description''), (''task_status'', ''task.status''), (''task_completed'', ''task.completed''),
        (''executed_steps'', ''executed_steps''), (''last_action'', ''last_action.name''),
        (''last_result_ok'', ''last_result.ok''), (''environment_cwd'', ''environment.cwd''),
        (''environment_sandbox'', ''environment.sandbox_level''), (''network_policy'', ''network.policy''),
        (''tools'', ''tools.available'')])"

definition detection_json :: "EnvironmentDetection \<Rightarrow> json" where
  "detection_json d =
     json_object [(''key'', JString (det_key d)), (''present'', JBool (det_present d)),
       (''detail'', json_opt (map_option JString (det_detail d)))]"

definition element_json :: "StateElement \<Rightarrow> json" where
  "element_json e =
     json_object [(''key'', JString (elem_key e)), (''value'', elem_value e), (''source'', JString (source_debug (elem_source e)))]"

definition snapshot_for_learning :: "ExperienceState \<Rightarrow> json" where
  "snapshot_for_learning st =
     json_object
       [(''task_status'', json_opt (map_option (\<lambda>t. JString (task_status_text (task_status t))) (task st))),
        (''environment'', json_object
           [(''id'', json_opt (map_option JString (environment_id (environment st)))),
            (''cwd'', json_opt (map_option JString (env_cwd (environment st)))),
            (''sandbox_level'', json_opt (map_option JString (sandbox_level (environment st)))),
            (''detections'', JArray (map detection_json (detections (environment st))))]),
        (''network'', json_object
           [(''policy'', json_opt (map_option JString (net_policy (network st)))),
            (''reachability'', json_opt (map_option JString (net_reachability (network st))))]),
        (''tools'', json_strings (tools_available st)),
        (''elements'', JArray (map element_json (elements st))),
        (''executed_steps'', json_strings (take 200 (executed_steps st))),
        (''deployed'', json_strings (map dep_key (deployed st)))]"

section \<open>Executing a workflow\<close>

datatype ExecutionOutcome = ExecCompleted | ExecFailed | ExecNeedsLlm

definition set_status :: "TaskStatus \<Rightarrow> string \<Rightarrow> ExperienceState \<Rightarrow> ExperienceState" where
  "set_status status name st =
     st\<lparr>task := Some (case task st of
                        Some t \<Rightarrow> t\<lparr>task_status := status\<rparr>
                      | None \<Rightarrow> \<lparr>task_description = name, task_status = status\<rparr>)\<rparr>"

definition record_step :: "ExperienceWorkflowStep \<Rightarrow> ActionResult \<Rightarrow> ExperienceState \<Rightarrow> ExperienceState" where
  "record_step step result st =
     (let st1 = st\<lparr>executed_steps := executed_steps st @ [wstep_name step],
                   last_action := Some \<lparr>act_name = wstep_name step, act_args = wstep_args step\<rparr>\<rparr>;
          st2 = (case ar_deployed result of
                   Some d \<Rightarrow>
                     upsert_element \<lparr>elem_key = dep_key d, elem_value = dep_value d, elem_source = SourceDeployed,
                                     verified_at = None, elem_ttl = None\<rparr>
                       (st1\<lparr>deployed := deployed st1 @ [d]\<rparr>)
                 | None \<Rightarrow> st1)
      in st2\<lparr>last_result := Some result,
             process_log := process_log st2 @
               [proc_experience (wstep_name step)
                  (''ok='' @ (if ar_ok result then ''true'' else ''false'') @ '' '' @ ar_summary result)]\<rparr>)"

fun execute_steps :: "('s \<Rightarrow> ExperienceWorkflowStep \<Rightarrow> ActionResult \<times> 's) \<Rightarrow> string \<Rightarrow> ExperienceWorkflowStep list
    \<Rightarrow> ExperienceState \<Rightarrow> 's \<Rightarrow> ExecutionOutcome \<times> ExperienceState \<times> 's" where
  "execute_steps run name [] st s = (ExecCompleted, set_status TaskCompleted name st, s)"
| "execute_steps run name (step # steps) st s =
     (case run s step of
        (result, s1) \<Rightarrow>
          (if ar_ok result then execute_steps run name steps (record_step step result st) s1
           else (ExecFailed,
                 (set_status TaskStatusFailed name (record_step step result st))\<lparr>execution_mode := ModeConflict\<rparr>, s1)))"

definition execute_workflow :: "('s \<Rightarrow> ExperienceWorkflowStep \<Rightarrow> ActionResult \<times> 's) \<Rightarrow> RunExperience
    \<Rightarrow> ExperienceState \<Rightarrow> 's \<Rightarrow> ExecutionOutcome \<times> ExperienceState \<times> 's" where
  "execute_workflow run x st s =
     (if rx_steps x = [] then
        (ExecNeedsLlm, (set_status TaskNeedsLlm (rx_name x) st)\<lparr>execution_mode := ModeConflict\<rparr>, s)
      else
        execute_steps run (rx_name x) (rx_steps x)
          (set_status TaskInProgress (rx_name x)
             (st\<lparr>active_experience := Some (rx_id x), execution_mode := ModeReflex\<rparr>)) s)"


section \<open>The completion signal\<close>

text \<open>The results a runner produces for a workflow, up to and including the first failure.\<close>

fun results_until_failure :: "('s \<Rightarrow> ExperienceWorkflowStep \<Rightarrow> ActionResult \<times> 's) \<Rightarrow> ExperienceWorkflowStep list \<Rightarrow> 's
    \<Rightarrow> ActionResult list" where
  "results_until_failure run [] s = []"
| "results_until_failure run (step # steps) s =
     (case run s step of (r, s1) \<Rightarrow> r # (if ar_ok r then results_until_failure run steps s1 else []))"

definition task_status_of :: "ExperienceState \<Rightarrow> TaskStatus option" where
  "task_status_of st = map_option task_status (task st)"

lemma record_step_fields [simp]:
  "executed_steps (record_step step r st) = executed_steps st @ [wstep_name step]"
  "task (record_step step r st) = task st"
  by (simp_all add: record_step_def Let_def upsert_element_def split: option.split)

lemma set_status_fields [simp]:
  "executed_steps (set_status status name st) = executed_steps st"
  "task_status_of (set_status status name st) = Some status"
  by (auto simp: set_status_def task_status_of_def split: option.split)

lemma task_status_of_mode [simp]: "task_status_of (st\<lparr>execution_mode := m\<rparr>) = task_status_of st"
  by (simp add: task_status_of_def)

lemma results_length: "length (results_until_failure run steps s) \<le> length steps"
  by (induction steps arbitrary: s) (auto split: prod.split)

lemma execute_steps_spec:
  "execute_steps run name steps st s = (out, st', s') \<Longrightarrow>
   (let rs = results_until_failure run steps s
    in (out = ExecCompleted \<longleftrightarrow> length rs = length steps \<and> list_all ar_ok rs) \<and>
       (out = ExecFailed \<longleftrightarrow> \<not> list_all ar_ok rs) \<and>
       executed_steps st' = executed_steps st @ map wstep_name (take (length rs) steps) \<and>
       task_status_of st' = Some (if out = ExecCompleted then TaskCompleted else TaskStatusFailed))"
proof (induction steps arbitrary: st s)
  case Nil
  then show ?case by (auto simp: Let_def)
next
  case (Cons step steps)
  obtain r s1 where r: "run s step = (r, s1)" by fastforce
  show ?case
  proof (cases "ar_ok r")
    case True
    with Cons.prems r have "execute_steps run name steps (record_step step r st) s1 = (out, st', s')" by simp
    from Cons.IH [OF this] True r show ?thesis by (auto simp: Let_def)
  next
    case False
    with Cons.prems r have "out = ExecFailed"
      "st' = (set_status TaskStatusFailed name (record_step step r st))\<lparr>execution_mode := ModeConflict\<rparr>" by auto
    then show ?thesis using False r by (auto simp: Let_def)
  qed
qed

text \<open>Completion is exactly success of every step. A workflow run reports completion if and only if
  it has at least one step and every step succeeded; the recorded steps are those that were
  attempted, in order, ending with the first failure; and the task is marked completed exactly
  then, which is the only signal on which the language model is skipped.\<close>

theorem completion_signal_exact:
  assumes "execute_workflow run x st s = (out, st', s')"
  shows "(out = ExecCompleted \<longleftrightarrow> rx_steps x \<noteq> [] \<and> length (results_until_failure run (rx_steps x) s) = length (rx_steps x) \<and>
           list_all ar_ok (results_until_failure run (rx_steps x) s)) \<and>
    executed_steps st' = executed_steps st @ map wstep_name (take (length (results_until_failure run (rx_steps x) s)) (rx_steps x)) \<and>
    (task_status_of st' = Some TaskCompleted \<longleftrightarrow> out = ExecCompleted)"
proof (cases "rx_steps x = []")
  case True
  with assms show ?thesis by (auto simp: execute_workflow_def)
next
  case False
  let ?st = "set_status TaskInProgress (rx_name x) (st\<lparr>active_experience := Some (rx_id x), execution_mode := ModeReflex\<rparr>)"
  from False assms have "execute_steps run (rx_name x) (rx_steps x) ?st s = (out, st', s')"
    by (simp add: execute_workflow_def)
  from execute_steps_spec [OF this] False show ?thesis by (auto simp: Let_def)
qed

definition demo_rx :: RunExperience where
  "demo_rx = \<lparr>rx_id = ''x1'', rx_name = ''tidy'', rx_kind = KindReflex,
     rx_trigger = ExperienceTrigger_default\<lparr>trig_keywords := [''tidy'']\<rparr>, rx_conditions = [],
     rx_steps = [\<lparr>wstep_name = ''a'', wstep_args = JNull\<rparr>, \<lparr>wstep_name = ''b'', wstep_args = JNull\<rparr>],
     rx_completion_criteria = Some ''done'', rx_failure_modes = [], rx_assets = [],
     rx_applicability = Applicability_default\<lparr>input_scope := ScopeSingle\<rparr>, rx_title = None, rx_note = None,
     rx_created_at = None, rx_confidence = 8 / 10, rx_risk = RiskLow, rx_status = SActive, rx_version = 1\<rparr>"

definition demo_run_step :: "nat \<Rightarrow> ExperienceWorkflowStep \<Rightarrow> ActionResult \<times> nat" where
  "demo_run_step n step = (\<lparr>ar_ok = (n < 1), ar_summary = [], ar_deployed = None\<rparr>, Suc n)"

theorem completion_signal_exact_witness:
  "\<exists>st'. execute_workflow demo_run_step demo_rx ExperienceState_default 0 = (ExecFailed, st', 2) \<and>
     executed_steps st' = [''a'', ''b'']"
proof -
  obtain out st' s' where e: "execute_workflow demo_run_step demo_rx ExperienceState_default 0 = (out, st', s')"
    by (metis prod_cases3)
  have r: "results_until_failure demo_run_step (rx_steps demo_rx) 0 =
      [\<lparr>ar_ok = True, ar_summary = [], ar_deployed = None\<rparr>, \<lparr>ar_ok = False, ar_summary = [], ar_deployed = None\<rparr>]"
    by (simp add: demo_rx_def demo_run_step_def)
  have o: "out = ExecFailed \<and> s' = 2"
    using e by (simp add: execute_workflow_def demo_rx_def demo_run_step_def)
  from completion_signal_exact [OF e] r e o show ?thesis
    by (simp add: demo_rx_def ExperienceState_default_def)
qed

section \<open>The registry\<close>

lemma upsert_keys: "elem_key ` set (upsert_list e es) = insert (elem_key e) (elem_key ` set es)"
  by (induction es) auto

lemma upsert_distinct: "distinct (map elem_key es) \<Longrightarrow> distinct (map elem_key (upsert_list e es))"
  by (induction es) (auto simp: upsert_keys)

lemma find_upsert:
  "find (\<lambda>x. elem_key x = k) (upsert_list e es) = (if k = elem_key e then Some e else find (\<lambda>x. elem_key x = k) es)"
  by (induction es) auto

lemma find_distinct:
  "distinct (map f xs) \<Longrightarrow> x \<in> set xs \<Longrightarrow> find (\<lambda>y. f y = f x) xs = Some x"
  by (induction xs) (auto simp: image_iff)

end
