(* ===== verification/Runtime_Lifecycle.thy ===== *)
theory Runtime_Lifecycle
  imports Runtime_State
begin

text \<open>
  Confidence, lifecycle, store and usage log of the turn-level experience system
  (\<open>experience_confidence.rs\<close>, \<open>experience_lifecycle.rs\<close>, \<open>experience_store.rs\<close>,
  \<open>experience_usage.rs\<close>). The JSON encoding of the snapshot and of the usage file is serde's and an
  argument where it is used.
\<close>

section \<open>Confidence\<close>

record ConfidenceWeights =
  w_base :: real
  w_usage_frequency :: real
  w_user_acceptance :: real
  w_freshness :: real

definition ConfidenceWeights_default :: ConfidenceWeights where
  "ConfidenceWeights_default =
     \<lparr>w_base = 50 / 100, w_usage_frequency = 20 / 100, w_user_acceptance = 15 / 100, w_freshness = 15 / 100\<rparr>"

record ConfidenceCounters =
  success_count :: nat
  failure_count :: nat
  streak :: nat
  failure_streak :: nat
  frequency :: real
  total_usage :: nat
  positive_fb :: nat
  negative_fb :: nat
  last_used :: "nat option"

definition ConfidenceCounters_default :: ConfidenceCounters where
  "ConfidenceCounters_default =
     \<lparr>success_count = 0, failure_count = 0, streak = 0, failure_streak = 0, frequency = 0, total_usage = 0,
      positive_fb = 0, negative_fb = 0, last_used = None\<rparr>"

datatype FeedbackKind = FbSuccess | FbFailure | FbUserPositive | FbUserNegative

datatype ConfidenceLevel = LevelRaw | LevelLearning | LevelAutomatic

definition level_from_score :: "real \<Rightarrow> ConfidenceLevel" where
  "level_from_score s = (if s \<ge> 75 / 100 then LevelAutomatic else if s \<ge> 35 / 100 then LevelLearning else LevelRaw)"

fun apply_counters :: "FeedbackKind \<Rightarrow> ConfidenceCounters \<Rightarrow> ConfidenceCounters" where
  "apply_counters FbSuccess c =
     c\<lparr>success_count := success_count c + 1, streak := streak c + 1, failure_streak := 0,
       frequency := frequency c * (7 / 10) + 1, total_usage := total_usage c + 1\<rparr>"
| "apply_counters FbFailure c =
     c\<lparr>failure_count := failure_count c + 1, streak := 0, failure_streak := failure_streak c + 1,
       total_usage := total_usage c + 1\<rparr>"
| "apply_counters FbUserPositive c = c\<lparr>positive_fb := positive_fb c + 1\<rparr>"
| "apply_counters FbUserNegative c = c\<lparr>negative_fb := negative_fb c + 1\<rparr>"

definition counters_tick :: "ConfidenceCounters \<Rightarrow> ConfidenceCounters" where
  "counters_tick c = c\<lparr>frequency := frequency c * (7 / 10)\<rparr>"

definition counters_touch :: "nat \<Rightarrow> ConfidenceCounters \<Rightarrow> ConfidenceCounters" where
  "counters_touch now c = c\<lparr>last_used := Some now\<rparr>"

definition confidence_score :: "ConfidenceCounters \<Rightarrow> ConfidenceWeights \<Rightarrow> real \<Rightarrow> real \<Rightarrow> real" where
  "confidence_score c w days_since_last_use data_stability =
     (let pa = real (success_count c) / real (success_count c + failure_count c + 1);
          uf = min (frequency c / 10) 1;
          ua = real (positive_fb c + 1) / real (positive_fb c + negative_fb c + 2);
          freshness = exp (- (5 / 100) * days_since_last_use)
      in pa * (w_base w + uf * w_usage_frequency w + ua * w_user_acceptance w + freshness * w_freshness w) * data_stability)"

section \<open>Lifecycle\<close>

datatype LifecycleAction = LcValidate | LcActivate | LcDisable | LcRevalidate

datatype LifecycleError = IllegalTransition LifeStatus LifecycleAction | LcNotFound

datatype ForgettingDecision = ForgetKeep | DemoteToDecaying | ForgetDisable

definition VALIDATED_THRESHOLD :: real where "VALIDATED_THRESHOLD = 35 / 100"
definition ACTIVE_THRESHOLD :: real where "ACTIVE_THRESHOLD = 75 / 100"
definition DECAYING_FAILURES :: nat where "DECAYING_FAILURES = 3"
definition DISABLE_FAILURES :: nat where "DISABLE_FAILURES = 5"
definition RECOVERY_STREAK :: nat where "RECOVERY_STREAK = 2"
definition STALE_DAYS :: nat where "STALE_DAYS = 30"
definition FORGET_DAYS :: nat where "FORGET_DAYS = 60"

fun lifecycle_transition :: "LifeStatus \<Rightarrow> LifecycleAction \<Rightarrow> LifecycleError + LifeStatus" where
  "lifecycle_transition SNew LcValidate = Inr SValidated"
| "lifecycle_transition SCandidate LcValidate = Inr SValidated"
| "lifecycle_transition SValidated LcActivate = Inr SActive"
| "lifecycle_transition SDecaying LcActivate = Inr SActive"
| "lifecycle_transition SDecaying LcValidate = Inr SValidated"
| "lifecycle_transition _ LcDisable = Inr SDisabled"
| "lifecycle_transition SDisabled LcRevalidate = Inr SValidated"
| "lifecycle_transition current action = Inl (IllegalTransition current action)"

fun apply_feedback :: "LifeStatus \<Rightarrow> real \<Rightarrow> nat \<Rightarrow> nat \<Rightarrow> LifeStatus" where
  "apply_feedback SNew sc st fs = (if sc \<ge> VALIDATED_THRESHOLD then SValidated else SNew)"
| "apply_feedback SCandidate sc st fs = (if sc \<ge> VALIDATED_THRESHOLD then SValidated else SCandidate)"
| "apply_feedback SValidated sc st fs = (if sc \<ge> ACTIVE_THRESHOLD then SActive else SValidated)"
| "apply_feedback SActive sc st fs =
     (if fs \<ge> DISABLE_FAILURES then SDisabled
      else if fs \<ge> DECAYING_FAILURES \<or> sc < VALIDATED_THRESHOLD then SDecaying
      else SActive)"
| "apply_feedback SDecaying sc st fs =
     (if fs \<ge> DISABLE_FAILURES then SDisabled
      else if st \<ge> RECOVERY_STREAK then SActive
      else SDecaying)"
| "apply_feedback SDisabled sc st fs = SDisabled"

definition forgetting :: "LifeStatus \<Rightarrow> nat option \<Rightarrow> nat \<Rightarrow> bool \<Rightarrow> ForgettingDecision" where
  "forgetting status last_used_secs now exempt =
     (if exempt then ForgetKeep
      else case last_used_secs of
        None \<Rightarrow> ForgetKeep
      | Some used \<Rightarrow>
          (let age_days = (now - used) div 86400
           in if status = SValidated \<or> status = SActive then
                (if age_days \<ge> FORGET_DAYS then ForgetDisable
                 else if age_days \<ge> STALE_DAYS then DemoteToDecaying
                 else ForgetKeep)
              else if status = SDecaying then (if age_days \<ge> FORGET_DAYS then ForgetDisable else ForgetKeep)
              else ForgetKeep))"

section \<open>The store of the turn-level system\<close>

record RunStore =
  rs_experiences :: "RunExperience btree"
  rs_pinned :: "string list"

record RunStoreSnapshot =
  snap_experiences :: "RunExperience list"
  snap_pinned :: "string list"

definition RunStore_new :: RunStore where
  "RunStore_new = \<lparr>rs_experiences = [], rs_pinned = []\<rparr>"

definition rs_upsert :: "RunExperience \<Rightarrow> RunStore \<Rightarrow> RunStore" where
  "rs_upsert x s = s\<lparr>rs_experiences := bt_insert (rx_id x) x (rs_experiences s)\<rparr>"

definition upsert_validated :: "RunExperience \<Rightarrow> RunStore \<Rightarrow> ExperienceValidationError + RunStore" where
  "upsert_validated x s = (case rx_validate x of Inl e \<Rightarrow> Inl e | Inr _ \<Rightarrow> Inr (rs_upsert x s))"

definition rs_get :: "RunStore \<Rightarrow> string \<Rightarrow> RunExperience option" where
  "rs_get s i = bt_get (rs_experiences s) i"

definition rs_remove :: "string \<Rightarrow> RunStore \<Rightarrow> bool \<times> RunStore" where
  "rs_remove i s = (rs_get s i \<noteq> None, s\<lparr>rs_experiences := bt_remove i (rs_experiences s)\<rparr>)"

definition rs_transition :: "string \<Rightarrow> LifecycleAction \<Rightarrow> RunStore \<Rightarrow> (LifecycleError + LifeStatus) \<times> RunStore" where
  "rs_transition i action s =
     (case rs_get s i of
        None \<Rightarrow> (Inl LcNotFound, s)
      | Some x \<Rightarrow>
          (case lifecycle_transition (rx_status x) action of
             Inl e \<Rightarrow> (Inl e, s)
           | Inr next \<Rightarrow> (Inr next, s\<lparr>rs_experiences := bt_insert i (x\<lparr>rx_status := next\<rparr>) (rs_experiences s)\<rparr>)))"

definition rs_is_pinned :: "RunStore \<Rightarrow> string \<Rightarrow> bool" where
  "rs_is_pinned s i \<longleftrightarrow> i \<in> set (rs_pinned s)"

definition rs_pin :: "string \<Rightarrow> RunStore \<Rightarrow> bool \<times> RunStore" where
  "rs_pin i s =
     (if rs_get s i \<noteq> None
      then (True, s\<lparr>rs_pinned := (if rs_is_pinned s i then rs_pinned s else rs_pinned s @ [i])\<rparr>)
      else (False, s))"

definition rs_unpin :: "string \<Rightarrow> RunStore \<Rightarrow> bool \<times> RunStore" where
  "rs_unpin i s = (rs_is_pinned s i, s\<lparr>rs_pinned := filter (\<lambda>p. p \<noteq> i) (rs_pinned s)\<rparr>)"

definition rs_all :: "RunStore \<Rightarrow> RunExperience list" where
  "rs_all s = map snd (rs_experiences s)"

definition status_matchable :: "LifeStatus \<Rightarrow> bool" where
  "status_matchable st \<longleftrightarrow> st = SValidated \<or> st = SActive"

definition rs_matchable :: "RunStore \<Rightarrow> RunExperience list" where
  "rs_matchable s = filter (\<lambda>x. status_matchable (rx_status x)) (rs_all s)"

definition rs_stats :: "RunStore \<Rightarrow> (LifeStatus \<times> nat) list" where
  "rs_stats s =
     filter (\<lambda>(st, n). 0 < n)
       (map (\<lambda>st. (st, length (filter (\<lambda>x. rx_status x = st) (rs_all s))))
          [SNew, SCandidate, SValidated, SActive, SDecaying, SDisabled])"

definition rs_snapshot :: "RunStore \<Rightarrow> RunStoreSnapshot" where
  "rs_snapshot s = \<lparr>snap_experiences = rs_all s, snap_pinned = rs_pinned s\<rparr>"

definition rs_restore :: "RunStoreSnapshot \<Rightarrow> RunStore" where
  "rs_restore snap =
     (fold rs_upsert (snap_experiences snap) RunStore_new)\<lparr>rs_pinned := remdups (snap_pinned snap)\<rparr>"

definition rs_save :: "(RunStoreSnapshot \<Rightarrow> string) \<Rightarrow> RunStore \<Rightarrow> path \<Rightarrow> fsys \<Rightarrow> io_error + fsys" where
  "rs_save encode s p fs = fs_write_bytes fs p (encode (rs_snapshot s))"

definition rs_load :: "(string \<Rightarrow> RunStoreSnapshot option) \<Rightarrow> path \<Rightarrow> fsys \<Rightarrow> (io_error + string) + RunStore" where
  "rs_load decode p fs =
     (case fs_read_to_string fs p of
        Inl e \<Rightarrow> Inl (Inl e)
      | Inr json \<Rightarrow>
          (case decode json of
             None \<Rightarrow> Inl (Inr ''invalid data'')
           | Some snap \<Rightarrow> Inr (rs_restore snap)))"

section \<open>The usage log\<close>

record UsageLog =
  ul_at :: nat
  ul_band :: string
  ul_outcome :: "string option"
  ul_thread_id :: "string option"
  ul_turn_id :: "string option"
  ul_process :: string
  ul_task :: "string option"

record UsageEntry =
  ue_last_used :: "nat option"
  ue_hits :: nat
  ue_misfires :: nat
  ue_invalid_failures :: nat
  ue_decisions :: "nat btree"
  ue_logs :: "UsageLog list"

record AuditEntry =
  audit_at :: nat
  audit_action :: string
  audit_id :: string
  audit_by :: string
  audit_note :: string

record UsageStore =
  us_entries :: "UsageEntry btree"
  us_audit :: "AuditEntry list"
  us_path :: "path option"

definition UsageEntry_default :: UsageEntry where
  "UsageEntry_default =
     \<lparr>ue_last_used = None, ue_hits = 0, ue_misfires = 0, ue_invalid_failures = 0, ue_decisions = [], ue_logs = []\<rparr>"

definition UsageStore_default :: UsageStore where
  "UsageStore_default = \<lparr>us_entries = [], us_audit = [], us_path = None\<rparr>"

definition us_load :: "(string \<Rightarrow> UsageStore option) \<Rightarrow> path \<Rightarrow> fsys \<Rightarrow> UsageStore" where
  "us_load decode p fs =
     (case fs_read_to_string fs p of
        Inr json \<Rightarrow> (case decode json of Some u \<Rightarrow> u | None \<Rightarrow> UsageStore_default)
      | Inl _ \<Rightarrow> UsageStore_default)\<lparr>us_path := Some p\<rparr>"

definition us_save :: "(UsageStore \<Rightarrow> string) \<Rightarrow> UsageStore \<Rightarrow> path \<Rightarrow> fsys \<Rightarrow> io_error + fsys" where
  "us_save encode u p fs = fs_write_bytes fs p (encode u)"

definition us_entry :: "UsageStore \<Rightarrow> string \<Rightarrow> UsageEntry" where
  "us_entry u i = (case bt_get (us_entries u) i of Some e \<Rightarrow> e | None \<Rightarrow> UsageEntry_default)"

definition sat_inc32 :: "nat \<Rightarrow> nat" where
  "sat_inc32 n = min (n + 1) (2 ^ 32 - 1)"

definition MAX_LOGS :: nat where "MAX_LOGS = 200"

definition log_usage :: "UsageLog \<Rightarrow> UsageEntry \<Rightarrow> UsageEntry" where
  "log_usage l e =
     (let logs = ue_logs e @ [l]
      in \<lparr>ue_last_used = Some (ul_at l), ue_hits = sat_inc32 (ue_hits e),
          ue_misfires = (if ul_outcome l = Some ''misfire'' then sat_inc32 (ue_misfires e) else ue_misfires e),
          ue_invalid_failures =
            (if ul_outcome l = Some ''invalid'' then sat_inc32 (ue_invalid_failures e) else ue_invalid_failures e),
          ue_decisions =
            bt_insert (ul_band l)
              ((case bt_get (ue_decisions e) (ul_band l) of Some n \<Rightarrow> n | None \<Rightarrow> 0) + 1) (ue_decisions e),
          ue_logs = (if length logs > MAX_LOGS then drop (length logs - MAX_LOGS) logs else logs)\<rparr>)"

definition record_logged :: "string \<Rightarrow> UsageLog \<Rightarrow> UsageStore \<Rightarrow> UsageStore" where
  "record_logged i l u = u\<lparr>us_entries := bt_insert i (log_usage l (us_entry u i)) (us_entries u)\<rparr>"

section \<open>Laws\<close>

lemma rs_get_upsert [simp]: "rs_get (rs_upsert x s) i = (if i = rx_id x then Some x else rs_get s i)"
  by (simp add: rs_get_def rs_upsert_def map_simps)

lemma rs_pinned_upsert [simp]: "rs_pinned (rs_upsert x s) = rs_pinned s"
  by (simp add: rs_upsert_def)

text \<open>What every store holds: sorted by identifier, each experience under its own identifier.\<close>

definition rs_ok :: "RunStore \<Rightarrow> bool" where
  "rs_ok s \<longleftrightarrow> bt_sorted (rs_experiences s) \<and> (\<forall>i x. bt_get (rs_experiences s) i = Some x \<longrightarrow> rx_id x = i) \<and>
     distinct (rs_pinned s)"

lemma rs_ok_new: "rs_ok RunStore_new"
  by (simp add: rs_ok_def RunStore_new_def map_simps)

lemma rs_ok_upsert: "rs_ok s \<Longrightarrow> rs_ok (rs_upsert x s)"
  by (auto simp: rs_ok_def rs_upsert_def map_simps bt_sorted_insert)

lemma rs_ok_transition: "rs_ok s \<Longrightarrow> rs_transition i a s = (r, s') \<Longrightarrow> rs_ok s'"
  by (auto simp: rs_ok_def rs_transition_def rs_get_def map_simps bt_sorted_insert split: option.splits sum.splits if_splits)

lemma rs_ok_pin: "rs_ok s \<Longrightarrow> rs_pin i s = (r, s') \<Longrightarrow> rs_ok s'"
  by (auto simp: rs_ok_def rs_pin_def rs_is_pinned_def split: if_splits)

lemma rs_ok_unpin: "rs_ok s \<Longrightarrow> rs_unpin i s = (r, s') \<Longrightarrow> rs_ok s'"
  by (auto simp: rs_ok_def rs_unpin_def)


section \<open>Persistence\<close>

lemma fold_upsert_collect:
  "rs_experiences (fold rs_upsert xs s) = fold (\<lambda>(k, v) m. bt_insert k v m) (map (\<lambda>x. (rx_id x, x)) xs) (rs_experiences s)"
  "rs_pinned (fold rs_upsert xs s) = rs_pinned s"
  by (induction xs arbitrary: s) (simp_all add: rs_upsert_def)

lemma rs_restore_snapshot:
  assumes "rs_ok s"
  shows "rs_restore (rs_snapshot s) = s"
proof -
  let ?m = "rs_experiences s"
  have ids: "map (\<lambda>x. (rx_id x, x)) (map snd ?m) = ?m"
  proof (rule nth_equalityI)
    fix n assume "n < length (map (\<lambda>x. (rx_id x, x)) (map snd ?m))"
    then have n: "n < length ?m" by simp
    obtain k x where kx: "?m ! n = (k, x)" by fastforce
    have "distinct (map fst ?m)" using assms by (auto simp: rs_ok_def bt_sorted_def strict_sorted_iff)
    with n kx have "bt_get ?m k = Some x" unfolding bt_get_def by (metis map_of_is_SomeI nth_mem)
    with assms n kx show "map (\<lambda>x. (rx_id x, x)) (map snd ?m) ! n = ?m ! n" by (simp add: rs_ok_def)
  qed simp
  have "fold (\<lambda>(k, v) m. bt_insert k v m) ?m [] = ?m"
    using assms bt_collect_id [of ?m] by (simp add: rs_ok_def bt_collect_def)
  with ids have "rs_experiences (rs_restore (rs_snapshot s)) = ?m"
    by (simp add: rs_restore_def rs_snapshot_def rs_all_def fold_upsert_collect RunStore_new_def)
  moreover have "rs_pinned (rs_restore (rs_snapshot s)) = rs_pinned s"
    using assms by (simp add: rs_restore_def rs_snapshot_def rs_ok_def distinct_remdups_id)
  ultimately show ?thesis by simp
qed

text \<open>A saved experience store is read back unchanged. Given an encoder and a decoder of the snapshot
  that invert each other and produce UTF-8, loading the file a store was written to gives the
  same experiences under the same identifiers and the same pins.\<close>

theorem run_store_roundtrip:
  assumes "rs_ok s" and "decode (encode (rs_snapshot s)) = Some (rs_snapshot s)" and "utf8_valid (encode (rs_snapshot s))"
    and "link_free fs" and "''..'' \<notin> set p" and "rs_save encode s p fs = Inr fs'"
  shows "rs_load decode p fs' = Inr s"
proof -
  have r: "resolve_path fs p = p" using assms by (intro resolve_link_free)
  from assms(6) r obtain c where fs': "fs' = put_node p (FileNode (encode (rs_snapshot s))) fs"
    unfolding rs_save_def fs_write_bytes_def by (metis fs_open_write_cases)
  have "resolve_path fs' p = p" using assms(4,5) fs' by (intro resolve_link_free) (auto intro: link_free_put)
  then have "fs_read_to_string fs' p = Inr (encode (rs_snapshot s))"
    using assms(3) by (simp add: fs_read_to_string_def fs_read_bytes_def stat_def fs')
  then show ?thesis by (simp add: rs_load_def assms(2) rs_restore_snapshot [OF assms(1)])
qed

theorem run_store_roundtrip_witness:
  "\<exists>fs'. rs_save (\<lambda>_. ''{}'') (snd (rs_pin ''x1'' (rs_upsert demo_rx RunStore_new))) [''w'', ''s.json''] demo_fs = Inr fs' \<and>
     rs_load (\<lambda>_. Some (rs_snapshot (snd (rs_pin ''x1'' (rs_upsert demo_rx RunStore_new))))) [''w'', ''s.json''] fs' =
       Inr (snd (rs_pin ''x1'' (rs_upsert demo_rx RunStore_new)))"
proof -
  let ?s = "snd (rs_pin ''x1'' (rs_upsert demo_rx RunStore_new))"
  have ok: "rs_ok ?s"
    by (rule rs_ok_pin [of "rs_upsert demo_rx RunStore_new" "''x1''" "fst (rs_pin ''x1'' (rs_upsert demo_rx RunStore_new))"])
      (simp_all add: rs_ok_upsert rs_ok_new)
  have "\<not> isl (fs_write_bytes demo_fs [''w'', ''s.json''] ''{}'')" by code_simp
  then obtain fs' where w: "rs_save (\<lambda>_. ''{}'') ?s [''w'', ''s.json''] demo_fs = Inr fs'"
    unfolding rs_save_def by (cases "fs_write_bytes demo_fs [''w'', ''s.json''] ''{}''") auto
  have u: "utf8_valid ''{}''" "link_free demo_fs" by code_simp+
  from run_store_roundtrip [OF ok, where encode = "\<lambda>_. ''{}''" and decode = "\<lambda>_. Some (rs_snapshot ?s)", OF _ u _ w] w
  show ?thesis by simp
qed

section \<open>The usage log is bounded\<close>

definition logs_for :: "string \<Rightarrow> (string \<times> UsageLog) list \<Rightarrow> UsageLog list" where
  "logs_for i ls = map snd (filter (\<lambda>(k, _). k = i) ls)"

definition log_all :: "(string \<times> UsageLog) list \<Rightarrow> UsageStore \<Rightarrow> UsageStore" where
  "log_all ls u = foldl (\<lambda>u (i, l). record_logged i l u) u ls"

lemma us_entry_logged: "us_entry (record_logged k l u) i = (if i = k then log_usage l (us_entry u k) else us_entry u i)"
  by (simp add: us_entry_def record_logged_def map_simps)

lemma newest_snoc:
  assumes "0 < n" and "ys = drop (length xs - n) xs @ [x]"
  shows "(if length ys > n then drop (length ys - n) ys else ys) = drop (length (xs @ [x]) - n) (xs @ [x])"
proof (cases "length xs < n")
  case True
  with assms show ?thesis by simp
next
  case False
  then have "length ys = Suc n" using assms by simp
  with False assms have "drop (length ys - n) ys = drop (Suc (length xs - n)) xs @ [x]" by (simp add: drop_Suc tl_drop)
  moreover have "Suc (length xs - n) = length (xs @ [x]) - n" using False by simp
  ultimately show ?thesis using \<open>length ys = Suc n\<close> assms(1) by simp
qed

lemma sat_inc32_min: "sat_inc32 (min n (2 ^ 32 - 1)) = min (Suc n) (2 ^ 32 - 1)"
  unfolding sat_inc32_def by (simp add: min_def)

text \<open>The usage log is bounded and loses only the oldest entries. After any sequence of recorded
  usages, the log of an experience is the newest 200 of its own usages in order, its hit and
  misfire counters are the exact counts saturated at the largest 32-bit number, and its last
  use is the time of its latest usage.\<close>

theorem usage_log_bounded:
  "ue_logs (us_entry (log_all ls UsageStore_default) i) = drop (length (logs_for i ls) - 200) (logs_for i ls) \<and>
   ue_hits (us_entry (log_all ls UsageStore_default) i) = min (length (logs_for i ls)) (2 ^ 32 - 1) \<and>
   ue_misfires (us_entry (log_all ls UsageStore_default) i) =
     min (length (filter (\<lambda>l. ul_outcome l = Some ''misfire'') (logs_for i ls))) (2 ^ 32 - 1) \<and>
   ue_last_used (us_entry (log_all ls UsageStore_default) i) =
     (if logs_for i ls = [] then None else Some (ul_at (last (logs_for i ls))))"
proof (induction ls rule: rev_induct)
  case Nil
  then show ?case by (simp add: log_all_def logs_for_def us_entry_def UsageStore_default_def UsageEntry_default_def)
next
  case (snoc kl ls)
  obtain k l where kl: "kl = (k, l)" by (cases kl)
  have run: "log_all (ls @ [kl]) UsageStore_default = record_logged k l (log_all ls UsageStore_default)"
    by (simp add: log_all_def kl)
  note ih = snoc.IH
  show ?case
  proof (cases "k = i")
    case True
    have logs: "logs_for i (ls @ [kl]) = logs_for i ls @ [l]" by (simp add: logs_for_def kl True)
    let ?u = "us_entry (log_all ls UsageStore_default) i"
    have "ue_logs (log_usage l ?u) = drop (length (logs_for i ls @ [l]) - 200) (logs_for i ls @ [l])"
      unfolding log_usage_def Let_def MAX_LOGS_def UsageEntry.simps using ih by (intro newest_snoc) simp_all
    moreover have "ue_hits (log_usage l ?u) = min (length (logs_for i ls @ [l])) (2 ^ 32 - 1)"
      using ih sat_inc32_min [of "length (logs_for i ls)"] by (simp add: log_usage_def Let_def)
    moreover have "ue_misfires (log_usage l ?u) =
        min (length (filter (\<lambda>l. ul_outcome l = Some ''misfire'') (logs_for i ls @ [l]))) (2 ^ 32 - 1)"
      using ih sat_inc32_min [of "length (filter (\<lambda>l. ul_outcome l = Some ''misfire'') (logs_for i ls))"]
      by (simp add: log_usage_def Let_def)
    moreover have "ue_last_used (log_usage l ?u) = Some (ul_at l)" by (simp add: log_usage_def Let_def)
    ultimately show ?thesis unfolding run logs us_entry_logged True by simp
  next
    case False
    then have "logs_for i (ls @ [kl]) = logs_for i ls" by (simp add: logs_for_def kl)
    with False ih show ?thesis unfolding run us_entry_logged by simp
  qed
qed

end
