(* ===== verification/Runtime_Learner.thy ===== *)
theory Runtime_Learner
  imports Runtime_Lifecycle "HOL-Library.Multiset"
begin

text \<open>
  Matching and learning of the turn-level experience system (\<open>experience_matcher.rs\<close>,
  \<open>experience_learner.rs\<close>): rule, tag and vector similarity of a state and a trigger, ranked
  candidates, the trace recorder, pruning, and the learner that turns repeated success into a
  draft. Similarities are real numbers; the clock is an argument.
\<close>

section \<open>Similarity of a state and a trigger\<close>

definition EMBED_DIM :: nat where "EMBED_DIM = 96"
definition MIN_SIMILARITY :: real where "MIN_SIMILARITY = 10 / 100"

definition fnv1a :: "string \<Rightarrow> u64" where
  "fnv1a bytes = fold fnv_step bytes fnv_offset"

definition match_tokens :: "string \<Rightarrow> string list" where
  "match_tokens s = filter (\<lambda>t. t \<noteq> []) (split_pred (\<lambda>c. \<not> is_ascii_alphanumeric c) (to_lowercase s))"

definition opt_text :: "string option \<Rightarrow> string" where
  "opt_text v = (case v of Some t \<Rightarrow> t @ '' '' | None \<Rightarrow> [])"

definition state_haystack :: "ExperienceState \<Rightarrow> string" where
  "state_haystack st =
     opt_text (map_option task_description (task st)) @ opt_text (intent (current_context st)) @ opt_text (current_goal st)"

definition trigger_fields :: "ExperienceTrigger \<Rightarrow> string option list" where
  "trigger_fields t = [trig_object t, trig_location t, trig_goal t]"

definition trigger_text :: "ExperienceTrigger \<Rightarrow> string" where
  "trigger_text t =
     join_str '' '' (trig_keywords t) @
     concat (map (\<lambda>f. case f of Some v \<Rightarrow> '' '' @ v | None \<Rightarrow> []) (trigger_fields t))"

definition clamp01 :: "real \<Rightarrow> real" where
  "clamp01 v = max 0 (min 1 v)"

definition content_similarity :: "ExperienceState \<Rightarrow> ExperienceTrigger \<Rightarrow> real" where
  "content_similarity st t =
     (let hay = to_lowercase (state_haystack st)
      in if hay = [] then 0
         else
           (let hits = length (filter (\<lambda>k. k \<noteq> [] \<and> contains_str hay (to_lowercase k)) (trig_keywords t));
                field_hits = length (filter (\<lambda>f. case f of
                    Some v \<Rightarrow> v \<noteq> [] \<and> contains_str hay (to_lowercase v)
                  | None \<Rightarrow> False) (trigger_fields t))
            in clamp01 ((real hits + real field_hits) / real (length (trig_keywords t) + 3))))"

definition tag_score :: "ExperienceState \<Rightarrow> ExperienceTrigger \<Rightarrow> real" where
  "tag_score st t =
     (let a = set (match_tokens (state_haystack st)); b = set (match_tokens (trigger_text t))
      in if a = {} \<or> b = {} then 0
         else
           (let inter = real (card (a \<inter> b)); union = real (card a + card b) - inter
            in if union \<le> 0 then 0 else inter / union))"

definition grams :: "string \<Rightarrow> string list" where
  "grams s =
     (let cs = chars_of (to_lowercase (filter (\<lambda>c. \<not> is_whitespace c) s))
      in cs @ map (\<lambda>(x, y). x @ y) (zip cs (tl cs)))"

definition bucket :: "string \<Rightarrow> nat \<times> real" where
  "bucket g =
     (let h = unat (fnv1a g)
      in (h mod EMBED_DIM, if (h div EMBED_DIM) mod 2 = 0 then 1 else -1))"

definition raw_embedding :: "string list \<Rightarrow> real list" where
  "raw_embedding gs =
     fold (\<lambda>g v. case bucket g of (i, sign) \<Rightarrow> v[i := v ! i + sign]) gs (replicate EMBED_DIM 0)"

definition embed :: "string \<Rightarrow> real list" where
  "embed s =
     (let v = raw_embedding (grams s); norm = sqrt (sum_list (map (\<lambda>x. x * x) v))
      in if 0 < norm then map (\<lambda>x. x / norm) v else v)"

definition cosine :: "real list \<Rightarrow> real list \<Rightarrow> real" where
  "cosine a b =
     (if length a \<noteq> length b \<or> a = [] then 0
      else
        (let dot = sum_list (map2 (*) a b); na = sum_list (map (\<lambda>x. x * x) a); nb = sum_list (map (\<lambda>x. x * x) b)
         in if na \<le> 0 \<or> nb \<le> 0 then 0 else dot / sqrt (na * nb)))"

definition vector_score :: "ExperienceState \<Rightarrow> ExperienceTrigger \<Rightarrow> real" where
  "vector_score st t = cosine (embed (state_haystack st)) (embed (trigger_text t))"

fun kind_weights :: "ExperienceKind \<Rightarrow> real \<times> real \<times> real" where
  "kind_weights KindReflex = (65 / 100, 20 / 100, 15 / 100)"
| "kind_weights KindResult = (60 / 100, 20 / 100, 20 / 100)"
| "kind_weights KindProcess = (45 / 100, 25 / 100, 30 / 100)"
| "kind_weights KindReference = (30 / 100, 20 / 100, 50 / 100)"

definition combined_similarity :: "ExperienceState \<Rightarrow> RunExperience \<Rightarrow> real" where
  "combined_similarity st x =
     (case kind_weights (rx_kind x) of
        (rule_weight, tag_weight, vector_weight) \<Rightarrow>
          clamp01 (content_similarity st (rx_trigger x) * rule_weight + tag_score st (rx_trigger x) * tag_weight +
            vector_score st (rx_trigger x) * vector_weight))"

record ExperienceCandidate =
  cand_experience :: RunExperience
  cand_similarity :: real

definition match_experiences :: "ExperienceState \<Rightarrow> RunExperience list \<Rightarrow> ExperienceCandidate list" where
  "match_experiences st xs =
     sort_key (\<lambda>c. - cand_similarity c)
       (map (\<lambda>x. \<lparr>cand_experience = x, cand_similarity = combined_similarity st x\<rparr>)
          (filter (\<lambda>x. status_matchable (rx_status x) \<and> \<not> combined_similarity st x < MIN_SIMILARITY) xs))"

section \<open>Traces\<close>

record TraceAction =
  ta_name :: string
  ta_args :: json

record TraceStep =
  ts_name :: string
  ts_args :: json
  ts_call_id :: "string option"
  ts_ok :: "bool option"
  ts_summary :: "string option"

datatype TraceOutcome = TraceSuccess | TraceFailure

record ExperienceTrace =
  tr_task :: string
  tr_actions :: "TraceAction list"
  tr_steps :: "TraceStep list"
  tr_environment_snapshot :: "json option"
  tr_final_evidence :: "string option"
  tr_outcome :: TraceOutcome
  tr_llm_used :: bool

record TraceRecorder =
  rec_actions :: "TraceAction list"
  rec_steps :: "TraceStep list"
  rec_pending :: "nat btree"

definition TraceRecorder_new :: TraceRecorder where
  "TraceRecorder_new = \<lparr>rec_actions = [], rec_steps = [], rec_pending = []\<rparr>"

definition record_call :: "string \<Rightarrow> json \<Rightarrow> string option \<Rightarrow> TraceRecorder \<Rightarrow> TraceRecorder" where
  "record_call name args call_id r =
     (if name = [] then r
      else
        r\<lparr>rec_actions := rec_actions r @ [\<lparr>ta_name = name, ta_args = args\<rparr>],
          rec_steps := rec_steps r @ [\<lparr>ts_name = name, ts_args = args, ts_call_id = call_id, ts_ok = None, ts_summary = None\<rparr>],
          rec_pending := (case call_id of
                            Some i \<Rightarrow> bt_insert i (length (rec_steps r)) (rec_pending r)
                          | None \<Rightarrow> rec_pending r)\<rparr>)"

definition trace_record :: "string \<Rightarrow> json \<Rightarrow> TraceRecorder \<Rightarrow> TraceRecorder" where
  "trace_record name args r = record_call name args None r"

definition record_outcome :: "string \<Rightarrow> bool \<Rightarrow> string option \<Rightarrow> TraceRecorder \<Rightarrow> TraceRecorder" where
  "record_outcome call_id ok summary r =
     (case bt_get (rec_pending r) call_id of
        None \<Rightarrow> r
      | Some i \<Rightarrow>
          (if i < length (rec_steps r)
           then r\<lparr>rec_steps := (rec_steps r)[i := (rec_steps r ! i)\<lparr>ts_ok := Some ok,
                    ts_summary := (if summary \<noteq> None then summary else ts_summary (rec_steps r ! i))\<rparr>]\<rparr>
           else r))"

definition into_trace_with_context :: "string \<Rightarrow> TraceOutcome \<Rightarrow> bool \<Rightarrow> json option \<Rightarrow> string option \<Rightarrow> TraceRecorder
    \<Rightarrow> ExperienceTrace" where
  "into_trace_with_context name outcome llm_used snapshot evd r =
     \<lparr>tr_task = name, tr_actions = rec_actions r, tr_steps = rec_steps r, tr_environment_snapshot = snapshot,
      tr_final_evidence = evd, tr_outcome = outcome, tr_llm_used = llm_used\<rparr>"

section \<open>Conditions from a snapshot\<close>

definition element_condition :: "json \<Rightarrow> ExperienceCondition option" where
  "element_condition element =
     (case get_str element ''key'' of
        None \<Rightarrow> None
      | Some key \<Rightarrow>
          (if key \<noteq> ''runtime.subprocess_allowed'' then None
           else map_option (\<lambda>v. \<lparr>cond_key = key, cond_expected = v\<rparr>) (json_get element ''value'')))"

definition detection_condition :: "json \<Rightarrow> ExperienceCondition option" where
  "detection_condition detection =
     (case get_str detection ''key'' of
        None \<Rightarrow> None
      | Some key \<Rightarrow>
          (if key \<noteq> ''os'' \<and> key \<noteq> ''git_repo'' then None
           else if (case Option.bind (json_get detection ''present'') as_bool of Some b \<Rightarrow> b | None \<Rightarrow> False)
           then Some \<lparr>cond_key = DETECTION_PREFIX @ key, cond_expected = JBool True\<rparr>
           else None))"

definition json_items :: "json option \<Rightarrow> json list" where
  "json_items v = (case Option.bind v as_array of Some xs \<Rightarrow> xs | None \<Rightarrow> [])"

definition conditions_from_snapshot :: "json option \<Rightarrow> ExperienceCondition list" where
  "conditions_from_snapshot snapshot =
     (case snapshot of
        None \<Rightarrow> []
      | Some s \<Rightarrow>
          List.map_filter element_condition (json_items (json_get s ''elements'')) @
          List.map_filter detection_condition
            (json_items (Option.bind (json_get s ''environment'') (\<lambda>v. json_get v ''detections''))))"

definition merge_conditions :: "ExperienceCondition list \<Rightarrow> ExperienceCondition list \<Rightarrow> ExperienceCondition list" where
  "merge_conditions base extra = foldl (\<lambda>cs c. if c \<in> set cs then cs else cs @ [c]) base extra"

section \<open>The learner\<close>

record ExperienceDraft =
  draft_experience :: RunExperience
  source_trace_task :: string
  draft_created_at :: string

definition INITIAL_CANDIDATE_CONFIDENCE :: real where "INITIAL_CANDIDATE_CONFIDENCE = 20 / 100"
definition USER_CONFIRMED_CONFIDENCE :: real where "USER_CONFIRMED_CONFIDENCE = 90 / 100"
definition MAX_AUTO_CONFIRM_STEPS :: nat where "MAX_AUTO_CONFIRM_STEPS = 20"

definition KEYWORD_STOPWORDS :: "string list" where
  "KEYWORD_STOPWORDS =
     [''the'', ''a'', ''an'', ''and'', ''or'', ''to'', ''of'', ''in'', ''on'', ''for'', ''with'',
      ''you'', ''your'', ''did'', ''do'', ''is'', ''are'', ''please'', ''then'', ''this'',
      ''that'', ''task'', ''file'', ''files'', ''png'', ''move'', ''moved'', ''using'',
      ''from'', ''into'', ''folder'', ''reply'', ''one'', ''sentence'', ''what'', ''done'']"

definition PRUNE_MARKERS :: "string list" where
  "PRUNE_MARKERS =
     [''pip install'', ''pip list'', ''pip show'', ''python --version'', ''python -V'', ''Get-Process'',
      ''Get-Command'', ''Get-CimInstance'', ''Get-ItemProperty'', ''Test-Path'', ''Get-ChildItem'',
      ''Get-Content'', ''where.exe'']"

record LearnEvidence =
  ev_successes :: nat
  ev_failures :: nat
  ev_last_trace :: "ExperienceTrace option"

record ExperienceLearner =
  min_successes :: nat
  learn_evidence :: "LearnEvidence btree"

definition ExperienceLearner_new :: "nat \<Rightarrow> ExperienceLearner" where
  "ExperienceLearner_new n = \<lparr>min_successes = max n 1, learn_evidence = []\<rparr>"

definition is_noise :: "TraceAction \<Rightarrow> bool" where
  "is_noise a \<longleftrightarrow> ta_name a = ''exec_command'' \<and>
     (case get_str (ta_args a) ''cmd'' of
        Some cmd \<Rightarrow> list_ex (contains_str cmd) PRUNE_MARKERS
      | None \<Rightarrow> False)"

definition action_key :: "TraceAction \<Rightarrow> string" where
  "action_key a = ta_name a @ '':'' @ json_text (ta_args a)"

fun prune_loop :: "string option \<Rightarrow> TraceAction list \<Rightarrow> TraceAction list" where
  "prune_loop prev [] = []"
| "prune_loop prev (a # as) =
     (if is_noise a then prune_loop prev as
      else if prev = Some (action_key a) then prune_loop prev as
      else a # prune_loop (Some (action_key a)) as)"

definition prune_actions :: "TraceAction list \<Rightarrow> TraceAction list" where
  "prune_actions actions = prune_loop None actions"

definition signature_of :: "ExperienceTrace \<Rightarrow> string" where
  "signature_of t = join_str '' '' (match_tokens (tr_task t))"

definition trace_has_success_evidence :: "ExperienceTrace \<Rightarrow> bool" where
  "trace_has_success_evidence t \<longleftrightarrow> tr_steps t = [] \<or> list_ex (\<lambda>s. ts_ok s = Some True) (tr_steps t)"

fun first_occurrences :: "string list \<Rightarrow> string list \<Rightarrow> string list" where
  "first_occurrences seen [] = []"
| "first_occurrences seen (t # ts) =
     (if t \<in> set KEYWORD_STOPWORDS \<or> t \<in> set seen then first_occurrences seen ts
      else t # first_occurrences (t # seen) ts)"

definition draft_keywords :: "string \<Rightarrow> string list" where
  "draft_keywords name = first_occurrences [] (match_tokens name)"

definition build_draft :: "nat \<Rightarrow> ExperienceTrace \<Rightarrow> string \<Rightarrow> bool \<Rightarrow> ExperienceDraft" where
  "build_draft now t i user_confirmed =
     \<lparr>draft_experience =
        \<lparr>rx_id = i, rx_name = tr_task t,
         rx_kind = (if length (tr_actions t) \<le> 1 then KindReflex else KindProcess),
         rx_trigger = ExperienceTrigger_default\<lparr>trig_keywords := draft_keywords (tr_task t)\<rparr>,
         rx_conditions = [],
         rx_steps = map (\<lambda>a. \<lparr>wstep_name = ta_name a, wstep_args = ta_args a\<rparr>) (tr_actions t),
         rx_completion_criteria = tr_final_evidence t, rx_failure_modes = [], rx_assets = [],
         rx_applicability = Applicability_default, rx_title = None, rx_note = None, rx_created_at = Some now,
         rx_confidence = (if user_confirmed then USER_CONFIRMED_CONFIDENCE else INITIAL_CANDIDATE_CONFIDENCE),
         rx_risk = RiskLow, rx_status = (if user_confirmed then SValidated else SCandidate), rx_version = 1\<rparr>,
      source_trace_task = tr_task t, draft_created_at = nat_digits now\<rparr>"

definition candidate_id :: "string \<Rightarrow> string" where
  "candidate_id signature = ''cand-'' @ hex_digits 16 (unat (fnv1a signature))"

definition evidence_of :: "ExperienceLearner \<Rightarrow> string \<Rightarrow> LearnEvidence" where
  "evidence_of l signature =
     (case bt_get (learn_evidence l) signature of
        Some e \<Rightarrow> e
      | None \<Rightarrow> \<lparr>ev_successes = 0, ev_failures = 0, ev_last_trace = None\<rparr>)"

definition put_evidence :: "string \<Rightarrow> LearnEvidence \<Rightarrow> ExperienceLearner \<Rightarrow> ExperienceLearner" where
  "put_evidence signature e l = l\<lparr>learn_evidence := bt_insert signature e (learn_evidence l)\<rparr>"

definition observe :: "nat \<Rightarrow> ExperienceTrace \<Rightarrow> bool \<Rightarrow> ExperienceLearner \<Rightarrow> ExperienceDraft option \<times> ExperienceLearner" where
  "observe now t user_confirmed l =
     (let signature = signature_of t; e = evidence_of l signature
      in case tr_outcome t of
           TraceFailure \<Rightarrow>
             (None, put_evidence signature \<lparr>ev_successes = 0, ev_failures = ev_failures e + 1, ev_last_trace = Some t\<rparr> l)
         | TraceSuccess \<Rightarrow>
             (if \<not> trace_has_success_evidence t then (None, put_evidence signature e l)
              else
                (let actions = prune_actions (tr_actions t);
                     l1 = put_evidence signature
                            \<lparr>ev_successes = ev_successes e + 1, ev_failures = 0, ev_last_trace = Some t\<rparr> l
                 in if (user_confirmed \<or> ev_successes e + 1 \<ge> min_successes l) \<and> actions \<noteq> [] then
                      (Some (build_draft now (t\<lparr>tr_actions := actions\<rparr>) (candidate_id signature)
                         (user_confirmed \<and> length actions \<le> MAX_AUTO_CONFIRM_STEPS)), l1)
                    else (None, l1))))"


section \<open>Laws of matching\<close>

lemma clamp01_bounds: "0 \<le> clamp01 v" "clamp01 v \<le> 1"
  by (simp_all add: clamp01_def)

lemma dot_bound:
  fixes a b :: "real list"
  assumes "length a = length b"
  shows "2 * \<bar>sum_list (map2 (*) a b)\<bar> \<le> sum_list (map (\<lambda>x. x * x) a) + sum_list (map (\<lambda>x. x * x) b)"
  using assms
proof (induction a b rule: list_induct2)
  case (Cons x xs y ys)
  have "2 * \<bar>x * y\<bar> \<le> x * x + y * y"
    using sum_squares_bound [of "\<bar>x\<bar>" "\<bar>y\<bar>"] by (simp add: abs_mult power2_eq_square)
  moreover have "\<bar>x * y + sum_list (map2 (*) xs ys)\<bar> \<le> \<bar>x * y\<bar> + \<bar>sum_list (map2 (*) xs ys)\<bar>"
    by (rule abs_triangle_ineq)
  ultimately show ?case using Cons.IH by simp
qed simp

lemma sum_list_scale: "sum_list (map (\<lambda>x. f x / c) xs) = sum_list (map f xs) / (c :: real)"
  by (induction xs) (simp_all add: add_divide_distrib)

lemma dot_scale:
  "sum_list (map2 (*) (map (\<lambda>x. x / c) a) (map (\<lambda>x. x / d) b)) = sum_list (map2 (*) a b) / (c * d :: real)"
proof (induction a arbitrary: b)
  case (Cons x a)
  then show ?case by (cases b) (simp_all add: add_divide_distrib)
qed simp

text \<open>The cosine of two vectors lies between minus one and one (the inequality of Cauchy and Schwarz).\<close>

lemma cosine_bounds: "\<bar>cosine a b\<bar> \<le> 1"
proof -
  let ?n = "\<lambda>v :: real list. sum_list (map (\<lambda>x. x * x) v)"
  have "\<bar>sum_list (map2 (*) a b) / sqrt (?n a * ?n b)\<bar> \<le> 1"
    if len: "length a = length b" and pos: "0 < ?n a" "0 < ?n b"
  proof -
    let ?u = "map (\<lambda>x. x / sqrt (?n a)) a" and ?v = "map (\<lambda>x. x / sqrt (?n b)) b"
    have unit: "?n (map (\<lambda>x. x / sqrt (?n w)) w) = 1" if "0 < ?n w" for w
    proof -
      have "?n (map (\<lambda>x. x / sqrt (?n w)) w) = sum_list (map (\<lambda>x. x * x / ?n w) w)"
        using that by (simp add: comp_def)
      with that show ?thesis by (simp add: sum_list_scale)
    qed
    have "2 * \<bar>sum_list (map2 (*) ?u ?v)\<bar> \<le> 2"
      using dot_bound [of ?u ?v] unit pos len by simp
    then show ?thesis by (simp add: dot_scale real_sqrt_mult)
  qed
  then show ?thesis by (auto simp: cosine_def Let_def)
qed

lemma tag_score_nonneg: "0 \<le> tag_score st t"
  by (simp add: tag_score_def Let_def)

lemma reflex_similarity_bound:
  assumes "rx_kind x = KindReflex"
  shows "content_similarity st (rx_trigger x) * (65 / 100) - 15 / 100 \<le> combined_similarity st x"
proof -
  have "- 1 \<le> vector_score st (rx_trigger x)" using cosine_bounds by (simp add: vector_score_def abs_le_iff)
  moreover have "content_similarity st (rx_trigger x) \<le> 1" by (simp add: content_similarity_def Let_def clamp01_bounds)
  ultimately show ?thesis using tag_score_nonneg [of st "rx_trigger x"] assms
    by (simp add: combined_similarity_def clamp01_def max_def min_def field_simps)
qed

lemma match_experiences_set:
  "c \<in> set (match_experiences st xs) \<longleftrightarrow>
   cand_experience c \<in> set xs \<and> status_matchable (rx_status (cand_experience c)) \<and>
   cand_similarity c = combined_similarity st (cand_experience c) \<and> MIN_SIMILARITY \<le> cand_similarity c"
  by (cases c) (auto simp: match_experiences_def)

text \<open>Matching is exact and ranked. The candidates of a state are, each exactly once per stored
  experience, the validated or active experiences whose combined similarity reaches the floor;
  their similarities are in the unit interval and never increase along the list; and experiences of
  equal similarity keep their order.\<close>

theorem match_exact_and_ranked:
  "mset (map cand_experience (match_experiences st xs)) =
     filter_mset (\<lambda>x. status_matchable (rx_status x) \<and> MIN_SIMILARITY \<le> combined_similarity st x) (mset xs) \<and>
   sorted_wrt (\<lambda>c d. cand_similarity d \<le> cand_similarity c) (match_experiences st xs) \<and>
   list_all (\<lambda>c. cand_similarity c = combined_similarity st (cand_experience c) \<and> 0 \<le> cand_similarity c \<and> cand_similarity c \<le> 1)
     (match_experiences st xs) \<and>
   map cand_experience (filter (\<lambda>c. cand_similarity c = v) (match_experiences st xs)) =
     filter (\<lambda>x. status_matchable (rx_status x) \<and> MIN_SIMILARITY \<le> combined_similarity st x \<and> combined_similarity st x = v) xs"
proof (intro conjI)
  have "sorted (map (\<lambda>c. - cand_similarity c) (match_experiences st xs))"
    by (simp add: match_experiences_def)
  then show "sorted_wrt (\<lambda>c d. cand_similarity d \<le> cand_similarity c) (match_experiences st xs)"
    by (simp add: sorted_wrt_map)
  show "list_all (\<lambda>c. cand_similarity c = combined_similarity st (cand_experience c) \<and> 0 \<le> cand_similarity c \<and> cand_similarity c \<le> 1)
     (match_experiences st xs)"
    by (auto simp: list_all_iff match_experiences_set combined_similarity_def clamp01_bounds split: prod.splits)
  show "mset (map cand_experience (match_experiences st xs)) =
     filter_mset (\<lambda>x. status_matchable (rx_status x) \<and> MIN_SIMILARITY \<le> combined_similarity st x) (mset xs)"
    by (simp add: match_experiences_def mset_filter image_mset.compositionality comp_def not_less)
  have "filter (\<lambda>c. - cand_similarity c = - v) (sort_key (\<lambda>c. - cand_similarity c) cs) = filter (\<lambda>c. - cand_similarity c = - v) cs"
    for cs :: "ExperienceCandidate list"
    by (rule sort_key_stable)
  then show "map cand_experience (filter (\<lambda>c. cand_similarity c = v) (match_experiences st xs)) =
     filter (\<lambda>x. status_matchable (rx_status x) \<and> MIN_SIMILARITY \<le> combined_similarity st x \<and> combined_similarity st x = v) xs"
    by (simp add: match_experiences_def filter_map comp_def not_less conj_ac)
qed

lemma merge_conditions_set: "set (merge_conditions base extra) = set base \<union> set extra"
  unfolding merge_conditions_def by (induction extra arbitrary: base) auto

lemma merge_conditions_distinct: "distinct base \<Longrightarrow> distinct (merge_conditions base extra)"
  unfolding merge_conditions_def by (induction extra arbitrary: base) auto

section \<open>Conditions learned from a state hold in it\<close>

lemma snapshot_elements: "json_items (json_get (snapshot_for_learning st) ''elements'') = map element_json (elements st)"
  by (simp add: snapshot_for_learning_def json_get_object json_items_def)

lemma snapshot_detections:
  "json_items (Option.bind (json_get (snapshot_for_learning st) ''environment'') (\<lambda>v. json_get v ''detections'')) =
   map detection_json (detections (environment st))"
  by (simp add: snapshot_for_learning_def json_get_object json_items_def)

lemma element_condition_value:
  "element_condition (element_json e) =
   (if elem_key e = ''runtime.subprocess_allowed''
    then Some \<lparr>cond_key = elem_key e, cond_expected = elem_value e\<rparr> else None)"
  by (auto simp: element_condition_def element_json_def get_str_def json_get_object)

lemma detection_condition_value:
  "detection_condition (detection_json d) =
   (if (det_key d = ''os'' \<or> det_key d = ''git_repo'') \<and> det_present d
    then Some \<lparr>cond_key = DETECTION_PREFIX @ det_key d, cond_expected = JBool True\<rparr> else None)"
  by (auto simp: detection_condition_def detection_json_def get_str_def json_get_object)

lemma element_condition_json:
  "element_condition (element_json e) = Some c \<longleftrightarrow>
   elem_key e = ''runtime.subprocess_allowed'' \<and> c = \<lparr>cond_key = elem_key e, cond_expected = elem_value e\<rparr>"
  by (auto simp: element_condition_value)

lemma detection_condition_json:
  "detection_condition (detection_json d) = Some c \<longleftrightarrow>
   (det_key d = ''os'' \<or> det_key d = ''git_repo'') \<and> det_present d \<and>
   c = \<lparr>cond_key = DETECTION_PREFIX @ det_key d, cond_expected = JBool True\<rparr>"
  by (auto simp: detection_condition_value)


lemma lookup_subprocess:
  "lookup st ''runtime.subprocess_allowed'' =
   map_option elem_value (find (\<lambda>e. elem_key e = ''runtime.subprocess_allowed'') (elements st))"
  by (simp add: lookup_def state_fields_def DETECTION_PREFIX_def strip_prefix_def starts_with_def)

lemma lookup_detection:
  assumes "k = ''os'' \<or> k = ''git_repo''"
  shows "lookup st (DETECTION_PREFIX @ k) =
    map_option (\<lambda>d. JBool (det_present d)) (find (\<lambda>d. det_key d = k) (detections (environment st)))"
proof -
  have "map_of (state_fields st) (DETECTION_PREFIX @ k) = None"
    using assms by (auto simp: state_fields_def DETECTION_PREFIX_def)
  then show ?thesis by (simp add: lookup_def)
qed

text \<open>What is learned from a state holds in that state. For a state whose registry and whose
  detections have distinct keys, every precondition derived from its own learning snapshot is
  satisfied by the state, and merging them into a list of conditions that the state satisfies keeps
  them all and repeats none.\<close>

theorem learned_conditions_hold:
  assumes "distinct (map elem_key (elements st))" and "distinct (map det_key (detections (environment st)))"
    and "distinct base" and "list_all (\<lambda>c. state_satisfies st (cond_key c) (cond_expected c)) base"
  shows "list_all (\<lambda>c. state_satisfies st (cond_key c) (cond_expected c))
      (merge_conditions base (conditions_from_snapshot (Some (snapshot_for_learning st)))) \<and>
    distinct (merge_conditions base (conditions_from_snapshot (Some (snapshot_for_learning st))))"
proof -
  have learned: "state_satisfies st (cond_key c) (cond_expected c)"
    if "c \<in> set (conditions_from_snapshot (Some (snapshot_for_learning st)))" for c
  proof -
    from that consider
      (element) e where "e \<in> set (elements st)" "element_condition (element_json e) = Some c"
    | (detection) d where "d \<in> set (detections (environment st))" "detection_condition (detection_json d) = Some c"
      by (auto simp: conditions_from_snapshot_def snapshot_elements snapshot_detections map_filter_def)
    then show ?thesis
    proof cases
      case element
      then have k: "elem_key e = ''runtime.subprocess_allowed''"
        and c: "c = \<lparr>cond_key = elem_key e, cond_expected = elem_value e\<rparr>"
        by (simp_all only: element_condition_json)
      from find_distinct [OF assms(1) element(1)] show ?thesis
        by (simp add: k c state_satisfies_def lookup_subprocess)
    next
      case detection
      then have k: "det_key d = ''os'' \<or> det_key d = ''git_repo''" and present: "det_present d"
        and c: "c = \<lparr>cond_key = DETECTION_PREFIX @ det_key d, cond_expected = JBool True\<rparr>"
        by (simp_all only: detection_condition_json)
      from find_distinct [OF assms(2) detection(1)] show ?thesis
        by (simp add: c present state_satisfies_def lookup_detection [OF k])
    qed
  qed
  from assms(3,4) learned show ?thesis
    by (simp add: merge_conditions_set merge_conditions_distinct list_all_iff Ball_def)
qed

definition demo_learn_state :: ExperienceState where
  "demo_learn_state = ExperienceState_default\<lparr>
     elements := [\<lparr>elem_key = ''runtime.subprocess_allowed'', elem_value = JBool False, elem_source = SourceTurn,
                   verified_at = None, elem_ttl = None\<rparr>],
     environment := environment ExperienceState_default\<lparr>detections :=
       [\<lparr>det_key = ''git_repo'', det_present = True, det_detail = None\<rparr>]\<rparr>\<rparr>"

theorem learned_conditions_hold_witness:
  "conditions_from_snapshot (Some (snapshot_for_learning demo_learn_state)) =
     [\<lparr>cond_key = ''runtime.subprocess_allowed'', cond_expected = JBool False\<rparr>,
      \<lparr>cond_key = ''environment.detection.git_repo'', cond_expected = JBool True\<rparr>] \<and>
   list_all (\<lambda>c. state_satisfies demo_learn_state (cond_key c) (cond_expected c))
     (merge_conditions [] (conditions_from_snapshot (Some (snapshot_for_learning demo_learn_state))))"
proof
  show "conditions_from_snapshot (Some (snapshot_for_learning demo_learn_state)) =
     [\<lparr>cond_key = ''runtime.subprocess_allowed'', cond_expected = JBool False\<rparr>,
      \<lparr>cond_key = ''environment.detection.git_repo'', cond_expected = JBool True\<rparr>]"
    by (simp add: conditions_from_snapshot_def snapshot_elements snapshot_detections)
      (simp add: demo_learn_state_def map_filter_def element_condition_value detection_condition_value DETECTION_PREFIX_def)
  show "list_all (\<lambda>c. state_satisfies demo_learn_state (cond_key c) (cond_expected c))
     (merge_conditions [] (conditions_from_snapshot (Some (snapshot_for_learning demo_learn_state))))"
    using learned_conditions_hold [of demo_learn_state "[]"] by (simp add: demo_learn_state_def)
qed

section \<open>The learner's evidence\<close>

lemma prune_loop_subset: "set (prune_loop prev as) \<subseteq> {a \<in> set as. \<not> is_noise a}"
  by (induction prev as rule: prune_loop.induct) auto

lemma prune_actions_clean: "a \<in> set (prune_actions as) \<Longrightarrow> a \<in> set as \<and> \<not> is_noise a"
  using prune_loop_subset by (fastforce simp: prune_actions_def)

fun repeats :: "TraceAction list \<Rightarrow> bool" where
  "repeats (a # b # as) \<longleftrightarrow> action_key a = action_key b \<or> repeats (b # as)"
| "repeats _ \<longleftrightarrow> False"

lemma prune_no_repeats: "\<not> repeats (prune_loop prev as) \<and>
   (prune_loop prev as \<noteq> [] \<longrightarrow> prev \<noteq> Some (action_key (hd (prune_loop prev as))))"
proof (induction prev as rule: prune_loop.induct)
  case (2 prev a as)
  then show ?case by (cases "prune_loop (Some (action_key a)) as") auto
qed simp


text \<open>The evidence the learner keeps is the length of the current run of evidenced successes.\<close>

definition observe_all :: "(nat \<times> ExperienceTrace \<times> bool) list \<Rightarrow> ExperienceLearner \<Rightarrow> ExperienceLearner" where
  "observe_all hist l = fold (\<lambda>(now, t, confirmed) l. snd (observe now t confirmed l)) hist l"

definition run_step :: "string \<Rightarrow> ExperienceTrace \<Rightarrow> nat \<Rightarrow> nat" where
  "run_step signature t n =
     (if signature_of t \<noteq> signature then n
      else case tr_outcome t of
        TraceFailure \<Rightarrow> 0
      | TraceSuccess \<Rightarrow> (if trace_has_success_evidence t then n + 1 else n))"

definition success_run :: "string \<Rightarrow> (nat \<times> ExperienceTrace \<times> bool) list \<Rightarrow> nat" where
  "success_run signature hist = fold (\<lambda>(now, t, confirmed). run_step signature t) hist 0"

lemma evidence_of_put [simp]:
  "evidence_of (put_evidence signature e l) i = (if i = signature then e else evidence_of l i)"
  by (simp add: evidence_of_def put_evidence_def map_simps)

lemma min_successes_put [simp]: "min_successes (put_evidence signature e l) = min_successes l"
  by (simp add: put_evidence_def)

lemma min_successes_observe [simp]: "min_successes (snd (observe now t confirmed l)) = min_successes l"
  by (auto simp: observe_def Let_def split: TraceOutcome.split)

lemma successes_observe [simp]:
  "ev_successes (evidence_of (snd (observe now t confirmed l)) i) = run_step i t (ev_successes (evidence_of l i))"
  by (auto simp: observe_def Let_def run_step_def split: TraceOutcome.split)

lemma observe_all_evidence:
  "ev_successes (evidence_of (observe_all hist l) i) =
     fold (\<lambda>(now, t, confirmed). run_step i t) hist (ev_successes (evidence_of l i)) \<and>
   min_successes (observe_all hist l) = min_successes l"
  unfolding observe_all_def
proof (induction hist arbitrary: l)
  case (Cons h hist)
  obtain now t confirmed where h: "h = (now, t, confirmed)" by (cases h)
  from Cons.IH [of "snd (observe now t confirmed l)"] show ?case by (simp add: h)
qed simp

text \<open>A draft needs repetition or confirmation. After any history of observed traces, a learner
  started with threshold \<open>n\<close> compiles a trace into a draft exactly when the trace succeeded, has an
  observed successful step (or no step detail), keeps at least one action after pruning, and either
  was confirmed by the user or completes a run of at least \<open>max n 1\<close> evidenced successes of the
  same task without a failure in between; an unconfirmed or an over-long draft is a candidate with
  the initial confidence, and every step of a draft is an action of the trace that is not noise,
  with no immediate repetition.\<close>

theorem draft_needs_repetition:
  "(\<exists>d. fst (observe now t confirmed (observe_all hist (ExperienceLearner_new n))) = Some d) =
     (tr_outcome t = TraceSuccess \<and> trace_has_success_evidence t \<and> prune_actions (tr_actions t) \<noteq> [] \<and>
      (confirmed \<or> max n 1 \<le> success_run (signature_of t) hist + 1)) \<and>
   (case fst (observe now t confirmed (observe_all hist (ExperienceLearner_new n))) of
      None \<Rightarrow> True
    | Some d \<Rightarrow>
        rx_id (draft_experience d) = candidate_id (signature_of t) \<and>
        rx_steps (draft_experience d) = map (\<lambda>a. \<lparr>wstep_name = ta_name a, wstep_args = ta_args a\<rparr>) (prune_actions (tr_actions t)) \<and>
        list_all (\<lambda>a. a \<in> set (tr_actions t) \<and> \<not> is_noise a) (prune_actions (tr_actions t)) \<and>
        \<not> repeats (prune_actions (tr_actions t)) \<and>
        rx_status (draft_experience d) =
          (if confirmed \<and> length (prune_actions (tr_actions t)) \<le> 20 then SValidated else SCandidate) \<and>
        rx_confidence (draft_experience d) =
          (if confirmed \<and> length (prune_actions (tr_actions t)) \<le> 20 then 9 / 10 else 2 / 10))"
proof -
  let ?l = "observe_all hist (ExperienceLearner_new n)"
  have l: "min_successes ?l = max n 1" "ev_successes (evidence_of ?l (signature_of t)) = success_run (signature_of t) hist"
    using observe_all_evidence [of hist "ExperienceLearner_new n" "signature_of t"]
    by (simp_all add: success_run_def ExperienceLearner_new_def evidence_of_def)
  have clean: "list_all (\<lambda>a. a \<in> set (tr_actions t) \<and> \<not> is_noise a) (prune_actions (tr_actions t))"
    using prune_actions_clean by (auto simp: list_all_iff)
  have fresh: "\<not> repeats (prune_actions (tr_actions t))"
    using prune_no_repeats by (simp add: prune_actions_def)
  show ?thesis
    using clean fresh
    by (auto simp: observe_def Let_def l build_draft_def MAX_AUTO_CONFIRM_STEPS_def
        USER_CONFIRMED_CONFIDENCE_def INITIAL_CANDIDATE_CONFIDENCE_def split: TraceOutcome.split)
qed

end
