(* ===== verification/Experience_Runtime.thy ===== *)
theory Experience_Runtime
  imports Runtime_Learner
begin

text \<open>
  The controller of the turn-level experience system (\<open>experience_runtime.rs\<close>): the fast decision
  point before the language model, feedback, admission of learned and distilled experiences,
  pinning, forgetting and best-effort persistence. The JSON encoders and decoders of the store and
  of the usage file are serde's and are arguments; the distiller (\<open>ExperienceCompiler\<close>) is an
  optional function; writes that fail leave the file system unchanged and are only logged by the
  code. Texts are UTF-8 byte strings, so the Chinese batch markers are written as bytes.
\<close>

section \<open>Data\<close>

record TickReport =
  expired_elements :: "string list"
  demoted :: nat
  disabled_count :: nat

record ExperienceManagementEntry =
  mgmt_id :: string
  mgmt_name :: string
  mgmt_kind :: ExperienceKind
  mgmt_status :: LifeStatus
  mgmt_confidence :: real
  mgmt_pinned :: bool
  mgmt_last_used :: "nat option"

definition CONF_EXECUTE :: real where "CONF_EXECUTE = 75 / 100"
definition CONF_ASSIST :: real where "CONF_ASSIST = 35 / 100"
definition SIM_EXECUTE :: real where "SIM_EXECUTE = 50 / 100"
definition SIM_ASSIST :: real where "SIM_ASSIST = 30 / 100"
definition CONF_HINT :: real where "CONF_HINT = 25 / 100"
definition SIM_HINT :: real where "SIM_HINT = 10 / 100"

datatype ControlDecision =
    ExperienceOnly string
  | ExperienceFirst string
  | Reference string
  | DelegateLlm
  | AbortOrAsk

fun decision_mode :: "ControlDecision \<Rightarrow> ExecutionMode" where
  "decision_mode (ExperienceOnly _) = ModeReflex"
| "decision_mode (ExperienceFirst _) = ModeReflex"
| "decision_mode (Reference _) = ModeDeliberation"
| "decision_mode DelegateLlm = ModeDeliberation"
| "decision_mode AbortOrAsk = ModeConflict"

record ExperienceRuntime =
  rt_disabled :: bool
  rt_store :: RunStore
  rt_counters :: "ConfidenceCounters btree"
  rt_learner :: ExperienceLearner
  rt_compiler :: "(ExperienceTrace \<Rightarrow> ExperienceDraft option) option"
  rt_session_state :: ExperienceState
  rt_store_path :: "path option"
  rt_usage_path :: "path option"

definition ExperienceRuntime_default :: ExperienceRuntime where
  "ExperienceRuntime_default =
     \<lparr>rt_disabled = False, rt_store = RunStore_new, rt_counters = [], rt_learner = ExperienceLearner_new 2,
      rt_compiler = None, rt_session_state = ExperienceState_default, rt_store_path = None, rt_usage_path = None\<rparr>"

section \<open>Loading, saving and the switch\<close>

definition load_from_path :: "(string \<Rightarrow> RunStoreSnapshot option) \<Rightarrow> path \<Rightarrow> fsys \<Rightarrow> ExperienceRuntime" where
  "load_from_path decode p fs =
     ExperienceRuntime_default\<lparr>
       rt_store := (case rs_load decode p fs of Inr s \<Rightarrow> s | Inl _ \<Rightarrow> RunStore_new),
       rt_store_path := Some p,
       rt_usage_path := map_option (\<lambda>dir. path_join dir ''usage.json'') (path_parent p)\<rparr>"

definition set_enabled :: "bool \<Rightarrow> ExperienceRuntime \<Rightarrow> ExperienceRuntime" where
  "set_enabled enabled rt = rt\<lparr>rt_disabled := \<not> enabled\<rparr>"

definition is_enabled :: "ExperienceRuntime \<Rightarrow> bool" where
  "is_enabled rt \<longleftrightarrow> \<not> rt_disabled rt"

definition persist :: "(RunStoreSnapshot \<Rightarrow> string) \<Rightarrow> ExperienceRuntime \<Rightarrow> fsys \<Rightarrow> fsys" where
  "persist encode rt fs =
     (case rt_store_path rt of
        None \<Rightarrow> fs
      | Some p \<Rightarrow> (case rs_save encode (rt_store rt) p fs of Inr fs' \<Rightarrow> fs' | Inl _ \<Rightarrow> fs))"

definition register :: "(RunStoreSnapshot \<Rightarrow> string) \<Rightarrow> RunExperience \<Rightarrow> ExperienceRuntime \<times> fsys
    \<Rightarrow> ExperienceRuntime \<times> fsys" where
  "register encode x = (\<lambda>(rt, fs).
     let rt' = rt\<lparr>rt_store := rs_upsert x (rt_store rt)\<rparr> in (rt', persist encode rt' fs))"

section \<open>Feedback\<close>

definition record_feedback :: "(RunStoreSnapshot \<Rightarrow> string) \<Rightarrow> string \<Rightarrow> FeedbackKind \<Rightarrow> nat
    \<Rightarrow> ExperienceRuntime \<times> fsys \<Rightarrow> ExperienceRuntime \<times> fsys" where
  "record_feedback encode i feedback now = (\<lambda>(rt, fs).
     let counters = counters_touch now (apply_counters feedback
           (case bt_get (rt_counters rt) i of Some c \<Rightarrow> c | None \<Rightarrow> ConfidenceCounters_default));
         score = confidence_score counters ConfidenceWeights_default 0 1;
         rt1 = rt\<lparr>rt_counters := bt_insert i counters (rt_counters rt)\<rparr>
     in case rs_get (rt_store rt) i of
          None \<Rightarrow> (rt1, fs)
        | Some x \<Rightarrow>
            (let x' = x\<lparr>rx_confidence := score,
                        rx_status := apply_feedback (rx_status x) score (streak counters) (failure_streak counters)\<rparr>;
                 rt2 = rt1\<lparr>rt_store := rs_upsert x' (rt_store rt)\<rparr>
             in (rt2, persist encode rt2 fs)))"

definition MAX_FAILURE_MODES :: nat where "MAX_FAILURE_MODES = 12"

definition record_misfire :: "(RunStoreSnapshot \<Rightarrow> string) \<Rightarrow> string \<Rightarrow> string
    \<Rightarrow> ExperienceRuntime \<times> fsys \<Rightarrow> ExperienceRuntime \<times> fsys" where
  "record_misfire encode i note_text = (\<lambda>(rt, fs).
     case rs_get (rt_store rt) i of
       None \<Rightarrow> (rt, fs)
     | Some x \<Rightarrow>
         (if note_text \<in> set (rx_failure_modes x) then (rt, fs)
          else
            (let modes = rx_failure_modes x @ [note_text];
                 x' = x\<lparr>rx_failure_modes := (if length modes > MAX_FAILURE_MODES
                                             then drop (length modes - MAX_FAILURE_MODES) modes else modes)\<rparr>;
                 rt' = rt\<lparr>rt_store := rs_upsert x' (rt_store rt)\<rparr>
             in (rt', persist encode rt' fs))))"

definition transition_experience :: "(RunStoreSnapshot \<Rightarrow> string) \<Rightarrow> string \<Rightarrow> LifecycleAction
    \<Rightarrow> ExperienceRuntime \<times> fsys \<Rightarrow> (LifecycleError + LifeStatus) \<times> ExperienceRuntime \<times> fsys" where
  "transition_experience encode i action = (\<lambda>(rt, fs).
     case rs_transition i action (rt_store rt) of
       (Inl e, s) \<Rightarrow> (Inl e, rt\<lparr>rt_store := s\<rparr>, fs)
     | (Inr st, s) \<Rightarrow> (let rt' = rt\<lparr>rt_store := s\<rparr> in (Inr st, rt', persist encode rt' fs)))"

definition counters_of :: "ExperienceRuntime \<Rightarrow> string \<Rightarrow> ConfidenceCounters option" where
  "counters_of rt i = bt_get (rt_counters rt) i"

section \<open>Admission\<close>

definition distil_draft :: "ExperienceRuntime \<Rightarrow> ExperienceTrace \<Rightarrow> ExperienceDraft \<Rightarrow> ExperienceDraft" where
  "distil_draft rt t d =
     (if rx_status (draft_experience d) = SCandidate \<and> length (tr_actions t) > MAX_AUTO_CONFIRM_STEPS then
        (case rt_compiler rt of
           None \<Rightarrow> d
         | Some compile \<Rightarrow> (case compile t of Some distilled \<Rightarrow> distilled | None \<Rightarrow> d))
      else d)"

definition complete_draft :: "ExperienceTrace \<Rightarrow> ExperienceDraft \<Rightarrow> ExperienceDraft" where
  "complete_draft t d =
     (let x = draft_experience d;
          x1 = x\<lparr>rx_conditions :=
                  merge_conditions (rx_conditions x) (conditions_from_snapshot (tr_environment_snapshot t))\<rparr>;
          x2 = (if rx_completion_criteria x1 = None then
                  (case tr_final_evidence t of
                     Some evd \<Rightarrow> x1\<lparr>rx_completion_criteria := Some evd\<rparr>
                   | None \<Rightarrow> x1)
                else x1)
      in d\<lparr>draft_experience := x2\<rparr>)"

definition is_improvement :: "RunStore \<Rightarrow> RunExperience \<Rightarrow> bool" where
  "is_improvement s x \<longleftrightarrow>
     (case rs_get s (rx_id x) of
        Some existing \<Rightarrow>
          (if rx_status existing = SValidated \<or> rx_status existing = SActive
           then length (rx_steps x) < length (rx_steps existing) else True)
      | None \<Rightarrow> True)"

definition admit_trace :: "(RunStoreSnapshot \<Rightarrow> string) \<Rightarrow> nat \<Rightarrow> ExperienceTrace \<Rightarrow> bool \<Rightarrow> bool
    \<Rightarrow> ExperienceRuntime \<times> fsys \<Rightarrow> ExperienceDraft option \<times> ExperienceRuntime \<times> fsys" where
  "admit_trace encode now t user_confirmed force = (\<lambda>(rt, fs).
     if rt_disabled rt then (None, rt, fs)
     else
       (let (observed, l) = observe now t user_confirmed (rt_learner rt);
            rt1 = rt\<lparr>rt_learner := l\<rparr>
        in case observed of
             None \<Rightarrow> (None, rt1, fs)
           | Some d0 \<Rightarrow>
               (let d = complete_draft t (distil_draft rt1 t d0)
                in if \<not> force \<and> \<not> is_improvement (rt_store rt1) (draft_experience d) then (None, rt1, fs)
                   else
                     (case upsert_validated (draft_experience d) (rt_store rt1) of
                        Inr s \<Rightarrow> (let rt2 = rt1\<lparr>rt_store := s\<rparr> in (Some d, rt2, persist encode rt2 fs))
                      | Inl _ \<Rightarrow> (None, rt1, fs)))))"

definition observe_trace :: "(RunStoreSnapshot \<Rightarrow> string) \<Rightarrow> nat \<Rightarrow> ExperienceTrace \<Rightarrow> bool
    \<Rightarrow> ExperienceRuntime \<times> fsys \<Rightarrow> ExperienceDraft option \<times> ExperienceRuntime \<times> fsys" where
  "observe_trace encode now t user_confirmed = admit_trace encode now t user_confirmed False"

definition force_record :: "(RunStoreSnapshot \<Rightarrow> string) \<Rightarrow> nat \<Rightarrow> ExperienceTrace
    \<Rightarrow> ExperienceRuntime \<times> fsys \<Rightarrow> ExperienceDraft option \<times> ExperienceRuntime \<times> fsys" where
  "force_record encode now t = admit_trace encode now t True True"

definition set_compiler :: "(ExperienceTrace \<Rightarrow> ExperienceDraft option) \<Rightarrow> ExperienceRuntime \<Rightarrow> ExperienceRuntime" where
  "set_compiler compile rt = rt\<lparr>rt_compiler := Some compile\<rparr>"

text \<open>\<open>u32::saturating_add(1)\<close> on a version is \<^const>\<open>sat_inc32\<close>; the error texts are the debug forms of
  the two error types, which are returned here as values.\<close>

definition admit_auto_experience :: "(RunStoreSnapshot \<Rightarrow> string) \<Rightarrow> RunExperience \<Rightarrow> ExperienceRuntime \<times> fsys
    \<Rightarrow> ((ExperienceValidationError + LifecycleError) + LifeStatus) \<times> ExperienceRuntime \<times> fsys" where
  "admit_auto_experience encode x0 = (\<lambda>(rt, fs).
     let x = (case rs_get (rt_store rt) (rx_id x0) of
                Some existing \<Rightarrow> x0\<lparr>rx_version := sat_inc32 (rx_version existing)\<rparr>
              | None \<Rightarrow> x0)
     in case upsert_validated x (rt_store rt) of
          Inl e \<Rightarrow> (Inl (Inl e), rt, fs)
        | Inr s \<Rightarrow>
            (case rs_transition (rx_id x) LcActivate s of
               (Inl e, s') \<Rightarrow> (Inl (Inr e), rt\<lparr>rt_store := s'\<rparr>, fs)
             | (Inr st, s') \<Rightarrow> (let rt' = rt\<lparr>rt_store := s'\<rparr> in (Inr st, rt', persist encode rt' fs))))"

definition record_usage :: "(string \<Rightarrow> UsageStore option) \<Rightarrow> (UsageStore \<Rightarrow> string) \<Rightarrow> string \<Rightarrow> UsageLog
    \<Rightarrow> ExperienceRuntime \<Rightarrow> fsys \<Rightarrow> fsys" where
  "record_usage decode encode i l rt fs =
     (case rt_usage_path rt of
        None \<Rightarrow> fs
      | Some p \<Rightarrow>
          (case us_save encode (record_logged i l (us_load decode p fs)) p fs of
             Inr fs' \<Rightarrow> fs'
           | Inl _ \<Rightarrow> fs))"

section \<open>Session state, pins and the management list\<close>

definition rt_inherit_session :: "ExperienceRuntime \<Rightarrow> ExperienceState \<Rightarrow> ExperienceState" where
  "rt_inherit_session rt turn_state = inherit_session (rt_session_state rt) turn_state"

definition commit_session :: "ExperienceState \<Rightarrow> ExperienceRuntime \<Rightarrow> ExperienceRuntime" where
  "commit_session turn_state rt = rt\<lparr>rt_session_state := turn_state\<rparr>"

definition set_pinned :: "(RunStoreSnapshot \<Rightarrow> string) \<Rightarrow> string \<Rightarrow> bool \<Rightarrow> ExperienceRuntime \<times> fsys
    \<Rightarrow> bool \<times> ExperienceRuntime \<times> fsys" where
  "set_pinned encode i keep = (\<lambda>(rt, fs).
     let (result, s) = (if keep then rs_pin i (rt_store rt) else rs_unpin i (rt_store rt));
         rt' = rt\<lparr>rt_store := s\<rparr>
     in (result, rt', if result then persist encode rt' fs else fs))"

definition last_use :: "ExperienceRuntime \<Rightarrow> string \<Rightarrow> nat option" where
  "last_use rt i = Option.bind (bt_get (rt_counters rt) i) last_used"

definition management_list :: "ExperienceRuntime \<Rightarrow> ExperienceManagementEntry list" where
  "management_list rt =
     map (\<lambda>x. \<lparr>mgmt_id = rx_id x, mgmt_name = rx_name x, mgmt_kind = rx_kind x, mgmt_status = rx_status x,
               mgmt_confidence = rx_confidence x, mgmt_pinned = rs_is_pinned (rt_store rt) (rx_id x),
               mgmt_last_used = last_use rt (rx_id x)\<rparr>)
       (rs_all (rt_store rt))"

section \<open>Forgetting\<close>

definition tick_one :: "ExperienceRuntime \<Rightarrow> nat \<Rightarrow> string \<Rightarrow> RunStore \<times> nat \<times> nat \<Rightarrow> RunStore \<times> nat \<times> nat" where
  "tick_one rt now i = (\<lambda>(s, dem, dis).
     if rs_is_pinned s i then (s, dem, dis)
     else case rs_get s i of
       None \<Rightarrow> (s, dem, dis)
     | Some x \<Rightarrow>
         (case forgetting (rx_status x) (last_use rt i) now False of
            ForgetKeep \<Rightarrow> (s, dem, dis)
          | DemoteToDecaying \<Rightarrow> (rs_upsert (x\<lparr>rx_status := SDecaying\<rparr>) s, dem + 1, dis)
          | ForgetDisable \<Rightarrow> (rs_upsert (x\<lparr>rx_status := SDisabled\<rparr>) s, dem, dis + 1)))"

definition runtime_tick :: "(RunStoreSnapshot \<Rightarrow> string) \<Rightarrow> nat \<Rightarrow> ExperienceRuntime \<times> fsys
    \<Rightarrow> TickReport \<times> ExperienceRuntime \<times> fsys" where
  "runtime_tick encode now = (\<lambda>(rt, fs).
     let (expired, session) = state_tick now (rt_session_state rt);
         (s, dem, dis) = fold (tick_one rt now) (map rx_id (rs_all (rt_store rt))) (rt_store rt, 0, 0);
         rt' = rt\<lparr>rt_session_state := session, rt_store := s\<rparr>
     in (\<lparr>expired_elements = expired, demoted = dem, disabled_count = dis\<rparr>, rt',
         if dem > 0 \<or> dis > 0 then persist encode rt' fs else fs))"

section \<open>The decision\<close>

definition BATCH_MARKERS :: "string list" where
  "BATCH_MARKERS = [
      [CHR 0xE6, CHR 0x89, CHR 0x80, CHR 0xE6, CHR 0x9C, CHR 0x89],
      [CHR 0xE5, CHR 0x85, CHR 0xA8, CHR 0xE9, CHR 0x83, CHR 0xA8],
      [CHR 0xE6, CHR 0xAF, CHR 0x8F, CHR 0xE4, CHR 0xB8, CHR 0xAA],
      [CHR 0xE9, CHR 0x81, CHR 0x8D, CHR 0xE5, CHR 0x8E, CHR 0x86],
      [CHR 0xE6, CHR 0x89, CHR 0xB9, CHR 0xE9, CHR 0x87, CHR 0x8F],
      [CHR 0xE6, CHR 0x89, CHR 0x80, CHR 0xE6, CHR 0x9C, CHR 0x89, CHR 0xE6, CHR 0x96, CHR 0x87, CHR 0xE6, CHR 0xA1, CHR 0xA3],
      [CHR 0xE6, CHR 0x89, CHR 0x80, CHR 0xE6, CHR 0x9C, CHR 0x89, CHR 0xE6, CHR 0x96, CHR 0x87, CHR 0xE4, CHR 0xBB, CHR 0xB6],
      ''all '',
      ''all files'',
      ''each'',
      ''batch'',
      ''every'']"

definition BATCH_WORDS :: "string list" where
  "BATCH_WORDS = [
      [CHR 0xE6, CHR 0x89, CHR 0x80, CHR 0xE6, CHR 0x9C, CHR 0x89],
      [CHR 0xE5, CHR 0x85, CHR 0xA8, CHR 0xE9, CHR 0x83, CHR 0xA8],
      [CHR 0xE6, CHR 0xAF, CHR 0x8F, CHR 0xE4, CHR 0xB8, CHR 0xAA],
      [CHR 0xE9, CHR 0x81, CHR 0x8D, CHR 0xE5, CHR 0x8E, CHR 0x86],
      [CHR 0xE6, CHR 0x89, CHR 0xB9, CHR 0xE9, CHR 0x87, CHR 0x8F],
      [CHR 0xE4, CHR 0xB8, CHR 0xAA, CHR 0xE6, CHR 0x96, CHR 0x87, CHR 0xE4, CHR 0xBB, CHR 0xB6],
      [CHR 0xE4, CHR 0xB8, CHR 0xAA, CHR 0xE6, CHR 0x96, CHR 0x87, CHR 0xE6, CHR 0xA1, CHR 0xA3],
      ''all'',
      ''each'',
      ''batch'',
      ''every'']"

definition task_input_scope :: "string \<Rightarrow> InputScope" where
  "task_input_scope t =
     (if list_ex (contains_str (to_lowercase t)) BATCH_MARKERS \<or> CHR ''*'' \<in> set t then ScopeBatch else ScopeSingle)"

fun scope_matches :: "InputScope \<Rightarrow> InputScope \<Rightarrow> bool" where
  "scope_matches ScopeAny task_scope \<longleftrightarrow> True"
| "scope_matches ScopeSingle task_scope \<longleftrightarrow> task_scope = ScopeSingle"
| "scope_matches ScopeBatch task_scope \<longleftrightarrow> task_scope = ScopeBatch"
| "scope_matches ScopeUnknown task_scope \<longleftrightarrow> False"

definition shape_isomorphic :: "RunExperience \<Rightarrow> InputScope \<Rightarrow> bool" where
  "shape_isomorphic x task_scope \<longleftrightarrow> scope_matches (input_scope (rx_applicability x)) task_scope"

definition criteria_covers :: "RunExperience \<Rightarrow> string \<Rightarrow> InputScope \<Rightarrow> bool" where
  "criteria_covers x t task_scope \<longleftrightarrow>
     (case rx_completion_criteria x of
        None \<Rightarrow> False
      | Some criteria \<Rightarrow>
          (if task_scope = ScopeBatch
           then list_ex (contains_str (to_lowercase criteria)) BATCH_WORDS \<or> (CHR ''*'' \<in> set t \<and> CHR ''*'' \<in> set criteria)
           else trim_str criteria \<noteq> []))"

definition task_text_of :: "ExperienceState \<Rightarrow> string" where
  "task_text_of st =
     (case task st of
        Some t \<Rightarrow> task_description t
      | None \<Rightarrow> (case intent (current_context st) of Some i \<Rightarrow> i | None \<Rightarrow> []))"

definition conditions_ok :: "ExperienceState \<Rightarrow> RunExperience \<Rightarrow> bool" where
  "conditions_ok st x \<longleftrightarrow> list_all (\<lambda>c. state_satisfies st (cond_key c) (cond_expected c)) (rx_conditions x)"

definition objects_ok :: "string \<Rightarrow> RunExperience \<Rightarrow> bool" where
  "objects_ok t x \<longleftrightarrow>
     (let declared = applicable_objects (rx_applicability x)
      in declared = [] \<or> list_ex (\<lambda>ob. contains_str (to_lowercase t) (to_lowercase ob)) declared)"

definition executable_kind :: "RunExperience \<Rightarrow> bool" where
  "executable_kind x \<longleftrightarrow> rx_kind x = KindReflex \<or> rx_kind x = KindResult"

fun decide_loop :: "ExperienceState \<Rightarrow> string \<Rightarrow> InputScope \<Rightarrow> ExperienceCandidate list \<Rightarrow> ControlDecision" where
  "decide_loop st t scope [] = DelegateLlm"
| "decide_loop st t scope (c # cs) =
     (let x = cand_experience c
      in if \<not> conditions_ok st x then decide_loop st t scope cs
         else if \<not> objects_ok t x then decide_loop st t scope cs
         else
           (let iso = shape_isomorphic x scope;
                cov = criteria_covers x t scope;
                strong_trust = rx_confidence x \<ge> CONF_EXECUTE \<and> cand_similarity c \<ge> SIM_EXECUTE \<and>
                  risk_rank (rx_risk x) \<le> risk_rank RiskMedium;
                medium_trust = rx_confidence x \<ge> CONF_ASSIST \<and> cand_similarity c \<ge> SIM_ASSIST
            in if iso \<and> cov \<and> strong_trust \<and> executable_kind x then ExperienceOnly (rx_id x)
               else if iso \<and> cov \<and> medium_trust \<and> executable_kind x then ExperienceFirst (rx_id x)
               else if cand_similarity c \<ge> SIM_HINT \<and> rx_confidence x \<ge> CONF_HINT then Reference (rx_id x)
               else decide_loop st t scope cs))"

definition rt_decide :: "ExperienceRuntime \<Rightarrow> ExperienceState \<Rightarrow> ExperienceCandidate list \<Rightarrow> ControlDecision" where
  "rt_decide rt st candidates =
     (if rt_disabled rt then DelegateLlm
      else if risk_rank (state_risk st) \<ge> risk_rank RiskHigh then AbortOrAsk
      else decide_loop st (task_text_of st) (task_input_scope (task_text_of st)) candidates)"

definition decide_for_state :: "ExperienceRuntime \<Rightarrow> ExperienceState \<Rightarrow> ControlDecision" where
  "decide_for_state rt st =
     (if rt_disabled rt then DelegateLlm
      else rt_decide rt st (match_experiences st (rs_matchable (rt_store rt))))"


section \<open>When an experience may act alone\<close>

definition relates :: "ExperienceState \<Rightarrow> string \<Rightarrow> RunExperience \<Rightarrow> bool" where
  "relates st t x \<longleftrightarrow> conditions_ok st x \<and> objects_ok t x"

lemma decide_loop_Only:
  "decide_loop st t scope cs = ExperienceOnly i \<Longrightarrow>
   \<exists>c \<in> set cs. rx_id (cand_experience c) = i \<and> relates st t (cand_experience c) \<and>
     shape_isomorphic (cand_experience c) scope \<and> criteria_covers (cand_experience c) t scope \<and>
     CONF_EXECUTE \<le> rx_confidence (cand_experience c) \<and> SIM_EXECUTE \<le> cand_similarity c \<and>
     risk_rank (rx_risk (cand_experience c)) \<le> risk_rank RiskMedium \<and> executable_kind (cand_experience c)"
proof (induction cs)
  case (Cons c cs)
  then show ?case by (auto simp: Let_def relates_def split: if_splits)
qed simp

lemma rs_all_get:
  assumes "rs_ok s" and "x \<in> set (rs_all s)"
  shows "rs_get s (rx_id x) = Some x"
proof -
  from assms(2) obtain k where k: "(k, x) \<in> set (rs_experiences s)" by (auto simp: rs_all_def)
  have "distinct (map fst (rs_experiences s))" using assms(1) by (auto simp: rs_ok_def bt_sorted_def strict_sorted_iff)
  with k have "bt_get (rs_experiences s) k = Some x" unfolding bt_get_def by (metis map_of_is_SomeI)
  with assms(1) show ?thesis by (auto simp: rs_ok_def rs_get_def)
qed

lemma matchable_candidate:
  assumes "rs_ok (rt_store rt)" and "c \<in> set (match_experiences st (rs_matchable (rt_store rt)))"
  shows "rs_get (rt_store rt) (rx_id (cand_experience c)) = Some (cand_experience c)"
    and "status_matchable (rx_status (cand_experience c))"
    and "cand_similarity c = combined_similarity st (cand_experience c)"
  using assms by (auto simp: match_experiences_set rs_matchable_def intro: rs_all_get)

text \<open>C8: the language model is bypassed only through every gate. When the controller decides that an
  experience alone handles the turn, the system is enabled, the state is not at high risk, and the
  stored experience of that identifier is validated or active, executable (reflex or result), of
  at most medium risk, with confidence at least 0.75 and similarity at least 0.5; every one of its
  conditions holds in the current state; one of its declared objects, if it declares any, occurs in the task; its
  declared input scope fits the task's, so it is not unknown; and its completion criteria are
  present and cover the task.\<close>

theorem bypass_needs_every_gate:
  assumes "rs_ok (rt_store rt)" and "decide_for_state rt st = ExperienceOnly i"
  shows "\<not> rt_disabled rt \<and> state_risk st \<noteq> RiskHigh \<and>
    (\<exists>x. rs_get (rt_store rt) i = Some x \<and> (rx_status x = SValidated \<or> rx_status x = SActive) \<and>
       (rx_kind x = KindReflex \<or> rx_kind x = KindResult) \<and> rx_risk x \<noteq> RiskHigh \<and>
       3 / 4 \<le> rx_confidence x \<and> 1 / 2 \<le> combined_similarity st x \<and>
       list_all (\<lambda>c. lookup st (cond_key c) = Some (cond_expected c)) (rx_conditions x) \<and>
       objects_ok (task_text_of st) x \<and>
       (input_scope (rx_applicability x) = ScopeAny \<or> input_scope (rx_applicability x) = task_input_scope (task_text_of st)) \<and>
       input_scope (rx_applicability x) \<noteq> ScopeUnknown \<and> rx_completion_criteria x \<noteq> None \<and>
       criteria_covers x (task_text_of st) (task_input_scope (task_text_of st)))"
proof -
  let ?cs = "match_experiences st (rs_matchable (rt_store rt))" and ?t = "task_text_of st"
  have enabled: "\<not> rt_disabled rt" and risk: "state_risk st \<noteq> RiskHigh"
    and loop: "decide_loop st ?t (task_input_scope ?t) ?cs = ExperienceOnly i"
    using assms(2) by (auto simp: decide_for_state_def rt_decide_def split: if_splits)
  from decide_loop_Only [OF loop] obtain c where c: "c \<in> set ?cs" and i: "rx_id (cand_experience c) = i"
    and gates: "relates st ?t (cand_experience c)" "shape_isomorphic (cand_experience c) (task_input_scope ?t)"
      "criteria_covers (cand_experience c) ?t (task_input_scope ?t)" "CONF_EXECUTE \<le> rx_confidence (cand_experience c)"
      "SIM_EXECUTE \<le> cand_similarity c" "risk_rank (rx_risk (cand_experience c)) \<le> risk_rank RiskMedium"
      "executable_kind (cand_experience c)"
    by blast
  note stored = matchable_candidate [OF assms(1) c]
  have scope: "input_scope (rx_applicability (cand_experience c)) = ScopeAny \<or>
      input_scope (rx_applicability (cand_experience c)) = task_input_scope ?t"
    "input_scope (rx_applicability (cand_experience c)) \<noteq> ScopeUnknown"
    using gates(2) by (cases "input_scope (rx_applicability (cand_experience c))"; simp add: shape_isomorphic_def)+
  have crit: "rx_completion_criteria (cand_experience c) \<noteq> None" using gates(3)
    by (cases "rx_completion_criteria (cand_experience c)") (simp_all add: criteria_covers_def)
  have "rx_risk (cand_experience c) \<noteq> RiskHigh" using gates(6) by auto
  moreover have "3 / 4 \<le> rx_confidence (cand_experience c)" "1 / 2 \<le> combined_similarity st (cand_experience c)"
    using gates(4,5) stored(3) by (simp_all add: CONF_EXECUTE_def SIM_EXECUTE_def)
  moreover have "list_all (\<lambda>k. lookup st (cond_key k) = Some (cond_expected k)) (rx_conditions (cand_experience c))"
    "objects_ok ?t (cand_experience c)"
    using gates(1) by (simp_all add: relates_def conditions_ok_def state_satisfies_def)
  ultimately show ?thesis
    using enabled risk i stored(1,2) gates(3,7) scope crit by (auto simp: status_matchable_def executable_kind_def)
qed

definition demo_bypass_rx :: RunExperience where
  "demo_bypass_rx = demo_rx\<lparr>rx_trigger := \<lparr>trig_object = Some ''a'', trig_location = Some ''b'', trig_goal = Some ''c'',
     trig_keywords = [''d''], trig_context = []\<rparr>\<rparr>"

definition demo_runtime :: ExperienceRuntime where
  "demo_runtime = ExperienceRuntime_default\<lparr>rt_store := rs_upsert demo_bypass_rx RunStore_new\<rparr>"

definition demo_turn :: ExperienceState where
  "demo_turn = ExperienceState_default\<lparr>task := Some \<lparr>task_description = ''a b c d'', task_status = TaskPending\<rparr>\<rparr>"

lemma demo_runtime_ok: "rs_ok (rt_store demo_runtime)"
  by (simp add: demo_runtime_def rs_ok_upsert rs_ok_new)

lemma demo_similarity: "1 / 2 \<le> combined_similarity demo_turn demo_bypass_rx"
proof -
  have "content_similarity demo_turn (rx_trigger demo_bypass_rx) = 1"
    by (simp add: content_similarity_def state_haystack_def opt_text_def demo_turn_def demo_bypass_rx_def
        ExperienceState_default_def trigger_fields_def clamp01_def to_lowercase_def contains_str_def Let_def
        lower_char_def is_ascii_upper_def starts_with_def byte_of_def)
  moreover have "rx_kind demo_bypass_rx = KindReflex" by (simp add: demo_bypass_rx_def demo_rx_def)
  ultimately show ?thesis using reflex_similarity_bound [of demo_bypass_rx demo_turn] by simp
qed

lemma demo_candidates:
  "match_experiences demo_turn (rs_matchable (rt_store demo_runtime)) =
   [\<lparr>cand_experience = demo_bypass_rx, cand_similarity = combined_similarity demo_turn demo_bypass_rx\<rparr>]"
proof -
  have m: "rs_matchable (rt_store demo_runtime) = [demo_bypass_rx]"
    by (simp add: demo_runtime_def rs_matchable_def rs_all_def rs_upsert_def RunStore_new_def status_matchable_def
        demo_bypass_rx_def demo_rx_def)
  have "status_matchable (rx_status demo_bypass_rx)" "\<not> combined_similarity demo_turn demo_bypass_rx < MIN_SIMILARITY"
    using demo_similarity by (simp_all add: status_matchable_def demo_bypass_rx_def demo_rx_def MIN_SIMILARITY_def)
  then show ?thesis by (simp add: m match_experiences_def)
qed

theorem bypass_needs_every_gate_witness:
  "decide_for_state demo_runtime demo_turn = ExperienceOnly ''x1'' \<and>
   (\<exists>x. rs_get (rt_store demo_runtime) ''x1'' = Some x \<and> 1 / 2 \<le> combined_similarity demo_turn x)"
proof -
  have gates: "conditions_ok demo_turn demo_bypass_rx" "objects_ok ''a b c d'' demo_bypass_rx"
    "rx_confidence demo_bypass_rx = 8 / 10" "rx_risk demo_bypass_rx = RiskLow" "executable_kind demo_bypass_rx"
    "rx_id demo_bypass_rx = ''x1''"
    by (simp_all add: conditions_ok_def objects_ok_def executable_kind_def demo_bypass_rx_def demo_rx_def
        Applicability_default_def)
  have "task_input_scope ''a b c d'' = ScopeSingle" by code_simp
  moreover have "criteria_covers demo_bypass_rx ''a b c d'' ScopeSingle" "shape_isomorphic demo_bypass_rx ScopeSingle"
    by (simp_all add: criteria_covers_def shape_isomorphic_def demo_bypass_rx_def demo_rx_def trim_str_def
        trim_start_def trim_end_def is_whitespace_def)
  moreover have "task_text_of demo_turn = ''a b c d''" "state_risk demo_turn = RiskLow" "\<not> rt_disabled demo_runtime"
    by (simp_all add: task_text_of_def demo_turn_def demo_runtime_def ExperienceState_default_def
        ExperienceRuntime_default_def)
  ultimately have "decide_for_state demo_runtime demo_turn = ExperienceOnly ''x1''"
    using gates demo_similarity
    by (simp add: decide_for_state_def rt_decide_def demo_candidates CONF_EXECUTE_def SIM_EXECUTE_def Let_def)
  with bypass_needs_every_gate [OF demo_runtime_ok this] show ?thesis by blast
qed

section \<open>Feedback and the end of an experience\<close>

definition feedback_all :: "(RunStoreSnapshot \<Rightarrow> string) \<Rightarrow> string \<Rightarrow> (FeedbackKind \<times> nat) list
    \<Rightarrow> ExperienceRuntime \<times> fsys \<Rightarrow> ExperienceRuntime \<times> fsys" where
  "feedback_all encode i fbs = fold (\<lambda>(fb, now). record_feedback encode i fb now) fbs"

definition status_in :: "ExperienceRuntime \<Rightarrow> string \<Rightarrow> LifeStatus option" where
  "status_in rt i = map_option rx_status (rs_get (rt_store rt) i)"

definition failures_in :: "ExperienceRuntime \<Rightarrow> string \<Rightarrow> nat" where
  "failures_in rt i = (case bt_get (rt_counters rt) i of Some c \<Rightarrow> failure_streak c | None \<Rightarrow> 0)"


lemma record_feedback_result:
  assumes ok: "rs_ok (rt_store rt)" and rec: "record_feedback encode i fb now (rt, fs) = (rt', fs')"
  obtains sc st where "rs_ok (rt_store rt')"
    "status_in rt' i = map_option (\<lambda>s. apply_feedback s sc st (failures_in rt' i)) (status_in rt i)"
    "failures_in rt' i = (case fb of FbSuccess \<Rightarrow> 0 | FbFailure \<Rightarrow> Suc (failures_in rt i) | _ \<Rightarrow> failures_in rt i)"
    "fb = FbFailure \<Longrightarrow> st = 0"
proof -
  let ?c = "counters_touch now (apply_counters fb
      (case bt_get (rt_counters rt) i of Some c \<Rightarrow> c | None \<Rightarrow> ConfidenceCounters_default))"
  let ?sc = "confidence_score ?c ConfidenceWeights_default 0 1"
  have f: "failures_in rt' i = failure_streak ?c"
    using rec by (auto simp: record_feedback_def Let_def failures_in_def map_simps split: option.splits)
  have g: "failure_streak ?c = (case fb of FbSuccess \<Rightarrow> 0 | FbFailure \<Rightarrow> Suc (failures_in rt i) | _ \<Rightarrow> failures_in rt i)"
    by (cases fb) (auto simp: failures_in_def counters_touch_def ConfidenceCounters_default_def split: option.split)
  have s: "rs_ok (rt_store rt')"
    "status_in rt' i = map_option (\<lambda>s. apply_feedback s ?sc (streak ?c) (failure_streak ?c)) (status_in rt i)"
  proof -
    show "rs_ok (rt_store rt')"
      using rec ok by (auto simp: record_feedback_def Let_def rs_ok_upsert split: option.splits)
    show "status_in rt' i = map_option (\<lambda>s. apply_feedback s ?sc (streak ?c) (failure_streak ?c)) (status_in rt i)"
    proof (cases "rs_get (rt_store rt) i")
      case None
      with rec show ?thesis by (auto simp: record_feedback_def Let_def status_in_def)
    next
      case (Some x)
      then have "rx_id x = i" using ok by (simp add: rs_ok_def rs_get_def)
      with rec Some show ?thesis by (auto simp: record_feedback_def Let_def status_in_def)
    qed
  qed
  have "streak ?c = 0" if "fb = FbFailure" using that by (simp add: counters_touch_def)
  with that [OF s(1), of ?sc "streak ?c"] s(2) f g show thesis by simp
qed

lemma failure_step:
  assumes "rs_ok (rt_store rt)" and "record_feedback encode i FbFailure now (rt, fs) = (rt', fs')"
    and "status_in rt i = Some s" and "s = SActive \<or> s = SDecaying \<or> s = SDisabled"
  shows "rs_ok (rt_store rt')" and "failures_in rt' i = Suc (failures_in rt i)"
    and "status_in rt' i = Some SDisabled \<or>
      5 > Suc (failures_in rt i) \<and> (status_in rt' i = Some SActive \<or> status_in rt' i = Some SDecaying)"
proof -
  obtain sc st where r: "rs_ok (rt_store rt')"
    "status_in rt' i = map_option (\<lambda>s. apply_feedback s sc st (failures_in rt' i)) (status_in rt i)"
    "failures_in rt' i = Suc (failures_in rt i)" "st = 0"
    by (rule record_feedback_result [OF assms(1,2)]) simp
  then show "rs_ok (rt_store rt')" and "failures_in rt' i = Suc (failures_in rt i)" by simp_all
  from assms(3,4) r(2-4) show "status_in rt' i = Some SDisabled \<or>
      5 > Suc (failures_in rt i) \<and> (status_in rt' i = Some SActive \<or> status_in rt' i = Some SDecaying)"
    by (auto simp: DISABLE_FAILURES_def RECOVERY_STREAK_def split: if_split_asm)
qed

lemma failure_run:
  assumes "rs_ok (rt_store rt)" and "status_in rt i = Some s" and "s = SActive \<or> s = SDecaying \<or> s = SDisabled"
    and "feedback_all encode i (map (\<lambda>now. (FbFailure, now)) nows) (rt, fs) = (rt', fs')"
  shows "rs_ok (rt_store rt') \<and> failures_in rt' i = failures_in rt i + length nows \<and>
    (nows = [] \<and> rt' = rt \<or> status_in rt' i = Some SDisabled \<or>
     failures_in rt i + length nows < 5 \<and> (status_in rt' i = Some SActive \<or> status_in rt' i = Some SDecaying))"
  using assms(4)
proof (induction nows arbitrary: rt' fs' rule: rev_induct)
  case Nil
  with assms(1) show ?case by (simp add: feedback_all_def)
next
  case (snoc now nows)
  obtain rt1 fs1 where r1: "feedback_all encode i (map (\<lambda>now. (FbFailure, now)) nows) (rt, fs) = (rt1, fs1)"
    by fastforce
  with snoc.prems have r2: "record_feedback encode i FbFailure now (rt1, fs1) = (rt', fs')"
    by (simp add: feedback_all_def)
  note ih = snoc.IH [OF r1]
  then obtain s1 where s1: "status_in rt1 i = Some s1" "s1 = SActive \<or> s1 = SDecaying \<or> s1 = SDisabled"
    using assms(2,3) by auto
  from failure_step [OF _ r2 s1] ih show ?case by auto
qed

lemma disabled_run:
  assumes "rs_ok (rt_store rt)" and "status_in rt i = Some SDisabled"
    and "feedback_all encode i fbs (rt, fs) = (rt', fs')"
  shows "rs_ok (rt_store rt') \<and> status_in rt' i = Some SDisabled"
  using assms(3)
proof (induction fbs arbitrary: rt' fs' rule: rev_induct)
  case Nil
  with assms show ?case by (simp add: feedback_all_def)
next
  case (snoc fb fbs)
  obtain rt1 fs1 where r1: "feedback_all encode i fbs (rt, fs) = (rt1, fs1)" by fastforce
  obtain k now where fb: "fb = (k, now)" by (cases fb)
  from snoc.prems r1 fb have r2: "record_feedback encode i k now (rt1, fs1) = (rt', fs')"
    by (simp add: feedback_all_def)
  from snoc.IH [OF r1] obtain "rs_ok (rt_store rt1)" "status_in rt1 i = Some SDisabled" by simp
  with record_feedback_result [OF _ r2] show ?case by (metis apply_feedback.simps(6) option.map(2))
qed

lemma decide_loop_names:
  assumes "decide_loop st t scope cs = d" and "d = ExperienceOnly i \<or> d = ExperienceFirst i \<or> d = Reference i"
  shows "\<exists>c \<in> set cs. rx_id (cand_experience c) = i"
  using assms
proof (induction cs)
  case (Cons c cs)
  then show ?case by (auto simp: Let_def split: if_splits)
qed auto

lemma named_is_matchable:
  assumes "rs_ok (rt_store rt)" and "decide_for_state rt st = d"
    and "d = ExperienceOnly i \<or> d = ExperienceFirst i \<or> d = Reference i"
  shows "status_in rt i = Some SValidated \<or> status_in rt i = Some SActive"
proof -
  have "decide_loop st (task_text_of st) (task_input_scope (task_text_of st))
      (match_experiences st (rs_matchable (rt_store rt))) = d"
    using assms(2,3) by (auto simp: decide_for_state_def rt_decide_def split: if_splits)
  from decide_loop_names [OF this assms(3)] obtain c where c: "c \<in> set (match_experiences st (rs_matchable (rt_store rt)))"
    and i: "rx_id (cand_experience c) = i" by blast
  from matchable_candidate [OF assms(1) c] i show ?thesis by (auto simp: status_in_def status_matchable_def)
qed





section \<open>Aging\<close>

text \<open>What aging is meant to do, stated on one experience: the status after the time since its last use.\<close>

definition aged :: "string list \<Rightarrow> ExperienceRuntime \<Rightarrow> nat \<Rightarrow> RunExperience \<Rightarrow> LifeStatus" where
  "aged pins rt now x =
     (let status = rx_status x
      in if rx_id x \<in> set pins then status
         else case last_use rt (rx_id x) of
           None \<Rightarrow> status
         | Some used \<Rightarrow>
             (if now - used \<ge> 60 * 86400 \<and> status \<in> {SValidated, SActive, SDecaying} then SDisabled
              else if now - used \<ge> 30 * 86400 \<and> status \<in> {SValidated, SActive} then SDecaying
              else status))"

lemma days_ge: "n \<le> m div 86400 \<longleftrightarrow> n * 86400 \<le> (m :: nat)"
  by (simp add: less_eq_div_iff_mult_less_eq)

lemma tick_one_cases:
  assumes "rs_ok s"
  shows "tick_one rt now i (s, dem, dis) =
    (case rs_get s i of
       None \<Rightarrow> (s, dem, dis)
     | Some x \<Rightarrow>
         (let st = aged (rs_pinned s) rt now x
          in if st = rx_status x then (s, dem, dis)
             else (rs_upsert (x\<lparr>rx_status := st\<rparr>) s, if st = SDecaying then dem + 1 else dem,
               if st = SDisabled then dis + 1 else dis)))"
proof (cases "rs_get s i")
  case None
  then show ?thesis by (simp add: tick_one_def)
next
  case (Some x)
  then have i: "rx_id x = i" using assms by (simp add: rs_ok_def rs_get_def)
  show ?thesis
    unfolding tick_one_def aged_def forgetting_def Let_def rs_is_pinned_def
    by (cases "last_use rt i"; cases "rx_status x")
      (simp_all add: Some i FORGET_DAYS_def STALE_DAYS_def days_ge)
qed

lemma tick_one_result:
  assumes ok: "rs_ok s" and t: "tick_one rt now i (s, dem, dis) = (s', dem', dis')"
  shows "rs_ok s'" and "rs_pinned s' = rs_pinned s"
    and "rs_get s' j = (if j = i then map_option (\<lambda>x. x\<lparr>rx_status := aged (rs_pinned s) rt now x\<rparr>) (rs_get s i) else rs_get s j)"
    and "dem' = dem + (case rs_get s i of Some x \<Rightarrow> of_bool (aged (rs_pinned s) rt now x = SDecaying \<and> rx_status x \<noteq> SDecaying) | None \<Rightarrow> 0)"
proof -
  have id: "rx_id x = i" if "rs_get s i = Some x" for x using ok that by (simp add: rs_ok_def rs_get_def)
  note c = t [unfolded tick_one_cases [OF ok] Let_def]
  show "rs_ok s'" "rs_pinned s' = rs_pinned s"
    using c ok by (auto simp: rs_ok_upsert split: option.splits if_splits)
  show "rs_get s' j = (if j = i then map_option (\<lambda>x. x\<lparr>rx_status := aged (rs_pinned s) rt now x\<rparr>) (rs_get s i) else rs_get s j)"
    using c id by (auto split: option.splits if_splits)
  show "dem' = dem + (case rs_get s i of Some x \<Rightarrow> of_bool (aged (rs_pinned s) rt now x = SDecaying \<and> rx_status x \<noteq> SDecaying) | None \<Rightarrow> 0)"
    using c by (auto split: option.splits if_splits)
qed

lemma tick_fold:
  assumes "rs_ok s" and "distinct ids" and "fold (tick_one rt now) ids (s, dem, dis) = (s', dem', dis')"
  shows "rs_ok s' \<and> rs_pinned s' = rs_pinned s \<and>
    (\<forall>j. rs_get s' j = (if j \<in> set ids then map_option (\<lambda>x. x\<lparr>rx_status := aged (rs_pinned s) rt now x\<rparr>) (rs_get s j) else rs_get s j)) \<and>
    dem' = dem + length (filter (\<lambda>i. case rs_get s i of
        Some x \<Rightarrow> aged (rs_pinned s) rt now x = SDecaying \<and> rx_status x \<noteq> SDecaying | None \<Rightarrow> False) ids)"
  using assms
proof (induction ids arbitrary: s dem dis)
  case (Cons i ids)
  obtain s1 dem1 dis1 where t: "tick_one rt now i (s, dem, dis) = (s1, dem1, dis1)" by (metis prod_cases3)
  note one = tick_one_result [OF Cons.prems(1) t]
  from Cons.IH [of s1 dem1 dis1] Cons.prems t one(1)
  have ih: "rs_ok s' \<and> rs_pinned s' = rs_pinned s1 \<and>
    (\<forall>j. rs_get s' j = (if j \<in> set ids then map_option (\<lambda>x. x\<lparr>rx_status := aged (rs_pinned s1) rt now x\<rparr>) (rs_get s1 j) else rs_get s1 j)) \<and>
    dem' = dem1 + length (filter (\<lambda>i. case rs_get s1 i of
        Some x \<Rightarrow> aged (rs_pinned s1) rt now x = SDecaying \<and> rx_status x \<noteq> SDecaying | None \<Rightarrow> False) ids)" by simp
  have "filter (\<lambda>i. case rs_get s1 i of Some x \<Rightarrow> aged (rs_pinned s1) rt now x = SDecaying \<and> rx_status x \<noteq> SDecaying | None \<Rightarrow> False) ids =
        filter (\<lambda>i. case rs_get s i of Some x \<Rightarrow> aged (rs_pinned s) rt now x = SDecaying \<and> rx_status x \<noteq> SDecaying | None \<Rightarrow> False) ids"
    unfolding one(2) using Cons.prems(2) by (intro filter_cong) (auto simp: one(3))
  with ih one(2,3,4) Cons.prems(2) show ?case by (auto split: option.splits)
qed simp

lemma rs_ids_distinct:
  assumes "rs_ok s"
  shows "map rx_id (rs_all s) = map fst (rs_experiences s)" and "distinct (map rx_id (rs_all s))"
proof -
  have d: "distinct (map fst (rs_experiences s))" using assms by (auto simp: rs_ok_def bt_sorted_def strict_sorted_iff)
  have "rx_id x = k" if "(k, x) \<in> set (rs_experiences s)" for k x
    using assms that d by (auto simp: rs_ok_def bt_get_def)
  then show "map rx_id (rs_all s) = map fst (rs_experiences s)" by (auto simp: rs_all_def)
  with d show "distinct (map rx_id (rs_all s))" by simp
qed

text \<open>C23: aging is exact and spares the pinned. One tick moves every unpinned experience to the status its
  time without use calls for (validated or active to decaying from 30 days, validated, active or
  decaying to disabled from 60 days, anything never used or pinned untouched), changes nothing
  else of any experience, adds and removes none, keeps the pins, counts the demotions exactly, and
  no tick makes an experience eligible that was not.\<close>

theorem tick_exact:
  assumes "rs_ok (rt_store rt)" and "runtime_tick encode now (rt, fs) = (report, rt', fs')"
  shows "rs_get (rt_store rt') i =
      map_option (\<lambda>x. x\<lparr>rx_status := aged (rs_pinned (rt_store rt)) rt now x\<rparr>) (rs_get (rt_store rt) i) \<and>
    rs_pinned (rt_store rt') = rs_pinned (rt_store rt) \<and> rs_ok (rt_store rt') \<and>
    demoted report = length (filter (\<lambda>x. aged (rs_pinned (rt_store rt)) rt now x = SDecaying \<and> rx_status x \<noteq> SDecaying)
      (rs_all (rt_store rt))) \<and>
    (status_in rt' i = Some SActive \<longrightarrow> status_in rt i = Some SActive) \<and>
    (rs_is_pinned (rt_store rt) i \<longrightarrow> rs_get (rt_store rt') i = rs_get (rt_store rt) i)"
proof -
  let ?s = "rt_store rt"
  obtain s dem dis where f: "fold (tick_one rt now) (map rx_id (rs_all ?s)) (?s, 0, 0) = (s, dem, dis)" by (metis prod_cases3)
  from assms(2) f have rt': "rt_store rt' = s" "demoted report = dem"
    by (auto simp: runtime_tick_def Let_def split: prod.splits)
  note t = tick_fold [OF assms(1) rs_ids_distinct(2) [OF assms(1)] f]
  have mem: "j \<in> rx_id ` set (rs_all ?s)" if "rs_get ?s j = Some x" for j x
  proof -
    from that have "(j, x) \<in> set (rs_experiences ?s)" by (auto simp: rs_get_def bt_get_def dest: map_of_SomeD)
    then have "j \<in> set (map fst (rs_experiences ?s))" by force
    then show ?thesis unfolding rs_ids_distinct(1) [OF assms(1), symmetric] by simp
  qed
  have get: "rs_get s j = map_option (\<lambda>x. x\<lparr>rx_status := aged (rs_pinned ?s) rt now x\<rparr>) (rs_get ?s j)" for j
    using t mem [of j] by (cases "rs_get ?s j") auto
  have "filter (\<lambda>i. case rs_get ?s i of Some x \<Rightarrow> aged (rs_pinned ?s) rt now x = SDecaying \<and> rx_status x \<noteq> SDecaying | None \<Rightarrow> False)
      (map rx_id (rs_all ?s)) =
      map rx_id (filter (\<lambda>x. aged (rs_pinned ?s) rt now x = SDecaying \<and> rx_status x \<noteq> SDecaying) (rs_all ?s))"
    unfolding filter_map comp_def using rs_all_get [OF assms(1)] by (intro arg_cong [where f = "map rx_id"] filter_cong) simp_all
  with t have "dem = length (filter (\<lambda>x. aged (rs_pinned ?s) rt now x = SDecaying \<and> rx_status x \<noteq> SDecaying) (rs_all ?s))" by simp
  moreover have "status_in rt' i = Some SActive \<longrightarrow> status_in rt i = Some SActive"
    using get [of i] rt' by (cases "rs_get ?s i") (auto simp: status_in_def aged_def Let_def split: option.splits if_splits)
  moreover have "rs_get s i = rs_get ?s i" if "rs_is_pinned ?s i"
  proof (cases "rs_get ?s i")
    case (Some x)
    then have "rx_id x = i" using assms(1) by (simp add: rs_ok_def rs_get_def)
    with Some get [of i] that show ?thesis by (simp add: aged_def Let_def rs_is_pinned_def)
  qed (simp add: get)
  ultimately show ?thesis using t get rt' by simp
qed


definition demo_used_runtime :: ExperienceRuntime where
  "demo_used_runtime = demo_runtime\<lparr>rt_counters := [(''x1'', ConfidenceCounters_default\<lparr>last_used := Some 0\<rparr>)]\<rparr>"

theorem tick_exact_witness:
  "\<exists>report rt' fs'. runtime_tick (\<lambda>_. []) (31 * 86400) (demo_used_runtime, demo_fs) = (report, rt', fs') \<and>
     status_in rt' ''x1'' = Some SDecaying"
proof -
  obtain report rt' fs' where t: "runtime_tick (\<lambda>_. []) (31 * 86400) (demo_used_runtime, demo_fs) = (report, rt', fs')"
    by (metis prod_cases3)
  have ok: "rs_ok (rt_store demo_used_runtime)" using demo_runtime_ok by (simp add: demo_used_runtime_def)
  have x: "rs_get (rt_store demo_used_runtime) ''x1'' = Some demo_bypass_rx"
    by (simp add: demo_used_runtime_def demo_runtime_def demo_bypass_rx_def demo_rx_def)
  have "aged (rs_pinned (rt_store demo_used_runtime)) demo_used_runtime (31 * 86400) demo_bypass_rx = SDecaying"
    by (simp add: aged_def Let_def last_use_def bt_get_def demo_used_runtime_def demo_runtime_def RunStore_new_def
        demo_bypass_rx_def demo_rx_def)
  with tick_exact [OF ok t, of "''x1''"] x have "status_in rt' ''x1'' = Some SDecaying" by (simp add: status_in_def)
  with t show ?thesis by blast
qed

section \<open>Admission\<close>

lemma observe_draft:
  assumes "observe now t confirmed l = (Some d, l')"
  shows "tr_outcome t = TraceSuccess" and "trace_has_success_evidence t"
    and "rx_id (draft_experience d) = candidate_id (signature_of t)"
    and "rx_status (draft_experience d) =
      (if confirmed \<and> length (rx_steps (draft_experience d)) \<le> MAX_AUTO_CONFIRM_STEPS then SValidated else SCandidate)"
  using assms by (auto simp: observe_def Let_def build_draft_def split: TraceOutcome.splits if_splits)

lemma complete_draft_fields [simp]:
  "rx_id (draft_experience (complete_draft t d)) = rx_id (draft_experience d)"
  "rx_status (draft_experience (complete_draft t d)) = rx_status (draft_experience d)"
  "rx_steps (draft_experience (complete_draft t d)) = rx_steps (draft_experience d)"
  "rx_conditions (draft_experience (complete_draft t d)) =
     merge_conditions (rx_conditions (draft_experience d)) (conditions_from_snapshot (tr_environment_snapshot t))"
  by (simp_all add: complete_draft_def Let_def split: option.split)

text \<open>Admission is guarded. A trace is admitted only when the system is enabled and the trace succeeded
  with evidence; the admitted experience is structurally valid and carries every condition derived
  from the environment in which the trace succeeded; without a distiller its identifier is that of
  the task, it is validated only if the user confirmed a run of at most 20 steps and a candidate
  otherwise, and it is never active; unless the user forces it, it replaces a validated or active
  experience only by a strictly shorter workflow; everything else in the store is untouched, and a
  refused trace changes neither the store nor the disk.\<close>

theorem admission_guarded:
  assumes "admit_trace encode now t confirmed force (rt, fs) = (r, rt', fs')"
  shows "case r of
      None \<Rightarrow> rt_store rt' = rt_store rt \<and> fs' = fs
    | Some d \<Rightarrow>
        \<not> rt_disabled rt \<and> tr_outcome t = TraceSuccess \<and> trace_has_success_evidence t \<and>
        rx_validate (draft_experience d) = Inr () \<and>
        rt_store rt' = rs_upsert (draft_experience d) (rt_store rt) \<and>
        set (conditions_from_snapshot (tr_environment_snapshot t)) \<subseteq> set (rx_conditions (draft_experience d)) \<and>
        (force \<or> is_improvement (rt_store rt) (draft_experience d)) \<and>
        (rt_compiler rt = None \<longrightarrow>
           rx_id (draft_experience d) = candidate_id (signature_of t) \<and>
           rx_status (draft_experience d) =
             (if confirmed \<and> length (rx_steps (draft_experience d)) \<le> 20 then SValidated else SCandidate))"
proof (cases "rt_disabled rt")
  case True
  with assms show ?thesis by (auto simp: admit_trace_def)
next
  case False
  obtain o' l where o: "observe now t confirmed (rt_learner rt) = (o', l)" by fastforce
  show ?thesis
  proof (cases o')
    case None
    with False assms o show ?thesis by (auto simp: admit_trace_def)
  next
    case (Some d0)
    let ?rt = "rt\<lparr>rt_learner := l\<rparr>"
    let ?d = "complete_draft t (distil_draft ?rt t d0)"
    note ob = observe_draft [OF o [unfolded Some]]
    have nc: "distil_draft ?rt t d0 = d0" if "rt_compiler rt = None" using that by (simp add: distil_draft_def)
    show ?thesis
    proof (cases "rx_validate (draft_experience ?d)")
      case (Inl err)
      with False assms o Some show ?thesis
        by (auto simp: admit_trace_def Let_def upsert_validated_def split: if_splits)
    next
      case (Inr u)
      with False assms o Some ob nc show ?thesis
        by (cases "rt_compiler rt")
          (auto simp: admit_trace_def Let_def upsert_validated_def merge_conditions_set MAX_AUTO_CONFIRM_STEPS_def split: if_splits)
    qed
  qed
qed

definition demo_run_trace :: ExperienceTrace where
  "demo_run_trace = \<lparr>tr_task = ''sort mail'', tr_actions = [\<lparr>ta_name = ''a'', ta_args = JNull\<rparr>], tr_steps = [],
     tr_environment_snapshot = None, tr_final_evidence = Some ''ok'', tr_outcome = TraceSuccess, tr_llm_used = True\<rparr>"

lemma demo_run_trace_facts:
  "signature_of demo_run_trace = ''sort mail''" "draft_keywords (tr_task demo_run_trace) = [''sort'', ''mail'']"
  by code_simp+

theorem admission_guarded_witness:
  "\<exists>d rt' fs'. admit_trace (\<lambda>_. []) 7 demo_run_trace True False (demo_runtime, demo_fs) = (Some d, rt', fs') \<and>
     rx_status (draft_experience d) \<noteq> SActive \<and> rs_get (rt_store rt') (candidate_id (signature_of demo_run_trace)) = Some (draft_experience d)"
proof -
  obtain r rt' fs' where a: "admit_trace (\<lambda>_. []) 7 demo_run_trace True False (demo_runtime, demo_fs) = (r, rt', fs')"
    by (metis prod_cases3)
  have l: "rt_learner demo_runtime = ExperienceLearner_new 2" "\<not> rt_disabled demo_runtime" "rt_compiler demo_runtime = None"
    "rs_get (rt_store demo_runtime) (candidate_id ''sort mail'') = None"
    by (simp_all add: demo_runtime_def ExperienceRuntime_default_def rs_get_def rs_upsert_def RunStore_new_def
        demo_bypass_rx_def demo_rx_def bt_get_def candidate_id_def)
  let ?d = "build_draft 7 demo_run_trace (candidate_id ''sort mail'') True"
  have pr: "prune_actions (tr_actions demo_run_trace) = tr_actions demo_run_trace"
    by (simp add: demo_run_trace_def prune_actions_def is_noise_def)
  have o: "fst (observe 7 demo_run_trace True (rt_learner demo_runtime)) = Some ?d"
    using pr by (simp add: observe_def demo_run_trace_facts Let_def MAX_AUTO_CONFIRM_STEPS_def)
      (simp add: demo_run_trace_def trace_has_success_evidence_def Let_def MAX_AUTO_CONFIRM_STEPS_def)
  have k: "draft_keywords ''sort mail'' = [''sort'', ''mail'']" using demo_run_trace_facts(2) by (simp add: demo_run_trace_def)
  have v: "rx_validate (draft_experience (complete_draft demo_run_trace ?d)) = Inr ()"
    by (simp add: rx_validate_def complete_draft_def Let_def build_draft_def k demo_run_trace_def trigger_has_signal_def
        USER_CONFIRMED_CONFIDENCE_def trim_str_def trim_start_def trim_end_def is_whitespace_def)
  have "r \<noteq> None"
    using a o v l unfolding admit_trace_def
    by (auto simp: Let_def distil_draft_def upsert_validated_def is_improvement_def build_draft_def split: prod.splits option.splits)
  with admission_guarded [OF a] a l show ?thesis
    by auto
qed


lemma admit_auto_run:
  assumes "x' = (case rs_get (rt_store rt) (rx_id x) of Some old \<Rightarrow> x\<lparr>rx_version := sat_inc32 (rx_version old)\<rparr> | None \<Rightarrow> x)"
  shows "admit_auto_experience encode x (rt, fs) =
     (case upsert_validated x' (rt_store rt) of
          Inl e \<Rightarrow> (Inl (Inl e), rt, fs)
        | Inr s \<Rightarrow>
            (case rs_transition (rx_id x') LcActivate s of
               (Inl e, s') \<Rightarrow> (Inl (Inr e), rt\<lparr>rt_store := s'\<rparr>, fs)
             | (Inr st, s') \<Rightarrow> (Inr st, rt\<lparr>rt_store := s'\<rparr>, persist encode (rt\<lparr>rt_store := s'\<rparr>) fs)))"
  unfolding admit_auto_experience_def assms Let_def by simp

text \<open>Automatic activation succeeds only from a usable status, and its failure is not atomic. A distilled
  experience is activated exactly when it is structurally valid and arrives validated or decaying;
  it then replaces the stored one under the next version and is active. An invalid one changes
  nothing. One that is valid but cannot be activated is reported as an error, yet has already
  replaced the stored experience in memory, while the file keeps the old one.\<close>

theorem auto_admission_outcome:
  assumes "admit_auto_experience encode x (rt, fs) = (r, rt', fs')"
    and "x' = (case rs_get (rt_store rt) (rx_id x) of Some old \<Rightarrow> x\<lparr>rx_version := sat_inc32 (rx_version old)\<rparr> | None \<Rightarrow> x)"
  shows "case r of
      Inr st \<Rightarrow> st = SActive \<and> rx_validate x' = Inr () \<and> (rx_status x = SValidated \<or> rx_status x = SDecaying) \<and>
        rs_get (rt_store rt') (rx_id x) = Some (x'\<lparr>rx_status := SActive\<rparr>) \<and> fs' = persist encode rt' fs
    | Inl (Inl err) \<Rightarrow> rx_validate x' = Inl err \<and> rt' = rt \<and> fs' = fs
    | Inl (Inr err) \<Rightarrow> rx_validate x' = Inr () \<and> rx_status x \<noteq> SValidated \<and> rx_status x \<noteq> SDecaying \<and>
        rs_get (rt_store rt') (rx_id x) = Some x' \<and> fs' = fs"
proof -
  have id: "rx_id x' = rx_id x" "rx_status x' = rx_status x" using assms(2) by (auto split: option.split)
  note run = admit_auto_run [OF assms(2)]
  have tr: "rs_transition (rx_id x') LcActivate (rs_upsert x' (rt_store rt)) =
     (if rx_status x = SValidated \<or> rx_status x = SDecaying
      then (Inr SActive, (rs_upsert x' (rt_store rt))\<lparr>rs_experiences := bt_insert (rx_id x') (x'\<lparr>rx_status := SActive\<rparr>) (rs_experiences (rs_upsert x' (rt_store rt)))\<rparr>)
      else (Inl (IllegalTransition (rx_status x) LcActivate), rs_upsert x' (rt_store rt)))"
    by (cases "rx_status x") (simp_all add: rs_transition_def id)
  show ?thesis
  proof (cases "rx_validate x'")
    case (Inl err)
    with assms(1) show ?thesis unfolding run by (auto simp: upsert_validated_def)
  next
    case (Inr u)
    then have u: "upsert_validated x' (rt_store rt) = Inr (rs_upsert x' (rt_store rt))" by (simp add: upsert_validated_def)
    from assms(1) show ?thesis
      unfolding run u sum.case tr using Inr id
      by (auto simp: rs_get_def [symmetric] map_simps split: if_splits) (simp_all add: rs_get_def map_simps id)
  qed
qed

theorem auto_admission_outcome_witness:
  "\<exists>rt' fs'. admit_auto_experience (\<lambda>_. []) (demo_rx\<lparr>rx_status := SCandidate\<rparr>) (demo_runtime, demo_fs) =
     (Inl (Inr (IllegalTransition SCandidate LcActivate)), rt', fs') \<and>
     rs_get (rt_store rt') ''x1'' = Some (demo_rx\<lparr>rx_status := SCandidate, rx_version := 2\<rparr>) \<and> fs' = demo_fs"
proof -
  let ?x = "demo_rx\<lparr>rx_status := SCandidate\<rparr>" and ?y = "demo_rx\<lparr>rx_status := SCandidate, rx_version := 2\<rparr>"
  have old: "rs_get (rt_store demo_runtime) (rx_id ?x) = Some demo_bypass_rx"
    by (simp add: demo_runtime_def demo_bypass_rx_def demo_rx_def)
  have y: "?y = (case rs_get (rt_store demo_runtime) (rx_id ?x) of
      Some old \<Rightarrow> ?x\<lparr>rx_version := sat_inc32 (rx_version old)\<rparr> | None \<Rightarrow> ?x)"
    unfolding old by (simp add: demo_bypass_rx_def demo_rx_def sat_inc32_def)
  have v: "rx_validate ?y = Inr ()"
    by (simp add: rx_validate_def demo_rx_def trigger_has_signal_def trim_str_def trim_start_def trim_end_def is_whitespace_def)
  obtain r rt' fs' where a: "admit_auto_experience (\<lambda>_. []) ?x (demo_runtime, demo_fs) = (r, rt', fs')" by (metis prod_cases3)
  have r: "r = Inl (Inr (IllegalTransition SCandidate LcActivate))"
    using a v unfolding admit_auto_run [OF y]
    by (simp add: upsert_validated_def rs_transition_def split: prod.splits)
  from auto_admission_outcome [OF a y] a r show ?thesis by (simp add: demo_rx_def)
qed

end
