(* ===== verification/Management.thy ===== *)
theory Management
  imports Containment Runtime_Lifecycle
begin

text \<open>
  The management plane of the Codex integration (\<open>codex-rs/core/src/experience_management.rs\<close> and
  \<open>experience_paths.rs\<close>): where the store lives and in which envelope, the usage file with its audit
  trail, and the service behind the management page, which serves a canonical store through
  theory \<open>Store\<close> and a legacy one through the store of theory \<open>Runtime_Lifecycle\<close>. The serde encodings are
  the record \<open>MgmtCodecs\<close>; the environment is a function from names to values; the clock is an argument of
  each operation. An \<open>anyhow\<close> error is the value it was made from. The confidence of a request is a
  rational number.
\<close>

section \<open>Where the store lives\<close>

definition STORE_PATH_ENV :: string where "STORE_PATH_ENV = ''EXPERIENCE_GATE_STORE''"

definition home_store_path :: "path \<Rightarrow> path" where
  "home_store_path codex_home = path_join (path_join codex_home ''experience'') ''store.json''"

definition resolve_store_path :: "(string \<Rightarrow> string option) \<Rightarrow> path \<Rightarrow> path" where
  "resolve_store_path vars codex_home =
     (case vars STORE_PATH_ENV of
        Some p \<Rightarrow> (if p \<noteq> [] then path_of_text p else home_store_path codex_home)
      | None \<Rightarrow> home_store_path codex_home)"

datatype StoreFormat = FmtMissing | FmtCanonical | FmtLegacy | FmtUnknown

fun format_label :: "StoreFormat \<Rightarrow> string" where
  "format_label FmtMissing = ''missing''"
| "format_label FmtCanonical = ''canonical''"
| "format_label FmtLegacy = ''legacy''"
| "format_label FmtUnknown = ''unknown''"

definition detect_format :: "(string \<Rightarrow> json option) \<Rightarrow> fsys \<Rightarrow> path \<Rightarrow> StoreFormat" where
  "detect_format parse fs p =
     (case fs_read_to_string fs p of
        Inl _ \<Rightarrow> (if fs_exists fs p then FmtUnknown else FmtMissing)
      | Inr raw \<Rightarrow>
          (case parse raw of
             None \<Rightarrow> FmtUnknown
           | Some v \<Rightarrow>
               (if json_get v ''schema_version'' \<noteq> None then FmtCanonical
                else if json_get v ''experiences'' \<noteq> None \<or> json_get v ''pinned'' \<noteq> None then FmtLegacy
                else FmtUnknown)))"

section \<open>The usage file\<close>

record MgmtUsageLog = UsageLog +
  ul_template_audit :: "TemplateBindingAudit option"

record MgmtUsageEntry =
  me_last_used :: "nat option"
  me_hits :: nat
  me_misfires :: nat
  me_invalid_failures :: nat
  me_decisions :: "nat btree"
  me_logs :: "MgmtUsageLog list"

record ExperienceUsageStore =
  mu_entries :: "MgmtUsageEntry btree"
  mu_audit_trail :: "AuditEntry list"
  mu_path :: "path option"

datatype UsageOutcome = UsageSuccess | UsageMisfire | UsageInvalid

definition MgmtUsageEntry_default :: MgmtUsageEntry where
  "MgmtUsageEntry_default =
     \<lparr>me_last_used = None, me_hits = 0, me_misfires = 0, me_invalid_failures = 0, me_decisions = [], me_logs = []\<rparr>"

definition ExperienceUsageStore_default :: ExperienceUsageStore where
  "ExperienceUsageStore_default = \<lparr>mu_entries = [], mu_audit_trail = [], mu_path = None\<rparr>"

text \<open>The decoders and printers of \<open>serde_json\<close>; where the source handles a failure, the printer may fail.\<close>

record MgmtCodecs =
  mc_value :: "string \<Rightarrow> json option"
  mc_store_parse :: "string \<Rightarrow> string + StoreFile"
  mc_store_print :: "StoreFile \<Rightarrow> string"
  mc_legacy_parse :: "string \<Rightarrow> RunStoreSnapshot option"
  mc_legacy_print :: "RunStoreSnapshot \<Rightarrow> string"
  mc_usage_parse :: "string \<Rightarrow> ExperienceUsageStore option"
  mc_usage_print :: "ExperienceUsageStore \<Rightarrow> string option"
  mc_trash_parse :: "string \<Rightarrow> RunExperience list option"
  mc_trash_print :: "RunExperience list \<Rightarrow> string + string"
  mc_run_parse :: "string \<Rightarrow> string + RunExperience"
  mc_run_print :: "RunExperience \<Rightarrow> string + string"
  mc_exp_parse :: "string \<Rightarrow> string + Experience"
  mc_exp_print :: "Experience \<Rightarrow> string + string"
  mc_tmpl_print :: "ExperienceTemplate \<Rightarrow> string + string"
  mc_applicability :: "json \<Rightarrow> string + Applicability"
  mc_condition :: "json \<Rightarrow> string + ExperienceCondition"

definition mu_load :: "MgmtCodecs \<Rightarrow> fsys \<Rightarrow> path \<Rightarrow> ExperienceUsageStore" where
  "mu_load mc fs p =
     (case fs_read_to_string fs p of
        Inr raw \<Rightarrow> (case mc_usage_parse mc raw of Some u \<Rightarrow> u | None \<Rightarrow> ExperienceUsageStore_default)
      | Inl _ \<Rightarrow> ExperienceUsageStore_default)\<lparr>mu_path := Some p\<rparr>"

definition mu_save :: "MgmtCodecs \<Rightarrow> ExperienceUsageStore \<Rightarrow> path \<Rightarrow> fsys \<Rightarrow> fsys \<times> bool" where
  "mu_save mc u p fs =
     (case mc_usage_print mc u of
        None \<Rightarrow> (fs, False)
      | Some raw \<Rightarrow> (case fs_write_bytes fs p raw of Inr fs' \<Rightarrow> (fs', True) | Inl _ \<Rightarrow> (fs, False)))"

definition mu_persist :: "MgmtCodecs \<Rightarrow> ExperienceUsageStore \<Rightarrow> fsys \<Rightarrow> fsys" where
  "mu_persist mc u fs = (case mu_path u of Some p \<Rightarrow> fst (mu_save mc u p fs) | None \<Rightarrow> fs)"

definition mu_entry :: "ExperienceUsageStore \<Rightarrow> string \<Rightarrow> MgmtUsageEntry" where
  "mu_entry u i = (case bt_get (mu_entries u) i of Some e \<Rightarrow> e | None \<Rightarrow> MgmtUsageEntry_default)"

text \<open>The counter of a band is a plain \<open>u32\<close> addition, the other counters saturate.\<close>

definition log_managed :: "MgmtUsageLog \<Rightarrow> MgmtUsageEntry \<Rightarrow> MgmtUsageEntry" where
  "log_managed l e =
     (let logs = me_logs e @ [l]
      in \<lparr>me_last_used = Some (ul_at l), me_hits = sat_inc32 (me_hits e),
          me_misfires = (if ul_outcome l = Some ''misfire'' then sat_inc32 (me_misfires e) else me_misfires e),
          me_invalid_failures =
            (if ul_outcome l = Some ''invalid'' then sat_inc32 (me_invalid_failures e) else me_invalid_failures e),
          me_decisions =
            bt_insert (ul_band l)
              (((case bt_get (me_decisions e) (ul_band l) of Some n \<Rightarrow> n | None \<Rightarrow> 0) + 1) mod 2 ^ 32) (me_decisions e),
          me_logs = (if length logs > MAX_LOGS then drop (length logs - MAX_LOGS) logs else logs)\<rparr>)"

definition record_logged_with_audit :: "string \<Rightarrow> MgmtUsageLog \<Rightarrow> ExperienceUsageStore \<Rightarrow> ExperienceUsageStore" where
  "record_logged_with_audit i l u = u\<lparr>mu_entries := bt_insert i (log_managed l (mu_entry u i)) (mu_entries u)\<rparr>"

definition mu_record_logged :: "string \<Rightarrow> UsageLog \<Rightarrow> ExperienceUsageStore \<Rightarrow> ExperienceUsageStore" where
  "mu_record_logged i l u = record_logged_with_audit i (UsageLog.extend l (MgmtUsageLog.fields None)) u"

fun usage_outcome_text :: "UsageOutcome \<Rightarrow> string" where
  "usage_outcome_text UsageSuccess = ''success''"
| "usage_outcome_text UsageMisfire = ''misfire''"
| "usage_outcome_text UsageInvalid = ''invalid''"

definition mu_record :: "string \<Rightarrow> string \<Rightarrow> UsageOutcome \<Rightarrow> nat \<Rightarrow> ExperienceUsageStore \<Rightarrow> ExperienceUsageStore" where
  "mu_record i band oc now u =
     mu_record_logged i
       \<lparr>ul_at = now, ul_band = band, ul_outcome = Some (usage_outcome_text oc), ul_thread_id = None, ul_turn_id = None,
        ul_process = ''management'', ul_task = None\<rparr> u"

definition MAX_AUDIT :: nat where "MAX_AUDIT = 500"

definition mu_audit :: "string \<Rightarrow> string \<Rightarrow> string \<Rightarrow> string \<Rightarrow> nat \<Rightarrow> ExperienceUsageStore \<Rightarrow> ExperienceUsageStore" where
  "mu_audit action i by remark now u =
     (let trail = mu_audit_trail u @ [\<lparr>audit_at = now, audit_action = action, audit_id = i, audit_by = by, audit_note = remark\<rparr>]
      in u\<lparr>mu_audit_trail := (if length trail > MAX_AUDIT then drop (length trail - MAX_AUDIT) trail else trail)\<rparr>)"

section \<open>The health report\<close>

record StoreDoctor =
  doc_path :: path
  doc_format :: StoreFormat
  doc_experiences :: nat
  doc_templates :: nat
  doc_pinned :: nat
  doc_usage_entries :: nat
  doc_home_path :: path
  doc_home_format :: StoreFormat
  doc_override_active :: bool
  doc_drift :: "string option"

definition is_healthy :: "StoreDoctor \<Rightarrow> bool" where
  "is_healthy d \<longleftrightarrow> doc_drift d = None \<and> doc_format d \<noteq> FmtUnknown"

fun object_size :: "json \<Rightarrow> nat option" where
  "object_size (JObject m) = Some (length m)"
| "object_size _ = None"

definition read_usage_entries :: "MgmtCodecs \<Rightarrow> fsys \<Rightarrow> path \<Rightarrow> nat" where
  "read_usage_entries mc fs p =
     (case path_parent p of
        None \<Rightarrow> 0
      | Some d \<Rightarrow>
          (case fs_read_to_string fs (path_join d ''usage.json'') of
             Inl _ \<Rightarrow> 0
           | Inr raw \<Rightarrow>
               (case Option.bind (Option.bind (mc_value mc raw) (\<lambda>v. json_get v ''entries'')) object_size of
                  Some n \<Rightarrow> n
                | None \<Rightarrow> 0)))"

definition store_counts :: "MgmtCodecs \<Rightarrow> fsys \<Rightarrow> path \<Rightarrow> StoreFormat \<Rightarrow> nat \<times> nat \<times> nat" where
  "store_counts mc fs p fmt =
     (case fmt of
        FmtCanonical \<Rightarrow>
          (case store_open (mc_store_parse mc) fs p of
             Inr s \<Rightarrow> (store_len s, length (templates s), length (Store.pinned s))
           | Inl _ \<Rightarrow> (0, 0, 0))
      | _ \<Rightarrow> (0, 0, 0))"

definition store_drift :: "path \<Rightarrow> StoreFormat \<Rightarrow> path \<Rightarrow> StoreFormat \<Rightarrow> string option" where
  "store_drift p fmt home home_fmt =
     (if p \<noteq> home then
        (if home_fmt = FmtMissing then None
         else Some (''override store is active ('' @ path_text p @ '') but a home store also exists ('' @ path_text home @
           '', '' @ format_label home_fmt @
           ''); management and execution resolve to the override, so the home store is stale''))
      else case fmt of
        FmtLegacy \<Rightarrow> Some (''the home store is in the legacy envelope; the execution plane only reads '' @
          ''the canonical envelope, so nothing here can take over'')
      | FmtUnknown \<Rightarrow> Some ''the home store could not be parsed''
      | _ \<Rightarrow> None)"

definition doctor_for_store :: "MgmtCodecs \<Rightarrow> fsys \<Rightarrow> path \<Rightarrow> path \<Rightarrow> StoreDoctor" where
  "doctor_for_store mc fs p home =
     (let fmt = detect_format (mc_value mc) fs p; home_fmt = detect_format (mc_value mc) fs home
      in case store_counts mc fs p fmt of
           (ne, nt, np) \<Rightarrow>
             \<lparr>doc_path = p, doc_format = fmt, doc_experiences = ne, doc_templates = nt, doc_pinned = np,
              doc_usage_entries = read_usage_entries mc fs p, doc_home_path = home, doc_home_format = home_fmt,
              doc_override_active = (p \<noteq> home), doc_drift = store_drift p fmt home home_fmt\<rparr>)"

definition doctor :: "MgmtCodecs \<Rightarrow> (string \<Rightarrow> string option) \<Rightarrow> fsys \<Rightarrow> path \<Rightarrow> StoreDoctor" where
  "doctor mc vars fs codex_home = doctor_for_store mc fs (resolve_store_path vars codex_home) (home_store_path codex_home)"


section \<open>The service\<close>

datatype MgmtError =
    MgmtText string
  | MgmtStore StoreError
  | MgmtLifecycle LifecycleError
  | MgmtInvalid ExperienceValidationError
  | MgmtJson string
  | MgmtIo io_error

record ExperienceManagementService =
  sv_store_path :: path
  sv_usage_path :: path
  sv_trash_path :: path
  sv_store :: RunStore
  sv_canonical :: "ExperienceStore option"
  sv_format :: StoreFormat
  sv_usage :: ExperienceUsageStore

type_synonym 'a mgmt = "ExperienceManagementService \<Rightarrow> fsys \<Rightarrow> (MgmtError + 'a) \<times> ExperienceManagementService \<times> fsys"

definition load_store :: "MgmtCodecs \<Rightarrow> fsys \<Rightarrow> path \<Rightarrow> RunStore" where
  "load_store mc fs p = (case rs_load (mc_legacy_parse mc) p fs of Inr s \<Rightarrow> s | Inl _ \<Rightarrow> RunStore_new)"

definition service_open :: "MgmtCodecs \<Rightarrow> fsys \<Rightarrow> path \<Rightarrow> ExperienceManagementService" where
  "service_open mc fs p =
     (let d = (case path_parent p of Some d \<Rightarrow> d | None \<Rightarrow> []);
          fmt = detect_format (mc_value mc) fs p;
          canonical = (if fmt = FmtCanonical then
                         (case store_open (mc_store_parse mc) fs p of Inr s \<Rightarrow> Some s | Inl _ \<Rightarrow> None)
                       else None)
      in \<lparr>sv_store_path = p, sv_usage_path = path_join d ''usage.json'', sv_trash_path = path_join d ''trash.json'',
          sv_store = (if canonical \<noteq> None then RunStore_new else load_store mc fs p),
          sv_canonical = canonical, sv_format = fmt, sv_usage = mu_load mc fs (path_join d ''usage.json'')\<rparr>)"

definition service_open_default :: "MgmtCodecs \<Rightarrow> (string \<Rightarrow> string option) \<Rightarrow> path option \<Rightarrow> fsys \<Rightarrow> (MgmtError + ExperienceManagementService) \<times> fsys" where
  "service_open_default mc vars codex_home fs =
     (case codex_home of
        None \<Rightarrow> (Inl (MgmtText ''no codex home''), fs)
      | Some home \<Rightarrow>
          (case fs_create_dir_all fs (path_join home ''experience'') of
             Inl e \<Rightarrow> (Inl (MgmtIo e), fs)
           | Inr fs' \<Rightarrow> (Inr (service_open mc fs' (resolve_store_path vars home)), fs')))"

definition backend :: "ExperienceManagementService \<Rightarrow> StoreFormat" where
  "backend sv = sv_format sv"

definition reload :: "MgmtCodecs \<Rightarrow> fsys \<Rightarrow> ExperienceManagementService \<Rightarrow> ExperienceManagementService" where
  "reload mc fs sv =
     (if sv_canonical sv \<noteq> None then
        sv\<lparr>sv_canonical := (case store_open (mc_store_parse mc) fs (sv_store_path sv) of
              Inr s \<Rightarrow> Some s | Inl _ \<Rightarrow> sv_canonical sv),
           sv_usage := mu_load mc fs (sv_usage_path sv)\<rparr>
      else sv\<lparr>sv_store := load_store mc fs (sv_store_path sv), sv_usage := mu_load mc fs (sv_usage_path sv)\<rparr>)"

definition save_canonical :: "MgmtCodecs \<Rightarrow> ExperienceStore \<Rightarrow> ExperienceUsageStore \<Rightarrow> path \<Rightarrow> fsys \<Rightarrow> fsys" where
  "save_canonical mc store u p fs = mu_persist mc u (fst (save_to_path (mc_store_print mc) fs store p))"

definition save_legacy :: "MgmtCodecs \<Rightarrow> RunStore \<Rightarrow> path \<Rightarrow> fsys \<Rightarrow> fsys" where
  "save_legacy mc store p fs = (case rs_save (mc_legacy_print mc) store p fs of Inr fs' \<Rightarrow> fs' | Inl _ \<Rightarrow> fs)"

definition service_persist :: "MgmtCodecs \<Rightarrow> ExperienceManagementService \<Rightarrow> fsys \<Rightarrow> fsys" where
  "service_persist mc sv fs =
     (case sv_canonical sv of
        Some store \<Rightarrow> save_canonical mc store (sv_usage sv) (sv_store_path sv) fs
      | None \<Rightarrow> mu_persist mc (sv_usage sv) (save_legacy mc (sv_store sv) (sv_store_path sv) fs))"

text \<open>Record what was done, write the files, and answer.\<close>

definition commit :: "MgmtCodecs \<Rightarrow> nat \<Rightarrow> string \<Rightarrow> string \<Rightarrow> string \<Rightarrow> string \<Rightarrow> 'a \<Rightarrow> 'a mgmt" where
  "commit mc now action i by remark r sv fs =
     (let sv' = sv\<lparr>sv_usage := mu_audit action i by remark now (sv_usage sv)\<rparr>
      in (Inr r, sv', service_persist mc sv' fs))"

definition not_found :: "string \<Rightarrow> MgmtError" where
  "not_found i = MgmtText (''experience not found: '' @ i)"

definition not_pinned :: "string \<Rightarrow> MgmtError" where
  "not_pinned i = MgmtText (''experience not pinned: '' @ i)"

definition pin_note :: string where "pin_note = ''never-forget privilege granted''"

definition unpin_note :: string where "unpin_note = ''never-forget privilege revoked''"

definition canonical_pin :: "MgmtCodecs \<Rightarrow> nat \<Rightarrow> string \<Rightarrow> string \<Rightarrow> ExperienceStore \<Rightarrow> unit mgmt" where
  "canonical_pin mc now i by store sv fs =
     (case Store.pin i store of
        Inl e \<Rightarrow> (Inl (MgmtStore e), sv, fs)
      | Inr store' \<Rightarrow> commit mc now ''pin'' i by pin_note () (sv\<lparr>sv_canonical := Some store'\<rparr>) fs)"

definition service_pin :: "MgmtCodecs \<Rightarrow> nat \<Rightarrow> string \<Rightarrow> string \<Rightarrow> unit mgmt" where
  "service_pin mc now i by sv0 fs =
     (let sv = reload mc fs sv0
      in case sv_canonical sv of
           Some store \<Rightarrow> canonical_pin mc now i by store sv fs
         | None \<Rightarrow>
             (case rs_pin i (sv_store sv) of
                (False, _) \<Rightarrow> (Inl (not_found i), sv, fs)
              | (True, store') \<Rightarrow> commit mc now ''pin'' i by pin_note () (sv\<lparr>sv_store := store'\<rparr>) fs))"

definition canonical_unpin :: "MgmtCodecs \<Rightarrow> nat \<Rightarrow> string \<Rightarrow> string \<Rightarrow> ExperienceStore \<Rightarrow> unit mgmt" where
  "canonical_unpin mc now i by store sv fs =
     (if \<not> Store.is_pinned store i then (Inl (not_pinned i), sv, fs)
      else case Store.unpin i store of
        Inl e \<Rightarrow> (Inl (MgmtStore e), sv, fs)
      | Inr store' \<Rightarrow> commit mc now ''unpin'' i by unpin_note () (sv\<lparr>sv_canonical := Some store'\<rparr>) fs)"

definition service_unpin :: "MgmtCodecs \<Rightarrow> nat \<Rightarrow> string \<Rightarrow> string \<Rightarrow> unit mgmt" where
  "service_unpin mc now i by sv0 fs =
     (let sv = reload mc fs sv0
      in case sv_canonical sv of
           Some store \<Rightarrow> canonical_unpin mc now i by store sv fs
         | None \<Rightarrow>
             (case rs_unpin i (sv_store sv) of
                (False, store') \<Rightarrow> (Inl (not_pinned i), sv\<lparr>sv_store := store'\<rparr>, fs)
              | (True, store') \<Rightarrow> commit mc now ''unpin'' i by unpin_note () (sv\<lparr>sv_store := store'\<rparr>) fs))"

section \<open>Status changes\<close>

fun legacy_status :: "ExperienceStatus \<Rightarrow> LifeStatus" where
  "legacy_status Draft = SNew"
| "legacy_status Candidate = SCandidate"
| "legacy_status Validated = SValidated"
| "legacy_status Active = SActive"
| "legacy_status Decaying = SDecaying"
| "legacy_status Disabled = SDisabled"

fun action_debug :: "LifecycleAction \<Rightarrow> string" where
  "action_debug LcValidate = ''Validate''"
| "action_debug LcActivate = ''Activate''"
| "action_debug LcDisable = ''Disable''"
| "action_debug LcRevalidate = ''Revalidate''"

definition current_canonical_status :: "ExperienceStore \<Rightarrow> string \<Rightarrow> MgmtError + ExperienceStatus" where
  "current_canonical_status store i =
     (case store_get store i of
        Some e \<Rightarrow> Inr (exp_status e)
      | None \<Rightarrow> (case template store i of Some t \<Rightarrow> Inr (tmpl_status t) | None \<Rightarrow> Inl (not_found i)))"

definition transition_any :: "string \<Rightarrow> QualificationAction \<Rightarrow> ExperienceStore \<Rightarrow> MgmtError + ExperienceStatus \<times> ExperienceStore" where
  "transition_any i action store =
     (case (if store_get store i \<noteq> None then transition_status i action store else transition_template_status i action store) of
        Inl e \<Rightarrow> Inl (MgmtStore e)
      | Inr r \<Rightarrow> Inr r)"

definition qualification_steps :: "string \<Rightarrow> LifecycleAction \<Rightarrow> ExperienceStatus \<Rightarrow> MgmtError + QualificationAction list" where
  "qualification_steps i action current =
     (case action of
        LcValidate \<Rightarrow> Inr [Validate]
      | LcActivate \<Rightarrow>
          (case current of
             Candidate \<Rightarrow> Inr [Validate, Activate]
           | Validated \<Rightarrow> Inr [Activate]
           | Draft \<Rightarrow> Inl (MgmtText (''activate requires a validated candidate; '' @ quoted_name i @ '' is still a draft''))
           | Active \<Rightarrow> Inr []
           | _ \<Rightarrow> Inr [Activate])
      | LcRevalidate \<Rightarrow> Inr [Revalidate]
      | LcDisable \<Rightarrow> Inr [Disable])"

fun walk_steps :: "string \<Rightarrow> QualificationAction list \<Rightarrow> ExperienceStatus \<Rightarrow> ExperienceStore \<Rightarrow> (MgmtError + ExperienceStatus) \<times> ExperienceStore" where
  "walk_steps i [] next store = (Inr next, store)"
| "walk_steps i (a # as) next store =
     (case transition_any i a store of
        Inl e \<Rightarrow> (Inl e, store)
      | Inr (next', store') \<Rightarrow> walk_steps i as next' store')"

definition canonical_transition :: "MgmtCodecs \<Rightarrow> nat \<Rightarrow> string \<Rightarrow> LifecycleAction \<Rightarrow> string \<Rightarrow> string \<Rightarrow> ExperienceStore \<Rightarrow> LifeStatus mgmt" where
  "canonical_transition mc now i action by remark store sv fs =
     (case current_canonical_status store i of
        Inl e \<Rightarrow> (Inl e, sv, fs)
      | Inr current \<Rightarrow>
          (case qualification_steps i action current of
             Inl e \<Rightarrow> (Inl e, sv, fs)
           | Inr steps \<Rightarrow>
               (case walk_steps i steps current store of
                  (Inl e, store') \<Rightarrow> (Inl e, sv\<lparr>sv_canonical := Some store'\<rparr>, fs)
                | (Inr next, store') \<Rightarrow>
                    commit mc now (action_debug action) i by remark (legacy_status next) (sv\<lparr>sv_canonical := Some store'\<rparr>) fs)))"

definition service_transition :: "MgmtCodecs \<Rightarrow> nat \<Rightarrow> string \<Rightarrow> LifecycleAction \<Rightarrow> string \<Rightarrow> string \<Rightarrow> LifeStatus mgmt" where
  "service_transition mc now i action by remark sv0 fs =
     (let sv = reload mc fs sv0
      in case sv_canonical sv of
           Some store \<Rightarrow> canonical_transition mc now i action by remark store sv fs
         | None \<Rightarrow>
             (case rs_transition i action (sv_store sv) of
                (Inl e, store') \<Rightarrow> (Inl (MgmtLifecycle e), sv\<lparr>sv_store := store'\<rparr>, fs)
              | (Inr next, store') \<Rightarrow> commit mc now (action_debug action) i by remark next (sv\<lparr>sv_store := store'\<rparr>) fs))"

definition service_activate :: "MgmtCodecs \<Rightarrow> nat \<Rightarrow> string \<Rightarrow> string \<Rightarrow> LifeStatus mgmt" where
  "service_activate mc now i by = service_transition mc now i LcActivate by ''user activate''"

definition service_revalidate :: "MgmtCodecs \<Rightarrow> nat \<Rightarrow> string \<Rightarrow> string \<Rightarrow> LifeStatus mgmt" where
  "service_revalidate mc now i by = service_transition mc now i LcRevalidate by ''user revalidate''"

definition service_disable :: "MgmtCodecs \<Rightarrow> nat \<Rightarrow> string \<Rightarrow> string \<Rightarrow> LifeStatus mgmt" where
  "service_disable mc now i by = service_transition mc now i LcDisable by ''user disable''"

section \<open>Removal, import and export\<close>

definition canonical_delete :: "MgmtCodecs \<Rightarrow> nat \<Rightarrow> string \<Rightarrow> string \<Rightarrow> ExperienceStore \<Rightarrow> unit mgmt" where
  "canonical_delete mc now i by store sv fs =
     (case (if store_get store i \<noteq> None then store_remove i store else remove_template i store) of
        Inl e \<Rightarrow> (Inl (MgmtStore e), sv, fs)
      | Inr store' \<Rightarrow>
          commit mc now ''delete'' i by ''removed from the canonical store'' () (sv\<lparr>sv_canonical := Some store'\<rparr>) fs)"

definition read_trash :: "MgmtCodecs \<Rightarrow> fsys \<Rightarrow> path \<Rightarrow> RunExperience list" where
  "read_trash mc fs p =
     (case fs_read_to_string fs p of
        Inl _ \<Rightarrow> []
      | Inr raw \<Rightarrow> (case mc_trash_parse mc raw of Some xs \<Rightarrow> xs | None \<Rightarrow> []))"

definition service_delete :: "MgmtCodecs \<Rightarrow> nat \<Rightarrow> string \<Rightarrow> string \<Rightarrow> unit mgmt" where
  "service_delete mc now i by sv0 fs =
     (let sv = reload mc fs sv0
      in case sv_canonical sv of
           Some store \<Rightarrow> canonical_delete mc now i by store sv fs
         | None \<Rightarrow>
             (case rs_get (sv_store sv) i of
                None \<Rightarrow> (Inl (not_found i), sv, fs)
              | Some x \<Rightarrow>
                  (case mc_trash_print mc (read_trash mc fs (sv_trash_path sv) @ [x]) of
                     Inl e \<Rightarrow> (Inl (MgmtJson e), sv, fs)
                   | Inr raw \<Rightarrow>
                       (case fs_write_bytes fs (sv_trash_path sv) raw of
                          Inl e \<Rightarrow> (Inl (MgmtIo e), sv, fs)
                        | Inr fs' \<Rightarrow>
                            commit mc now ''delete'' i by ''moved to trash.json (recoverable)'' ()
                              (sv\<lparr>sv_store := snd (rs_remove (rx_id x) (sv_store sv))\<rparr>) fs'))))"

definition canonical_export :: "MgmtCodecs \<Rightarrow> ExperienceStore \<Rightarrow> string \<Rightarrow> MgmtError + string" where
  "canonical_export mc store i =
     (case store_get store i of
        Some e \<Rightarrow> map_sum MgmtJson id (mc_exp_print mc e)
      | None \<Rightarrow>
          (case template store i of
             Some t \<Rightarrow> map_sum MgmtJson id (mc_tmpl_print mc t)
           | None \<Rightarrow> Inl (not_found i)))"

definition service_export :: "MgmtCodecs \<Rightarrow> string \<Rightarrow> string mgmt" where
  "service_export mc i sv0 fs =
     (let sv = reload mc fs sv0
      in (case sv_canonical sv of
            Some store \<Rightarrow> canonical_export mc store i
          | None \<Rightarrow>
              (case rs_get (sv_store sv) i of
                 None \<Rightarrow> Inl (not_found i)
               | Some x \<Rightarrow> map_sum MgmtJson id (mc_run_print mc x)), sv, fs))"

definition canonical_import :: "MgmtCodecs \<Rightarrow> nat \<Rightarrow> string \<Rightarrow> bool \<Rightarrow> string \<Rightarrow> ExperienceStore \<Rightarrow> string mgmt" where
  "canonical_import mc now raw overwrite by store sv fs =
     (case mc_exp_parse mc raw of
        Inl e \<Rightarrow> (Inl (MgmtJson e), sv, fs)
      | Inr x \<Rightarrow>
          (let name = exp_name x
           in if \<not> overwrite \<and> store_get store name \<noteq> None then
                (Inl (MgmtText (''experience '' @ name @ '' already exists; pass overwrite=true to replace'')), sv, fs)
              else
                (case (if store_get store name \<noteq> None then replace_existing name x store
                       else store_insert (x\<lparr>exp_status := Candidate\<rparr>) store) of
                   Inl e \<Rightarrow> (Inl (MgmtStore e), sv, fs)
                 | Inr store' \<Rightarrow>
                     commit mc now ''import'' name by ''imported into the canonical store as CANDIDATE'' name
                       (sv\<lparr>sv_canonical := Some store'\<rparr>) fs)))"

definition service_import :: "MgmtCodecs \<Rightarrow> nat \<Rightarrow> string \<Rightarrow> bool \<Rightarrow> string \<Rightarrow> string mgmt" where
  "service_import mc now raw overwrite by sv0 fs =
     (let sv = reload mc fs sv0
      in case sv_canonical sv of
           Some store \<Rightarrow> canonical_import mc now raw overwrite by store sv fs
         | None \<Rightarrow>
             (case mc_run_parse mc raw of
                Inl e \<Rightarrow> (Inl (MgmtJson e), sv, fs)
              | Inr x \<Rightarrow>
                  (if \<not> overwrite \<and> rs_get (sv_store sv) (rx_id x) \<noteq> None then
                     (Inl (MgmtText (''experience '' @ rx_id x @ '' already exists; pass overwrite=true to replace'')), sv, fs)
                   else
                     (case upsert_validated x (sv_store sv) of
                        Inl e \<Rightarrow> (Inl (MgmtInvalid e), sv, fs)
                      | Inr store' \<Rightarrow>
                          commit mc now ''import'' (rx_id x) by ''imported via management service'' (rx_id x)
                            (sv\<lparr>sv_store := store'\<rparr>) fs))))"


section \<open>Drafts of a legacy store\<close>

definition draft_id_of :: "string \<Rightarrow> nat \<Rightarrow> string" where
  "draft_id_of i now = ''edit-'' @ i @ ''-'' @ nat_digits now"

definition edit_as_draft :: "MgmtCodecs \<Rightarrow> nat \<Rightarrow> string \<Rightarrow> string \<Rightarrow> string mgmt" where
  "edit_as_draft mc now i by sv0 fs =
     (let sv = reload mc fs sv0
      in if sv_canonical sv \<noteq> None then
           (Inl (MgmtText (''edit_as_draft is a legacy-store operation; on a canonical store, '' @
              ''import an edited copy as a Candidate instead ('' @ i @ '')'')), sv, fs)
         else case rs_get (sv_store sv) i of
           None \<Rightarrow> (Inl (not_found i), sv, fs)
         | Some x \<Rightarrow>
             (let draft = x\<lparr>rx_id := draft_id_of (rx_id x) now, rx_version := sat_inc32 (rx_version x), rx_status := SCandidate\<rparr>
              in case upsert_validated draft (sv_store sv) of
                   Inl e \<Rightarrow> (Inl (MgmtInvalid e), sv, fs)
                 | Inr store' \<Rightarrow>
                     commit mc now ''edit_as_draft'' i by (''draft '' @ rx_id draft @ '' created'') (rx_id draft)
                       (sv\<lparr>sv_store := store'\<rparr>) fs))"

fun legacy_steps :: "(string \<times> LifecycleAction) list \<Rightarrow> RunStore \<Rightarrow> (LifecycleError + unit) \<times> RunStore" where
  "legacy_steps [] store = (Inr (), store)"
| "legacy_steps ((i, a) # rest) store =
     (case rs_transition i a store of
        (Inl e, store') \<Rightarrow> (Inl e, store')
      | (Inr _, store') \<Rightarrow> legacy_steps rest store')"

definition adopt_draft :: "MgmtCodecs \<Rightarrow> nat \<Rightarrow> string \<Rightarrow> string \<Rightarrow> string \<Rightarrow> LifeStatus mgmt" where
  "adopt_draft mc now draft_id replace_id by sv0 fs =
     (let sv = reload mc fs sv0
      in if sv_canonical sv \<noteq> None then
           (Inl (MgmtText (''adopt_draft is a legacy-store operation; on a canonical store, '' @
              ''activate the imported Candidate instead ('' @ draft_id @ '' -> '' @ replace_id @ '')'')), sv, fs)
         else case legacy_steps ([(draft_id, LcValidate), (draft_id, LcActivate)] @
                     (if replace_id \<noteq> draft_id then [(replace_id, LcDisable)] else [])) (sv_store sv) of
           (Inl e, store') \<Rightarrow> (Inl (MgmtLifecycle e), sv\<lparr>sv_store := store'\<rparr>, fs)
         | (Inr _, store') \<Rightarrow>
             commit mc now ''adopt_draft'' draft_id by (''replaced '' @ replace_id)
               (case rs_get store' draft_id of Some x \<Rightarrow> rx_status x | None \<Rightarrow> SCandidate)
               (sv\<lparr>sv_store := store'\<rparr>) fs)"

section \<open>Metadata\<close>

definition nonblank :: "string \<Rightarrow> string option" where
  "nonblank s = (if trim_str s \<noteq> [] then Some s else None)"

definition confidence_ok :: "rat option \<Rightarrow> bool" where
  "confidence_ok c = (case c of Some v \<Rightarrow> 0 \<le> v \<and> v \<le> 1 | None \<Rightarrow> True)"

definition confidence_error :: MgmtError where
  "confidence_error = MgmtText ''confidence must be within [0, 1]''"

definition canonical_meta :: "string \<Rightarrow> string option \<Rightarrow> rat option \<Rightarrow> ExperienceStore \<Rightarrow> (MgmtError + unit) \<times> ExperienceStore" where
  "canonical_meta i title conf store =
     (case (case title of None \<Rightarrow> Inr store | Some t \<Rightarrow> set_display_name i (nonblank t) store) of
        Inl e \<Rightarrow> (Inl (MgmtStore e), store)
      | Inr store1 \<Rightarrow>
          (case (case conf of None \<Rightarrow> Inr store1 | Some c \<Rightarrow> set_user_confidence i (Some c) store1) of
             Inl e \<Rightarrow> (Inl (MgmtStore e), store1)
           | Inr store2 \<Rightarrow> (Inr (), store2)))"

definition canonical_update_meta :: "MgmtCodecs \<Rightarrow> nat \<Rightarrow> string \<Rightarrow> string option \<Rightarrow> string option \<Rightarrow> rat option \<Rightarrow> string \<Rightarrow> ExperienceStore \<Rightarrow> unit mgmt" where
  "canonical_update_meta mc now i title remark conf by store sv fs =
     (if \<not> confidence_ok conf then (Inl confidence_error, sv, fs)
      else case canonical_meta i title conf store of
        (Inl e, store') \<Rightarrow> (Inl e, sv\<lparr>sv_canonical := Some store'\<rparr>, fs)
      | (Inr _, store') \<Rightarrow>
          commit mc now ''update_meta'' i by ''display metadata updated'' ()
            (sv\<lparr>sv_canonical := Some store',
                sv_usage := (case Option.bind remark nonblank of
                   Some n \<Rightarrow> mu_audit ''update_meta'' i by (''note: '' @ n) now (sv_usage sv)
                 | None \<Rightarrow> sv_usage sv)\<rparr>) fs)"

definition service_update_meta :: "MgmtCodecs \<Rightarrow> nat \<Rightarrow> string \<Rightarrow> string option \<Rightarrow> string option \<Rightarrow> rat option \<Rightarrow> string \<Rightarrow> unit mgmt" where
  "service_update_meta mc now i title remark conf by sv0 fs =
     (let sv = reload mc fs sv0
      in case sv_canonical sv of
           Some store \<Rightarrow> canonical_update_meta mc now i title remark conf by store sv fs
         | None \<Rightarrow>
             (case rs_get (sv_store sv) i of
                None \<Rightarrow> (Inl (not_found i), sv, fs)
              | Some x \<Rightarrow>
                  (if \<not> confidence_ok conf then (Inl confidence_error, sv, fs)
                   else
                     (let x' = x\<lparr>rx_title := (case title of Some t \<Rightarrow> nonblank t | None \<Rightarrow> rx_title x),
                                 rx_note := (case remark of Some n \<Rightarrow> nonblank n | None \<Rightarrow> rx_note x),
                                 rx_confidence := (case conf of Some c \<Rightarrow> of_rat c | None \<Rightarrow> rx_confidence x),
                                 rx_version := sat_inc32 (rx_version x)\<rparr>
                      in case upsert_validated x' (sv_store sv) of
                           Inl e \<Rightarrow> (Inl (MgmtInvalid e), sv, fs)
                         | Inr store' \<Rightarrow>
                             commit mc now ''update_meta'' i by ''metadata updated'' () (sv\<lparr>sv_store := store'\<rparr>) fs))))"

definition scope_request :: "json option \<Rightarrow> string option" where
  "scope_request applicability = Option.bind (Option.bind applicability (\<lambda>v. json_get v ''scope'')) as_str"

definition canonical_update_control :: "MgmtCodecs \<Rightarrow> nat \<Rightarrow> string \<Rightarrow> json option \<Rightarrow> json list option \<Rightarrow> string \<Rightarrow> ExperienceStore \<Rightarrow> unit mgmt" where
  "canonical_update_control mc now i applicability conditions by store sv fs =
     (if conditions \<noteq> None then
        (Inl (MgmtText ''conditions are legacy-only; a canonical experience carries its own preconditions''), sv, fs)
      else if applicability \<noteq> None \<and> scope_request applicability = None then
        (Inl (MgmtText (''canonical applicability accepts {'' @ [CHR 0x22] @ ''scope'' @ [CHR 0x22] @ '': '' @ [CHR 0x22] @ ''...'' @
           [CHR 0x22] @ ''} only'')), sv, fs)
      else case set_scope i (scope_request applicability) store of
        Inl e \<Rightarrow> (Inl (MgmtStore e), sv, fs)
      | Inr store' \<Rightarrow>
          commit mc now ''update_control'' i by ''scene scope updated'' () (sv\<lparr>sv_canonical := Some store'\<rparr>) fs)"

fun parse_conditions :: "MgmtCodecs \<Rightarrow> json list \<Rightarrow> string + ExperienceCondition list" where
  "parse_conditions mc [] = Inr []"
| "parse_conditions mc (v # vs) =
     (case mc_condition mc v of
        Inl e \<Rightarrow> Inl e
      | Inr c \<Rightarrow> (case parse_conditions mc vs of Inl e \<Rightarrow> Inl e | Inr cs \<Rightarrow> Inr (c # cs)))"

definition control_body :: "MgmtCodecs \<Rightarrow> json option \<Rightarrow> json list option \<Rightarrow> RunExperience \<Rightarrow> string + RunExperience" where
  "control_body mc applicability conditions x =
     (case (case applicability of None \<Rightarrow> Inr (rx_applicability x) | Some v \<Rightarrow> mc_applicability mc v) of
        Inl e \<Rightarrow> Inl e
      | Inr a \<Rightarrow>
          (case (case conditions of None \<Rightarrow> Inr (rx_conditions x) | Some vs \<Rightarrow> parse_conditions mc vs) of
             Inl e \<Rightarrow> Inl e
           | Inr cs \<Rightarrow> Inr (x\<lparr>rx_applicability := a, rx_conditions := cs, rx_version := sat_inc32 (rx_version x)\<rparr>)))"

definition service_update_control :: "MgmtCodecs \<Rightarrow> nat \<Rightarrow> string \<Rightarrow> json option \<Rightarrow> json list option \<Rightarrow> string \<Rightarrow> unit mgmt" where
  "service_update_control mc now i applicability conditions by sv0 fs =
     (let sv = reload mc fs sv0
      in case sv_canonical sv of
           Some store \<Rightarrow> canonical_update_control mc now i applicability conditions by store sv fs
         | None \<Rightarrow>
             (case rs_get (sv_store sv) i of
                None \<Rightarrow> (Inl (not_found i), sv, fs)
              | Some x \<Rightarrow>
                  (case control_body mc applicability conditions x of
                     Inl e \<Rightarrow> (Inl (MgmtJson e), sv, fs)
                   | Inr x' \<Rightarrow>
                       (case upsert_validated x' (sv_store sv) of
                          Inl e \<Rightarrow> (Inl (MgmtInvalid e), sv, fs)
                        | Inr store' \<Rightarrow>
                            commit mc now ''update_control'' i by ''state/runtime applicability updated'' ()
                              (sv\<lparr>sv_store := store'\<rparr>) fs))))"

section \<open>Views\<close>

record ManagedRow =
  mr_id :: string
  mr_name :: string
  mr_title :: "string option"
  mr_note :: "string option"
  mr_created_at :: "nat option"
  mr_kind :: string
  mr_status :: string
  mr_confidence :: real
  mr_pinned :: bool
  mr_input_scope :: string
  mr_applicable_objects :: "string list"
  mr_parameterized :: bool
  mr_last_used :: "nat option"
  mr_hits :: nat
  mr_misfires :: nat
  mr_invalid_failures :: nat

record ExperienceDetail =
  ed_experience :: RunExperience
  ed_pinned :: bool
  ed_usage :: MgmtUsageEntry
  ed_audits :: "AuditEntry list"

fun kind_debug :: "ExperienceKind \<Rightarrow> string" where
  "kind_debug KindReflex = ''Reflex''"
| "kind_debug KindProcess = ''Process''"
| "kind_debug KindResult = ''Result''"
| "kind_debug KindReference = ''Reference''"

fun life_debug :: "LifeStatus \<Rightarrow> string" where
  "life_debug SNew = ''New''"
| "life_debug SCandidate = ''Candidate''"
| "life_debug SValidated = ''Validated''"
| "life_debug SActive = ''Active''"
| "life_debug SDecaying = ''Decaying''"
| "life_debug SDisabled = ''Disabled''"

fun scope_debug :: "InputScope \<Rightarrow> string" where
  "scope_debug ScopeSingle = ''Single''"
| "scope_debug ScopeBatch = ''Batch''"
| "scope_debug ScopeAny = ''Any''"
| "scope_debug ScopeUnknown = ''Unknown''"

definition legacy_row :: "RunStore \<Rightarrow> ExperienceUsageStore \<Rightarrow> RunExperience \<Rightarrow> ManagedRow" where
  "legacy_row store u x =
     (let e = mu_entry u (rx_id x)
      in \<lparr>mr_id = rx_id x, mr_name = rx_name x, mr_title = rx_title x, mr_note = rx_note x, mr_created_at = rx_created_at x,
          mr_kind = kind_debug (rx_kind x), mr_status = life_debug (rx_status x), mr_confidence = rx_confidence x,
          mr_pinned = rs_is_pinned store (rx_id x), mr_input_scope = scope_debug (input_scope (rx_applicability x)),
          mr_applicable_objects = applicable_objects (rx_applicability x), mr_parameterized = parameterized (rx_applicability x),
          mr_last_used = me_last_used e, mr_hits = me_hits e, mr_misfires = me_misfires e, mr_invalid_failures = me_invalid_failures e\<rparr>)"

definition canonical_confidence :: "ExperienceStore \<Rightarrow> string \<Rightarrow> real" where
  "canonical_confidence store n = (case user_confidence_of store n of Some v \<Rightarrow> of_rat v | None \<Rightarrow> 1)"

definition display_or_id :: "ExperienceStore \<Rightarrow> string \<Rightarrow> string" where
  "display_or_id store n = (case display_name_of store n of Some d \<Rightarrow> d | None \<Rightarrow> n)"

definition canonical_row :: "ExperienceStore \<Rightarrow> ExperienceUsageStore \<Rightarrow> string \<Rightarrow> ActionPattern \<Rightarrow> string \<Rightarrow> ExperienceStatus \<Rightarrow> bool \<Rightarrow> ManagedRow" where
  "canonical_row store u n trigger kind status param =
     (let e = mu_entry u n
      in \<lparr>mr_id = n, mr_name = display_or_id store n, mr_title = display_name_of store n, mr_note = command_pattern trigger,
          mr_created_at = map_option org_recorded_at (candidate_origin_of store n), mr_kind = kind,
          mr_status = status_debug status, mr_confidence = canonical_confidence store n, mr_pinned = Store.is_pinned store n,
          mr_input_scope = (case scope_of store n of Some sc \<Rightarrow> sc | None \<Rightarrow> ''Global''),
          mr_applicable_objects = [pat_tool trigger], mr_parameterized = param,
          mr_last_used = me_last_used e, mr_hits = me_hits e, mr_misfires = me_misfires e, mr_invalid_failures = me_invalid_failures e\<rparr>)"

definition canonical_rows :: "ExperienceStore \<Rightarrow> ExperienceUsageStore \<Rightarrow> ManagedRow list" where
  "canonical_rows store u =
     map (\<lambda>e. canonical_row store u (exp_name e) (exp_trigger e) ''Workflow'' (exp_status e) False) (all_experiences store) @
     map (\<lambda>t. canonical_row store u (tmpl_name t) (tmpl_trigger t) ''Template'' (tmpl_status t) (tmpl_parameters t \<noteq> [])) (templates store)"

definition service_list :: "MgmtCodecs \<Rightarrow> fsys \<Rightarrow> ExperienceManagementService \<Rightarrow> ManagedRow list \<times> ExperienceManagementService" where
  "service_list mc fs sv0 =
     (let sv = reload mc fs sv0
      in (case sv_canonical sv of
            Some store \<Rightarrow> canonical_rows store (sv_usage sv)
          | None \<Rightarrow> map (legacy_row (sv_store sv) (sv_usage sv)) (rs_all (sv_store sv)), sv))"

definition canonical_to_legacy :: "ExperienceStore \<Rightarrow> string \<Rightarrow> string \<Rightarrow> WorkflowStep list \<Rightarrow> string option \<Rightarrow> ExperienceStatus \<Rightarrow> RunExperience" where
  "canonical_to_legacy store i tool workflow pattern status =
     \<lparr>rx_id = i, rx_name = display_or_id store i, rx_kind = KindProcess,
      rx_trigger = \<lparr>trig_object = Some tool, trig_location = None, trig_goal = pattern, trig_keywords = [], trig_context = []\<rparr>,
      rx_conditions = [],
      rx_steps = map (\<lambda>s. \<lparr>wstep_name = step_action s, wstep_args = step_args s\<rparr>) workflow,
      rx_completion_criteria = Some (''canonical body in '' @ i @ ''; postconditions are verified by the Gate''),
      rx_failure_modes = [], rx_assets = [],
      rx_applicability = \<lparr>input_scope = ScopeUnknown, applicable_objects = [tool], parameterized = (template store i \<noteq> None)\<rparr>,
      rx_title = display_name_of store i, rx_note = pattern,
      rx_created_at = map_option org_recorded_at (candidate_origin_of store i), rx_confidence = canonical_confidence store i,
      rx_risk = RiskLow, rx_status = legacy_status status, rx_version = 1\<rparr>"

definition canonical_projection :: "ExperienceStore \<Rightarrow> string \<Rightarrow> RunExperience option" where
  "canonical_projection store i =
     (case store_get store i of
        Some e \<Rightarrow>
          Some (canonical_to_legacy store i (pat_tool (exp_trigger e)) (exp_workflow e) (command_pattern (exp_trigger e)) (exp_status e))
      | None \<Rightarrow>
          map_option (\<lambda>t. canonical_to_legacy store i (pat_tool (tmpl_trigger t)) (tmpl_workflow t) (command_pattern (tmpl_trigger t)) (tmpl_status t))
            (template store i))"

definition detail_view :: "ExperienceUsageStore \<Rightarrow> string \<Rightarrow> bool \<Rightarrow> RunExperience \<Rightarrow> ExperienceDetail" where
  "detail_view u i pd x =
     \<lparr>ed_experience = x, ed_pinned = pd, ed_usage = mu_entry u i, ed_audits = filter (\<lambda>a. audit_id a = i) (mu_audit_trail u)\<rparr>"

definition canonical_detail :: "ExperienceStore \<Rightarrow> ExperienceUsageStore \<Rightarrow> string \<Rightarrow> MgmtError + ExperienceDetail" where
  "canonical_detail store u i =
     (case canonical_projection store i of
        Some x \<Rightarrow> Inr (detail_view u i (Store.is_pinned store i) x)
      | None \<Rightarrow> Inl (not_found i))"

definition service_detail :: "MgmtCodecs \<Rightarrow> string \<Rightarrow> ExperienceDetail mgmt" where
  "service_detail mc i sv0 fs =
     (let sv = reload mc fs sv0
      in (case sv_canonical sv of
            Some store \<Rightarrow> canonical_detail store (sv_usage sv) i
          | None \<Rightarrow>
              (case rs_get (sv_store sv) i of
                 None \<Rightarrow> Inl (not_found i)
               | Some x \<Rightarrow> Inr (detail_view (sv_usage sv) i (rs_is_pinned (sv_store sv) i) x)), sv, fs))"

section \<open>The file manager\<close>

record ManagedExperience =
  mx_id :: string
  mx_name :: string
  mx_status :: string
  mx_confidence :: real
  mx_pinned :: bool
  mx_last_used :: "nat option"

record ExperienceManager =
  mg_path :: path
  mg_store :: RunStore

definition manager_open :: "MgmtCodecs \<Rightarrow> fsys \<Rightarrow> path \<Rightarrow> ExperienceManager" where
  "manager_open mc fs p = \<lparr>mg_path = p, mg_store = load_store mc fs p\<rparr>"

definition manager_list :: "ExperienceManager \<Rightarrow> ManagedExperience list" where
  "manager_list m =
     map (\<lambda>x. \<lparr>mx_id = rx_id x, mx_name = rx_name x, mx_status = life_debug (rx_status x), mx_confidence = rx_confidence x,
                mx_pinned = rs_is_pinned (mg_store m) (rx_id x), mx_last_used = None\<rparr>) (rs_all (mg_store m))"

definition manager_persist :: "MgmtCodecs \<Rightarrow> ExperienceManager \<Rightarrow> fsys \<Rightarrow> fsys" where
  "manager_persist mc m fs = save_legacy mc (mg_store m) (mg_path m) fs"

definition manager_commit :: "MgmtCodecs \<Rightarrow> RunStore \<Rightarrow> ExperienceManager \<Rightarrow> fsys \<Rightarrow> (MgmtError + unit) \<times> ExperienceManager \<times> fsys" where
  "manager_commit mc store' m fs =
     (let m' = m\<lparr>mg_store := store'\<rparr> in (Inr (), m', manager_persist mc m' fs))"

definition manager_pin :: "MgmtCodecs \<Rightarrow> string \<Rightarrow> ExperienceManager \<Rightarrow> fsys \<Rightarrow> (MgmtError + unit) \<times> ExperienceManager \<times> fsys" where
  "manager_pin mc i m fs =
     (case rs_pin i (mg_store m) of
        (False, _) \<Rightarrow> (Inl (not_found i), m, fs)
      | (True, store') \<Rightarrow> manager_commit mc store' m fs)"

definition manager_unpin :: "MgmtCodecs \<Rightarrow> string \<Rightarrow> ExperienceManager \<Rightarrow> fsys \<Rightarrow> (MgmtError + unit) \<times> ExperienceManager \<times> fsys" where
  "manager_unpin mc i m fs =
     (case rs_unpin i (mg_store m) of
        (False, store') \<Rightarrow> (Inl (not_pinned i), m\<lparr>mg_store := store'\<rparr>, fs)
      | (True, store') \<Rightarrow> manager_commit mc store' m fs)"

definition manager_disable :: "MgmtCodecs \<Rightarrow> string \<Rightarrow> ExperienceManager \<Rightarrow> fsys \<Rightarrow> (MgmtError + unit) \<times> ExperienceManager \<times> fsys" where
  "manager_disable mc i m fs =
     (case rs_transition i LcDisable (mg_store m) of
        (Inl e, store') \<Rightarrow> (Inl (MgmtLifecycle e), m\<lparr>mg_store := store'\<rparr>, fs)
      | (Inr _, store') \<Rightarrow> manager_commit mc store' m fs)"


section \<open>One operation of the service\<close>

datatype MgmtOp =
    OpPin string
  | OpUnpin string
  | OpTransition string LifecycleAction string
  | OpDelete string
  | OpImport string bool
  | OpDraft string
  | OpAdopt string string
  | OpMeta string "string option" "string option" "rat option"
  | OpControl string "json option" "json list option"

definition ignore :: "'a mgmt \<Rightarrow> unit mgmt" where
  "ignore f sv fs = (case f sv fs of (r, sv', fs') \<Rightarrow> (map_sum id (\<lambda>_. ()) r, sv', fs'))"

fun run_op :: "MgmtCodecs \<Rightarrow> nat \<Rightarrow> string \<Rightarrow> MgmtOp \<Rightarrow> unit mgmt" where
  "run_op mc now by (OpPin i) = service_pin mc now i by"
| "run_op mc now by (OpUnpin i) = service_unpin mc now i by"
| "run_op mc now by (OpTransition i a remark) = ignore (service_transition mc now i a by remark)"
| "run_op mc now by (OpDelete i) = service_delete mc now i by"
| "run_op mc now by (OpImport raw ow) = ignore (service_import mc now raw ow by)"
| "run_op mc now by (OpDraft i) = ignore (edit_as_draft mc now i by)"
| "run_op mc now by (OpAdopt d r) = ignore (adopt_draft mc now d r by)"
| "run_op mc now by (OpMeta i t n c) = service_update_meta mc now i t n c by"
| "run_op mc now by (OpControl i a cs) = service_update_control mc now i a cs by"

text \<open>
  Every operation has one shape: it reloads, and then either refuses, keeping the files as they are, or
  commits a changed store under one audit entry. \<open>shape\<close> says so of an operation after the reload; the
  properties below are proved for the shape.
\<close>

definition committed :: "MgmtCodecs \<Rightarrow> nat \<Rightarrow> string \<Rightarrow> ExperienceManagementService \<Rightarrow> fsys \<Rightarrow> ExperienceManagementService \<times> fsys \<Rightarrow> bool" where
  "committed mc now by sv fs r \<longleftrightarrow>
     (\<exists>sv1 fs1 action i remark. r = snd (commit mc now action i by remark () sv1 fs1) \<and>
        sv_store_path sv1 = sv_store_path sv \<and> sv_usage_path sv1 = sv_usage_path sv \<and>
        (sv_canonical sv1 = None \<longleftrightarrow> sv_canonical sv = None) \<and>
        (sv_usage sv1 = sv_usage sv \<or> (\<exists>a2 i2 n2. sv_usage sv1 = mu_audit a2 i2 by n2 now (sv_usage sv))) \<and>
        (fs1 = fs \<or> sv_canonical sv = None \<and> (\<exists>raw. fs_write_bytes fs (sv_trash_path sv) raw = Inr fs1)))"

definition shape :: "MgmtCodecs \<Rightarrow> nat \<Rightarrow> string \<Rightarrow> ExperienceManagementService \<Rightarrow> fsys \<Rightarrow> (MgmtError + 'a) \<times> ExperienceManagementService \<times> fsys \<Rightarrow> bool" where
  "shape mc now by sv fs r \<longleftrightarrow>
     (case r of
        (Inl _, sv', fs') \<Rightarrow>
          fs' = fs \<and> sv_store_path sv' = sv_store_path sv \<and> sv_usage_path sv' = sv_usage_path sv \<and>
          (sv_canonical sv' = None \<longleftrightarrow> sv_canonical sv = None)
      | (Inr _, r') \<Rightarrow> committed mc now by sv fs r')"

lemma snd_commit: "snd (commit mc now action i by remark r sv fs) = snd (commit mc now action i by remark () sv fs)"
  by (simp add: commit_def Let_def)

lemma shape_refuse [simp]: "shape mc now by sv fs (Inl e, sv, fs)"
  by (simp add: shape_def)

lemma shape_refuse_store [simp]:
  "shape mc now by sv fs (Inl e, sv\<lparr>sv_store := st\<rparr>, fs)"
  "sv_canonical sv \<noteq> None \<Longrightarrow> shape mc now by sv fs (Inl e, sv\<lparr>sv_canonical := Some c\<rparr>, fs)"
  by (simp_all add: shape_def)

lemma shape_commit:
  assumes "sv_store_path sv1 = sv_store_path sv" "sv_usage_path sv1 = sv_usage_path sv"
    "sv_canonical sv1 = None \<longleftrightarrow> sv_canonical sv = None"
    "sv_usage sv1 = sv_usage sv \<or> (\<exists>a2 i2 n2. sv_usage sv1 = mu_audit a2 i2 by n2 now (sv_usage sv))"
    "fs1 = fs \<or> sv_canonical sv = None \<and> (\<exists>raw. fs_write_bytes fs (sv_trash_path sv) raw = Inr fs1)"
  shows "shape mc now by sv fs (commit mc now action i by remark r sv1 fs1)"
proof -
  let ?x = "snd (commit mc now action i by remark () sv1 fs1)"
  have "commit mc now action i by remark r sv1 fs1 = (Inr r, ?x)" by (simp add: commit_def Let_def)
  moreover have "committed mc now by sv fs ?x" unfolding committed_def
    by (rule exI [of _ sv1], rule exI [of _ fs1], rule exI [of _ action], rule exI [of _ i], rule exI [of _ remark]) (use assms in blast)
  ultimately show ?thesis unfolding shape_def by simp
qed

lemma shape_commit_store [simp]:
  "shape mc now by sv fs (commit mc now action i by remark r (sv\<lparr>sv_store := st\<rparr>) fs)"
  "sv_canonical sv \<noteq> None \<Longrightarrow> shape mc now by sv fs (commit mc now action i by remark r (sv\<lparr>sv_canonical := Some c\<rparr>) fs)"
  by (rule shape_commit; simp)+

lemma shape_ignore: "shape mc now by sv fs (f sv0 fs) \<Longrightarrow> shape mc now by sv fs (ignore f sv0 fs)"
  by (auto simp: shape_def ignore_def split: prod.splits sum.splits)

lemmas op_defs = canonical_pin_def service_pin_def canonical_unpin_def service_unpin_def canonical_transition_def
  service_transition_def canonical_delete_def canonical_import_def service_import_def edit_as_draft_def adopt_draft_def
  service_update_meta_def canonical_update_control_def service_update_control_def

lemma shape_meta: "sv_canonical sv \<noteq> None \<Longrightarrow> shape mc now by sv fs (canonical_update_meta mc now i t n c by store sv fs)"
  unfolding canonical_update_meta_def
  by (cases "confidence_ok c"; cases "canonical_meta i t c store"; cases "fst (canonical_meta i t c store)";
      cases "Option.bind n nonblank") (auto intro!: shape_commit; blast)+

lemma shape_delete: "shape mc now by (reload mc fs sv) fs (service_delete mc now i by sv fs)"
proof (cases "sv_canonical (reload mc fs sv)")
  case (Some store)
  then show ?thesis by (auto simp: service_delete_def canonical_delete_def Let_def split: sum.split)
next
  case None
  then show ?thesis
    by (auto simp: service_delete_def Let_def split: option.split sum.split intro!: shape_commit)
qed

lemma run_op_shape: "shape mc now by (reload mc fs sv) fs (run_op mc now by op sv fs)"
proof (cases op)
  case (OpDelete i)
  then show ?thesis by (simp add: shape_delete)
qed (auto simp: op_defs Let_def shape_meta intro!: shape_ignore split: option.split sum.split prod.split bool.split)

lemma reload_fields [simp]:
  "sv_store_path (reload mc fs sv) = sv_store_path sv" "sv_usage_path (reload mc fs sv) = sv_usage_path sv"
  "sv_canonical (reload mc fs sv) = None \<longleftrightarrow> sv_canonical sv = None"
  "sv_usage (reload mc fs sv) = mu_load mc fs (sv_usage_path sv)"
  by (auto simp: reload_def split: sum.split)

text \<open>C33: an operation that fails writes nothing. Whatever the management service is asked to do, on either kind of
  store, an answer with an error leaves every file exactly as it was, also when the operation consists of
  several status changes of which only a later one is refused.\<close>

theorem failed_operation_writes_nothing:
  assumes "run_op mc now by op sv fs = (Inl e, sv', fs')"
  shows "fs' = fs"
  using run_op_shape [of mc now "by" fs sv op] assms by (simp add: shape_def)

lemma run_op_committed:
  assumes "run_op mc now by op sv fs = (Inr (), sv', fs')"
  obtains sv1 fs1 a i n where "sv' = sv1\<lparr>sv_usage := mu_audit a i by n now (sv_usage sv1)\<rparr>" and "fs' = service_persist mc sv' fs1"
    and "sv_store_path sv1 = sv_store_path sv" and "sv_usage_path sv1 = sv_usage_path sv"
    and "sv_canonical sv1 = None \<longleftrightarrow> sv_canonical sv = None"
    and "sv_usage sv1 = mu_load mc fs (sv_usage_path sv) \<or>
      (\<exists>a2 i2 n2. sv_usage sv1 = mu_audit a2 i2 by n2 now (mu_load mc fs (sv_usage_path sv)))"
    and "fs1 = fs \<or> sv_canonical sv = None \<and> (\<exists>raw. fs_write_bytes fs (sv_trash_path (reload mc fs sv)) raw = Inr fs1)"
proof -
  have "committed mc now by (reload mc fs sv) fs (sv', fs')"
    using run_op_shape [of mc now "by" fs sv op] assms by (simp add: shape_def)
  then show thesis
    unfolding committed_def reload_fields
  proof (elim exE conjE)
    fix sv1 fs1 a i n
    assume c: "(sv', fs') = snd (commit mc now a i by n () sv1 fs1)"
      and k: "sv_store_path sv1 = sv_store_path sv" "sv_usage_path sv1 = sv_usage_path sv"
        "sv_canonical sv1 = None \<longleftrightarrow> sv_canonical sv = None"
        "sv_usage sv1 = mu_load mc fs (sv_usage_path sv) \<or>
          (\<exists>a2 i2 n2. sv_usage sv1 = mu_audit a2 i2 by n2 now (mu_load mc fs (sv_usage_path sv)))"
        "fs1 = fs \<or> sv_canonical sv = None \<and> (\<exists>raw. fs_write_bytes fs (sv_trash_path (reload mc fs sv)) raw = Inr fs1)"
    have "sv' = sv1\<lparr>sv_usage := mu_audit a i by n now (sv_usage sv1)\<rparr>" "fs' = service_persist mc sv' fs1"
      using c by (simp_all add: commit_def Let_def)
    from that [OF this k] show thesis .
  qed
qed

definition newest :: "nat \<Rightarrow> 'a list \<Rightarrow> 'a list" where
  "newest n xs = drop (length xs - n) xs"

lemma newest_append: "newest n (newest n xs @ ys) = newest n (xs @ ys)"
proof -
  have "length xs + length ys - (length xs - n + n) + (length xs - n) = length xs + length ys - n" if "n \<le> length xs"
    using that by simp
  then show ?thesis by (cases "n \<le> length xs") (auto simp: newest_def)
qed

lemma mu_audit_newest:
  "mu_audit_trail (mu_audit a i by n now u) =
     newest MAX_AUDIT (mu_audit_trail u @ [\<lparr>audit_at = now, audit_action = a, audit_id = i, audit_by = by, audit_note = n\<rparr>])"
  by (simp add: mu_audit_def Let_def newest_def)



section \<open>Two lifecycles behind one service\<close>

text \<open>What a status change does to the status alone, on a canonical store.\<close>

fun status_walk :: "QualificationAction list \<Rightarrow> ExperienceStatus \<Rightarrow> ExperienceStatus option" where
  "status_walk [] s = Some s"
| "status_walk (a # as) s = (case status_transition s a of Inl _ \<Rightarrow> None | Inr s' \<Rightarrow> status_walk as s')"

definition canonical_next :: "LifecycleAction \<Rightarrow> ExperienceStatus \<Rightarrow> ExperienceStatus option" where
  "canonical_next action s =
     (case qualification_steps [] action s of Inl _ \<Rightarrow> None | Inr steps \<Rightarrow> status_walk steps s)"

lemma canonical_status_wf:
  assumes "store_wf store"
  shows "current_canonical_status store i = Inr s \<longleftrightarrow>
    (\<exists>e. store_get store i = Some e \<and> exp_status e = s) \<or> store_get store i = None \<and> (\<exists>t. template store i = Some t \<and> tmpl_status t = s)"
  by (auto simp: current_canonical_status_def split: option.splits)

text \<open>One step of either kind changes the status of the artifact of that name as the table says.\<close>

lemma transition_any_status:
  assumes "store_wf store" and "current_canonical_status store i = Inr s"
  shows "(case status_transition s a of
      Inl _ \<Rightarrow> (\<exists>e. transition_any i a store = Inl e)
    | Inr s' \<Rightarrow> (\<exists>store'. transition_any i a store = Inr (s', store') \<and> store_wf store' \<and> current_canonical_status store' i = Inr s'))"
proof (cases "store_get store i")
  case (Some e)
  then have s: "exp_status e = s" using assms(2) by (simp add: current_canonical_status_def)
  obtain k where k: "bt_get (by_name store) i = Some k" "experiences store ! k = e"
    using Some by (auto simp: store_get_def)
  have len: "k < length (experiences store)" "exp_name e = i" using k by (auto simp: by_name_get [OF assms(1)])
  show ?thesis
  proof (cases "status_transition s a")
    case (Inl m)
    with Some k s show ?thesis by (simp add: transition_any_def transition_status_def)
  next
    case (Inr s')
    let ?st = "reindex (store\<lparr>experiences := (experiences store)[k := e\<lparr>exp_status := s'\<rparr>]\<rparr>)"
    have t: "transition_status i a store = Inr (s', ?st)" using k s Inr by (simp add: transition_status_def)
    have wf: "store_wf ?st" by (rule transition_wf [OF assms(1) t])
    have "e\<lparr>exp_status := s'\<rparr> \<in> set (experiences ?st)" using len by (simp add: reindex_def set_update_memI)
    then have "store_get ?st i = Some (e\<lparr>exp_status := s'\<rparr>)" using len by (simp add: store_get_iff [OF wf])
    with Inr Some t wf show ?thesis by (simp add: transition_any_def current_canonical_status_def)
  qed
next
  case None
  then obtain e where t: "template store i = Some e" and s: "tmpl_status e = s"
    using assms(2) by (auto simp: current_canonical_status_def split: option.splits)
  obtain k where k: "bt_get (templates_by_name store) i = Some k" "templates store ! k = e"
    using t by (auto simp: template_def)
  have len: "k < length (templates store)" "tmpl_name e = i" using k by (auto simp: templates_by_name_get [OF assms(1)])
  show ?thesis
  proof (cases "status_transition s a")
    case (Inl m)
    with None k s show ?thesis by (simp add: transition_any_def transition_template_status_def)
  next
    case (Inr s')
    let ?st = "reindex (store\<lparr>templates := (templates store)[k := e\<lparr>tmpl_status := s'\<rparr>]\<rparr>)"
    have tr: "transition_template_status i a store = Inr (s', ?st)" using k s Inr by (simp add: transition_template_status_def)
    have wf: "store_wf ?st" by (rule transition_template_wf [OF assms(1) tr])
    have "e\<lparr>tmpl_status := s'\<rparr> \<in> set (templates ?st)" using len by (simp add: reindex_def set_update_memI)
    then have "template ?st i = Some (e\<lparr>tmpl_status := s'\<rparr>)" using len by (simp add: template_iff [OF wf])
    moreover have "store_get ?st i = None"
      using None by (auto simp: store_get_def by_name_None [OF assms(1)] reindex_def index_names_None_iff simp del: reindex_fields)
    ultimately show ?thesis using Inr None tr wf by (simp add: transition_any_def current_canonical_status_def)
  qed
qed

lemma walk_steps_status:
  assumes "store_wf store" and "current_canonical_status store i = Inr s"
  shows "(case status_walk as s of
      None \<Rightarrow> (\<exists>e store'. walk_steps i as s store = (Inl e, store'))
    | Some s' \<Rightarrow> (\<exists>store'. walk_steps i as s store = (Inr s', store') \<and> store_wf store' \<and> current_canonical_status store' i = Inr s'))"
  using assms
proof (induction as arbitrary: s store)
  case (Cons a as)
  show ?case
  proof (cases "status_transition s a")
    case (Inl m)
    with transition_any_status [OF Cons.prems, of a] show ?thesis by auto
  next
    case (Inr s1)
    with transition_any_status [OF Cons.prems, of a] obtain store1 where
      t: "transition_any i a store = Inr (s1, store1)" "store_wf store1" "current_canonical_status store1 i = Inr s1" by auto
    have "walk_steps i (a # as) s store = walk_steps i as s1 store1" "status_walk (a # as) s = status_walk as s1"
      using t(1) Inr by simp_all
    with Cons.IH [OF t(2,3)] show ?thesis by (simp only:)
  qed
qed simp

lemma qualification_steps_text: "(qualification_steps i a s = Inr steps) = (qualification_steps j a s = Inr steps)"
  by (auto simp: qualification_steps_def split: LifecycleAction.splits ExperienceStatus.splits)

lemma canonical_transition_outcome:
  assumes "sv_canonical (reload mc fs sv) = Some store" and "store_wf store" and "current_canonical_status store i = Inr s"
  shows "case canonical_next a s of
      None \<Rightarrow> isl (fst (service_transition mc now i a who remark sv fs))
    | Some s' \<Rightarrow> fst (service_transition mc now i a who remark sv fs) = Inr (legacy_status s')"
proof (cases "qualification_steps i a s")
  case (Inl e)
  then have "qualification_steps [] a s \<noteq> Inr steps" for steps using qualification_steps_text [of i a s steps "[]"] by simp
  then have "canonical_next a s = None" by (auto simp: canonical_next_def split: sum.split)
  with Inl assms show ?thesis by (simp add: service_transition_def canonical_transition_def Let_def)
next
  case (Inr steps)
  then have n: "canonical_next a s = status_walk steps s"
    using qualification_steps_text [of i a s steps "[]"] by (simp add: canonical_next_def)
  from walk_steps_status [OF assms(2,3), of steps] show ?thesis
    using Inr assms by (auto simp: n service_transition_def canonical_transition_def commit_def Let_def split: option.splits)
qed

text \<open>The two kinds of store do not have the same lifecycle. A status change asked of the service is answered alike
  on a canonical and on a legacy store, with the same new status or with a refusal, except exactly for
  validating a draft, activating a candidate, an active or a decaying experience, and validating or
  revalidating a decaying one.\<close>

theorem backends_agree_iff:
  assumes "sv_canonical (reload mc fs sv) = Some store" and "store_reachable store" and "current_canonical_status store i = Inr s"
    and "sv_canonical svl = None" and "rs_get (load_store mc fsl (sv_store_path svl)) i = Some x" and "rx_status x = legacy_status s"
  shows "(case (fst (service_transition mc now i a by remark sv fs), fst (service_transition mc now i a by remark svl fsl)) of
      (Inr st, Inr st') \<Rightarrow> st = st' | (Inl _, Inl _) \<Rightarrow> True | _ \<Rightarrow> False) \<longleftrightarrow>
    (s, a) \<notin> {(Draft, LcValidate), (Candidate, LcActivate), (Active, LcActivate), (Decaying, LcActivate),
              (Decaying, LcValidate), (Decaying, LcRevalidate)}"
proof -
  have l: "fst (service_transition mc now i a by remark svl fsl) = map_sum MgmtLifecycle id (lifecycle_transition (legacy_status s) a)"
    using assms(4-6) by (auto simp: service_transition_def reload_def rs_transition_def commit_def Let_def split: sum.split)
  note c = canonical_transition_outcome [OF assms(1) store_reachable_imp_wf [OF assms(2)] assms(3), where a = a and now = now and who = "by" and remark = remark]
  have t: "canonical_next a s = (case (s, a) of
      (Candidate, LcValidate) \<Rightarrow> Some Validated | (Candidate, LcActivate) \<Rightarrow> Some Active
    | (Validated, LcActivate) \<Rightarrow> Some Active | (Active, LcActivate) \<Rightarrow> Some Active
    | (Disabled, LcRevalidate) \<Rightarrow> Some Validated | (Decaying, LcRevalidate) \<Rightarrow> Some Validated
    | (_, LcDisable) \<Rightarrow> Some Disabled | _ \<Rightarrow> None)"
    by (cases s; cases a) (simp_all add: canonical_next_def qualification_steps_def)
  show ?thesis
    using c unfolding l t by (cases s; cases a) (auto split: sum.splits)
qed


section \<open>Imported bodies\<close>

text \<open>An imported body takes over the status of what it replaces. Importing into a canonical store under a new name
  stores the body as CANDIDATE; importing over an existing experience stores the outside body with the status
  the old one had, so that over an ACTIVE experience it is offered to the gate at once, without validation.\<close>

theorem import_status_exact:
  assumes "sv_canonical (reload mc fs sv) = Some store" and "store_reachable store"
    and "mc_exp_parse mc raw = Inr x" and "schema_issues x = []"
  shows "\<exists>sv' fs' store'. service_import mc now raw True by sv fs = (Inr (exp_name x), sv', fs') \<and> sv_canonical sv' = Some store' \<and>
    store_get store' (exp_name x) = Some (x\<lparr>exp_status := (case store_get store (exp_name x) of Some old \<Rightarrow> exp_status old | None \<Rightarrow> Candidate)\<rparr>) \<and>
    (\<forall>e p. store_get store (exp_name x) = Some e \<and> exp_status e = Active \<and> pattern_matches (exp_trigger x) p \<longrightarrow>
       x\<lparr>exp_status := Active\<rparr> \<in> set (candidates_for store' p))"
proof -
  let ?n = "exp_name x"
  have wf: "store_wf store" using assms(2) by (rule store_reachable_imp_wf)
  let ?r = "if store_get store ?n \<noteq> None then replace_existing ?n x store else store_insert (x\<lparr>exp_status := Candidate\<rparr>) store"
  let ?st = "case store_get store ?n of Some old \<Rightarrow> exp_status old | None \<Rightarrow> Candidate"
  obtain store' where r: "?r = Inr store'" and wf': "store_wf store'" and g: "store_get store' ?n = Some (x\<lparr>exp_status := ?st\<rparr>)"
  proof (cases "store_get store ?n")
    case None
    let ?x = "x\<lparr>exp_status := Candidate\<rparr>"
    have nb: "\<not> bt_contains (by_name store) ?n" using None by (simp add: store_get_def bt_contains_def)
    have "schema_issues ?x = schema_issues x" unfolding schema_issues_def by simp
    then have "schema_issues ?x = []" using assms(4) by simp
    with nb obtain store' where i: "store_insert ?x store = Inr store'" by (simp add: store_insert_def Let_def)
    have "store_wf store'" by (rule insert_wf [OF wf i])
    moreover have "store_get store' ?n = Some ?x"
      using store_get_iff [OF insert_wf [OF wf i], of ?n ?x] i by (auto simp: store_insert_def Let_def split: if_splits)
    ultimately show thesis using that [of store'] None i by simp
  next
    case (Some old)
    obtain k where k: "bt_get (by_name store) ?n = Some k" "experiences store ! k = old" using Some by (auto simp: store_get_def)
    have len: "k < length (experiences store)" using k by (auto simp: by_name_get [OF wf])
    let ?x = "x\<lparr>exp_status := exp_status old\<rparr>"
    let ?s = "reindex (store\<lparr>experiences := (experiences store)[k := ?x]\<rparr>)"
    have rp: "replace_existing ?n x store = Inr ?s" using k assms(4) by (simp add: replace_existing_def Let_def)
    have w: "store_wf ?s" by (rule replace_wf [OF wf rp])
    have "?x \<in> set (experiences ?s)" using len by (simp add: reindex_def set_update_memI)
    then have "store_get ?s ?n = Some (x\<lparr>exp_status := exp_status old\<rparr>)" by (simp add: store_get_iff [OF w])
    with that [of ?s] Some rp w show thesis by simp
  qed
  have "x\<lparr>exp_status := Active\<rparr> \<in> set (candidates_for store' p)"
    if "store_get store ?n = Some e" "exp_status e = Active" "pattern_matches (exp_trigger x) p" for e p
    using that g by (auto simp: candidates_for_wf [OF wf'] store_get_iff [OF wf'])
  moreover have "service_import mc now raw True by sv fs =
      commit mc now ''import'' ?n by ''imported into the canonical store as CANDIDATE'' ?n ((reload mc fs sv)\<lparr>sv_canonical := Some store'\<rparr>) fs"
    using assms(1,3) r by (simp add: service_import_def canonical_import_def Let_def)
  ultimately show ?thesis using g by (simp add: commit_def Let_def)
qed


section \<open>Who may write the store file\<close>

lemma read_link_free:
  "link_free fs \<Longrightarrow> ''..'' \<notin> set p \<Longrightarrow> node_at fs p = Some (FileNode c) \<Longrightarrow>
   fs_read_to_string fs p = (if utf8_valid c then Inr c else Inl InvalidUtf8)"
  by (simp add: fs_read_to_string_def fs_read_bytes_def stat_def resolve_link_free)

lemma write_link_free:
  assumes "link_free fs" "''..'' \<notin> set p" "fs_write_bytes fs p raw = Inr fs'"
  shows "fs' = put_node p (FileNode raw) fs"
proof -
  have "resolve_path fs p = p" using assms by (intro resolve_link_free)
  with assms(3) show ?thesis unfolding fs_write_bytes_def by (metis fs_open_write_cases)
qed

lemma atomic_write_over_file:
  assumes "link_free fs" "''..'' \<notin> set (d @ [n])" "node_at fs d = Some DirNode" "node_at fs (d @ [n]) = Some (FileNode c)"
  shows "link_free (fst (atomic_write fs (d @ [n]) raw)) \<and> node_at (fst (atomic_write fs (d @ [n]) raw)) d = Some DirNode \<and>
    (node_at (fst (atomic_write fs (d @ [n]) raw)) (d @ [n]) = Some (FileNode c) \<or>
     node_at (fst (atomic_write fs (d @ [n]) raw)) (d @ [n]) = Some (FileNode raw))"
proof -
  let ?p = "d @ [n]" and ?t = "temp_path_for (d @ [n])"
  have t: "?t \<noteq> ?p" "?t \<noteq> d" "''..'' \<notin> set ?t" "butlast ?t = d"
    using temp_path_differs [of ?p] assms(2) by (auto simp: temp_path_for_def)
  show ?thesis
  proof (cases "fs_write_bytes fs ?t raw")
    case (Inl e)
    then have f: "fst (atomic_write fs ?p raw) = try_remove fs ?t" by (simp add: atomic_write_def Let_def)
    have "try_remove fs ?t = fs \<or> try_remove fs ?t = drop_node ?t fs"
      using assms(1) t(3) by (auto simp: try_remove_def fs_remove_file_def locate_link_free split: option.split node.split)
    then show ?thesis unfolding f using assms t by (auto simp: link_free_drop)
  next
    case (Inr fs1)
    then have fs1: "fs1 = put_node ?t (FileNode raw) fs" by (rule write_link_free [OF assms(1) t(3)])
    have lf: "link_free fs1" using assms(1) by (simp add: fs1 link_free_put)
    let ?fs2 = "put_node ?p (FileNode raw) (drop_node ?t fs1)"
    have "fs_rename fs1 ?t ?p = Inr ?fs2"
      unfolding fs_rename_def Let_def locate_link_free [OF lf t(3)] locate_link_free [OF lf assms(2)]
      using assms(3,4) t by (simp add: fs1)
    then have f: "fst (atomic_write fs ?p raw) = ?fs2" using Inr by (simp add: atomic_write_def Let_def)
    show ?thesis unfolding f using assms(3) t lf by (simp add: fs1 link_free_put link_free_drop)
  qed
qed

lemma save_over_file:
  assumes "link_free fs" "''..'' \<notin> set (d @ [n])" "node_at fs d = Some DirNode" "node_at fs (d @ [n]) = Some (FileNode c)"
    and "fs' = fst (save_to_path print fs store (d @ [n]))"
  shows "link_free fs' \<and> node_at fs' d = Some DirNode \<and>
    (node_at fs' (d @ [n]) = Some (FileNode c) \<or> node_at fs' (d @ [n]) = Some (FileNode (print (to_file store))))"
proof (cases "fs_create_dir_all fs d")
  case (Inl e)
  with assms show ?thesis by (simp add: save_to_path_def path_parent_def Let_def)
next
  case (Inr fs1)
  have d: "''..'' \<notin> set ([] @ d)" using assms(2) by simp
  have k: "link_free fs1 \<and> (\<forall>q. node_at fs1 q \<noteq> node_at fs q \<longrightarrow> node_at fs q = None)"
    using mkdirs_link_free [OF assms(1) d, of fs1] Inr by (auto simp: fs_create_dir_all_def)
  have "node_at fs1 d = node_at fs d" "node_at fs1 (d @ [n]) = node_at fs (d @ [n])" using k assms(3,4) by (metis option.distinct(1))+
  with k assms(2-4) atomic_write_over_file [of fs1 d n c] Inr assms(5) show ?thesis
    by (simp add: save_to_path_def path_parent_def Let_def)
qed

lemma mu_load_path [simp]: "mu_path (mu_load mc fs p) = Some p"
  by (simp add: mu_load_def)

lemma mu_audit_path [simp]: "mu_path (mu_audit a i by n now u) = mu_path u"
  by (simp add: mu_audit_def Let_def)

lemma mu_persist_cases:
  assumes "link_free fs" "mu_path u = Some q" "''..'' \<notin> set q"
  shows "mu_persist mc u fs = fs \<or> (\<exists>raw. mu_persist mc u fs = put_node q (FileNode raw) fs)"
  using assms write_link_free [OF assms(1,3)]
  by (auto simp: mu_persist_def mu_save_def split: option.split sum.split)

text \<open>A service that serves a canonical file in an existing directory of a tree without links.\<close>

definition canonical_plane :: "MgmtCodecs \<Rightarrow> ExperienceManagementService \<Rightarrow> fsys \<Rightarrow> bool" where
  "canonical_plane mc sv fs \<longleftrightarrow> sv_canonical sv \<noteq> None \<and> link_free fs \<and>
     detect_format (mc_value mc) fs (sv_store_path sv) = FmtCanonical \<and>
     (\<exists>d n. sv_store_path sv = d @ [n] \<and> sv_usage_path sv = d @ [''usage.json''] \<and> n \<noteq> ''usage.json'' \<and>
        ''..'' \<notin> set (d @ [n]) \<and> node_at fs d = Some DirNode)"

text \<open>What is assumed of \<open>serde_json\<close>: a printed store is valid UTF-8 and carries its schema version.\<close>

definition envelope_law :: "MgmtCodecs \<Rightarrow> bool" where
  "envelope_law mc \<longleftrightarrow>
     (\<forall>f. utf8_valid (mc_store_print mc f) \<and> (\<exists>v. mc_value mc (mc_store_print mc f) = Some v \<and> json_get v ''schema_version'' \<noteq> None))"

lemma detect_canonical_file:
  assumes "link_free fs" "''..'' \<notin> set p"
  shows "detect_format parse fs p = FmtCanonical \<longleftrightarrow>
    (\<exists>c v. node_at fs p = Some (FileNode c) \<and> utf8_valid c \<and> parse c = Some v \<and> json_get v ''schema_version'' \<noteq> None)"
  using assms link_freeD [OF assms(1), of p]
  by (auto simp: detect_format_def fs_read_to_string_def fs_read_bytes_def stat_def resolve_link_free fs_exists_def
      split: option.splits sum.splits node.splits if_splits)

lemma persist_canonical_plane:
  assumes "canonical_plane mc sv fs" "envelope_law mc" "mu_path (sv_usage sv) = Some (sv_usage_path sv)"
  shows "canonical_plane mc sv (service_persist mc sv fs)"
proof -
  from assms(1) obtain store d n where c: "sv_canonical sv = Some store" and lf: "link_free fs" and p: "sv_store_path sv = d @ [n]"
    "sv_usage_path sv = d @ [''usage.json'']" "n \<noteq> ''usage.json''" "''..'' \<notin> set (d @ [n])" "node_at fs d = Some DirNode"
    and f: "detect_format (mc_value mc) fs (d @ [n]) = FmtCanonical"
    by (auto simp: canonical_plane_def)
  from f obtain raw v where stored: "node_at fs (d @ [n]) = Some (FileNode raw)" and ok: "utf8_valid raw" "mc_value mc raw = Some v"
    "json_get v ''schema_version'' \<noteq> None"
    using detect_canonical_file [OF lf p(4)] by auto
  define fs1 where "fs1 = fst (save_to_path (mc_store_print mc) fs store (d @ [n]))"
  have s: "link_free fs1 \<and> node_at fs1 d = Some DirNode \<and>
      (node_at fs1 (d @ [n]) = Some (FileNode raw) \<or> node_at fs1 (d @ [n]) = Some (FileNode (mc_store_print mc (to_file store))))"
    by (rule save_over_file [OF lf p(4,5) stored fs1_def])
  define fs2 where "fs2 = mu_persist mc (sv_usage sv) fs1"
  have q: "''..'' \<notin> set (d @ [''usage.json''])" using p(4) by auto
  have "fs2 = fs1 \<or> (\<exists>raw. fs2 = put_node (d @ [''usage.json'']) (FileNode raw) fs1)"
    unfolding fs2_def by (rule mu_persist_cases [OF _ _ q]) (use s assms(3) p in auto)
  then have k: "link_free fs2" "node_at fs2 d = Some DirNode" "node_at fs2 (d @ [n]) = node_at fs1 (d @ [n])"
    using s p(3) by (auto simp: link_free_put)
  have "detect_format (mc_value mc) fs2 (d @ [n]) = FmtCanonical"
    unfolding detect_canonical_file [OF k(1) p(4)] k(3) using s ok assms(2) by (auto simp: envelope_law_def)
  moreover have "service_persist mc sv fs = fs2" by (simp add: service_persist_def save_canonical_def c p fs2_def fs1_def)
  ultimately show ?thesis using c p k by (auto simp: canonical_plane_def)
qed

definition run_ops :: "MgmtCodecs \<Rightarrow> (nat \<times> string \<times> MgmtOp) list \<Rightarrow> ExperienceManagementService \<times> fsys \<Rightarrow> ExperienceManagementService \<times> fsys" where
  "run_ops mc reqs = fold (\<lambda>(now, by, op) (sv, fs). snd (run_op mc now by op sv fs)) reqs"

lemma run_op_canonical_plane:
  assumes "canonical_plane mc sv fs" "envelope_law mc" "run_op mc now by op sv fs = (r, sv', fs')"
  shows "canonical_plane mc sv' fs' \<and> sv_store_path sv' = sv_store_path sv"
proof (cases r)
  case (Inl e)
  with run_op_shape [of mc now "by" fs sv op] assms show ?thesis by (auto simp: shape_def canonical_plane_def)
next
  case (Inr u)
  with assms(3) have "run_op mc now by op sv fs = (Inr (), sv', fs')" by simp
  then show ?thesis
  proof (rule run_op_committed)
    fix sv1 fs1 a i n
    assume sv': "sv' = sv1\<lparr>sv_usage := mu_audit a i by n now (sv_usage sv1)\<rparr>" and fs': "fs' = service_persist mc sv' fs1"
      and k: "sv_store_path sv1 = sv_store_path sv" "sv_usage_path sv1 = sv_usage_path sv" "sv_canonical sv1 = None \<longleftrightarrow> sv_canonical sv = None"
      and u: "sv_usage sv1 = mu_load mc fs (sv_usage_path sv) \<or>
        (\<exists>a2 i2 n2. sv_usage sv1 = mu_audit a2 i2 by n2 now (mu_load mc fs (sv_usage_path sv)))"
      and fs1: "fs1 = fs \<or> sv_canonical sv = None \<and> (\<exists>raw. fs_write_bytes fs (sv_trash_path (reload mc fs sv)) raw = Inr fs1)"
    have "canonical_plane mc sv' fs" using assms(1) k by (simp add: canonical_plane_def sv')
    moreover have "mu_path (sv_usage sv') = Some (sv_usage_path sv')" using u k by (auto simp: sv')
    moreover have "fs1 = fs" using fs1 assms(1) by (auto simp: canonical_plane_def)
    ultimately show ?thesis using persist_canonical_plane [OF _ assms(2)] k by (simp add: fs' sv')
  qed
qed

text \<open>A canonical store stays canonical. A service opened on a readable canonical store, in an existing directory of a
  tree without symbolic links, never leaves another envelope in the file, whatever is asked of it, in
  whatever order, and whether the single operations succeed or fail. The only assumption about \<open>serde_json\<close>
  is that a printed store is valid UTF-8 and carries its schema version.\<close>

theorem canonical_store_stays_canonical:
  assumes "envelope_law mc" and "link_free fs" and "''..'' \<notin> set (d @ [n])" and "n \<noteq> ''usage.json''" and "node_at fs d = Some DirNode"
    and "detect_format (mc_value mc) fs (d @ [n]) = FmtCanonical" and "store_open (mc_store_parse mc) fs (d @ [n]) = Inr store"
    and "run_ops mc reqs (service_open mc fs (d @ [n]), fs) = (sv', fs')"
  shows "detect_format (mc_value mc) fs' (d @ [n]) = FmtCanonical \<and> sv_canonical sv' \<noteq> None"
proof -
  have c: "clean_comp ''usage.json''" by code_simp
  let ?sv = "service_open mc fs (d @ [n])"
  have "canonical_plane mc ?sv fs"
    using assms(2-7) by (simp add: canonical_plane_def service_open_def Let_def path_parent_def path_join_clean [OF c])
  moreover have "sv_store_path ?sv = d @ [n]" by (simp add: service_open_def Let_def)
  moreover have "canonical_plane mc sv fs \<Longrightarrow> sv_store_path sv = d @ [n] \<Longrightarrow>
      canonical_plane mc (fst (run_ops mc reqs (sv, fs))) (snd (run_ops mc reqs (sv, fs))) \<and>
      sv_store_path (fst (run_ops mc reqs (sv, fs))) = d @ [n]" for sv fs
  proof (induction reqs arbitrary: sv fs)
    case (Cons x reqs)
    obtain now who op where x: "x = (now, who, op)" by (cases x)
    obtain r sv1 fs1 where r: "run_op mc now who op sv fs = (r, sv1, fs1)" by (metis prod_cases3)
    from run_op_canonical_plane [OF Cons.prems(1) assms(1) r] Cons.prems(2) Cons.IH [of sv1 fs1] r show ?case
      by (simp add: run_ops_def x)
  qed (simp add: run_ops_def)
  ultimately show ?thesis using assms(8) by (force simp: canonical_plane_def)
qed


text \<open>A canonical store that cannot be read is overwritten. If the file carries a schema version but the store cannot
  be opened (a newer version, a duplicate name, a schema error), the service falls back to the legacy writer, and
  the next import replaces the whole file by a legacy envelope. Every canonical experience in it is lost,
  although the legacy writer is documented to be unable to overwrite a canonical store.\<close>

theorem unreadable_store_overwritten:
  assumes "link_free fs" and "''..'' \<notin> set (d @ [n])" and "n \<noteq> ''usage.json''"
    and "detect_format (mc_value mc) fs (d @ [n]) = FmtCanonical" and "store_open (mc_store_parse mc) fs (d @ [n]) = Inl err"
    and "mc_run_parse mc raw = Inr x" and "rx_validate x = Inr ()"
    and "new = mc_legacy_print mc (rs_snapshot (rs_upsert x (load_store mc fs (d @ [n]))))" and "utf8_valid new"
    and "mc_value mc new = Some v" and "json_get v ''schema_version'' = None" and "json_get v ''experiences'' \<noteq> None"
  shows "\<exists>sv' fs'. service_import mc now raw True by (service_open mc fs (d @ [n])) fs = (Inr (rx_id x), sv', fs') \<and>
    fs_read_to_string fs' (d @ [n]) = Inr new \<and> detect_format (mc_value mc) fs' (d @ [n]) = FmtLegacy"
proof -
  let ?p = "d @ [n]" and ?sv = "service_open mc fs (d @ [n])"
  have c: "clean_comp ''usage.json''" by code_simp
  have sv: "sv_canonical ?sv = None" "sv_store_path ?sv = ?p" "sv_usage_path ?sv = d @ [''usage.json'']"
    using assms(4,5) by (auto simp: service_open_def Let_def path_parent_def path_join_clean [OF c])
  let ?st = "rs_upsert x (load_store mc fs ?p)"
  let ?sv1 = "(reload mc fs ?sv)\<lparr>sv_store := ?st\<rparr>"
  let ?sv2 = "?sv1\<lparr>sv_usage := mu_audit ''import'' (rx_id x) by ''imported via management service'' now (sv_usage ?sv1)\<rparr>"
  have imp: "service_import mc now raw True by ?sv fs = (Inr (rx_id x), ?sv2, service_persist mc ?sv2 fs)"
    using sv assms(6,7) by (simp add: service_import_def reload_def upsert_validated_def commit_def Let_def)
  obtain old where "node_at fs ?p = Some (FileNode old)" using assms(4) detect_canonical_file [OF assms(1,2)] by auto
  then have w: "fs_write_bytes fs ?p new = Inr (put_node ?p (FileNode new) fs)"
    using assms(1,2) by (simp add: fs_write_bytes_def fs_open_write_def resolve_link_free)
  define fs1 where "fs1 = put_node ?p (FileNode new) fs"
  have s: "save_legacy mc ?st ?p fs = fs1" unfolding fs1_def using w by (simp add: save_legacy_def rs_save_def assms(8))
  have lf: "link_free fs1" using assms(1) by (simp add: fs1_def link_free_put)
  define fs2 where "fs2 = mu_persist mc (sv_usage ?sv2) fs1"
  have q: "''..'' \<notin> set (d @ [''usage.json''])" using assms(2) by auto
  have "fs2 = fs1 \<or> (\<exists>raw. fs2 = put_node (d @ [''usage.json'']) (FileNode raw) fs1)"
    unfolding fs2_def by (rule mu_persist_cases [OF lf _ q]) (simp add: sv)
  then have k: "link_free fs2" "node_at fs2 ?p = Some (FileNode new)" using lf assms(3) by (auto simp: link_free_put fs1_def)
  have p: "service_persist mc ?sv2 fs = fs2" using sv s by (simp add: service_persist_def reload_def fs2_def)
  have r: "fs_read_to_string fs2 ?p = Inr new" using read_link_free [OF k(1) assms(2) k(2)] assms(9) by simp
  then have "detect_format (mc_value mc) fs2 ?p = FmtLegacy" using assms(10-12) by (simp add: detect_format_def)
  with imp p r show ?thesis by simp
qed


section \<open>Concrete runs\<close>

definition demo_mgmt :: MgmtCodecs where
  "demo_mgmt =
     \<lparr>mc_value = (\<lambda>raw. Some (if raw = ''L'' then JObject [(''experiences'', JArray [])] else JObject [(''schema_version'', JNumber 1)])),
      mc_store_parse = (\<lambda>raw. if raw = ''C'' then Inr (to_file demo_store) else Inl ''unsupported''),
      mc_store_print = (\<lambda>_. ''C''), mc_legacy_parse = (\<lambda>raw. if raw = ''L'' then Some \<lparr>snap_experiences = [demo_rx\<lparr>rx_id := ''touch''\<rparr>], snap_pinned = []\<rparr> else None),
      mc_legacy_print = (\<lambda>_. ''L''), mc_usage_parse = (\<lambda>_. None), mc_usage_print = (\<lambda>_. Some ''U''),
      mc_trash_parse = (\<lambda>_. None), mc_trash_print = (\<lambda>_. Inr ''T''), mc_run_parse = (\<lambda>_. Inr demo_rx), mc_run_print = (\<lambda>_. Inr ''R''),
      mc_exp_parse = (\<lambda>_. Inr (demo_instance\<lparr>exp_status := Candidate\<rparr>)), mc_exp_print = (\<lambda>_. Inr ''E''), mc_tmpl_print = (\<lambda>_. Inr ''T''),
      mc_applicability = (\<lambda>_. Inl ''no''), mc_condition = (\<lambda>_. Inl ''no'')\<rparr>"

definition demo_store_fs :: "string \<Rightarrow> fsys" where
  "demo_store_fs raw = put_node [''w'', ''store.json''] (FileNode raw) demo_fs"

abbreviation demo_service :: "string \<Rightarrow> ExperienceManagementService" where
  "demo_service raw \<equiv> service_open demo_mgmt (demo_store_fs raw) ([''w''] @ [''store.json''])"

lemma demo_store_fs_ok: "link_free (demo_store_fs raw)" "node_at (demo_store_fs raw) [''w''] = Some DirNode"
    "node_at (demo_store_fs raw) ([''w''] @ [''store.json'']) = Some (FileNode raw)"
proof -
  have "link_free demo_fs" "node_at demo_fs [''w''] = Some DirNode" by code_simp+
  then show "link_free (demo_store_fs raw)" "node_at (demo_store_fs raw) [''w''] = Some DirNode"
    "node_at (demo_store_fs raw) ([''w''] @ [''store.json'']) = Some (FileNode raw)"
    by (simp_all add: demo_store_fs_def link_free_put)
qed

lemma demo_dots: "''..'' \<notin> set ([''w''] @ [''store.json''])"
  by simp

lemma demo_detect: "utf8_valid raw \<Longrightarrow> raw \<noteq> ''L'' \<Longrightarrow> detect_format (mc_value demo_mgmt) (demo_store_fs raw) ([''w''] @ [''store.json'']) = FmtCanonical"
  unfolding detect_canonical_file [OF demo_store_fs_ok(1) demo_dots] demo_store_fs_ok(3) by (simp add: demo_mgmt_def bt_get_def)

lemma demo_open: "store_open (mc_store_parse demo_mgmt) (demo_store_fs ''C'') ([''w''] @ [''store.json'']) = Inr (with_path ([''w''] @ [''store.json'']) demo_store)"
proof -
  have "utf8_valid ''C''" by code_simp
  then show ?thesis
    using read_link_free [OF demo_store_fs_ok(1) demo_dots demo_store_fs_ok(3), of "''C''"] from_to_file [OF store_reachable_imp_wf [OF demo_store_reachable]]
    by (simp add: store_open_def from_json_def demo_mgmt_def with_path_def)
qed

lemma demo_service_canonical:
  "sv_canonical (demo_service ''C'') = Some (with_path ([''w''] @ [''store.json'']) demo_store)"
  "sv_canonical (reload demo_mgmt (demo_store_fs ''C'') (demo_service ''C'')) = Some (with_path ([''w''] @ [''store.json'']) demo_store)"
proof -
  have "utf8_valid ''C''" by code_simp
  note d = demo_detect [OF this]
  show "sv_canonical (demo_service ''C'') = Some (with_path ([''w''] @ [''store.json'']) demo_store)"
    using d demo_open by (simp add: service_open_def Let_def)
  then show "sv_canonical (reload demo_mgmt (demo_store_fs ''C'') (demo_service ''C'')) = Some (with_path ([''w''] @ [''store.json'']) demo_store)"
    using demo_open by (simp add: reload_def service_open_def Let_def)
qed

abbreviation demo_canonical :: ExperienceStore where
  "demo_canonical \<equiv> with_path ([''w''] @ [''store.json'']) demo_store"

lemma demo_canonical_reachable: "store_reachable demo_canonical"
  by (rule reach_path [OF demo_store_reachable])

lemma demo_canonical_get: "store_get demo_canonical ''touch'' = Some demo_instance"
  by (simp add: store_get_iff [OF store_reachable_imp_wf [OF demo_canonical_reachable]]) code_simp

lemma demo_instance_fields [simp]: "exp_name demo_instance = ''touch''" "exp_status demo_instance = Active"
  by (simp_all add: demo_instance_def)

lemma demo_status: "current_canonical_status demo_canonical ''touch'' = Inr Active"
  unfolding current_canonical_status_def demo_canonical_get by simp

theorem failed_operation_writes_nothing_witness:
  "\<exists>e sv'. run_op demo_mgmt 7 ''me'' (OpTransition ''touch'' LcValidate ''x'') (demo_service ''C'') (demo_store_fs ''C'') =
     (Inl e, sv', demo_store_fs ''C'')"
proof -
  let ?r = "run_op demo_mgmt 7 ''me'' (OpTransition ''touch'' LcValidate ''x'') (demo_service ''C'') (demo_store_fs ''C'')"
  have "current_canonical_status demo_canonical ''touch'' = Inr Active" by (rule demo_status)
  moreover have "canonical_next LcValidate Active = None" by code_simp
  ultimately have "isl (fst (service_transition demo_mgmt 7 ''touch'' LcValidate ''me'' ''x'' (demo_service ''C'') (demo_store_fs ''C'')))"
    using canonical_transition_outcome [OF demo_service_canonical(2) store_reachable_imp_wf [OF demo_canonical_reachable],
      where a = LcValidate and i = "''touch''" and s = Active] by simp
  then obtain e sv' fs' where r: "?r = (Inl e, sv', fs')"
    by (cases ?r) (auto simp: ignore_def isl_def split: prod.splits)
  from failed_operation_writes_nothing [OF r] r show ?thesis by blast
qed

lemma demo_pin:
  "\<exists>sv' fs'. run_op demo_mgmt 7 ''me'' (OpPin ''touch'') (demo_service ''C'') (demo_store_fs ''C'') = (Inr (), sv', fs')"
proof -
  have "Store.contains demo_canonical ''touch''" by code_simp
  then obtain st where "Store.pin ''touch'' demo_canonical = Inr st" by (simp add: Store.pin_def)
  then show ?thesis using demo_service_canonical(2) by (simp add: service_pin_def canonical_pin_def commit_def Let_def)
qed


lemma demo_service_legacy:
  "sv_canonical (demo_service ''L'') = None" "sv_store_path (demo_service ''L'') = [''w''] @ [''store.json'']"
  "rs_get (load_store demo_mgmt (demo_store_fs ''L'') ([''w''] @ [''store.json''])) ''touch'' = Some (demo_rx\<lparr>rx_id := ''touch''\<rparr>)"
proof -
  have u: "utf8_valid ''L''" by code_simp
  note r = read_link_free [OF demo_store_fs_ok(1) demo_dots demo_store_fs_ok(3), of "''L''"]
  have "detect_format (mc_value demo_mgmt) (demo_store_fs ''L'') ([''w''] @ [''store.json'']) = FmtLegacy"
    using r u by (simp add: detect_format_def demo_mgmt_def bt_get_def)
  then show "sv_canonical (demo_service ''L'') = None" "sv_store_path (demo_service ''L'') = [''w''] @ [''store.json'']"
    by (simp_all add: service_open_def Let_def)
  show "rs_get (load_store demo_mgmt (demo_store_fs ''L'') ([''w''] @ [''store.json''])) ''touch'' = Some (demo_rx\<lparr>rx_id := ''touch''\<rparr>)"
    using r u by (simp add: load_store_def rs_load_def demo_mgmt_def rs_restore_def RunStore_new_def rs_upsert_def rs_get_def bt_get_def)
qed

theorem backends_agree_iff_witness:
  "fst (service_transition demo_mgmt 7 ''touch'' LcActivate ''me'' ''x'' (demo_service ''C'') (demo_store_fs ''C'')) \<noteq>
   fst (service_transition demo_mgmt 7 ''touch'' LcActivate ''me'' ''x'' (demo_service ''L'') (demo_store_fs ''L'')) \<and>
   current_canonical_status demo_canonical ''touch'' = Inr Active"
proof -
  have s: "current_canonical_status demo_canonical ''touch'' = Inr Active" by (rule demo_status)
  have "rs_get (load_store demo_mgmt (demo_store_fs ''L'') (sv_store_path (demo_service ''L''))) ''touch'' = Some (demo_rx\<lparr>rx_id := ''touch''\<rparr>)"
    "rx_status (demo_rx\<lparr>rx_id := ''touch''\<rparr>) = legacy_status Active"
    using demo_service_legacy(2,3) by (simp_all add: demo_rx_def)
  from backends_agree_iff [OF demo_service_canonical(2) demo_canonical_reachable s demo_service_legacy(1) this, of 7 LcActivate "''me''" "''x''"] s
  show ?thesis by (auto split: sum.splits)
qed

theorem import_status_exact_witness:
  "\<exists>sv' fs' store'. service_import demo_mgmt 7 ''raw'' True ''me'' (demo_service ''C'') (demo_store_fs ''C'') = (Inr ''touch'', sv', fs') \<and>
     sv_canonical sv' = Some store' \<and> store_get store' ''touch'' = Some demo_instance"
proof -
  let ?x = "demo_instance\<lparr>exp_status := Candidate\<rparr>"
  have p: "mc_exp_parse demo_mgmt ''raw'' = Inr ?x" by (simp add: demo_mgmt_def)
  have i: "schema_issues ?x = []" by code_simp
  have "?x\<lparr>exp_status := Active\<rparr> = demo_instance" by (simp add: demo_instance_def)
  with import_status_exact [OF demo_service_canonical(2) demo_canonical_reachable p i, of 7 "''me''"] demo_canonical_get show ?thesis
    by (auto simp: demo_instance_fields)
qed

lemma demo_envelope: "envelope_law demo_mgmt"
proof -
  have "utf8_valid ''C''" by code_simp
  then show ?thesis by (simp add: envelope_law_def demo_mgmt_def bt_get_def)
qed

theorem canonical_store_stays_canonical_witness:
  "detect_format (mc_value demo_mgmt) (snd (run_ops demo_mgmt [(7, ''me'', OpPin ''touch''), (8, ''me'', OpDelete ''touch'')]
     (demo_service ''C'', demo_store_fs ''C''))) ([''w''] @ [''store.json'']) = FmtCanonical"
proof -
  obtain sv' fs' where r: "run_ops demo_mgmt [(7, ''me'', OpPin ''touch''), (8, ''me'', OpDelete ''touch'')] (demo_service ''C'', demo_store_fs ''C'') = (sv', fs')"
    by fastforce
  have "utf8_valid ''C''" by code_simp
  from canonical_store_stays_canonical [OF demo_envelope demo_store_fs_ok(1) demo_dots _ demo_store_fs_ok(2) demo_detect [OF this] demo_open r] r
  show ?thesis by simp
qed

theorem unreadable_store_overwritten_witness:
  "\<exists>sv' fs'. service_import demo_mgmt 7 ''raw'' True ''me'' (demo_service ''2'') (demo_store_fs ''2'') = (Inr ''x1'', sv', fs') \<and>
     detect_format (mc_value demo_mgmt) fs' ([''w''] @ [''store.json'']) = FmtLegacy"
proof -
  have u: "utf8_valid ''2''" "utf8_valid ''L''" by code_simp+
  have o: "\<exists>err. store_open (mc_store_parse demo_mgmt) (demo_store_fs ''2'') ([''w''] @ [''store.json'']) = Inl err"
    using read_link_free [OF demo_store_fs_ok(1) demo_dots demo_store_fs_ok(3), of "''2''"] u
    by (simp add: store_open_def from_json_def demo_mgmt_def)
  have x: "mc_run_parse demo_mgmt ''raw'' = Inr demo_rx" "rx_id demo_rx = ''x1''" by (simp_all add: demo_mgmt_def demo_rx_def)
  have v: "rx_validate demo_rx = Inr ()" by code_simp
  have l: "mc_legacy_print demo_mgmt snap = ''L''" for snap by (simp add: demo_mgmt_def)
  have j: "mc_value demo_mgmt ''L'' = Some (JObject [(''experiences'', JArray [])])" by (simp add: demo_mgmt_def)
  from o obtain err where o': "store_open (mc_store_parse demo_mgmt) (demo_store_fs ''2'') ([''w''] @ [''store.json'']) = Inl err" by blast
  have d: "detect_format (mc_value demo_mgmt) (demo_store_fs ''2'') ([''w''] @ [''store.json'']) = FmtCanonical"
    by (rule demo_detect [OF u(1)]) simp
  have g: "json_get (JObject [(''experiences'', JArray [])]) ''schema_version'' = None"
    "json_get (JObject [(''experiences'', JArray [])]) ''experiences'' \<noteq> None" by (simp_all add: bt_get_def)
  have "\<exists>sv' fs'. service_import demo_mgmt 7 ''raw'' True ''me'' (demo_service ''2'') (demo_store_fs ''2'') = (Inr (rx_id demo_rx), sv', fs') \<and>
    fs_read_to_string fs' ([''w''] @ [''store.json'']) = Inr ''L'' \<and> detect_format (mc_value demo_mgmt) fs' ([''w''] @ [''store.json'']) = FmtLegacy"
    by (rule unreadable_store_overwritten [OF demo_store_fs_ok(1) demo_dots _ d o' x(1) v l [symmetric] u(2) j g]) simp
  then show ?thesis unfolding x(2) by blast
qed

end
