(* ===== verification/Codex_Gate.thy ===== *)
theory Codex_Gate
  imports Gate Management
begin

text \<open>
  The gate inside the Codex agent (\<open>codex-rs/core/src/experience_p1_gate.rs\<close>): which store the process arms
  itself with, the runtime it loads once, the fuse against takeover loops, and the three seats from which
  the runtime of theory \<open>Gate\<close> is asked: the task of a turn, the state of the world, and a single tool call of
  the model. Every takeover is layered into the usage file of theory \<open>Management\<close>. The statics of the module
  are the record \<open>GateProcess\<close>; the environment, the home directory, the process host and the printing of JSON
  values are the record \<open>GateEnv\<close>. A panic of the runtime is the left side of a result.
\<close>

section \<open>The process\<close>

record GateEnv =
  ge_vars :: "string \<Rightarrow> string option"
  ge_home :: "path option"
  ge_cwd :: path
  ge_host :: Host
  ge_codecs :: MgmtCodecs
  ge_json :: "json \<Rightarrow> string"
  ge_clock :: "fsys \<Rightarrow> string \<Rightarrow> nat"

text \<open>The two clocks a call reads: the monotonic one in nanoseconds, the wall clock in seconds.\<close>

record Moment =
  mo_instant :: nat
  mo_secs :: nat

record GateProcess =
  gp_runtime :: "ExperienceGateRuntime option"
  gp_hits :: "(nat \<times> nat) option"
  gp_task :: "string option"
  gp_armed :: "bool option"

definition MAX_GATE_HITS :: nat where "MAX_GATE_HITS = 15"
definition GATE_WINDOW :: nat where "GATE_WINDOW = 60 * 10 ^ 9"
definition TASK_GATE_TOOL :: string where "TASK_GATE_TOOL = ''task''"
definition TASK_PREFIX_GATE_TOOL :: string where "TASK_PREFIX_GATE_TOOL = ''task_prefix''"
definition STATE_GATE_TOOL :: string where "STATE_GATE_TOOL = ''state''"
definition MAX_STATE_TAKEOVERS :: nat where "MAX_STATE_TAKEOVERS = 2"

definition gate_hit_allowed :: "nat \<Rightarrow> (nat \<times> nat) option \<Rightarrow> bool \<times> (nat \<times> nat) option" where
  "gate_hit_allowed t hits =
     (case hits of
        Some (started, count) \<Rightarrow>
          (if t - started < GATE_WINDOW then
             (if count \<ge> MAX_GATE_HITS then (False, hits) else (True, Some (started, count + 1)))
           else (True, Some (t, 1)))
      | None \<Rightarrow> (True, Some (t, 1)))"

section \<open>Which store\<close>

definition switched_on :: "(string \<Rightarrow> string option) \<Rightarrow> string \<Rightarrow> bool" where
  "switched_on vars n =
     (case vars n of
        Some v \<Rightarrow> to_lowercase (trim_str v) \<notin> {''0'', ''false'', ''no'', ''off''}
      | None \<Rightarrow> True)"

definition experience_enabled :: "(string \<Rightarrow> string option) \<Rightarrow> bool" where
  "experience_enabled vars = switched_on vars ''EXPERIENCE_ENABLED''"

definition state_seat_enabled :: "(string \<Rightarrow> string option) \<Rightarrow> bool" where
  "state_seat_enabled vars = switched_on vars ''EXPERIENCE_STATE_GATE''"

definition empty_envelope :: string where
  "empty_envelope =
     ''{'' @ [CHR 0x0A] @ ''  '' @ [CHR 0x22] @ ''schema_version'' @ [CHR 0x22] @ '': 1,'' @ [CHR 0x0A] @
     ''  '' @ [CHR 0x22] @ ''experiences'' @ [CHR 0x22] @ '': [],'' @ [CHR 0x0A] @
     ''  '' @ [CHR 0x22] @ ''templates'' @ [CHR 0x22] @ '': []'' @ [CHR 0x0A] @ ''}'' @ [CHR 0x0A]"

definition ensure_default_store :: "GateEnv \<Rightarrow> path \<Rightarrow> fsys \<Rightarrow> bool \<times> fsys" where
  "ensure_default_store env p fs =
     (if ge_vars env STORE_PATH_ENV \<noteq> None then (False, fs)
      else if detect_format (mc_value (ge_codecs env)) fs p \<noteq> FmtMissing then (False, fs)
      else case path_parent p of
        None \<Rightarrow> (False, fs)
      | Some d \<Rightarrow>
          (case fs_create_dir_all fs d of
             Inl _ \<Rightarrow> (False, fs)
           | Inr fs1 \<Rightarrow>
               (case fs_write_bytes fs1 p empty_envelope of
                  Inr fs2 \<Rightarrow> (True, fs2)
                | Inl _ \<Rightarrow> (False, fs1))))"

definition resolved_store_path :: "GateEnv \<Rightarrow> fsys \<Rightarrow> path option \<times> fsys" where
  "resolved_store_path env fs =
     (case (case ge_vars env STORE_PATH_ENV of Some p \<Rightarrow> (if p \<noteq> [] then Some p else None) | None \<Rightarrow> None) of
        Some p \<Rightarrow> (Some (path_of_text p), fs)
      | None \<Rightarrow>
          (case ge_home env of
             None \<Rightarrow> (None, fs)
           | Some home \<Rightarrow>
               (let p = resolve_store_path (ge_vars env) home;
                    fs' = snd (ensure_default_store env p fs)
                in (if detect_format (mc_value (ge_codecs env)) fs' p = FmtCanonical then Some p else None, fs'))))"

definition gate_enabled :: "GateEnv \<Rightarrow> fsys \<Rightarrow> bool \<times> fsys" where
  "gate_enabled env fs =
     (if experience_enabled (ge_vars env) then
        (case resolved_store_path env fs of (p, fs') \<Rightarrow> (p \<noteq> None, fs'))
      else (False, fs))"

definition store_configured :: "GateEnv \<Rightarrow> GateProcess \<Rightarrow> fsys \<Rightarrow> bool \<times> GateProcess \<times> fsys" where
  "store_configured env gp fs =
     (case gp_armed gp of
        Some b \<Rightarrow> (b, gp, fs)
      | None \<Rightarrow>
          (case (case ge_vars env STORE_PATH_ENV of Some p \<Rightarrow> p \<noteq> [] | None \<Rightarrow> False) \<or> ge_vars env ''EXPERIENCE_TASK_GATE'' \<noteq> None of
             True \<Rightarrow> (True, gp\<lparr>gp_armed := Some True\<rparr>, fs)
           | False \<Rightarrow>
               (case resolved_store_path env fs of
                  (p, fs') \<Rightarrow> (p \<noteq> None, gp\<lparr>gp_armed := Some (p \<noteq> None)\<rparr>, fs'))))"

definition load_runtime :: "GateEnv \<Rightarrow> fsys \<Rightarrow> ExperienceGateRuntime option \<times> fsys" where
  "load_runtime env fs =
     (case resolved_store_path env fs of
        (None, fs') \<Rightarrow> (None, fs')
      | (Some p, fs') \<Rightarrow>
          (case store_open (mc_store_parse (ge_codecs env)) fs' p of
             Inl _ \<Rightarrow> (None, fs')
           | Inr store \<Rightarrow>
               (let policy = global_policy store;
                    runner = (case ge_vars env ''EXPERIENCE_GATE_BACKUP_ROOT'' of
                                Some dir \<Rightarrow> runner_with_backup_and_policy (path_of_text dir) policy
                              | None \<Rightarrow> runner_with_policy policy)
                in (Some \<lparr>rt_store = store, rt_probe = LocalProbe, rt_runner = LocalRunner_run (ge_host env) runner,
                          rt_cancel = (\<lambda>_. False), rt_clock = ge_clock env\<rparr>, fs'))))"

definition runtime :: "GateEnv \<Rightarrow> GateProcess \<Rightarrow> fsys \<Rightarrow> ExperienceGateRuntime option \<times> GateProcess \<times> fsys" where
  "runtime env gp fs =
     (case gate_enabled env fs of
        (False, fs1) \<Rightarrow> (None, gp, fs1)
      | (True, fs1) \<Rightarrow>
          (case gp_runtime gp of
             Some rt \<Rightarrow> (Some rt, gp, fs1)
           | None \<Rightarrow> (case load_runtime env fs1 of (r, fs2) \<Rightarrow> (r, gp\<lparr>gp_runtime := r\<rparr>, fs2))))"

definition gate_context :: "GateEnv \<Rightarrow> GateContext" where
  "gate_context env =
     \<lparr>cwd = (case ge_vars env ''EXPERIENCE_GATE_CWD'' of Some d \<Rightarrow> path_of_text d | None \<Rightarrow> ge_cwd env)\<rparr>"

section \<open>Observation\<close>

datatype ResponseItem = FunctionCall string string string | OtherItem

definition note_task_text :: "GateEnv \<Rightarrow> string \<Rightarrow> GateProcess \<Rightarrow> GateProcess" where
  "note_task_text env task_text gp =
     (if ge_vars env ''EXPERIENCE_TRACE_OUT'' = None then gp else gp\<lparr>gp_task := Some task_text\<rparr>)"

definition call_args :: "GateEnv \<Rightarrow> string \<Rightarrow> json" where
  "call_args env arguments = (case mc_value (ge_codecs env) arguments of Some v \<Rightarrow> v | None \<Rightarrow> JString arguments)"

definition record_observed_call :: "GateEnv \<Rightarrow> GateProcess \<Rightarrow> ResponseItem \<Rightarrow> fsys \<Rightarrow> fsys" where
  "record_observed_call env gp item fs =
     (case (ge_vars env ''EXPERIENCE_TRACE_OUT'', item) of
        (Some p, FunctionCall call_id name arguments) \<Rightarrow>
          (let line = ge_json env (JObject [(''task'', JString (case gp_task gp of Some t \<Rightarrow> t | None \<Rightarrow> [])),
                        (''action'', JString name), (''args'', call_args env arguments)])
           in case fs_append_bytes fs (path_of_text p) (line @ [CHR 0x0A]) of Inr fs' \<Rightarrow> fs' | Inl _ \<Rightarrow> fs)
      | _ \<Rightarrow> fs)"

section \<open>What a takeover reports and records\<close>

fun completion_debug :: "CompletionStatus \<Rightarrow> string" where
  "completion_debug Completed = ''Completed''"
| "completion_debug Partial = ''Partial''"
| "completion_debug CFailed = ''Failed''"

fun verification_debug :: "VerificationStatus \<Rightarrow> string" where
  "verification_debug Verified = ''Verified''"
| "verification_debug Unverified = ''Unverified''"
| "verification_debug VFailed = ''Failed''"

definition summary_heading :: "GateHitResult \<Rightarrow> string" where
  "summary_heading r =
     (if is_success r then
        (if executed r = [] then ''EXPERIENCE GATE: already satisfied; no action needed; original tool NOT dispatched''
         else ''EXPERIENCE GATE: takeover completed; original tool NOT dispatched'')
      else ''EXPERIENCE GATE: takeover resolved with issues; original tool NOT dispatched'')"

definition executed_lines :: "GateEnv \<Rightarrow> ExecutedStep \<Rightarrow> string list" where
  "executed_lines env s =
     (''- '' @ done_action s @ '' '' @ ge_json env (done_args s)) #
     (case done_evidence s of Some ev \<Rightarrow> [''  evidence: '' @ ev] | None \<Rightarrow> [])"

definition headed :: "string \<Rightarrow> string list \<Rightarrow> string list" where
  "headed heading ls = (if ls = [] then [] else heading # ls)"

definition summarize :: "GateEnv \<Rightarrow> GateHitResult \<Rightarrow> string" where
  "summarize env r =
     join_str [CHR 0x0A]
       ([summary_heading r,
         ''status='' @ completion_debug (completion_status r) @ '' verification='' @ verification_debug (verification_status r)] @
        headed ''executed:'' (concat (map (executed_lines env) (executed r))) @
        headed ''side effects:'' (map (\<lambda>eff. ''- '' @ eff_description eff) (executed_side_effects r)) @
        headed ''state_after:'' (map (\<lambda>f. ''- '' @ fact_key f @ '' = '' @ ge_json env (fact_val f)) (state_after r)) @
        (if completion_status r \<noteq> Completed then map (\<lambda>ev. ''note: '' @ ev) (execution_evidence r) else []))"

definition gate_usage_outcome_for :: "bool \<Rightarrow> bool \<Rightarrow> string option" where
  "gate_usage_outcome_for success executed_empty =
     (if success then None else if executed_empty then Some ''invalid'' else Some ''misfire'')"

definition gate_usage_outcome :: "GateHitResult \<Rightarrow> string option" where
  "gate_usage_outcome r = gate_usage_outcome_for (is_success r) (executed r = [])"

definition gate_log :: "nat \<Rightarrow> string \<Rightarrow> string \<Rightarrow> GateHitResult \<Rightarrow> MgmtUsageLog" where
  "gate_log secs band process r =
     \<lparr>ul_at = secs, ul_band = band, ul_outcome = gate_usage_outcome r, ul_thread_id = None, ul_turn_id = None,
      ul_process = process, ul_task = None, ul_template_audit = template_audit r\<rparr>"

definition record_gate_usage :: "GateEnv \<Rightarrow> nat \<Rightarrow> string \<Rightarrow> string \<Rightarrow> string \<Rightarrow> GateHitResult \<Rightarrow> fsys \<Rightarrow> fsys" where
  "record_gate_usage env secs name band process r fs =
     (case resolved_store_path env fs of
        (None, fs1) \<Rightarrow> fs1
      | (Some p, fs1) \<Rightarrow>
          (case path_parent p of
             None \<Rightarrow> fs1
           | Some d \<Rightarrow>
               (let q = path_join d ''usage.json'';
                    u = record_logged_with_audit name (gate_log secs band process r) (mu_load (ge_codecs env) fs1 q)
                in fst (mu_save (ge_codecs env) u q fs1))))"

section \<open>The seats\<close>

text \<open>Execute a decision and record its outcome; the band may depend on the result.\<close>

definition run_takeover :: "GateEnv \<Rightarrow> ExperienceGateRuntime \<Rightarrow> nat \<Rightarrow> ActionProposal \<Rightarrow> GateDecision \<Rightarrow> (bool \<Rightarrow> string) \<Rightarrow> string \<Rightarrow> fsys
    \<Rightarrow> (string + GateHitResult) \<times> fsys" where
  "run_takeover env rt secs p d band process fs =
     (case gate_execute rt (gate_context env) p d fs of
        (Inl panic, fs') \<Rightarrow> (Inl panic, fs')
      | (Inr r, fs') \<Rightarrow>
          (Inr r, record_gate_usage env secs (case experience_name d of Some n \<Rightarrow> n | None \<Rightarrow> []) (band (is_success r)) process r fs'))"

definition only_or_first :: "bool \<Rightarrow> string" where
  "only_or_first ok = (if ok then ''experience_only'' else ''experience_first'')"

record GatePayload =
  po_body :: string
  po_success :: "bool option"

definition try_experience_gate :: "GateEnv \<Rightarrow> Moment \<Rightarrow> ResponseItem \<Rightarrow> GateProcess \<Rightarrow> fsys
    \<Rightarrow> (string + (string \<times> GatePayload) option) \<times> GateProcess \<times> fsys" where
  "try_experience_gate env mo item gp fs =
     (case item of
        OtherItem \<Rightarrow> (Inr None, gp, fs)
      | FunctionCall call_id name arguments \<Rightarrow>
          (case runtime env gp fs of
             (None, gp1, fs1) \<Rightarrow> (Inr None, gp1, fs1)
           | (Some rt, gp1, fs1) \<Rightarrow>
               (let p = \<lparr>prop_tool = name, prop_args = call_args env arguments\<rparr>;
                    d = decide rt fs1 (gate_context env) p
                in if \<not> is_takeover d then (Inr None, gp1, fs1)
                   else case gate_hit_allowed (mo_instant mo) (gp_hits gp1) of
                     (False, hits) \<Rightarrow> (Inr None, gp1\<lparr>gp_hits := hits\<rparr>, fs1)
                   | (True, hits) \<Rightarrow>
                       (case run_takeover env rt (mo_secs mo) p d (\<lambda>_. ''experience_only'') ''codex-m4-gate'' fs1 of
                          (Inl panic, fs2) \<Rightarrow> (Inl panic, gp1\<lparr>gp_hits := hits\<rparr>, fs2)
                        | (Inr r, fs2) \<Rightarrow>
                            (Inr (Some (call_id, \<lparr>po_body = summarize env r, po_success = Some (is_success r)\<rparr>)),
                             gp1\<lparr>gp_hits := hits\<rparr>, fs2)))))"

datatype TaskGateOutcome = TaskMiss | TaskCompleted string string | TaskHandoff string string

definition task_proposal :: "string \<Rightarrow> string \<Rightarrow> ActionProposal" where
  "task_proposal tool task_text = \<lparr>prop_tool = tool, prop_args = JObject [(''task'', JString task_text), (''text'', JString task_text)]\<rparr>"

text \<open>One attempt of the task seat: \<^const>\<open>None\<close> if the runtime does not take over.\<close>

definition task_attempt :: "GateEnv \<Rightarrow> ExperienceGateRuntime \<Rightarrow> Moment \<Rightarrow> ActionProposal \<Rightarrow> (bool \<Rightarrow> string) \<Rightarrow> bool \<Rightarrow> GateProcess \<Rightarrow> fsys
    \<Rightarrow> ((string + TaskGateOutcome) \<times> GateProcess \<times> fsys) option" where
  "task_attempt env rt mo p band may_complete gp fs =
     (let d = decide rt fs (gate_context env) p
      in if \<not> is_takeover d then None
         else Some (case gate_hit_allowed (mo_instant mo) (gp_hits gp) of
           (False, hits) \<Rightarrow> (Inr TaskMiss, gp\<lparr>gp_hits := hits\<rparr>, fs)
         | (True, hits) \<Rightarrow>
             (let n = (case experience_name d of Some n \<Rightarrow> n | None \<Rightarrow> [])
              in case run_takeover env rt (mo_secs mo) p d band ''codex-m6-task-gate'' fs of
                   (Inl panic, fs') \<Rightarrow> (Inl panic, gp\<lparr>gp_hits := hits\<rparr>, fs')
                 | (Inr r, fs') \<Rightarrow>
                     (Inr (if may_complete \<and> is_success r then TaskCompleted n (summarize env r) else TaskHandoff n (summarize env r)),
                      gp\<lparr>gp_hits := hits\<rparr>, fs'))))"

definition try_task_gate :: "GateEnv \<Rightarrow> Moment \<Rightarrow> string \<Rightarrow> GateProcess \<Rightarrow> fsys \<Rightarrow> (string + TaskGateOutcome) \<times> GateProcess \<times> fsys" where
  "try_task_gate env mo task_text gp fs =
     (case runtime env gp fs of
        (None, gp1, fs1) \<Rightarrow> (Inr TaskMiss, gp1, fs1)
      | (Some rt, gp1, fs1) \<Rightarrow>
          (case task_attempt env rt mo (task_proposal TASK_GATE_TOOL task_text) only_or_first True gp1 fs1 of
             Some r \<Rightarrow> r
           | None \<Rightarrow>
               (case task_attempt env rt mo (task_proposal TASK_PREFIX_GATE_TOOL task_text) (\<lambda>_. ''experience_first'') False gp1 fs1 of
                  Some r \<Rightarrow> r
                | None \<Rightarrow> (Inr TaskMiss, gp1, fs1))))"

record StateTakeover =
  tk_experience :: string
  tk_summary :: string
  tk_success :: bool

definition state_proposal :: ActionProposal where
  "state_proposal = \<lparr>prop_tool = STATE_GATE_TOOL, prop_args = JObject [(''trigger'', JString ''state'')]\<rparr>"

fun state_loop :: "GateEnv \<Rightarrow> ExperienceGateRuntime \<Rightarrow> (nat \<Rightarrow> Moment) \<Rightarrow> nat \<Rightarrow> nat \<Rightarrow> StateTakeover list \<Rightarrow> GateProcess \<Rightarrow> fsys
    \<Rightarrow> (string + StateTakeover list) \<times> GateProcess \<times> fsys" where
  "state_loop env rt mos i 0 acc gp fs = (Inr acc, gp, fs)"
| "state_loop env rt mos i (Suc n) acc gp fs =
     (let d = decide rt fs (gate_context env) state_proposal
      in if \<not> is_takeover d \<or> is_satisfied d then (Inr acc, gp, fs)
         else case gate_hit_allowed (mo_instant (mos i)) (gp_hits gp) of
           (False, hits) \<Rightarrow> (Inr acc, gp\<lparr>gp_hits := hits\<rparr>, fs)
         | (True, hits) \<Rightarrow>
             (case run_takeover env rt (mo_secs (mos i)) state_proposal d only_or_first ''codex-v2-state-gate'' fs of
                (Inl panic, fs') \<Rightarrow> (Inl panic, gp\<lparr>gp_hits := hits\<rparr>, fs')
              | (Inr r, fs') \<Rightarrow>
                  (let acc' = acc @ [\<lparr>tk_experience = (case experience_name d of Some n \<Rightarrow> n | None \<Rightarrow> []),
                         tk_summary = summarize env r, tk_success = is_success r\<rparr>]
                   in if is_success r then state_loop env rt mos (Suc i) n acc' (gp\<lparr>gp_hits := hits\<rparr>) fs'
                      else (Inr acc', gp\<lparr>gp_hits := hits\<rparr>, fs'))))"

definition try_state_gate :: "GateEnv \<Rightarrow> (nat \<Rightarrow> Moment) \<Rightarrow> GateProcess \<Rightarrow> fsys \<Rightarrow> (string + StateTakeover list) \<times> GateProcess \<times> fsys" where
  "try_state_gate env mos gp fs =
     (if \<not> state_seat_enabled (ge_vars env) then (Inr [], gp, fs)
      else case runtime env gp fs of
        (None, gp1, fs1) \<Rightarrow> (Inr [], gp1, fs1)
      | (Some rt, gp1, fs1) \<Rightarrow> state_loop env rt mos 0 MAX_STATE_TAKEOVERS [] gp1 fs1)"

section \<open>Runs of the process\<close>

definition GateProcess_start :: GateProcess where
  "GateProcess_start = \<lparr>gp_runtime = None, gp_hits = None, gp_task = None, gp_armed = None\<rparr>"

text \<open>
  A run is a sequence of seat calls at non-decreasing instants. Between two of them the management service,
  the agent and other programs may change every file. A run is labelled with the instants of its
  takeovers; a takeover that panics counts for the two seats that make at most one.
\<close>

definition state_hits :: "(nat \<Rightarrow> Moment) \<Rightarrow> string + StateTakeover list \<Rightarrow> nat list" where
  "state_hits mos r = (case r of Inr tks \<Rightarrow> map (\<lambda>i. mo_instant (mos i)) [0..<length tks] | Inl _ \<Rightarrow> [])"

inductive seats :: "GateEnv \<Rightarrow> nat \<times> GateProcess \<times> fsys \<Rightarrow> nat list \<Rightarrow> nat \<times> GateProcess \<times> fsys \<Rightarrow> bool" for env s where
  seats_refl: "seats env s [] s"
| seats_elsewhere: "seats env s hs (t, gp, fs) \<Longrightarrow> t \<le> t' \<Longrightarrow> seats env s hs (t', gp, fs')"
| seats_armed: "seats env s hs (t, gp, fs) \<Longrightarrow> store_configured env gp fs = (b, gp', fs') \<Longrightarrow> seats env s hs (t, gp', fs')"
| seats_note: "seats env s hs (t, gp, fs) \<Longrightarrow> seats env s hs (t, note_task_text env task_text gp, fs)"
| seats_observe: "seats env s hs (t, gp, fs) \<Longrightarrow> seats env s hs (t, gp, record_observed_call env gp item fs)"
| seats_tool: "seats env s hs (t, gp, fs) \<Longrightarrow> mo_instant mo = t \<Longrightarrow> try_experience_gate env mo item gp fs = (r, gp', fs') \<Longrightarrow>
    seats env s (hs @ (if r = Inr None then [] else [t])) (t, gp', fs')"
| seats_task: "seats env s hs (t, gp, fs) \<Longrightarrow> mo_instant mo = t \<Longrightarrow> try_task_gate env mo task_text gp fs = (r, gp', fs') \<Longrightarrow>
    seats env s (hs @ (if r = Inr TaskMiss then [] else [t])) (t, gp', fs')"
| seats_state: "seats env s hs (t, gp, fs) \<Longrightarrow> mo_instant (mos 0) = t \<Longrightarrow> mono (\<lambda>i. mo_instant (mos i)) \<Longrightarrow>
    try_state_gate env mos gp fs = (r, gp', fs') \<Longrightarrow>
    seats env s (hs @ state_hits mos r) (mo_instant (mos MAX_STATE_TAKEOVERS), gp', fs')"

subsection \<open>The fuse\<close>

definition hits_in :: "nat \<Rightarrow> nat list \<Rightarrow> nat" where
  "hits_in w hs = length (filter (\<lambda>h. w \<le> h \<and> h < w + GATE_WINDOW) hs)"

lemma hits_in_append [simp]: "hits_in w (hs @ gs) = hits_in w hs + hits_in w gs"
  by (simp add: hits_in_def)

lemma hits_in_le: "hits_in w hs \<le> length hs"
  by (simp add: hits_in_def)

lemma hits_in_late: "\<forall>h \<in> set hs. h < w \<Longrightarrow> hits_in w hs = 0"
  by (auto simp: hits_in_def filter_empty_conv)

lemma hits_in_early: "\<forall>h \<in> set hs. w + GATE_WINDOW \<le> h \<Longrightarrow> hits_in w hs = 0"
  by (auto simp: hits_in_def filter_empty_conv)

lemma hits_in_after: "s < w \<Longrightarrow> hits_in w hs \<le> length (filter (\<lambda>h. s < h) hs)"
  unfolding hits_in_def by (induction hs) auto

text \<open>
  The hits so far are those before the open window and those in it. A minute that reaches into the
  open window meets at most fourteen of the former: the one that opened their own window lies more than a
  minute back.
\<close>

definition fuse_split :: "nat list \<Rightarrow> nat list \<Rightarrow> nat \<Rightarrow> nat \<Rightarrow> bool" where
  "fuse_split old cur s c \<longleftrightarrow>
     c \<le> MAX_GATE_HITS \<and> length cur \<le> c \<and> length (filter (\<lambda>h. s < h) cur) < c \<and>
     (\<forall>h \<in> set old. h \<le> s) \<and> (\<forall>h \<in> set cur. s \<le> h) \<and>
     (\<forall>w. hits_in w old \<le> 2 * MAX_GATE_HITS - 1) \<and> (\<forall>w. s < w + GATE_WINDOW \<longrightarrow> hits_in w old \<le> MAX_GATE_HITS - 1)"

definition fuse_inv :: "nat \<Rightarrow> nat list \<Rightarrow> (nat \<times> nat) option \<Rightarrow> bool" where
  "fuse_inv t hs hits \<longleftrightarrow> (\<forall>h \<in> set hs. h \<le> t) \<and>
     (case hits of
        None \<Rightarrow> hs = []
      | Some (s, c) \<Rightarrow> s \<le> t \<and> (\<exists>old cur. hs = old @ cur \<and> fuse_split old cur s c))"

lemma fuse_split_bound:
  assumes "fuse_split old cur s c"
  shows "hits_in w (old @ cur) \<le> 2 * MAX_GATE_HITS - 1"
proof (cases "s < w + GATE_WINDOW")
  case True
  with assms have "hits_in w old \<le> MAX_GATE_HITS - 1" "hits_in w cur \<le> MAX_GATE_HITS"
    using hits_in_le [of w cur] by (auto simp: fuse_split_def)
  then show ?thesis by (simp add: MAX_GATE_HITS_def)
next
  case False
  with assms have "hits_in w cur = 0" by (intro hits_in_early) (auto simp: fuse_split_def)
  with assms show ?thesis by (simp add: fuse_split_def)
qed

lemma fuse_inv_bound: "fuse_inv t hs hits \<Longrightarrow> hits_in w hs \<le> 2 * MAX_GATE_HITS - 1"
  by (auto simp: fuse_inv_def hits_in_def dest: fuse_split_bound [unfolded hits_in_def] split: option.splits)

lemma fuse_split_reopen:
  assumes split: "fuse_split old cur s c" and t: "s + GATE_WINDOW \<le> t" "\<forall>h \<in> set (old @ cur). h \<le> t" and new: "new = [] \<or> new = [t]"
  shows "fuse_split (old @ cur) new t 1"
proof -
  have "hits_in w (old @ cur) \<le> MAX_GATE_HITS - 1" if "t < w + GATE_WINDOW" for w
  proof -
    have "s < w" using that t(1) by simp
    then have "hits_in w old = 0" using split by (intro hits_in_late) (auto simp: fuse_split_def)
    moreover have "hits_in w cur < c" using hits_in_after [OF \<open>s < w\<close>, of cur] split by (simp add: fuse_split_def)
    moreover have "c \<le> MAX_GATE_HITS" using split by (simp add: fuse_split_def)
    ultimately show ?thesis by simp
  qed
  with fuse_split_bound [OF split] t(2) new show ?thesis by (auto simp: fuse_split_def MAX_GATE_HITS_def)
qed

lemma fuse_invI:
  "hs = old @ cur \<Longrightarrow> fuse_split old cur s c \<Longrightarrow> s \<le> t \<Longrightarrow> \<forall>h \<in> set hs. h \<le> t \<Longrightarrow> fuse_inv t hs (Some (s, c))"
  unfolding fuse_inv_def by auto

lemma fuse_inv_later: "fuse_inv t hs hits \<Longrightarrow> t \<le> t' \<Longrightarrow> fuse_inv t' hs hits"
  by (auto simp: fuse_inv_def split: option.splits intro: order_trans)

lemma fuse_refused: "gate_hit_allowed t hits = (False, hits') \<Longrightarrow> hits' = hits"
  by (auto simp: gate_hit_allowed_def split: option.splits prod.splits if_splits)

lemma fuse_allowed:
  assumes inv: "fuse_inv t hs hits" and ok: "gate_hit_allowed t hits = (True, hits')" and new: "new = [] \<or> new = [t]"
  shows "fuse_inv t (hs @ new) hits'"
proof (cases hits)
  case None
  then have "hits' = Some (t, 1)" "hs = []" using inv ok by (auto simp: gate_hit_allowed_def fuse_inv_def)
  moreover have "fuse_split [] new t 1" using new by (auto simp: fuse_split_def MAX_GATE_HITS_def hits_in_def)
  ultimately show ?thesis using new by (auto simp: fuse_inv_def)
next
  case (Some x)
  then obtain s c where h: "hits = Some (s, c)" by (cases x) auto
  with inv obtain old cur where i: "\<forall>h \<in> set hs. h \<le> t" "s \<le> t" "hs = old @ cur" "fuse_split old cur s c"
    by (auto simp: fuse_inv_def)
  show ?thesis
  proof (cases "t - s < GATE_WINDOW")
    case True
    with h ok have c: "hits' = Some (s, c + 1)" "c < MAX_GATE_HITS" by (auto simp: gate_hit_allowed_def split: if_splits)
    with i new have "fuse_split old (cur @ new) s (c + 1)" by (auto simp: fuse_split_def)
    then show ?thesis unfolding c(1) by (rule fuse_invI [rotated]) (use i new in auto)
  next
    case False
    with h ok have "hits' = Some (t, 1)" by (auto simp: gate_hit_allowed_def)
    moreover have "fuse_split (old @ cur) new t 1" using False i new by (intro fuse_split_reopen) auto
    then have "fuse_inv t (hs @ new) (Some (t, 1))" by (rule fuse_invI [rotated]) (use i new in auto)
    ultimately show ?thesis by simp
  qed
qed

text \<open>What a seat may do to the fuse: nothing, or one question; a takeover needs the answer yes.\<close>

definition asked_once :: "nat \<Rightarrow> (nat \<times> nat) option \<Rightarrow> bool \<Rightarrow> (nat \<times> nat) option \<Rightarrow> bool" where
  "asked_once t hits takeover hits' \<longleftrightarrow>
     hits' = hits \<and> \<not> takeover \<or> gate_hit_allowed t hits = (True, hits')"

lemma asked_once_inv:
  "fuse_inv t hs hits \<Longrightarrow> asked_once t hits takeover hits' \<Longrightarrow> fuse_inv t (hs @ (if takeover then [t] else [])) hits'"
  by (auto simp: asked_once_def intro: fuse_allowed [of t hs hits hits' "[]", simplified] fuse_allowed)

lemma runtime_process:
  assumes "runtime env gp fs = (ort, gp', fs')"
  shows "gp_hits gp' = gp_hits gp" "gp_runtime gp = Some rt \<Longrightarrow> gp_runtime gp' = Some rt \<and> ort = (if fst (gate_enabled env fs) then Some rt else None)"
    "ort = Some rt' \<Longrightarrow> gp_runtime gp' = Some rt'"
  using assms by (auto simp: runtime_def split: prod.splits bool.splits option.splits)

lemma tool_seat_asks:
  "try_experience_gate env mo item gp fs = (r, gp', fs') \<Longrightarrow>
   asked_once (mo_instant mo) (gp_hits gp) (r \<noteq> Inr None) (gp_hits gp')"
  by (auto simp: try_experience_gate_def asked_once_def Let_def dest!: runtime_process(1) fuse_refused
      split: ResponseItem.splits prod.splits option.splits if_splits bool.splits sum.splits)

lemma task_attempt_asks:
  "task_attempt env rt mo p band may gp fs = Some (r, gp', fs') \<Longrightarrow>
   asked_once (mo_instant mo) (gp_hits gp) (r \<noteq> Inr TaskMiss) (gp_hits gp') \<and> gp_runtime gp' = gp_runtime gp"
  by (auto simp: task_attempt_def asked_once_def Let_def dest!: fuse_refused
      split: prod.splits if_splits bool.splits sum.splits)

lemma task_seat_asks:
  assumes "try_task_gate env mo task_text gp fs = (r, gp', fs')"
  shows "asked_once (mo_instant mo) (gp_hits gp) (r \<noteq> Inr TaskMiss) (gp_hits gp')"
proof -
  obtain ort gp1 fs1 where rt: "runtime env gp fs = (ort, gp1, fs1)" by (metis surj_pair)
  have same: "gp_hits gp1 = gp_hits gp" by (rule runtime_process(1) [OF rt])
  show ?thesis
    using assms rt same unfolding try_task_gate_def
    by (auto simp: asked_once_def split: option.splits dest!: task_attempt_asks)
qed

text \<open>The instants of the takeovers a loop adds to the list it was given.\<close>

definition loop_hits :: "(nat \<Rightarrow> Moment) \<Rightarrow> nat \<Rightarrow> nat \<Rightarrow> string + StateTakeover list \<Rightarrow> nat list" where
  "loop_hits mos i k r = (case r of Inr tks \<Rightarrow> map (\<lambda>j. mo_instant (mos j)) [i..<i + (length tks - k)] | Inl _ \<Rightarrow> [])"

lemma state_loop_extends:
  "state_loop env rt mos i n acc gp fs = (Inr tks, gp', fs') \<Longrightarrow> \<exists>new. tks = acc @ new \<and> length new \<le> n \<and> (\<forall>tk \<in> set (butlast new). tk_success tk)"
proof (induction n arbitrary: i acc gp fs)
  case (Suc n)
  show ?case
  proof (cases "\<exists>x gp1 fs1. tk_success x \<and> state_loop env rt mos (Suc i) n (acc @ [x]) gp1 fs1 = (Inr tks, gp', fs')")
    case True
    then obtain x gp1 fs1 where x: "tk_success x" "state_loop env rt mos (Suc i) n (acc @ [x]) gp1 fs1 = (Inr tks, gp', fs')" by blast
    from Suc.IH [OF x(2)] obtain new where "tks = acc @ x # new" "length new \<le> n" "\<forall>tk \<in> set (butlast new). tk_success tk" by auto
    with x(1) show ?thesis by (intro exI [of _ "x # new"]) auto
  next
    case False
    with Suc.prems show ?thesis
      by (fastforce simp: Let_def split: if_splits prod.splits bool.splits sum.splits)
  qed
qed simp

lemma state_loop_cases:
  assumes "state_loop env rt mos i (Suc n) acc gp fs = (r, gp', fs')"
  obtains (idle) "r = Inr acc" "gp_hits gp' = gp_hits gp" "gp_runtime gp' = gp_runtime gp" "fs' = fs"
  | (panic) msg hits where "gate_hit_allowed (mo_instant (mos i)) (gp_hits gp) = (True, hits)" "gp' = gp\<lparr>gp_hits := hits\<rparr>" "r = Inl msg"
  | (stop) x hits where "gate_hit_allowed (mo_instant (mos i)) (gp_hits gp) = (True, hits)" "gp' = gp\<lparr>gp_hits := hits\<rparr>" "r = Inr (acc @ [x])"
  | (next_one) x hits fs1 where "gate_hit_allowed (mo_instant (mos i)) (gp_hits gp) = (True, hits)"
      "state_loop env rt mos (Suc i) n (acc @ [x]) (gp\<lparr>gp_hits := hits\<rparr>) fs1 = (r, gp', fs')"
proof -
  let ?d = "decide rt fs (gate_context env) state_proposal"
  obtain ok hits where h: "gate_hit_allowed (mo_instant (mos i)) (gp_hits gp) = (ok, hits)" by (metis surj_pair)
  obtain o1 fs1 where run: "run_takeover env rt (mo_secs (mos i)) state_proposal ?d only_or_first ''codex-v2-state-gate'' fs = (o1, fs1)"
    by (metis surj_pair)
  show thesis
  proof (cases "(\<not> is_takeover ?d \<or> is_satisfied ?d) \<or> \<not> ok")
    case True
    then show thesis using assms h fuse_refused [of "mo_instant (mos i)" "gp_hits gp" hits]
      by (intro idle) (auto simp: Let_def split: if_splits)
  next
    case False
    with h have ok: "gate_hit_allowed (mo_instant (mos i)) (gp_hits gp) = (True, hits)" by simp
    show thesis
    proof (cases o1)
      case (Inl msg)
      with assms False h run show thesis by (intro panic [OF ok]) (auto simp: Let_def)
    next
      case (Inr g)
      let ?x = "\<lparr>tk_experience = (case experience_name ?d of Some n \<Rightarrow> n | None \<Rightarrow> []), tk_summary = summarize env g, tk_success = is_success g\<rparr>"
      have eq: "(if is_success g then state_loop env rt mos (Suc i) n (acc @ [?x]) (gp\<lparr>gp_hits := hits\<rparr>) fs1
          else (Inr (acc @ [?x]), gp\<lparr>gp_hits := hits\<rparr>, fs1)) = (r, gp', fs')"
        using assms False h run Inr by (simp add: Let_def)
      then show thesis by (cases "is_success g") (auto intro: next_one [OF ok] stop [OF ok])
    qed
  qed
qed

lemma state_loop_asks:
  "state_loop env rt mos i n acc gp fs = (r, gp', fs') \<Longrightarrow> mono (\<lambda>i. mo_instant (mos i)) \<Longrightarrow>
   fuse_inv (mo_instant (mos i)) hs (gp_hits gp) \<Longrightarrow>
   gp_runtime gp' = gp_runtime gp \<and> fuse_inv (mo_instant (mos (i + n))) (hs @ loop_hits mos i (length acc) r) (gp_hits gp')"
proof (induction n arbitrary: i acc gp fs hs)
  case 0
  then show ?case by (auto simp: loop_hits_def)
next
  case (Suc n)
  let ?t = "mo_instant (mos i)"
  have later: "?t \<le> mo_instant (mos (Suc i))" "?t \<le> mo_instant (mos (i + Suc n))"
    using monoD [OF Suc.prems(2), of i "Suc i"] monoD [OF Suc.prems(2), of i "i + Suc n"] by auto
  note allowed = fuse_allowed [OF Suc.prems(3)]
  from Suc.prems(1) show ?case
  proof (cases rule: state_loop_cases)
    case idle
    with fuse_inv_later [OF Suc.prems(3) later(2)] show ?thesis by (simp add: loop_hits_def)
  next
    case (panic msg hits)
    with fuse_inv_later [OF allowed [of hits "[]"] later(2)] show ?thesis by (simp add: loop_hits_def)
  next
    case (stop x hits)
    with fuse_inv_later [OF allowed [of hits "[?t]"] later(2)] show ?thesis by (simp add: loop_hits_def)
  next
    case (next_one x hits fs1)
    note IH = Suc.IH [OF next_one(2) Suc.prems(2) fuse_inv_later [OF _ later(1)]]
    show ?thesis
    proof (cases r)
      case (Inl msg)
      with IH [of hs] allowed [OF next_one(1), of "[]"] show ?thesis by (simp add: loop_hits_def)
    next
      case (Inr tks)
      with state_loop_extends next_one(2) obtain new where "tks = acc @ x # new" by fastforce
      then have "loop_hits mos i (length acc) r = ?t # loop_hits mos (Suc i) (length (acc @ [x])) r"
        using Inr by (simp add: loop_hits_def upt_rec [of i] Suc_le_eq)
      with IH [of "hs @ [?t]"] allowed [OF next_one(1), of "[?t]"] show ?thesis by simp
    qed
  qed
qed

lemma state_seat_asks:
  assumes "try_state_gate env mos gp fs = (r, gp', fs')" "mono (\<lambda>i. mo_instant (mos i))" "fuse_inv (mo_instant (mos 0)) hs (gp_hits gp)"
  shows "fuse_inv (mo_instant (mos MAX_STATE_TAKEOVERS)) (hs @ state_hits mos r) (gp_hits gp')"
proof -
  have later: "mo_instant (mos 0) \<le> mo_instant (mos MAX_STATE_TAKEOVERS)" using monoD [OF assms(2), of 0] by simp
  obtain ort gp1 fs1 where rt: "runtime env gp fs = (ort, gp1, fs1)" by (metis surj_pair)
  have same: "gp_hits gp1 = gp_hits gp" by (rule runtime_process(1) [OF rt])
  consider "r = Inr []" "gp_hits gp' = gp_hits gp"
    | x where "state_loop env x mos 0 MAX_STATE_TAKEOVERS [] gp1 fs1 = (r, gp', fs')"
    using assms(1) rt same by (auto simp: try_state_gate_def split: if_splits option.splits)
  then show ?thesis
  proof cases
    case 1
    with fuse_inv_later [OF assms(3) later] show ?thesis by (simp add: state_hits_def)
  next
    case 2
    from state_loop_asks [OF this assms(2), of hs] assms(3) same show ?thesis
      by (simp add: loop_hits_def state_hits_def split: sum.splits)
  qed
qed

lemma seats_fuse_inv:
  "seats env s hs s' \<Longrightarrow> s = (t0, gp0, fs0) \<Longrightarrow> gp_hits gp0 = None \<Longrightarrow> fuse_inv (fst s') hs (gp_hits (fst (snd s')))"
proof (induction rule: seats.induct)
  case (seats_elsewhere hs t gp fs t' fs')
  then show ?case by (simp add: fuse_inv_later)
next
  case (seats_armed hs t gp fs b gp' fs')
  then show ?case by (auto simp: store_configured_def split: option.splits bool.splits prod.splits)
next
  case (seats_tool hs t gp fs mo item r gp' fs')
  then show ?case using asked_once_inv [OF _ tool_seat_asks [OF seats_tool.hyps(3)], of hs] by (simp split: if_splits)
next
  case (seats_task hs t gp fs mo task_text r gp' fs')
  then show ?case using asked_once_inv [OF _ task_seat_asks [OF seats_task.hyps(3)], of hs] by (simp split: if_splits)
next
  case (seats_state hs t gp fs mos r gp' fs')
  then show ?case using state_seat_asks [OF seats_state.hyps(4,3), of hs] by simp
qed (auto simp: fuse_inv_def note_task_text_def)

text \<open>C7: the fuse bounds the takeovers of all seats together. Along every run of the process, whatever the
  other programs do to the files meanwhile, at most twenty-nine takeovers fall into any period of one
  minute: fourteen of a window that is ending and the fifteen of the next one.\<close>

theorem takeovers_bounded:
  assumes "seats env (t0, GateProcess_start, fs0) hs (t, gp, fs)"
  shows "hits_in w hs \<le> 2 * MAX_GATE_HITS - 1"
  using fuse_inv_bound [OF seats_fuse_inv [OF assms refl]] by (simp add: GateProcess_start_def)

text \<open>The bound is attained, so the window does not roll: twenty-nine of these calls within one
  nanosecond are allowed.\<close>

fun fuse_run :: "nat list \<Rightarrow> (nat \<times> nat) option \<Rightarrow> nat list" where
  "fuse_run [] hits = []"
| "fuse_run (t # ts) hits =
     (case gate_hit_allowed t hits of (ok, hits') \<Rightarrow> (if ok then [t] else []) @ fuse_run ts hits')"

lemma fuse_run_burst:
  "t - s < GATE_WINDOW \<Longrightarrow> c + n \<le> MAX_GATE_HITS \<Longrightarrow>
   fuse_run (replicate n t @ ts) (Some (s, c)) = replicate n t @ fuse_run ts (Some (s, c + n))"
  by (induction n arbitrary: c) (auto simp: gate_hit_allowed_def)

lemma fuse_not_rolling:
  "hits_in (GATE_WINDOW - 1) (fuse_run (0 # replicate 14 (GATE_WINDOW - 1) @ GATE_WINDOW # replicate 14 GATE_WINDOW) None) = 29"
proof -
  let ?W = GATE_WINDOW
  have "fuse_run (0 # replicate 14 (?W - 1) @ ?W # replicate 14 ?W) None = 0 # fuse_run (replicate 14 (?W - 1) @ ?W # replicate 14 ?W) (Some (0, 1))"
    by (simp add: gate_hit_allowed_def)
  also have "\<dots> = 0 # replicate 14 (?W - 1) @ fuse_run (?W # replicate 14 ?W) (Some (0, 15))"
    using fuse_run_burst [of "?W - 1" 0 1 14] by (simp add: MAX_GATE_HITS_def GATE_WINDOW_def)
  also have "\<dots> = 0 # replicate 14 (?W - 1) @ ?W # fuse_run (replicate 14 ?W) (Some (?W, 1))"
    by (simp add: gate_hit_allowed_def)
  also have "\<dots> = 0 # replicate 14 (?W - 1) @ ?W # replicate 14 ?W"
    using fuse_run_burst [of ?W ?W 1 14 "[]"] by (simp add: MAX_GATE_HITS_def GATE_WINDOW_def)
  finally show ?thesis by (simp add: hits_in_def GATE_WINDOW_def)
qed

subsection \<open>The loaded runtime\<close>

lemma attempt_keeps_runtime:
  "task_attempt env rt mo p band may gp fs = Some (r, gp', fs') \<Longrightarrow> gp_runtime gp' = gp_runtime gp"
  by (simp add: task_attempt_asks)

lemma state_loop_runtime: "state_loop env rt mos i n acc gp fs = (r, gp', fs') \<Longrightarrow> gp_runtime gp' = gp_runtime gp"
proof (induction n arbitrary: i acc gp fs)
  case (Suc n)
  from Suc.prems show ?case
    by (cases rule: state_loop_cases) (use Suc.IH in fastforce)+
qed simp

text \<open>Every call leaves the runtime that a lookup at its beginning leaves, or does not look it up.\<close>

lemma seat_runtime:
  "try_experience_gate env mo item gp fs = (r, gp', fs') \<Longrightarrow>
   gp_runtime gp' = gp_runtime gp \<or> gp_runtime gp' = gp_runtime (fst (snd (runtime env gp fs)))"
  "try_task_gate env mo task_text gp fs = (q, gp', fs') \<Longrightarrow>
   gp_runtime gp' = gp_runtime (fst (snd (runtime env gp fs)))"
  "try_state_gate env mos gp fs = (u, gp', fs') \<Longrightarrow>
   gp_runtime gp' = gp_runtime gp \<or> gp_runtime gp' = gp_runtime (fst (snd (runtime env gp fs)))"
    apply (auto simp: try_experience_gate_def Let_def split: ResponseItem.splits prod.splits option.splits if_splits bool.splits sum.splits)[1]
   apply (auto simp: try_task_gate_def split: prod.splits option.splits dest: attempt_keeps_runtime)[1]
  apply (auto simp: try_state_gate_def split: prod.splits option.splits if_splits dest: state_loop_runtime)[1]
  done

lemma seats_runtime_induct:
  assumes "seats env s hs s'" and "P (gp_runtime (fst (snd s)))"
    and step: "\<And>gp fs. P (gp_runtime gp) \<Longrightarrow> P (gp_runtime (fst (snd (runtime env gp fs))))"
  shows "P (gp_runtime (fst (snd s')))"
  using assms(1)
proof (induction rule: seats.induct)
  case (seats_armed hs t gp fs b gp' fs')
  then show ?case by (auto simp: store_configured_def split: option.splits bool.splits prod.splits)
next
  case (seats_tool hs t gp fs mo item r gp' fs')
  with seat_runtime(1) [OF seats_tool.hyps(3)] step [of gp fs] show ?case by auto
next
  case (seats_task hs t gp fs mo task_text r gp' fs')
  with seat_runtime(2) [OF seats_task.hyps(3)] step [of gp fs] show ?case by auto
next
  case (seats_state hs t gp fs mos r gp' fs')
  with seat_runtime(3) [OF seats_state.hyps(4)] step [of gp fs] show ?case by auto
qed (auto simp: assms(2) note_task_text_def)

text \<open>A running process keeps the store it loaded first. Once a runtime is loaded, every later lookup of the
  process, after any further seat calls and any change of the files, the store file included, answers with
  that very runtime, or with none while the gate is off; so an experience that the management service
  disables or deletes is still offered until the process ends.\<close>

theorem gate_keeps_first_store:
  assumes "seats env (t, gp, fs) hs (t', gp', fs')" and "gp_runtime gp = Some rt"
  shows "fst (runtime env gp' world) = (if fst (gate_enabled env world) then Some rt else None) \<and>
    gp_runtime (fst (snd (runtime env gp' world))) = Some rt"
proof -
  have "gp_runtime gp' = Some rt"
    using seats_runtime_induct [OF assms(1), where P = "\<lambda>r. r = Some rt"] assms(2) runtime_process(2)
    by (metis fst_conv snd_conv prod.collapse)
  then show ?thesis using runtime_process(2) [of env gp' world] by (metis prod.collapse)
qed

text \<open>The decoder of the store file yields sorted tables, as a \<open>BTreeMap\<close> is.\<close>

definition sorted_decoder :: "MgmtCodecs \<Rightarrow> bool" where
  "sorted_decoder mc \<longleftrightarrow> (\<forall>raw f. mc_store_parse mc raw = Inr f \<longrightarrow> file_sorted f)"

definition sound_runtime :: "ExperienceGateRuntime \<Rightarrow> bool" where
  "sound_runtime rt \<longleftrightarrow> rt_probe rt = LocalProbe \<and> store_reachable (rt_store rt)"

lemma store_open_reachable:
  "sorted_decoder mc \<Longrightarrow> store_open (mc_store_parse mc) fs p = Inr s \<Longrightarrow> store_reachable s"
  by (auto simp: sorted_decoder_def store_open_def from_json_def intro: reach_path reach_default reach_load
      split: sum.splits io_error.splits)

lemma load_runtime_sound: "sorted_decoder (ge_codecs env) \<Longrightarrow> load_runtime env fs = (Some rt, fs') \<Longrightarrow> sound_runtime rt"
  by (auto simp: load_runtime_def sound_runtime_def Let_def dest: store_open_reachable split: prod.splits option.splits sum.splits)

lemma runtime_loads:
  "gp_runtime (fst (snd (runtime env gp fs))) = gp_runtime gp \<or>
   gp_runtime (fst (snd (runtime env gp fs))) = fst (load_runtime env (snd (gate_enabled env fs)))"
  by (auto simp: runtime_def split: prod.splits bool.splits option.splits)

lemma seats_sound:
  assumes "sorted_decoder (ge_codecs env)" "seats env (t0, GateProcess_start, fs0) hs (t, gp, fs)" "runtime env gp fs = (Some rt, gp', fs')"
  shows "sound_runtime rt"
proof -
  define P where "P r \<longleftrightarrow> (\<forall>rt. r = Some rt \<longrightarrow> sound_runtime rt)" for r
  have load: "P (fst (load_runtime env f))" for f
    using load_runtime_sound [OF assms(1), of f] by (cases "load_runtime env f") (simp add: P_def)
  have step: "P (gp_runtime (fst (snd (runtime env g f))))" if "P (gp_runtime g)" for g f
    using that runtime_loads [of env g f] load by auto
  have "P (gp_runtime GateProcess_start)" by (simp add: P_def GateProcess_start_def)
  with seats_runtime_induct [OF assms(2), where P = P] step have "P (gp_runtime gp)" by simp
  from step [OF this, of fs] assms(3) runtime_process(3) [OF assms(3)] show ?thesis by (simp add: P_def)
qed

subsection \<open>What a seat reports\<close>

lemma run_takeover_gate:
  assumes "run_takeover env rt secs p d band process fs = (Inr r, fs')" "d = decide rt fs (gate_context env) p" "is_takeover d"
  shows "\<exists>fs1. gate rt (gate_context env) p fs = (Inr (OutHit r), fs1) \<and>
    fs' = record_gate_usage env secs (case experience_name d of Some n \<Rightarrow> n | None \<Rightarrow> []) (band (is_success r)) process r fs1"
proof -
  have "d \<noteq> Miss" using assms(3) by auto
  then show ?thesis using assms(1,2) by (auto simp: gate_takeover run_takeover_def split: prod.splits sum.splits)
qed

lemma completed_attempt:
  assumes "task_attempt env rt mo p band may gp fs = Some (Inr (TaskCompleted n summary), gp', fs')"
  shows "\<exists>r. may \<and> is_success r \<and> is_takeover (decide rt fs (gate_context env) p) \<and> summary = summarize env r \<and>
    n = (case experience_name (decide rt fs (gate_context env) p) of Some n \<Rightarrow> n | None \<Rightarrow> []) \<and>
    run_takeover env rt (mo_secs mo) p (decide rt fs (gate_context env) p) band ''codex-m6-task-gate'' fs = (Inr r, fs')"
proof -
  let ?d = "decide rt fs (gate_context env) p"
  obtain ok hits where h: "gate_hit_allowed (mo_instant mo) (gp_hits gp) = (ok, hits)" by (metis surj_pair)
  obtain o1 fs1 where run: "run_takeover env rt (mo_secs mo) p ?d band ''codex-m6-task-gate'' fs = (o1, fs1)" by (metis surj_pair)
  from assms h run show ?thesis
    by (cases o1; cases ok) (auto simp: task_attempt_def Let_def split: if_splits)
qed

text \<open>C6: the agent is not sampled for a task only after the world was seen to be as promised. If the task seat of a
  process that started empty answers that the task is completed, then an ACTIVE experience, or an
  instance of an ACTIVE template, that matches the task as the pseudo tool \<open>task\<close> is the one it names,
  and when its workflow had ended the local probe observed every one of its postconditions with the expected
  value; the only later change is the entry in the usage file. An experience marked as a prefix never completes a
  task.\<close>

theorem task_completed_observed:
  assumes "sorted_decoder (ge_codecs env)" and "seats env (t0, GateProcess_start, fs0) hs (t, gp, fs)"
    and "try_task_gate env mo task_text gp fs = (Inr (TaskCompleted n summary), gp', fs')"
  shows "\<exists>rt e r fs1. gp_runtime gp' = Some rt \<and> offered rt (gate_context env) (task_proposal TASK_GATE_TOOL task_text) e \<and>
    n = exp_name e \<and> summary = summarize env r \<and> is_success r \<and>
    (\<forall>c \<in> set (exp_postconditions e). LocalProbe fs1 (gate_context env) (pred_key c) = Some (pred_expected c)) \<and>
    fs' = record_gate_usage env (mo_secs mo) n ''experience_only'' ''codex-m6-task-gate'' r fs1"
proof -
  let ?ctx = "gate_context env" and ?p = "task_proposal TASK_GATE_TOOL task_text"
  obtain ort gp1 fs0 where r0: "runtime env gp fs = (ort, gp1, fs0)" by (metis surj_pair)
  with assms(3) obtain rt where rt: "ort = Some rt" by (cases ort) (auto simp: try_task_gate_def)
  from assms(3) r0 rt have a: "task_attempt env rt mo ?p only_or_first True gp1 fs0 = Some (Inr (TaskCompleted n summary), gp', fs')"
    by (auto simp: try_task_gate_def dest: completed_attempt split: option.splits)
  let ?d = "decide rt fs0 ?ctx ?p"
  from completed_attempt [OF a] obtain r where r: "is_success r" "is_takeover ?d" "summary = summarize env r"
    "n = (case experience_name ?d of Some n \<Rightarrow> n | None \<Rightarrow> [])"
    "run_takeover env rt (mo_secs mo) ?p ?d only_or_first ''codex-m6-task-gate'' fs0 = (Inr r, fs')" by blast
  from run_takeover_gate [OF r(5) refl r(2)] r(1,4) obtain fs1 where
    g: "gate rt ?ctx ?p fs0 = (Inr (OutHit r), fs1)" and
    fs': "fs' = record_gate_usage env (mo_secs mo) n ''experience_only'' ''codex-m6-task-gate'' r fs1"
    by (auto simp: only_or_first_def)
  have "sound_runtime rt" using seats_sound [OF assms(1,2)] r0 rt by blast
  then have snd: "store_reachable (rt_store rt)" "rt_probe rt = LocalProbe" by (simp_all add: sound_runtime_def)
  have "completion_status r = Completed" using r(1) by (simp add: is_success_def)
  from completed_observed [OF snd g this] obtain e where e: "offered rt ?ctx ?p e" "experience_name ?d = Some (exp_name e)"
    "\<forall>c \<in> set (exp_postconditions e). LocalProbe fs1 ?ctx (pred_key c) = Some (pred_expected c)" by blast
  have "gp_runtime gp' = Some rt" using attempt_keeps_runtime [OF a] runtime_process(3) [OF r0 rt] by simp
  with e r fs' show ?thesis by auto
qed

text \<open>The state seat cannot loop. It takes over at most twice in a turn, only if it is switched on, and every takeover
  but the last one was a success: a failed one hands control back at once.\<close>

lemma state_seat_bounded:
  assumes "try_state_gate env mos gp fs = (Inr tks, gp', fs')"
  shows "length tks \<le> MAX_STATE_TAKEOVERS \<and> (\<forall>tk \<in> set (butlast tks). tk_success tk) \<and>
    (tks \<noteq> [] \<longrightarrow> state_seat_enabled (ge_vars env) \<and> experience_enabled (ge_vars env))"
proof (cases "state_seat_enabled (ge_vars env) \<and> fst (runtime env gp fs) \<noteq> None")
  case True
  then obtain rt gp1 fs1 where r: "runtime env gp fs = (Some rt, gp1, fs1)" by (cases "runtime env gp fs") auto
  with True assms have "state_loop env rt mos 0 MAX_STATE_TAKEOVERS [] gp1 fs1 = (Inr tks, gp', fs')"
    by (simp add: try_state_gate_def)
  moreover have "experience_enabled (ge_vars env)" using r by (auto simp: runtime_def gate_enabled_def split: if_splits)
  ultimately show ?thesis using True state_loop_extends by fastforce
next
  case False
  with assms have "tks = []" by (auto simp: try_state_gate_def split: if_splits prod.splits)
  then show ?thesis by simp
qed

subsection \<open>Passing through\<close>

text \<open>\<open>grown p fs fs'\<close>: new nodes at \<open>p\<close> and at the directories above it, and no other change.\<close>

definition grown :: "path \<Rightarrow> fsys \<Rightarrow> fsys \<Rightarrow> bool" where
  "grown p fs fs' \<longleftrightarrow> link_free fs' \<and> (\<forall>q. node_at fs' q \<noteq> node_at fs q \<longrightarrow> prefix q p \<and> node_at fs q = None)"

lemma grown_refl: "link_free fs \<Longrightarrow> grown p fs fs"
  by (simp add: grown_def)

lemma grown_trans: "grown p fs fs1 \<Longrightarrow> grown p fs1 fs2 \<Longrightarrow> grown p fs fs2"
  unfolding grown_def by metis

lemma ensure_default_store_grown:
  assumes lf: "link_free fs" and p: "''..'' \<notin> set p"
  shows "grown p fs (snd (ensure_default_store env p fs))"
proof (cases "ge_vars env STORE_PATH_ENV \<noteq> None \<or> detect_format (mc_value (ge_codecs env)) fs p \<noteq> FmtMissing \<or> p = []")
  case True
  then show ?thesis using lf by (auto simp: ensure_default_store_def path_parent_def grown_refl)
next
  case False
  then have par: "path_parent p = Some (butlast p)" and "\<not> fs_exists fs p"
    by (auto simp: path_parent_def detect_format_def split: sum.splits option.splits if_splits)
  then have none: "node_at fs p = None"
    using resolve_link_free [OF lf p] link_freeD [OF lf, of p] by (auto simp: fs_exists_def stat_def split: option.splits node.splits)
  have up: "''..'' \<notin> set (butlast p)" "\<not> prefix p (butlast p)"
    using p False prefix_length_le [of p "butlast p"] by (cases p; auto dest: in_set_butlastD)+
  show ?thesis
  proof (cases "fs_create_dir_all fs (butlast p)")
    case (Inl e)
    with False par lf show ?thesis by (simp add: ensure_default_store_def grown_refl)
  next
    case m: (Inr fs1)
    have g1: "grown (butlast p) fs fs1"
      using mkdirs_link_free [of fs "[]" "butlast p" fs1] m lf up(1) by (auto simp: fs_create_dir_all_def grown_def)
    then have g: "grown p fs fs1" unfolding grown_def by (metis prefix_order.trans prefixeq_butlast)
    show ?thesis
    proof (cases "fs_write_bytes fs1 p empty_envelope")
      case (Inl e)
      with False par m g show ?thesis by (simp add: ensure_default_store_def)
    next
      case w: (Inr fs2)
      have "kept ((=) p) fs1 fs2" using g1 w p by (intro kept_write [of fs1 p]) (auto simp: grown_def)
      moreover have "node_at fs1 p = None" using g1 none up(2) by (metis grown_def)
      ultimately have "grown p fs1 fs2" unfolding kept_def grown_def by (metis prefix_order.refl)
      with g have "grown p fs fs2" by (rule grown_trans)
      with False par m w show ?thesis by (simp add: ensure_default_store_def)
    qed
  qed
qed

definition clean_home :: "GateEnv \<Rightarrow> bool" where
  "clean_home env \<longleftrightarrow> (\<forall>h. ge_home env = Some h \<longrightarrow> ''..'' \<notin> set h)"

definition default_store :: "GateEnv \<Rightarrow> path" where
  "default_store env = (case ge_home env of Some h \<Rightarrow> h @ [''experience'', ''store.json''] | None \<Rightarrow> [])"

lemma home_store_path_eq: "home_store_path h = h @ [''experience'', ''store.json'']"
proof -
  have "clean_comp ''experience''" "clean_comp ''store.json''" by code_simp+
  then show ?thesis by (simp add: home_store_path_def path_join_clean)
qed

lemma resolved_grown:
  assumes "link_free fs" "clean_home env"
  shows "grown (default_store env) fs (snd (resolved_store_path env fs))"
proof -
  let ?v = "ge_vars env STORE_PATH_ENV"
  show ?thesis
  proof (cases "(\<exists>x. ?v = Some x \<and> x \<noteq> []) \<or> ge_home env = None")
    case True
    then show ?thesis using assms(1) by (auto simp: resolved_store_path_def grown_refl split: option.splits)
  next
    case False
    then obtain h where h: "ge_home env = Some h" "''..'' \<notin> set h" using assms(2) by (auto simp: clean_home_def)
    with False have "resolve_store_path (ge_vars env) h = default_store env"
      by (auto simp: resolve_store_path_def default_store_def home_store_path_eq split: option.splits)
    moreover have "''..'' \<notin> set (default_store env)" using h by (simp add: default_store_def)
    ultimately show ?thesis
      using ensure_default_store_grown [OF assms(1), of "default_store env" env] False h
      by (auto simp: resolved_store_path_def Let_def split: option.splits)
  qed
qed

lemma runtime_grown:
  assumes "link_free fs" "clean_home env"
  shows "grown (default_store env) fs (snd (snd (runtime env gp fs)))"
proof -
  have en: "grown (default_store env) fs (snd (gate_enabled env fs))"
    using resolved_grown [OF assms] by (auto simp: gate_enabled_def grown_refl [OF assms(1)] split: prod.splits)
  then have lf: "link_free (snd (gate_enabled env fs))" by (simp add: grown_def)
  have "snd (load_runtime env f) = snd (resolved_store_path env f)" for f
    by (auto simp: load_runtime_def Let_def split: prod.splits option.splits sum.splits)
  with resolved_grown [OF lf assms(2)] grown_trans [OF en]
  have "grown (default_store env) fs (snd (load_runtime env (snd (gate_enabled env fs))))" by simp
  with en show ?thesis by (auto simp: runtime_def split: prod.splits bool.splits option.splits)
qed

lemma state_loop_idle: "state_loop env rt mos i n acc gp fs = (Inr acc, gp', fs') \<Longrightarrow> fs' = fs"
proof (cases n)
  case (Suc m)
  assume "state_loop env rt mos i n acc gp fs = (Inr acc, gp', fs')"
  then have "state_loop env rt mos i (Suc m) acc gp fs = (Inr acc, gp', fs')" using Suc by simp
  then show ?thesis by (cases rule: state_loop_cases) (auto dest: state_loop_extends)
qed simp

lemma passed_world:
  "try_experience_gate env mo item gp fs = (Inr None, gp', fs') \<Longrightarrow> fs' = fs \<or> fs' = snd (snd (runtime env gp fs))"
  "try_task_gate env mo task_text gp fs = (Inr TaskMiss, gp', fs') \<Longrightarrow> fs' = snd (snd (runtime env gp fs))"
  "try_state_gate env mos gp fs = (Inr [], gp', fs') \<Longrightarrow> fs' = fs \<or> fs' = snd (snd (runtime env gp fs))"
    apply (auto simp: try_experience_gate_def Let_def split: ResponseItem.splits prod.splits option.splits if_splits bool.splits sum.splits)[1]
   apply (auto simp: try_task_gate_def task_attempt_def Let_def split: prod.splits option.splits if_splits bool.splits sum.splits)[1]
  apply (auto simp: try_state_gate_def split: prod.splits option.splits if_splits dest: state_loop_idle)[1]
  done

text \<open>Passing through leaves the world to the agent. When a seat answers that it does not take over (the switch is
  off, there is no usable store, nothing matches, or the fuse has blown), no existing file or directory is
  different afterwards; the only nodes that can appear are the default store under the home directory and the
  directories leading to it.\<close>

theorem pass_through_only_arms:
  assumes "link_free fs" and "clean_home env"
    and "try_experience_gate env mo item gp fs = (Inr None, gp', fs') \<or>
      try_task_gate env mo task_text gp fs = (Inr TaskMiss, gp', fs') \<or> try_state_gate env mos gp fs = (Inr [], gp', fs')"
    and "node_at fs' q \<noteq> node_at fs q"
  shows "node_at fs q = None \<and> prefix q (default_store env)"
proof -
  have "fs' = fs \<or> fs' = snd (snd (runtime env gp fs))" using assms(3) passed_world by metis
  with runtime_grown [OF assms(1,2), of gp] grown_refl [OF assms(1)] have "grown (default_store env) fs fs'" by auto
  with assms(4) show ?thesis by (simp add: grown_def)
qed

text \<open>A success of the runtime on the task is an answer of the seat, as long as the fuse is not blown.\<close>

lemma task_seat_completes:
  assumes rt: "runtime env gp fs = (Some rt, gp1, fs1)"
    and g: "gate rt (gate_context env) (task_proposal TASK_GATE_TOOL task_text) fs1 = (Inr (OutHit r), fs2)"
    and r: "is_success r" and fuse: "gate_hit_allowed (mo_instant mo) (gp_hits gp) = (True, hits)"
  obtains n gp' fs' where "try_task_gate env mo task_text gp fs = (Inr (TaskCompleted n (summarize env r)), gp', fs')" "gp_runtime gp' = Some rt"
proof -
  let ?p = "task_proposal TASK_GATE_TOOL task_text"
  let ?d = "decide rt fs1 (gate_context env) ?p"
  have d: "?d \<noteq> Miss" using g by (auto simp: gate_Miss)
  with g have x: "gate_execute rt (gate_context env) ?p ?d fs1 = (Inr r, fs2)"
    by (auto simp: gate_takeover split: prod.splits sum.splits)
  have "is_takeover ?d" using d by (cases ?d) auto
  then have "\<exists>n fs'. task_attempt env rt mo ?p only_or_first True gp1 fs1 = Some (Inr (TaskCompleted n (summarize env r)), gp1\<lparr>gp_hits := hits\<rparr>, fs')"
    using x r fuse runtime_process(1) [OF rt] by (simp add: task_attempt_def run_takeover_def Let_def)
  then obtain n fs' where "try_task_gate env mo task_text gp fs = (Inr (TaskCompleted n (summarize env r)), gp1\<lparr>gp_hits := hits\<rparr>, fs')"
    using rt by (auto simp: try_task_gate_def)
  with that runtime_process(3) [OF rt] show thesis by simp
qed

section \<open>A concrete process\<close>

definition gate_mgmt :: MgmtCodecs where
  "gate_mgmt = demo_mgmt\<lparr>mc_store_parse := (\<lambda>_. Inr (to_file probing_store))\<rparr>"

definition gate_env :: GateEnv where
  "gate_env =
     \<lparr>ge_vars = (\<lambda>n. if n = STORE_PATH_ENV then Some ''/w/store.json'' else None), ge_home = None, ge_cwd = [''w''],
      ge_host = demo_host, ge_codecs = gate_mgmt, ge_json = (\<lambda>_. ''{}''), ge_clock = (\<lambda>_ _. 7)\<rparr>"

abbreviation gate_world :: fsys where
  "gate_world \<equiv> demo_store_fs ''C''"

definition gate_moment :: Moment where
  "gate_moment = \<lparr>mo_instant = 5, mo_secs = 7\<rparr>"

lemma gate_demo:
  "case runtime gate_env GateProcess_start gate_world of
     (Some rt, gp, fs) \<Rightarrow>
       (case gate rt (gate_context gate_env) (task_proposal TASK_GATE_TOOL ''Create a.txt now'') fs of
          (Inr (OutHit r), fs') \<Rightarrow> is_success r | _ \<Rightarrow> False)
   | _ \<Rightarrow> False"
  by code_simp

lemma gate_demo_completes:
  obtains n summary gp fs rt where "try_task_gate gate_env gate_moment ''Create a.txt now'' GateProcess_start gate_world =
    (Inr (TaskCompleted n summary), gp, fs)" "gp_runtime gp = Some rt"
proof -
  let ?g = "\<lambda>rt. gate rt (gate_context gate_env) (task_proposal TASK_GATE_TOOL ''Create a.txt now'')"
  obtain ort gp1 fs1 where ort: "runtime gate_env GateProcess_start gate_world = (ort, gp1, fs1)" by (metis surj_pair)
  with gate_demo obtain rt where rt: "ort = Some rt" by (cases ort) auto
  obtain g fs2 where g: "?g rt fs1 = (g, fs2)" by (metis surj_pair)
  with gate_demo ort rt obtain r where "g = Inr (OutHit r)" "is_success r"
    by (auto split: sum.splits GateOutcome.splits)
  with ort rt g have "runtime gate_env GateProcess_start gate_world = (Some rt, gp1, fs1)" "?g rt fs1 = (Inr (OutHit r), fs2)" "is_success r"
    by simp_all
  moreover have "gate_hit_allowed (mo_instant gate_moment) (gp_hits GateProcess_start) = (True, Some (5, 1))"
    by (simp add: gate_hit_allowed_def GateProcess_start_def gate_moment_def)
  ultimately show thesis by (rule task_seat_completes) (rule that)
qed

lemma gate_demo_seats:
  assumes "try_task_gate gate_env gate_moment ''Create a.txt now'' GateProcess_start gate_world = (Inr (TaskCompleted n summary), gp, fs)"
  shows "seats gate_env (5, GateProcess_start, gate_world) [5] (5, gp, fs)"
  using seats_task [OF seats_refl _ assms] by (simp add: gate_moment_def)

theorem takeovers_bounded_witness:
  "\<exists>gp fs. seats gate_env (5, GateProcess_start, gate_world) [5] (5, gp, fs) \<and> hits_in 5 [5] \<le> 2 * MAX_GATE_HITS - 1"
proof (rule gate_demo_completes)
  fix n summary gp fs rt
  assume "try_task_gate gate_env gate_moment ''Create a.txt now'' GateProcess_start gate_world = (Inr (TaskCompleted n summary), gp, fs)"
  note run = gate_demo_seats [OF this]
  from run takeovers_bounded [OF run] show ?thesis by blast
qed

theorem gate_keeps_first_store_witness:
  "\<exists>gp rt. gp_runtime gp = Some rt \<and> fst (runtime gate_env gp demo_fs) = Some rt"
proof (rule gate_demo_completes)
  fix n summary rt and gp :: GateProcess and fs :: fsys
  assume rt: "gp_runtime gp = Some rt"
  have "seats gate_env (5, gp, fs) [] (6, gp, demo_fs)" using seats_elsewhere [OF seats_refl] by simp
  moreover have "fst (gate_enabled gate_env demo_fs)" by code_simp
  ultimately show ?thesis using gate_keeps_first_store [OF _ rt] rt by metis
qed

theorem task_completed_observed_witness:
  "\<exists>rt e fs. offered rt (gate_context gate_env) (task_proposal TASK_GATE_TOOL ''Create a.txt now'') e \<and>
    (\<forall>c \<in> set (exp_postconditions e). LocalProbe fs (gate_context gate_env) (pred_key c) = Some (pred_expected c))"
proof (rule gate_demo_completes)
  fix n summary gp fs rt
  assume t: "try_task_gate gate_env gate_moment ''Create a.txt now'' GateProcess_start gate_world = (Inr (TaskCompleted n summary), gp, fs)"
  have "file_sorted (to_file probing_store)" by code_simp
  then have "sorted_decoder (ge_codecs gate_env)" by (simp add: sorted_decoder_def gate_env_def gate_mgmt_def)
  from task_completed_observed [OF this seats_refl t] show ?thesis by blast
qed

definition fresh_env :: GateEnv where
  "fresh_env = gate_env\<lparr>ge_vars := (\<lambda>_. None), ge_home := Some [''h''],
     ge_codecs := demo_mgmt\<lparr>mc_store_parse := (\<lambda>_. Inr (to_file ExperienceStore_default))\<rparr>\<rparr>"

theorem pass_through_only_arms_witness:
  "\<exists>gp fs. try_task_gate fresh_env gate_moment ''Create a.txt now'' GateProcess_start demo_fs = (Inr TaskMiss, gp, fs) \<and>
    node_at demo_fs [''h'', ''experience''] = None \<and> prefix [''h'', ''experience''] (default_store fresh_env)"
proof -
  have miss: "fst (try_task_gate fresh_env gate_moment ''Create a.txt now'' GateProcess_start demo_fs) = Inr TaskMiss" by code_simp
  have changed: "node_at (snd (snd (try_task_gate fresh_env gate_moment ''Create a.txt now'' GateProcess_start demo_fs))) [''h'', ''experience''] \<noteq>
      node_at demo_fs [''h'', ''experience'']" by code_simp
  obtain gp fs where t: "try_task_gate fresh_env gate_moment ''Create a.txt now'' GateProcess_start demo_fs = (Inr TaskMiss, gp, fs)"
    using miss by (metis prod.collapse)
  have "link_free demo_fs" by code_simp
  moreover have "clean_home fresh_env" by (simp add: clean_home_def fresh_env_def)
  ultimately show ?thesis using pass_through_only_arms [OF _ _ disjI2 [OF disjI1 [OF t]]] t changed by (metis snd_conv)
qed

end
