(* ===== verification/Sessions.thy ===== *)
theory Sessions
  imports Learning
begin

text \<open>
  The session store of the server (\<open>session_manager.rs\<close>) and the worker that watches an executor
  (\<open>run_session_worker\<close> in \<open>main.rs\<close>). The state is the list of session records, the registered
  executor processes and the cancellation flags, together with the file system that holds
  \<open>sessions.json\<close>. The clock, the JSON parser and the serde encoding of sessions are arguments. Every
  method holds the lock while it works, so a method is one atomic step; the worker releases it
  between its check and its poll, which are therefore two steps.
\<close>

section \<open>Data\<close>

definition MAX_OUTPUT_CHARS :: nat where "MAX_OUTPUT_CHARS = 200000"
definition SESSIONS_SCHEMA_VERSION :: nat where "SESSIONS_SCHEMA_VERSION = 2"

datatype SessionStatus = SessRunning | SessCompleted | SessError

record Session =
  se_id :: string
  se_agent_id :: string
  se_task :: string
  se_cwd :: "string option"
  se_scope :: "string option"
  se_capability_allowlist :: "string list option"
  se_thread_id :: "string option"
  se_trace :: "TraceEvent list"
  se_round_tasks :: "string list"
  se_status :: SessionStatus
  se_created_at :: nat
  se_finished_at :: "nat option"
  se_summary :: "string option"
  se_output :: string

record SessionsFile =
  sf_schema_version :: nat
  sf_sessions :: "Session list"

record SessionStore =
  ss_sessions :: "Session list"
  ss_children :: "nat btree"
  ss_cancel_flags :: "bool btree"
  ss_home :: path

type_synonym session_world = "SessionStore \<times> fsys"

section \<open>Texts\<close>

definition STALE_SUMMARY :: string where
  "STALE_SUMMARY = [CHR 0xE4, CHR 0xB8, CHR 0x8A, CHR 0xE6, CHR 0xAC, CHR 0xA1, CHR 0xE8, CHR 0xBF, CHR 0x90, CHR 0xE8, CHR 0xA1,
      CHR 0x8C, CHR 0xE4, CHR 0xB8, CHR 0xAD, CHR 0xE6, CHR 0x96, CHR 0xAD, CHR 0xEF, CHR 0xBC, CHR 0x88, CHR 0xE5, CHR 0xBA,
      CHR 0x94, CHR 0xE7, CHR 0x94, CHR 0xA8, CHR 0xE9, CHR 0x87, CHR 0x8D, CHR 0xE5, CHR 0x90, CHR 0xAF] @ ''/'' @ [CHR 0xE6,
      CHR 0x97, CHR 0xA7, CHR 0xE7, CHR 0x89, CHR 0x88, CHR 0xE6, CHR 0x97, CHR 0xA0, CHR 0xE8, CHR 0xB6, CHR 0x85, CHR 0xE6,
      CHR 0x97, CHR 0xB6, CHR 0xEF, CHR 0xBC, CHR 0x89, CHR 0xEF, CHR 0xBC, CHR 0x8C, CHR 0xE8, CHR 0xAF, CHR 0xB7, CHR 0xE9,
      CHR 0x87, CHR 0x8D, CHR 0xE6, CHR 0x96, CHR 0xB0, CHR 0xE6, CHR 0x8F, CHR 0x90, CHR 0xE4, CHR 0xBA, CHR 0xA4, CHR 0xE4,
      CHR 0xBB, CHR 0xBB, CHR 0xE5, CHR 0x8A, CHR 0xA1]"

definition CANCELLED_SUMMARY :: string where
  "CANCELLED_SUMMARY = [CHR 0xE5, CHR 0xB7, CHR 0xB2, CHR 0xE5, CHR 0x8F, CHR 0x96, CHR 0xE6, CHR 0xB6, CHR 0x88, CHR 0xEF,
      CHR 0xBC, CHR 0x88, CHR 0xE7, CHR 0x94, CHR 0xA8, CHR 0xE6, CHR 0x88, CHR 0xB7, CHR 0xE7, CHR 0xBB, CHR 0x88, CHR 0xE6,
      CHR 0xAD, CHR 0xA2] @ '' executor'' @ [CHR 0xEF, CHR 0xBC, CHR 0x89]"

definition cap_output_chars :: "string \<Rightarrow> nat \<Rightarrow> string" where
  "cap_output_chars text limit =
     (let cs = chars_of text; n = length cs
      in if n \<le> limit then text
         else ([CHR 0xE2, CHR 0x80, CHR 0xA6] @ ''['' @ [CHR 0xE8, CHR 0xBE, CHR 0x93, CHR 0xE5, CHR 0x87, CHR 0xBA, CHR 0xE8,
      CHR 0xBF, CHR 0x87, CHR 0xE9, CHR 0x95, CHR 0xBF, CHR 0xEF, CHR 0xBC, CHR 0x8C, CHR 0xE5, CHR 0xB7, CHR 0xB2, CHR 0xE6,
      CHR 0x88, CHR 0xAA, CHR 0xE6, CHR 0x96, CHR 0xAD] @ '' '') @ nat_digits n @ ('' '' @ [CHR 0xE5, CHR 0xAD, CHR 0x97,
      CHR 0xE7, CHR 0xAC, CHR 0xA6] @ '']'' @ [CHR 0x0A]) @ concat (drop (n - limit) cs))"

section \<open>Loading and saving\<close>

definition migrate_entry :: "json \<Rightarrow> json" where
  "migrate_entry entry =
     (case as_str entry of
        Some l \<Rightarrow> json_object [(''kind'', JString ''legacy''), (''label'', JString l)]
      | None \<Rightarrow> entry)"

definition migrate_session :: "json \<Rightarrow> json" where
  "migrate_session v =
     (case v of
        JObject m \<Rightarrow>
          (case bt_get m ''trace'' of
             Some (JArray entries) \<Rightarrow> JObject (bt_insert ''trace'' (JArray (map migrate_entry entries)) m)
           | _ \<Rightarrow> v)
      | _ \<Rightarrow> v)"

definition parse_sessions_file :: "(string \<Rightarrow> json option) \<Rightarrow> (json \<Rightarrow> Session option) \<Rightarrow> string \<Rightarrow> Session list" where
  "parse_sessions_file parse decode text =
     (case parse text of
        None \<Rightarrow> []
      | Some v \<Rightarrow>
          (case Option.bind (json_get v ''sessions'') as_array of
             None \<Rightarrow> []
           | Some items \<Rightarrow> List.map_filter (\<lambda>i. decode (migrate_session i)) items))"

definition mark_stale :: "nat \<Rightarrow> Session \<Rightarrow> Session" where
  "mark_stale now s =
     (if se_status s = SessRunning
      then s\<lparr>se_status := SessError, se_finished_at := Some now, se_summary := Some STALE_SUMMARY\<rparr>
      else s)"

definition backfill_rounds :: "Session \<Rightarrow> Session" where
  "backfill_rounds s =
     (if se_round_tasks s = [] \<and> se_task s \<noteq> [] then s\<lparr>se_round_tasks := [se_task s]\<rparr> else s)"

definition sessions_path :: "path \<Rightarrow> path" where
  "sessions_path home = path_join home ''sessions.json''"

definition sessions_load :: "(string \<Rightarrow> json option) \<Rightarrow> (json \<Rightarrow> Session option) \<Rightarrow> nat \<Rightarrow> path \<Rightarrow> fsys \<Rightarrow> SessionStore" where
  "sessions_load parse decode now home fs =
     (let ss = (case fs_read_to_string fs (sessions_path home) of
                  Inr text \<Rightarrow> parse_sessions_file parse decode text
                | Inl _ \<Rightarrow> [])
      in \<lparr>ss_sessions = map backfill_rounds (map (mark_stale now) ss), ss_children = [], ss_cancel_flags = [], ss_home = home\<rparr>)"

text \<open>Both file operations are best effort: their results are dropped.\<close>

definition persist_locked :: "(SessionsFile \<Rightarrow> string option) \<Rightarrow> SessionStore \<Rightarrow> fsys \<Rightarrow> fsys" where
  "persist_locked encode st fs =
     (case encode \<lparr>sf_schema_version = SESSIONS_SCHEMA_VERSION, sf_sessions = ss_sessions st\<rparr> of
        None \<Rightarrow> fs
      | Some text \<Rightarrow>
          (let fs1 = (case fs_create_dir_all fs (ss_home st) of Inr fs1 \<Rightarrow> fs1 | Inl _ \<Rightarrow> fs)
           in case fs_write_bytes fs1 (sessions_path (ss_home st)) text of Inr fs2 \<Rightarrow> fs2 | Inl _ \<Rightarrow> fs1))"

section \<open>Operations\<close>

text \<open>\<open>iter_mut().find(p)\<close>: update the first record that satisfies the test.\<close>

fun update_first :: "(Session \<Rightarrow> bool) \<Rightarrow> (Session \<Rightarrow> Session) \<Rightarrow> Session list \<Rightarrow> Session list" where
  "update_first P f [] = []"
| "update_first P f (s # ss) = (if P s then f s # ss else s # update_first P f ss)"

definition session_get :: "SessionStore \<Rightarrow> string \<Rightarrow> Session option" where
  "session_get st i = find (\<lambda>s. se_id s = i) (ss_sessions st)"

definition session_list :: "SessionStore \<Rightarrow> Session list" where
  "session_list st = rev (ss_sessions st)"

definition session_create :: "(SessionsFile \<Rightarrow> string option) \<Rightarrow> nat \<Rightarrow> nat \<Rightarrow> string \<Rightarrow> string \<Rightarrow> string option \<Rightarrow> string option
    \<Rightarrow> string list option \<Rightarrow> session_world \<Rightarrow> Session \<times> session_world" where
  "session_create encode nanos now agent_id t dir scope allow = (\<lambda>(st, fs).
     let s = \<lparr>se_id = ''s-'' @ nat_digits nanos, se_agent_id = agent_id, se_task = t, se_cwd = dir, se_scope = scope,
              se_capability_allowlist = allow, se_thread_id = None, se_trace = [], se_round_tasks = [t],
              se_status = SessRunning, se_created_at = now, se_finished_at = None, se_summary = None, se_output = []\<rparr>;
         st' = st\<lparr>ss_sessions := ss_sessions st @ [s]\<rparr>
     in (s, st', persist_locked encode st' fs))"

definition terminal_status :: "bool \<Rightarrow> SessionStatus" where
  "terminal_status ok = (if ok then SessCompleted else SessError)"

definition drop_executor :: "string \<Rightarrow> SessionStore \<Rightarrow> SessionStore" where
  "drop_executor i st =
     st\<lparr>ss_children := bt_remove i (ss_children st), ss_cancel_flags := bt_remove i (ss_cancel_flags st)\<rparr>"

definition finish_record :: "nat \<Rightarrow> bool \<Rightarrow> string \<Rightarrow> string option \<Rightarrow> Session \<Rightarrow> Session" where
  "finish_record now ok summary out s =
     (let s1 = s\<lparr>se_status := terminal_status ok, se_finished_at := Some now, se_summary := Some summary\<rparr>
      in case out of Some text \<Rightarrow> s1\<lparr>se_output := cap_output_chars text MAX_OUTPUT_CHARS\<rparr> | None \<Rightarrow> s1)"

definition finish_impl :: "(SessionsFile \<Rightarrow> string option) \<Rightarrow> nat \<Rightarrow> string \<Rightarrow> bool \<Rightarrow> string \<Rightarrow> string option
    \<Rightarrow> session_world \<Rightarrow> session_world" where
  "finish_impl encode now i ok summary out = (\<lambda>(st, fs).
     let st1 = drop_executor i st
     in if session_get st1 i = None then (st1, fs)
        else
          (let st2 = st1\<lparr>ss_sessions := update_first (\<lambda>s. se_id s = i) (finish_record now ok summary out) (ss_sessions st1)\<rparr>
           in (st2, persist_locked encode st2 fs)))"

definition session_finish :: "(SessionsFile \<Rightarrow> string option) \<Rightarrow> nat \<Rightarrow> string \<Rightarrow> bool \<Rightarrow> string \<Rightarrow> string
    \<Rightarrow> session_world \<Rightarrow> session_world" where
  "session_finish encode now i ok summary out = finish_impl encode now i ok summary (Some out)"

definition register_child :: "string \<Rightarrow> nat \<Rightarrow> SessionStore \<Rightarrow> SessionStore" where
  "register_child i child st = st\<lparr>ss_children := bt_insert i child (ss_children st)\<rparr>"

definition update_running :: "string \<Rightarrow> (Session \<Rightarrow> Session) \<Rightarrow> SessionStore \<Rightarrow> SessionStore" where
  "update_running i f st =
     st\<lparr>ss_sessions := update_first (\<lambda>s. se_id s = i \<and> se_status s = SessRunning) f (ss_sessions st)\<rparr>"

definition update_output :: "string \<Rightarrow> string \<Rightarrow> SessionStore \<Rightarrow> SessionStore" where
  "update_output i out st = update_running i (\<lambda>s. s\<lparr>se_output := cap_output_chars out MAX_OUTPUT_CHARS\<rparr>) st"

definition update_trace :: "string \<Rightarrow> TraceEvent list \<Rightarrow> SessionStore \<Rightarrow> SessionStore" where
  "update_trace i trace st = update_running i (\<lambda>s. s\<lparr>se_trace := trace\<rparr>) st"

definition finish_channel_record :: "nat \<Rightarrow> bool \<Rightarrow> string \<Rightarrow> string option \<Rightarrow> Session \<Rightarrow> Session" where
  "finish_channel_record now ok summary thread s =
     s\<lparr>se_status := terminal_status ok, se_finished_at := Some now, se_summary := Some summary,
       se_thread_id := (case thread of Some t \<Rightarrow> Some t | None \<Rightarrow> se_thread_id s)\<rparr>"

definition finish_session_channel :: "(SessionsFile \<Rightarrow> string option) \<Rightarrow> nat \<Rightarrow> string \<Rightarrow> bool \<Rightarrow> string \<Rightarrow> string option
    \<Rightarrow> session_world \<Rightarrow> session_world" where
  "finish_session_channel encode now i ok summary thread = (\<lambda>(st, fs).
     let st1 = drop_executor i st
     in if session_get st1 i = None then (st1, fs)
        else
          (let st2 = st1\<lparr>ss_sessions :=
                 update_first (\<lambda>s. se_id s = i) (finish_channel_record now ok summary thread) (ss_sessions st1)\<rparr>
           in (st2, persist_locked encode st2 fs)))"

definition register_cancel_flag :: "string \<Rightarrow> bool \<Rightarrow> SessionStore \<Rightarrow> SessionStore" where
  "register_cancel_flag i flag st = st\<lparr>ss_cancel_flags := bt_insert i flag (ss_cancel_flags st)\<rparr>"

definition resume_record :: "string \<Rightarrow> Session \<Rightarrow> Session" where
  "resume_record t s =
     s\<lparr>se_task := t, se_status := SessRunning, se_finished_at := None, se_summary := None,
       se_round_tasks := se_round_tasks s @ [t]\<rparr>"

definition resume_start :: "(SessionsFile \<Rightarrow> string option) \<Rightarrow> string \<Rightarrow> string \<Rightarrow> session_world
    \<Rightarrow> (string + Session) \<times> session_world" where
  "resume_start encode i t = (\<lambda>(st, fs).
     case session_get st i of
       None \<Rightarrow> (Inl (''session '' @ quoted_name i @ '' not found''), st, fs)
     | Some s \<Rightarrow>
         (if se_thread_id s = None then (Inl (''session '' @ [CHR 0xE6, CHR 0xB2, CHR 0xA1, CHR 0xE6, CHR 0x9C,
      CHR 0x89] @ '' thread_id'' @ [CHR 0xEF, CHR 0xBC, CHR 0x8C, CHR 0xE6, CHR 0x97, CHR 0xA0, CHR 0xE6, CHR 0xB3,
      CHR 0x95] @ '' resume'' @ [CHR 0xEF, CHR 0xBC, CHR 0x88, CHR 0xE9, CHR 0x9C, CHR 0x80] @ '' session channel'' @ [CHR 0xEF,
      CHR 0xBC, CHR 0x89]), st, fs)
          else if se_status s = SessRunning then (Inl (''session '' @ [CHR 0xE6, CHR 0xAD, CHR 0xA3, CHR 0xE5, CHR 0x9C,
      CHR 0xA8, CHR 0xE8, CHR 0xBF, CHR 0x90, CHR 0xE8, CHR 0xA1, CHR 0x8C, CHR 0xE4, CHR 0xB8, CHR 0xAD]), st, fs)
          else
            (let st' = st\<lparr>ss_sessions := update_first (\<lambda>s. se_id s = i) (resume_record t) (ss_sessions st)\<rparr>
             in (Inr (resume_record t s), st', persist_locked encode st' fs))))"

definition has_child :: "SessionStore \<Rightarrow> string \<Rightarrow> bool" where
  "has_child st i \<longleftrightarrow> bt_contains (ss_children st) i"

text \<open>Cancelling kills the registered process (returned here) and waits for it at most three seconds,
  or raises the flag that the driver of a session channel polls.\<close>

definition session_cancel :: "(SessionsFile \<Rightarrow> string option) \<Rightarrow> nat \<Rightarrow> string \<Rightarrow> session_world
    \<Rightarrow> (string + nat option) \<times> session_world" where
  "session_cancel encode now i = (\<lambda>(st, fs).
     case bt_get (ss_children st) i of
       Some child \<Rightarrow> (Inr (Some child), finish_impl encode now i False CANCELLED_SUMMARY None (st\<lparr>ss_children := bt_remove i (ss_children st)\<rparr>, fs))
     | None \<Rightarrow>
         (case bt_get (ss_cancel_flags st) i of
            Some _ \<Rightarrow> (Inr None, st\<lparr>ss_cancel_flags := bt_insert i True (ss_cancel_flags st)\<rparr>, fs)
          | None \<Rightarrow> (Inl (''session '' @ quoted_name i @ ('' '' @ [CHR 0xE6, CHR 0xB2, CHR 0xA1, CHR 0xE6, CHR 0x9C,
      CHR 0x89, CHR 0xE6, CHR 0xAD, CHR 0xA3, CHR 0xE5, CHR 0x9C, CHR 0xA8, CHR 0xE8, CHR 0xBF, CHR 0x90, CHR 0xE8, CHR 0xA1,
      CHR 0x8C, CHR 0xE7, CHR 0x9A, CHR 0x84] @ '' executor'')), st, fs)))"

section \<open>The worker\<close>

text \<open>What one pass of the worker observes after its check: whether a second has passed since it last
  published the output, the output so far, the result of \<open>try_wait\<close> (an error, still running, or the
  success of the exit), and whether the configured limit has passed.\<close>

record WorkerObs =
  wo_publish :: bool
  wo_buffer :: string
  wo_wait :: "string + bool option"
  wo_timeout :: "nat option"
  wo_now :: nat

definition exit_summary :: "bool \<Rightarrow> string \<Rightarrow> string" where
  "exit_summary ok raw =
     (case find (\<lambda>l. trim_str l \<noteq> []) (rev (str_lines raw)) of
        Some l \<Rightarrow> l
      | None \<Rightarrow> (if ok then [CHR 0xEF, CHR 0xBC, CHR 0x88, CHR 0xE6, CHR 0x97, CHR 0xA0, CHR 0xE8, CHR 0xBE, CHR 0x93,
      CHR 0xE5, CHR 0x87, CHR 0xBA, CHR 0xEF, CHR 0xBC, CHR 0x89] else ''executor '' @ [CHR 0xE6, CHR 0x89, CHR 0xA7, CHR 0xE8,
      CHR 0xA1, CHR 0x8C, CHR 0xE5, CHR 0xA4, CHR 0xB1, CHR 0xE8, CHR 0xB4, CHR 0xA5]))"

definition worker_poll :: "(SessionsFile \<Rightarrow> string option) \<Rightarrow> string \<Rightarrow> WorkerObs \<Rightarrow> session_world \<Rightarrow> bool \<times> session_world" where
  "worker_poll encode i obs = (\<lambda>(st, fs).
     let st1 = (if wo_publish obs then update_output i (wo_buffer obs) st else st)
     in case wo_wait obs of
          Inl err \<Rightarrow> (True, session_finish encode (wo_now obs) i False ((''executor '' @ [CHR 0xE7, CHR 0x8A,
      CHR 0xB6, CHR 0xE6, CHR 0x80, CHR 0x81, CHR 0xE6, CHR 0xA3, CHR 0x80, CHR 0xE6, CHR 0x9F, CHR 0xA5, CHR 0xE5, CHR 0xA4,
      CHR 0xB1, CHR 0xE8, CHR 0xB4, CHR 0xA5, CHR 0xEF, CHR 0xBC, CHR 0x9A]) @ err) (wo_buffer obs) (st1, fs))
        | Inr (Some ok) \<Rightarrow>
            (True, session_finish encode (wo_now obs) i ok (exit_summary ok (wo_buffer obs)) (wo_buffer obs) (st1, fs))
        | Inr None \<Rightarrow>
            (case wo_timeout obs of
               Some secs \<Rightarrow>
                 (True, session_finish encode (wo_now obs) i False ((''executor '' @ [CHR 0xE8, CHR 0xB6, CHR 0x85, CHR 0xE8,
      CHR 0xBF, CHR 0x87] @ '' '') @ nat_digits secs @ ('' '' @ [CHR 0xE7, CHR 0xA7, CHR 0x92, CHR 0xE6, CHR 0x9C, CHR 0xAA,
      CHR 0xE5, CHR 0xAE, CHR 0x8C, CHR 0xE6, CHR 0x88, CHR 0x90, CHR 0xEF, CHR 0xBC, CHR 0x8C, CHR 0xE5, CHR 0xB7, CHR 0xB2,
      CHR 0xE6, CHR 0x8C, CHR 0x89, CHR 0xE6, CHR 0x98, CHR 0xBE, CHR 0xE5, CHR 0xBC, CHR 0x8F, CHR 0xE9, CHR 0x85, CHR 0x8D,
      CHR 0xE7, CHR 0xBD, CHR 0xAE, CHR 0xE8, CHR 0x87, CHR 0xAA, CHR 0xE5, CHR 0x8A, CHR 0xA8, CHR 0xE7, CHR 0xBB, CHR 0x88,
      CHR 0xE6, CHR 0xAD, CHR 0xA2])) (wo_buffer obs) (st1, fs))
             | None \<Rightarrow> (False, st1, fs)))"

text \<open>The loop, for a run in which no other thread interferes; \<^const>\<open>None\<close> when the observations end before
  the worker does.\<close>

fun worker_loop :: "(SessionsFile \<Rightarrow> string option) \<Rightarrow> string \<Rightarrow> WorkerObs list \<Rightarrow> session_world \<Rightarrow> session_world option" where
  "worker_loop encode i [] w = (if has_child (fst w) i then None else Some w)"
| "worker_loop encode i (obs # obss) w =
     (if \<not> has_child (fst w) i then Some w
      else case worker_poll encode i obs w of
             (True, w') \<Rightarrow> Some w'
           | (False, w') \<Rightarrow> worker_loop encode i obss w')"


section \<open>Laws of the records\<close>

named_theorems sess_defs

lemmas sess_op_defs [sess_defs] = session_create_def finish_impl_def session_finish_def finish_session_channel_def
  register_child_def register_cancel_flag_def update_output_def update_trace_def update_running_def
  resume_start_def session_cancel_def drop_executor_def

definition ids_distinct :: "SessionStore \<Rightarrow> bool" where
  "ids_distinct st \<longleftrightarrow> distinct (map se_id (ss_sessions st))"

lemma update_first_map:
  "distinct (map se_id ss) \<Longrightarrow>
   update_first (\<lambda>s. se_id s = i \<and> Q s) f ss = map (\<lambda>s. if se_id s = i \<and> Q s then f s else s) ss"
proof (induction ss)
  case (Cons s ss)
  show ?case
  proof (cases "se_id s = i")
    case True
    have "map (\<lambda>s. if se_id s = i \<and> Q s then f s else s) ss = ss"
      using True Cons.prems by (intro map_idI) (force simp: image_iff)
    then show ?thesis using True Cons by auto
  qed (use Cons in auto)
qed simp

lemma update_first_id:
  "distinct (map se_id ss) \<Longrightarrow> update_first (\<lambda>s. se_id s = i) f ss = map (\<lambda>s. if se_id s = i then f s else s) ss"
  using update_first_map [where Q = "\<lambda>_. True"] by simp

lemma find_map_same_id:
  assumes "\<And>s. se_id (g s) = se_id s"
  shows "find (\<lambda>s. se_id s = j) (map g ss) = map_option g (find (\<lambda>s. se_id s = j) ss)"
  by (induction ss) (simp_all add: assms)

lemma record_ids [simp]:
  "se_id (finish_record now ok summary out s) = se_id s"
  "se_id (finish_channel_record now ok summary thread s) = se_id s"
  "se_id (resume_record t s) = se_id s"
  by (simp_all add: finish_record_def finish_channel_record_def resume_record_def Let_def split: option.split)

lemma map_if_ids: "(\<And>s. se_id (f s) = se_id s) \<Longrightarrow> map se_id (map (\<lambda>s. if P s then f s else s) ss) = map se_id ss"
  by simp

text \<open>What an operation does to the records: it appends one, or maps one function over them.\<close>

definition rec_change :: "string \<Rightarrow> (Session \<Rightarrow> Session) \<Rightarrow> Session \<Rightarrow> Session" where
  "rec_change i f s = (if se_id s = i then f s else s)"

definition while_running :: "(Session \<Rightarrow> Session) \<Rightarrow> Session \<Rightarrow> Session" where
  "while_running f s = (if se_status s = SessRunning then f s else s)"

lemma update_running_sessions:
  "ids_distinct st \<Longrightarrow> ss_sessions (update_running i f st) = map (rec_change i (while_running f)) (ss_sessions st)"
  by (auto simp: ids_distinct_def update_running_def update_first_map rec_change_def while_running_def)

lemma session_get_None: "session_get st i = None \<Longrightarrow> map (rec_change i f) (ss_sessions st) = ss_sessions st"
  by (auto simp: session_get_def find_None_iff rec_change_def intro!: map_idI)

lemma drop_executor_sessions [simp]:
  "ss_sessions (drop_executor i st) = ss_sessions st" "session_get (drop_executor i st) j = session_get st j"
  by (simp_all add: drop_executor_def session_get_def)

lemma finish_impl_sessions:
  assumes "ids_distinct st"
  shows "ss_sessions (fst (finish_impl encode now i ok summary out (st, fs))) =
     map (rec_change i (finish_record now ok summary out)) (ss_sessions st)"
  using assms session_get_None [of st i]
  by (simp add: finish_impl_def Let_def ids_distinct_def update_first_id rec_change_def [abs_def])

lemma finish_channel_sessions:
  assumes "ids_distinct st"
  shows "ss_sessions (fst (finish_session_channel encode now i ok summary thread (st, fs))) =
     map (rec_change i (finish_channel_record now ok summary thread)) (ss_sessions st)"
  using assms session_get_None [of st i]
  by (simp add: finish_session_channel_def Let_def ids_distinct_def update_first_id rec_change_def [abs_def])

section \<open>The session machine\<close>

text \<open>One step for every method. Identifiers come from a nanosecond clock; that two sessions do not get the
  same one is the guard of the first rule.\<close>

inductive session_step :: "(SessionsFile \<Rightarrow> string option) \<Rightarrow> session_world \<Rightarrow> session_world \<Rightarrow> bool"
  for encode :: "SessionsFile \<Rightarrow> string option" where
  create: "session_get (fst w) (''s-'' @ nat_digits nanos) = None \<Longrightarrow>
    session_step encode w (snd (session_create encode nanos now agent t dir scope allow w))"
| finish: "session_step encode w (session_finish encode now i ok summary out w)"
| channel: "session_step encode w (finish_session_channel encode now i ok summary thread w)"
| child: "session_step encode (st, fs) (register_child i c st, fs)"
| flag: "session_step encode (st, fs) (register_cancel_flag i b st, fs)"
| publish: "session_step encode (st, fs) (update_output i out st, fs)"
| trace: "session_step encode (st, fs) (update_trace i evs st, fs)"
| resume: "session_step encode w (snd (resume_start encode i t w))"
| cancel: "session_step encode w (snd (session_cancel encode now i w))"

lemma resume_sessions:
  assumes "ids_distinct st"
  shows "ss_sessions (fst (snd (resume_start encode i t (st, fs)))) =
    (case session_get st i of
       Some s \<Rightarrow> (if se_thread_id s \<noteq> None \<and> se_status s \<noteq> SessRunning
                 then map (rec_change i (resume_record t)) (ss_sessions st) else ss_sessions st)
     | None \<Rightarrow> ss_sessions st)"
  using assms by (auto simp: resume_start_def Let_def ids_distinct_def update_first_id rec_change_def [abs_def] split: option.split)

lemma cancel_sessions:
  assumes "ids_distinct st"
  shows "ss_sessions (fst (snd (session_cancel encode now i (st, fs)))) =
    (if has_child st i then map (rec_change i (finish_record now False CANCELLED_SUMMARY None)) (ss_sessions st)
     else ss_sessions st)"
proof (cases "bt_get (ss_children st) i")
  case None
  then show ?thesis by (simp add: session_cancel_def has_child_def bt_contains_def bt_get_def split: option.split)
next
  case (Some c)
  let ?st = "st\<lparr>ss_children := bt_remove i (ss_children st)\<rparr>"
  have "ids_distinct ?st" using assms by (simp add: ids_distinct_def)
  from finish_impl_sessions [OF this, of encode now i False CANCELLED_SUMMARY None fs] Some show ?thesis
    by (simp add: session_cancel_def has_child_def bt_contains_def bt_get_def)
qed

text \<open>Every step appends a fresh running session, or changes the records of one identifier in one of five ways.\<close>

lemma step_shape:
  assumes "session_step encode (st, fs) (st', fs')" and "ids_distinct st"
  obtains (fresh) s where "ss_sessions st' = ss_sessions st @ [s]" "session_get st (se_id s) = None"
      "se_status s = SessRunning" "se_finished_at s = None" "se_summary s = None" "se_round_tasks s = [se_task s]"
      "se_trace s = []" "se_output s = []"
  | (same) "ss_sessions st' = ss_sessions st"
  | (fin) i now ok summary out where "ss_sessions st' = map (rec_change i (finish_record now ok summary out)) (ss_sessions st)"
  | (chan) i now ok summary thread where
      "ss_sessions st' = map (rec_change i (finish_channel_record now ok summary thread)) (ss_sessions st)"
  | (out) i raw where "ss_sessions st' =
      map (rec_change i (while_running (\<lambda>s. s\<lparr>se_output := cap_output_chars raw MAX_OUTPUT_CHARS\<rparr>))) (ss_sessions st)"
  | (trc) i evs where "ss_sessions st' = map (rec_change i (while_running (\<lambda>s. s\<lparr>se_trace := evs\<rparr>))) (ss_sessions st)"
  | (res) i t where "ss_sessions st' = map (rec_change i (resume_record t)) (ss_sessions st)"
      "\<exists>s. session_get st i = Some s \<and> se_thread_id s \<noteq> None \<and> se_status s \<noteq> SessRunning"
  using assms(1)
proof cases
  case (create nanos now agent t dir scope allow)
  show thesis
    by (rule fresh [of "fst (session_create encode nanos now agent t dir scope allow (st, fs))"])
      (use create in \<open>simp_all add: session_create_def Let_def\<close>)
next
  case (finish now i ok summary out)
  then show thesis using fin [of i now ok summary "Some out"] finish_impl_sessions [OF assms(2)]
    by (metis fst_conv session_finish_def)
next
  case (channel now i ok summary thread)
  then show thesis using chan finish_channel_sessions [OF assms(2)] by (metis fst_conv)
next
  case (child i c)
  then show thesis using same by (simp add: register_child_def)
next
  case (flag i b)
  then show thesis using same by (simp add: register_cancel_flag_def)
next
  case (publish i raw)
  then show thesis by (intro out [of i raw]) (simp only: update_output_def update_running_sessions [OF assms(2)])
next
  case (trace i evs)
  then show thesis by (intro trc [of i evs]) (simp only: update_trace_def update_running_sessions [OF assms(2)])
next
  case (resume i t)
  then have "ss_sessions st' = (case session_get st i of
       Some s \<Rightarrow> (if se_thread_id s \<noteq> None \<and> se_status s \<noteq> SessRunning
                 then map (rec_change i (resume_record t)) (ss_sessions st) else ss_sessions st)
     | None \<Rightarrow> ss_sessions st)" using resume_sessions [OF assms(2), of encode i t fs] by (metis fst_conv)
  then show thesis using same res [of i t] by (auto split: option.splits if_splits)
next
  case (cancel now i)
  then have "ss_sessions st' = (if has_child st i
     then map (rec_change i (finish_record now False CANCELLED_SUMMARY None)) (ss_sessions st) else ss_sessions st)"
    using cancel_sessions [OF assms(2), of encode now i fs] by (metis fst_conv)
  then show thesis using same fin [of i now False CANCELLED_SUMMARY None] by (auto split: if_splits)
qed


section \<open>Invariants of reachable stores\<close>

definition fresh_world :: "path \<Rightarrow> fsys \<Rightarrow> session_world" where
  "fresh_world home fs = (\<lparr>ss_sessions = [], ss_children = [], ss_cancel_flags = [], ss_home = home\<rparr>, fs)"

inductive session_reach :: "(SessionsFile \<Rightarrow> string option) \<Rightarrow> session_world \<Rightarrow> bool"
  for encode :: "SessionsFile \<Rightarrow> string option" where
  start: "session_reach encode (fresh_world home fs)"
| step: "session_reach encode w \<Longrightarrow> session_step encode w w' \<Longrightarrow> session_reach encode w'"

text \<open>The characters of a capped output: the limit, and the notice in front of it.\<close>

definition session_ok :: "Session \<Rightarrow> bool" where
  "session_ok s \<longleftrightarrow>
     (se_status s = SessRunning \<longleftrightarrow> se_finished_at s = None) \<and>
     (se_status s = SessRunning \<longleftrightarrow> se_summary s = None) \<and>
     se_round_tasks s \<noteq> [] \<and> last (se_round_tasks s) = se_task s"

lemma session_ok_changes:
  assumes "session_ok s"
  shows "session_ok (finish_record now ok summary out s)"
    and "session_ok (finish_channel_record now ok summary thread s)"
    and "session_ok (resume_record t s)"
    and "session_ok (while_running (\<lambda>s. s\<lparr>se_output := raw\<rparr>) s)"
    and "session_ok (while_running (\<lambda>s. s\<lparr>se_trace := evs\<rparr>) s)"
  using assms
  by (auto simp: session_ok_def finish_record_def finish_channel_record_def resume_record_def while_running_def
      terminal_status_def Let_def split: option.split)

lemma rec_change_ok: "(\<And>s. session_ok s \<Longrightarrow> session_ok (f s)) \<Longrightarrow> session_ok s \<Longrightarrow> session_ok (rec_change i f s)"
  by (simp add: rec_change_def)

lemma rec_change_id: "(\<And>s. se_id (f s) = se_id s) \<Longrightarrow> se_id (rec_change i f s) = se_id s"
  by (simp add: rec_change_def)

lemma while_running_id [simp]: "(\<And>s. se_id (f s) = se_id s) \<Longrightarrow> se_id (while_running f s) = se_id s"
  by (simp add: while_running_def)

lemma step_invariant:
  assumes "session_step encode (st, fs) (st', fs')" and "ids_distinct st" and "list_all session_ok (ss_sessions st)"
  shows "ids_distinct st' \<and> list_all session_ok (ss_sessions st')"
  using assms(1,2)
proof (cases rule: step_shape)
  case (fresh s)
  with assms(2,3) show ?thesis by (auto simp: ids_distinct_def session_get_def find_None_iff session_ok_def list_all_iff)
qed (use assms(2,3) session_ok_changes in \<open>auto simp: ids_distinct_def list_all_iff comp_def rec_change_id intro!: rec_change_ok\<close>)

lemma reach_invariant:
  assumes "session_reach encode w"
  shows "ids_distinct (fst w) \<and> list_all session_ok (ss_sessions (fst w))"
  using assms
proof induction
  case (start home fs)
  then show ?case by (simp add: fresh_world_def ids_distinct_def)
next
  case (step w w')
  then show ?case using step_invariant by (metis prod.collapse)
qed


section \<open>History\<close>

definition record_follows :: "Session \<Rightarrow> Session \<Rightarrow> bool" where
  "record_follows s s' \<longleftrightarrow> prefix (se_round_tasks s) (se_round_tasks s') \<and>
     (se_status s \<noteq> SessRunning \<and> se_round_tasks s' = se_round_tasks s \<longrightarrow> se_trace s' = se_trace s \<and> se_status s' \<noteq> SessRunning) \<and>
     (se_thread_id s \<noteq> None \<longrightarrow> se_thread_id s' \<noteq> None) \<and>
     se_id s' = se_id s \<and> se_created_at s' = se_created_at s \<and> se_scope s' = se_scope s \<and>
     se_capability_allowlist s' = se_capability_allowlist s"

lemma record_follows_refl: "record_follows s s"
  by (simp add: record_follows_def)

lemma record_follows_trans:
  assumes "record_follows a b" and "record_follows b c"
  shows "record_follows a c"
proof -
  have p: "prefix (se_round_tasks a) (se_round_tasks b)" "prefix (se_round_tasks b) (se_round_tasks c)"
    using assms by (simp_all add: record_follows_def)
  have "se_round_tasks b = se_round_tasks a" "se_round_tasks c = se_round_tasks b"
    if "se_round_tasks c = se_round_tasks a"
    using p that by (metis prefix_order.antisym)+
  then show ?thesis using assms p unfolding record_follows_def by (metis prefix_order.trans)
qed

lemma record_follows_changes:
  "record_follows s (finish_record now ok summary out s)"
  "record_follows s (finish_channel_record now ok summary thread s)"
  "record_follows s (while_running (\<lambda>s. s\<lparr>se_output := raw\<rparr>) s)"
  "record_follows s (while_running (\<lambda>s. s\<lparr>se_trace := evs\<rparr>) s)"
  "record_follows s (resume_record t s)"
  by (auto simp: record_follows_def finish_record_def finish_channel_record_def resume_record_def while_running_def
      terminal_status_def Let_def split: option.split)

lemma find_app: "find P (xs @ ys) = (case find P xs of Some x \<Rightarrow> Some x | None \<Rightarrow> find P ys)"
  by (induction xs) auto

lemma get_append: "session_get st i = Some s \<Longrightarrow> ss_sessions st' = ss_sessions st @ ss \<Longrightarrow> session_get st' i = Some s"
  by (auto simp: session_get_def find_app split: option.split)

lemma get_map:
  "session_get st i = Some s \<Longrightarrow> (\<And>s. se_id (f s) = se_id s) \<Longrightarrow> ss_sessions st' = map (rec_change j f) (ss_sessions st) \<Longrightarrow>
   session_get st' i = Some (rec_change j f s)"
  by (simp add: session_get_def find_map_same_id rec_change_id)

lemma rec_change_follows: "(\<And>s. record_follows s (f s)) \<Longrightarrow> record_follows s (rec_change i f s)"
  by (simp add: rec_change_def record_follows_refl)

lemma step_follows:
  assumes "session_step encode (st, fs) (st', fs')" and "ids_distinct st" and "session_get st i = Some s"
  shows "\<exists>s'. session_get st' i = Some s' \<and> record_follows s s'"
  using assms(1,2)
proof (cases rule: step_shape)
  case (fresh s')
  with get_append [OF assms(3)] show ?thesis using record_follows_refl by blast
next
  case same
  with assms(3) show ?thesis using record_follows_refl by (auto simp: session_get_def)
next
  case (fin j now ok summary out)
  show ?thesis using get_map [OF assms(3) _ fin] by (auto intro!: rec_change_follows record_follows_changes)
next
  case (chan j now ok summary thread)
  show ?thesis using get_map [OF assms(3) _ chan] by (auto intro!: rec_change_follows record_follows_changes)
next
  case (out j raw)
  show ?thesis using get_map [OF assms(3) _ out] by (auto intro!: rec_change_follows record_follows_changes)
next
  case (trc j evs)
  show ?thesis using get_map [OF assms(3) _ trc] by (auto intro!: rec_change_follows record_follows_changes)
next
  case (res j t)
  show ?thesis using get_map [OF assms(3) _ res(1)] by (auto intro!: rec_change_follows record_follows_changes)
qed


text \<open>The history of a session is append-only. From any reachable store, whatever methods run next and in
  whatever order, a session is never lost; its identity, creation time, scope and capability list
  never change; its rounds are only extended; a thread identifier is never lost; and once a round has
  ended, its trace is frozen and the session is not running again until a new round is submitted.\<close>

theorem session_history_append_only:
  assumes "session_reach encode w" and "(session_step encode)\<^sup>*\<^sup>* w w'" and "session_get (fst w) i = Some s"
  shows "\<exists>s'. session_get (fst w') i = Some s' \<and> prefix (se_round_tasks s) (se_round_tasks s') \<and>
    se_created_at s' = se_created_at s \<and> se_scope s' = se_scope s \<and>
    se_capability_allowlist s' = se_capability_allowlist s \<and> (se_thread_id s = None \<or> se_thread_id s' \<noteq> None) \<and>
    (se_status s = SessRunning \<or> length (se_round_tasks s) < length (se_round_tasks s') \<or>
     se_trace s' = se_trace s \<and> se_status s' \<noteq> SessRunning)"
proof -
  have "session_reach encode w' \<and> (\<exists>s'. session_get (fst w') i = Some s' \<and> record_follows s s')"
    using assms(2)
  proof (induction rule: rtranclp_induct)
    case base
    show ?case using assms(1,3) record_follows_refl by blast
  next
    case (step w1 w2)
    then obtain s1 where s1: "session_reach encode w1" "session_get (fst w1) i = Some s1" "record_follows s s1" by blast
    then have "\<exists>s'. session_get (fst w2) i = Some s' \<and> record_follows s1 s'"
      using step_follows [of encode "fst w1" "snd w1" "fst w2" "snd w2" i s1] reach_invariant [OF s1(1)] step.hyps(2) by simp
    then show ?case using s1 step.hyps(2) session_reach.step record_follows_trans by blast
  qed
  then obtain s' where s': "session_get (fst w') i = Some s'" "record_follows s s'" by blast
  moreover have "se_round_tasks s' = se_round_tasks s" if "\<not> length (se_round_tasks s) < length (se_round_tasks s')"
    using s'(2) that by (auto simp: record_follows_def prefix_def)
  ultimately show ?thesis by (intro exI [of _ s']) (auto simp: record_follows_def)
qed

section \<open>Resuming, cancelling and the worker\<close>

text \<open>A round is resumed only on a finished session with a thread. Resuming succeeds exactly when the session
  exists, has a thread identifier and is not running; it then starts the next round and keeps
  identity, trace and output; otherwise neither the store nor the disk changes.\<close>

theorem resume_exact:
  "(case resume_start encode i t (st, fs) of
      (Inr s', st', fs') \<Rightarrow>
        (\<exists>s. session_get st i = Some s \<and> se_thread_id s \<noteq> None \<and> se_status s \<noteq> SessRunning \<and>
           s' = s\<lparr>se_task := t, se_status := SessRunning, se_finished_at := None, se_summary := None,
                  se_round_tasks := se_round_tasks s @ [t]\<rparr> \<and>
           session_get st' i = Some s' \<and> fs' = persist_locked encode st' fs)
    | (Inl err, st', fs') \<Rightarrow> st' = st \<and> fs' = fs) \<and>
   (isl (fst (resume_start encode i t (st, fs))) \<longleftrightarrow>
      (case session_get st i of Some s \<Rightarrow> se_thread_id s = None \<or> se_status s = SessRunning | None \<Rightarrow> True))"
proof -
  have upd: "find (\<lambda>s. se_id s = i) (update_first (\<lambda>s. se_id s = i) (resume_record t) ss) =
      map_option (resume_record t) (find (\<lambda>s. se_id s = i) ss)" for ss
    by (induction ss) auto
  show ?thesis
  proof (cases "session_get st i")
    case None
    then show ?thesis by (simp add: resume_start_def)
  next
    case (Some s)
    then show ?thesis using upd [of "ss_sessions st"]
      by (auto simp: resume_start_def Let_def session_get_def) (simp_all add: resume_record_def)
  qed
qed

lemma finish_impl_get:
  "session_get (fst (finish_impl encode now i ok summary out (st, fs))) i =
     map_option (finish_record now ok summary out) (session_get st i)"
proof -
  have upd: "find (\<lambda>s. se_id s = i) (update_first (\<lambda>s. se_id s = i) (finish_record now ok summary out) ss) =
      map_option (finish_record now ok summary out) (find (\<lambda>s. se_id s = i) ss)" for ss
    by (induction ss) auto
  then show ?thesis by (simp add: finish_impl_def Let_def session_get_def)
qed

lemma finish_impl_children: "\<not> has_child (fst (finish_impl encode now i ok summary out (st, fs))) i"
  by (simp add: finish_impl_def Let_def drop_executor_def has_child_def bt_contains_def map_simps)

lemma update_output_get:
  "map_option se_status (session_get (update_output j out st) i) = map_option se_status (session_get st i)"
proof -
  have "map_option se_status (find (\<lambda>s. se_id s = i)
      (update_first (\<lambda>s. se_id s = j \<and> se_status s = SessRunning) (\<lambda>s. s\<lparr>se_output := raw\<rparr>) ss)) =
    map_option se_status (find (\<lambda>s. se_id s = i) ss)" for raw ss
    by (induction ss) auto
  then show ?thesis by (simp add: update_output_def update_running_def session_get_def)
qed

lemma finish_record_status [simp]: "se_status (finish_record now ok summary out s) = terminal_status ok"
  by (simp add: finish_record_def Let_def split: option.split)

lemma worker_poll_exit:
  assumes "worker_poll encode i obs (st, fs) = (d, st', fs')" and "wo_wait obs = Inr (Some ok)" and "session_get st i \<noteq> None"
  shows "d" and "map_option se_status (session_get st' i) = Some (terminal_status ok)" and "\<not> has_child st' i"
proof -
  let ?st = "if wo_publish obs then update_output i (wo_buffer obs) st else st"
  have w: "(d, st', fs') = (True, finish_impl encode (wo_now obs) i ok (exit_summary ok (wo_buffer obs)) (Some (wo_buffer obs)) (?st, fs))"
    using assms(1,2) by (simp add: worker_poll_def session_finish_def Let_def)
  then show "d" by simp
  from w have st': "st' = fst (finish_impl encode (wo_now obs) i ok (exit_summary ok (wo_buffer obs)) (Some (wo_buffer obs)) (?st, fs))"
    by (metis fst_conv snd_conv)
  show "\<not> has_child st' i" unfolding st' by (rule finish_impl_children)
  have "session_get ?st i \<noteq> None" using assms(3) update_output_get [of i "wo_buffer obs" st i] by auto
  then show "map_option se_status (session_get st' i) = Some (terminal_status ok)"
    unfolding st' finish_impl_get by auto
qed


text \<open>A cancelled session can still end as completed. The worker checks that its executor is registered and
  polls the process without the lock in between. If the user cancels in that window and the process
  had already exited successfully, the poll overwrites the cancellation: the session ends completed.\<close>

theorem cancellation_overwritten_by_poll:
  assumes "has_child st i" and "session_get st i \<noteq> None"
    and "session_cancel encode now i (st, fs) = (r, st1, fs1)"
    and "wo_wait obs = Inr (Some True)" and "worker_poll encode i obs (st1, fs1) = (d, st2, fs2)"
  shows "map_option se_status (session_get st1 i) = Some SessError \<and>
    map_option se_status (session_get st2 i) = Some SessCompleted"
proof -
  let ?st = "st\<lparr>ss_children := bt_remove i (ss_children st)\<rparr>"
  obtain c where c: "bt_get (ss_children st) i = Some c" using assms(1) by (auto simp: has_child_def bt_contains_def bt_get_def)
  with assms(3) have st1: "st1 = fst (finish_impl encode now i False CANCELLED_SUMMARY None (?st, fs))"
    by (auto simp: session_cancel_def)
  have g: "session_get ?st i = session_get st i" by (simp add: session_get_def)
  then have s1: "map_option se_status (session_get st1 i) = Some SessError"
    using assms(2) unfolding st1 finish_impl_get by (auto simp: terminal_status_def)
  then have "session_get st1 i \<noteq> None" by auto
  from worker_poll_exit(2) [OF assms(5,4) this] s1 show ?thesis by (simp add: terminal_status_def)
qed

definition still_running :: "WorkerObs \<Rightarrow> bool" where
  "still_running obs \<longleftrightarrow> wo_wait obs = Inr None \<and> wo_timeout obs = None"

lemma update_output_child [simp]: "has_child (update_output j out st) i = has_child st i"
  by (simp add: update_output_def update_running_def has_child_def)

text \<open>C26: the worker ends with its process. If a registered executor runs for any number of polls and then exits,
  the worker returns: the session is completed or failed as the exit says, keeps the capped output,
  and the executor is unregistered; as long as the process runs and no limit is configured, the
  worker never gives up.\<close>

theorem worker_ends_with_process:
  assumes "has_child st i" and "session_get st i \<noteq> None" and "list_all still_running obss" and "wo_wait obs = Inr (Some ok)"
  shows "\<exists>st' fs' s'. worker_loop encode i (obss @ obs # rest) (st, fs) = Some (st', fs') \<and> session_get st' i = Some s' \<and>
      se_status s' = terminal_status ok \<and> se_output s' = cap_output_chars (wo_buffer obs) MAX_OUTPUT_CHARS \<and>
      se_summary s' = Some (exit_summary ok (wo_buffer obs)) \<and> \<not> has_child st' i \<and>
      worker_loop encode i obss (st, fs) = None"
  using assms(1-3)
proof (induction obss arbitrary: st)
  case Nil
  let ?st = "if wo_publish obs then update_output i (wo_buffer obs) st else st"
  let ?w = "finish_impl encode (wo_now obs) i ok (exit_summary ok (wo_buffer obs)) (Some (wo_buffer obs)) (?st, fs)"
  have w: "worker_poll encode i obs (st, fs) = (True, ?w)"
    using assms(4) by (simp add: worker_poll_def session_finish_def Let_def)
  have "session_get ?st i \<noteq> None" using Nil(2) update_output_get [of i "wo_buffer obs" st i] by auto
  then obtain s where "session_get ?st i = Some s" by blast
  then have "session_get (fst ?w) i = Some (finish_record (wo_now obs) ok (exit_summary ok (wo_buffer obs)) (Some (wo_buffer obs)) s)"
    by (simp add: finish_impl_get)
  moreover have "\<not> has_child (fst ?w) i" by (rule finish_impl_children)
  moreover have "worker_loop encode i ([] @ obs # rest) (st, fs) = Some (fst ?w, snd ?w)" using Nil(1) w by simp
  ultimately show ?case using Nil(1)
    by (intro exI [of _ "fst ?w"] exI [of _ "snd ?w"]
        exI [of _ "finish_record (wo_now obs) ok (exit_summary ok (wo_buffer obs)) (Some (wo_buffer obs)) s"])
      (simp add: finish_record_def Let_def)
next
  case (Cons o1 obss)
  let ?st = "if wo_publish o1 then update_output i (wo_buffer o1) st else st"
  have w: "worker_poll encode i o1 (st, fs) = (False, ?st, fs)"
    using Cons.prems(3) by (simp add: worker_poll_def still_running_def Let_def)
  have "has_child ?st i" "session_get ?st i \<noteq> None" "list_all still_running obss"
    using Cons.prems update_output_get [of i "wo_buffer o1" st i] by auto
  from Cons.IH [OF this] Cons.prems(1) w show ?case by simp
qed


section \<open>Restart\<close>

lemma read_written:
  assumes "link_free fs" and "''..'' \<notin> set p" and "fs_write_bytes fs p text = Inr fs'" and "utf8_valid text"
  shows "fs_read_to_string fs' p = Inr text"
proof -
  have r: "resolve_path fs p = p" using assms by (intro resolve_link_free)
  from assms(3) r have fs': "fs' = put_node p (FileNode text) fs"
    unfolding fs_write_bytes_def by (metis fs_open_write_cases)
  have "resolve_path fs' p = p" using assms(1,2) fs' by (intro resolve_link_free) (auto intro: link_free_put)
  then show ?thesis using assms(4) by (simp add: fs_read_to_string_def fs_read_bytes_def stat_def fs')
qed

lemma migrate_typed:
  assumes "json_wf v" and "\<And>es. json_get v ''trace'' = Some (JArray es) \<Longrightarrow> list_all (\<lambda>e. as_str e = None) es"
  shows "migrate_session v = v"
proof (cases v)
  case (JObject m)
  have "map migrate_entry es = es" if "bt_get m ''trace'' = Some (JArray es)" for es
    using assms(2) [of es] that JObject by (intro map_idI) (auto simp: list_all_iff migrate_entry_def)
  then show ?thesis using assms(1) JObject bt_insert_same [of m "''trace''"]
    by (auto simp: migrate_session_def split: option.split json.split)
qed (simp_all add: migrate_session_def)

lemma map_filter_decode: "(\<And>s. s \<in> set ss \<Longrightarrow> decode (f s) = Some s) \<Longrightarrow> List.map_filter decode (map f ss) = ss"
  by (induction ss) (auto simp: map_filter_simps)

text \<open>A restart loses no session and leaves none running. Given a JSON codec that reads back what it wrote
  (typed traces are written as objects), loading what a well-formed store persisted gives the same
  sessions in the same order, except that every session that was still running is now failed, with
  the time of the restart and the notice that it was interrupted.\<close>

theorem restart_marks_interrupted:
  assumes "list_all session_ok ss" and "ss_sessions st = ss" and "ss_home st = home"
    and "encode \<lparr>sf_schema_version = SESSIONS_SCHEMA_VERSION, sf_sessions = ss\<rparr> = Some raw" and "utf8_valid raw"
    and "parse raw = Some v" and "json_get v ''sessions'' = Some (JArray (map to_json ss))"
    and "list_all (\<lambda>s. decode (to_json s) = Some s \<and> json_wf (to_json s)) ss"
    and "list_all (\<lambda>s. \<forall>es. json_get (to_json s) ''trace'' = Some (JArray es) \<longrightarrow> list_all (\<lambda>e. as_str e = None) es) ss"
    and "fs_create_dir_all fs home = Inr fs1" and "link_free fs1" and "''..'' \<notin> set (sessions_path home)"
    and "fs_write_bytes fs1 (sessions_path home) raw = Inr fs2"
  shows "ss_sessions (sessions_load parse decode now home (persist_locked encode st fs)) = map (mark_stale now) ss \<and>
    list_all (\<lambda>s. se_status s \<noteq> SessRunning)
      (ss_sessions (sessions_load parse decode now home (persist_locked encode st fs)))"
proof -
  have fs: "persist_locked encode st fs = fs2" using assms(2,3,4,10,13) by (simp add: persist_locked_def Let_def)
  have "decode (migrate_session (to_json s)) = Some s" if "s \<in> set ss" for s
    using assms(8,9) that migrate_typed [of "to_json s"] by (auto simp: list_all_iff)
  then have parsed: "parse_sessions_file parse decode raw = ss"
    using assms(6,7) map_filter_decode [of ss "\<lambda>j. decode (migrate_session j)" to_json] by (simp add: parse_sessions_file_def)
  have backfill: "backfill_rounds (mark_stale now s) = mark_stale now s" if "s \<in> set ss" for s
    using assms(1) that by (auto simp: list_all_iff session_ok_def backfill_rounds_def mark_stale_def)
  have "ss_sessions (sessions_load parse decode now home fs2) = map (mark_stale now) ss"
    using read_written [OF assms(11,12,13,5)] parsed backfill by (simp add: sessions_load_def Let_def)
  then show ?thesis unfolding fs by (auto simp: list_all_iff mark_stale_def)
qed


section \<open>Concrete runs\<close>

definition demo_codec :: "SessionsFile \<Rightarrow> string option" where
  "demo_codec f = Some ''{}''"

definition demo_sess :: Session where
  "demo_sess = fst (session_create demo_codec 1 10 ''codex'' ''task'' None None None (fresh_world [''w''] demo_fs))"

definition demo_world :: session_world where
  "demo_world = snd (session_create demo_codec 1 10 ''codex'' ''task'' None None None (fresh_world [''w''] demo_fs))"

lemma demo_world_sessions: "ss_sessions (fst demo_world) = [demo_sess]" "ss_home (fst demo_world) = [''w'']"
  by (simp_all add: demo_world_def demo_sess_def session_create_def fresh_world_def Let_def)

lemma demo_digits: "nat_digits (Suc 0) = ''1''"
  by code_simp

lemma demo_sess_fields:
  "se_id demo_sess = ''s-1''" "se_status demo_sess = SessRunning" "se_round_tasks demo_sess = [''task'']"
  "se_task demo_sess = ''task''" "se_finished_at demo_sess = None" "se_summary demo_sess = None"
  by (simp_all add: demo_sess_def session_create_def fresh_world_def Let_def demo_digits)

lemma demo_world_get: "session_get (fst demo_world) ''s-1'' = Some demo_sess"
  by (simp add: session_get_def demo_world_sessions demo_sess_fields)

lemma demo_world_reach: "session_reach demo_codec demo_world"
  unfolding demo_world_def
  by (rule session_reach.step [OF session_reach.start session_step.create]) (simp add: fresh_world_def session_get_def)


theorem session_history_append_only_witness:
  "\<exists>s'. session_get (fst (session_finish demo_codec 20 ''s-1'' True ''ok'' ''out'' demo_world)) ''s-1'' = Some s' \<and>
     prefix [''task''] (se_round_tasks s') \<and> se_created_at s' = se_created_at demo_sess"
proof -
  have "(session_step demo_codec)\<^sup>*\<^sup>* demo_world (session_finish demo_codec 20 ''s-1'' True ''ok'' ''out'' demo_world)"
    by (rule r_into_rtranclp) (rule session_step.finish)
  from session_history_append_only [OF demo_world_reach this demo_world_get] show ?thesis
    using demo_sess_fields(3) by auto
qed

definition demo_obs :: WorkerObs where
  "demo_obs = \<lparr>wo_publish = True, wo_buffer = ''out'', wo_wait = Inr (Some True), wo_timeout = None, wo_now = 30\<rparr>"

definition demo_busy :: SessionStore where
  "demo_busy = register_child ''s-1'' 77 (fst demo_world)"

lemma demo_busy_facts: "has_child demo_busy ''s-1''" "session_get demo_busy ''s-1'' \<noteq> None"
  using demo_world_get by (simp_all add: demo_busy_def register_child_def has_child_def bt_contains_def map_simps session_get_def)

theorem cancellation_overwritten_by_poll_witness:
  "\<exists>r st1 fs1 d st2 fs2. session_cancel demo_codec 20 ''s-1'' (demo_busy, demo_fs) = (r, st1, fs1) \<and>
     worker_poll demo_codec ''s-1'' demo_obs (st1, fs1) = (d, st2, fs2) \<and>
     map_option se_status (session_get st1 ''s-1'') = Some SessError \<and>
     map_option se_status (session_get st2 ''s-1'') = Some SessCompleted"
proof -
  obtain r st1 fs1 where c: "session_cancel demo_codec 20 ''s-1'' (demo_busy, demo_fs) = (r, st1, fs1)" by (metis prod_cases3)
  obtain d st2 fs2 where p: "worker_poll demo_codec ''s-1'' demo_obs (st1, fs1) = (d, st2, fs2)" by (metis prod_cases3)
  have "wo_wait demo_obs = Inr (Some True)" by (simp add: demo_obs_def)
  from cancellation_overwritten_by_poll [OF demo_busy_facts c this p] c p show ?thesis by blast
qed

theorem worker_ends_with_process_witness:
  "\<exists>st' fs' s'. worker_loop demo_codec ''s-1'' ([demo_obs\<lparr>wo_wait := Inr None\<rparr>] @ demo_obs # []) (demo_busy, demo_fs) = Some (st', fs') \<and>
     session_get st' ''s-1'' = Some s' \<and> se_status s' = SessCompleted"
proof -
  have "list_all still_running [demo_obs\<lparr>wo_wait := Inr None\<rparr>]" by (simp add: still_running_def demo_obs_def)
  moreover have "wo_wait demo_obs = Inr (Some True)" by (simp add: demo_obs_def)
  ultimately show ?thesis
    using worker_ends_with_process [OF demo_busy_facts, of "[demo_obs\<lparr>wo_wait := Inr None\<rparr>]" demo_obs True demo_codec "[]" demo_fs]
    by (auto simp: terminal_status_def)
qed

theorem restart_marks_interrupted_witness:
  "\<exists>v decode. ss_sessions (sessions_load (\<lambda>_. Some v) decode 99 [''w''] (persist_locked demo_codec (fst demo_world) demo_fs)) =
     [mark_stale 99 demo_sess] \<and> se_status (mark_stale 99 demo_sess) = SessError"
proof -
  let ?j = "JObject [(''trace'', JArray [])]"
  let ?v = "JObject [(''sessions'', JArray [?j])]"
  have "list_all session_ok [demo_sess]" by (simp add: session_ok_def demo_sess_fields)
  moreover have "\<not> isl (fs_create_dir_all demo_fs [''w''])" by code_simp
  then obtain fs1 where fs1: "fs_create_dir_all demo_fs [''w''] = Inr fs1" by (cases "fs_create_dir_all demo_fs [''w'']") auto
  moreover have "link_free fs1 \<and> \<not> isl (fs_write_bytes fs1 (sessions_path [''w'']) ''{}'')"
  proof -
    have "case fs_create_dir_all demo_fs [''w''] of
        Inr fs \<Rightarrow> link_free fs \<and> \<not> isl (fs_write_bytes fs (sessions_path [''w'']) ''{}'') | Inl _ \<Rightarrow> True" by code_simp
    with fs1 show ?thesis by simp
  qed
  moreover from this obtain fs2 where "fs_write_bytes fs1 (sessions_path [''w'']) ''{}'' = Inr fs2"
    by (cases "fs_write_bytes fs1 (sessions_path [''w'']) ''{}''") auto
  moreover have "utf8_valid ''{}''" "''..'' \<notin> set (sessions_path [''w''])" by code_simp+
  ultimately have "ss_sessions (sessions_load (\<lambda>_. Some ?v) (\<lambda>_. Some demo_sess) 99 [''w''] (persist_locked demo_codec (fst demo_world) demo_fs)) =
     map (mark_stale 99) [demo_sess]"
    using restart_marks_interrupted [of "[demo_sess]" "fst demo_world" "[''w'']" demo_codec "''{}''" "\<lambda>_. Some ?v" ?v "\<lambda>_. ?j"
        "\<lambda>_. Some demo_sess" demo_fs fs1 fs2 99] demo_world_sessions
    by (simp add: demo_codec_def bt_get_def bt_sorted_def)
  then show ?thesis by (intro exI [of _ ?v] exI [of _ "\<lambda>_. Some demo_sess"]) (simp add: mark_stale_def demo_sess_fields)
qed

end
