(* ===== verification/Session_Host.thy ===== *)
theory Session_Host
  imports Sessions
begin

text \<open>
  The driver of a real agent session (\<open>agent-codex/src/session_host.rs\<close>): handshake, attachment to a
  new or an existing thread, queueing the task, and the event loop, together with the classification
  of notifications into typed trace events. The host process is the record \<open>HostEnv\<close>: whether spawning
  and each write succeed, the messages that arrive while the driver waits for the reply of a given
  number (until the deadline of that wait), and what each pass of the event loop observes. A driver
  whose observations end before it does has the result \<^const>\<open>None\<close>.
\<close>

section \<open>Data\<close>

record SessionOutcome =
  so_ok :: bool
  so_thread_id :: "string option"
  so_events :: "TraceEvent list"
  so_error :: "string option"

record SessionTask =
  st_workspace :: string
  st_task :: string

datatype ThreadMode = NewThread | ResumeThread string

datatype Completion = CompleteVerify | CompleteTurn

definition TURN_QUIET_WINDOW :: nat where "TURN_QUIET_WINDOW = 2000"

text \<open>One pass of the event loop: the clock in milliseconds, the cancellation flag, the verification
  predicate of the caller, the state of the process (an error, running, or exited with a status) and
  the next notification, if any.\<close>

record HostTick =
  tk_now :: nat
  tk_cancel :: bool
  tk_verified :: bool
  tk_wait :: "string + string option"
  tk_message :: "json option"

record HostEnv =
  he_spawn :: "string option"
  he_send :: "json \<Rightarrow> string option"
  he_inbox :: "nat \<Rightarrow> json list"
  he_nonce :: nat
  he_start :: nat
  he_ticks :: "HostTick list"

section \<open>Reading messages\<close>

definition as_u64 :: "json \<Rightarrow> int option" where
  "as_u64 v = (case v of JNumber n \<Rightarrow> (if 0 \<le> n \<and> n < 2 ^ 64 then Some n else None) | _ \<Rightarrow> None)"

fun next_reply :: "nat \<Rightarrow> json list \<Rightarrow> string + json" where
  "next_reply i [] = Inl (''protocol timeout waiting for reply id='' @ nat_digits i)"
| "next_reply i (m # ms) =
     (if Option.bind (json_get m ''id'') as_u64 = Some (int i) then Inr m else next_reply i ms)"

definition message_method :: "json \<Rightarrow> string" where
  "message_method v = (case get_str v ''method'' of Some m \<Rightarrow> m | None \<Rightarrow> [])"

fun find_thread_id :: "json \<Rightarrow> string option" and find_thread_id_fields :: "(string \<times> json) list \<Rightarrow> string option"
  and find_thread_id_items :: "json list \<Rightarrow> string option" where
  "find_thread_id (JObject m) = find_thread_id_fields m"
| "find_thread_id (JArray xs) = find_thread_id_items xs"
| "find_thread_id _ = None"
| "find_thread_id_fields [] = None"
| "find_thread_id_fields ((k, v) # ps) =
     (if (k = ''threadId'' \<or> k = ''thread_id'' \<or> k = ''id'') \<and> as_str v \<noteq> None then as_str v
      else case find_thread_id v of Some i \<Rightarrow> Some i | None \<Rightarrow> find_thread_id_fields ps)"
| "find_thread_id_items [] = None"
| "find_thread_id_items (x # xs) = (case find_thread_id x of Some i \<Rightarrow> Some i | None \<Rightarrow> find_thread_id_items xs)"

definition first_str :: "(string \<times> json) list \<Rightarrow> string list \<Rightarrow> string option" where
  "first_str m ks =
     (case List.map_filter (\<lambda>k. Option.bind (bt_get m k) as_str) ks of v # _ \<Rightarrow> Some v | [] \<Rightarrow> None)"

fun find_call_id :: "json \<Rightarrow> string option" and find_call_id_fields :: "(string \<times> json) list \<Rightarrow> string option"
  and find_call_id_items :: "json list \<Rightarrow> string option" where
  "find_call_id (JObject m) =
     (case first_str m [''call_id'', ''callId'', ''id''] of Some i \<Rightarrow> Some i | None \<Rightarrow> find_call_id_fields m)"
| "find_call_id (JArray xs) = find_call_id_items xs"
| "find_call_id _ = None"
| "find_call_id_fields [] = None"
| "find_call_id_fields ((k, v) # ps) = (case find_call_id v of Some i \<Rightarrow> Some i | None \<Rightarrow> find_call_id_fields ps)"
| "find_call_id_items [] = None"
| "find_call_id_items (x # xs) = (case find_call_id x of Some i \<Rightarrow> Some i | None \<Rightarrow> find_call_id_items xs)"

definition item_kind :: "(string \<times> json) list \<Rightarrow> string" where
  "item_kind m = (case Option.bind (bt_get m ''type'') as_str of Some k \<Rightarrow> k | None \<Rightarrow> [])"

definition is_tool_item :: "(string \<times> json) list \<Rightarrow> bool" where
  "is_tool_item m \<longleftrightarrow>
     (let kind = item_kind m
      in (contains_str kind ''function'' \<or> contains_str kind ''tool'' \<or> contains_str kind ''command'' \<or>
          contains_str kind ''shell'' \<or> bt_contains m ''call_id'' \<or> bt_contains m ''callId'') \<and> kind \<noteq> [])"

fun extract_tool_name :: "json \<Rightarrow> string option" and extract_tool_name_fields :: "(string \<times> json) list \<Rightarrow> string option"
  and extract_tool_name_items :: "json list \<Rightarrow> string option" where
  "extract_tool_name (JObject m) =
     (if is_tool_item m
      then Some (case Option.bind (bt_get m ''name'') as_str of Some n \<Rightarrow> n | None \<Rightarrow> item_kind m)
      else extract_tool_name_fields m)"
| "extract_tool_name (JArray xs) = extract_tool_name_items xs"
| "extract_tool_name _ = None"
| "extract_tool_name_fields [] = None"
| "extract_tool_name_fields ((k, v) # ps) =
     (case extract_tool_name v of Some n \<Rightarrow> Some n | None \<Rightarrow> extract_tool_name_fields ps)"
| "extract_tool_name_items [] = None"
| "extract_tool_name_items (x # xs) =
     (case extract_tool_name x of Some n \<Rightarrow> Some n | None \<Rightarrow> extract_tool_name_items xs)"

definition ARGUMENT_KEYS :: "string list" where
  "ARGUMENT_KEYS = [''arguments'', ''args'', ''input'', ''cmd'', ''command'']"

fun find_arguments :: "json \<Rightarrow> json option" and find_arguments_fields :: "(string \<times> json) list \<Rightarrow> json option"
  and find_arguments_items :: "json list \<Rightarrow> json option" where
  "find_arguments (JObject m) =
     (case List.map_filter (bt_get m) ARGUMENT_KEYS of v # _ \<Rightarrow> Some v | [] \<Rightarrow> find_arguments_fields m)"
| "find_arguments (JArray xs) = find_arguments_items xs"
| "find_arguments _ = None"
| "find_arguments_fields [] = None"
| "find_arguments_fields ((k, v) # ps) = (case find_arguments v of Some a \<Rightarrow> Some a | None \<Rightarrow> find_arguments_fields ps)"
| "find_arguments_items [] = None"
| "find_arguments_items (x # xs) = (case find_arguments x of Some a \<Rightarrow> Some a | None \<Rightarrow> find_arguments_items xs)"

definition MAX_ARGS_SUMMARY_CHARS :: nat where "MAX_ARGS_SUMMARY_CHARS = 240"

definition ELLIPSIS :: string where "ELLIPSIS = [CHR 0xE2, CHR 0x80, CHR 0xA6]"

definition cap_summary :: "string \<Rightarrow> string" where
  "cap_summary text =
     (let cs = chars_of text
      in if length cs > MAX_ARGS_SUMMARY_CHARS then concat (take MAX_ARGS_SUMMARY_CHARS cs) @ ELLIPSIS else text)"

definition extract_args_summary :: "json \<Rightarrow> string option" where
  "extract_args_summary v =
     map_option (\<lambda>found. cap_summary (innate_redact (case as_str found of Some s \<Rightarrow> s | None \<Rightarrow> json_text found)))
       (find_arguments v)"

definition classify_event :: "string \<Rightarrow> json \<Rightarrow> TraceEvent option" where
  "classify_event m payload =
     (if m = ''turn/completed'' then Some TurnCompleted
      else if m = ''item/reasoning/textDelta'' then Some Reasoning
      else if m = ''item/started'' \<or> m = ''item/completed'' then
        (case extract_tool_name payload of
           None \<Rightarrow> None
         | Some name \<Rightarrow>
             (if m = ''item/completed'' then Some (ToolResult name (find_call_id payload))
              else Some (ToolCall name (find_call_id payload) (extract_args_summary payload))))
      else None)"

definition push_event :: "TraceEvent \<Rightarrow> TraceEvent list \<Rightarrow> TraceEvent list" where
  "push_event e trace =
     (if is_noisy_repeat e \<and> trace \<noteq> [] \<and> last trace = e then trace else trace @ [e])"

section \<open>The driver\<close>

text \<open>What a run gives: its result, the events handed to the live stream, and whether the host was stopped.\<close>

record DriverRun =
  dr_result :: "string + SessionOutcome"
  dr_streamed :: "TraceEvent list"
  dr_stopped :: bool

definition driver_error :: "bool \<Rightarrow> string \<Rightarrow> DriverRun" where
  "driver_error stopped message = \<lparr>dr_result = Inl message, dr_streamed = [], dr_stopped = stopped\<rparr>"

definition driver_outcome :: "bool \<Rightarrow> string \<Rightarrow> TraceEvent list \<Rightarrow> TraceEvent list \<Rightarrow> string option \<Rightarrow> DriverRun" where
  "driver_outcome ok thread streamed events err =
     \<lparr>dr_result = Inr \<lparr>so_ok = ok, so_thread_id = Some thread, so_events = events, so_error = err\<rparr>,
      dr_streamed = streamed, dr_stopped = True\<rparr>"

definition outcome_success :: "string \<Rightarrow> TraceEvent list \<Rightarrow> DriverRun" where
  "outcome_success thread events = driver_outcome True thread events events None"

definition outcome_cancelled :: "string \<Rightarrow> TraceEvent list \<Rightarrow> DriverRun" where
  "outcome_cancelled thread events =
     driver_outcome False thread events (events @ [EventFailed ''cancelled'' ''cancelled by operator'']) (Some ''cancelled by operator'')"

definition outcome_early_exit :: "string \<Rightarrow> TraceEvent list \<Rightarrow> string \<Rightarrow> DriverRun" where
  "outcome_early_exit thread events status =
     driver_outcome False thread events (events @ [EventFailed ''host'' (''host exited early with '' @ status)])
       (Some (''host exited early with '' @ status))"

definition fail_after_thread_start :: "string \<Rightarrow> TraceEvent list \<Rightarrow> TraceEvent list \<Rightarrow> string \<Rightarrow> DriverRun" where
  "fail_after_thread_start thread streamed events message = driver_outcome False thread streamed events (Some message)"

definition driver_fail :: "ThreadMode \<Rightarrow> string \<Rightarrow> TraceEvent list \<Rightarrow> string \<Rightarrow> string \<Rightarrow> DriverRun" where
  "driver_fail mode thread events phase message =
     (case mode of
        NewThread \<Rightarrow> fail_after_thread_start thread events (events @ [EventFailed phase message]) message
      | ResumeThread _ \<Rightarrow> \<lparr>dr_result = Inl message, dr_streamed = events, dr_stopped = True\<rparr>)"

definition initialize_message :: json where
  "initialize_message =
     json_object [(''method'', JString ''initialize''), (''id'', JNumber 1),
       (''params'', json_object
          [(''clientInfo'', json_object [(''name'', JString ''experience-session-host''), (''version'', JString ''0.1.0'')]),
           (''capabilities'', json_object [(''experimentalApi'', JBool True)])])]"

definition request_message :: "string \<Rightarrow> int \<Rightarrow> (string \<times> json) list \<Rightarrow> json" where
  "request_message m i params = json_object [(''method'', JString m), (''id'', JNumber i), (''params'', json_object params)]"

definition handshake :: "HostEnv \<Rightarrow> json \<Rightarrow> nat \<Rightarrow> string + json" where
  "handshake env message i =
     (case he_send env message of
        Some err \<Rightarrow> Inl err
      | None \<Rightarrow> next_reply i (he_inbox env i))"

definition initialize_host :: "HostEnv \<Rightarrow> string + unit" where
  "initialize_host env =
     (case handshake env initialize_message 1 of
        Inl err \<Rightarrow> Inl err
      | Inr reply \<Rightarrow>
          (case json_get reply ''error'' of
             Some err \<Rightarrow> Inl (''initialize error: '' @ json_text err)
           | None \<Rightarrow>
               (case he_send env (json_object [(''method'', JString ''initialized'')]) of
                  Some err \<Rightarrow> Inl err
                | None \<Rightarrow> Inr ())))"

definition attach_thread :: "HostEnv \<Rightarrow> SessionTask \<Rightarrow> ThreadMode \<Rightarrow> string + string" where
  "attach_thread env t mode =
     (case mode of
        NewThread \<Rightarrow>
          (case handshake env (request_message ''thread/start'' 2
              [(''cwd'', JString (st_workspace t)), (''threadSource'', JString ''experience-session-host'')]) 2 of
             Inl err \<Rightarrow> Inl err
           | Inr reply \<Rightarrow>
               (case json_get reply ''error'' of
                  Some err \<Rightarrow> Inl (''thread/start error: '' @ json_text err)
                | None \<Rightarrow>
                    (case Option.bind (json_get reply ''result'') find_thread_id of
                       Some i \<Rightarrow> Inr i
                     | None \<Rightarrow> Inl ''threadId missing in thread/start reply'')))
      | ResumeThread thread \<Rightarrow>
          (case handshake env (request_message ''thread/resume'' 2 [(''threadId'', JString thread)]) 2 of
             Inl err \<Rightarrow> Inl err
           | Inr reply \<Rightarrow>
               (case json_get reply ''error'' of
                  Some err \<Rightarrow> Inl (''thread/resume error: '' @ json_text err)
                | None \<Rightarrow> Inr thread)))"

definition queue_add_message :: "HostEnv \<Rightarrow> SessionTask \<Rightarrow> string \<Rightarrow> json" where
  "queue_add_message env t thread =
     request_message ''thread/queue/add'' 3
       [(''threadId'', JString thread), (''clientUserMessageId'', JString (''exp-'' @ thread @ ''-'' @ nat_digits (he_nonce env))),
        (''input'', JArray [json_object [(''type'', JString ''text''), (''text'', JString (st_task t))]])]"

text \<open>Queue the task and start the turn. The host may start the turn on its own; the two replies that say so
  are not failures.\<close>

definition queue_task :: "HostEnv \<Rightarrow> SessionTask \<Rightarrow> ThreadMode \<Rightarrow> string \<Rightarrow> DriverRun + TraceEvent list" where
  "queue_task env t mode thread =
     (case handshake env (queue_add_message env t thread) 3 of
        Inl err \<Rightarrow> Inl (driver_fail mode thread [] ''queue/add'' err)
      | Inr reply \<Rightarrow>
          (case json_get reply ''error'' of
             Some err \<Rightarrow> Inl (driver_fail mode thread [] ''queue/add'' (''queue/add error: '' @ json_text err))
           | None \<Rightarrow>
               (let events = push_event Submitted []
                in case handshake env (request_message ''thread/queue/start'' 4 [(''threadId'', JString thread)]) 4 of
                     Inl err \<Rightarrow> Inl (driver_fail mode thread events ''queue/start'' err)
                   | Inr started \<Rightarrow>
                       (case json_get started ''error'' of
                          None \<Rightarrow> Inr (push_event AgentStarted (push_event Accepted events))
                        | Some err \<Rightarrow>
                            (if contains_str (json_text err) ''queue is empty'' \<or> contains_str (json_text err) ''active or pending turn''
                             then Inr (push_event AgentStarted (push_event Accepted (push_event AlreadyStarted events)))
                             else Inl (driver_fail mode thread events ''queue/start'' (''queue/start error: '' @ json_text err)))))))"

definition loop_done :: "Completion \<Rightarrow> bool \<Rightarrow> nat \<Rightarrow> HostTick \<Rightarrow> bool" where
  "loop_done completion saw quiet tick \<longleftrightarrow>
     (case completion of
        CompleteVerify \<Rightarrow> tk_verified tick
      | CompleteTurn \<Rightarrow> saw \<and> tk_now tick - quiet \<ge> TURN_QUIET_WINDOW)"

definition tick_event :: "HostTick \<Rightarrow> TraceEvent option" where
  "tick_event tick = Option.bind (tk_message tick) (\<lambda>v. classify_event (message_method v) v)"

fun event_loop :: "ThreadMode \<Rightarrow> Completion \<Rightarrow> string \<Rightarrow> bool \<Rightarrow> nat \<Rightarrow> TraceEvent list \<Rightarrow> HostTick list \<Rightarrow> DriverRun option" where
  "event_loop mode completion thread saw quiet events [] = None"
| "event_loop mode completion thread saw quiet events (tick # ticks) =
     (if tk_cancel tick then Some (outcome_cancelled thread events)
      else if loop_done completion saw quiet tick then Some (outcome_success thread events)
      else case tk_wait tick of
        Inl err \<Rightarrow> Some (driver_fail mode thread events ''host'' err)
      | Inr (Some status) \<Rightarrow> Some (outcome_early_exit thread events status)
      | Inr None \<Rightarrow>
          (case tick_event tick of
             None \<Rightarrow> event_loop mode completion thread saw quiet events ticks
           | Some e \<Rightarrow>
               event_loop mode completion thread (saw \<or> e = TurnCompleted)
                 (if e = TurnCompleted then tk_now tick else quiet) (push_event e events) ticks))"

definition run_session_driver :: "HostEnv \<Rightarrow> SessionTask \<Rightarrow> ThreadMode \<Rightarrow> Completion \<Rightarrow> DriverRun option" where
  "run_session_driver env t mode completion =
     (case he_spawn env of
        Some err \<Rightarrow> Some (driver_error False err)
      | None \<Rightarrow>
          (case initialize_host env of
             Inl err \<Rightarrow> Some (driver_error True err)
           | Inr _ \<Rightarrow>
               (case attach_thread env t mode of
                  Inl err \<Rightarrow> Some (driver_error True err)
                | Inr thread \<Rightarrow>
                    (case queue_task env t mode thread of
                       Inl run \<Rightarrow> Some run
                     | Inr events \<Rightarrow> event_loop mode completion thread False (he_start env) events (he_ticks env)))))"

definition run_session_task :: "HostEnv \<Rightarrow> SessionTask \<Rightarrow> DriverRun option" where
  "run_session_task env t = run_session_driver env t NewThread CompleteVerify"

definition run_session_task_until_turn :: "HostEnv \<Rightarrow> SessionTask \<Rightarrow> DriverRun option" where
  "run_session_task_until_turn env t = run_session_driver env t NewThread CompleteTurn"

definition resume_thread :: "HostEnv \<Rightarrow> string \<Rightarrow> SessionTask \<Rightarrow> DriverRun option" where
  "resume_thread env thread t = run_session_driver env t (ResumeThread thread) CompleteTurn"

section \<open>A session run by the server\<close>

text \<open>The closure of the server appends each streamed event to the trace of the session.\<close>

definition stream_event :: "string \<Rightarrow> TraceEvent \<Rightarrow> SessionStore \<Rightarrow> SessionStore" where
  "stream_event i e st =
     update_trace i ((case session_get st i of Some s \<Rightarrow> se_trace s | None \<Rightarrow> []) @ [e]) st"

definition channel_finish :: "(SessionsFile \<Rightarrow> string option) \<Rightarrow> nat \<Rightarrow> string \<Rightarrow> string \<Rightarrow> string option \<Rightarrow> DriverRun
    \<Rightarrow> session_world \<Rightarrow> session_world" where
  "channel_finish encode now i done_text known run = (\<lambda>(st, fs).
     let w = (fold (stream_event i) (dr_streamed run) st, fs)
     in case dr_result run of
          Inr oc \<Rightarrow>
            finish_session_channel encode now i (so_ok oc) (case so_error oc of Some e \<Rightarrow> e | None \<Rightarrow> done_text) (so_thread_id oc) w
        | Inl err \<Rightarrow> finish_session_channel encode now i False err known w)"

definition channel_run :: "(SessionsFile \<Rightarrow> string option) \<Rightarrow> nat \<Rightarrow> string \<Rightarrow> HostEnv \<Rightarrow> SessionTask \<Rightarrow> session_world \<Rightarrow> session_world option" where
  "channel_run encode now i env t w =
     map_option (\<lambda>run. channel_finish encode now i ''session completed'' None run w) (run_session_task_until_turn env t)"

definition channel_resume :: "(SessionsFile \<Rightarrow> string option) \<Rightarrow> nat \<Rightarrow> string \<Rightarrow> HostEnv \<Rightarrow> string \<Rightarrow> SessionTask \<Rightarrow> session_world \<Rightarrow> session_world option" where
  "channel_resume encode now i env thread t w =
     map_option (\<lambda>run. channel_finish encode now i ''resume completed'' (Some thread) run w) (resume_thread env thread t)"


section \<open>Shape of a trace\<close>

text \<open>No two reasoning markers in a row, and no failure marker.\<close>

fun folded :: "TraceEvent list \<Rightarrow> bool" where
  "folded (a # b # es) \<longleftrightarrow> \<not> (a = Reasoning \<and> b = Reasoning) \<and> folded (b # es)"
| "folded _ \<longleftrightarrow> True"

fun is_failed :: "TraceEvent \<Rightarrow> bool" where
  "is_failed (EventFailed _ _) = True"
| "is_failed _ = False"

definition live_trace :: "TraceEvent list \<Rightarrow> bool" where
  "live_trace es \<longleftrightarrow> folded es \<and> list_all (\<lambda>e. \<not> is_failed e) es"

lemma folded_snoc: "folded (es @ [e]) \<longleftrightarrow> folded es \<and> (es = [] \<or> \<not> (last es = Reasoning \<and> e = Reasoning))"
proof (induction es rule: folded.induct)
  case (1 a b es)
  then show ?case by auto
qed auto

lemma is_noisy_iff: "is_noisy_repeat e \<longleftrightarrow> e = Reasoning"
  by (cases e) simp_all

lemma live_push: "live_trace es \<Longrightarrow> \<not> is_failed e \<Longrightarrow> live_trace (push_event e es)"
  by (auto simp: live_trace_def push_event_def folded_snoc is_noisy_iff)

lemma prefix_push: "prefix es (push_event e es)"
  by (simp add: push_event_def)

lemma classify_not_failed: "classify_event m v = Some e \<Longrightarrow> \<not> is_failed e"
  by (auto simp: classify_event_def split: if_splits option.splits)

lemma tick_event_not_failed: "tick_event tick = Some e \<Longrightarrow> \<not> is_failed e"
  by (auto simp: tick_event_def bind_eq_Some_conv classify_not_failed)

definition outcome_ok :: "ThreadMode \<Rightarrow> string \<Rightarrow> DriverRun \<Rightarrow> bool" where
  "outcome_ok mode thread run \<longleftrightarrow> dr_stopped run \<and> live_trace (dr_streamed run) \<and>
     (case dr_result run of
        Inl _ \<Rightarrow> mode \<noteq> NewThread
      | Inr oc \<Rightarrow> so_thread_id oc = Some thread \<and> (so_ok oc \<longleftrightarrow> so_error oc = None) \<and>
          (\<exists>es. so_events oc = dr_streamed run @ es \<and> (so_ok oc \<longleftrightarrow> es = []) \<and> list_all is_failed es))"

lemmas outcome_defs = outcome_success_def outcome_cancelled_def outcome_early_exit_def fail_after_thread_start_def
  driver_outcome_def driver_fail_def

lemma outcome_ok_final:
  assumes "live_trace events"
  shows "outcome_ok mode thread (outcome_success thread events)"
    and "outcome_ok mode thread (outcome_cancelled thread events)"
    and "outcome_ok mode thread (outcome_early_exit thread events status)"
    and "outcome_ok mode thread (driver_fail mode thread events phase message)"
  using assms by (auto simp: outcome_ok_def outcome_defs split: ThreadMode.split)

lemma event_loop_ok:
  "event_loop mode completion thread saw quiet events ticks = Some run \<Longrightarrow> live_trace events \<Longrightarrow> outcome_ok mode thread run"
proof (induction mode completion thread saw quiet events ticks rule: event_loop.induct)
  case (2 mode completion thread saw quiet events tick ticks)
  then show ?case
    by (auto simp: outcome_ok_final live_push tick_event_not_failed split: if_splits sum.splits option.splits)
qed simp

lemma queue_task_ok:
  "queue_task env t mode thread = Inl run \<Longrightarrow> outcome_ok mode thread run"
  "queue_task env t mode thread = Inr events \<Longrightarrow> live_trace events \<and> events \<noteq> [] \<and> hd events = Submitted"
proof -
  have live: "live_trace []" "live_trace (push_event Submitted [])"
    by (simp_all add: live_trace_def push_event_def)
  show "queue_task env t mode thread = Inl run \<Longrightarrow> outcome_ok mode thread run"
    using live by (auto simp: queue_task_def Let_def outcome_ok_final split: sum.splits option.splits if_splits)
  show "queue_task env t mode thread = Inr events \<Longrightarrow> live_trace events \<and> events \<noteq> [] \<and> hd events = Submitted"
    by (auto simp: queue_task_def Let_def push_event_def live_trace_def split: sum.splits option.splits if_splits)
qed

lemma driver_shape:
  assumes "run_session_driver env t mode completion = Some run"
  shows "(dr_stopped run \<longleftrightarrow> he_spawn env = None) \<and> live_trace (dr_streamed run) \<and>
    (case dr_result run of
       Inl err \<Rightarrow> mode \<noteq> NewThread \<or> he_spawn env \<noteq> None \<or> isl (initialize_host env) \<or> isl (attach_thread env t mode)
     | Inr oc \<Rightarrow> attach_thread env t mode = Inr (the (so_thread_id oc)) \<and> so_thread_id oc \<noteq> None \<and>
         (so_ok oc \<longleftrightarrow> so_error oc = None) \<and>
         (\<exists>es. so_events oc = dr_streamed run @ es \<and> (so_ok oc \<longleftrightarrow> es = []) \<and> list_all is_failed es))"
proof (cases "he_spawn env")
  case (Some err)
  with assms show ?thesis by (auto simp: run_session_driver_def driver_error_def live_trace_def)
next
  case None
  note spawned = this
  show ?thesis
  proof (cases "initialize_host env")
    case (Inl err)
    with assms spawned show ?thesis by (auto simp: run_session_driver_def driver_error_def live_trace_def)
  next
    case (Inr u)
    note init = this
    show ?thesis
    proof (cases "attach_thread env t mode")
      case (Inl err)
      with assms spawned init show ?thesis by (auto simp: run_session_driver_def driver_error_def live_trace_def)
    next
      case (Inr thread)
      have "outcome_ok mode thread run"
      proof (cases "queue_task env t mode thread")
        case (Inl run')
        with assms spawned init Inr queue_task_ok(1) show ?thesis by (simp add: run_session_driver_def)
      next
        case (Inr events)
        with assms spawned init \<open>attach_thread env t mode = Inr thread\<close>
        have "event_loop mode completion thread False (he_start env) events (he_ticks env) = Some run"
          by (simp add: run_session_driver_def)
        then show ?thesis using event_loop_ok queue_task_ok(2) [OF Inr] by blast
      qed
      with spawned Inr show ?thesis by (auto simp: outcome_ok_def split: sum.splits)
    qed
  qed
qed

text \<open>A session run always cleans up and never loses its thread. Every run that ends has stopped the host process
  it spawned; once a thread exists, a run on a new thread ends with an outcome that carries the
  thread identifier, whatever fails; an outcome is successful exactly when it has no error; and the
  events of the outcome are the streamed events, without repeated reasoning markers, followed by a
  failure marker exactly when the run failed.\<close>

theorem driver_cleans_up:
  assumes "run_session_driver env t mode completion = Some run"
  shows "(dr_stopped run \<longleftrightarrow> he_spawn env = None) \<and> live_trace (dr_streamed run) \<and>
    (case dr_result run of
       Inl err \<Rightarrow> mode \<noteq> NewThread \<or> he_spawn env \<noteq> None \<or> isl (initialize_host env) \<or> isl (attach_thread env t mode)
     | Inr oc \<Rightarrow> attach_thread env t mode = Inr (the (so_thread_id oc)) \<and> so_thread_id oc \<noteq> None \<and>
         (so_ok oc \<longleftrightarrow> so_error oc = None) \<and>
         (\<exists>es. so_events oc = dr_streamed run @ es \<and> (so_ok oc \<longleftrightarrow> es = []) \<and> list_all is_failed es))"
  using driver_shape [OF assms] .

section \<open>When a run succeeds\<close>

definition undisturbed :: "HostTick \<Rightarrow> bool" where
  "undisturbed tick \<longleftrightarrow> \<not> tk_cancel tick \<and> tk_wait tick = Inr None"

lemma event_loop_success:
  assumes "event_loop mode completion thread saw quiet events ticks = Some run"
    and "dr_result run = Inr oc" and "so_ok oc"
  shows "\<exists>pre tick post. ticks = pre @ tick # post \<and> list_all undisturbed pre \<and> \<not> tk_cancel tick \<and>
    (case completion of
       CompleteVerify \<Rightarrow> tk_verified tick
     | CompleteTurn \<Rightarrow> saw \<and> TURN_QUIET_WINDOW \<le> tk_now tick - quiet \<or>
         (\<exists>k \<in> set pre. tick_event k = Some TurnCompleted \<and> TURN_QUIET_WINDOW \<le> tk_now tick - tk_now k))"
  using assms
proof (induction ticks arbitrary: saw quiet events)
  case (Cons tick ticks)
  show ?case
  proof (cases "tk_cancel tick \<or> loop_done completion saw quiet tick \<or> tk_wait tick \<noteq> Inr None")
    case True
    with Cons.prems have "\<not> tk_cancel tick \<and> loop_done completion saw quiet tick"
      by (auto simp: outcome_defs split: if_splits sum.splits option.splits ThreadMode.splits)
    then show ?thesis
      by (intro exI [of _ "[]"] exI [of _ tick] exI [of _ ticks]) (auto simp: loop_done_def split: Completion.split_asm Completion.split)
  next
    case False
    then have u: "undisturbed tick" by (auto simp: undisturbed_def)
    show ?thesis
    proof (cases "tick_event tick")
      case None
      with Cons.prems(1) False have "event_loop mode completion thread saw quiet events ticks = Some run" by simp
      from Cons.IH [OF this Cons.prems(2,3)] obtain pre k post where
        "ticks = pre @ k # post" "list_all undisturbed pre" "\<not> tk_cancel k"
        "case completion of CompleteVerify \<Rightarrow> tk_verified k
         | CompleteTurn \<Rightarrow> saw \<and> TURN_QUIET_WINDOW \<le> tk_now k - quiet \<or>
             (\<exists>j \<in> set pre. tick_event j = Some TurnCompleted \<and> TURN_QUIET_WINDOW \<le> tk_now k - tk_now j)" by blast
      with u show ?thesis
        by (intro exI [of _ "tick # pre"] exI [of _ k] exI [of _ post]) (auto split: Completion.splits)
    next
      case (Some e)
      with Cons.prems(1) False have "event_loop mode completion thread (saw \<or> e = TurnCompleted)
        (if e = TurnCompleted then tk_now tick else quiet) (push_event e events) ticks = Some run" by simp
      from Cons.IH [OF this Cons.prems(2,3)] obtain pre k post where
        "ticks = pre @ k # post" "list_all undisturbed pre" "\<not> tk_cancel k"
        "case completion of CompleteVerify \<Rightarrow> tk_verified k
         | CompleteTurn \<Rightarrow> (saw \<or> e = TurnCompleted) \<and> TURN_QUIET_WINDOW \<le> tk_now k - (if e = TurnCompleted then tk_now tick else quiet) \<or>
             (\<exists>j \<in> set pre. tick_event j = Some TurnCompleted \<and> TURN_QUIET_WINDOW \<le> tk_now k - tk_now j)" by blast
      with u Some show ?thesis
        by (intro exI [of _ "tick # pre"] exI [of _ k] exI [of _ post]) (auto split: Completion.splits if_splits)
    qed
  qed
qed simp

lemma event_loop_outcome:
  assumes "event_loop mode completion thread saw quiet events ticks = Some run" and "dr_result run = Inr oc"
  shows "so_ok oc \<longrightarrow> so_error oc = None \<and> so_events oc = dr_streamed run"
  using assms
proof (induction ticks arbitrary: saw quiet events)
  case (Cons tick ticks)
  then show ?case
    by (auto simp: outcome_defs split: if_splits sum.splits option.splits ThreadMode.splits)
qed simp

lemma driver_reaches_loop:
  assumes "run_session_driver env t mode completion = Some run" and "dr_result run = Inr oc" and "so_ok oc"
  obtains thread events where "he_spawn env = None" "initialize_host env = Inr ()" "attach_thread env t mode = Inr thread"
    "queue_task env t mode thread = Inr events"
    "event_loop mode completion thread False (he_start env) events (he_ticks env) = Some run"
proof -
  have bad: False if "queue_task env t mode thread = Inl run" for thread
    using that assms(2,3) queue_task_ok(1) [OF that]
    by (auto simp: queue_task_def Let_def outcome_defs split: sum.splits option.splits if_splits ThreadMode.splits)
  from assms that bad show thesis
    by (auto simp: run_session_driver_def driver_error_def split: option.splits sum.splits)
qed



lemma event_loop_ends:
  "\<exists>tick \<in> set ticks. \<not> undisturbed tick \<Longrightarrow> \<exists>run. event_loop mode completion thread saw quiet events ticks = Some run"
proof (induction ticks arbitrary: saw quiet events)
  case (Cons tick ticks)
  show ?case
  proof (cases "undisturbed tick")
    case True
    with Cons.prems have "\<exists>k \<in> set ticks. \<not> undisturbed k" by auto
    with Cons.IH True show ?thesis by (auto simp: undisturbed_def split: option.split)
  next
    case False
    then show ?thesis by (auto simp: undisturbed_def split: sum.split option.split)
  qed
qed simp

lemma event_loop_cancelled:
  "event_loop mode completion thread saw quiet events (pre @ tick # post) = Some run \<Longrightarrow> tk_cancel tick \<Longrightarrow>
   event_loop mode completion thread saw quiet events (pre @ [tick]) = Some run"
proof (induction pre arbitrary: saw quiet events)
  case (Cons k pre)
  then show ?case by (auto split: if_splits sum.splits option.splits)
qed simp

text \<open>C28: a session run ends when it is cancelled or its host dies. Although a task has no time limit, a run
  returns as soon as one pass of its loop sees the cancellation flag, an exited host or an error of
  waiting for it; and whatever the host would send after the flag was seen makes no difference.\<close>

theorem driver_terminates:
  assumes "he_ticks env = pre @ tick # post" and "\<not> undisturbed tick"
  shows "(\<exists>run. run_session_driver env t mode completion = Some run) \<and>
    (tk_cancel tick \<longrightarrow>
      run_session_driver (env\<lparr>he_ticks := pre @ [tick]\<rparr>) t mode completion = run_session_driver env t mode completion)"
proof -
  have ends: "\<exists>run. event_loop mode completion thread False (he_start env) events (he_ticks env) = Some run" for thread events
    using assms by (intro event_loop_ends) auto
  have same: "event_loop mode completion thread False (he_start env) events (pre @ [tick]) =
      event_loop mode completion thread False (he_start env) events (he_ticks env)" if "tk_cancel tick" for thread events
    using ends [of thread events] event_loop_cancelled [OF _ that] assms(1) by metis
  have fields: "he_send (env\<lparr>he_ticks := ts\<rparr>) = he_send env" "he_inbox (env\<lparr>he_ticks := ts\<rparr>) = he_inbox env"
    "he_nonce (env\<lparr>he_ticks := ts\<rparr>) = he_nonce env" "he_spawn (env\<lparr>he_ticks := ts\<rparr>) = he_spawn env"
    "he_start (env\<lparr>he_ticks := ts\<rparr>) = he_start env" "he_ticks (env\<lparr>he_ticks := ts\<rparr>) = ts" for ts
    by simp_all
  have frame: "initialize_host (env\<lparr>he_ticks := ts\<rparr>) = initialize_host env"
    "attach_thread (env\<lparr>he_ticks := ts\<rparr>) t mode = attach_thread env t mode"
    "queue_task (env\<lparr>he_ticks := ts\<rparr>) t mode thread = queue_task env t mode thread" for ts thread
    unfolding initialize_host_def attach_thread_def queue_task_def handshake_def queue_add_message_def fields
    by (rule refl)+
  have "\<exists>run. run_session_driver env t mode completion = Some run"
    using ends by (auto simp: run_session_driver_def split: option.split sum.split)
  moreover have "run_session_driver (env\<lparr>he_ticks := pre @ [tick]\<rparr>) t mode completion = run_session_driver env t mode completion"
    if "tk_cancel tick"
    unfolding run_session_driver_def frame fields same [OF that] by (rule refl)
  ultimately show ?thesis by blast
qed

section \<open>The record a run leaves behind\<close>

lemma stream_event_sessions:
  assumes "ids_distinct st" and "session_get st i = Some s" and "se_status s = SessRunning"
  shows "ids_distinct (stream_event i e st)" and "session_get (stream_event i e st) i = Some (s\<lparr>se_trace := se_trace s @ [e]\<rparr>)"
proof -
  let ?f = "\<lambda>s'. s'\<lparr>se_trace := se_trace s @ [e]\<rparr>"
  have m: "ss_sessions (stream_event i e st) = map (rec_change i (while_running ?f)) (ss_sessions st)"
    using assms by (simp add: stream_event_def update_trace_def update_running_sessions)
  then show "ids_distinct (stream_event i e st)" using assms(1) by (simp add: ids_distinct_def comp_def rec_change_id)
  have "se_id s = i" using assms(2) by (auto simp: session_get_def find_Some_iff)
  with get_map [OF assms(2) _ m] assms(3) show "session_get (stream_event i e st) i = Some (s\<lparr>se_trace := se_trace s @ [e]\<rparr>)"
    by (simp add: rec_change_def while_running_def)
qed

lemma stream_all:
  "ids_distinct st \<Longrightarrow> session_get st i = Some s \<Longrightarrow> se_status s = SessRunning \<Longrightarrow>
   ids_distinct (fold (stream_event i) es st) \<and>
   session_get (fold (stream_event i) es st) i = Some (s\<lparr>se_trace := se_trace s @ es\<rparr>)"
proof (induction es arbitrary: st s)
  case (Cons e es)
  from Cons.IH [OF stream_event_sessions [OF Cons.prems]] Cons.prems(3) show ?case by simp
qed simp

lemma finish_channel_get:
  assumes "ids_distinct st" and "session_get st i = Some s"
  shows "session_get (fst (finish_session_channel encode now i ok summary thread (st, fs))) i =
    Some (finish_channel_record now ok summary thread s)"
proof -
  have "se_id s = i" using assms(2) by (auto simp: session_get_def find_Some_iff)
  with get_map [OF assms(2) _ finish_channel_sessions [OF assms(1)]] show ?thesis by (simp add: rec_change_def)
qed

text \<open>A session channel run and its record agree, but failures are not in the record's trace. When the server
  has driven a running session to the end, its stored trace is the old trace followed by exactly the
  streamed events, each once; its status is the success of the outcome; it keeps the thread of the
  outcome, or else the one it had. The failure marker that the driver puts into its own list of events
  is never part of what is stored.\<close>

theorem channel_run_recorded:
  assumes "ids_distinct st" and "session_get st i = Some s" and "se_status s = SessRunning"
    and "run_session_task_until_turn env t = Some run" and "channel_run encode now i env t (st, fs) = Some (st', fs')"
  shows "\<exists>s'. session_get st' i = Some s' \<and> se_trace s' = se_trace s @ dr_streamed run \<and>
      list_all (\<lambda>e. \<not> is_failed e) (dr_streamed run) \<and> se_round_tasks s' = se_round_tasks s \<and>
      se_finished_at s' = Some now \<and>
      (case dr_result run of
         Inr oc \<Rightarrow> se_status s' = terminal_status (so_ok oc) \<and> se_thread_id s' = so_thread_id oc
       | Inl err \<Rightarrow> se_status s' = SessError \<and> se_thread_id s' = se_thread_id s \<and> se_summary s' = Some err)"
proof -
  let ?st = "fold (stream_event i) (dr_streamed run) st" and ?s = "s\<lparr>se_trace := se_trace s @ dr_streamed run\<rparr>"
  have str: "ids_distinct ?st" "session_get ?st i = Some ?s" using stream_all [OF assms(1-3)] by simp_all
  have clean: "live_trace (dr_streamed run)"
    and thread: "\<And>oc. dr_result run = Inr oc \<Longrightarrow> so_thread_id oc \<noteq> None"
    using driver_shape [OF assms(4) [unfolded run_session_task_until_turn_def]] by auto
  have fin: "(st', fs') = channel_finish encode now i ''session completed'' None run (st, fs)"
    using assms(4,5) by (simp add: channel_run_def)
  show ?thesis
  proof (cases "dr_result run")
    case (Inl err)
    then have "st' = fst (finish_session_channel encode now i False err None (?st, fs))"
      using fin by (simp add: channel_finish_def Let_def) (metis fst_conv)
    then show ?thesis using Inl finish_channel_get [OF str] clean
      by (simp add: finish_channel_record_def terminal_status_def live_trace_def)
  next
    case (Inr oc)
    then have "st' = fst (finish_session_channel encode now i (so_ok oc)
        (case so_error oc of Some e \<Rightarrow> e | None \<Rightarrow> ''session completed'') (so_thread_id oc) (?st, fs))"
      using fin by (simp add: channel_finish_def Let_def) (metis fst_conv)
    then show ?thesis using Inr finish_channel_get [OF str] clean thread [OF Inr]
      by (auto simp: finish_channel_record_def live_trace_def)
  qed
qed


section \<open>A concrete host\<close>

definition demo_reply :: "int \<Rightarrow> json" where
  "demo_reply i = JObject [(''id'', JNumber i), (''result'', JObject [(''threadId'', JString ''t-9'')])]"

definition demo_message :: json where
  "demo_message = JObject [(''method'', JString ''turn/completed'')]"

definition demo_tick :: "nat \<Rightarrow> json option \<Rightarrow> HostTick" where
  "demo_tick now m = \<lparr>tk_now = now, tk_cancel = False, tk_verified = False, tk_wait = Inr None, tk_message = m\<rparr>"

definition demo_env :: HostEnv where
  "demo_env = \<lparr>he_spawn = None, he_send = (\<lambda>_. None), he_inbox = (\<lambda>i. [demo_message, demo_reply (int i)]), he_nonce = 0,
     he_start = 0, he_ticks = [demo_tick 1 (Some demo_message), demo_tick 2 None, demo_tick 3000 None]\<rparr>"

definition demo_session_task :: SessionTask where
  "demo_session_task = \<lparr>st_workspace = ''/w'', st_task = ''do it''\<rparr>"

lemma demo_handshake: "i < 2 ^ 64 \<Longrightarrow> handshake demo_env m i = Inr (demo_reply (int i))"
  by (simp add: handshake_def demo_env_def demo_message_def demo_reply_def as_u64_def bt_get_def)

lemma demo_reply_get: "json_get (demo_reply i) ''error'' = None" "Option.bind (json_get (demo_reply i) ''result'') find_thread_id = Some ''t-9''"
  by (simp_all add: demo_reply_def bt_get_def)

lemma demo_run:
  "run_session_driver demo_env demo_session_task NewThread CompleteTurn =
     Some (outcome_success ''t-9'' [Submitted, Accepted, AgentStarted, TurnCompleted])"
proof -
  have "initialize_host demo_env = Inr ()"
    by (simp add: initialize_host_def demo_handshake demo_reply_get) (simp add: demo_env_def)
  moreover have "attach_thread demo_env demo_session_task NewThread = Inr ''t-9''"
    by (simp add: attach_thread_def demo_handshake demo_reply_get)
  moreover have "queue_task demo_env demo_session_task NewThread ''t-9'' = Inr [Submitted, Accepted, AgentStarted]"
    by (simp add: queue_task_def demo_handshake demo_reply_get push_event_def)
  moreover have "event_loop NewThread CompleteTurn ''t-9'' False 0 [Submitted, Accepted, AgentStarted] (he_ticks demo_env) =
      Some (outcome_success ''t-9'' [Submitted, Accepted, AgentStarted, TurnCompleted])"
    by (simp add: demo_env_def demo_tick_def loop_done_def TURN_QUIET_WINDOW_def tick_event_def demo_message_def
        message_method_def classify_event_def push_event_def bt_get_def)
  ultimately show ?thesis by (simp add: run_session_driver_def) (simp add: demo_env_def)
qed

theorem driver_cleans_up_witness:
  "\<exists>run. run_session_driver demo_env demo_session_task NewThread CompleteTurn = Some run \<and> dr_stopped run"
  using driver_cleans_up [OF demo_run] demo_run by (auto simp: demo_env_def)


theorem driver_terminates_witness:
  "\<exists>run. run_session_driver (demo_env\<lparr>he_ticks := [demo_tick 1 None] @ (demo_tick 2 None)\<lparr>tk_cancel := True\<rparr> # []\<rparr>)
     demo_session_task NewThread CompleteTurn = Some run"
proof -
  let ?env = "demo_env\<lparr>he_ticks := [demo_tick 1 None] @ (demo_tick 2 None)\<lparr>tk_cancel := True\<rparr> # []\<rparr>"
  have "he_ticks ?env = [demo_tick 1 None] @ (demo_tick 2 None)\<lparr>tk_cancel := True\<rparr> # []"
    "\<not> undisturbed ((demo_tick 2 None)\<lparr>tk_cancel := True\<rparr>)" by (simp_all add: undisturbed_def)
  from driver_terminates [OF this, of demo_session_task NewThread CompleteTurn] show ?thesis by blast
qed

theorem channel_run_recorded_witness:
  "\<exists>st' fs' s'. channel_run demo_codec 50 ''s-1'' demo_env demo_session_task demo_world = Some (st', fs') \<and>
     session_get st' ''s-1'' = Some s' \<and> se_status s' = SessCompleted \<and>
     se_trace s' = se_trace demo_sess @ [Submitted, Accepted, AgentStarted, TurnCompleted]"
proof -
  let ?run = "outcome_success ''t-9'' [Submitted, Accepted, AgentStarted, TurnCompleted]"
  have ids: "ids_distinct (fst demo_world)" using reach_invariant [OF demo_world_reach] by simp
  have r: "run_session_task_until_turn demo_env demo_session_task = Some ?run"
    using demo_run by (simp add: run_session_task_until_turn_def)
  then obtain st' fs' where c: "channel_run demo_codec 50 ''s-1'' demo_env demo_session_task (fst demo_world, snd demo_world) = Some (st', fs')"
    by (cases "channel_finish demo_codec 50 ''s-1'' ''session completed'' None ?run demo_world") (simp add: channel_run_def)
  from channel_run_recorded [OF ids demo_world_get demo_sess_fields(2) r c] c show ?thesis
    by (auto simp: outcome_defs terminal_status_def)
qed

end
