(* ===== verification/Ledger.thy ===== *)
theory Ledger
  imports Qualification Session_Host "HOL-Library.Multiset"
begin

text \<open>
  The state of the server (\<open>experience-server/src/main.rs\<close>, struct \<open>App\<close>) and its book keeping: settings, the audit
  ledger \<open>learning-l1.json\<close>, the confidence file \<open>usage.json\<close> with automatic decay, and the sink that turns a
  finished session into a candidate. The serde encodings are the record \<open>Codecs\<close>. The lock \<open>audit\<close> makes each
  read-modify-write one step; the clock is read once per operation.
\<close>

section \<open>Server state\<close>

record Settings =
  set_llm_compiler :: bool
  set_injection_policy :: bool
  set_undo_keep :: nat

definition default_undo_keep :: nat where "default_undo_keep = 20"

definition Settings_default :: Settings where
  "Settings_default = \<lparr>set_llm_compiler = False, set_injection_policy = False, set_undo_keep = default_undo_keep\<rparr>"

record L1LedgerRecord =
  lr_record_type :: string
  lr_candidate_name :: string
  lr_session_id :: "string option"
  lr_thread_id :: "string option"
  lr_trace_version :: "nat option"
  lr_action :: "string option"
  lr_from :: "string option"
  lr_to :: "string option"
  lr_reason :: "string option"
  lr_outcome :: string
  lr_recorded_at :: nat

record LedgerFile =
  lf_schema_version :: nat
  lf_records :: "L1LedgerRecord list"

definition USAGE_SCHEMA_VERSION :: nat where "USAGE_SCHEMA_VERSION = 1"
definition DECAY_SCORE_FLOOR :: rat where "DECAY_SCORE_FLOOR = 30 / 100"

record UsageFile =
  uf_schema_version :: nat
  uf_entries :: "(string \<times> ConfidenceRecord) list"

definition UsageFile_default :: UsageFile where
  "UsageFile_default = \<lparr>uf_schema_version = USAGE_SCHEMA_VERSION, uf_entries = []\<rparr>"

text \<open>The serde encodings the server uses; printing can fail, parsing gives \<^const>\<open>None\<close> on malformed text.\<close>

record Codecs =
  cd_settings_print :: "Settings \<Rightarrow> string + string"
  cd_settings_parse :: "string \<Rightarrow> Settings option"
  cd_ledger_print :: "LedgerFile \<Rightarrow> string option"
  cd_ledger_parse :: "string \<Rightarrow> LedgerFile option"
  cd_flat_parse :: "string \<Rightarrow> L1LedgerRecord list option"
  cd_usage_print :: "UsageFile \<Rightarrow> string option"
  cd_usage_parse :: "string \<Rightarrow> UsageFile option"
  cd_store_print :: "StoreFile \<Rightarrow> string"
  cd_manifest_print :: "BackupManifest \<Rightarrow> string"
  cd_sessions_print :: "SessionsFile \<Rightarrow> string option"
  cd_session_value :: "Session \<Rightarrow> json option"
  cd_event_value :: "json \<Rightarrow> TraceEvent option"

record App =
  app_store :: ExperienceStore
  app_sessions :: SessionStore
  app_home :: path
  app_redactor :: Redactor
  app_settings :: Settings
  app_fs :: fsys

section \<open>Settings\<close>

definition settings_load :: "Codecs \<Rightarrow> fsys \<Rightarrow> path \<Rightarrow> Settings" where
  "settings_load cd fs home =
     (case fs_read_to_string fs (path_join home ''settings.json'') of
        Inr raw \<Rightarrow> (case cd_settings_parse cd raw of Some s \<Rightarrow> s | None \<Rightarrow> Settings_default)
      | Inl _ \<Rightarrow> Settings_default)"

definition settings_save :: "Codecs \<Rightarrow> Settings \<Rightarrow> path \<Rightarrow> fsys \<Rightarrow> fsys \<times> (string + unit)" where
  "settings_save cd s home fs =
     (case cd_settings_print cd s of
        Inl err \<Rightarrow> (fs, Inl err)
      | Inr raw \<Rightarrow>
          (case fs_write_bytes fs (path_join home ''settings.json'') raw of
             Inl e \<Rightarrow> (fs, Inl (io_text e))
           | Inr fs1 \<Rightarrow> (fs1, Inr ())))"

text \<open>An environment variable, when set, wins over the stored setting.\<close>

definition injection_policy_from :: "string option \<Rightarrow> bool" where
  "injection_policy_from v \<longleftrightarrow> map_option to_lowercase v \<in> {Some ''on'', Some ''enabled'', Some ''1'', Some ''true''}"

definition llm_compiler_setting :: "(string \<Rightarrow> string option) \<Rightarrow> App \<Rightarrow> bool" where
  "llm_compiler_setting env app =
     (case env ''EXPERIENCE_LLM_COMPILER'' of
        Some v \<Rightarrow> injection_policy_from (Some v)
      | None \<Rightarrow> set_llm_compiler (app_settings app))"

definition injection_policy_setting :: "(string \<Rightarrow> string option) \<Rightarrow> App \<Rightarrow> bool" where
  "injection_policy_setting env app =
     (case env ''EXPERIENCE_INJECTION_POLICY'' of
        Some v \<Rightarrow> injection_policy_from (Some v)
      | None \<Rightarrow> set_injection_policy (app_settings app))"

section \<open>The audit ledger\<close>

definition ledger_path :: "App \<Rightarrow> path" where
  "ledger_path app = path_join (app_home app) ''learning-l1.json''"

definition redact_record :: "Redactor \<Rightarrow> L1LedgerRecord \<Rightarrow> L1LedgerRecord" where
  "redact_record r x =
     x\<lparr>lr_candidate_name := redact_text r (lr_candidate_name x), lr_outcome := redact_text r (lr_outcome x),
       lr_action := map_option (redact_text r) (lr_action x), lr_reason := map_option (redact_text r) (lr_reason x)\<rparr>"

definition parse_ledger :: "Codecs \<Rightarrow> string \<Rightarrow> LedgerFile option" where
  "parse_ledger cd raw =
     (case cd_ledger_parse cd raw of
        Some f \<Rightarrow> Some f
      | None \<Rightarrow> map_option (\<lambda>records. \<lparr>lf_schema_version = 1, lf_records = records\<rparr>) (cd_flat_parse cd raw))"

definition read_ledger :: "Codecs \<Rightarrow> App \<Rightarrow> LedgerFile" where
  "read_ledger cd app =
     (case fs_read_to_string (app_fs app) (ledger_path app) of
        Inr raw \<Rightarrow> (case parse_ledger cd raw of Some f \<Rightarrow> f | None \<Rightarrow> \<lparr>lf_schema_version = 1, lf_records = []\<rparr>)
      | Inl _ \<Rightarrow> \<lparr>lf_schema_version = 1, lf_records = []\<rparr>)"

definition try_write :: "path \<Rightarrow> string option \<Rightarrow> App \<Rightarrow> App" where
  "try_write p raw app =
     (case raw of
        None \<Rightarrow> app
      | Some text' \<Rightarrow> (case fs_write_bytes (app_fs app) p text' of Inr fs \<Rightarrow> app\<lparr>app_fs := fs\<rparr> | Inl _ \<Rightarrow> app))"

definition append_l1_ledger :: "Codecs \<Rightarrow> L1LedgerRecord \<Rightarrow> App \<Rightarrow> App" where
  "append_l1_ledger cd x app =
     (let file = read_ledger cd app;
          file' = file\<lparr>lf_records := lf_records file @ [redact_record (app_redactor app) x]\<rparr>
      in try_write (ledger_path app) (cd_ledger_print cd file') app)"

definition opt_json :: "string option \<Rightarrow> json" where
  "opt_json v = (case v of Some s \<Rightarrow> JString s | None \<Rightarrow> JNull)"

definition ledger_json :: "L1LedgerRecord \<Rightarrow> json" where
  "ledger_json x = json_object
     [(''record_type'', JString (lr_record_type x)), (''candidate_name'', JString (lr_candidate_name x)),
      (''session_id'', opt_json (lr_session_id x)), (''thread_id'', opt_json (lr_thread_id x)),
      (''trace_version'', case lr_trace_version x of Some n \<Rightarrow> JNumber (int n) | None \<Rightarrow> JNull),
      (''action'', opt_json (lr_action x)), (''from'', opt_json (lr_from x)), (''to'', opt_json (lr_to x)),
      (''reason'', opt_json (lr_reason x)), (''outcome'', JString (lr_outcome x)),
      (''recorded_at'', JNumber (int (lr_recorded_at x)))]"

definition recorded_at_of :: "json \<Rightarrow> int" where
  "recorded_at_of v = (case Option.bind (json_get v ''recorded_at'') as_u64 of Some n \<Rightarrow> n | None \<Rightarrow> 0)"

definition audit_query :: "Codecs \<Rightarrow> string \<Rightarrow> string option \<Rightarrow> string option \<Rightarrow> nat option \<Rightarrow> json list" where
  "audit_query cd raw record_type name limit =
     (let parsed = (case cd_ledger_parse cd raw of
                      Some f \<Rightarrow> lf_records f
                    | None \<Rightarrow> (case cd_flat_parse cd raw of Some rs \<Rightarrow> rs | None \<Rightarrow> []));
          records = sort_key (\<lambda>v. - recorded_at_of v) (map ledger_json parsed);
          typed = (case record_type of
                     Some t \<Rightarrow> filter (\<lambda>v. get_str v ''record_type'' = Some t) records
                   | None \<Rightarrow> records);
          named = (case name of
                     Some n \<Rightarrow> filter (\<lambda>v. case get_str v ''candidate_name'' of Some c \<Rightarrow> contains_str c n | None \<Rightarrow> False) typed
                   | None \<Rightarrow> typed)
      in case limit of Some k \<Rightarrow> take k named | None \<Rightarrow> named)"

section \<open>Usage and automatic decay\<close>

definition usage_path :: "App \<Rightarrow> path" where
  "usage_path app = path_join (app_home app) ''usage.json''"

definition load_usage_unlocked :: "Codecs \<Rightarrow> App \<Rightarrow> UsageFile" where
  "load_usage_unlocked cd app =
     (case fs_read_to_string (app_fs app) (usage_path app) of
        Inr raw \<Rightarrow> (case cd_usage_parse cd raw of Some f \<Rightarrow> f | None \<Rightarrow> UsageFile_default)
      | Inl _ \<Rightarrow> UsageFile_default)"

definition save_usage_unlocked :: "Codecs \<Rightarrow> UsageFile \<Rightarrow> App \<Rightarrow> App" where
  "save_usage_unlocked cd f app = try_write (usage_path app) (cd_usage_print cd f) app"

text \<open>\<open>f64::round\<close>: to the nearest integer, halves away from zero.\<close>

definition round_half_away :: "rat \<Rightarrow> int" where
  "round_half_away x = (if x \<ge> 0 then \<lfloor>x + 1 / 2\<rfloor> else - \<lfloor>1 / 2 - x\<rfloor>)"

definition round_score :: "rat \<Rightarrow> rat" where
  "round_score s = of_int (round_half_away (s * 100)) / 100"

definition outcome_to_experience_outcome :: "string \<Rightarrow> ExperienceOutcome option" where
  "outcome_to_experience_outcome oc =
     (if oc = ''success'' then Some ExpSuccess
      else if oc = ''misfire'' then Some ExpMisfire
      else if oc = ''invalid'' then Some ExpInvalid
      else if oc = ''execution_error'' then Some ExpExecutionError
      else None)"

fun status_str :: "ExperienceStatus \<Rightarrow> string" where
  "status_str Draft = ''draft''"
| "status_str Candidate = ''candidate''"
| "status_str Validated = ''validated''"
| "status_str Active = ''active''"
| "status_str Decaying = ''decaying''"
| "status_str Disabled = ''disabled''"

text \<open>A score with two decimals.\<close>

definition score_text :: "rat \<Rightarrow> string" where
  "score_text s =
     (let n = nat (round_half_away (s * 100))
      in nat_digits (n div 100) @ ''.'' @ nat_digits (n mod 100 div 10) @ nat_digits (n mod 10))"

definition persist :: "Codecs \<Rightarrow> App \<Rightarrow> App" where
  "persist cd app =
     app\<lparr>app_fs := fst (save_to_path (cd_store_print cd) (app_fs app) (app_store app) (path_join (app_home app) ''store.json''))\<rparr>"

definition decay_record :: "string \<Rightarrow> ExperienceStatus \<Rightarrow> ExperienceStatus \<Rightarrow> rat \<Rightarrow> nat \<Rightarrow> L1LedgerRecord" where
  "decay_record name old new s now =
     \<lparr>lr_record_type = ''decayed'', lr_candidate_name = name, lr_session_id = None, lr_thread_id = None,
      lr_trace_version = None, lr_action = Some ''decay'', lr_from = Some (status_str old), lr_to = Some (status_str new),
      lr_reason = Some (''auto_decay:usage_evidence:score='' @ score_text s), lr_outcome = ''decayed'', lr_recorded_at = now\<rparr>"

definition maybe_auto_decay :: "Codecs \<Rightarrow> string \<Rightarrow> rat \<Rightarrow> nat \<Rightarrow> App \<Rightarrow> App" where
  "maybe_auto_decay cd name s now app =
     (if s > DECAY_SCORE_FLOOR then app
      else if Store.is_pinned (app_store app) name then app
      else case store_get (app_store app) name of
        None \<Rightarrow> app
      | Some e \<Rightarrow>
          (if exp_status e \<noteq> Active then app
           else case transition_status name Decay (app_store app) of
             Inr (next, store) \<Rightarrow>
               append_l1_ledger cd (decay_record name (exp_status e) next s now) (persist cd (app\<lparr>app_store := store\<rparr>))
           | Inl _ \<Rightarrow> app))"

definition usage_entry :: "UsageFile \<Rightarrow> string \<Rightarrow> ConfidenceRecord" where
  "usage_entry f name = (case bt_get (uf_entries f) name of Some c \<Rightarrow> c | None \<Rightarrow> ConfidenceRecord_default)"

definition usage_update :: "nat \<Rightarrow> ExperienceOutcome \<Rightarrow> ConfidenceRecord \<Rightarrow> ConfidenceRecord" where
  "usage_update now oc c = (let c1 = apply_experience_usage now oc c in c1\<lparr>score := round_score (score c1)\<rparr>)"

definition usage_record_experience :: "Codecs \<Rightarrow> string \<Rightarrow> string \<Rightarrow> nat \<Rightarrow> App \<Rightarrow> App" where
  "usage_record_experience cd name outcome now app =
     (case outcome_to_experience_outcome outcome of
        None \<Rightarrow> app
      | Some oc \<Rightarrow>
          (let f = load_usage_unlocked cd app;
               c = usage_update now oc (usage_entry f name);
               app1 = save_usage_unlocked cd (f\<lparr>uf_entries := bt_insert name c (uf_entries f)\<rparr>) app
           in maybe_auto_decay cd name (score c) now app1))"

section \<open>Learning from a finished session\<close>

definition l1_distiller_for :: "(string \<Rightarrow> string option) \<Rightarrow> L1Distiller option \<Rightarrow> App \<Rightarrow> L1Distiller" where
  "l1_distiller_for env llm app =
     (if llm_compiler_setting env app then (case llm of Some d \<Rightarrow> d | None \<Rightarrow> DeterministicDistiller)
      else DeterministicDistiller)"

definition sink_record :: "string \<Rightarrow> string \<Rightarrow> Session \<Rightarrow> string \<Rightarrow> nat \<Rightarrow> L1LedgerRecord" where
  "sink_record name session_id s outcome now =
     \<lparr>lr_record_type = (if starts_with outcome ''written'' then ''written''
                        else if starts_with outcome ''rejected'' then ''rejected'' else ''error''),
      lr_candidate_name = name, lr_session_id = Some session_id, lr_thread_id = se_thread_id s,
      lr_trace_version = Some TRACE_SCHEMA_VERSION, lr_action = None, lr_from = None, lr_to = None, lr_reason = None,
      lr_outcome = outcome, lr_recorded_at = now\<rparr>"

definition l1_sink_session :: "Codecs \<Rightarrow> (string \<Rightarrow> string option) \<Rightarrow> L1Distiller option \<Rightarrow> nat \<Rightarrow> string \<Rightarrow> App \<Rightarrow> App" where
  "l1_sink_session cd env llm now session_id app =
     (case session_get (app_sessions app) session_id of
        None \<Rightarrow> app
      | Some s \<Rightarrow>
          (case Option.bind (cd_session_value cd s) (\<lambda>v. select_round (cd_event_value cd) v LastRound) of
             None \<Rightarrow> app
           | Some rnd \<Rightarrow>
               (let name = candidate_name (round_task rnd);
                    existing = (store_get (app_store app) name \<noteq> None);
                    d = l1_distiller_for env llm app;
                    (outcome, app1) =
                      (case sink_once rnd True existing d (app_store app) of
                         (Inr None, store) \<Rightarrow>
                           (''written'', persist cd (app\<lparr>app_store := set_candidate_origin name
                               \<lparr>org_task_signature = task_signature (round_task rnd), org_session_id = Some session_id,
                                org_distiller = (if accepts_dirty d then ''llm'' else ''deterministic''), org_recorded_at = now\<rparr> store\<rparr>))
                       | (Inr (Some reason), store) \<Rightarrow> (''rejected:'' @ reason, app\<lparr>app_store := store\<rparr>)
                       | (Inl err, store) \<Rightarrow> (''error:'' @ err, app\<lparr>app_store := store\<rparr>))
                in append_l1_ledger cd (sink_record name session_id s outcome now) app1)))"


section \<open>The ledger is append-only\<close>

text \<open>The ledger file can be written and read back: a plain path in a directory, holding nothing or a file, and
  an encoding that reads back whatever it wrote.\<close>

definition ledger_writable :: "App \<Rightarrow> bool" where
  "ledger_writable app \<longleftrightarrow> link_free (app_fs app) \<and> ''..'' \<notin> set (ledger_path app) \<and> ledger_path app \<noteq> [] \<and>
     node_at (app_fs app) (butlast (ledger_path app)) = Some DirNode \<and> node_at (app_fs app) (ledger_path app) \<noteq> Some DirNode"

definition ledger_codec :: "Codecs \<Rightarrow> bool" where
  "ledger_codec cd \<longleftrightarrow> (\<forall>f raw. cd_ledger_print cd f = Some raw \<longrightarrow> utf8_valid raw \<and> cd_ledger_parse cd raw = Some f)"

definition extended :: "LedgerFile \<Rightarrow> L1LedgerRecord list \<Rightarrow> LedgerFile" where
  "extended f xs = f\<lparr>lf_records := lf_records f @ xs\<rparr>"

lemma extended_simps [simp]: "lf_records (extended f xs) = lf_records f @ xs" "extended (extended f xs) ys = extended f (xs @ ys)"
  "extended f [] = f"
  by (simp_all add: extended_def)

lemma write_plain:
  assumes "link_free fs" and "''..'' \<notin> set p" and "p \<noteq> []"
    and "node_at fs (butlast p) = Some DirNode" and "node_at fs p \<noteq> Some DirNode"
  shows "fs_write_bytes fs p raw = Inr (put_node p (FileNode raw) fs)"
  using assms link_freeD [OF assms(1), of p]
  by (auto simp: fs_write_bytes_def fs_open_write_def Let_def resolve_link_free path_parent_def split: option.splits node.splits)

lemma try_write_other [simp]:
  "app_home (try_write p raw app) = app_home app" "app_store (try_write p raw app) = app_store app"
  "app_sessions (try_write p raw app) = app_sessions app" "app_redactor (try_write p raw app) = app_redactor app"
  "app_settings (try_write p raw app) = app_settings app"
  by (auto simp: try_write_def split: option.splits sum.splits)

lemma append_other [simp]:
  "app_home (append_l1_ledger cd x app) = app_home app" "app_store (append_l1_ledger cd x app) = app_store app"
  "app_sessions (append_l1_ledger cd x app) = app_sessions app" "app_redactor (append_l1_ledger cd x app) = app_redactor app"
  "app_settings (append_l1_ledger cd x app) = app_settings app"
  by (simp_all add: append_l1_ledger_def Let_def)

lemma persist_other [simp]:
  "app_home (persist cd app) = app_home app" "app_store (persist cd app) = app_store app"
  "app_sessions (persist cd app) = app_sessions app" "app_redactor (persist cd app) = app_redactor app"
  "app_settings (persist cd app) = app_settings app"
  by (simp_all add: persist_def)

lemma append_l1_ledger_exact:
  assumes "ledger_codec cd" and "ledger_writable app"
    and "cd_ledger_print cd (extended (read_ledger cd app) [redact_record (app_redactor app) x]) \<noteq> None"
  shows "ledger_writable (append_l1_ledger cd x app) \<and>
    read_ledger cd (append_l1_ledger cd x app) = extended (read_ledger cd app) [redact_record (app_redactor app) x]"
proof -
  let ?p = "ledger_path app"
  let ?f = "extended (read_ledger cd app) [redact_record (app_redactor app) x]"
  from assms(1,3) obtain raw where raw: "cd_ledger_print cd ?f = Some raw" "utf8_valid raw" "cd_ledger_parse cd raw = Some ?f"
    unfolding ledger_codec_def by blast
  have w: "link_free (app_fs app)" "''..'' \<notin> set ?p" "?p \<noteq> []" "node_at (app_fs app) (butlast ?p) = Some DirNode"
      "node_at (app_fs app) ?p \<noteq> Some DirNode"
    using assms(2) by (auto simp: ledger_writable_def)
  have wr: "fs_write_bytes (app_fs app) ?p raw = Inr (put_node ?p (FileNode raw) (app_fs app))" by (rule write_plain [OF w])
  have app': "append_l1_ledger cd x app = app\<lparr>app_fs := put_node ?p (FileNode raw) (app_fs app)\<rparr>"
    using raw(1) wr by (simp add: append_l1_ledger_def Let_def try_write_def extended_def)
  have rd: "fs_read_to_string (put_node ?p (FileNode raw) (app_fs app)) ?p = Inr raw"
    by (rule read_written [OF w(1,2) wr raw(2)])
  have "butlast ?p \<noteq> ?p" using w(3) by (metis append_butlast_last_id append_self_conv not_Cons_self2)
  then show ?thesis
    using w rd raw(3) unfolding app' by (simp add: ledger_writable_def ledger_path_def read_ledger_def parse_ledger_def link_free_put)
qed

text \<open>C39: the audit ledger is append-only and redacted. With an encoding that prints the files concerned and
  reads back what it wrote, and with a writable ledger file, recording any sequence of events leaves
  every earlier record in place and adds exactly these events, in order, each with its free-text
  fields passed through the redactor. (A file that cannot be parsed counts as empty: its text is
  replaced.)\<close>

theorem ledger_append_only:
  assumes "ledger_codec cd" and "ledger_writable app"
    and "\<And>ys. prefix ys xs \<Longrightarrow>
      cd_ledger_print cd (extended (read_ledger cd app) (map (redact_record (app_redactor app)) ys)) \<noteq> None"
  shows "read_ledger cd (fold (append_l1_ledger cd) xs app) =
    extended (read_ledger cd app) (map (redact_record (app_redactor app)) xs)"
  using assms(2,3)
proof (induction xs arbitrary: app)
  case (Cons x xs)
  let ?app = "append_l1_ledger cd x app" and ?r = "redact_record (app_redactor app)"
  from Cons.prems(2) [of "[x]"] have one: "ledger_writable ?app" "read_ledger cd ?app = extended (read_ledger cd app) [?r x]"
    using append_l1_ledger_exact [OF assms(1) Cons.prems(1), of x] by simp_all
  have "cd_ledger_print cd (extended (read_ledger cd ?app) (map (redact_record (app_redactor ?app)) ys)) \<noteq> None"
    if "prefix ys xs" for ys
    using Cons.prems(2) [of "x # ys"] that one(2) by simp
  from Cons.IH [OF one(1) this] one(2) show ?case by simp
qed simp

section \<open>Queries\<close>

definition parsed_records :: "Codecs \<Rightarrow> string \<Rightarrow> json list" where
  "parsed_records cd raw = map ledger_json (case parse_ledger cd raw of Some f \<Rightarrow> lf_records f | None \<Rightarrow> [])"

definition query_keeps :: "string option \<Rightarrow> string option \<Rightarrow> json \<Rightarrow> bool" where
  "query_keeps t n v \<longleftrightarrow> (\<forall>x. t = Some x \<longrightarrow> get_str v ''record_type'' = Some x) \<and>
     (\<forall>x. n = Some x \<longrightarrow> (\<exists>c. get_str v ''candidate_name'' = Some c \<and> contains_str c x))"

lemma audit_query_filter:
  "audit_query cd raw t n k =
     (let rs = filter (query_keeps t n) (sort_key (\<lambda>v. - recorded_at_of v) (parsed_records cd raw))
      in case k of Some i \<Rightarrow> take i rs | None \<Rightarrow> rs)"
proof -
  have p: "(case cd_ledger_parse cd raw of Some f \<Rightarrow> lf_records f
      | None \<Rightarrow> (case cd_flat_parse cd raw of Some rs \<Rightarrow> rs | None \<Rightarrow> [])) =
      (case parse_ledger cd raw of Some f \<Rightarrow> lf_records f | None \<Rightarrow> [])"
    by (simp add: parse_ledger_def split: option.split)
  have k: "query_keeps t n = (\<lambda>v. (case t of Some x \<Rightarrow> get_str v ''record_type'' = Some x | None \<Rightarrow> True) \<and>
      (case n of Some x \<Rightarrow> (case get_str v ''candidate_name'' of Some c \<Rightarrow> contains_str c x | None \<Rightarrow> False) | None \<Rightarrow> True))"
    by (auto simp: fun_eq_iff query_keeps_def split: option.splits)
  show ?thesis
    unfolding audit_query_def p k parsed_records_def
    by (cases t; cases n; cases k) (simp_all add: Let_def)
qed

text \<open>An audit query answers with exactly the matching records, newest first. The records it gives
  without a limit are, as a multiset, the parsed records with the requested type whose name contains the
  requested text; their times never increase; records of the same second keep their order in the
  file; and a limit cuts this list and changes nothing else.\<close>

theorem audit_query_exact:
  "mset (audit_query cd raw t n None) = mset (filter (query_keeps t n) (parsed_records cd raw)) \<and>
   sorted (map (\<lambda>v. - recorded_at_of v) (audit_query cd raw t n None)) \<and>
   filter (\<lambda>v. recorded_at_of v = at') (audit_query cd raw t n None) =
     filter (\<lambda>v. recorded_at_of v = at' \<and> query_keeps t n v) (parsed_records cd raw) \<and>
   audit_query cd raw t n (Some k) = take k (audit_query cd raw t n None)"
proof -
  let ?rs = "parsed_records cd raw" and ?f = "\<lambda>v. - recorded_at_of v"
  have st: "filter (\<lambda>v. recorded_at_of v = at') (sort_key ?f ?rs) = filter (\<lambda>v. recorded_at_of v = at') ?rs"
    using sort_key_stable [of ?f "- at'" ?rs] by simp
  have "filter (\<lambda>v. recorded_at_of v = at') (filter (query_keeps t n) (sort_key ?f ?rs)) =
      filter (query_keeps t n) (filter (\<lambda>v. recorded_at_of v = at') (sort_key ?f ?rs))"
    by (simp add: conj_commute)
  also have "\<dots> = filter (\<lambda>v. recorded_at_of v = at' \<and> query_keeps t n v) ?rs" unfolding st by (simp add: conj_commute)
  finally show ?thesis
    by (simp add: audit_query_filter Let_def mset_filter sorted_filter)
qed


section \<open>Automatic decay\<close>

text \<open>What one reported outcome does to the score of an experience.\<close>

definition new_score :: "Codecs \<Rightarrow> string \<Rightarrow> string \<Rightarrow> nat \<Rightarrow> App \<Rightarrow> rat option" where
  "new_score cd name outcome now app =
     map_option (\<lambda>oc. score (usage_update now oc (usage_entry (load_usage_unlocked cd app) name)))
       (outcome_to_experience_outcome outcome)"

definition decays :: "Codecs \<Rightarrow> string \<Rightarrow> string \<Rightarrow> nat \<Rightarrow> App \<Rightarrow> bool" where
  "decays cd name outcome now app \<longleftrightarrow>
     (\<exists>s. new_score cd name outcome now app = Some s \<and> s \<le> 30 / 100) \<and> \<not> Store.is_pinned (app_store app) name \<and>
     (\<exists>e. store_get (app_store app) name = Some e \<and> exp_status e = Active)"

lemma save_usage_other [simp]: "app_store (save_usage_unlocked cd f app) = app_store app"
  "app_sessions (save_usage_unlocked cd f app) = app_sessions app" "app_home (save_usage_unlocked cd f app) = app_home app"
  "app_redactor (save_usage_unlocked cd f app) = app_redactor app" "app_settings (save_usage_unlocked cd f app) = app_settings app"
  by (simp_all add: save_usage_unlocked_def)

lemma decay_transition:
  assumes "store_reachable s" and "store_get s name = Some e" and "exp_status e = Active"
  obtains s' where "transition_status name Decay s = Inr (Decaying, s')" and "store_reachable s'"
    and "store_get s' name = Some (e\<lparr>exp_status := Decaying\<rparr>)" and "\<And>m. m \<noteq> name \<Longrightarrow> store_get s' m = store_get s m"
proof -
  have "status_transition Active Decay = Inr Decaying" by simp
  with assms(2,3) obtain s' where t: "transition_status name Decay s = Inr (Decaying, s')"
    by (auto simp: transition_status_def store_get_def split: option.splits)
  from transition_status_exact [OF assms(1) t] assms(2) show thesis
    using that [OF t] assms(1) t by (auto intro: reach_step step_transition)
qed

text \<open>An experience loses its ACTIVE status automatically exactly when it should. After one reported outcome
  on a reachable store, the experience is DECAYING in place of ACTIVE if and only if the outcome is one of
  the four known ones, the resulting two-decimal score is at most 0.30 and it is not pinned;
  every other experience, and every experience in any other situation, is as before.\<close>

theorem auto_decay_exact:
  assumes "store_reachable (app_store app)"
  shows "store_get (app_store (usage_record_experience cd name outcome now app)) m =
    (if m = name \<and> decays cd name outcome now app
     then map_option (\<lambda>e. e\<lparr>exp_status := Decaying\<rparr>) (store_get (app_store app) m)
     else store_get (app_store app) m)"
proof (cases "decays cd name outcome now app")
  case True
  then obtain oc e where oc: "outcome_to_experience_outcome outcome = Some oc"
    and s: "score (usage_update now oc (usage_entry (load_usage_unlocked cd app) name)) \<le> 30 / 100"
    and p: "\<not> Store.is_pinned (app_store app) name"
    and e: "store_get (app_store app) name = Some e" "exp_status e = Active"
    by (auto simp: decays_def new_score_def)
  from decay_transition [OF assms e] obtain s' where t: "transition_status name Decay (app_store app) = Inr (Decaying, s')"
    and s': "store_get s' name = Some (e\<lparr>exp_status := Decaying\<rparr>)" "\<And>m. m \<noteq> name \<Longrightarrow> store_get s' m = store_get (app_store app) m"
    by blast
  have "app_store (usage_record_experience cd name outcome now app) = s'"
    using oc s p e t by (simp add: usage_record_experience_def maybe_auto_decay_def DECAY_SCORE_FLOOR_def Let_def)
  with True s' e(1) show ?thesis by simp
next
  case False
  have "app_store (usage_record_experience cd name outcome now app) = app_store app"
  proof (cases "outcome_to_experience_outcome outcome")
    case (Some oc)
    with False show ?thesis
      by (auto simp: decays_def new_score_def usage_record_experience_def maybe_auto_decay_def DECAY_SCORE_FLOOR_def Let_def
          split: option.split)
  qed (simp add: usage_record_experience_def)
  with False show ?thesis by simp
qed

text \<open>Scores that are whole hundredths between 0 and 1.\<close>

definition hundredths :: "rat \<Rightarrow> bool" where
  "hundredths s \<longleftrightarrow> (\<exists>k. 0 \<le> k \<and> k \<le> 100 \<and> s = of_int k / 100)"

lemma round_score_hundredths: "hundredths s \<Longrightarrow> round_score s = s"
proof -
  assume "hundredths s"
  then obtain k where k: "0 \<le> k" "s = of_int k / 100" by (auto simp: hundredths_def)
  have "\<lfloor>(of_int k + 1 / 2 :: rat)\<rfloor> = k" by (simp add: floor_eq_iff)
  with k show "round_score s = s" by (simp add: round_score_def round_half_away_def)
qed

lemma hundredths_ops:
  assumes "hundredths s"
  shows "hundredths (min (s + 8 / 100) 1)" "hundredths (max (s - 2 / 10) 0)" "0 \<le> s" "s \<le> 1"
proof -
  from assms obtain k where k: "0 \<le> k" "k \<le> 100" "s = of_int k / 100" by (auto simp: hundredths_def)
  have "min (s + 8 / 100) 1 = of_int (min (k + 8) 100) / 100" unfolding k(3) by (simp add: min_def field_simps)
  then show "hundredths (min (s + 8 / 100) 1)" unfolding hundredths_def using k(1) by (metis add_increasing2 min.cobounded2 min_def zero_le_numeral)
  have "max (s - 2 / 10) 0 = of_int (max (k - 20) 0) / 100" unfolding k(3) by (simp add: max_def field_simps)
  then show "hundredths (max (s - 2 / 10) 0)" unfolding hundredths_def using k(2) by (intro exI [of _ "max (k - 20) 0"] conjI) auto
  show "0 \<le> s" "s \<le> 1" using k by auto
qed

text \<open>Only invalid executions can cost an experience its status. Scores stay whole hundredths
  between 0 and 1, so that rounding never changes one, and among the outcomes only
  \<open>invalid\<close> lowers a score, by 0.20 down to 0; a success adds 0.08 up to 1, while a misfire and an
  execution error leave it.\<close>

theorem usage_score_exact:
  assumes "hundredths (score c)"
  shows "hundredths (score (usage_update now oc c)) \<and>
    score (usage_update now oc c) =
      (case oc of ExpSuccess \<Rightarrow> min (score c + 8 / 100) 1 | ExpInvalid \<Rightarrow> max (score c - 2 / 10) 0 | _ \<Rightarrow> score c)"
  using hundredths_ops [OF assms] assms
  by (cases oc) (simp_all add: usage_update_def Let_def round_score_hundredths record_success_def record_misfire_def
      record_execution_error_def record_invalid_def)

section \<open>The sink\<close>

lemma map_sum_Inr: "map_sum f id r = Inr x \<longleftrightarrow> r = Inr x"
  by (cases r) auto

lemma is_in_scope_cong: "scopes s' = scopes s \<Longrightarrow> is_in_scope s' = is_in_scope s"
  by (intro ext) (simp only: is_in_scope_def)

lemma sink_once_effect:
  assumes "sink_once rnd ok seen d s = (r, s')"
  obtains "s' = s" and "r \<noteq> Inr None"
  | e where "r = Inr None" and "store_insert (e\<lparr>exp_status := Candidate\<rparr>) s = Inr s'" and "distill d rnd = Some e"
  using assms
  by (auto simp: sink_once_def write_candidate_def map_sum_Inr split: Necessity.splits if_splits option.splits sum.splits)

lemma insert_candidate_active:
  assumes "store_insert e s = Inr s'" and "exp_status e = Candidate"
  shows "experiences s' = experiences s @ [e]" "active_in_scope s' sc = active_in_scope s sc"
proof -
  show *: "experiences s' = experiences s @ [e]"
    using assms(1) by (auto simp: store_insert_def Let_def split: if_splits)
  have "scopes s' = scopes s" using assms(1) by (auto simp: store_insert_def Let_def index_active_def split: if_splits)
  then have "is_in_scope s' = is_in_scope s" by (rule is_in_scope_cong)
  with * assms(2) show "active_in_scope s' sc = active_in_scope s sc" by (simp add: active_in_scope_def)
qed

lemma origin_active [simp]: "active_in_scope (set_candidate_origin n og s) sc = active_in_scope s sc"
  using is_in_scope_cong [of "set_candidate_origin n og s" s] by (simp add: active_in_scope_def set_candidate_origin_def)

definition round_of :: "Codecs \<Rightarrow> Session \<Rightarrow> RoundTrace option" where
  "round_of cd s = Option.bind (cd_session_value cd s) (\<lambda>v. select_round (cd_event_value cd) v LastRound)"

definition sink_inert :: "App \<Rightarrow> App \<Rightarrow> bool" where
  "sink_inert app app' \<longleftrightarrow> app_sessions app' = app_sessions app \<and> app_settings app' = app_settings app \<and>
     (\<forall>sc. active_in_scope (app_store app') sc = active_in_scope (app_store app) sc)"

text \<open>Sinking a finished session changes no behaviour. On a reachable store, whatever the distiller says, the
  store stays reachable, the sessions and the settings are untouched, and the ACTIVE experiences of every
  scope are exactly those of before; the experiences themselves are unchanged or extended at the end by
  one candidate which the chosen distiller made of the last round of the session, and then the origin of
  the candidate is recorded under the name derived from the task.\<close>

theorem sink_changes_no_behaviour:
  assumes "store_reachable (app_store app)"
    and app': "app' = l1_sink_session cd env llm now i app"
  shows "store_reachable (app_store app') \<and> sink_inert app app' \<and>
    (app_store app' = app_store app \<or>
     (\<exists>s rnd e. session_get (app_sessions app) i = Some s \<and> round_of cd s = Some rnd \<and>
        distill (l1_distiller_for env llm app) rnd = Some e \<and>
        experiences (app_store app') = experiences (app_store app) @ [e\<lparr>exp_status := Candidate\<rparr>] \<and>
        map_option org_session_id (candidate_origin_of (app_store app') (candidate_name (round_task rnd))) = Some (Some i)))"
proof (cases "Option.bind (session_get (app_sessions app) i) (round_of cd)")
  case None
  then have "app' = app"
    by (auto simp: app' l1_sink_session_def round_of_def split: option.splits bind_splits)
  with assms(1) show ?thesis by (simp add: sink_inert_def)
next
  case (Some rnd)
  then obtain s where s: "session_get (app_sessions app) i = Some s" and rnd: "round_of cd s = Some rnd"
    by (auto split: bind_splits)
  let ?n = "candidate_name (round_task rnd)" and ?d = "l1_distiller_for env llm app"
  obtain r st where k: "sink_once rnd True (store_get (app_store app) ?n \<noteq> None) ?d (app_store app) = (r, st)" by fastforce
  show ?thesis
  proof (rule sink_once_effect [OF k])
    assume st: "st = app_store app" and r: "r \<noteq> Inr None"
    have "app_store app' = app_store app \<and> app_sessions app' = app_sessions app \<and> app_settings app' = app_settings app"
      using s rnd k st r by (auto simp: app' l1_sink_session_def round_of_def Let_def split: sum.splits option.splits)
    with assms(1) show ?thesis by (simp add: sink_inert_def)
  next
    fix e assume r: "r = Inr None" and ins: "store_insert (e\<lparr>exp_status := Candidate\<rparr>) (app_store app) = Inr st"
      and d: "distill ?d rnd = Some e"
    obtain og where st': "app_store app' = set_candidate_origin ?n og st" and og: "org_session_id og = Some i"
      and oth: "app_sessions app' = app_sessions app" "app_settings app' = app_settings app"
      using s rnd k r by (auto simp: app' l1_sink_session_def round_of_def Let_def)
    have "store_reachable (app_store app')" unfolding st'
      using assms(1) ins by (meson reach_step step_insert step_origin)
    moreover have "sink_inert app app'"
      using insert_candidate_active(2) [OF ins] oth by (simp add: sink_inert_def st')
    moreover have "experiences (app_store app') = experiences (app_store app) @ [e\<lparr>exp_status := Candidate\<rparr>]"
      using insert_candidate_active(1) [OF ins] by (simp add: st' set_candidate_origin_def)
    moreover have "map_option org_session_id (candidate_origin_of (app_store app') ?n) = Some (Some i)"
      using og by (simp add: st' set_candidate_origin_def candidate_origin_of_def map_simps)
    ultimately show ?thesis using s rnd d by blast
  qed
qed


section \<open>Concrete runs\<close>

definition demo_app :: App where
  "demo_app = \<lparr>app_store = demo_store, app_sessions = fst demo_world, app_home = [''w''],
     app_redactor = \<lparr>red_key = ''k'', red_disclosure = Structure, red_mode = ModeOff\<rparr>,
     app_settings = Settings_default, app_fs = demo_fs\<rparr>"

definition demo_ledger :: LedgerFile where
  "demo_ledger = \<lparr>lf_schema_version = 1, lf_records = [decay_record ''touch'' Active Decaying (3 / 10) 7]\<rparr>"

definition demo_codecs :: Codecs where
  "demo_codecs = \<lparr>cd_settings_print = (\<lambda>_. Inr ''{}''), cd_settings_parse = (\<lambda>_. None),
     cd_ledger_print = (\<lambda>f. if f = demo_ledger then Some ''1'' else if f = demo_ledger\<lparr>lf_records := []\<rparr> then Some ''0'' else None),
     cd_ledger_parse = (\<lambda>raw. if raw = ''1'' then Some demo_ledger else if raw = ''0'' then Some (demo_ledger\<lparr>lf_records := []\<rparr>) else None),
     cd_flat_parse = (\<lambda>_. None), cd_usage_print = (\<lambda>_. None), cd_usage_parse = (\<lambda>_. None),
     cd_store_print = (\<lambda>_. ''{}''), cd_manifest_print = (\<lambda>_. ''{}''), cd_sessions_print = demo_codec,
     cd_session_value = (\<lambda>_. None), cd_event_value = (\<lambda>_. None)\<rparr>"

lemma demo_ledger_codec: "ledger_codec demo_codecs"
proof -
  have "utf8_valid ''0''" "utf8_valid ''1''" by code_simp+
  then show ?thesis by (auto simp: ledger_codec_def demo_codecs_def demo_ledger_def simp del: utf8_valid.simps)
qed

lemma demo_app_fields [simp]:
  "app_store demo_app = demo_store" "app_home demo_app = [''w'']" "app_fs demo_app = demo_fs"
  "redact_record (app_redactor demo_app) = (\<lambda>x. x)" "app_sessions demo_app = fst demo_world"
proof -
  show "redact_record (app_redactor demo_app) = (\<lambda>x. x)"
    by (rule ext, rule L1LedgerRecord.equality) (simp_all add: demo_app_def redact_record_def redact_text_def map_option_case split: option.split)
qed (simp_all add: demo_app_def)

lemma demo_read: "fs_read_to_string demo_fs [''w'', n] = Inl ENOENT" if "n \<noteq> ''..''" "n \<noteq> ''a.txt''"
proof -
  have "resolve_path demo_fs [''w'', n] = [''w'', n]" using that by (intro resolve_link_free) (code_simp, auto)
  with that show ?thesis by (simp add: fs_read_to_string_def fs_read_bytes_def stat_def demo_fs_def node_at_def bt_get_def)
qed

lemma demo_paths: "ledger_path demo_app = [''w'', ''learning-l1.json'']" "usage_path demo_app = [''w'', ''usage.json'']"
  by (simp_all add: ledger_path_def usage_path_def path_join_def path_of_text_def) (code_simp+)

theorem ledger_append_only_witness:
  "lf_records (read_ledger demo_codecs (append_l1_ledger demo_codecs (decay_record ''touch'' Active Decaying (3 / 10) 7) demo_app)) =
     [decay_record ''touch'' Active Decaying (3 / 10) 7]"
proof -
  let ?x = "decay_record ''touch'' Active Decaying (3 / 10) 7"
  have r: "read_ledger demo_codecs demo_app = demo_ledger\<lparr>lf_records := []\<rparr>"
    using demo_read [of "''learning-l1.json''"] by (simp add: read_ledger_def demo_paths demo_ledger_def)
  have w: "ledger_writable demo_app"
    unfolding ledger_writable_def demo_paths demo_app_fields by code_simp
  have e: "extended (read_ledger demo_codecs demo_app) [] = demo_ledger\<lparr>lf_records := []\<rparr>"
    "extended (read_ledger demo_codecs demo_app) [?x] = demo_ledger"
    unfolding r by (simp_all add: extended_def demo_ledger_def)
  have "cd_ledger_print demo_codecs (extended (read_ledger demo_codecs demo_app) ys) \<noteq> None" if "prefix ys [?x]" for ys
    using that e by (auto simp: prefix_Cons demo_codecs_def)
  then have "read_ledger demo_codecs (fold (append_l1_ledger demo_codecs) [?x] demo_app) = extended (read_ledger demo_codecs demo_app) [?x]"
    using ledger_append_only [OF demo_ledger_codec w, of "[?x]"] unfolding demo_app_fields by simp
  then show ?thesis unfolding e(2) by (simp add: demo_ledger_def)
qed

theorem auto_decay_exact_witness:
  "map_option exp_status (store_get (app_store (usage_record_experience demo_codecs ''touch'' ''invalid'' 7 demo_app)) ''touch'') = Some Decaying"
proof -
  have g: "store_get demo_store ''touch'' = Some demo_instance"
    using exps.look_ins [OF store_wf_default demo_store_insert, of "''touch''"] by (simp add: demo_instance_def)
  have "load_usage_unlocked demo_codecs demo_app = UsageFile_default"
    using demo_read [of "''usage.json''"] by (simp add: load_usage_unlocked_def demo_paths)
  then have "new_score demo_codecs ''touch'' ''invalid'' 7 demo_app = Some (3 / 10)"
    by (simp add: new_score_def outcome_to_experience_outcome_def usage_entry_def UsageFile_default_def usage_update_def Let_def
        record_invalid_def ConfidenceRecord_default_def round_score_def round_half_away_def floor_eq_iff)
  moreover have "\<not> Store.is_pinned demo_store ''touch''" "exp_status demo_instance = Active" by code_simp+
  ultimately have "decays demo_codecs ''touch'' ''invalid'' 7 demo_app" using g unfolding decays_def demo_app_fields by (intro conjI exI [of _ "3 / 10"]) simp_all
  with auto_decay_exact [of demo_app demo_codecs "''touch''" "''invalid''" 7 "''touch''"] demo_store_reachable g show ?thesis
    by simp
qed

theorem usage_score_exact_witness:
  "score (usage_update 7 ExpInvalid ConfidenceRecord_default) = 3 / 10"
proof -
  have "hundredths (score ConfidenceRecord_default)"
    unfolding hundredths_def ConfidenceRecord_default_def by (intro exI [of _ 50]) simp
  from usage_score_exact [OF this, of 7 ExpInvalid] show ?thesis by (simp add: ConfidenceRecord_default_def)
qed

definition demo_sink_codecs :: Codecs where
  "demo_sink_codecs = demo_codecs\<lparr>cd_session_value := (\<lambda>_. Some (json_object
       [(''status'', JString ''completed''), (''task'', JString ''Run tests''),
        (''trace'', JArray [JString ''submitted'', JString ''call'', JString ''completed''])])),
     cd_event_value := (\<lambda>v. if v = JString ''submitted'' then Some Submitted else if v = JString ''completed'' then Some TurnCompleted
       else Some (ToolCall ''exec_command'' None (Some ''cargo test'')))\<rparr>"

theorem sink_changes_no_behaviour_witness:
  "\<exists>e. experiences (app_store (l1_sink_session demo_sink_codecs (\<lambda>_. None) None 7 (se_id demo_sess) demo_app)) = experiences demo_store @ [e] \<and>
     exp_status e = Candidate"
proof -
  let ?app = "l1_sink_session demo_sink_codecs (\<lambda>_. None) None 7 (se_id demo_sess) demo_app"
  have s: "session_get (app_sessions demo_app) (se_id demo_sess) = Some demo_sess"
    by (simp add: session_get_def demo_world_sessions)
  have "select_round (\<lambda>v. if v = JString ''submitted'' then Some Submitted else if v = JString ''completed'' then Some TurnCompleted
       else Some (ToolCall ''exec_command'' None (Some ''cargo test''))) (json_object
       [(''status'', JString ''completed''), (''task'', JString ''Run tests''),
        (''trace'', JArray [JString ''submitted'', JString ''call'', JString ''completed''])]) LastRound = Some demo_round"
    by code_simp
  then have r: "Option.bind (cd_session_value demo_sink_codecs demo_sess)
      (\<lambda>v. select_round (cd_event_value demo_sink_codecs) v LastRound) = Some demo_round"
    by (simp add: demo_sink_codecs_def)
  have d: "l1_distiller_for (\<lambda>_. None) None demo_app = DeterministicDistiller"
    by (simp add: l1_distiller_for_def)
  have x: "store_get demo_store (candidate_name (round_task demo_round)) = None" by code_simp
  have o: "fst (sink_once demo_round True False DeterministicDistiller demo_store) = Inr None" by code_simp
  then obtain st where k: "sink_once demo_round True False DeterministicDistiller demo_store = (Inr None, st)"
    by (metis prod.collapse)
  have len: "length (experiences (snd (sink_once demo_round True False DeterministicDistiller demo_store))) = 2" by code_simp
  have "experiences (app_store ?app) = experiences st"
    using s r d x k by (simp add: l1_sink_session_def Let_def set_candidate_origin_def)
  with len k have "length (experiences (app_store ?app)) = 2" by simp
  moreover have "length (experiences demo_store) = 1" by code_simp
  ultimately have "app_store ?app \<noteq> app_store demo_app" by auto
  with sink_changes_no_behaviour [of demo_app ?app] demo_store_reachable show ?thesis by fastforce
qed

end
