(* ===== verification/Task_Entry.thy ===== *)
theory Task_Entry
  imports Ledger
begin

text \<open>
  Task entry of the server (\<open>experience-server/src/main.rs\<close>, \<open>l3_entry\<close> and its helpers): before a task goes to the
  agent, at most one ACTIVE experience that matches its text may run in the workspace, and the task that is
  delegated carries what the run established. Outside the repository, and therefore arguments (record
  \<open>EntryEnv\<close>): processes (\<open>Host\<close>), probes of the world (\<open>World\<close>), environment variables, the temporary
  directory of the dry run, the clock, and which characters outside ASCII are alphanumeric.
\<close>

section \<open>Text helpers\<close>

record EntryEnv =
  ee_host :: Host
  ee_world :: World
  ee_vars :: "string \<Rightarrow> string option"
  ee_alnum :: "string \<Rightarrow> bool"
  ee_scratch :: path
  ee_now :: nat

definition L3_SCOPE_V2 :: string where "L3_SCOPE_V2 = ''scope=l3_v2''"
definition L3_REASON_V1 :: string where "L3_REASON_V1 = ''policy_off;no_in_process_executor_v1''"

definition push_audit :: "string \<Rightarrow> string \<Rightarrow> string" where
  "push_audit audit entry = (if audit = [] then entry else audit @ '','' @ entry)"

definition l3_cap :: "string \<Rightarrow> nat \<Rightarrow> string" where
  "l3_cap text' limit =
     (if length (chars_of text') \<le> limit then text' else concat (take limit (chars_of text')) @ ELLIPSIS)"

definition NEGATIONS :: "string list" where
  "NEGATIONS = [''not'', ''never'', ''dont'', ''don'' @ [CHR 0x27] @ ''t'', ''avoid'', ''skip'', ''without'', ''except'']"

fun split_chars :: "(string \<Rightarrow> bool) \<Rightarrow> string list \<Rightarrow> string list" where
  "split_chars P [] = [[]]"
| "split_chars P (c # cs) =
     (case split_chars P cs of
        [] \<Rightarrow> []
      | t # ts \<Rightarrow> (if P c then [] # t # ts else (c @ t) # ts))"

definition is_alphanumeric :: "EntryEnv \<Rightarrow> string \<Rightarrow> bool" where
  "is_alphanumeric env c = (case c of [b] \<Rightarrow> is_ascii_alphanumeric b | _ \<Rightarrow> ee_alnum env c)"

definition l3_negation_before :: "EntryEnv \<Rightarrow> string \<Rightarrow> nat \<Rightarrow> bool" where
  "l3_negation_before env task_lower start =
     (let cs = chars_of (take start task_lower);
          window = drop (length cs - 32) cs;
          tokens = filter (\<lambda>t. t \<noteq> []) (split_chars (\<lambda>c. \<not> is_alphanumeric env c \<and> c \<noteq> [CHR 0x27]) window)
      in list_ex (\<lambda>t. t \<in> set NEGATIONS \<or> t = ''no'') tokens)"

definition l3_task_matches :: "EntryEnv \<Rightarrow> Experience \<Rightarrow> string \<Rightarrow> bool" where
  "l3_task_matches env e task \<longleftrightarrow>
     pat_tool (exp_trigger e) \<in> {''exec_command'', ''write_file'', ''read_file''} \<and>
     (case command_pattern (exp_trigger e) of
        None \<Rightarrow> False
      | Some pattern \<Rightarrow>
          trim_str pattern \<noteq> [] \<and>
          (case find_str (to_lowercase task) (to_lowercase pattern) of
             Some i \<Rightarrow> \<not> l3_negation_before env (to_lowercase task) i
           | None \<Rightarrow> False))"

section \<open>Which experiences may run\<close>

definition is_locally_executable_action :: "string \<Rightarrow> bool" where
  "is_locally_executable_action action \<longleftrightarrow>
     action \<in> set [''write_file'', ''append_file'', ''read_file'', ''mkdir'', ''copy_file'', ''move_file'', ''delete_file'',
       ''exec'', ''exec_command'']"

definition l3_locally_runnable :: "Experience \<Rightarrow> bool" where
  "l3_locally_runnable e \<longleftrightarrow>
     exp_workflow e \<noteq> [] \<and> list_all (\<lambda>step. is_locally_executable_action (step_action step)) (exp_workflow e)"

definition l3_preconditions_pass :: "World \<Rightarrow> fsys \<Rightarrow> Experience \<Rightarrow> path \<Rightarrow> bool" where
  "l3_preconditions_pass w fs e workspace \<longleftrightarrow>
     list_all (\<lambda>p. observable (pred_key p) \<and> evaluate_predicate w fs (pred_key p) (pred_expected p) workspace = TV_True)
       (exp_preconditions e)"

definition l3_pick_unique_best :: "Experience list \<Rightarrow> string + Experience" where
  "l3_pick_unique_best runnable =
     (if runnable = [] then Inl []
      else
        (let best_len = Max (set (map (\<lambda>e. length (exp_workflow e)) runnable));
             best = filter (\<lambda>e. length (exp_workflow e) = best_len) runnable
         in case best of
              [only] \<Rightarrow> Inr only
            | many \<Rightarrow> Inl (''conflict:'' @ join_str ''|'' (map exp_name many) @ '':no_auto_execute'')))"

definition effective_policy_for :: "ExperienceStore \<Rightarrow> Experience \<Rightarrow> string option \<Rightarrow> CapabilityPolicy" where
  "effective_policy_for store e session_scope =
     (case scope_of store (exp_name e) of
        Some sc \<Rightarrow> policy_for_scope store (Some sc)
      | None \<Rightarrow> policy_for_scope store session_scope)"

fun first_denied :: "CapabilityPolicy \<Rightarrow> WorkflowStep list \<Rightarrow> string option" where
  "first_denied policy [] = None"
| "first_denied policy (step # steps) =
     (case policy_check policy (step_action step) of
        Inl d \<Rightarrow> Some (''policy_denied:'' @ pd_action d @ '':'' @ pd_family d @ '':'' @ pd_reason d)
      | Inr _ \<Rightarrow> first_denied policy steps)"

definition l3_policy_blocks :: "CapabilityPolicy \<Rightarrow> Experience \<Rightarrow> string option" where
  "l3_policy_blocks policy e = first_denied policy (exp_workflow e)"

text \<open>The dry run: denied steps and program steps are skipped, file steps run in the scratch directory.\<close>

fun dry_steps :: "Host \<Rightarrow> StepContext \<Rightarrow> WorkflowStep list \<Rightarrow> exec_state \<Rightarrow> string option \<times> exec_state" where
  "dry_steps h c [] s = (None, s)"
| "dry_steps h c (step # steps) s =
     (if isl (policy_check (ctx_policy c) (step_action step)) \<or> step_action step = ''exec'' \<or> step_action step = ''exec_command''
      then dry_steps h c steps s
      else case execute_step h c step s of
             (Inl err, s') \<Rightarrow> (Some (''dryrun_failed:'' @ se_detail err), s')
           | (Inr _, s') \<Rightarrow> dry_steps h c steps s')"

definition l3_gate_check :: "EntryEnv \<Rightarrow> Experience \<Rightarrow> path \<Rightarrow> CapabilityPolicy \<Rightarrow> fsys \<Rightarrow> string option \<times> fsys" where
  "l3_gate_check env e workspace policy fs =
     (case find (\<lambda>p. \<not> observable (pred_key p)) (exp_preconditions e @ exp_postconditions e) of
        Some p \<Rightarrow> (Some (''unobservable_verdict:'' @ pred_key p), fs)
      | None \<Rightarrow>
          (case find (\<lambda>step. \<not> is_locally_executable_action (step_action step)) (exp_workflow e) of
             Some step \<Rightarrow> (Some (''unexecutable_step:'' @ step_action step), fs)
           | None \<Rightarrow>
               (case fs_create_dir_all fs (ee_scratch env) of
                  Inl _ \<Rightarrow> (Some ''dryrun_setup_failed'', fs)
                | Inr fs1 \<Rightarrow>
                    (case dry_steps (ee_host env) (with_scratch (ee_scratch env) (StepContext_new fs1 workspace policy))
                            (exp_workflow e) \<lparr>st_fs = fs1, st_backups = None\<rparr> of
                       (failure, s) \<Rightarrow>
                         (failure, case fs_remove_dir_all (st_fs s) (ee_scratch env) of Inr fs2 \<Rightarrow> fs2 | Inl _ \<Rightarrow> st_fs s)))))"

section \<open>Policies of a session\<close>

definition valid_backup_id :: "string \<Rightarrow> bool" where
  "valid_backup_id v \<longleftrightarrow> v \<noteq> [] \<and> length v \<le> 128 \<and>
     list_all (\<lambda>ch. is_ascii_alphanumeric ch \<or> ch = CHR ''-'' \<or> ch = CHR ''_'') v"

definition capability_within_policy :: "CapabilityPolicy \<Rightarrow> string \<Rightarrow> bool" where
  "capability_within_policy policy cap =
     (let fam = capability_family cap
      in if fam = Some ''fs_read'' then policy_allows policy ''read_file''
         else if fam = Some ''fs_write'' then policy_allows policy ''write_file''
         else if fam = Some ''fs_delete'' then policy_allows policy ''delete_file''
         else if fam = Some ''exec'' \<and> cap = ''exec_command'' then
           policy_allows policy ''exec'' \<and> ex_allow_legacy_shell (pol_exec policy)
         else if fam = Some ''exec'' then policy_allows policy ''exec''
         else if fam = Some ''network'' then net_mode (pol_network policy) \<noteq> ''off''
         else True)"

definition bool_text :: "bool \<Rightarrow> string" where
  "bool_text b = (if b then ''true'' else ''false'')"

definition policy_summary :: "CapabilityPolicy \<Rightarrow> string" where
  "policy_summary p =
     ''fs_read='' @ bool_text (fr_enabled (fs_read p)) @ ''(max='' @ nat_digits (unat (read_max_bytes p)) @ '');fs_write='' @ fs_write p @
     '';fs_delete='' @ fs_delete p @ '';exec='' @ ex_mode (pol_exec p) @ '';network='' @ net_mode (pol_network p)"

definition append_policy_ledger :: "Codecs \<Rightarrow> nat \<Rightarrow> string \<Rightarrow> string \<Rightarrow> string \<Rightarrow> string option \<Rightarrow> App \<Rightarrow> App" where
  "append_policy_ledger cd now scope actor action reason =
     append_l1_ledger cd
       \<lparr>lr_record_type = ''policy_updated'', lr_candidate_name = scope, lr_session_id = None, lr_thread_id = None,
        lr_trace_version = None, lr_action = Some action, lr_from = None, lr_to = None,
        lr_reason = Some (case reason of Some r \<Rightarrow> ''actor='' @ actor @ '';'' @ r | None \<Rightarrow> ''actor='' @ actor),
        lr_outcome = ''completed'', lr_recorded_at = now\<rparr>"

section \<open>Running a workflow\<close>

record ProcessEvidence =
  pe_exit_code :: "int option"
  pe_stdout :: string

record L3RunReport =
  rr_outcome :: string
  rr_completed_step_ids :: "string list"
  rr_verified_state :: "string list"
  rr_detail :: string
  rr_backup_root :: "string option"

definition l3_predicate_truth :: "World \<Rightarrow> fsys \<Rightarrow> string \<Rightarrow> json \<Rightarrow> path \<Rightarrow> (string \<times> ProcessEvidence) list \<Rightarrow> TruthValue" where
  "l3_predicate_truth w fs key expected workspace results =
     (if \<not> observable key then TV_Unknown
      else case strip_prefix key ''process.exit_code:'' of
        Some rest \<Rightarrow>
          (case Option.bind (bt_get results rest) pe_exit_code of
             None \<Rightarrow> TV_Unknown
           | Some code \<Rightarrow>
               (case as_i64 expected of
                  None \<Rightarrow> TV_Unknown
                | Some want \<Rightarrow> (if want = code then TV_True else TV_False)))
      | None \<Rightarrow>
          (case strip_prefix key ''process.stdout_contains:'' of
             Some step \<Rightarrow>
               (let needle = (case as_str expected of Some s \<Rightarrow> s | None \<Rightarrow> [])
                in if step = [] \<or> needle = [] then TV_Unknown
                   else case bt_get results step of
                     None \<Rightarrow> TV_Unknown
                   | Some entry \<Rightarrow> (if contains_str (pe_stdout entry) needle then TV_True else TV_False))
           | None \<Rightarrow> evaluate_predicate w fs key expected workspace))"

definition l3_value_text :: "json \<Rightarrow> string" where
  "l3_value_text v = (case as_str v of Some s \<Rightarrow> s | None \<Rightarrow> json_text v)"

definition l3_verified_state :: "World \<Rightarrow> fsys \<Rightarrow> Experience \<Rightarrow> path \<Rightarrow> (string \<times> ProcessEvidence) list \<Rightarrow> string list" where
  "l3_verified_state w fs e workspace results =
     map (\<lambda>p. pred_key p @ ''='' @ l3_value_text (pred_expected p))
       (filter (\<lambda>p. l3_predicate_truth w fs (pred_key p) (pred_expected p) workspace results = TV_True) (exp_postconditions e))"

record run_progress =
  rp_failure :: "(string \<times> string) option"
  rp_completed :: "string list"
  rp_results :: "(string \<times> ProcessEvidence) list"
  rp_notes :: "string list"

definition output_notes :: "nat \<Rightarrow> StepExecution \<Rightarrow> string list" where
  "output_notes i x =
     (if sx_stderr x \<noteq> [] then [''stderr['' @ nat_digits i @ '']='' @ head_chars (sx_stderr x) 120] else []) @
     (if sx_stdout x \<noteq> [] then [''stdout['' @ nat_digits i @ '']='' @ head_chars (sx_stdout x) 120] else [])"

fun run_steps :: "Host \<Rightarrow> StepContext \<Rightarrow> nat \<Rightarrow> WorkflowStep list \<Rightarrow> run_progress \<Rightarrow> exec_state \<Rightarrow> run_progress \<times> exec_state" where
  "run_steps h c i [] rp s = (rp, s)"
| "run_steps h c i (step # steps) rp s =
     (case execute_step h c step s of
        (Inl err, s') \<Rightarrow> (rp\<lparr>rp_failure := Some (se_outcome err, se_detail err)\<rparr>, s')
      | (Inr x, s') \<Rightarrow>
          (let k = step_action step @ ''#'' @ nat_digits i
           in run_steps h c (Suc i) steps
                (rp\<lparr>rp_completed := rp_completed rp @ [k],
                   rp_results := bt_insert k \<lparr>pe_exit_code = sx_exit_code x, pe_stdout = sx_stdout x\<rparr> (rp_results rp),
                   rp_notes := rp_notes rp @ output_notes i x\<rparr>) s'))"

definition run_backup_root :: "path \<Rightarrow> string \<Rightarrow> nat \<Rightarrow> path" where
  "run_backup_root home session_id now =
     path_join (path_join (path_join home ''backups'') session_id) (''run-'' @ nat_digits now)"

definition run_context :: "fsys \<Rightarrow> path \<Rightarrow> CapabilityPolicy \<Rightarrow> path option \<Rightarrow> path \<Rightarrow> StepContext" where
  "run_context fs workspace policy broot home =
     (let c = with_run_root (path_join home ''run'') (StepContext_new fs workspace policy)
      in case broot of Some r \<Rightarrow> with_backup r c | None \<Rightarrow> c)"

definition start_progress :: run_progress where
  "start_progress = \<lparr>rp_failure = None, rp_completed = [], rp_results = [], rp_notes = []\<rparr>"

definition run_verdict :: "World \<Rightarrow> fsys \<Rightarrow> Experience \<Rightarrow> path \<Rightarrow> run_progress \<Rightarrow> string \<times> string" where
  "run_verdict w fs e workspace rp =
     (case rp_failure rp of
        Some failed \<Rightarrow> failed
      | None \<Rightarrow>
          (if length (l3_verified_state w fs e workspace (rp_results rp)) = length (exp_postconditions e)
           then (''success'', []) else (''misfire'', ''postconditions not satisfied after workflow'')))"

definition l3_run_workflow :: "(BackupManifest \<Rightarrow> string) \<Rightarrow> EntryEnv \<Rightarrow> Experience \<Rightarrow> path \<Rightarrow> CapabilityPolicy
    \<Rightarrow> (path \<times> string) option \<Rightarrow> path \<Rightarrow> fsys \<Rightarrow> L3RunReport \<times> fsys" where
  "l3_run_workflow print env e workspace policy backup home fs =
     (let broot = map_option (\<lambda>(h, session_id). run_backup_root h session_id (ee_now env)) backup;
          (rp, s) = run_steps (ee_host env) (run_context fs workspace policy broot home) 0 (exp_workflow e) start_progress
                      \<lparr>st_fs = fs, st_backups = map_option (\<lambda>_. []) broot\<rparr>;
          (outcome, detail) = run_verdict (ee_world env) (st_fs s) e workspace rp;
          (fs1, written) =
            (case broot of
               None \<Rightarrow> (st_fs s, Inr [])
             | Some r \<Rightarrow> write_backup_manifest print (ee_now env) (st_fs s) r workspace (map_option snd backup)
                           (case st_backups s of Some es \<Rightarrow> es | None \<Rightarrow> []));
          detail1 = (case written of
                       Inl err \<Rightarrow> (if detail = [] then ''backup manifest failed: '' @ err else detail)
                     | Inr _ \<Rightarrow> detail);
          detail2 = (if rp_notes rp = [] then detail1
                     else if detail1 = [] then join_str '';'' (rp_notes rp)
                     else detail1 @ '';'' @ join_str '';'' (rp_notes rp))
      in (\<lparr>rr_outcome = outcome, rr_completed_step_ids = rp_completed rp,
           rr_verified_state = l3_verified_state (ee_world env) fs1 e workspace (rp_results rp),
           rr_detail = detail2, rr_backup_root = map_option path_text broot\<rparr>, fs1))"

section \<open>References\<close>

definition step_arg :: "WorkflowStep \<Rightarrow> string \<Rightarrow> string" where
  "step_arg step key = (case get_str (step_args step) key of Some v \<Rightarrow> v | None \<Rightarrow> ''?'')"

definition l3_step_summary :: "WorkflowStep \<Rightarrow> string" where
  "l3_step_summary step =
     (if step_action step = ''write_file'' then ''write_file(path='' @ step_arg step ''path'' @ '')''
      else if step_action step = ''exec_command'' then ''exec_command(cmd='' @ l3_cap (step_arg step ''cmd'') 120 @ '')''
      else if step_action step = ''read_file'' then ''read_file(path='' @ step_arg step ''path'' @ '')''
      else step_action step)"

definition l3_reference_text :: "Experience list \<Rightarrow> nat \<Rightarrow> string" where
  "l3_reference_text es limit =
     l3_cap (join_str [CHR 0x0A] (map (\<lambda>e. ''- '' @ exp_name e @ '': '' @ join_str '' -> '' (map l3_step_summary (exp_workflow e)) @
       (''; '' @ [CHR 0xE5, CHR 0xAE, CHR 0x8C, CHR 0xE6, CHR 0x88, CHR 0x90, CHR 0xE5, CHR 0x88, CHR 0xA4, CHR 0xE6,
      CHR 0x8D, CHR 0xAE] @ '': '') @ join_str '', '' (map pred_key (exp_postconditions e))) es)) limit"

definition reference_entries_text :: "ReferenceEntry list \<Rightarrow> nat \<Rightarrow> string" where
  "reference_entries_text entries limit =
     l3_cap (join_str [CHR 0x0A] (map (\<lambda>r. ''- [ref:'' @ ref_id r @ '']['' @ ref_trust_level r @ ''] '' @ ref_title r @ '': '' @
       (if ref_steps r = [] then ref_body r else join_str '' -> '' (ref_steps r))) entries)) limit"

section \<open>Task entry\<close>

record L3Executed =
  lx_name :: string
  lx_outcome :: string

record L3EntryContext =
  lc_plan :: string
  lc_delegated_task :: string
  lc_executed :: "L3Executed option"
  lc_track_delegation :: bool

definition entry_active :: "App \<Rightarrow> string option \<Rightarrow> Experience list" where
  "entry_active app scope =
     filter (\<lambda>e. is_usage_allowed (app_store app) (exp_name e)) (active_in_scope (app_store app) scope)"

text \<open>The candidate loop: those that may run, the audit text, and the file system after the dry runs.\<close>

fun entry_runnable :: "EntryEnv \<Rightarrow> ExperienceStore \<Rightarrow> string option \<Rightarrow> path \<Rightarrow> Experience list \<Rightarrow> string \<Rightarrow> fsys
    \<Rightarrow> Experience list \<times> string \<times> fsys" where
  "entry_runnable env store scope workspace [] audit fs = ([], audit, fs)"
| "entry_runnable env store scope workspace (e # es) audit fs =
     (if \<not> l3_locally_runnable e then
        entry_runnable env store scope workspace es (push_audit audit (exp_name e @ '':workflow_not_locally_runnable'')) fs
      else if \<not> l3_preconditions_pass (ee_world env) fs e workspace then
        entry_runnable env store scope workspace es (push_audit audit (exp_name e @ '':precondition_not_met'')) fs
      else
        (let policy = effective_policy_for store e scope
         in case l3_gate_check env e workspace policy fs of
              (Some reason, fs1) \<Rightarrow>
                entry_runnable env store scope workspace es (push_audit audit (exp_name e @ '':'' @ reason)) fs1
            | (None, fs1) \<Rightarrow>
                (let audit1 = (case l3_policy_blocks policy e of
                                 Some d \<Rightarrow> push_audit audit (exp_name e @ '':'' @ d)
                               | None \<Rightarrow> audit);
                     (es', audit2, fs2) = entry_runnable env store scope workspace es audit1 fs1
                 in (e # es', audit2, fs2))))"

definition execution_reason :: "L3RunReport \<Rightarrow> string option" where
  "execution_reason report =
     (let base = l3_cap (rr_detail report) 160;
          reason = (case rr_backup_root report of
                      Some broot \<Rightarrow> base @ (if base \<noteq> [] then '';'' else []) @ ''backup='' @ l3_cap broot 120
                    | None \<Rightarrow> base)
      in if reason = [] then None else Some reason)"

definition entry_record :: "string \<Rightarrow> string \<Rightarrow> string \<Rightarrow> string \<Rightarrow> string option \<Rightarrow> string \<Rightarrow> nat \<Rightarrow> L1LedgerRecord" where
  "entry_record kind name session_id action reason outcome now =
     \<lparr>lr_record_type = kind, lr_candidate_name = name, lr_session_id = Some session_id, lr_thread_id = None,
      lr_trace_version = None, lr_action = Some action, lr_from = None, lr_to = None, lr_reason = reason,
      lr_outcome = outcome, lr_recorded_at = now\<rparr>"

definition entry_execute :: "Codecs \<Rightarrow> EntryEnv \<Rightarrow> string \<Rightarrow> string option \<Rightarrow> path \<Rightarrow> Experience \<Rightarrow> App \<Rightarrow> L3RunReport \<times> App" where
  "entry_execute cd env session_id scope workspace e app =
     (let (report, fs) = l3_run_workflow (cd_manifest_print cd) env e workspace (effective_policy_for (app_store app) e scope)
                           (Some (app_home app, session_id)) (app_home app) (app_fs app);
          app1 = append_l1_ledger cd
                   (entry_record ''experience_execution'' (exp_name e) session_id ''execute'' (execution_reason report)
                      (rr_outcome report) (ee_now env)) (app\<lparr>app_fs := fs\<rparr>)
      in (report, usage_record_experience cd (exp_name e) (rr_outcome report) (ee_now env) app1))"

definition restore_hint :: "string \<Rightarrow> string \<Rightarrow> string" where
  "restore_hint session_id broot =
     ([CHR 0x0A] @ ''['' @ [CHR 0xE5, CHR 0xA4, CHR 0x8D, CHR 0xE5, CHR 0x8E, CHR 0x9F, CHR 0xE6, CHR 0x9C, CHR
      0xAC, CHR 0xE8, CHR 0xBD, CHR 0xAE, CHR 0xE6, CHR 0x96, CHR 0x87, CHR 0xE4, CHR 0xBB, CHR 0xB6, CHR 0xE6, CHR
      0x94, CHR 0xB9, CHR 0xE5, CHR 0x8A, CHR 0xA8] @ ''] POST /api/backups/'') @ session_id @ (''/restore body {'' @ [CHR 0x22] @ ''snapshot'' @ [CHR 0x22] @ '':'' @ [CHR 0x22]) @ broot @ ([CHR 0x22] @ ''}'')"

definition entry_task :: "string \<Rightarrow> string \<Rightarrow> L3RunReport option \<Rightarrow> string" where
  "entry_task session_id task report =
     (case report of
        None \<Rightarrow> task
      | Some r \<Rightarrow>
          delegation_text task (rr_completed_step_ids r) (rr_verified_state r) @
          (case rr_backup_root r of Some broot \<Rightarrow> restore_hint session_id broot | None \<Rightarrow> []))"

definition delegate_reason :: "L3Executed option \<Rightarrow> string \<Rightarrow> string" where
  "delegate_reason done_first audit =
     (case done_first of
        Some x \<Rightarrow> ''policy_off;executed_first:'' @ lx_name x @ '':'' @ lx_outcome x @ '';'' @ L3_SCOPE_V2
      | None \<Rightarrow> (if audit = [] then L3_REASON_V1 else L3_REASON_V1 @ '';'' @ l3_cap audit 240))"

definition entry_injection :: "EntryEnv \<Rightarrow> App \<Rightarrow> string option \<Rightarrow> Experience list \<Rightarrow> string \<times> string \<times> string" where
  "entry_injection env app scope matched =
     (if injection_policy_setting (ee_vars env) app then
        (let experiences_text = l3_reference_text matched 600;
             entries = references_in_scope (app_store app) scope;
             entries_text = reference_entries_text entries 600;
             joined = (if experiences_text = [] then entries_text
                       else if entries_text = [] then experiences_text
                       else experiences_text @ [CHR 0x0A] @ entries_text);
             text' = redact_text (app_redactor app) joined
         in if text' = [] then (''omitted'', ''no_reference_available'', [])
            else (''injected'', ''policy_on;refs='' @ nat_digits (length entries) @ '';ids='' @ join_str ''|'' (map ref_id (take 3 entries)), text'))
      else (''omitted'', ''policy_off'', []))"

definition reference_heading :: string where
  "reference_heading = [CHR 0x0A, CHR 0x0A] @ ''['' @ [CHR 0xE5, CHR 0x8F, CHR 0x82, CHR 0xE8, CHR 0x80, CHR 0x83, CHR 0xE7, CHR
      0xBB, CHR 0x8F, CHR 0xE9, CHR 0xAA, CHR 0x8C, CHR 0xEF, CHR 0xBC, CHR 0x88, CHR 0xE4, CHR 0xBB, CHR 0x85, CHR
      0xE5, CHR 0x8F, CHR 0x82, CHR 0xE8, CHR 0x80, CHR 0x83, CHR 0xE3, CHR 0x80, CHR 0x81, CHR 0xE5, CHR 0x8F, CHR
      0xAF, CHR 0xE8, CHR 0xB4, CHR 0xA8, CHR 0xE7, CHR 0x96, CHR 0x91, CHR 0xEF, CHR 0xBC, CHR 0x8C, CHR 0xE9, CHR
      0x9D, CHR 0x9E, CHR 0xE6, CHR 0x8C, CHR 0x87, CHR 0xE4, CHR 0xBB, CHR 0xA4, CHR 0xEF, CHR 0xBC, CHR 0x89] @
      '']'' @ [CHR 0x0A]"

definition delegate_summary :: "string \<Rightarrow> string \<Rightarrow> string" where
  "delegate_summary task plan = l3_cap (task @ '' [plan: '' @ plan @ '']'') 200"

definition announce_plan :: "string \<Rightarrow> string \<Rightarrow> string list \<Rightarrow> App \<Rightarrow> App" where
  "announce_plan session_id task names app =
     (case session_get (app_sessions app) session_id of
        None \<Rightarrow> app
      | Some s \<Rightarrow>
          app\<lparr>app_sessions := update_trace session_id
            (se_trace s @ [Delegate ''codex'' (delegate_summary task (join_str ''|'' names)) names]) (app_sessions app)\<rparr>)"

definition l3_entry :: "Codecs \<Rightarrow> EntryEnv \<Rightarrow> string \<Rightarrow> string \<Rightarrow> path \<Rightarrow> App \<Rightarrow> L3EntryContext option \<times> App" where
  "l3_entry cd env session_id task workspace app =
     (let scope = Option.bind (session_get (app_sessions app) session_id) se_scope;
          active = entry_active app scope;
          names = map exp_name active;
          plan = join_str ''|'' names;
          matched = filter (\<lambda>e. l3_task_matches env e task) active;
          (runnable, audit, fs) = entry_runnable env (app_store app) scope workspace matched [] (app_fs app);
          app1 = app\<lparr>app_fs := fs\<rparr>;
          (done_first, report, audit1, app2) =
            (case l3_pick_unique_best runnable of
               Inl conflict \<Rightarrow> (None, None, push_audit audit conflict, app1)
             | Inr e \<Rightarrow>
                 (case entry_execute cd env session_id scope workspace e app1 of
                    (r, app2) \<Rightarrow> (Some \<lparr>lx_name = exp_name e, lx_outcome = rr_outcome r\<rparr>, Some r, audit, app2)));
          (inject_outcome, inject_reason, reference_text) = entry_injection env app2 scope matched;
          delegated = entry_task session_id task report @
            (if reference_text = [] then [] else reference_heading @ reference_text)
      in if names = [] \<and> inject_outcome \<noteq> ''injected'' then (None, app2)
         else
           (let app3 = (if names = [] then app2
                        else append_l1_ledger cd
                               (entry_record ''delegate'' plan session_id ''delegate'' (Some (delegate_reason done_first audit1))
                                  ''delegated'' (ee_now env)) (announce_plan session_id task names app2));
                app4 = append_l1_ledger cd
                         (entry_record ''injection'' plan session_id ''inject'' (Some inject_reason) inject_outcome (ee_now env)) app3
            in (Some \<lparr>lc_plan = plan, lc_delegated_task = delegated, lc_executed = done_first,
                      lc_track_delegation = (names \<noteq> [])\<rparr>, app4)))"


section \<open>How a step can fail\<close>

definition step_outcome :: "StepError \<Rightarrow> bool" where
  "step_outcome err \<longleftrightarrow> se_outcome err = ''invalid'' \<or> se_outcome err = ''execution_error''"

definition fails_well :: "'a step_m \<Rightarrow> bool" where
  "fails_well m \<longleftrightarrow> (\<forall>s err s'. m s = (Inl err, s') \<longrightarrow> step_outcome err)"

named_theorems fails_rules

lemma step_outcomes [simp]: "step_outcome (err_invalid a d)" "step_outcome (err_execution a d)" "step_outcome (denied d)"
  by (simp_all add: step_outcome_def err_invalid_def err_execution_def denied_def)

lemma fails_bind [fails_rules]: "fails_well m \<Longrightarrow> (\<And>x. fails_well (f x)) \<Longrightarrow> fails_well (sm_bind m f)"
  unfolding fails_well_def by (metis sm_bind_cases sum.inject(1))

lemma fails_basic [fails_rules]:
  "fails_well (sm_return x)" "fails_well (sm_get g)" "step_outcome err \<Longrightarrow> fails_well (sm_fail err)"
  "(\<And>e. step_outcome (er e)) \<Longrightarrow> fails_well (sm_io er io)" "fails_well (push_backup b)"
  "(\<And>err. r = Inl err \<Longrightarrow> step_outcome err) \<Longrightarrow> fails_well (sm_lift r)"
  by (auto simp: fails_well_def sm_return_def sm_get_def sm_fail_def sm_io_def push_backup_def sm_lift_def split: sum.splits)

lemma fails_if [fails_rules]: "fails_well m \<Longrightarrow> fails_well n \<Longrightarrow> fails_well (if P then m else n)"
  by simp

lemma fails_case_sum [fails_rules]:
  "(\<And>x. fails_well (f x)) \<Longrightarrow> (\<And>x. fails_well (g x)) \<Longrightarrow> fails_well (case r of Inl x \<Rightarrow> f x | Inr x \<Rightarrow> g x)"
  by (cases r) simp_all

lemma required_str_fails: "required_str step key = Inl err \<Longrightarrow> step_outcome err"
  by (auto simp: required_str_def split: option.splits)

lemma fails_resolve [fails_rules]: "fails_well (resolve c step key)"
  unfolding resolve_def by (auto intro!: fails_rules dest: required_str_fails split: sum.split)

lemma fails_ensure_backup [fails_rules]: "fails_well (ensure_backup c step target)"
  unfolding ensure_backup_def copy_to_backup_def Let_def by (auto intro!: fails_rules split: option.split)

lemma fails_create_parents [fails_rules]: "fails_well (create_parents step target)"
  unfolding create_parents_def by (auto intro!: fails_rules split: option.split)

lemma fails_record_created_dir [fails_rules]: "fails_well (record_created_dir c target)"
  unfolding record_created_dir_def Let_def by (auto intro!: fails_rules split: option.split)

lemma string_args_fails: "string_args step = Inl err \<Longrightarrow> step_outcome err"
proof -
  have "try_map f vs = Inl err \<Longrightarrow> (\<And>v e. f v = Inl e \<Longrightarrow> step_outcome e) \<Longrightarrow> step_outcome err" for f :: "json \<Rightarrow> StepError + string" and vs
    by (induction vs) (auto split: sum.splits)
  then show "string_args step = Inl err \<Longrightarrow> step_outcome err"
    by (fastforce simp: string_args_def split: option.splits)
qed

lemma command_shape_fails: "command_shape h fs c step legacy = Inl err \<Longrightarrow> step_outcome err"
  by (auto simp: command_shape_def dest: required_str_fails string_args_fails split: if_splits sum.splits option.splits)

lemma resolve_program_fails: "resolve_program fs c step p = Inl err \<Longrightarrow> step_outcome err"
  by (auto simp: resolve_program_def Let_def split: if_splits sum.splits option.splits)

lemma fails_collect_output [fails_rules]: "fails_well (collect_output h c step program args d env)"
proof (cases "scratch c = None")
  case True
  show ?thesis
    unfolding fails_well_def collect_output_def
    by (auto simp: True Let_def sm_bind_def dest: resolve_program_fails split: sum.splits spawn_result.splits prod.splits)
qed (auto simp: collect_output_def intro: fails_rules)

lemma fails_exec_program: "fails_well (exec_program h c step legacy)"
proof -
  have "fails_well (\<lambda>s. (command_shape h (st_fs s) c step legacy, s))"
    by (auto simp: fails_well_def dest: command_shape_fails)
  then show ?thesis
    unfolding exec_program_def Let_def by (auto intro!: fails_rules split: option.split)
qed

lemma fails_require_source [fails_rules]: "fails_well (require_source step source)"
  unfolding require_source_def by (auto intro!: fails_rules)

lemma fails_write_file: "fails_well (write_file c step app)"
  unfolding write_file_def Let_def by (intro fails_rules step_outcomes required_str_fails)

lemma fails_copy_move:
  "fails_well (mkdir c step)" "fails_well (copy_file c step)" "fails_well (move_file c step)" "fails_well (delete_file c step)"
  unfolding mkdir_def copy_file_def move_file_def delete_file_def Let_def
  by (intro fails_rules step_outcomes)+

lemma fails_read_file: "fails_well (read_file c step)"
  unfolding read_file_def Let_def by (intro fails_rules step_outcomes)

lemma fails_execute_step: "fails_well (execute_step h c step)"
  unfolding execute_step_def
  by (intro fails_rules step_outcomes fails_exec_program fails_write_file fails_copy_move fails_read_file)

lemma execute_step_outcome: "execute_step h c step s = (Inl err, s') \<Longrightarrow> step_outcome err"
  using fails_execute_step [of h c step] unfolding fails_well_def by blast

section \<open>The verdict of a run\<close>

lemma run_steps_progress:
  "run_steps h c i steps rp s = (rp', s') \<Longrightarrow> rp_failure rp = None \<Longrightarrow>
   (rp_failure rp' = None \<and> length (rp_completed rp') = length (rp_completed rp) + length steps) \<or>
   (\<exists>oc d. rp_failure rp' = Some (oc, d) \<and> (oc = ''invalid'' \<or> oc = ''execution_error'') \<and>
      length (rp_completed rp') < length (rp_completed rp) + length steps)"
proof (induction steps arbitrary: i rp s)
  case (Cons step steps)
  obtain r s1 where x: "execute_step h c step s = (r, s1)" by fastforce
  show ?case
  proof (cases r)
    case (Inl err)
    with Cons.prems x execute_step_outcome [of h c step s err s1] show ?thesis by (auto simp: step_outcome_def)
  next
    case (Inr y)
    let ?rp = "rp\<lparr>rp_completed := rp_completed rp @ [step_action step @ ''#'' @ nat_digits i],
        rp_results := bt_insert (step_action step @ ''#'' @ nat_digits i) \<lparr>pe_exit_code = sx_exit_code y, pe_stdout = sx_stdout y\<rparr> (rp_results rp),
        rp_notes := rp_notes rp @ output_notes i y\<rparr>"
    from Cons.prems(1) x Inr have "run_steps h c (Suc i) steps ?rp s1 = (rp', s')" by (simp add: Let_def)
    from Cons.IH [OF this] Cons.prems(2) show ?thesis by auto
  qed
qed simp

lemma verified_all_iff:
  "length (l3_verified_state w fs e ws results) = length (exp_postconditions e) \<longleftrightarrow>
   (\<forall>p \<in> set (exp_postconditions e). l3_predicate_truth w fs (pred_key p) (pred_expected p) ws results = TV_True)"
proof -
  have "length (filter P xs) = length xs \<longleftrightarrow> (\<forall>x \<in> set xs. P x)" for P :: "Predicate \<Rightarrow> bool" and xs
    by (metis filter_id_conv length_filter_less less_irrefl)
  then show ?thesis by (simp add: l3_verified_state_def)
qed

text \<open>The run of the steps inside \<open>l3_run_workflow\<close>, and whether a postcondition is observed to hold after it.\<close>

definition run_of :: "EntryEnv \<Rightarrow> Experience \<Rightarrow> path \<Rightarrow> CapabilityPolicy \<Rightarrow> (path \<times> string) option \<Rightarrow> path \<Rightarrow> fsys \<Rightarrow> run_progress \<times> exec_state" where
  "run_of env e ws policy backup home fs =
     (let broot = map_option (\<lambda>(h, i). run_backup_root h i (ee_now env)) backup
      in run_steps (ee_host env) (run_context fs ws policy broot home) 0 (exp_workflow e) start_progress
           \<lparr>st_fs = fs, st_backups = map_option (\<lambda>_. []) broot\<rparr>)"

definition observed_after :: "EntryEnv \<Rightarrow> path \<Rightarrow> run_progress \<times> exec_state \<Rightarrow> Predicate \<Rightarrow> bool" where
  "observed_after env ws run p \<longleftrightarrow>
     l3_predicate_truth (ee_world env) (st_fs (snd run)) (pred_key p) (pred_expected p) ws (rp_results (fst run)) = TV_True"

lemma l3_run_workflow_outcome:
  "rr_outcome (fst (l3_run_workflow print env e ws policy backup home fs)) =
     (case run_of env e ws policy backup home fs of (rp, s) \<Rightarrow> fst (run_verdict (ee_world env) (st_fs s) e ws rp))"
  unfolding l3_run_workflow_def run_of_def Let_def by (simp split: prod.split)

lemma observed_after_observable: "observed_after env ws run p \<Longrightarrow> observable (pred_key p)"
  by (auto simp: observed_after_def l3_predicate_truth_def split: if_splits)

text \<open>The outcome of an automatic run is evidence. It is \<open>success\<close> if and only if every step of the workflow
  completed and every postcondition has a registered source and was then observed to hold; it is
  \<open>misfire\<close> if and only if every step completed and some postcondition was not observed to hold; in every
  other case a step failed and the outcome is \<open>invalid\<close> or \<open>execution_error\<close>. So each outcome is one
  that the usage record knows.\<close>

theorem run_outcome_exact:
  fixes print env e ws policy backup home fs
  defines "oc \<equiv> rr_outcome (fst (l3_run_workflow print env e ws policy backup home fs))"
    and "run \<equiv> run_of env e ws policy backup home fs"
  shows "(oc = ''success'' \<longleftrightarrow> length (rp_completed (fst run)) = length (exp_workflow e) \<and>
      (\<forall>p \<in> set (exp_postconditions e). observable (pred_key p) \<and> observed_after env ws run p)) \<and>
    (oc = ''misfire'' \<longleftrightarrow> length (rp_completed (fst run)) = length (exp_workflow e) \<and>
      (\<exists>p \<in> set (exp_postconditions e). \<not> observed_after env ws run p)) \<and>
    oc \<in> {''success'', ''misfire'', ''invalid'', ''execution_error''} \<and> outcome_to_experience_outcome oc \<noteq> None"
proof -
  obtain rp s where run: "run_of env e ws policy backup home fs = (rp, s)" by fastforce
  then have steps: "\<exists>c i s0. run_steps (ee_host env) c i (exp_workflow e) start_progress s0 = (rp, s)"
    unfolding run_of_def Let_def by blast
  have out: "oc = fst (run_verdict (ee_world env) (st_fs s) e ws rp)" by (simp add: oc_def l3_run_workflow_outcome run)
  have hold: "length (l3_verified_state (ee_world env) (st_fs s) e ws (rp_results rp)) = length (exp_postconditions e) \<longleftrightarrow>
      (\<forall>p \<in> set (exp_postconditions e). observable (pred_key p) \<and> observed_after env ws (rp, s) p)"
    using observed_after_observable [of env ws "(rp, s)"] by (auto simp: verified_all_iff observed_after_def)
  consider "rp_failure rp = None" "length (rp_completed rp) = length (exp_workflow e)"
    | oc' d where "rp_failure rp = Some (oc', d)" "oc' = ''invalid'' \<or> oc' = ''execution_error''"
      "length (rp_completed rp) \<noteq> length (exp_workflow e)"
    using steps by (auto simp: start_progress_def dest!: run_steps_progress)
  then show ?thesis
  proof cases
    case 1
    then show ?thesis
      using hold observed_after_observable [of env ws "(rp, s)"]
      unfolding run_def run out run_verdict_def by (auto simp: outcome_to_experience_outcome_def)
  next
    case 2
    then show ?thesis unfolding run_def run out run_verdict_def by (auto simp: outcome_to_experience_outcome_def)
  qed
qed


section \<open>Dry runs leave no trace\<close>

definition fresh_scratch :: "path \<Rightarrow> fsys \<Rightarrow> bool" where
  "fresh_scratch tmp fs \<longleftrightarrow> link_free fs \<and> list_all clean_comp tmp \<and> tmp \<noteq> [] \<and> base_dirs fs (butlast tmp) \<and>
     (\<forall>q. prefix tmp q \<longrightarrow> node_at fs q = None)"

definition same_nodes :: "fsys \<Rightarrow> fsys \<Rightarrow> bool" where
  "same_nodes fs fs' \<longleftrightarrow> link_free fs' \<and> (\<forall>q. node_at fs' q = node_at fs q)"

lemma same_nodes_trans: "same_nodes fs fs1 \<Longrightarrow> same_nodes fs1 fs2 \<Longrightarrow> same_nodes fs fs2"
  by (simp add: same_nodes_def)

lemma fresh_same: "fresh_scratch tmp fs \<Longrightarrow> same_nodes fs fs' \<Longrightarrow> fresh_scratch tmp fs'"
  by (simp add: fresh_scratch_def same_nodes_def base_dirs_def)

lemma dry_steps_confined:
  "plain_context c \<Longrightarrow> confined c fs0 s \<Longrightarrow> dry_steps h c steps s = (r, s') \<Longrightarrow> confined c fs0 s'"
proof (induction steps arbitrary: s)
  case (Cons step steps)
  show ?case
  proof (cases "isl (policy_check (ctx_policy c) (step_action step)) \<or> step_action step = ''exec'' \<or> step_action step = ''exec_command''")
    case True
    with Cons.prems have "dry_steps h c steps s = (r, s')" by simp
    then show ?thesis by (rule Cons.IH [OF Cons.prems(1,2)])
  next
    case False
    obtain t s1 where x: "execute_step h c step s = (t, s1)" by fastforce
    have c1: "confined c fs0 s1"
      using execute_file_step_confined [OF Cons.prems(1), of step fs0 h] False Cons.prems(2) x by (blast dest: sm_okD)
    show ?thesis
    proof (cases t)
      case (Inl err)
      with Cons.prems(3) False x c1 show ?thesis by simp
    next
      case (Inr y)
      with Cons.prems(3) False x have "dry_steps h c steps s1 = (r, s')" by simp
      then show ?thesis by (rule Cons.IH [OF Cons.prems(1) c1])
    qed
  qed
qed simp

lemma fresh_create:
  assumes "fresh_scratch tmp fs" and "fs_create_dir_all fs tmp = Inr fs1"
  shows "link_free fs1" "base_dirs fs1 tmp" "\<And>q. q \<noteq> tmp \<Longrightarrow> node_at fs1 q = node_at fs q"
proof -
  have f: "link_free fs" "''..'' \<notin> set tmp" "tmp \<noteq> []" "base_dirs fs (butlast tmp)"
    using assms(1) by (auto simp: fresh_scratch_def dest: clean_no_dots)
  have one: "link_free fs1 \<and> (tmp \<noteq> [] \<longrightarrow> node_at fs1 ([] @ tmp) = Some DirNode) \<and>
      (\<forall>q. node_at fs1 q \<noteq> node_at fs q \<longrightarrow> prefix q ([] @ tmp) \<and> node_at fs q = None)"
    by (rule mkdirs_link_free) (use f assms(2) in \<open>auto simp: fs_create_dir_all_def\<close>)
  then show "link_free fs1" by simp
  have cases: "prefix q (butlast tmp)" if "prefix q tmp" "q \<noteq> tmp" for q
    using that f(3) by (metis append_butlast_last_id prefix_snoc)
  show same: "node_at fs1 q = node_at fs q" if "q \<noteq> tmp" for q
    using one cases [of q] that f(4) by (force simp: base_dirs_def)
  show "base_dirs fs1 tmp" unfolding base_dirs_def
  proof (intro allI impI)
    fix q assume "prefix q tmp"
    then show "node_at fs1 q = Some DirNode"
      using one same cases [of q] f(3,4) by (cases "q = tmp") (auto simp: base_dirs_def)
  qed
qed

lemma scratch_context [simp]:
  "fs_base (with_scratch tmp c) = tmp" "backup_root (with_scratch tmp (StepContext_new fs ws policy)) = None"
  by (simp_all add: fs_base_def with_scratch_def StepContext_new_def)

lemma gate_check_same:
  assumes fr: "fresh_scratch (ee_scratch env) fs" and g: "l3_gate_check env e ws policy fs = (r, fs')"
  shows "same_nodes fs fs'"
proof (cases "fs' = fs")
  case False
  let ?tmp = "ee_scratch env"
  from False g obtain fs1 where mk: "fs_create_dir_all fs ?tmp = Inr fs1"
    by (auto simp: l3_gate_check_def split: option.splits sum.splits)
  let ?c = "with_scratch ?tmp (StepContext_new fs1 ws policy)"
  obtain f s where d: "dry_steps (ee_host env) ?c (exp_workflow e) \<lparr>st_fs = fs1, st_backups = None\<rparr> = (f, s)" by fastforce
  note new = fresh_create [OF fr mk]
  have "plain_context ?c" using fr by (simp add: plain_context_def fresh_scratch_def)
  moreover have "confined ?c fs1 \<lparr>st_fs = fs1, st_backups = None\<rparr>" using new by (simp add: confined_def)
  ultimately have c: "confined ?c fs1 s" by (rule dry_steps_confined [OF _ _ d])
  have dots: "''..'' \<notin> set ?tmp" using fr by (auto simp: fresh_scratch_def dest: clean_no_dots)
  have "node_at (st_fs s) ?tmp = Some DirNode" using c by (simp add: confined_def base_dirs_def)
  then have rm: "fs_remove_dir_all (st_fs s) ?tmp = Inr (drop_below ?tmp (st_fs s))"
    using c dots by (simp add: fs_remove_dir_all_def confined_def locate_link_free)
  from False g mk d rm have fs': "fs' = drop_below ?tmp (st_fs s)"
    by (auto simp: l3_gate_check_def split: option.splits)
  have "node_at fs' q = node_at fs q" for q
  proof (cases "prefix ?tmp q")
    case True
    with fr show ?thesis by (simp add: fs' fresh_scratch_def)
  next
    case False
    then have "node_at (st_fs s) q = node_at fs1 q" using c by (simp add: confined_def region_def)
    moreover have "q \<noteq> ?tmp" using False by auto
    ultimately show ?thesis using False new(3) by (simp add: fs')
  qed
  moreover have "link_free fs'" using c by (auto simp: fs' confined_def link_free_iff drop_below_def)
  ultimately show ?thesis by (simp add: same_nodes_def)
qed (use fr in \<open>simp add: same_nodes_def fresh_scratch_def\<close>)

text \<open>What lets a candidate run: a workflow the executor knows, preconditions that registered sources show to hold,
  and a dry run without failure, all on a file system with the nodes of \<open>fs\<close>.\<close>

definition cleared :: "EntryEnv \<Rightarrow> ExperienceStore \<Rightarrow> string option \<Rightarrow> path \<Rightarrow> fsys \<Rightarrow> Experience \<Rightarrow> bool" where
  "cleared env store scope ws fs e \<longleftrightarrow> l3_locally_runnable e \<and>
     (\<exists>fs0. same_nodes fs fs0 \<and> l3_preconditions_pass (ee_world env) fs0 e ws \<and>
        fst (l3_gate_check env e ws (effective_policy_for store e scope) fs0) = None)"

lemma cleared_same: "same_nodes fs fs1 \<Longrightarrow> cleared env store scope ws fs1 e \<Longrightarrow> cleared env store scope ws fs e"
  unfolding cleared_def by (blast intro: same_nodes_trans)

lemma entry_runnable_spec:
  "fresh_scratch (ee_scratch env) fs \<Longrightarrow> entry_runnable env store scope ws es audit fs = (r, audit', fs') \<Longrightarrow>
   same_nodes fs fs' \<and> (\<forall>e \<in> set r. e \<in> set es \<and> cleared env store scope ws fs e)"
proof (induction es arbitrary: audit fs r)
  case Nil
  then show ?case by (auto simp: same_nodes_def fresh_scratch_def)
next
  case (Cons e es)
  show ?case
  proof (cases "l3_locally_runnable e \<and> l3_preconditions_pass (ee_world env) fs e ws")
    case False
    with Cons.prems(2) obtain a where "entry_runnable env store scope ws es a fs = (r, audit', fs')" by (auto split: if_splits)
    with Cons.IH [OF Cons.prems(1)] show ?thesis by auto
  next
    case True
    obtain g fs1 where gate: "l3_gate_check env e ws (effective_policy_for store e scope) fs = (g, fs1)" by fastforce
    have same: "same_nodes fs fs1" by (rule gate_check_same [OF Cons.prems(1) gate])
    have fresh: "fresh_scratch (ee_scratch env) fs1" by (rule fresh_same [OF Cons.prems(1) same])
    obtain a r' where rest: "entry_runnable env store scope ws es a fs1 = (r', audit', fs')"
      and r: "r = r' \<or> (r = e # r' \<and> g = None)"
      using Cons.prems(2) True gate by (cases g) (auto simp: Let_def split: prod.splits option.splits)
    from Cons.IH [OF fresh rest] have ih: "same_nodes fs1 fs'" "\<forall>x \<in> set r'. x \<in> set es \<and> cleared env store scope ws fs1 x" by auto
    have "cleared env store scope ws fs e" if "g = None"
      using True gate that Cons.prems(1) unfolding cleared_def
      by (intro conjI exI [of _ fs]) (auto simp: same_nodes_def fresh_scratch_def)
    with ih r same show ?thesis by (auto intro: same_nodes_trans cleared_same)
  qed
qed


section \<open>Which experience runs\<close>

definition entry_scope :: "App \<Rightarrow> string \<Rightarrow> string option" where
  "entry_scope app i = Option.bind (session_get (app_sessions app) i) se_scope"

text \<open>The candidates of a task, and what the loop over them gives.\<close>

definition entry_matched :: "EntryEnv \<Rightarrow> App \<Rightarrow> string \<Rightarrow> string \<Rightarrow> Experience list" where
  "entry_matched env app i task = filter (\<lambda>e. l3_task_matches env e task) (entry_active app (entry_scope app i))"

definition entry_loop :: "EntryEnv \<Rightarrow> App \<Rightarrow> string \<Rightarrow> string \<Rightarrow> path \<Rightarrow> Experience list \<times> string \<times> fsys" where
  "entry_loop env app i task ws =
     entry_runnable env (app_store app) (entry_scope app i) ws (entry_matched env app i task) [] (app_fs app)"

text \<open>The state after the run, if there is one: only then does anything but the ledger change.\<close>

definition entry_ran :: "Codecs \<Rightarrow> EntryEnv \<Rightarrow> string \<Rightarrow> path \<Rightarrow> App \<Rightarrow> Experience list \<times> string \<times> fsys
    \<Rightarrow> (Experience \<times> L3RunReport) option \<times> App" where
  "entry_ran cd env i ws app lp =
     (case lp of (r, _, fs) \<Rightarrow>
        (case l3_pick_unique_best r of
           Inl _ \<Rightarrow> (None, app\<lparr>app_fs := fs\<rparr>)
         | Inr e \<Rightarrow>
             (case entry_execute cd env i (entry_scope app i) ws e (app\<lparr>app_fs := fs\<rparr>) of
                (report, app2) \<Rightarrow> (Some (e, report), app2))))"

lemma l3_entry_unfold:
  fixes cd env i task ws app
  defines "x \<equiv> entry_ran cd env i ws app (entry_loop env app i task ws)"
    and "names \<equiv> map exp_name (entry_active app (entry_scope app i))"
  obtains (pure) "l3_entry cd env i task ws app = (None, snd x)" "names = []"
  | (delegated) ctx ap xs where "l3_entry cd env i task ws app = (Some ctx, fold (append_l1_ledger cd) xs ap)"
      "app_fs ap = app_fs (snd x)" "app_store ap = app_store (snd x)" "app_home ap = app_home (snd x)"
      "lc_executed ctx = map_option (\<lambda>(e, report). \<lparr>lx_name = exp_name e, lx_outcome = rr_outcome report\<rparr>) (fst x)"
      "prefix (entry_task i task (map_option snd (fst x))) (lc_delegated_task ctx)"
      "\<not> injection_policy_setting (ee_vars env) (snd x) \<Longrightarrow> lc_delegated_task ctx = entry_task i task (map_option snd (fst x))"
proof -
  obtain r a fs where lp: "entry_loop env app i task ws = (r, a, fs)" by (metis prod_cases3)
  obtain ran ap2 where x: "x = (ran, ap2)" by fastforce
  obtain io ir rt where inj: "entry_injection env ap2 (entry_scope app i) (entry_matched env app i task) = (io, ir, rt)" by (metis prod_cases3)
  let ?names = "map exp_name (entry_active app (entry_scope app i))"
  let ?ex = "map_option (\<lambda>(e, report). \<lparr>lx_name = exp_name e, lx_outcome = rr_outcome report\<rparr>) ran"
  let ?dt = "entry_task i task (map_option snd ran) @ (if rt = [] then [] else reference_heading @ rt)"
  obtain a1 where e: "l3_entry cd env i task ws app =
      (if ?names = [] \<and> io \<noteq> ''injected'' then (None, ap2)
       else (Some \<lparr>lc_plan = join_str ''|'' ?names, lc_delegated_task = ?dt, lc_executed = ?ex, lc_track_delegation = (?names \<noteq> [])\<rparr>,
          append_l1_ledger cd (entry_record ''injection'' (join_str ''|'' ?names) i ''inject'' (Some ir) io (ee_now env))
            (if ?names = [] then ap2
             else append_l1_ledger cd (entry_record ''delegate'' (join_str ''|'' ?names) i ''delegate'' (Some (delegate_reason ?ex a1)) ''delegated'' (ee_now env))
                    (announce_plan i task ?names ap2))))"
  proof (cases "l3_pick_unique_best r")
    case (Inl c)
    have "x = (None, app\<lparr>app_fs := fs\<rparr>)" unfolding x_def entry_ran_def lp by (simp add: Inl)
    with x have k: "ran = None" "ap2 = app\<lparr>app_fs := fs\<rparr>" by simp_all
    show thesis
      by (rule that [of "push_audit a c"], unfold l3_entry_def Let_def entry_scope_def [symmetric] entry_matched_def [symmetric]
          entry_loop_def [symmetric] lp prod.case Inl sum.case inj [unfolded k] k option.map) (rule refl)
  next
    case (Inr ex)
    obtain rep ap' where ee: "entry_execute cd env i (entry_scope app i) ws ex (app\<lparr>app_fs := fs\<rparr>) = (rep, ap')" by fastforce
    have "x = (Some (ex, rep), ap')" unfolding x_def entry_ran_def lp by (simp add: Inr ee)
    with x have k: "ran = Some (ex, rep)" "ap2 = ap'" by simp_all
    show thesis
      by (rule that [of a], unfold l3_entry_def Let_def entry_scope_def [symmetric] entry_matched_def [symmetric]
          entry_loop_def [symmetric] lp prod.case Inr sum.case ee inj [unfolded k] k option.map snd_conv) (rule refl)
  qed
  show thesis
  proof (cases "?names = [] \<and> io \<noteq> ''injected''")
    case True
    with e x show thesis using pure by (simp add: names_def)
  next
    case False
    have ann: "app_fs (announce_plan i task ?names ap2) = app_fs ap2" "app_store (announce_plan i task ?names ap2) = app_store ap2"
      "app_home (announce_plan i task ?names ap2) = app_home ap2"
      by (auto simp: announce_plan_def split: option.split)
    define ap where "ap = (if ?names = [] then ap2 else announce_plan i task ?names ap2)"
    define xs where "xs = (if ?names = [] then [] else [entry_record ''delegate'' (join_str ''|'' ?names) i ''delegate'' (Some (delegate_reason ?ex a1)) ''delegated'' (ee_now env)])
        @ [entry_record ''injection'' (join_str ''|'' ?names) i ''inject'' (Some ir) io (ee_now env)]"
    have "l3_entry cd env i task ws app =
        (Some \<lparr>lc_plan = join_str ''|'' ?names, lc_delegated_task = ?dt, lc_executed = ?ex, lc_track_delegation = (?names \<noteq> [])\<rparr>,
         fold (append_l1_ledger cd) xs ap)"
      using False unfolding e ap_def xs_def by auto
    moreover have "rt = []" if "\<not> injection_policy_setting (ee_vars env) ap2"
      using inj that by (simp add: entry_injection_def)
    ultimately show thesis using delegated [of _ xs ap] ann x by (auto simp: ap_def)
  qed
qed

lemma pick_unique_best_spec:
  assumes "l3_pick_unique_best r = Inr e"
  shows "e \<in> set r \<and> (\<forall>x \<in> set r. length (exp_workflow x) \<le> length (exp_workflow e)) \<and>
    filter (\<lambda>x. length (exp_workflow x) = length (exp_workflow e)) r = [e]"
proof -
  let ?m = "Max (set (map (\<lambda>e. length (exp_workflow e)) r))"
  from assms have f: "filter (\<lambda>x. length (exp_workflow x) = ?m) r = [e]"
    by (auto simp: l3_pick_unique_best_def Let_def split: if_splits list.splits)
  then have "e \<in> set (filter (\<lambda>x. length (exp_workflow x) = ?m) r)" by simp
  then have e: "e \<in> set r" "length (exp_workflow e) = ?m" by simp_all
  have "length (exp_workflow x) \<le> ?m" if "x \<in> set r" for x using that by (intro Max_ge) auto
  with e f show ?thesis by auto
qed



lemma usage_record_other [simp]:
  "app_settings (usage_record_experience cd n oc now app) = app_settings app"
  "app_home (usage_record_experience cd n oc now app) = app_home app"
  by (auto simp: usage_record_experience_def maybe_auto_decay_def Let_def split: option.split sum.split prod.split)

lemma entry_ran_other:
  "app_settings (snd (entry_ran cd env i ws app lp)) = app_settings app"
  "app_home (snd (entry_ran cd env i ws app lp)) = app_home app"
  by (auto simp: entry_ran_def entry_execute_def Let_def split: sum.split prod.split)

text \<open>The original task always reaches the agent. Whatever ran before, the delegated text begins with the task as
  it was given; when nothing ran and no references are injected, it is exactly the task.\<close>

theorem original_task_delegated:
  assumes "l3_entry cd env i task ws app = (Some ctx, app')"
  shows "prefix task (lc_delegated_task ctx) \<and>
    (lc_executed ctx = None \<and> \<not> injection_policy_setting (ee_vars env) app \<longrightarrow> lc_delegated_task ctx = task)"
proof -
  let ?x = "entry_ran cd env i ws app (entry_loop env app i task ws)"
  have p: "prefix task (entry_task i task r)" for r
    by (cases r) (auto simp: entry_task_def delegation_text_def)
  have inj: "injection_policy_setting (ee_vars env) (snd ?x) = injection_policy_setting (ee_vars env) app"
    unfolding injection_policy_setting_def entry_ran_other ..
  obtain "prefix (entry_task i task (map_option snd (fst ?x))) (lc_delegated_task ctx)"
      "\<not> injection_policy_setting (ee_vars env) app \<Longrightarrow> lc_delegated_task ctx = entry_task i task (map_option snd (fst ?x))"
      "lc_executed ctx = None \<Longrightarrow> fst ?x = None"
    using assms by (cases rule: l3_entry_unfold [of cd env i task ws app]) (auto simp: inj)
  moreover have "entry_task i task None = task" by (simp add: entry_task_def)
  ultimately show ?thesis using p [of "map_option snd (fst ?x)"] by (auto intro: prefix_order.trans)
qed


section \<open>Containment\<close>

lemma home_files: "clean_comp ''learning-l1.json''" "clean_comp ''usage.json''" "clean_comp ''store.json''" "clean_comp ''backups''"
  by code_simp+

lemma kept_try_write:
  assumes "link_free (app_fs app)" "''..'' \<notin> set p" "R p"
  shows "kept R (app_fs app) (app_fs (try_write p raw app))"
  using assms by (auto simp: try_write_def kept_refl intro: kept_write split: option.split sum.split)

text \<open>A server whose home directory has a plain name, on a tree without links.\<close>

definition plain_home :: "App \<Rightarrow> bool" where
  "plain_home app \<longleftrightarrow> link_free (app_fs app) \<and> list_all clean_comp (app_home app)"

lemma plain_home_step: "plain_home app \<Longrightarrow> kept R (app_fs app) (app_fs app') \<Longrightarrow> app_home app' = app_home app \<Longrightarrow> plain_home app'"
  by (simp add: plain_home_def kept_def)

lemma home_file:
  assumes "plain_home app" "clean_comp n"
  shows "path_join (app_home app) n = app_home app @ [n]" "''..'' \<notin> set (app_home app @ [n])" "around (app_home app) (app_home app @ [n])"
  using assms clean_no_dots [of "app_home app"] by (auto simp: path_join_clean plain_home_def clean_comp_def around_def)

lemma temp_path_file: "temp_path_for (d @ [n]) = d @ [''.'' @ n @ ''.tmp'']"
  by (simp add: temp_path_for_def)

lemma kept_persist:
  assumes "plain_home app"
    and R: "\<And>q. prefix q (app_home app) \<Longrightarrow> R q" "\<And>n q. n \<in> {''store.json'', ''.store.json.tmp''} \<Longrightarrow> prefix (app_home app @ [n]) q \<Longrightarrow> R q"
  shows "kept R (app_fs app) (app_fs (persist cd app))"
proof -
  let ?h = "app_home app" and ?fs = "app_fs app"
  have lf: "link_free ?fs" using assms by (simp add: plain_home_def)
  have h: "''..'' \<notin> set ?h" using assms by (auto simp: plain_home_def dest: clean_no_dots)
  note f = home_file [OF assms(1) home_files(3)]
  show ?thesis
  proof (cases "fs_create_dir_all ?fs ?h")
    case (Inl e)
    then show ?thesis using lf by (simp add: persist_def save_to_path_def f(1) path_parent_def Let_def kept_refl)
  next
    case (Inr fs1)
    have k: "kept R ?fs fs1" by (rule kept_create_dir_all [OF lf h R(1) Inr])
    have "kept R fs1 (fst (atomic_write fs1 (?h @ [''store.json'']) (cd_store_print cd (to_file (app_store app)))))"
      by (rule kept_atomic_write [OF kept_link_free [OF k] f(2)]) (use h in \<open>auto simp: temp_path_file intro: R(2)\<close>)
    with k Inr show ?thesis by (auto simp: persist_def save_to_path_def f(1) path_parent_def Let_def intro: kept_trans)
  qed
qed

lemma kept_append_at:
  assumes "plain_home app" and "R (app_home app @ [''learning-l1.json''])"
  shows "kept R (app_fs app) (app_fs (append_l1_ledger cd x app))"
  unfolding append_l1_ledger_def Let_def ledger_path_def home_file(1) [OF assms(1) home_files(1)]
  by (rule kept_try_write) (use assms home_file [OF assms(1) home_files(1)] in \<open>auto simp: plain_home_def\<close>)

lemma kept_append:
  assumes "plain_home app"
  shows "kept (around (app_home app)) (app_fs app) (app_fs (append_l1_ledger cd x app))"
  by (rule kept_append_at [OF assms]) (simp add: around_def)

lemma kept_usage_record:
  assumes "plain_home app"
  shows "kept (around (app_home app)) (app_fs app) (app_fs (usage_record_experience cd n oc now app))"
proof (cases "outcome_to_experience_outcome oc")
  case None
  with assms show ?thesis by (simp add: usage_record_experience_def kept_refl plain_home_def)
next
  case (Some o')
  define c where "c = usage_update now o' (usage_entry (load_usage_unlocked cd app) n)"
  define ap1 where "ap1 = save_usage_unlocked cd ((load_usage_unlocked cd app)\<lparr>uf_entries := bt_insert n c (uf_entries (load_usage_unlocked cd app))\<rparr>) app"
  have u: "usage_record_experience cd n oc now app = maybe_auto_decay cd n (score c) now ap1"
    unfolding usage_record_experience_def Some Let_def c_def ap1_def by simp
  have k1: "kept (around (app_home app)) (app_fs app) (app_fs ap1)"
    unfolding ap1_def save_usage_unlocked_def usage_path_def home_file(1) [OF assms home_files(2)]
    by (rule kept_try_write) (use assms home_file [OF assms home_files(2)] in \<open>auto simp: plain_home_def\<close>)
  have h1: "app_home ap1 = app_home app" by (simp add: ap1_def)
  have p1: "plain_home ap1" by (rule plain_home_step [OF assms k1 h1])
  have "kept (around (app_home ap1)) (app_fs ap1) (app_fs (maybe_auto_decay cd n (score c) now ap1))"
  proof -
    have dec: "kept (around (app_home ap1)) (app_fs ap1) (app_fs (append_l1_ledger cd x (persist cd (ap1\<lparr>app_store := st\<rparr>))))" for x st
    proof -
      let ?a = "ap1\<lparr>app_store := st\<rparr>"
      have pa: "plain_home ?a" using p1 by (simp add: plain_home_def)
      have a: "kept (around (app_home ap1)) (app_fs ap1) (app_fs (persist cd ?a))" 
        using kept_persist [OF pa, of "around (app_home ap1)" cd] by (auto simp: around_def dest: append_prefixD)
      have pb: "plain_home (persist cd ?a)" by (rule plain_home_step [OF p1 a]) simp
      show ?thesis using kept_append [OF pb, of cd x] a by (auto intro: kept_trans)
    qed
    then show ?thesis
      using p1 by (auto simp: maybe_auto_decay_def kept_refl plain_home_def split: option.split sum.split prod.split)
  qed
  with k1 h1 show ?thesis unfolding u by (auto intro: kept_trans)
qed


lemma nat_digits_chars: "set (nat_digits n) \<subseteq> {c. is_ascii_digit c}"
proof (induction n rule: nat_digits.induct)
  case (1 n)
  have d: "is_ascii_digit (digit_char k)" if "k < 10" for k
    using that by (simp add: digit_char_def is_ascii_digit_def byte_of_def)
  from 1 show ?case by (subst nat_digits.simps) (auto intro: d)
qed

lemma clean_run_dir: "clean_comp (''run-'' @ nat_digits n)"
  using nat_digits_chars [of n] by (auto simp: clean_comp_def is_ascii_digit_def byte_of_def)


text \<open>No program step of the workflow is allowed to start.\<close>

definition no_programs :: "CapabilityPolicy \<Rightarrow> Experience \<Rightarrow> bool" where
  "no_programs policy e \<longleftrightarrow>
     (\<forall>step \<in> set (exp_workflow e). step_action step = ''exec'' \<or> step_action step = ''exec_command'' \<longrightarrow>
        isl (policy_check policy (step_action step)))"

lemma run_steps_confined:
  "plain_context c \<Longrightarrow> confined c fs0 s \<Longrightarrow>
   (\<And>step. step \<in> set steps \<Longrightarrow> step_action step = ''exec'' \<or> step_action step = ''exec_command'' \<Longrightarrow>
      isl (policy_check (ctx_policy c) (step_action step))) \<Longrightarrow>
   run_steps h c i steps rp s = (rp', s') \<Longrightarrow> confined c fs0 s'"
proof (induction steps arbitrary: i rp s)
  case (Cons step steps)
  obtain t s1 where x: "execute_step h c step s = (t, s1)" by fastforce
  have c1: "confined c fs0 s1"
  proof (cases "isl (policy_check (ctx_policy c) (step_action step))")
    case True
    then have "s1 = s" using x by (auto simp: execute_step_def sm_fail_def isl_def)
    then show ?thesis using Cons.prems(2) by simp
  next
    case False
    then have "step_action step \<noteq> ''exec''" "step_action step \<noteq> ''exec_command''" using Cons.prems(3) [of step] by auto
    then show ?thesis using execute_file_step_confined [OF Cons.prems(1), of step fs0 h] Cons.prems(2) x by (blast dest: sm_okD)
  qed
  show ?case
  proof (cases t)
    case (Inl err)
    with Cons.prems(4) x c1 show ?thesis by simp
  next
    case (Inr y)
    with Cons.prems(4) x obtain rp1 where rest: "run_steps h c (Suc i) steps rp1 s1 = (rp', s')" by (auto simp: Let_def)
    show ?thesis by (rule Cons.IH [OF Cons.prems(1) c1 _ rest]) (use Cons.prems(3) in auto)
  qed
qed simp

lemma kept_manifest:
  assumes "link_free fs" "''..'' \<notin> set broot"
  shows "kept (around broot) fs (fst (write_backup_manifest print now fs broot ws sid es))"
proof (cases "fs_create_dir_all fs broot")
  case (Inl e)
  with assms show ?thesis by (simp add: write_backup_manifest_def Let_def kept_refl)
next
  case (Inr fs1)
  have k: "kept (around broot) fs fs1" by (rule kept_create_dir_all [OF assms _ Inr]) (simp add: around_def)
  have "''..'' \<notin> set (broot @ [BACKUP_MANIFEST_FILE])" using assms(2) by (simp add: BACKUP_MANIFEST_FILE_def)
  then have "kept (around broot) fs1 fs2" if "fs_write_bytes fs1 (broot @ [BACKUP_MANIFEST_FILE]) raw = Inr fs2" for raw fs2
    by (rule kept_write [where R = "around broot", OF kept_link_free [OF k] _ _ that]) (simp add: around_def)
  with Inr k show ?thesis by (auto simp: write_backup_manifest_def Let_def intro: kept_trans split: sum.split)
qed

lemma workspace_base:
  assumes "link_free fs" "base_dirs fs ws" "list_all clean_comp ws"
  shows "fs_base (run_context fs ws policy b home) = ws"
proof -
  have "resolve_path fs ws = ws" using assms by (auto intro: resolve_link_free dest: clean_no_dots)
  moreover have "node_at fs ws = Some DirNode" using assms(2) by (simp add: base_dirs_def)
  ultimately have "fs_canonicalize fs ws = Inr ws" by (simp add: fs_canonicalize_def fs_exists_def stat_def)
  then show ?thesis
    by (auto simp: fs_base_def run_context_def Let_def with_run_root_def with_backup_def StepContext_new_def split: option.split)
qed

lemma run_context_fields [simp]:
  "backup_root (run_context fs ws policy (Some b) home) = Some b" "ctx_policy (run_context fs ws policy x home) = policy"
  by (auto simp: run_context_def Let_def with_run_root_def with_backup_def StepContext_new_def split: option.split)

lemma l3_run_workflow_fs:
  "snd (l3_run_workflow print env e ws policy (Some (h, i)) home fs) =
     (case run_of env e ws policy (Some (h, i)) home fs of (rp, s) \<Rightarrow>
        fst (write_backup_manifest print (ee_now env) (st_fs s) (run_backup_root h i (ee_now env)) ws (Some i)
               (case st_backups s of Some es \<Rightarrow> es | None \<Rightarrow> [])))"
  unfolding l3_run_workflow_def run_of_def Let_def by (simp split: prod.split)

lemma backup_area:
  assumes "list_all clean_comp home" "clean_comp i"
  shows "list_all clean_comp (run_backup_root home i now)" "around (run_backup_root home i now) q \<Longrightarrow> around home q"
proof -
  have r: "run_backup_root home i now = home @ [''backups'', i, ''run-'' @ nat_digits now]"
    unfolding run_backup_root_def path_join_clean [OF home_files(4)] path_join_clean [OF assms(2)] path_join_clean [OF clean_run_dir] by simp
  then show "list_all clean_comp (run_backup_root home i now)" using assms home_files(4) clean_run_dir [of now] by simp
  show "around home q" if "around (run_backup_root home i now) q"
    using that prefix_same_cases [of q "run_backup_root home i now" home] unfolding around_def r
    by (auto dest: append_prefixD)
qed

definition run_area :: "path \<Rightarrow> path \<Rightarrow> path \<Rightarrow> bool" where
  "run_area ws home q \<longleftrightarrow> prefix ws q \<or> around home q"

lemma kept_run:
  assumes "link_free fs" "base_dirs fs ws" "list_all clean_comp ws" "list_all clean_comp home" "clean_comp i" "no_programs policy e"
  shows "kept (run_area ws home) fs (snd (l3_run_workflow print env e ws policy (Some (home, i)) home fs))"
proof -
  let ?b = "run_backup_root home i (ee_now env)"
  let ?c = "run_context fs ws policy (Some ?b) home"
  obtain rp s where run: "run_of env e ws policy (Some (home, i)) home fs = (rp, s)" by fastforce
  have pc: "plain_context ?c"
    using assms(3) backup_area(1) [OF assms(4,5)] workspace_base [OF assms(1-3)] by (simp add: plain_context_def)
  have c0: "confined ?c fs \<lparr>st_fs = fs, st_backups = Some []\<rparr>"
    using assms(1,2) workspace_base [OF assms(1-3)] by (simp add: confined_def)
  have rs: "run_steps (ee_host env) ?c 0 (exp_workflow e) start_progress \<lparr>st_fs = fs, st_backups = Some []\<rparr> = (rp, s)"
    using run by (simp add: run_of_def Let_def)
  have c: "confined ?c fs s"
    by (rule run_steps_confined [OF pc c0 _ rs]) (use assms(6) in \<open>auto simp: no_programs_def\<close>)
  have "region ?c q \<Longrightarrow> run_area ws home q" for q
    using backup_area(2) [OF assms(4,5)] workspace_base [OF assms(1-3)]
    by (auto simp: region_def run_area_def around_def)
  with c have k: "kept (run_area ws home) fs (st_fs s)" by (auto simp: confined_def kept_def)
  have "kept (around ?b) (st_fs s) (fst (write_backup_manifest print (ee_now env) (st_fs s) ?b ws (Some i) es))" for es
    by (rule kept_manifest [OF kept_link_free [OF k]]) (use backup_area(1) [OF assms(4,5)] clean_no_dots in blast)
  then have "kept (run_area ws home) (st_fs s) (fst (write_backup_manifest print (ee_now env) (st_fs s) ?b ws (Some i) es))" for es
    by (rule kept_mono) (auto simp: run_area_def intro: backup_area(2) [OF assms(4,5)])
  with k show ?thesis unfolding l3_run_workflow_fs run by (auto intro: kept_trans)
qed

lemma kept_execute:
  assumes "plain_home app" "base_dirs (app_fs app) ws" "list_all clean_comp ws" "clean_comp i"
    and "no_programs (effective_policy_for (app_store app) e scope) e"
  shows "kept (run_area ws (app_home app)) (app_fs app) (app_fs (snd (entry_execute cd env i scope ws e app)))"
proof -
  let ?R = "run_area ws (app_home app)"
  obtain rep fs where run: "l3_run_workflow (cd_manifest_print cd) env e ws (effective_policy_for (app_store app) e scope)
      (Some (app_home app, i)) (app_home app) (app_fs app) = (rep, fs)" by fastforce
  have lf: "link_free (app_fs app)" "list_all clean_comp (app_home app)" using assms(1) by (auto simp: plain_home_def)
  have k1: "kept ?R (app_fs app) fs"
    using kept_run [OF lf(1) assms(2,3) lf(2) assms(4,5), of "cd_manifest_print cd" env] by (simp add: run)
  let ?a = "app\<lparr>app_fs := fs\<rparr>"
  let ?x = "entry_record ''experience_execution'' (exp_name e) i ''execute'' (execution_reason rep) (rr_outcome rep) (ee_now env)"
  have pa: "plain_home ?a" using kept_link_free [OF k1] lf(2) by (simp add: plain_home_def)
  have ka: "kept (around (app_home app)) fs (app_fs (append_l1_ledger cd ?x ?a))" using kept_append [OF pa, of cd ?x] by simp
  have pb: "plain_home (append_l1_ledger cd ?x ?a)" using kept_link_free [OF ka] lf(2) by (simp add: plain_home_def)
  have kb: "kept (around (app_home app)) fs (app_fs (usage_record_experience cd (exp_name e) (rr_outcome rep) (ee_now env) (append_l1_ledger cd ?x ?a)))"
    using kept_trans [OF ka] kept_usage_record [OF pb, of cd "exp_name e" "rr_outcome rep" "ee_now env"] by simp
  then have "kept ?R fs (app_fs (usage_record_experience cd (exp_name e) (rr_outcome rep) (ee_now env) (append_l1_ledger cd ?x ?a)))"
    by (rule kept_mono) (simp add: run_area_def)
  with k1 show ?thesis by (auto simp: entry_execute_def run Let_def intro: kept_trans)
qed

lemma kept_ledger_fold:
  "plain_home app \<Longrightarrow> kept (around (app_home app)) (app_fs app) (app_fs (fold (append_l1_ledger cd) xs app))"
proof (induction xs arbitrary: app)
  case (Cons x xs)
  have k: "kept (around (app_home app)) (app_fs app) (app_fs (append_l1_ledger cd x app))" by (rule kept_append [OF Cons.prems])
  have "plain_home (append_l1_ledger cd x app)" by (rule plain_home_step [OF Cons.prems k]) simp
  from Cons.IH [OF this] k show ?case by (auto intro: kept_trans)
qed (simp add: kept_refl plain_home_def)

text \<open>C30: the entry of a task touches only the workspace and the server's own directory. With a fresh dry-run
  directory, plain existing workspace and home paths on a tree without links, and policies under which
  no program step may start, every node outside the workspace and outside the area of the home directory
  is as before, whatever matched, ran or failed; and when no experience was executed, the workspace is
  untouched as well.\<close>

theorem entry_contained:
  assumes fresh: "fresh_scratch (ee_scratch env) (app_fs app)" and home: "plain_home app"
    and ws: "base_dirs (app_fs app) ws" "list_all clean_comp ws" and i: "clean_comp i"
    and progs: "\<And>e. e \<in> set (experiences (app_store app)) \<Longrightarrow> no_programs (effective_policy_for (app_store app) e (entry_scope app i)) e"
    and run: "l3_entry cd env i task ws app = (res, app')"
  shows "(\<not> prefix ws q \<and> \<not> around (app_home app) q \<longrightarrow> node_at (app_fs app') q = node_at (app_fs app) q) \<and>
    ((\<forall>ctx. res = Some ctx \<longrightarrow> lc_executed ctx = None) \<and> \<not> around (app_home app) q \<longrightarrow>
       node_at (app_fs app') q = node_at (app_fs app) q)"
proof -
  let ?R = "run_area ws (app_home app)"
  obtain r a fs where lp: "entry_loop env app i task ws = (r, a, fs)" by (metis prod_cases3)
  let ?x = "entry_ran cd env i ws app (entry_loop env app i task ws)"
  have spec: "same_nodes (app_fs app) fs" "set r \<subseteq> set (entry_matched env app i task)"
    using entry_runnable_spec [OF fresh] lp unfolding entry_loop_def by blast+
  have same: "kept R (app_fs app) fs" for R using spec(1) by (simp add: kept_def same_nodes_def)
  let ?a = "app\<lparr>app_fs := fs\<rparr>"
  have pa: "plain_home ?a" using spec(1) home by (simp add: plain_home_def same_nodes_def)
  have ba: "base_dirs (app_fs ?a) ws" using spec(1) ws(1) by (simp add: base_dirs_def same_nodes_def)
  have exec: "kept ?R (app_fs ?a) (app_fs (snd (entry_execute cd env i (entry_scope app i) ws e ?a)))" if "l3_pick_unique_best r = Inr e" for e
  proof -
    have "e \<in> set (experiences (app_store app))"
      using pick_unique_best_spec [OF that] spec(2) by (auto simp: entry_matched_def entry_active_def active_in_scope_def)
    from kept_execute [OF pa ba ws(2) i, of e "entry_scope app i" cd env] progs [OF this] show ?thesis by simp
  qed
  have ran: "kept ?R (app_fs app) (app_fs (snd ?x))" "fst ?x = None \<Longrightarrow> app_fs (snd ?x) = fs"
    using exec same [of ?R] by (auto simp: lp entry_ran_def intro: kept_trans split: sum.split prod.split sum.splits prod.splits)
  have px: "plain_home (snd ?x)" by (rule plain_home_step [OF home ran(1)]) (simp add: entry_ran_other)
  from run show ?thesis
  proof (cases rule: l3_entry_unfold [of cd env i task ws app])
    case pure
    then have "entry_matched env app i task = []" by (simp add: entry_matched_def)
    with lp have "r = []" by (simp add: entry_loop_def)
    then have "fst ?x = None" by (simp add: lp entry_ran_def l3_pick_unique_best_def)
    with run pure ran(2) spec(1) show ?thesis by (simp add: same_nodes_def)
  next
    case (delegated ctx ap xs)
    have pap: "plain_home ap" using px delegated by (simp add: plain_home_def)
    have "kept (around (app_home app)) (app_fs (snd ?x)) (app_fs app')"
      using kept_ledger_fold [OF pap, of cd xs] delegated run by (simp add: entry_ran_other)
    moreover have "lc_executed ctx = None \<Longrightarrow> fst ?x = None" using delegated by simp
    ultimately show ?thesis
      using run delegated(1) ran spec(1) by (auto simp: kept_def run_area_def same_nodes_def)
  qed
qed


section \<open>What the dry run refuses\<close>

lemma read_fails_in_empty:
  assumes "link_free (st_fs s)" "base_dirs (st_fs s) (fs_base c)" "plain_context c"
    and "\<And>q. prefix (fs_base c) q \<Longrightarrow> q \<noteq> fs_base c \<Longrightarrow> node_at (st_fs s) q = None"
  shows "isl (fst (read_file c step s))"
proof -
  obtain r s1 where res: "resolve c step ''path'' s = (r, s1)" by fastforce
  have s1: "s1 = s"
    using res by (auto simp: resolve_def sm_bind_def sm_lift_def sm_get_def sm_return_def sm_fail_def split: sum.splits)
  show ?thesis
  proof (cases r)
    case (Inl err)
    with res show ?thesis by (simp add: read_file_def sm_bind_def)
  next
    case (Inr p)
    have "confined c (st_fs s) s" using assms(1,2) by (simp add: confined_def)
    with resolve_inside [OF assms(3), of "st_fs s" step "''path''"] res Inr have p: "prefix (fs_base c) p" "list_all clean_comp p"
      by (auto simp: inside_def dest: sm_okD)
    then have "resolve_path (st_fs s) p = p" using assms(1) by (auto intro: resolve_link_free dest: clean_no_dots)
    then have "stat (st_fs s) p = node_at (st_fs s) p"
      using link_freeD [OF assms(1), of p] by (auto simp: stat_def split: option.split node.split)
    moreover have "node_at (st_fs s) p = None \<or> node_at (st_fs s) p = Some DirNode"
      using p(1) assms(2) assms(4) [of p] by (cases "p = fs_base c") (auto simp: base_dirs_def)
    ultimately show ?thesis
      using res Inr s1 by (auto simp: read_file_def sm_bind_def sm_get_def sm_fail_def Let_def fs_len_def fs_read_bytes_def)
  qed
qed

text \<open>A workflow that begins by reading a file of the workspace is never executed. The dry run replays it in an
  empty scratch directory, so with a fresh scratch directory the check refuses every experience whose
  first step is a \<open>read_file\<close> that the policy allows, whatever the workspace contains.\<close>

theorem read_first_never_clears:
  assumes fresh: "fresh_scratch (ee_scratch env) fs" and wf: "exp_workflow e = step # steps"
    and step: "step_action step = ''read_file''" and pol: "policy_check policy ''read_file'' = Inr ()"
  shows "fst (l3_gate_check env e ws policy fs) \<noteq> None"
proof (cases "fs_create_dir_all fs (ee_scratch env)")
  case (Inl err)
  then show ?thesis by (simp add: l3_gate_check_def split: option.split)
next
  case (Inr fs1)
  let ?tmp = "ee_scratch env"
  let ?c = "with_scratch ?tmp (StepContext_new fs1 ws policy)"
  let ?s = "\<lparr>st_fs = fs1, st_backups = None\<rparr>"
  note new = fresh_create [OF fresh Inr]
  have pc: "plain_context ?c" using fresh by (simp add: plain_context_def fresh_scratch_def)
  have "isl (fst (read_file ?c step ?s))"
    by (rule read_fails_in_empty) (use new fresh pc in \<open>auto simp: fresh_scratch_def\<close>)
  then obtain err s' where rd: "read_file ?c step ?s = (Inl err, s')" by (metis isl_def prod.collapse)
  have cp: "ctx_policy ?c = policy" by (simp add: with_scratch_def StepContext_new_def)
  have "execute_step (ee_host env) ?c step ?s = (Inl err, s')"
    unfolding execute_step_def cp step pol using rd by simp
  then have "fst (dry_steps (ee_host env) ?c (exp_workflow e) ?s) \<noteq> None"
    unfolding wf by (simp add: cp step pol)
  then show ?thesis using Inr by (auto simp: l3_gate_check_def split: option.split prod.split)
qed


section \<open>Concrete runs\<close>

definition demo_entry_env :: EntryEnv where
  "demo_entry_env = \<lparr>ee_host = demo_host,
     ee_world = \<lparr>git_process = (\<lambda>_ _. None), http_peer = (\<lambda>_ _ _ _. None), tcp_open = (\<lambda>_ _ _. False), world_clock = 7\<rparr>,
     ee_vars = (\<lambda>_. None), ee_alnum = (\<lambda>_. True), ee_scratch = [''t''], ee_now = 7\<rparr>"

definition demo_note :: Experience where
  "demo_note = demo_instance\<lparr>exp_name := ''note'', exp_trigger := \<lparr>pat_tool = ''write_file'', command_pattern = Some ''write the note''\<rparr>,
     exp_preconditions := [\<lparr>pred_key = ''cwd.exists'', pred_expected = JBool True\<rparr>],
     exp_postconditions := [\<lparr>pred_key = ''file:n.exists'', pred_expected = JBool True\<rparr>],
     exp_workflow := [\<lparr>step_action = ''write_file'', step_args = JObject [(''content'', JString ''x''), (''path'', JString ''n'')]\<rparr>]\<rparr>"

definition demo_entry_store :: ExperienceStore where
  "demo_entry_store = (case store_insert demo_note ExperienceStore_default of Inr s \<Rightarrow> s | Inl _ \<Rightarrow> ExperienceStore_default)"

definition demo_entry_app :: App where
  "demo_entry_app = demo_app\<lparr>app_store := demo_entry_store, app_home := [''h''],
     app_fs := \<lparr>tree = [([], DirNode), ([''h''], DirNode), ([''w''], DirNode)], dir_size = 4096\<rparr>\<rparr>"

definition demo_tree :: fsys where
  "demo_tree = \<lparr>tree = [([], DirNode), ([''h''], DirNode), ([''w''], DirNode)], dir_size = 4096\<rparr>"

lemma demo_entry_fields: "app_fs demo_entry_app = demo_tree" "app_home demo_entry_app = [''h'']" "app_store demo_entry_app = demo_entry_store"
  by (simp_all add: demo_entry_app_def demo_tree_def)

lemma demo_tree_nodes: "node_at demo_tree q = (if q = [] \<or> q = [''h''] \<or> q = [''w''] then Some DirNode else None)"
  by (auto simp: demo_tree_def node_at_def bt_get_def)

lemma demo_tree_fresh: "fresh_scratch (ee_scratch demo_entry_env) demo_tree"
proof -
  have "link_free demo_tree" "list_all clean_comp [''t'']" by code_simp+
  moreover have "base_dirs demo_tree []" by (simp add: base_dirs_def demo_tree_nodes)
  moreover have "prefix [''t''] q \<Longrightarrow> node_at demo_tree q = None" for q by (auto simp: demo_tree_nodes prefix_def)
  ultimately show ?thesis by (simp add: fresh_scratch_def demo_entry_env_def)
qed

lemma demo_entry_matched: "entry_matched demo_entry_env demo_entry_app ''s-1'' ''Please write the note'' = [demo_note]"
  by code_simp

lemma demo_entry_gate:
  "l3_locally_runnable demo_note" "l3_preconditions_pass (ee_world demo_entry_env) demo_tree demo_note [''w'']"
  "fst (l3_gate_check demo_entry_env demo_note [''w''] CapabilityPolicy_default demo_tree) = None"
  by code_simp+


lemma demo_entry_policy: "effective_policy_for demo_entry_store demo_note sc = CapabilityPolicy_default"
proof -
  have "scope_of demo_entry_store (exp_name demo_note) = None" "scope_policies demo_entry_store = []" by code_simp+
  then show ?thesis by (simp add: effective_policy_for_def policy_for_scope_def global_policy_def split: option.split)
qed

lemma demo_entry_loop: "fst (entry_loop demo_entry_env demo_entry_app ''s-1'' ''Please write the note'' [''w'']) = [demo_note]"
proof -
  obtain fs1 where g: "l3_gate_check demo_entry_env demo_note [''w''] CapabilityPolicy_default demo_tree = (None, fs1)"
    using demo_entry_gate(3) by (metis prod.collapse)
  show ?thesis
    unfolding entry_loop_def demo_entry_matched demo_entry_fields
    by (simp add: demo_entry_gate(1,2) demo_entry_policy g Let_def split: option.split)
qed

lemma demo_entry_runs:
  obtains ctx app' x where "l3_entry demo_codecs demo_entry_env ''s-1'' ''Please write the note'' [''w''] demo_entry_app = (Some ctx, app')"
    and "lc_executed ctx = Some x" and "lx_name x = ''note''"
proof -
  have "entry_matched demo_entry_env demo_entry_app ''s-1'' ''Please write the note'' \<noteq> []" by (simp add: demo_entry_matched)
  then have ne: "entry_active demo_entry_app (entry_scope demo_entry_app ''s-1'') \<noteq> []" by (auto simp: entry_matched_def)
  let ?lp = "entry_loop demo_entry_env demo_entry_app ''s-1'' ''Please write the note'' [''w'']"
  obtain a fs where lp: "?lp = ([demo_note], a, fs)" using demo_entry_loop by (metis prod.collapse)
  have "l3_pick_unique_best [demo_note] = Inr demo_note" by (simp add: l3_pick_unique_best_def)
  then obtain rep ap where ran: "entry_ran demo_codecs demo_entry_env ''s-1'' [''w''] demo_entry_app ?lp = (Some (demo_note, rep), ap)"
    unfolding lp entry_ran_def by (fastforce split: prod.split)
  show thesis
  proof (cases rule: l3_entry_unfold [of demo_codecs demo_entry_env "''s-1''" "''Please write the note''" "[''w'']" demo_entry_app])
    case pure
    with ne show thesis by simp
  next
    case (delegated ctx ap' xs)
    then show thesis using that [of ctx] ran by (simp add: demo_note_def)
  qed
qed


theorem original_task_delegated_witness:
  "\<exists>ctx app'. l3_entry demo_codecs demo_entry_env ''s-1'' ''Please write the note'' [''w''] demo_entry_app = (Some ctx, app') \<and>
     prefix ''Please write the note'' (lc_delegated_task ctx)"
proof -
  obtain ctx app' x where r: "l3_entry demo_codecs demo_entry_env ''s-1'' ''Please write the note'' [''w''] demo_entry_app = (Some ctx, app')"
    by (rule demo_entry_runs)
  from original_task_delegated [OF r] r show ?thesis by blast
qed

theorem entry_contained_witness:
  "node_at (app_fs (snd (l3_entry demo_codecs demo_entry_env ''s-1'' ''Please write the note'' [''w''] demo_entry_app))) [''etc''] = None"
proof -
  obtain res app' where r: "l3_entry demo_codecs demo_entry_env ''s-1'' ''Please write the note'' [''w''] demo_entry_app = (res, app')"
    by fastforce
  have fresh: "fresh_scratch (ee_scratch demo_entry_env) (app_fs demo_entry_app)" by (simp add: demo_entry_fields demo_tree_fresh)
  have lf: "link_free demo_tree" "list_all clean_comp [''h'']" "list_all clean_comp [''w'']" by code_simp+
  then have home: "plain_home demo_entry_app" by (simp add: plain_home_def demo_entry_fields)
  have ws: "base_dirs (app_fs demo_entry_app) [''w'']"
    by (auto simp: base_dirs_def demo_entry_fields demo_tree_nodes prefix_Cons)
  have i: "clean_comp ''s-1''" by code_simp
  have "experiences demo_entry_store = [demo_note]" by code_simp
  moreover have "no_programs CapabilityPolicy_default demo_note" by (simp add: no_programs_def demo_note_def)
  ultimately have progs: "no_programs (effective_policy_for (app_store demo_entry_app) e (entry_scope demo_entry_app ''s-1'')) e"
    if "e \<in> set (experiences (app_store demo_entry_app))" for e
    using that by (simp add: demo_entry_fields demo_entry_policy)
  have "\<not> around [''h''] [''etc'']" "\<not> prefix [''w''] [''etc'']" by (simp_all add: around_def)
  with entry_contained [OF fresh home ws lf(3) i progs r, of "[''etc'']"] r show ?thesis
    by (simp add: demo_entry_fields demo_tree_nodes)
qed

theorem run_outcome_exact_witness:
  "rr_outcome (fst (l3_run_workflow (\<lambda>_. []) demo_entry_env demo_note [''w''] CapabilityPolicy_default None [''h''] demo_tree)) = ''success''"
proof -
  have "length (rp_completed (fst (run_of demo_entry_env demo_note [''w''] CapabilityPolicy_default None [''h''] demo_tree))) = 1"
    "observed_after demo_entry_env [''w''] (run_of demo_entry_env demo_note [''w''] CapabilityPolicy_default None [''h''] demo_tree)
       \<lparr>pred_key = ''file:n.exists'', pred_expected = JBool True\<rparr>"
    "observable ''file:n.exists''"
    by code_simp+
  moreover have "exp_postconditions demo_note = [\<lparr>pred_key = ''file:n.exists'', pred_expected = JBool True\<rparr>]" "length (exp_workflow demo_note) = 1"
    by (simp_all add: demo_note_def)
  ultimately show ?thesis
    using run_outcome_exact [of "\<lambda>_. []" demo_entry_env demo_note "[''w'']" CapabilityPolicy_default None "[''h'']" demo_tree]
    by simp
qed

theorem read_first_never_clears_witness:
  "fst (l3_gate_check demo_entry_env (demo_note\<lparr>exp_workflow := [\<lparr>step_action = ''read_file'', step_args = JObject [(''path'', JString ''a.txt'')]\<rparr>]\<rparr>)
     [''w''] CapabilityPolicy_default demo_tree) \<noteq> None"
proof -
  have "policy_check CapabilityPolicy_default ''read_file'' = Inr ()" by code_simp
  then show ?thesis
    by (intro read_first_never_clears [OF demo_tree_fresh, where step = "\<lparr>step_action = ''read_file'', step_args = JObject [(''path'', JString ''a.txt'')]\<rparr>" and steps = "[]"]) simp_all
qed

end
