(* ===== verification/Agents.thy ===== *)
theory Agents
  imports Sessions Qualification
begin

text \<open>
  The agents of the server (\<open>agent_manager.rs\<close> and \<open>fs_browse.rs\<close>): their configuration, the discovery of the
  executable, persistence, the connection state machine, delegation to a ready agent, and the directory listing
  of the agent form. Outside the repository, and therefore arguments (record \<open>AgentEnv\<close>): the process that
  answers the readiness probe, the Windows shell that reads shortcuts, the environment and the installation
  that is found by default. A relative directory is taken from the root, the working directory of the model.
\<close>

section \<open>Data\<close>

definition KIND_CODEX_CLI :: string where "KIND_CODEX_CLI = ''codex_cli''"
definition MODE_MANAGED :: string where "MODE_MANAGED = ''managed''"
definition MODE_ATTACHED :: string where "MODE_ATTACHED = ''attached''"

datatype AgentState = AgConfigured | AgChecking | AgReady | AgError | AgDisconnected

record AgentStatus =
  as_state :: AgentState
  as_message :: string
  as_updated_at :: nat
  as_pid :: "nat option"

definition AgentStatus_new :: "nat \<Rightarrow> AgentState \<Rightarrow> string \<Rightarrow> AgentStatus" where
  "AgentStatus_new now s m = \<lparr>as_state = s, as_message = m, as_updated_at = now, as_pid = None\<rparr>"

record AgentConfig =
  ag_id :: string
  ag_label :: string
  ag_kind :: string
  ag_mode :: string
  ag_directory :: "string option"
  ag_executable :: "string option"
  ag_version_arg :: "string option"
  ag_channel :: "string option"
  ag_codex_home :: "string option"

record AgentEntry =
  ae_config :: AgentConfig
  ae_status :: AgentStatus

record AgentsFile =
  af_schema_version :: nat
  af_agents :: "AgentConfig list"

definition AgentsFile_default :: AgentsFile where
  "AgentsFile_default = \<lparr>af_schema_version = 2, af_agents = []\<rparr>"

type_synonym AgentManager = "AgentEntry list"

text \<open>What a launch resolves to: a file, or a command name the operating system looks up.\<close>

datatype Launcher = LaunchFile path | LaunchCommand string

datatype probe_result =
    ProbeSpawnFailed string
  | ProbeWaitFailed string
  | ProbeTimeout
  | ProbeExited "int option" string string

record AgentEnv =
  en_probe :: "Launcher \<Rightarrow> string \<Rightarrow> path option \<Rightarrow> probe_result"
  en_spawn :: "Launcher \<Rightarrow> string \<Rightarrow> path option \<Rightarrow> string + nat"
  en_shortcut :: "string \<Rightarrow> string + string \<times> string \<times> string"
  en_default_id :: "string option"
  en_codex_exe :: "string option"
  en_official_dir :: "string option"

section \<open>Configuration\<close>

definition config_validate :: "AgentConfig \<Rightarrow> string + unit" where
  "config_validate c =
     (if trim_str (ag_id c) = [] \<or> \<not> list_all (\<lambda>ch. is_ascii_alphanumeric ch \<or> ch = CHR ''_'' \<or> ch = CHR ''-'') (ag_id c) then
        Inl (''id '' @ [CHR 0xE5, CHR 0x8F, CHR 0xAA, CHR 0xE8, CHR 0x83, CHR 0xBD, CHR 0xE5, CHR 0x8C, CHR 0x85, CHR
      0xE5, CHR 0x90, CHR 0xAB, CHR 0xE5, CHR 0xAD, CHR 0x97, CHR 0xE6, CHR 0xAF, CHR 0x8D] @ ''/'' @ [CHR 0xE6, CHR
      0x95, CHR 0xB0, CHR 0xE5, CHR 0xAD, CHR 0x97] @ ''/_/-'')
      else if trim_str (ag_label c) = [] then Inl (''label '' @ [CHR 0xE4, CHR 0xB8, CHR 0x8D, CHR 0xE8, CHR 0x83, CHR 0xBD, CHR 0xE4, CHR 0xB8, CHR 0xBA, CHR
      0xE7, CHR 0xA9, CHR 0xBA])
      else if ag_directory c = None \<and> ag_executable c = None then
        Inl ([CHR 0xE8, CHR 0xAF, CHR 0xB7, CHR 0xE6, CHR 0x8F, CHR 0x90, CHR 0xE4, CHR 0xBE, CHR 0x9B] @ '' agent '' @
      [CHR 0xE5, CHR 0xBA, CHR 0x94, CHR 0xE7, CHR 0x94, CHR 0xA8, CHR 0xE7, CHR 0x9B, CHR 0xAE, CHR 0xE5, CHR 0xBD,
      CHR 0x95, CHR 0xEF, CHR 0xBC, CHR 0x88] @ ''directory'' @ [CHR 0xEF, CHR 0xBC, CHR 0x89, CHR 0xE6, CHR 0x88,
      CHR 0x96, CHR 0xE5, CHR 0x8F, CHR 0xAF, CHR 0xE6, CHR 0x89, CHR 0xA7, CHR 0xE8, CHR 0xA1, CHR 0x8C, CHR 0xE6,
      CHR 0x96, CHR 0x87, CHR 0xE4, CHR 0xBB, CHR 0xB6, CHR 0xEF, CHR 0xBC, CHR 0x88] @ ''executable'' @ [CHR 0xEF,
      CHR 0xBC, CHR 0x89])
      else if ag_kind c \<noteq> KIND_CODEX_CLI then Inl (''unsupported agent kind: '' @ ag_kind c)
      else if ag_mode c \<noteq> MODE_MANAGED then
        Inl (''codex_cli '' @ [CHR 0xE4, CHR 0xBB, CHR 0x85, CHR 0xE6, CHR 0x94, CHR 0xAF, CHR 0xE6, CHR 0x8C, CHR 0x81] @
      '' managed '' @ [CHR 0xE6, CHR 0xA8, CHR 0xA1, CHR 0xE5, CHR 0xBC, CHR 0x8F, CHR 0xEF, CHR 0xBC, CHR 0x88, CHR
      0xE4, CHR 0xBB, CHR 0xBB, CHR 0xE5, CHR 0x8A, CHR 0xA1, CHR 0xE6, CHR 0x8C, CHR 0x89, CHR 0xE9, CHR 0x9C, CHR
      0x80, CHR 0xE6, CHR 0x8B, CHR 0x89, CHR 0xE8, CHR 0xB5, CHR 0xB7, CHR 0xEF, CHR 0xBC, CHR 0x89, CHR 0xEF, CHR
      0xBC, CHR 0x9B] @ ''attached '' @ [CHR 0xE4, CHR 0xBF, CHR 0x9D, CHR 0xE7, CHR 0x95, CHR 0x99, CHR 0xE7, CHR
      0xBB, CHR 0x99] @ '' app-server '' @ [CHR 0xE7, CHR 0xB1, CHR 0xBB] @ '' executor'')
      else case ag_channel c of
        None \<Rightarrow> Inr ()
      | Some ch \<Rightarrow>
          (if ch \<noteq> ''exec'' \<and> ch \<noteq> ''session'' then Inl (''unknown channel '' @ quoted_name ch @ '' (exec|session)'') else Inr ()))"

text \<open>\<open>Path::components\<close> counts a leading current directory, and no other.\<close>

definition component_count :: "string \<Rightarrow> nat" where
  "component_count s =
     (case split_char (CHR ''/'') s of
        c # _ \<Rightarrow> (if c = ''.'' then 1 else 0) + length (path_of_text s)
      | [] \<Rightarrow> 0)"

text \<open>\<open>Path::extension\<close> of a file name: what follows the last dot, unless the dot is first.\<close>

definition file_extension :: "string \<Rightarrow> string option" where
  "file_extension n =
     (case rfind_char (\<lambda>c. c = CHR ''.'') n of
        None \<Rightarrow> None
      | Some i \<Rightarrow> (if i = 0 \<or> n = ''..'' then None else Some (drop (Suc i) n)))"

definition resolve_launcher :: "AgentEnv \<Rightarrow> fsys \<Rightarrow> path \<Rightarrow> string + Launcher" where
  "resolve_launcher env fs p =
     (if \<not> fs_is_file fs p then Inl ([CHR 0xE6, CHR 0x96, CHR 0x87, CHR 0xE4, CHR 0xBB, CHR 0xB6, CHR 0xE4, CHR 0xB8, CHR 0x8D, CHR 0xE5, CHR 0xAD,
      CHR 0x98, CHR 0xE5, CHR 0x9C, CHR 0xA8, CHR 0xEF, CHR 0xBC, CHR 0x9A] @ path_text p)
      else if map_option to_lowercase (Option.bind (if p = [] then None else Some (last p)) file_extension) \<noteq> Some ''lnk'' then
        Inr (LaunchFile p)
      else case en_shortcut env (path_text p) of
        Inl err \<Rightarrow> Inl err
      | Inr (target, args, _) \<Rightarrow>
          (if trim_str args \<noteq> [] then
             Inl ([CHR 0xE5, CHR 0xBF, CHR 0xAB, CHR 0xE6, CHR 0x8D, CHR 0xB7, CHR 0xE6, CHR 0x96, CHR 0xB9, CHR 0xE5, CHR 0xBC,
      CHR 0x8F, CHR 0xE5, CHR 0xB8, CHR 0xA6, CHR 0xE5, CHR 0x90, CHR 0xAF, CHR 0xE5, CHR 0x8A, CHR 0xA8, CHR 0xE5,
      CHR 0x8F, CHR 0x82, CHR 0xE6, CHR 0x95, CHR 0xB0, CHR 0xEF, CHR 0xBC, CHR 0x88] @ args @
               ([CHR 0xEF, CHR 0xBC, CHR 0x89, CHR 0xEF, CHR 0xBC, CHR 0x8C, CHR 0xE8, CHR 0xAF, CHR 0xB7, CHR 0xE7, CHR
      0x9B, CHR 0xB4, CHR 0xE6, CHR 0x8E, CHR 0xA5, CHR 0xE9, CHR 0x80, CHR 0x89, CHR 0xE6, CHR 0x8B, CHR 0xA9, CHR
      0xE5, CHR 0x85, CHR 0xB6, CHR 0xE7, CHR 0x9B, CHR 0xAE, CHR 0xE6, CHR 0xA0, CHR 0x87] @ '' exe'' @ [CHR 0xEF,
      CHR 0xBC, CHR 0x9A]) @ target)
           else if \<not> fs_is_file fs (path_of_text target) then
             Inl ([CHR 0xE5, CHR 0xBF, CHR 0xAB, CHR 0xE6, CHR 0x8D, CHR 0xB7, CHR 0xE6, CHR 0x96, CHR 0xB9, CHR 0xE5, CHR 0xBC,
      CHR 0x8F, CHR 0xE7, CHR 0x9B, CHR 0xAE, CHR 0xE6, CHR 0xA0, CHR 0x87, CHR 0xE4, CHR 0xB8, CHR 0x8D, CHR 0xE5,
      CHR 0xAD, CHR 0x98, CHR 0xE5, CHR 0x9C, CHR 0xA8, CHR 0xEF, CHR 0xBC, CHR 0x9A] @ path_text (path_of_text target))
           else Inr (LaunchFile (path_of_text target))))"

definition kind_candidates :: "string \<Rightarrow> string list" where
  "kind_candidates kind =
     (if kind = KIND_CODEX_CLI then [''codex.exe'', ''codex'', ''bin/codex.exe'', ''target/debug/codex.exe''] else [])"

definition candidates_text :: "string list \<Rightarrow> string" where
  "candidates_text cs = ''['' @ join_str '', '' (map quote_str cs) @ '']''"

definition resolve_executable :: "AgentEnv \<Rightarrow> fsys \<Rightarrow> AgentConfig \<Rightarrow> string + Launcher" where
  "resolve_executable env fs c =
     (case ag_executable c of
        Some exe \<Rightarrow>
          (if starts_with exe ''/'' then resolve_launcher env fs (path_of_text exe)
           else case ag_directory c of
             Some d \<Rightarrow> resolve_launcher env fs (path_join (path_of_text d) exe)
           | None \<Rightarrow>
               (if component_count exe > 1 then
                  Inl ([CHR 0xE7, CHR 0x9B, CHR 0xB8, CHR 0xE5, CHR 0xAF, CHR 0xB9, CHR 0xE8, CHR 0xB7, CHR 0xAF, CHR 0xE5, CHR
      0xBE, CHR 0x84, CHR 0xE7, CHR 0x9A, CHR 0x84] @ '' executable '' @ [CHR 0xE9, CHR 0x9C, CHR 0x80, CHR 0xE8,
      CHR 0xA6, CHR 0x81, CHR 0xE5, CHR 0x90, CHR 0x8C, CHR 0xE6, CHR 0x97, CHR 0xB6, CHR 0xE6, CHR 0x8F, CHR 0x90,
      CHR 0xE4, CHR 0xBE, CHR 0x9B] @ '' directory'')
                else Inr (LaunchCommand exe)))
      | None \<Rightarrow>
          (case ag_directory c of
             None \<Rightarrow> Inl ([CHR 0xE6, CHR 0x9C, CHR 0xAA, CHR 0xE6, CHR 0x8F, CHR 0x90, CHR 0xE4, CHR 0xBE, CHR 0x9B] @ '' executable''
      @ [CHR 0xEF, CHR 0xBC, CHR 0x8C, CHR 0xE4, CHR 0xB9, CHR 0x9F, CHR 0xE6, CHR 0xB2, CHR 0xA1, CHR 0xE6, CHR
      0x9C, CHR 0x89] @ '' directory'')
           | Some d \<Rightarrow>
               (if \<not> fs_is_dir fs (path_of_text d) then Inl ((''agent '' @ [CHR 0xE7, CHR 0x9B, CHR 0xAE, CHR 0xE5, CHR 0xBD, CHR 0x95, CHR 0xE4, CHR 0xB8, CHR 0x8D, CHR
      0xE5, CHR 0xAD, CHR 0x98, CHR 0xE5, CHR 0x9C, CHR 0xA8, CHR 0xEF, CHR 0xBC, CHR 0x9A]) @ path_text (path_of_text d))
                else case find (\<lambda>n. fs_is_file fs (path_join (path_of_text d) n)) (kind_candidates (ag_kind c)) of
                  Some n \<Rightarrow> Inr (LaunchFile (path_join (path_of_text d) n))
                | None \<Rightarrow>
                    Inl (([CHR 0xE5, CHR 0x9C, CHR 0xA8, CHR 0xE7, CHR 0x9B, CHR 0xAE, CHR 0xE5, CHR 0xBD, CHR 0x95] @ '' '') @ path_text (path_of_text d) @
                      ('' '' @ [CHR 0xE4, CHR 0xB8, CHR 0xAD, CHR 0xE6, CHR 0x9C, CHR 0xAA, CHR 0xE5, CHR 0x8F, CHR 0x91, CHR 0xE7,
      CHR 0x8E, CHR 0xB0, CHR 0xE5, CHR 0x8F, CHR 0xAF, CHR 0xE6, CHR 0x89, CHR 0xA7, CHR 0xE8, CHR 0xA1, CHR 0x8C,
      CHR 0xE6, CHR 0x96, CHR 0x87, CHR 0xE4, CHR 0xBB, CHR 0xB6, CHR 0xEF, CHR 0xBC, CHR 0x88, CHR 0xE6, CHR 0x9F,
      CHR 0xA5, CHR 0xE6, CHR 0x89, CHR 0xBE, CHR 0xEF, CHR 0xBC, CHR 0x9A]) @ candidates_text (kind_candidates (ag_kind c)) @ [CHR 0xEF, CHR 0xBC, CHR 0x89]))))"

section \<open>The manager\<close>

definition CONFIGURED_MESSAGE :: string where
  "CONFIGURED_MESSAGE = [CHR 0xE5, CHR 0xB7, CHR 0xB2, CHR 0xE9, CHR 0x85, CHR 0x8D, CHR 0xE7, CHR 0xBD, CHR 0xAE, CHR 0xEF, CHR 0xBC,
      CHR 0x9B, CHR 0xE7, CHR 0x82, CHR 0xB9, CHR 0xE5, CHR 0x87, CHR 0xBB, CHR 0xE2, CHR 0x80, CHR 0x9C, CHR 0xE8,
      CHR 0xBF, CHR 0x9E, CHR 0xE6, CHR 0x8E, CHR 0xA5, CHR 0xE6, CHR 0xA3, CHR 0x80, CHR 0xE6, CHR 0x9F, CHR 0xA5,
      CHR 0xE2, CHR 0x80, CHR 0x9D, CHR 0xE7, CHR 0xA1, CHR 0xAE, CHR 0xE8, CHR 0xAE, CHR 0xA4, CHR 0xE5, CHR 0xB0,
      CHR 0xB1, CHR 0xE7, CHR 0xBB, CHR 0xAA]"

definition configured_entry :: "nat \<Rightarrow> AgentConfig \<Rightarrow> AgentEntry" where
  "configured_entry now c = \<lparr>ae_config = c, ae_status = AgentStatus_new now AgConfigured CONFIGURED_MESSAGE\<rparr>"

definition discover_codex :: "AgentEnv \<Rightarrow> string option \<times> string option" where
  "discover_codex env =
     (case en_codex_exe env of
        Some exe \<Rightarrow> (None, Some exe)
      | None \<Rightarrow> (case en_official_dir env of Some d \<Rightarrow> (Some d, None) | None \<Rightarrow> (None, Some ''codex'')))"

definition default_codex_entry :: "AgentEnv \<Rightarrow> nat \<Rightarrow> AgentEntry" where
  "default_codex_entry env now =
     (let i = (case en_default_id env of Some i \<Rightarrow> i | None \<Rightarrow> ''codex'')
      in configured_entry now
           \<lparr>ag_id = i, ag_label = i @ '' (cli executor)'', ag_kind = KIND_CODEX_CLI, ag_mode = MODE_MANAGED,
            ag_directory = fst (discover_codex env), ag_executable = snd (discover_codex env), ag_version_arg = None,
            ag_channel = None, ag_codex_home = None\<rparr>)"

definition with_default_seed :: "AgentEnv \<Rightarrow> nat \<Rightarrow> AgentManager" where
  "with_default_seed env now = [default_codex_entry env now]"

definition agents_load :: "(string \<Rightarrow> AgentsFile option) \<Rightarrow> AgentEnv \<Rightarrow> nat \<Rightarrow> fsys \<Rightarrow> path \<Rightarrow> AgentManager" where
  "agents_load parse env now fs p =
     (case fs_read_to_string fs p of
        Inl _ \<Rightarrow> with_default_seed env now
      | Inr raw \<Rightarrow>
          (let file = (case parse raw of Some f \<Rightarrow> f | None \<Rightarrow> AgentsFile_default)
           in if af_schema_version file \<noteq> 1 \<and> af_schema_version file \<noteq> 2 then with_default_seed env now
              else
                (let m = map (configured_entry now) (filter (\<lambda>c. config_validate c = Inr ()) (af_agents file))
                 in if m = [] then with_default_seed env now else m)))"

definition agents_save :: "(AgentsFile \<Rightarrow> string) \<Rightarrow> AgentManager \<Rightarrow> path \<Rightarrow> fsys \<Rightarrow> fsys \<times> (io_error + unit)" where
  "agents_save print m p fs =
     (let raw = print \<lparr>af_schema_version = 2, af_agents = map ae_config m\<rparr>;
          made = (case path_parent p of Some parent \<Rightarrow> fs_create_dir_all fs parent | None \<Rightarrow> Inr fs)
      in case made of
           Inl e \<Rightarrow> (fs, Inl e)
         | Inr fs1 \<Rightarrow> (case fs_write_bytes fs1 p raw of Inl e \<Rightarrow> (fs1, Inl e) | Inr fs2 \<Rightarrow> (fs2, Inr ())))"

definition agent_get :: "AgentManager \<Rightarrow> string \<Rightarrow> AgentEntry option" where
  "agent_get m i = find (\<lambda>e. ag_id (ae_config e) = i) m"

definition agent_create :: "nat \<Rightarrow> AgentConfig \<Rightarrow> AgentManager \<Rightarrow> string + AgentEntry \<times> AgentManager" where
  "agent_create now c m =
     (case config_validate c of
        Inl err \<Rightarrow> Inl err
      | Inr _ \<Rightarrow>
          (if agent_get m (ag_id c) \<noteq> None then Inl (''agent '' @ quoted_name (ag_id c) @ '' already exists'')
           else Inr (configured_entry now c, m @ [configured_entry now c])))"

definition agent_remove :: "string \<Rightarrow> AgentManager \<Rightarrow> string + AgentManager" where
  "agent_remove i m =
     (let m' = filter (\<lambda>e. ag_id (ae_config e) \<noteq> i) m
      in if length m' = length m then Inl (''agent '' @ quoted_name i @ '' not found'') else Inr m')"

fun set_status :: "string \<Rightarrow> AgentStatus \<Rightarrow> AgentManager \<Rightarrow> AgentManager" where
  "set_status i s [] = []"
| "set_status i s (e # es) = (if ag_id (ae_config e) = i then e\<lparr>ae_status := s\<rparr> # es else e # set_status i s es)"

text \<open>\<open>{:?}\<close> of an exit code.\<close>

definition code_text :: "int option \<Rightarrow> string" where
  "code_text c = (case c of Some n \<Rightarrow> ''Some('' @ int_text n @ '')'' | None \<Rightarrow> ''None'')"

definition launcher_text :: "Launcher \<Rightarrow> string" where
  "launcher_text l = (case l of LaunchFile p \<Rightarrow> path_text p | LaunchCommand n \<Rightarrow> n)"

definition first_line :: "string \<Rightarrow> string \<Rightarrow> string" where
  "first_line dflt raw = trim_str (case str_lines raw of l # _ \<Rightarrow> l | [] \<Rightarrow> dflt)"

definition probe_executor :: "AgentEnv \<Rightarrow> fsys \<Rightarrow> AgentConfig \<Rightarrow> string + string" where
  "probe_executor env fs c =
     (case resolve_executable env fs c of
        Inl err \<Rightarrow> Inl err
      | Inr exe \<Rightarrow>
          (let dir = Option.bind (ag_directory c) (\<lambda>d. if fs_is_dir fs (path_of_text d) then Some (path_of_text d) else None)
           in case en_probe env exe (case ag_version_arg c of Some a \<Rightarrow> a | None \<Rightarrow> ''--version'') dir of
                ProbeSpawnFailed err \<Rightarrow> Inl (([CHR 0xE6, CHR 0x97, CHR 0xA0, CHR 0xE6, CHR 0xB3, CHR 0x95, CHR 0xE5, CHR 0x90, CHR 0xAF, CHR 0xE5, CHR
      0x8A, CHR 0xA8] @ '' '') @ launcher_text exe @ '': '' @ err)
              | ProbeWaitFailed err \<Rightarrow> Inl ((''probe '' @ [CHR 0xE8, CHR 0xBF, CHR 0x90, CHR 0xE8, CHR 0xA1, CHR 0x8C, CHR 0xE9, CHR 0x94, CHR 0x99, CHR
      0xE8, CHR 0xAF, CHR 0xAF, CHR 0xEF, CHR 0xBC, CHR 0x9A]) @ err)
              | ProbeTimeout \<Rightarrow> Inl (''probe '' @ [CHR 0xE8, CHR 0xB6, CHR 0x85, CHR 0xE6, CHR 0x97, CHR 0xB6, CHR 0xEF, CHR 0xBC, CHR 0x88] @
      ''15s'' @ [CHR 0xEF, CHR 0xBC, CHR 0x89])
              | ProbeExited code out err \<Rightarrow>
                  (if code = Some 0 then
                     Inr (first_line ''executor ready'' (utf8_lossy out) @ ('' (managed: '' @ [CHR 0xE4, CHR 0xBB, CHR 0xBB, CHR 0xE5, CHR 0x8A, CHR 0xA1, CHR 0xE6, CHR 0x8C, CHR 0x89,
      CHR 0xE9, CHR 0x9C, CHR 0x80, CHR 0xE6, CHR 0x8B, CHR 0x89, CHR 0xE8, CHR 0xB5, CHR 0xB7] @ '')''))
                   else Inl ((''probe '' @ [CHR 0xE5, CHR 0xA4, CHR 0xB1, CHR 0xE8, CHR 0xB4, CHR 0xA5, CHR 0xEF, CHR 0xBC, CHR 0x88] @
      ''exit '') @ code_text code @ [CHR 0xEF, CHR 0xBC, CHR 0x89, CHR 0xEF, CHR 0xBC, CHR 0x9A] @ first_line ''unknown error'' (utf8_lossy err)))))"

definition connect_status :: "AgentEnv \<Rightarrow> fsys \<Rightarrow> nat \<Rightarrow> AgentConfig \<Rightarrow> AgentStatus" where
  "connect_status env fs now c =
     (case probe_executor env fs c of
        Inr message \<Rightarrow> AgentStatus_new now AgReady message
      | Inl err \<Rightarrow> AgentStatus_new now AgError ((''executor '' @ [CHR 0xE4, CHR 0xB8, CHR 0x8D, CHR 0xE5, CHR 0x8F, CHR 0xAF, CHR 0xE7, CHR 0x94, CHR 0xA8,
      CHR 0xEF, CHR 0xBC, CHR 0x9A]) @ err))"

text \<open>The intermediate state \<open>Checking\<close> is set and replaced while the manager is locked.\<close>

definition agent_connect :: "AgentEnv \<Rightarrow> fsys \<Rightarrow> nat \<Rightarrow> string \<Rightarrow> AgentManager \<Rightarrow> string + AgentStatus \<times> AgentManager" where
  "agent_connect env fs now i m =
     (case agent_get m i of
        None \<Rightarrow> Inl (''agent '' @ quoted_name i @ '' not found'')
      | Some e \<Rightarrow>
          (let s1 = AgentStatus_new now AgChecking ([CHR 0xE6, CHR 0xAD, CHR 0xA3, CHR 0xE5, CHR 0x9C, CHR 0xA8, CHR 0xE6, CHR 0xA3, CHR 0x80, CHR 0xE6, CHR 0x9F, CHR 0xA5] @ '' executor '' @ [CHR 0xE5, CHR 0xB0, CHR 0xB1, CHR 0xE7, CHR 0xBB, CHR 0xAA, CHR 0xE7, CHR 0x8A, CHR 0xB6, CHR 0xE6, CHR 0x80, CHR 0x81, CHR 0xE2, CHR 0x80, CHR 0xA6]);
               m1 = set_status i s1 m;
               s = connect_status env fs now (ae_config e)
           in Inr (s, set_status i s m1)))"

definition DISCONNECTED_MESSAGE :: string where
  "DISCONNECTED_MESSAGE = [CHR 0xE5, CHR 0xB7, CHR 0xB2, CHR 0xE6, CHR 0x96, CHR 0xAD, CHR 0xE5, CHR 0xBC, CHR 0x80, CHR 0xEF, CHR 0xBC,
      CHR 0x9B] @ ''CLI executor '' @ [CHR 0xE6, CHR 0x97, CHR 0xA0, CHR 0xE5, CHR 0xB8, CHR 0xB8, CHR 0xE9, CHR
      0xA9, CHR 0xBB, CHR 0xE8, CHR 0xBF, CHR 0x9B, CHR 0xE7, CHR 0xA8, CHR 0x8B, CHR 0xEF, CHR 0xBC, CHR 0x8C, CHR
      0xE4, CHR 0xBB, CHR 0xBB, CHR 0xE5, CHR 0x8A, CHR 0xA1, CHR 0xE6, CHR 0x97, CHR 0xB6, CHR 0xE6, CHR 0x8C, CHR
      0x89, CHR 0xE9, CHR 0x9C, CHR 0x80, CHR 0xE6, CHR 0x8B, CHR 0x89, CHR 0xE8, CHR 0xB5, CHR 0xB7]"

definition agent_disconnect :: "nat \<Rightarrow> string \<Rightarrow> AgentManager \<Rightarrow> string + AgentStatus \<times> AgentManager" where
  "agent_disconnect now i m =
     (case agent_get m i of
        None \<Rightarrow> Inl (''agent '' @ quoted_name i @ '' not found'')
      | Some e \<Rightarrow>
          (let s = AgentStatus_new now AgDisconnected DISCONNECTED_MESSAGE in Inr (s, set_status i s m)))"

fun state_text :: "AgentState \<Rightarrow> string" where
  "state_text AgConfigured = ''Configured''"
| "state_text AgChecking = ''Checking''"
| "state_text AgReady = ''Ready''"
| "state_text AgError = ''Error''"
| "state_text AgDisconnected = ''Disconnected''"

definition spawn_task :: "AgentEnv \<Rightarrow> fsys \<Rightarrow> AgentManager \<Rightarrow> string \<Rightarrow> string \<Rightarrow> path option \<Rightarrow> string + nat" where
  "spawn_task env fs m i task dir =
     (case agent_get m i of
        None \<Rightarrow> Inl (''agent '' @ quoted_name i @ '' not found'')
      | Some e \<Rightarrow>
          (if as_state (ae_status e) \<noteq> AgReady then
             Inl (''agent '' @ quoted_name i @ ('' '' @ [CHR 0xE6, CHR 0x9C, CHR 0xAA, CHR 0xE5, CHR 0xB0, CHR 0xB1, CHR 0xE7, CHR 0xBB, CHR 0xAA, CHR 0xEF,
      CHR 0xBC, CHR 0x88] @ ''state='') @ state_text (as_state (ae_status e)) @
               [CHR 0xEF, CHR 0xBC, CHR 0x89, CHR 0xEF, CHR 0xBC, CHR 0x9B, CHR 0xE8, CHR 0xAF, CHR 0xB7, CHR 0xE5, CHR 0x85,
      CHR 0x88, CHR 0xE8, CHR 0xBF, CHR 0x9E, CHR 0xE6, CHR 0x8E, CHR 0xA5, CHR 0xE6, CHR 0xA3, CHR 0x80, CHR 0xE6,
      CHR 0x9F, CHR 0xA5, CHR 0xEF, CHR 0xBC, CHR 0x9A] @ as_message (ae_status e))
           else case resolve_executable env fs (ae_config e) of
             Inl err \<Rightarrow> Inl err
           | Inr exe \<Rightarrow> en_spawn env exe task dir))"

section \<open>Browsing\<close>

record FsEntry =
  fe_name :: string
  fe_path :: string
  fe_is_dir :: bool

definition SELECTABLE_EXTENSIONS :: "string list" where
  "SELECTABLE_EXTENSIONS = [''exe'', ''lnk'', ''cmd'', ''bat'', ''com'']"

definition is_selectable :: "string \<Rightarrow> bool" where
  "is_selectable n = (case file_extension n of Some ext \<Rightarrow> to_lowercase ext \<in> set SELECTABLE_EXTENSIONS | None \<Rightarrow> False)"

definition strip_extended_prefix :: "path \<Rightarrow> string" where
  "strip_extended_prefix p =
     (case strip_prefix (path_text p) [CHR 0x5C, CHR 0x5C, CHR ''?'', CHR 0x5C] of Some rest \<Rightarrow> rest | None \<Rightarrow> path_text p)"

text \<open>The children of a directory, in the order of the tree; the sort below fixes the order of the listing up to names
  that agree without case.\<close>

definition dir_entries :: "fsys \<Rightarrow> path \<Rightarrow> (string \<times> node) list" where
  "dir_entries fs d = map (\<lambda>(q, n). (last q, n)) (filter (\<lambda>(q, n). q \<noteq> [] \<and> butlast q = d) (tree fs))"

definition browse :: "fsys \<Rightarrow> string \<Rightarrow> string + string \<times> FsEntry list" where
  "browse fs dir =
     (case fs_canonicalize fs (path_of_text dir) of
        Inl e \<Rightarrow> Inl (([CHR 0xE6, CHR 0x97, CHR 0xA0, CHR 0xE6, CHR 0xB3, CHR 0x95, CHR 0xE8, CHR 0xAE, CHR 0xBF, CHR 0xE9, CHR
      0x97, CHR 0xAE] @ '' '') @ dir @ '': '' @ io_text e)
      | Inr p \<Rightarrow>
          (if \<not> fs_is_dir fs p then Inl ([CHR 0xE4, CHR 0xB8, CHR 0x8D, CHR 0xE6, CHR 0x98, CHR 0xAF, CHR 0xE7, CHR 0x9B, CHR 0xAE, CHR 0xE5, CHR 0xBD,
      CHR 0x95, CHR 0xEF, CHR 0xBC, CHR 0x9A] @ path_text p)
           else
             (let visible = filter (\<lambda>(n, _). \<not> starts_with n ''.'') (dir_entries fs p);
                  entry = (\<lambda>d (n, _). \<lparr>fe_name = n, fe_path = strip_extended_prefix (p @ [n]), fe_is_dir = d\<rparr>);
                  directories = map (entry True) (filter (\<lambda>(_, nd). nd = DirNode) visible);
                  files = map (entry False) (filter (\<lambda>(n, nd). nd \<noteq> DirNode \<and> is_selectable n) visible)
              in Inr (strip_extended_prefix p,
                   sort_key (\<lambda>e. to_lowercase (fe_name e)) directories @ sort_key (\<lambda>e. to_lowercase (fe_name e)) files))))"


section \<open>The state machine of the agents\<close>

inductive agent_step :: "AgentEnv \<Rightarrow> AgentManager \<Rightarrow> AgentManager \<Rightarrow> bool" for env where
  step_create: "agent_create now c m = Inr (e, m') \<Longrightarrow> agent_step env m m'"
| step_remove: "agent_remove i m = Inr m' \<Longrightarrow> agent_step env m m'"
| step_connect: "agent_connect env fs now i m = Inr (s, m') \<Longrightarrow> agent_step env m m'"
| step_disconnect: "agent_disconnect now i m = Inr (s, m') \<Longrightarrow> agent_step env m m'"

inductive_cases agent_stepE: "agent_step env m m'"

definition well_kept :: "AgentManager \<Rightarrow> bool" where
  "well_kept m \<longleftrightarrow> distinct (map (\<lambda>e. ag_id (ae_config e)) m) \<and> list_all (\<lambda>e. config_validate (ae_config e) = Inr ()) m"

text \<open>A ready agent answered the readiness probe of its configuration on some state of the files.\<close>

definition probed :: "AgentEnv \<Rightarrow> AgentEntry \<Rightarrow> bool" where
  "probed env e \<longleftrightarrow> (as_state (ae_status e) = AgReady \<longrightarrow> (\<exists>fs. probe_executor env fs (ae_config e) = Inr (as_message (ae_status e))))"

lemma set_status_twice [simp]: "set_status i s (set_status i s' m) = set_status i s m"
  by (induction m) auto

lemma set_status_configs [simp]: "map ae_config (set_status i s m) = map ae_config m"
  by (induction m) auto

lemma set_status_ids [simp]: "map (\<lambda>e. ag_id (ae_config e)) (set_status i s m) = map (\<lambda>e. ag_id (ae_config e)) m"
proof -
  have "map ag_id (map ae_config (set_status i s m)) = map ag_id (map ae_config m)" by (simp only: set_status_configs)
  then show ?thesis unfolding map_map comp_def .
qed

lemma set_status_valid [simp]:
  "list_all (\<lambda>e. config_validate (ae_config e) = Inr ()) (set_status i s m) \<longleftrightarrow> list_all (\<lambda>e. config_validate (ae_config e) = Inr ()) m"
  by (induction m) auto

lemma set_status_all:
  "list_all P m \<Longrightarrow> (\<And>e. agent_get m i = Some e \<Longrightarrow> P (e\<lparr>ae_status := s\<rparr>)) \<Longrightarrow> list_all P (set_status i s m)"
  by (induction m) (auto simp: agent_get_def)

lemma agent_get_mem: "agent_get m i = Some e \<Longrightarrow> e \<in> set m \<and> ag_id (ae_config e) = i"
  by (auto simp: agent_get_def find_Some_iff)

lemma agent_get_None: "agent_get m i = None \<longleftrightarrow> i \<notin> (\<lambda>e. ag_id (ae_config e)) ` set m"
  by (auto simp: agent_get_def find_None_iff)

lemma step_well_kept: "agent_step env m m' \<Longrightarrow> well_kept m \<Longrightarrow> well_kept m'"
proof (erule agent_stepE)
  fix now c e assume "agent_create now c m = Inr (e, m')" and w: "well_kept m"
  then have "m' = m @ [configured_entry now c]" "agent_get m (ag_id c) = None" "config_validate c = Inr ()"
    by (auto simp: agent_create_def split: sum.splits if_splits)
  with w show "well_kept m'" by (auto simp: well_kept_def configured_entry_def agent_get_None)
next
  fix i assume "agent_remove i m = Inr m'" and w: "well_kept m"
  then have "m' = filter (\<lambda>e. ag_id (ae_config e) \<noteq> i) m" by (auto simp: agent_remove_def Let_def split: if_splits)
  with w show "well_kept m'" by (auto simp: well_kept_def distinct_map_filter list_all_iff)
qed (auto simp: well_kept_def agent_connect_def agent_disconnect_def Let_def split: option.splits)

lemma probed_not_ready: "as_state (ae_status e) \<noteq> AgReady \<Longrightarrow> probed env e"
  by (simp add: probed_def)

lemma create_effect: "agent_create now c m = Inr (e, m') \<Longrightarrow> m' = m @ [configured_entry now c]"
  by (auto simp: agent_create_def split: sum.splits if_splits)

lemma remove_effect: "agent_remove i m = Inr m' \<Longrightarrow> m' = filter (\<lambda>e. ag_id (ae_config e) \<noteq> i) m"
  by (auto simp: agent_remove_def Let_def split: if_splits)

lemma connect_effect:
  "agent_connect env fs now i m = Inr (s, m') \<Longrightarrow>
   \<exists>e. agent_get m i = Some e \<and> s = connect_status env fs now (ae_config e) \<and> m' = set_status i s m"
  by (auto simp: agent_connect_def Let_def split: option.splits)

lemma disconnect_effect:
  "agent_disconnect now i m = Inr (s, m') \<Longrightarrow> as_state s = AgDisconnected \<and> m' = set_status i s m"
  by (auto simp: agent_disconnect_def Let_def AgentStatus_new_def split: option.splits)

lemma connect_probed: "probed env (e\<lparr>ae_status := connect_status env fs now (ae_config e)\<rparr>)"
proof (cases "probe_executor env fs (ae_config e)")
  case (Inl err)
  then show ?thesis by (intro probed_not_ready) (simp add: connect_status_def AgentStatus_new_def)
next
  case (Inr message)
  then show ?thesis unfolding probed_def by (auto simp: connect_status_def AgentStatus_new_def intro!: exI [of _ fs])
qed

lemma step_probed: "agent_step env m m' \<Longrightarrow> list_all (probed env) m \<Longrightarrow> list_all (probed env) m'"
proof (induction rule: agent_step.induct)
  case (step_create now c m e m')
  have "probed env (configured_entry now c)" by (rule probed_not_ready) (simp add: configured_entry_def AgentStatus_new_def)
  with step_create create_effect [OF step_create(1)] show ?case by simp
next
  case (step_remove i m m')
  then show ?case using remove_effect [OF step_remove(1)] by (simp add: list_all_iff)
next
  case (step_connect fs now i m s m')
  from connect_effect [OF step_connect(1)] obtain e where e: "agent_get m i = Some e"
    "s = connect_status env fs now (ae_config e)" "m' = set_status i s m" by blast
  show ?case unfolding e(3) by (rule set_status_all [OF step_connect(2)]) (use e connect_probed in simp)
next
  case (step_disconnect now i m s m')
  note d = disconnect_effect [OF step_disconnect(1)]
  have "list_all (probed env) (set_status i s m)"
    by (rule set_status_all [OF step_disconnect(2)]) (rule probed_not_ready, use d in simp)
  with d show ?case by simp
qed

lemma load_members:
  assumes "e \<in> set (agents_load parse env now fs p)"
  shows "as_state (ae_status e) = AgConfigured" "e = default_codex_entry env now \<or> config_validate (ae_config e) = Inr ()"
  using assms
  by (auto simp: agents_load_def with_default_seed_def default_codex_entry_def configured_entry_def AgentStatus_new_def Let_def
      split: sum.splits option.splits if_splits)

text \<open>A task is handed only to an agent that answered its readiness probe. Starting from any loaded
  configuration and after any sequence of creations, removals, connections and disconnections, if a task is
  spawned on an agent then that agent exists, is Ready, its status message is what the probe of its current
  configuration answered, and the process is the executable its configuration resolves to.\<close>

theorem spawn_only_probed:
  assumes "(agent_step env)\<^sup>*\<^sup>* (agents_load parse env now fs0 p) m" and "spawn_task env fs m i task dir = Inr pid"
  shows "\<exists>e exe fs1. agent_get m i = Some e \<and> as_state (ae_status e) = AgReady \<and>
    probe_executor env fs1 (ae_config e) = Inr (as_message (ae_status e)) \<and>
    resolve_executable env fs (ae_config e) = Inr exe \<and> en_spawn env exe task dir = Inr pid"
proof -
  have "list_all (probed env) m" using assms(1)
  proof (induction rule: rtranclp_induct)
    case base
    then show ?case by (auto simp: list_all_iff probed_def dest: load_members(1))
  qed (blast intro: step_probed)
  moreover obtain e exe where e: "agent_get m i = Some e" "as_state (ae_status e) = AgReady"
      "resolve_executable env fs (ae_config e) = Inr exe" "en_spawn env exe task dir = Inr pid"
    using assms(2) by (auto simp: spawn_task_def split: option.splits if_splits sum.splits)
  ultimately show ?thesis using agent_get_mem [OF e(1)] by (auto simp: list_all_iff probed_def)
qed

text \<open>Agents stay unambiguous and valid. If the ids of the loaded agents are distinct and their configurations
  valid, this holds after every sequence of operations, so looking an agent up by its id finds the one there is.\<close>

theorem agents_well_kept:
  assumes "well_kept m0" and "(agent_step env)\<^sup>*\<^sup>* m0 m"
  shows "well_kept m \<and> (\<forall>e \<in> set m. agent_get m (ag_id (ae_config e)) = Some e)"
proof -
  have w: "well_kept m" using assms(2) by (induction rule: rtranclp_induct) (auto intro: assms(1) step_well_kept)
  have "agent_get m (ag_id (ae_config e)) = Some e" if "e \<in> set m" for e
  proof -
    have "agent_get m (ag_id (ae_config e)) \<noteq> None" using that by (auto simp: agent_get_None)
    then obtain e' where e': "agent_get m (ag_id (ae_config e)) = Some e'" by blast
    with w that have "e' = e"
      unfolding well_kept_def by (auto dest!: agent_get_mem simp: distinct_map inj_on_def)
    with e' show ?thesis by simp
  qed
  with w show ?thesis by blast
qed

text \<open>What survives a restart. Given an encoding that reads back what it wrote, loading the saved file of a manager
  with valid configurations gives the same configurations in the same order, none of them connected; but a
  manager without agents comes back with the default agent, so removing the last agent does not last.\<close>

theorem agents_reload:
  assumes "list_all (\<lambda>e. config_validate (ae_config e) = Inr ()) m"
    and "parse (print \<lparr>af_schema_version = 2, af_agents = map ae_config m\<rparr>) = Some \<lparr>af_schema_version = 2, af_agents = map ae_config m\<rparr>"
    and "utf8_valid (print \<lparr>af_schema_version = 2, af_agents = map ae_config m\<rparr>)"
    and "agents_save print m p fs = (fs', Inr ())" and "link_free fs" and "''..'' \<notin> set p"
  shows "agents_load parse env now fs' p =
    (if m = [] then with_default_seed env now else map (\<lambda>e. configured_entry now (ae_config e)) m)"
proof -
  let ?f = "\<lparr>af_schema_version = 2, af_agents = map ae_config m\<rparr>"
  obtain fs1 where fs1: "(case path_parent p of Some parent \<Rightarrow> fs_create_dir_all fs parent | None \<Rightarrow> Inr fs) = Inr fs1"
    and w: "fs_write_bytes fs1 p (print ?f) = Inr fs'"
    using assms(4) by (auto simp: agents_save_def Let_def split: sum.splits)
  have "link_free fs1"
  proof (cases "p = []")
    case False
    then have "fs_mkdirs fs [] (butlast p) = Inr fs1" using fs1 by (simp add: path_parent_def fs_create_dir_all_def)
    moreover have "''..'' \<notin> set ([] @ butlast p)" using assms(6) by (auto dest: in_set_butlastD)
    ultimately show ?thesis using mkdirs_link_free [OF assms(5)] by blast
  qed (use fs1 assms(5) in \<open>simp add: path_parent_def\<close>)
  then have "fs_read_to_string fs' p = Inr (print ?f)" by (rule read_written [OF _ assms(6) w assms(3)])
  moreover have "filter (\<lambda>c. config_validate c = Inr ()) (map ae_config m) = map ae_config m"
    using assms(1) by (auto simp: list_all_iff intro!: filter_True)
  ultimately show ?thesis using assms(2) by (simp add: agents_load_def Let_def comp_def)
qed


section \<open>Concrete runs\<close>

definition demo_agent_env :: AgentEnv where
  "demo_agent_env = \<lparr>en_probe = (\<lambda>_ _ _. ProbeExited (Some 0) ''codex 1.0'' []), en_spawn = (\<lambda>_ _ _. Inr 42),
     en_shortcut = (\<lambda>_. Inl ''no shell''), en_default_id = None, en_codex_exe = None, en_official_dir = None\<rparr>"

definition demo_seed :: AgentManager where
  "demo_seed = with_default_seed demo_agent_env 1"

definition demo_ready :: AgentManager where
  "demo_ready = set_status ''codex'' (connect_status demo_agent_env demo_fs 2 (ae_config (default_codex_entry demo_agent_env 1))) demo_seed"

lemma demo_connect: "agent_step demo_agent_env demo_seed demo_ready"
proof -
  have "agent_get demo_seed ''codex'' = Some (default_codex_entry demo_agent_env 1)" by code_simp
  then have "\<exists>s. agent_connect demo_agent_env demo_fs 2 ''codex'' demo_seed = Inr (s, demo_ready)"
    by (simp add: agent_connect_def demo_ready_def Let_def)
  then show ?thesis by (blast intro: step_connect)
qed

theorem spawn_only_probed_witness:
  "\<exists>e. agent_get demo_ready ''codex'' = Some e \<and> as_state (ae_status e) = AgReady \<and>
     resolve_executable demo_agent_env demo_fs (ae_config e) = Inr (LaunchCommand ''codex'')"
proof -
  have l: "agents_load (\<lambda>_. None) demo_agent_env 1 demo_fs [''w'', ''agents.json''] = demo_seed" by code_simp
  have "spawn_task demo_agent_env demo_fs demo_ready ''codex'' ''task'' None = Inr 42" by code_simp
  from spawn_only_probed [OF _ this, of "\<lambda>_. None" 1 demo_fs "[''w'', ''agents.json'']"] l demo_connect
  obtain e where e: "agent_get demo_ready ''codex'' = Some e" "as_state (ae_status e) = AgReady" by auto
  moreover have "resolve_executable demo_agent_env demo_fs (ae_config (the (agent_get demo_ready ''codex''))) = Inr (LaunchCommand ''codex'')"
    by code_simp
  ultimately show ?thesis by simp
qed

lemma demo_seed_kept: "well_kept demo_seed"
  by code_simp

theorem agents_well_kept_witness: "well_kept demo_ready \<and> demo_ready \<noteq> []"
proof -
  have "demo_ready \<noteq> []" by code_simp
  with agents_well_kept [OF demo_seed_kept r_into_rtranclp, of demo_agent_env, OF demo_connect] show ?thesis by blast
qed

theorem agents_reload_witness:
  "agents_load (\<lambda>_. Some AgentsFile_default) demo_agent_env 3 (fst (agents_save (\<lambda>_. ''{}'') [] [''w'', ''agents.json''] demo_fs)) [''w'', ''agents.json''] =
     with_default_seed demo_agent_env 3"
proof -
  have "snd (agents_save (\<lambda>_. ''{}'') [] [''w'', ''agents.json''] demo_fs) = Inr ()" by code_simp
  then obtain fs' where s: "agents_save (\<lambda>_. ''{}'') [] [''w'', ''agents.json''] demo_fs = (fs', Inr ())" by (metis prod.collapse)
  have "utf8_valid ''{}''" "link_free demo_fs" by code_simp+
  with agents_reload [of "[]" "\<lambda>_. Some AgentsFile_default" "\<lambda>_. ''{}''", OF _ _ _ s, of demo_agent_env 3] s show ?thesis
    by (simp add: AgentsFile_default_def)
qed

end
