(* ===== verification/Server_Session.thy ===== *)
theory Server_Session
  imports Task_Entry Agents
begin

text \<open>
  A session from the request to its end (\<open>experience-server/src/main.rs\<close>, the route \<open>POST /api/sessions\<close> and the thread it
  starts): the request is checked, the agent made ready, the session recorded; then either a process is
  spawned, which the worker of theory \<open>Sessions\<close> watches, or the task goes through task entry to a real session
  of the agent, after which the learning sink and the ledger run. What the thread does is one step here; HTTP
  itself is not modelled.
\<close>

section \<open>The request\<close>

record StartRequest =
  rq_agent_id :: string
  rq_task :: string
  rq_cwd :: "string option"
  rq_scope :: "string option"
  rq_capabilities :: "string list option"

type_synonym server = "App \<times> AgentManager"

definition parse_request :: "json \<Rightarrow> string + StartRequest" where
  "parse_request v =
     (case get_str v ''agent_id'' of
        None \<Rightarrow> Inl (''missing '' @ quoted_name ''agent_id'')
      | Some agent_id \<Rightarrow>
          (case get_str v ''task'' of
             None \<Rightarrow> Inl (''missing '' @ quoted_name ''task'')
           | Some task \<Rightarrow>
               Inr \<lparr>rq_agent_id = agent_id, rq_task = task, rq_cwd = get_str v ''cwd'', rq_scope = get_str v ''scope'',
                    rq_capabilities = map_option (List.map_filter as_str) (Option.bind (json_get v ''capabilities'') as_array)\<rparr>))"

fun check_capabilities :: "CapabilityPolicy \<Rightarrow> string list \<Rightarrow> string + unit" where
  "check_capabilities policy [] = Inr ()"
| "check_capabilities policy (c # cs) =
     (if \<not> is_known_capability c then Inl (''unknown capability '' @ quoted_name c)
      else if \<not> capability_within_policy policy c then
        Inl (''capability '' @ quoted_name c @ '' exceeds the policy for this scope'')
      else check_capabilities policy cs)"

definition ensure_ready :: "AgentEnv \<Rightarrow> fsys \<Rightarrow> nat \<Rightarrow> string \<Rightarrow> AgentManager \<Rightarrow> (string + unit) \<times> AgentManager" where
  "ensure_ready aenv fs now i m =
     (case agent_get m i of
        None \<Rightarrow> (Inl (''agent '' @ quoted_name i @ '' not found''), m)
      | Some e \<Rightarrow>
          (case as_state (ae_status e) of
             AgReady \<Rightarrow> (Inr (), m)
           | AgError \<Rightarrow>
               (Inl (''agent '' @ quoted_name i @ ('' '' @ [CHR 0xE5, CHR 0xA4, CHR 0x84, CHR 0xE4, CHR 0xBA, CHR 0x8E] @ '' error '' @ [CHR 0xE6, CHR 0x80, CHR
      0x81, CHR 0xEF, CHR 0xBC, CHR 0x8C, CHR 0xE8, CHR 0xAF, CHR 0xB7, CHR 0xE5, CHR 0x85, CHR 0x88, CHR 0xE4, CHR
      0xBF, CHR 0xAE, CHR 0xE5, CHR 0xA4, CHR 0x8D, CHR 0xEF, CHR 0xBC, CHR 0x9A]) @ as_message (ae_status e)), m)
           | AgChecking \<Rightarrow> (Inl (''agent '' @ [CHR 0xE6, CHR 0xAD, CHR 0xA3, CHR 0xE5, CHR 0x9C, CHR 0xA8, CHR 0xE6, CHR 0xA3, CHR 0x80, CHR
      0xE6, CHR 0x9F, CHR 0xA5, CHR 0xE4, CHR 0xB8, CHR 0xAD, CHR 0xEF, CHR 0xBC, CHR 0x8C, CHR 0xE8, CHR 0xAF, CHR
      0xB7, CHR 0xE7, CHR 0xA8, CHR 0x8D, CHR 0xE5, CHR 0x80, CHR 0x99, CHR 0xE9, CHR 0x87, CHR 0x8D, CHR 0xE8, CHR
      0xAF, CHR 0x95]), m)
           | _ \<Rightarrow>
               (case agent_connect aenv fs now i m of
                  Inl err \<Rightarrow> (Inl err, m)
                | Inr (s, m1) \<Rightarrow>
                    (if as_state s = AgReady then Inr ()
                     else Inl (''agent '' @ quoted_name i @ ('' '' @ [CHR 0xE6, CHR 0x9C, CHR 0xAA, CHR 0xE8, CHR 0x83, CHR 0xBD, CHR 0xE5, CHR 0xB0, CHR 0xB1, CHR 0xE7,
      CHR 0xBB, CHR 0xAA])), m1))))"

section \<open>The route\<close>

datatype StartOutcome =
    StartError string
  | StartFailed string
  | StartedChannel Session string path
  | StartedWorker Session nat

definition finish_start :: "Codecs \<Rightarrow> nat \<Rightarrow> string \<Rightarrow> string \<Rightarrow> App \<Rightarrow> App" where
  "finish_start cd now i err app =
     (case session_finish (cd_sessions_print cd) now i False err err (app_sessions app, app_fs app) of
        (ss, fs) \<Rightarrow> app\<lparr>app_sessions := ss, app_fs := fs\<rparr>)"

definition launch_session :: "Codecs \<Rightarrow> (string \<Rightarrow> string option) \<Rightarrow> AgentEnv \<Rightarrow> nat \<Rightarrow> StartRequest \<Rightarrow> Session \<Rightarrow> server \<Rightarrow> StartOutcome \<times> server" where
  "launch_session cd vars aenv now rq s = (\<lambda>(app, m).
     let entry = agent_get m (rq_agent_id rq);
         workspace = (case rq_cwd rq of Some d \<Rightarrow> path_of_text d | None \<Rightarrow> app_home app)
     in if Option.bind entry (\<lambda>e. ag_channel (ae_config e)) = Some ''session'' then
          (case map_option (\<lambda>e. resolve_executable aenv (app_fs app) (ae_config e)) entry of
             Some (Inr exe) \<Rightarrow>
               (case (case Option.bind entry (\<lambda>e. ag_codex_home (ae_config e)) of Some h \<Rightarrow> Some h | None \<Rightarrow> vars ''CODEX_HOME'') of
                  None \<Rightarrow> (StartError (''session channel '' @ [CHR 0xE9, CHR 0x9C, CHR 0x80, CHR 0xE8, CHR 0xA6, CHR 0x81] @ '' codex_home'' @ [CHR
      0xEF, CHR 0xBC, CHR 0x88] @ ''agent '' @ [CHR 0xE9, CHR 0x85, CHR 0x8D, CHR 0xE7, CHR 0xBD, CHR 0xAE, CHR
      0xE6, CHR 0x88, CHR 0x96, CHR 0xE7, CHR 0x8E, CHR 0xAF, CHR 0xE5, CHR 0xA2, CHR 0x83, CHR 0xE5, CHR 0x8F, CHR
      0x98, CHR 0xE9, CHR 0x87, CHR 0x8F] @ '' CODEX_HOME'' @ [CHR 0xEF, CHR 0xBC, CHR 0x89]), app, m)
                | Some codex_home \<Rightarrow>
                    (StartedChannel s codex_home workspace,
                     app\<lparr>app_sessions := register_cancel_flag (se_id s) False (app_sessions app)\<rparr>, m))
           | _ \<Rightarrow>
               (let err = (''agent executable '' @ [CHR 0xE6, CHR 0x97, CHR 0xA0, CHR 0xE6, CHR 0xB3, CHR 0x95, CHR 0xE8, CHR 0xA7, CHR
      0xA3, CHR 0xE6, CHR 0x9E, CHR 0x90, CHR 0xEF, CHR 0xBC, CHR 0x88] @ ''session channel'' @ [CHR 0xEF, CHR 0xBC,
      CHR 0x89])
                in (StartFailed err, finish_start cd now (se_id s) err app, m)))
        else
          (case spawn_task aenv (app_fs app) m (rq_agent_id rq) (rq_task rq) (map_option path_of_text (rq_cwd rq)) of
             Inr pid \<Rightarrow> (StartedWorker s pid, app\<lparr>app_sessions := register_child (se_id s) pid (app_sessions app)\<rparr>, m)
           | Inl err \<Rightarrow> (StartFailed err, finish_start cd now (se_id s) err app, m)))"

definition start_session :: "Codecs \<Rightarrow> (string \<Rightarrow> string option) \<Rightarrow> AgentEnv \<Rightarrow> nat \<Rightarrow> nat \<Rightarrow> json \<Rightarrow> server \<Rightarrow> StartOutcome \<times> server" where
  "start_session cd vars aenv nanos now v = (\<lambda>(app, m).
     case parse_request v of
       Inl err \<Rightarrow> (StartError err, app, m)
     | Inr rq \<Rightarrow>
         (case check_capabilities (policy_for_scope (app_store app) (rq_scope rq))
                 (case rq_capabilities rq of Some cs \<Rightarrow> cs | None \<Rightarrow> []) of
            Inl err \<Rightarrow> (StartError err, app, m)
          | Inr _ \<Rightarrow>
              (case ensure_ready aenv (app_fs app) now (rq_agent_id rq) m of
                 (Inl err, m1) \<Rightarrow> (StartError err, app, m1)
               | (Inr _, m1) \<Rightarrow>
                   (case session_create (cd_sessions_print cd) nanos now (rq_agent_id rq) (rq_task rq) (rq_cwd rq) (rq_scope rq)
                           (rq_capabilities rq) (app_sessions app, app_fs app) of
                      (s, ss, fs) \<Rightarrow>
                        launch_session cd vars aenv now rq s (app\<lparr>app_sessions := ss, app_fs := fs\<rparr>, m1)))))"

section \<open>The session of the agent\<close>

definition delegation_record :: "L3EntryContext \<Rightarrow> string \<Rightarrow> bool \<Rightarrow> nat \<Rightarrow> L1LedgerRecord" where
  "delegation_record ctx i ok now =
     entry_record (if ok then ''delegation_completed'' else ''delegation_failed'') (lc_plan ctx) i ''delegate''
       (Some (if lc_executed ctx \<noteq> None then ''v2_executed_then_delegate'' else ''v1_plan_aware''))
       (if ok then ''completed'' else ''failed'') now"

definition settle_session :: "Codecs \<Rightarrow> (string \<Rightarrow> string option) \<Rightarrow> L1Distiller option \<Rightarrow> nat \<Rightarrow> string \<Rightarrow> L3EntryContext option \<Rightarrow> DriverRun \<Rightarrow> App \<Rightarrow> App" where
  "settle_session cd vars llm now i ctx run app =
     (case channel_finish (cd_sessions_print cd) now i ''session completed'' None run (app_sessions app, app_fs app) of
        (ss, fs) \<Rightarrow>
          (let app1 = app\<lparr>app_sessions := ss, app_fs := fs\<rparr>
           in case dr_result run of
                Inl _ \<Rightarrow> app1
              | Inr oc \<Rightarrow>
                  (let app2 = (if so_ok oc then l1_sink_session cd vars llm now i app1 else app1)
                   in case ctx of
                        Some c \<Rightarrow> (if lc_track_delegation c then append_l1_ledger cd (delegation_record c i (so_ok oc) now) app2 else app2)
                      | None \<Rightarrow> app2)))"

text \<open>Task entry happens before the thread starts; \<^const>\<open>None\<close> when the host of the agent never comes to an end.\<close>

definition channel_session :: "Codecs \<Rightarrow> EntryEnv \<Rightarrow> L1Distiller option \<Rightarrow> HostEnv \<Rightarrow> string \<Rightarrow> string \<Rightarrow> path \<Rightarrow> App \<Rightarrow> App option" where
  "channel_session cd env llm henv i task workspace app =
     (case l3_entry cd env i task workspace app of
        (ctx, app1) \<Rightarrow>
          (let t = \<lparr>st_workspace = path_text workspace, st_task = (case ctx of Some c \<Rightarrow> lc_delegated_task c | None \<Rightarrow> task)\<rparr>
           in map_option (\<lambda>run. settle_session cd (ee_vars env) llm (ee_now env) i ctx run app1) (run_session_task_until_turn henv t)))"


section \<open>What a started session may rely on\<close>

fun started :: "StartOutcome \<Rightarrow> Session option" where
  "started (StartedChannel s _ _) = Some s"
| "started (StartedWorker s _) = Some s"
| "started _ = None"

lemma check_capabilities_iff:
  "check_capabilities policy cs = Inr () \<longleftrightarrow> list_all (\<lambda>c. is_known_capability c \<and> capability_within_policy policy c) cs"
  by (induction cs) auto

lemma ensure_ready_get:
  assumes "ensure_ready aenv fs now i m = (Inr u, m')"
  shows "\<exists>e. agent_get m' i = Some e \<and> as_state (ae_status e) = AgReady"
proof -
  have upd: "agent_get m i = Some e \<Longrightarrow> agent_get (set_status i s m) i = Some (e\<lparr>ae_status := s\<rparr>)" for e s
    unfolding agent_get_def by (induction m) (auto split: if_splits)
  from assms obtain e where e: "agent_get m i = Some e" by (auto simp: ensure_ready_def split: option.splits)
  show ?thesis
  proof (cases "as_state (ae_status e) = AgReady")
    case True
    with assms e show ?thesis by (simp add: ensure_ready_def)
  next
    case False
    with assms e obtain s where "agent_connect aenv fs now i m = Inr (s, m')" "as_state s = AgReady"
      by (auto simp: ensure_ready_def split: AgentState.splits sum.splits prod.splits if_splits)
    with connect_effect [of aenv fs now i m s m'] upd show ?thesis by auto
  qed
qed

text \<open>The steps of a start that got as far as recording the session.\<close>

lemma start_session_created:
  assumes "start_session cd vars aenv nanos now v (app, m) = (out, app', m')" and "started out = Some s"
  obtains rq ap1 where "parse_request v = Inr rq"
    and "list_all (\<lambda>c. is_known_capability c \<and> capability_within_policy (policy_for_scope (app_store app) (rq_scope rq)) c)
      (case rq_capabilities rq of Some cs \<Rightarrow> cs | None \<Rightarrow> [])"
    and "\<exists>e. agent_get m' (rq_agent_id rq) = Some e \<and> as_state (ae_status e) = AgReady"
    and "s = fst (session_create (cd_sessions_print cd) nanos now (rq_agent_id rq) (rq_task rq) (rq_cwd rq) (rq_scope rq)
      (rq_capabilities rq) (app_sessions app, app_fs app))"
    and "launch_session cd vars aenv now rq s (ap1, m') = (out, app', m')"
    and "ss_sessions (app_sessions ap1) = ss_sessions (app_sessions app) @ [s]"
proof -
  obtain rq where rq: "parse_request v = Inr rq"
    using assms by (cases "parse_request v") (auto simp: start_session_def)
  have cc: "check_capabilities (policy_for_scope (app_store app) (rq_scope rq)) (case rq_capabilities rq of Some cs \<Rightarrow> cs | None \<Rightarrow> []) = Inr ()"
    using assms rq by (auto simp: start_session_def split: sum.splits)
  obtain u m1 where er: "ensure_ready aenv (app_fs app) now (rq_agent_id rq) m = (Inr u, m1)"
    using assms rq cc by (auto simp: start_session_def split: sum.splits prod.splits)
  obtain s0 ss fs where cr: "session_create (cd_sessions_print cd) nanos now (rq_agent_id rq) (rq_task rq) (rq_cwd rq) (rq_scope rq)
      (rq_capabilities rq) (app_sessions app, app_fs app) = (s0, ss, fs)" by (metis prod_cases3)
  let ?ap = "app\<lparr>app_sessions := ss, app_fs := fs\<rparr>"
  have l: "launch_session cd vars aenv now rq s0 (?ap, m1) = (out, app', m')"
    using assms(1) rq cc er cr by (simp add: start_session_def)
  have m1: "m1 = m'" using l by (auto simp: launch_session_def Let_def split: if_splits option.splits sum.splits)
  have s0: "s0 = s" using l assms(2) by (auto simp: launch_session_def Let_def split: if_splits option.splits sum.splits)
  have "ss_sessions ss = ss_sessions (app_sessions app) @ [s0]" using cr by (auto simp: session_create_def Let_def)
  with that [of rq ?ap] rq cc ensure_ready_get [OF er] l cr m1 s0 show thesis by (simp add: check_capabilities_iff)
qed

lemma launch_registers:
  assumes "launch_session cd vars aenv now rq s (ap1, m') = (out, app', m')" and "started out = Some s"
  shows "ss_sessions (app_sessions app') = ss_sessions (app_sessions ap1) \<and>
    (bt_get (ss_children (app_sessions app')) (se_id s) \<noteq> None \<or> bt_get (ss_cancel_flags (app_sessions app')) (se_id s) \<noteq> None)"
  using assms
  by (auto simp: launch_session_def Let_def register_cancel_flag_def register_child_def map_simps
      split: if_splits option.splits sum.splits)



section \<open>A session without an executor\<close>

text \<open>A session channel without a Codex home leaves a session that runs for ever. If the request passes its checks, the
  agent is ready with an executable and the session channel, and neither its configuration nor the
  environment names a Codex home, then the route reports an error, yet the new session is recorded as
  Running; nothing executes it, and a request to cancel it is refused.\<close>

theorem missing_home_leaves_running:
  assumes "parse_request v = Inr rq"
    and "check_capabilities (policy_for_scope (app_store app) (rq_scope rq)) (case rq_capabilities rq of Some cs \<Rightarrow> cs | None \<Rightarrow> []) = Inr ()"
    and "agent_get m (rq_agent_id rq) = Some e" and "as_state (ae_status e) = AgReady"
    and "ag_channel (ae_config e) = Some ''session''" and "ag_codex_home (ae_config e) = None" and "vars ''CODEX_HOME'' = None"
    and "\<And>fs. \<exists>exe. resolve_executable aenv fs (ae_config e) = Inr exe"
    and "\<And>x. x \<in> set (ss_sessions (app_sessions app)) \<Longrightarrow> se_id x \<noteq> ''s-'' @ nat_digits nanos"
    and "bt_get (ss_children (app_sessions app)) (''s-'' @ nat_digits nanos) = None"
    and "bt_get (ss_cancel_flags (app_sessions app)) (''s-'' @ nat_digits nanos) = None"
  shows "\<exists>err app'. start_session cd vars aenv nanos now v (app, m) = (StartError err, app', m) \<and>
    map_option se_status (session_get (app_sessions app') (''s-'' @ nat_digits nanos)) = Some SessRunning \<and>
    isl (fst (session_cancel enc now' (''s-'' @ nat_digits nanos) (app_sessions app', fs)))"
proof -
  let ?i = "''s-'' @ nat_digits nanos"
  obtain s ss fs1 where cr: "session_create (cd_sessions_print cd) nanos now (rq_agent_id rq) (rq_task rq) (rq_cwd rq) (rq_scope rq)
      (rq_capabilities rq) (app_sessions app, app_fs app) = (s, ss, fs1)" by (metis prod_cases3)
  let ?ap = "app\<lparr>app_sessions := ss, app_fs := fs1\<rparr>"
  have s: "se_id s = ?i" "se_status s = SessRunning" and ss: "ss_sessions ss = ss_sessions (app_sessions app) @ [s]"
      "ss_children ss = ss_children (app_sessions app)" "ss_cancel_flags ss = ss_cancel_flags (app_sessions app)"
    using cr by (auto simp: session_create_def Let_def)
  obtain exe where exe: "resolve_executable aenv fs1 (ae_config e) = Inr exe" using assms(8) by blast
  obtain err where l: "launch_session cd vars aenv now rq s (?ap, m) = (StartError err, ?ap, m)"
    using assms(3,5,6,7) exe by (auto simp: launch_session_def Let_def)
  have "ensure_ready aenv (app_fs app) now (rq_agent_id rq) m = (Inr (), m)" using assms(3,4) by (simp add: ensure_ready_def)
  then have st: "start_session cd vars aenv nanos now v (app, m) = (StartError err, ?ap, m)"
    using assms(1,2) cr l by (simp add: start_session_def)
  have "find (\<lambda>x. se_id x = ?i) (xs @ [s]) = Some s" if "\<And>x. x \<in> set xs \<Longrightarrow> se_id x \<noteq> ?i" for xs
    using that s(1) by (induction xs) auto
  then have "session_get ss ?i = Some s" unfolding session_get_def ss using assms(9) by blast
  moreover have "isl (fst (session_cancel enc now' ?i (ss, fs)))" using assms(10,11) by (simp add: session_cancel_def ss)
  ultimately show ?thesis using st s(2) by (intro exI [of _ err] exI [of _ ?ap]) simp
qed


section \<open>Delegation and confidence\<close>

definition outside_usage :: "App \<Rightarrow> path \<Rightarrow> bool" where
  "outside_usage app q \<longleftrightarrow> \<not> prefix (app_home app @ [''usage.json'']) q"

lemma outside_home [simp]: "outside_usage app (app_home app @ n # r) \<longleftrightarrow> n \<noteq> ''usage.json''"
  unfolding outside_usage_def prefix_def by auto

lemma home_sibling: "prefix (app_home app @ [n]) q \<Longrightarrow> n \<noteq> ''usage.json'' \<Longrightarrow> outside_usage app q"
  by (auto elim!: prefixE)

lemma home_above: "prefix q (app_home app) \<Longrightarrow> outside_usage app q"
  unfolding outside_usage_def prefix_def by auto

lemma kept_ledger_usage:
  "plain_home app \<Longrightarrow> kept (outside_usage app) (app_fs app) (app_fs (append_l1_ledger cd x app))"
  by (rule kept_append_at) auto

lemma kept_persist_usage:
  "plain_home app \<Longrightarrow> kept (outside_usage app) (app_fs app) (app_fs (persist cd app))"
  by (rule kept_persist) (auto elim: home_sibling intro: home_above)

lemma kept_persist_locked:
  assumes "plain_home app" and "ss_home st = app_home app" and "link_free fs"
  shows "kept (outside_usage app) fs (persist_locked enc st fs)"
proof -
  let ?h = "app_home app"
  have h: "''..'' \<notin> set ?h" using assms by (auto simp: plain_home_def dest: clean_no_dots)
  have c: "clean_comp ''sessions.json''" by code_simp
  have p: "sessions_path ?h = ?h @ [''sessions.json'']" "''..'' \<notin> set (?h @ [''sessions.json''])"
    using home_file [OF assms(1) c] by (auto simp: sessions_path_def)
  have mk: "kept (outside_usage app) fs fs1" if "fs_create_dir_all fs ?h = Inr fs1" for fs1
    by (rule kept_create_dir_all [OF assms(3) h _ that]) (rule home_above)
  have wr: "kept (outside_usage app) fs1 fs2" if "link_free fs1" "fs_write_bytes fs1 (?h @ [''sessions.json'']) raw = Inr fs2" for fs1 fs2 raw
    by (rule kept_write [where R = "outside_usage app", OF that(1) p(2) _ that(2)]) simp
  define fs1 where "fs1 = (case fs_create_dir_all fs ?h of Inr x \<Rightarrow> x | Inl _ \<Rightarrow> fs)"
  have k1: "kept (outside_usage app) fs fs1"
    unfolding fs1_def using mk kept_refl [OF assms(3)] by (auto split: sum.split)
  have "persist_locked enc st fs = fs \<or> persist_locked enc st fs = fs1 \<or>
      (\<exists>raw fs2. fs_write_bytes fs1 (?h @ [''sessions.json'']) raw = Inr fs2 \<and> persist_locked enc st fs = fs2)"
    unfolding persist_locked_def Let_def assms(2) p(1) fs1_def [symmetric] by (auto split: option.split sum.split)
  then show ?thesis
    using k1 wr [OF kept_link_free [OF k1]] kept_refl [OF assms(3)] by (auto intro: kept_trans)
qed

lemma stream_home [simp]: "ss_home (fold (stream_event i) es st) = ss_home st"
  by (induction es arbitrary: st) (auto simp: stream_event_def update_trace_def update_running_def)

lemma kept_channel_finish:
  assumes "plain_home app" and "ss_home (app_sessions app) = app_home app"
  shows "kept (outside_usage app) (app_fs app) (snd (channel_finish enc now i txt' known run (app_sessions app, app_fs app)))"
proof -
  have lf: "link_free (app_fs app)" using assms(1) by (simp add: plain_home_def)
  have "kept (outside_usage app) (app_fs app) (snd (finish_session_channel enc now i ok summary thread (st, app_fs app)))"
    if "ss_home st = app_home app" for ok summary thread st
    using that kept_persist_locked [OF assms(1) _ lf] kept_refl [OF lf]
    by (simp add: finish_session_channel_def Let_def drop_executor_def)
  then show ?thesis using assms(2) by (auto simp: channel_finish_def Let_def split: sum.split)
qed

lemma kept_sink:
  assumes "plain_home app"
  shows "kept (outside_usage app) (app_fs app) (app_fs (l1_sink_session cd env llm now i app)) \<and>
    app_home (l1_sink_session cd env llm now i app) = app_home app"
proof -
  let ?R = "outside_usage app"
  have one: "kept ?R (app_fs app) (app_fs (append_l1_ledger cd x (app\<lparr>app_store := st\<rparr>)))" for x st
    using kept_ledger_usage [of "app\<lparr>app_store := st\<rparr>" cd x] assms by (simp add: plain_home_def outside_usage_def [abs_def])
  have two: "kept ?R (app_fs app) (app_fs (append_l1_ledger cd x (persist cd (app\<lparr>app_store := st\<rparr>))))" for x st
  proof -
    let ?a = "app\<lparr>app_store := st\<rparr>"
    have pa: "plain_home ?a" using assms by (simp add: plain_home_def)
    have k: "kept ?R (app_fs app) (app_fs (persist cd ?a))" using kept_persist_usage [OF pa, of cd] by (simp add: outside_usage_def [abs_def])
    have pb: "plain_home (persist cd ?a)" using kept_link_free [OF k] assms by (simp add: plain_home_def)
    have "kept ?R (app_fs (persist cd ?a)) (app_fs (append_l1_ledger cd x (persist cd ?a)))"
      using kept_ledger_usage [OF pb, of cd x] by (simp add: outside_usage_def [abs_def])
    with k show ?thesis by (rule kept_trans)
  qed
  have "link_free (app_fs app)" using assms by (simp add: plain_home_def)
  with one two show ?thesis
    by (auto simp: l1_sink_session_def Let_def kept_refl split: option.split sum.split prod.split)
qed

lemma sink_active:
  "active_in_scope (app_store (l1_sink_session cd env llm now i app)) sc = active_in_scope (app_store app) sc"
proof (cases "Option.bind (session_get (app_sessions app) i) (round_of cd)")
  case None
  then have "l1_sink_session cd env llm now i app = app"
    by (auto simp: l1_sink_session_def round_of_def split: option.splits bind_splits)
  then show ?thesis by simp
next
  case (Some rnd)
  then obtain s where s: "session_get (app_sessions app) i = Some s" "round_of cd s = Some rnd" by (auto split: bind_splits)
  let ?n = "candidate_name (round_task rnd)" and ?d = "l1_distiller_for env llm app"
  obtain r st where k: "sink_once rnd True (store_get (app_store app) ?n \<noteq> None) ?d (app_store app) = (r, st)" by fastforce
  have "active_in_scope st sc = active_in_scope (app_store app) sc"
    by (rule sink_once_effect [OF k]) (auto dest: insert_candidate_active(2) [of _ _ _ sc])
  with s k show ?thesis by (auto simp: l1_sink_session_def round_of_def Let_def split: sum.split option.split)
qed

text \<open>The outcome of a delegated task never touches the confidence in an experience. Once task entry is over,
  whatever the agent's session does, and whether it succeeds or fails, settling it leaves the usage
  file, and so every recorded score, exactly as it was; it changes neither the set of ACTIVE experiences of
  any scope nor their order, and after a session that did not succeed the store is untouched.\<close>

theorem delegation_keeps_confidence:
  assumes "plain_home app" and "ss_home (app_sessions app) = app_home app"
    and "app' = settle_session cd vars llm now i ctx run app"
  shows "node_at (app_fs app') (app_home app @ [''usage.json'']) = node_at (app_fs app) (app_home app @ [''usage.json'']) \<and>
    active_in_scope (app_store app') sc = active_in_scope (app_store app) sc \<and>
    ((\<forall>oc. dr_result run = Inr oc \<longrightarrow> \<not> so_ok oc) \<longrightarrow> app_store app' = app_store app)"
proof -
  let ?R = "outside_usage app"
  obtain ss fs where cf: "channel_finish (cd_sessions_print cd) now i ''session completed'' None run (app_sessions app, app_fs app) = (ss, fs)"
    by fastforce
  let ?a = "app\<lparr>app_sessions := ss, app_fs := fs\<rparr>"
  have k1: "kept ?R (app_fs app) fs"
    using kept_channel_finish [OF assms(1,2), of "cd_sessions_print cd" now i "''session completed''" None run] cf by simp
  have pa: "plain_home ?a" using kept_link_free [OF k1] assms(1) by (simp add: plain_home_def)
  let ?b = "\<lambda>ok. if ok then l1_sink_session cd vars llm now i ?a else ?a"
  have kb: "kept ?R (app_fs app) (app_fs (?b ok)) \<and> app_home (?b ok) = app_home app" for ok
    using kept_sink [OF pa, of cd vars llm now i] k1 by (auto simp: outside_usage_def [abs_def] intro: kept_trans)
  have pb: "plain_home (?b ok)" for ok using kb [of ok] assms(1) kept_link_free [of ?R] by (auto simp: plain_home_def)
  have kc: "kept ?R (app_fs app) (app_fs (append_l1_ledger cd x (?b ok)))" for x ok
    using kept_ledger_usage [OF pb [of ok], of cd x] kb [of ok] by (auto simp: outside_usage_def [abs_def] intro: kept_trans)
  have act: "active_in_scope (app_store (?b ok)) sc = active_in_scope (app_store app) sc" for ok
    using sink_active [of cd vars llm now i ?a sc] by simp
  have cases: "app' = ?a \<and> (\<forall>oc. dr_result run \<noteq> Inr oc) \<or>
      (\<exists>oc x. dr_result run = Inr oc \<and> (app' = ?b (so_ok oc) \<or> app' = append_l1_ledger cd x (?b (so_ok oc))))"
    unfolding assms(3) settle_session_def cf by (cases "dr_result run"; cases ctx) (auto simp: Let_def)
  have kept': "kept ?R (app_fs app) (app_fs app')" using cases k1 kb kc by auto
  moreover have "active_in_scope (app_store app') sc = active_in_scope (app_store app) sc" using cases act by auto
  moreover have "app_store app' = app_store app" if "\<forall>oc. dr_result run = Inr oc \<longrightarrow> \<not> so_ok oc" using cases that by auto
  ultimately show ?thesis by (auto simp: kept_def outside_usage_def)
qed


section \<open>Concrete runs\<close>

definition demo_request :: json where
  "demo_request = JObject [(''agent_id'', JString ''codex''), (''task'', JString ''touch it'')]"

definition demo_rq :: StartRequest where
  "demo_rq = \<lparr>rq_agent_id = ''codex'', rq_task = ''touch it'', rq_cwd = None, rq_scope = None, rq_capabilities = None\<rparr>"

lemma demo_parse: "parse_request demo_request = Inr demo_rq"
  by code_simp

lemma demo_agent: "\<exists>e. agent_get demo_ready ''codex'' = Some e \<and> as_state (ae_status e) = AgReady \<and>
    ag_executable (ae_config e) = Some ''codex'' \<and> ag_directory (ae_config e) = None \<and> ag_channel (ae_config e) = None \<and>
    ag_codex_home (ae_config e) = None"
proof -
  have "case agent_get demo_ready ''codex'' of None \<Rightarrow> False
    | Some e \<Rightarrow> as_state (ae_status e) = AgReady \<and> ag_executable (ae_config e) = Some ''codex'' \<and> ag_directory (ae_config e) = None \<and>
        ag_channel (ae_config e) = None \<and> ag_codex_home (ae_config e) = None" by code_simp
  then show ?thesis by (auto split: option.splits)
qed

lemma demo_resolve:
  "ag_executable c = Some ''codex'' \<Longrightarrow> ag_directory c = None \<Longrightarrow> resolve_executable demo_agent_env fs c = Inr (LaunchCommand ''codex'')"
proof -
  have "component_count ''codex'' = 1" "\<not> starts_with ''codex'' ''/''" by code_simp+
  then show "ag_executable c = Some ''codex'' \<Longrightarrow> ag_directory c = None \<Longrightarrow> ?thesis" by (simp add: resolve_executable_def)
qed


theorem missing_home_leaves_running_witness:
  "\<exists>err app' m. start_session demo_codecs (\<lambda>_. None) demo_agent_env 5 6 demo_request (demo_app, m) = (StartError err, app', m) \<and>
    map_option se_status (session_get (app_sessions app') ''s-5'') = Some SessRunning \<and>
    isl (fst (session_cancel demo_codec 7 ''s-5'' (app_sessions app', demo_fs)))"
proof -
  obtain e :: AgentEntry where e: "as_state (ae_status e) = AgReady" "ag_id (ae_config e) = ''codex''"
    "ag_executable (ae_config e) = Some ''codex''" "ag_directory (ae_config e) = None" "ag_codex_home (ae_config e) = None"
  proof -
    have "list_all (\<lambda>e. as_state (ae_status e) = AgReady \<and> ag_id (ae_config e) = ''codex'' \<and> ag_executable (ae_config e) = Some ''codex'' \<and>
      ag_directory (ae_config e) = None \<and> ag_codex_home (ae_config e) = None) demo_ready \<and> demo_ready \<noteq> []" by code_simp
    then show thesis by (intro that [of "hd demo_ready"]) (auto simp: list_all_iff)
  qed
  let ?e = "e\<lparr>ae_config := (ae_config e)\<lparr>ag_channel := Some ''session''\<rparr>\<rparr>"
  have g: "agent_get [?e] (rq_agent_id demo_rq) = Some ?e" using e by (simp add: agent_get_def demo_rq_def)
  have i: "''s-'' @ nat_digits 5 = ''s-5''" by code_simp
  have n: "bt_get (ss_children (app_sessions demo_app)) ''s-5'' = None" "bt_get (ss_cancel_flags (app_sessions demo_app)) ''s-5'' = None"
    by (simp_all add: demo_world_def session_create_def fresh_world_def Let_def bt_get_def)
  have "\<exists>err app'. start_session demo_codecs (\<lambda>_. None) demo_agent_env 5 6 demo_request (demo_app, [?e]) = (StartError err, app', [?e]) \<and>
    map_option se_status (session_get (app_sessions app') (''s-'' @ nat_digits 5)) = Some SessRunning \<and>
    isl (fst (session_cancel demo_codec 7 (''s-'' @ nat_digits 5) (app_sessions app', demo_fs)))"
    by (rule missing_home_leaves_running [OF demo_parse _ g])
      (use e n demo_world_sessions demo_sess_fields i in \<open>auto simp: demo_rq_def demo_resolve\<close>)
  then show ?thesis unfolding i by blast
qed

theorem delegation_keeps_confidence_witness:
  "active_in_scope (app_store (settle_session demo_codecs (\<lambda>_. None) None 7 ''s-1'' None
       (outcome_success ''t-9'' [Submitted, Accepted, AgentStarted, TurnCompleted]) demo_app)) None = active_in_scope demo_store None"
proof -
  have "plain_home demo_app" unfolding plain_home_def demo_app_fields by code_simp
  moreover have "ss_home (app_sessions demo_app) = app_home demo_app" by (simp add: demo_world_sessions)
  ultimately show ?thesis
    using delegation_keeps_confidence [of demo_app _ demo_codecs "\<lambda>_. None" None 7 "''s-1''" None
      "outcome_success ''t-9'' [Submitted, Accepted, AgentStarted, TurnCompleted]" None] by simp
qed

end
