(* ===== verification/Admin.thy ===== *)
theory Admin
  imports Task_Entry Agents
begin

text \<open>
  The administration routes of the server (\<open>experience-server/src/main.rs\<close>, function \<open>routes\<close>): capability policies,
  backups, experiences with their metadata, drafts and status, import and export, settings, agents, and the
  promotion of a reference. A request is answered with a status code and a JSON value; an \<open>Err\<close> that leaves
  \<open>routes\<close> becomes a 400 (function \<open>handle_api\<close>). A panic ends the thread of the request: it drops the connection and
  poisons the mutex of the store if the thread holds it, and every later \<open>lock().unwrap()\<close> on it panics too. The serde
  encodings, the clock and the language model behind the compiler are the record \<open>AdminEnv\<close>.
\<close>

section \<open>Answers and the lock of the store\<close>

datatype Reply = Answer nat json | Dropped

record AdminEnv =
  ad_codecs :: Codecs
  ad_now :: nat
  ad_scratch :: path
  ad_vars :: "string \<Rightarrow> string option"
  ad_agent :: AgentEnv
  ad_json :: "string \<Rightarrow> string + json"
  ad_exp_str :: "string \<Rightarrow> string + Experience"
  ad_exp_value :: "json \<Rightarrow> string + Experience"
  ad_exp_json :: "Experience \<Rightarrow> json"
  ad_policy_value :: "json \<Rightarrow> string + CapabilityPolicy"
  ad_policy_json :: "CapabilityPolicy \<Rightarrow> json"
  ad_config_str :: "string \<Rightarrow> string + AgentConfig"
  ad_config_print :: "AgentsFile \<Rightarrow> string"
  ad_status_json :: "AgentStatus \<Rightarrow> json"
  ad_manifest :: "string \<Rightarrow> string + BackupManifest"
  ad_f64 :: "json \<Rightarrow> rat option"
  ad_compile :: "Launcher \<Rightarrow> string option \<Rightarrow> string \<Rightarrow> string option"

record Server =
  srv_app :: App
  srv_agents :: AgentManager
  srv_poisoned :: bool

type_synonym route = "Server \<Rightarrow> Reply \<times> Server"

definition error_json :: "string \<Rightarrow> json" where
  "error_json message = json_object [(''error'', JString message)]"

definition bad_request :: "string \<Rightarrow> Reply" where
  "bad_request message = Answer 400 (error_json message)"

definition missing_route :: "string \<Rightarrow> Reply" where
  "missing_route message = Answer 404 (error_json message)"

definition method_not_allowed :: Reply where
  "method_not_allowed = Answer 405 (error_json ''method not allowed'')"

definition ok_json :: json where
  "ok_json = json_object [(''ok'', JBool True)]"

definition lock_store :: "(App \<Rightarrow> route) \<Rightarrow> route" where
  "lock_store body srv = (if srv_poisoned srv then (Dropped, srv) else body (srv_app srv) srv)"

definition with_app :: "Reply \<Rightarrow> App \<Rightarrow> route" where
  "with_app reply app srv = (reply, srv\<lparr>srv_app := app\<rparr>)"

definition with_json :: "AdminEnv \<Rightarrow> string \<Rightarrow> (json \<Rightarrow> route) \<Rightarrow> route" where
  "with_json env body f srv =
     (case ad_json env body of Inl err \<Rightarrow> (bad_request err, srv) | Inr v \<Rightarrow> f v srv)"

definition admin_record :: "AdminEnv \<Rightarrow> string \<Rightarrow> string \<Rightarrow> string \<Rightarrow> string option \<Rightarrow> string option \<Rightarrow> string option \<Rightarrow> L1LedgerRecord" where
  "admin_record env kind name action from to reason =
     \<lparr>lr_record_type = kind, lr_candidate_name = name, lr_session_id = None, lr_thread_id = None, lr_trace_version = None,
      lr_action = Some action, lr_from = from, lr_to = to, lr_reason = reason, lr_outcome = ''ok'', lr_recorded_at = ad_now env\<rparr>"

text \<open>Keep the new store, write it, append the record.\<close>

definition settle :: "AdminEnv \<Rightarrow> ExperienceStore \<Rightarrow> L1LedgerRecord \<Rightarrow> App \<Rightarrow> App" where
  "settle env store rec app = append_l1_ledger (ad_codecs env) rec (persist (ad_codecs env) (app\<lparr>app_store := store\<rparr>))"

definition text_or :: "string \<Rightarrow> string option \<Rightarrow> string" where
  "text_or d v = (case v of Some x \<Rightarrow> x | None \<Rightarrow> d)"

definition request_actor :: "AdminEnv \<Rightarrow> string \<Rightarrow> string" where
  "request_actor env body =
     (case ad_json env body of Inr v \<Rightarrow> text_or ''user'' (get_str v ''actor'') | Inl _ \<Rightarrow> ''user'')"

definition validate_editable_body :: "Experience \<Rightarrow> string + unit" where
  "validate_editable_body e =
     (if \<not> is_schema_valid e then Inl ((''schema invalid (name/workflow/postconditions '' @ [CHR 0xE4, CHR 0xB8, CHR 0x8D, CHR 0xE5, CHR 0x8F, CHR 0xAF, CHR 0xE4, CHR 0xB8, CHR 0xBA, CHR 0xE7, CHR 0xA9, CHR 0xBA] @ '')''))
      else case validate_tool_boundary e of Inl issue \<Rightarrow> Inl (''tool boundary: '' @ issue) | Inr _ \<Rightarrow> Inr ())"

definition exp_missing :: "string \<Rightarrow> string" where
  "exp_missing name = ''experience '' @ quoted_name name @ '' not found''"

section \<open>Policies, backups and settings\<close>

definition policy_clear :: "AdminEnv \<Rightarrow> string \<Rightarrow> string \<Rightarrow> route" where
  "policy_clear env scope actor = lock_store (\<lambda>app.
     case set_scope_policy scope None (app_store app) of
       Inl err \<Rightarrow> Pair (bad_request (store_error_text err))
     | Inr store \<Rightarrow>
         (case save (cd_store_print (ad_codecs env)) (app_fs app) store of
            (fs, saved) \<Rightarrow>
              (let app1 = app\<lparr>app_store := store, app_fs := fs\<rparr>
               in case saved of
                    Inl err \<Rightarrow> with_app (Answer 500 (error_json (store_error_text err))) app1
                  | Inr _ \<Rightarrow>
                      with_app
                        (Answer 200 (json_object [(''ok'', JBool True), (''scope'', JString scope), (''cleared'', JBool True),
                           (''effective'', ad_policy_json env (policy_for_scope store (if scope \<noteq> GLOBAL_SCOPE_KEY then Some scope else None)))]))
                        (append_policy_ledger (ad_codecs env) (ad_now env) scope actor ''cleared'' None app1))))"

definition policy_set :: "AdminEnv \<Rightarrow> string \<Rightarrow> string \<Rightarrow> CapabilityPolicy \<Rightarrow> route" where
  "policy_set env scope actor policy = lock_store (\<lambda>app.
     case set_scope_policy scope (Some policy) (app_store app) of
       Inl err \<Rightarrow> Pair (bad_request (store_error_text err))
     | Inr store \<Rightarrow>
         (case save (cd_store_print (ad_codecs env)) (app_fs app) store of
            (fs, saved) \<Rightarrow>
              (let app1 = app\<lparr>app_store := store, app_fs := fs\<rparr>
               in case saved of
                    Inl err \<Rightarrow> with_app (Answer 500 (error_json (store_error_text err))) app1
                  | Inr _ \<Rightarrow>
                      with_app (Answer 200 (json_object [(''ok'', JBool True), (''scope'', JString scope), (''policy'', ad_policy_json env policy)]))
                        (append_policy_ledger (ad_codecs env) (ad_now env) scope actor ''set'' (Some (policy_summary policy)) app1))))"

definition put_policy :: "AdminEnv \<Rightarrow> string \<Rightarrow> route" where
  "put_policy env body srv =
     (case ad_json env body of
        Inl err \<Rightarrow> (bad_request (''invalid policy body: '' @ err), srv)
      | Inr v \<Rightarrow>
          (let scope = text_or GLOBAL_SCOPE_KEY (get_str v ''scope''); actor = text_or ''local-user'' (get_str v ''actor'')
           in if Option.bind (json_get v ''clear'') as_bool = Some True then policy_clear env scope actor srv
              else case map_option (ad_policy_value env) (json_get v ''policy'') of
                None \<Rightarrow> (bad_request (''missing '' @ quoted_name ''policy'' @ '' object''), srv)
              | Some (Inl err) \<Rightarrow> (bad_request (''invalid policy body: '' @ err), srv)
              | Some (Inr policy) \<Rightarrow>
                  (case validate_policy policy of
                     Inl problem \<Rightarrow> (bad_request (''invalid policy: '' @ problem), srv)
                   | Inr _ \<Rightarrow> policy_set env scope actor policy srv)))"

definition restore_record :: "AdminEnv \<Rightarrow> string \<Rightarrow> string \<Rightarrow> string \<Rightarrow> RestoreReport \<Rightarrow> L1LedgerRecord" where
  "restore_record env session actor snapshot report =
     (admin_record env ''backup_restored'' session ''restore'' None None
        (Some (''actor='' @ actor @ '';snapshot='' @ snapshot @ '';restored='' @ nat_digits (length (rr_restored report)) @
          '';deleted='' @ nat_digits (length (rr_deleted report)))))
     \<lparr>lr_session_id := Some session, lr_outcome := ''completed''\<rparr>"

definition restore_backup :: "AdminEnv \<Rightarrow> string \<Rightarrow> string \<Rightarrow> route" where
  "restore_backup env session body srv =
     (if \<not> valid_backup_id session then (bad_request (''invalid '' @ quoted_name ''session''), srv)
      else case ad_json env body of
        Inl err \<Rightarrow> (bad_request (''invalid restore body: '' @ err), srv)
      | Inr v \<Rightarrow>
          (let snapshot = text_or [] (get_str v ''snapshot''); app = srv_app srv;
               manifest = path_join (path_join (path_join (path_join (app_home app) ''backups'') session) snapshot) ''manifest.json''
           in if \<not> valid_backup_id snapshot then (bad_request (''missing or invalid '' @ quoted_name ''snapshot''), srv)
              else if \<not> fs_exists (app_fs app) manifest then (missing_route ''backup snapshot not found'', srv)
              else case restore_from_manifest (ad_manifest env) (app_fs app) manifest of
                (fs, Inl err) \<Rightarrow> (bad_request (''restore failed: '' @ err), srv\<lparr>srv_app := app\<lparr>app_fs := fs\<rparr>\<rparr>)
              | (fs, Inr report) \<Rightarrow>
                  with_app
                    (Answer 200 (json_object [(''ok'', JBool True), (''snapshot'', JString snapshot),
                       (''restored'', JArray (map JString (rr_restored report))), (''deleted'', JArray (map JString (rr_deleted report)))]))
                    (append_l1_ledger (ad_codecs env)
                       (restore_record env session (text_or ''local-user'' (get_str v ''actor'')) snapshot report) (app\<lparr>app_fs := fs\<rparr>)) srv))"

definition settings_json :: "Settings \<Rightarrow> json" where
  "settings_json s = json_object [(''llm_compiler'', JBool (set_llm_compiler s)), (''injection_policy'', JBool (set_injection_policy s)),
     (''undo_keep'', JNumber (int (set_undo_keep s)))]"

definition updated_settings :: "json \<Rightarrow> Settings \<Rightarrow> Settings" where
  "updated_settings v s =
     \<lparr>set_llm_compiler = (case Option.bind (json_get v ''llm_compiler'') as_bool of Some b \<Rightarrow> b | None \<Rightarrow> set_llm_compiler s),
      set_injection_policy = (case Option.bind (json_get v ''injection_policy'') as_bool of Some b \<Rightarrow> b | None \<Rightarrow> set_injection_policy s),
      set_undo_keep = (case Option.bind (json_get v ''undo_keep'') as_u64 of Some n \<Rightarrow> nat (max 1 (min n 200)) | None \<Rightarrow> set_undo_keep s)\<rparr>"

definition put_settings :: "AdminEnv \<Rightarrow> string \<Rightarrow> route" where
  "put_settings env body srv =
     (case ad_json env body of
        Inl err \<Rightarrow> (bad_request (''invalid settings body: '' @ err), srv)
      | Inr v \<Rightarrow>
          (let app = srv_app srv; s = updated_settings v (app_settings app)
           in case settings_save (ad_codecs env) s (app_home app) (app_fs app) of
                (fs, saved) \<Rightarrow>
                  (let app1 = app\<lparr>app_settings := s, app_fs := fs\<rparr>
                   in case saved of
                        Inl err \<Rightarrow> with_app (Answer 500 (error_json err)) app1 srv
                      | Inr _ \<Rightarrow>
                          (let app2 = append_l1_ledger (ad_codecs env)
                                 (admin_record env ''settings_updated'' ''settings'' ''set_settings'' None None
                                   (Some (''actor='' @ text_or ''local-user'' (get_str v ''actor'') @ '';llm_compiler='' @ bool_text (set_llm_compiler s) @
                                     '';injection_policy='' @ bool_text (set_injection_policy s) @ '';undo_keep='' @ nat_digits (set_undo_keep s)))) app1
                           in with_app
                                (Answer 200 (json_object [(''ok'', JBool True), (''settings'', settings_json s),
                                   (''effective'', json_object [(''llm_compiler'', JBool (llm_compiler_setting (ad_vars env) app2)),
                                      (''injection_policy'', JBool (injection_policy_setting (ad_vars env) app2))])]))
                                app2 srv))))"

section \<open>Experiences\<close>

definition insert_experience :: "AdminEnv \<Rightarrow> string \<Rightarrow> route" where
  "insert_experience env body srv =
     (case ad_exp_str env body of
        Inl err \<Rightarrow> (bad_request (''invalid experience body: '' @ err), srv)
      | Inr e \<Rightarrow>
          lock_store (\<lambda>app.
            case store_insert e (app_store app) of
              Inl err \<Rightarrow> Pair (bad_request (store_error_text err))
            | Inr store \<Rightarrow> with_app (Answer 201 ok_json) (persist (ad_codecs env) (app\<lparr>app_store := store\<rparr>))) srv)"

definition delete_experience :: "AdminEnv \<Rightarrow> string \<Rightarrow> route" where
  "delete_experience env name = lock_store (\<lambda>app.
     case store_remove name (app_store app) of
       Inl err \<Rightarrow> Pair (bad_request (store_error_text err))
     | Inr store \<Rightarrow> with_app (Answer 200 ok_json) (persist (ad_codecs env) (app\<lparr>app_store := store\<rparr>)))"

definition scope_route :: "AdminEnv \<Rightarrow> string \<Rightarrow> string \<Rightarrow> route" where
  "scope_route env name body = with_json env body (\<lambda>v. lock_store (\<lambda>app.
     let scope = get_str v ''scope''
     in case set_scope name scope (app_store app) of
          Inl err \<Rightarrow> Pair (bad_request (store_error_text err))
        | Inr store \<Rightarrow>
            with_app (Answer 200 (json_object [(''ok'', JBool True), (''scope'', opt_json scope)]))
              (settle env store
                 (admin_record env ''scoped'' name ''set_scope'' None None
                    (Some (''scope='' @ text_or ''(unscoped)'' scope @ '';actor='' @ text_or ''user'' (get_str v ''actor'')))) app)))"

definition display_name_route :: "AdminEnv \<Rightarrow> string \<Rightarrow> string \<Rightarrow> route" where
  "display_name_route env name body = with_json env body (\<lambda>v. lock_store (\<lambda>app.
     let display = (case map_option trim_str (get_str v ''display_name'') of Some t \<Rightarrow> (if t \<noteq> [] then Some t else None) | None \<Rightarrow> None)
     in case set_display_name name display (app_store app) of
          Inl err \<Rightarrow> Pair (bad_request (store_error_text err))
        | Inr store \<Rightarrow>
            with_app (Answer 200 (json_object [(''ok'', JBool True), (''display_name'', opt_json display)]))
              (settle env store
                 (admin_record env ''renamed'' name ''set_display_name'' None None
                    (Some (''display_name='' @ text_or ''(cleared)'' display @ '';actor='' @ text_or ''user'' (get_str v ''actor'')))) app)))"

text \<open>The two setters run one after the other on the locked store: if the second refuses, the first has happened.\<close>

definition preference_route :: "AdminEnv \<Rightarrow> string \<Rightarrow> string \<Rightarrow> route" where
  "preference_route env name body = with_json env body (\<lambda>v. lock_store (\<lambda>app.
     let usage = get_str v ''usage''; confidence = Option.bind (json_get v ''confidence'') (ad_f64 env)
     in case set_user_usage name usage (app_store app) of
          Inl err \<Rightarrow> Pair (bad_request (store_error_text err))
        | Inr store1 \<Rightarrow>
            (case set_user_confidence name confidence store1 of
               Inl err \<Rightarrow> with_app (bad_request (store_error_text err)) (app\<lparr>app_store := store1\<rparr>)
             | Inr store2 \<Rightarrow>
                 with_app (Answer 200 ok_json)
                   (settle env store2
                      (admin_record env ''preference_updated'' name ''set_user_preference'' None None
                         (Some (''usage='' @ text_or ''auto'' usage @ '';confidence='' @
                            text_or ''neutral'' (map_option score_text confidence) @ '';reason='' @ text_or [] (get_str v ''reason'') @
                            '';actor='' @ text_or ''user'' (get_str v ''actor'')))) app))))"

definition DRAFT_SUFFIX :: string where "DRAFT_SUFFIX = ''__draft''"

definition draft_route :: "AdminEnv \<Rightarrow> string \<Rightarrow> string \<Rightarrow> route" where
  "draft_route env name body srv =
     (if ends_with name DRAFT_SUFFIX then (bad_request ((''draft '' @ [CHR 0xE4, CHR 0xB8, CHR 0x8D, CHR 0xE8, CHR 0x83, CHR 0xBD, CHR 0xE5, CHR 0x86, CHR 0x8D] @ '' draft'')), srv)
      else lock_store (\<lambda>app.
        case store_get (app_store app) name of
          None \<Rightarrow> Pair (bad_request (exp_missing name))
        | Some original \<Rightarrow>
            (if store_get (app_store app) (name @ DRAFT_SUFFIX) \<noteq> None then Pair (bad_request ((''draft '' @ [CHR 0xE5, CHR 0xB7, CHR 0xB2, CHR 0xE5, CHR 0xAD, CHR 0x98, CHR 0xE5, CHR 0x9C, CHR 0xA8])))
             else case store_insert (original\<lparr>exp_name := name @ DRAFT_SUFFIX, exp_status := Draft\<rparr>) (app_store app) of
               Inl err \<Rightarrow> Pair (bad_request (store_error_text err))
             | Inr store \<Rightarrow>
                 with_app (Answer 201 ok_json)
                   (settle env store
                      (admin_record env ''drafted'' (name @ DRAFT_SUFFIX) ''draft'' (Some name) (Some (name @ DRAFT_SUFFIX))
                         (Some (''actor:'' @ request_actor env body))) app))) srv)"

definition body_route :: "AdminEnv \<Rightarrow> string \<Rightarrow> string \<Rightarrow> route" where
  "body_route env name body srv =
     (case ad_exp_str env body of
        Inl err \<Rightarrow> (bad_request (''invalid experience body: '' @ err), srv)
      | Inr edited \<Rightarrow>
          (case validate_editable_body edited of
             Inl issue \<Rightarrow> (bad_request issue, srv)
           | Inr _ \<Rightarrow>
               lock_store (\<lambda>app.
                 case store_get (app_store app) name of
                   None \<Rightarrow> Pair (bad_request (exp_missing name))
                 | Some current \<Rightarrow>
                     (if exp_status current \<noteq> Draft then Pair (bad_request (([CHR 0xE4, CHR 0xBB, CHR 0x85] @ '' draft '' @ [CHR 0xE5, CHR 0x8F, CHR 0xAF, CHR 0xE7, CHR 0xBC, CHR 0x96, CHR 0xE8, CHR 0xBE, CHR 0x91, CHR 0xEF, CHR 0xBC, CHR 0x9B, CHR 0xE8, CHR 0xAF, CHR 0xB7, CHR 0xE5, CHR 0x85, CHR 0x88] @ '' POST /draft'')))
                      else case replace_existing name (edited\<lparr>exp_name := name\<rparr>) (app_store app) of
                        Inl err \<Rightarrow> Pair (bad_request (store_error_text err))
                      | Inr store \<Rightarrow>
                          with_app (Answer 200 ok_json)
                            (settle env store
                               (admin_record env ''edited'' name ''edit_body'' None None (Some (''actor:'' @ request_actor env body))) app))) srv))"

definition adopt_route :: "AdminEnv \<Rightarrow> string \<Rightarrow> string \<Rightarrow> route" where
  "adopt_route env name body srv =
     (case strip_suffix name DRAFT_SUFFIX of
        None \<Rightarrow> (bad_request ((''adopt '' @ [CHR 0xE7, CHR 0x9B, CHR 0xAE, CHR 0xE6, CHR 0xA0, CHR 0x87, CHR 0xE5, CHR 0xBF, CHR 0x85, CHR 0xE9, CHR 0xA1, CHR 0xBB, CHR 0xE6, CHR 0x98, CHR 0xAF] @ '' __draft'')), srv)
      | Some original \<Rightarrow>
          lock_store (\<lambda>app.
            case store_get (app_store app) name of
              None \<Rightarrow> Pair (bad_request (''draft '' @ quoted_name name @ '' not found''))
            | Some draft \<Rightarrow>
                (if exp_status draft \<noteq> Draft then Pair (bad_request (([CHR 0xE4, CHR 0xBB, CHR 0x85] @ '' Draft '' @ [CHR 0xE7, CHR 0x8A, CHR 0xB6, CHR 0xE6, CHR 0x80, CHR 0x81, CHR 0xE5, CHR 0x8F, CHR 0xAF] @ '' adopt'')))
                 else if store_get (app_store app) original = None then
                   Pair (missing_route (([CHR 0xE5, CHR 0x8E, CHR 0x9F, CHR 0xE7, CHR 0xBB, CHR 0x8F, CHR 0xE9, CHR 0xAA, CHR 0x8C] @ '' '') @ quoted_name original @ ('' '' @ [CHR 0xE4, CHR 0xB8, CHR 0x8D, CHR 0xE5, CHR 0xAD, CHR 0x98, CHR 0xE5, CHR 0x9C, CHR 0xA8])))
                 else case validate_editable_body draft of
                   Inl issue \<Rightarrow> Pair (bad_request issue)
                 | Inr _ \<Rightarrow>
                     (case replace_existing original (draft\<lparr>exp_name := original\<rparr>) (app_store app) of
                        Inl err \<Rightarrow> Pair (bad_request (store_error_text err))
                      | Inr store1 \<Rightarrow>
                          (case store_remove name store1 of
                             Inl err \<Rightarrow> with_app (bad_request (store_error_text err)) (app\<lparr>app_store := store1\<rparr>)
                           | Inr store2 \<Rightarrow>
                               with_app (Answer 200 ok_json)
                                 (settle env store2
                                    (admin_record env ''adopted'' original ''adopt'' (Some name) (Some original)
                                       (Some (''actor:'' @ request_actor env body))) app))))) srv)"

definition pin_route :: "AdminEnv \<Rightarrow> bool \<Rightarrow> string \<Rightarrow> string \<Rightarrow> route" where
  "pin_route env is_pin name body = lock_store (\<lambda>app.
     case (if is_pin then Store.pin name (app_store app) else Store.unpin name (app_store app)) of
       Inl err \<Rightarrow> Pair (bad_request (store_error_text err))
     | Inr store \<Rightarrow>
         with_app (Answer 200 ok_json)
           (settle env store
              (admin_record env (if is_pin then ''pinned'' else ''unpinned'') name (if is_pin then ''pin'' else ''unpin'') None None
                 (Some (''actor:'' @ request_actor env body))) app))"

section \<open>The status of an experience\<close>

definition verb_action :: "string \<Rightarrow> QualificationAction option" where
  "verb_action verb =
     (if verb = ''active'' \<or> verb = ''activate'' then Some Activate
      else if verb = ''force_activate'' then Some ForceActivate
      else if verb = ''invalidate'' then Some Invalidate
      else if verb = ''disable'' \<or> verb = ''disabled'' \<or> verb = ''draft'' then Some Disable
      else if verb = ''revalidate'' then Some Revalidate
      else if verb = ''validate'' then Some Validate
      else None)"

fun status_record_type :: "QualificationAction \<Rightarrow> string" where
  "status_record_type Validate = ''promoted''"
| "status_record_type Activate = ''activated''"
| "status_record_type ForceActivate = ''override''"
| "status_record_type Invalidate = ''invalidated''"
| "status_record_type Disable = ''disabled''"
| "status_record_type Revalidate = ''revalidated''"
| "status_record_type Decay = ''decayed''"

text \<open>A target that is already reached is not a transition.\<close>

definition next_status :: "string \<Rightarrow> QualificationAction \<Rightarrow> ExperienceStatus \<Rightarrow> ExperienceStore \<Rightarrow> StoreError + ExperienceStatus \<times> ExperienceStore" where
  "next_status name action current store =
     (if (action = Activate \<or> action = ForceActivate) \<and> current = Active then Inr (current, store)
      else if action = Disable \<and> current = Disabled then Inr (current, store)
      else transition_status name action store)"

definition apply_status :: "AdminEnv \<Rightarrow> string \<Rightarrow> string \<Rightarrow> QualificationAction \<Rightarrow> string option \<Rightarrow> ExperienceStatus \<Rightarrow> App \<Rightarrow> route" where
  "apply_status env name verb action reason current app =
     (case next_status name action current (app_store app) of
        Inl err \<Rightarrow> with_app (bad_request (store_error_text err)) app
      | Inr (next, store) \<Rightarrow>
          with_app (Answer 200 (json_object [(''ok'', JBool True), (''status'', JString (status_str next))]))
            (settle env store
               (admin_record env (status_record_type action) name verb (Some (status_str current)) (Some (status_str next)) reason) app))"

text \<open>The part of the status route on the locked store: qualification, then the transition.\<close>

definition locked_status :: "AdminEnv \<Rightarrow> string \<Rightarrow> string \<Rightarrow> QualificationAction \<Rightarrow> string option \<Rightarrow> App \<Rightarrow> route" where
  "locked_status env name verb action reason app =
     (case store_get (app_store app) name of
        None \<Rightarrow> Pair (bad_request (exp_missing name))
      | Some e \<Rightarrow>
          (if action = Validate \<or> action = Revalidate then
             (case qualify (ad_scratch env) e resolve_default_source (app_fs app) of
                (Inl panic, fs) \<Rightarrow> (\<lambda>srv. (Dropped, srv\<lparr>srv_app := app\<lparr>app_fs := fs\<rparr>, srv_poisoned := True\<rparr>))
              | (Inr (Inl issues), fs) \<Rightarrow>
                  with_app (Answer 400 (json_object [(''error'', JString ''qualification failed''),
                    (''issues'', JArray (map JString issues))])) (app\<lparr>app_fs := fs\<rparr>)
              | (Inr (Inr _), fs) \<Rightarrow> apply_status env name verb action reason (exp_status e) (app\<lparr>app_fs := fs\<rparr>))
           else apply_status env name verb action reason (exp_status e) app))"

definition requested_verb :: "json \<Rightarrow> string option" where
  "requested_verb v = Option.bind (case json_get v ''status'' of Some w \<Rightarrow> Some w | None \<Rightarrow> json_get v ''action'') as_str"

definition status_route :: "AdminEnv \<Rightarrow> string \<Rightarrow> string \<Rightarrow> route" where
  "status_route env name body = with_json env body (\<lambda>v srv.
     case requested_verb v of
       None \<Rightarrow> (bad_request (''missing '' @ quoted_name ''status'' @ ''/'' @ quoted_name ''action'' @ '' string''), srv)
     | Some verb \<Rightarrow>
         (case verb_action verb of
            None \<Rightarrow> (bad_request (''unknown status action '' @ quoted_name verb), srv)
          | Some action \<Rightarrow>
              (if action = ForceActivate \<and> trim_str (text_or [] (get_str v ''reason'')) = [] then
                 (bad_request (''force_activate requires a '' @ quoted_name ''reason''), srv)
               else lock_store (locked_status env name verb action (get_str v ''reason'')) srv)))"

section \<open>Transfer between stores\<close>

definition kept_names :: "ExperienceStore \<Rightarrow> string option \<Rightarrow> string list" where
  "kept_names store scope = map exp_name (filter (\<lambda>e. is_in_scope store (exp_name e) scope) (experiences store))"

definition named_map :: "('v \<Rightarrow> json) \<Rightarrow> (string \<Rightarrow> 'v option) \<Rightarrow> string list \<Rightarrow> json" where
  "named_map f lookup names = json_object (List.map_filter (\<lambda>n. map_option (\<lambda>v. (n, f v)) (lookup n)) names)"

text \<open>The printer of a confidence is an argument: fractions are outside the integer fragment of the JSON values.\<close>

definition export_experiences :: "AdminEnv \<Rightarrow> (rat \<Rightarrow> json) \<Rightarrow> ExperienceStore \<Rightarrow> string option \<Rightarrow> json" where
  "export_experiences env number store scope =
     (let names = kept_names store scope; chosen = filter (\<lambda>e. exp_name e \<in> set names) (experiences store);
          ordered = map exp_name chosen
      in json_object
           [(''schema_version'', JNumber 1),
            (''experiences'', JArray (map (ad_exp_json env) chosen)),
            (''pinned'', JArray (map JString (filter (\<lambda>n. n \<in> set names) (Store.pinned store)))),
            (''scopes'', named_map JString (scope_of store) ordered),
            (''display_names'', named_map JString (display_name_of store) ordered),
            (''user_usage'', named_map JString (user_usage_of store) ordered),
            (''user_confidence'', named_map number (user_confidence_of store) ordered)])"

definition payload_scopes :: "json \<Rightarrow> string btree" where
  "payload_scopes payload =
     (case json_get payload ''scopes'' of
        Some (JObject m) \<Rightarrow> bt_collect (List.map_filter (\<lambda>(n, v). map_option (Pair n) (as_str v)) m)
      | _ \<Rightarrow> [])"

definition payload_items :: "json \<Rightarrow> json list option" where
  "payload_items payload =
     (case Option.bind (json_get payload ''experiences'') as_array of Some items \<Rightarrow> Some items | None \<Rightarrow> as_array payload)"

text \<open>Items are taken one by one; when one is refused, the earlier ones stay in the locked store.\<close>

fun import_items :: "AdminEnv \<Rightarrow> string option \<Rightarrow> string btree \<Rightarrow> nat \<Rightarrow> json list \<Rightarrow> ExperienceStore \<Rightarrow> (string + unit) \<times> ExperienceStore" where
  "import_items env scope embedded i [] store = (Inr (), store)"
| "import_items env scope embedded i (item # items) store =
     (case ad_exp_value env item of
        Inl err \<Rightarrow> (Inl (([CHR 0xE7, CHR 0xAC, CHR 0xAC] @ '' '') @ nat_digits (i + 1) @ ('' '' @ [CHR 0xE6, CHR 0x9D, CHR 0xA1, CHR 0xE8, CHR 0xA7, CHR 0xA3, CHR 0xE6, CHR 0x9E, CHR 0x90, CHR 0xE5, CHR 0xA4, CHR 0xB1, CHR 0xE8, CHR 0xB4, CHR 0xA5] @ '': '') @ err), store)
      | Inr e \<Rightarrow>
          (case validate_editable_body e of
             Inl issue \<Rightarrow> (Inl issue, store)
           | Inr _ \<Rightarrow>
               (case store_insert e store of
                  Inl err \<Rightarrow> (Inl (([CHR 0xE7, CHR 0xAC, CHR 0xAC] @ '' '') @ nat_digits (i + 1) @ ('' '' @ [CHR 0xE6, CHR 0x9D, CHR 0xA1] @ '': '') @ store_error_text err), store)
                | Inr store1 \<Rightarrow>
                    (case set_scope (exp_name e) (case scope of Some sc \<Rightarrow> Some sc | None \<Rightarrow> bt_get embedded (exp_name e)) store1 of
                       Inl err \<Rightarrow> (Inl (store_error_text err), store1)
                     | Inr store2 \<Rightarrow> import_items env scope embedded (Suc i) items store2))))"

definition import_experiences :: "AdminEnv \<Rightarrow> json \<Rightarrow> string option \<Rightarrow> ExperienceStore \<Rightarrow> (string + nat) \<times> ExperienceStore" where
  "import_experiences env payload scope store =
     (case payload_items payload of
        None \<Rightarrow> (Inl ((''payload '' @ [CHR 0xE7, CHR 0xBC, CHR 0xBA, CHR 0xE5, CHR 0xB0, CHR 0x91] @ '' experiences '' @ [CHR 0xE6, CHR 0x95, CHR 0xB0, CHR 0xE7, CHR 0xBB, CHR 0x84])), store)
      | Some items \<Rightarrow>
          (case import_items env scope (payload_scopes payload) 0 items store of
             (Inl err, store') \<Rightarrow> (Inl err, store')
           | (Inr _, store') \<Rightarrow> (Inr (length items), store')))"

definition import_route :: "AdminEnv \<Rightarrow> string \<Rightarrow> route" where
  "import_route env body = with_json env body (\<lambda>v srv.
     if json_get v ''scope'' = None then (bad_request ((''import '' @ [CHR 0xE9, CHR 0x9C, CHR 0x80, CHR 0xE8, CHR 0xA6, CHR 0x81] @ '' '' @ [CHR 0x27] @ ''scope'' @ [CHR 0x27, CHR 0xEF, CHR 0xBC, CHR 0x88, CHR 0xE5, CHR 0x8F, CHR 0xAF, CHR 0xE4, CHR 0xB8, CHR 0xBA] @ '' null'' @ [CHR 0xEF, CHR 0xBC, CHR 0x89])), srv)
     else case json_get v ''payload'' of
       None \<Rightarrow> (bad_request (([CHR 0xE7, CHR 0xBC, CHR 0xBA, CHR 0xE5, CHR 0xB0, CHR 0x91] @ '' '' @ [CHR 0x27] @ ''payload'' @ [CHR 0x27])), srv)
     | Some payload \<Rightarrow>
         lock_store (\<lambda>app.
           let scope = get_str v ''scope''
           in case import_experiences env payload scope (app_store app) of
                (Inl err, store) \<Rightarrow> with_app (bad_request err) (app\<lparr>app_store := store\<rparr>)
              | (Inr taken, store) \<Rightarrow>
                  with_app (Answer 201 (json_object [(''ok'', JBool True), (''imported'', JNumber (int taken))]))
                    (settle env store
                       (admin_record env ''imported'' (nat_digits taken @ '' experiences'') ''import'' None None
                          (Some (''scope='' @ text_or ''(unscoped)'' scope @ '';actor='' @ text_or ''user'' (get_str v ''actor'')))) app)) srv)"

definition export_route :: "AdminEnv \<Rightarrow> (rat \<Rightarrow> json) \<Rightarrow> string option \<Rightarrow> route" where
  "export_route env number scope =
     lock_store (\<lambda>app. Pair (Answer 200 (export_experiences env number (app_store app) scope)))"

section \<open>Promotion of a reference\<close>

definition llm_distill_prompt :: "RoundTrace \<Rightarrow> string" where
  "llm_distill_prompt rnd =
     join_str [CHR 0x0A]
       ([([CHR 0xE4, CHR 0xBB, CHR 0xBB, CHR 0xE5, CHR 0x8A, CHR 0xA1] @ '': '') @ round_task rnd, ([CHR 0xE5, CHR 0xB7, CHR 0xB2, CHR 0xE6, CHR 0x89, CHR 0xA7, CHR 0xE8, CHR 0xA1, CHR 0x8C, CHR 0xE5, CHR 0xB7, CHR 0xA5, CHR 0xE5, CHR 0x85, CHR 0xB7, CHR 0xE6, CHR 0xAD, CHR 0xA5, CHR 0xE9, CHR 0xAA, CHR 0xA4] @ '':'')] @
        List.map_filter (\<lambda>ev. case ev of ToolCall n _ args \<Rightarrow> Some (''- '' @ n @ '': '' @ text_or [] args) | _ \<Rightarrow> None) (round_events rnd) @
        [([CHR 0xE8, CHR 0xBE, CHR 0x93, CHR 0xE5, CHR 0x87, CHR 0xBA, CHR 0xE4, CHR 0xBB, CHR 0x85, CHR 0xE4, CHR 0xB8, CHR 0x80, CHR 0xE4, CHR 0xB8, CHR 0xAA] @ '' JSON'' @ [CHR 0xEF, CHR 0xBC, CHR 0x88, CHR 0xE4, CHR 0xB8, CHR 0x8D, CHR 0xE8, CHR 0xA6, CHR 0x81] @ '' Markdown '' @ [CHR 0xE8, CHR 0xA7, CHR 0xA3, CHR 0xE9, CHR 0x87, CHR 0x8A, CHR 0xEF, CHR 0xBC, CHR 0x89, CHR 0xEF, CHR 0xBC, CHR 0x8C, CHR 0xE7, CHR 0xBB, CHR 0x93, CHR 0xE6, CHR 0x9E, CHR 0x84, CHR 0xEF, CHR 0xBC, CHR 0x9A] @ ''{'' @ [CHR 0x22] @ ''name'' @ [CHR 0x22] @ '':string,'' @ [CHR 0x22] @ ''trigger'' @ [CHR 0x22] @ '':{'' @ [CHR 0x22] @ ''tool'' @ [CHR 0x22] @ '':'' @ [CHR 0x22] @ ''exec_command'' @ [CHR 0x22] @ '','' @ [CHR 0x22] @ ''command_pattern'' @ [CHR 0x22] @ '':string|null},'' @ [CHR 0x22] @ ''preconditions'' @ [CHR 0x22] @ '':[{'' @ [CHR 0x22] @ ''key'' @ [CHR 0x22] @ '':'' @ [CHR 0x22] @ ''cwd.exists'' @ [CHR 0x22] @ '','' @ [CHR 0x22] @ ''expected'' @ [CHR 0x22] @ '':true}],'' @ [CHR 0x22] @ ''workflow'' @ [CHR 0x22] @ '':[{'' @ [CHR 0x22] @ ''action'' @ [CHR 0x22] @ '':'' @ [CHR 0x22] @ ''write_file|exec_command'' @ [CHR 0x22] @ '','' @ [CHR 0x22] @ ''args'' @ [CHR 0x22] @ '':{}}],'' @ [CHR 0x22] @ ''postconditions'' @ [CHR 0x22] @ '':[{'' @ [CHR 0x22] @ ''key'' @ [CHR 0x22] @ '':string,'' @ [CHR 0x22] @ ''expected'' @ [CHR 0x22] @ '':value}],'' @ [CHR 0x22] @ ''verification'' @ [CHR 0x22] @ '':[],'' @ [CHR 0x22] @ ''failure_policy'' @ [CHR 0x22] @ '':'' @ [CHR 0x22] @ ''stop_and_report'' @ [CHR 0x22] @ '','' @ [CHR 0x22] @ ''undo'' @ [CHR 0x22] @ '':'' @ [CHR 0x22] @ ''unsupported'' @ [CHR 0x22] @ '','' @ [CHR 0x22] @ ''status'' @ [CHR 0x22] @ '':'' @ [CHR 0x22] @ ''candidate'' @ [CHR 0x22] @ ''}'')])"

definition parse_llm_experience :: "AdminEnv \<Rightarrow> string \<Rightarrow> Experience option" where
  "parse_llm_experience env reply =
     (case (find_str reply ''{'', rfind_char (\<lambda>c. c = CHR ''}'') reply) of
        (Some i, Some j) \<Rightarrow>
          (if j \<le> i then None
           else case ad_exp_str env (take (Suc j - i) (drop i reply)) of Inr e \<Rightarrow> Some e | Inl _ \<Rightarrow> None)
      | _ \<Rightarrow> None)"

definition CodexLlmDistiller_distill :: "AdminEnv \<Rightarrow> Redactor \<Rightarrow> Launcher \<Rightarrow> string option \<Rightarrow> RoundTrace \<Rightarrow> Experience option" where
  "CodexLlmDistiller_distill env redactor exe codex_home rnd =
     (case ad_compile env exe codex_home (redact_text redactor (llm_distill_prompt rnd)) of
        None \<Rightarrow> None
      | Some reply \<Rightarrow>
          map_option (\<lambda>draft. draft\<lparr>exp_name := (if trim_str (exp_name draft) = [] then candidate_name (round_task rnd) else exp_name draft),
              exp_status := Candidate\<rparr>) (parse_llm_experience env reply))"

definition resolve_agent_distiller :: "AdminEnv \<Rightarrow> string option \<Rightarrow> Server \<Rightarrow> string + ((RoundTrace \<Rightarrow> Experience option) \<times> bool)" where
  "resolve_agent_distiller env agent_id srv =
     (let fs = app_fs (srv_app srv);
          exe_of = (\<lambda>entry. case resolve_executable (ad_agent env) fs (ae_config entry) of Inr l \<Rightarrow> Some l | Inl _ \<Rightarrow> None);
          found = find (\<lambda>entry. exe_of entry \<noteq> None) (srv_agents srv);
          (agent_exe, agent_home, fallback) =
            (case agent_id of
               Some i \<Rightarrow>
                 (case agent_get (srv_agents srv) i of
                    Some entry \<Rightarrow> (exe_of entry, ag_codex_home (ae_config entry), False)
                  | None \<Rightarrow> (None, None, False))
             | None \<Rightarrow>
                 (case found of
                    Some entry \<Rightarrow> (exe_of entry, ag_codex_home (ae_config entry), True)
                  | None \<Rightarrow> (None, None, False)))
      in case (case ad_vars env ''EXPERIENCE_LLM_CODEX'' of Some exe \<Rightarrow> Some (LaunchCommand exe) | None \<Rightarrow> agent_exe) of
           None \<Rightarrow> Inl (([CHR 0xE6, CHR 0x89, CHR 0xBE, CHR 0xE4, CHR 0xB8, CHR 0x8D, CHR 0xE5, CHR 0x88, CHR 0xB0, CHR 0xE5, CHR 0x8F, CHR 0xAF, CHR 0xE7, CHR 0x94, CHR 0xA8, CHR 0xE7, CHR 0x9A, CHR 0x84, CHR 0xE5, CHR 0x8A, CHR 0xA9, CHR 0xE6, CHR 0x89, CHR 0x8B, CHR 0xE5, CHR 0x8F, CHR 0xAF, CHR 0xE6, CHR 0x89, CHR 0xA7, CHR 0xE8, CHR 0xA1, CHR 0x8C, CHR 0xE6, CHR 0x96, CHR 0x87, CHR 0xE4, CHR 0xBB, CHR 0xB6, CHR 0xEF, CHR 0xBC, CHR 0x88, CHR 0xE8, CHR 0xAF, CHR 0xB7, CHR 0xE5, CHR 0x9C, CHR 0xA8] @ '' Agents '' @ [CHR 0xE9, CHR 0xA1, CHR 0xB5, CHR 0xE9, CHR 0x85, CHR 0x8D, CHR 0xE7, CHR 0xBD, CHR 0xAE, CHR 0xE5, CHR 0x8A, CHR 0xA9, CHR 0xE6, CHR 0x89, CHR 0x8B, CHR 0xEF, CHR 0xBC, CHR 0x8C, CHR 0xE6, CHR 0x88, CHR 0x96, CHR 0xE8, CHR 0xAE, CHR 0xBE, CHR 0xE7, CHR 0xBD, CHR 0xAE] @ '' EXPERIENCE_LLM_CODEX'' @ [CHR 0xEF, CHR 0xBC, CHR 0x89]))
         | Some exe \<Rightarrow>
             Inr (CodexLlmDistiller_distill env (app_redactor (srv_app srv)) exe
                    (case agent_home of Some h \<Rightarrow> Some h | None \<Rightarrow> ad_vars env ''CODEX_HOME''), fallback))"

definition promote_warnings :: "string list" where
  "promote_warnings =
     [([CHR 0xE6, CHR 0x8F, CHR 0x90, CHR 0xE5, CHR 0x8D, CHR 0x87, CHR 0xE4, CHR 0xBC, CHR 0x9A, CHR 0xE8, CHR 0xB0, CHR 0x83, CHR 0xE7, CHR 0x94, CHR 0xA8, CHR 0xE4, CHR 0xB8, CHR 0x80, CHR 0xE6, CHR 0xAC, CHR 0xA1, CHR 0xE5, CHR 0x8A, CHR 0xA9, CHR 0xE6, CHR 0x89, CHR 0x8B, CHR 0xE6, CHR 0xA8, CHR 0xA1, CHR 0xE5, CHR 0x9E, CHR 0x8B, CHR 0xEF, CHR 0xBC, CHR 0x88, CHR 0xE5, CHR 0x8F, CHR 0xAF, CHR 0xE8, CHR 0x83, CHR 0xBD, CHR 0xE8, CHR 0x80, CHR 0x97, CHR 0xE6, CHR 0x97, CHR 0xB6, CHR 0xE5, CHR 0xB9, CHR 0xB6, CHR 0xE6, CHR 0xB6, CHR 0x88, CHR 0xE8, CHR 0x80, CHR 0x97] @ '' token'' @ [CHR 0xEF, CHR 0xBC, CHR 0x89]),
      ([CHR 0xE6, CHR 0x8A, CHR 0xBD, CHR 0xE5, CHR 0x8F, CHR 0x96, CHR 0xE7, CHR 0xBB, CHR 0x93, CHR 0xE6, CHR 0x9E, CHR 0x9C, CHR 0xE5, CHR 0x8F, CHR 0xAA, CHR 0xE4, CHR 0xBC, CHR 0x9A, CHR 0xE5, CHR 0x86, CHR 0x99, CHR 0xE5, CHR 0x85, CHR 0xA5] @ '' CANDIDATE'' @ [CHR 0xEF, CHR 0xBC, CHR 0x8C, CHR 0xE4, CHR 0xBB, CHR 0x8D, CHR 0xE9, CHR 0x9C, CHR 0x80] @ '' L2 '' @ [CHR 0xE9, CHR 0xAA, CHR 0x8C, CHR 0xE8, CHR 0xAF, CHR 0x81, CHR 0xEF, CHR 0xBC, CHR 0x88, CHR 0xE5, CHR 0x8F, CHR 0xAF, CHR 0xE8, CHR 0xA7, CHR 0x82, CHR 0xE5, CHR 0xAF, CHR 0x9F, CHR 0xE5, CHR 0x88, CHR 0xA4, CHR 0xE6, CHR 0x8D, CHR 0xAE, CHR 0xEF, CHR 0xBC, CHR 0x89, CHR 0xE5, CHR 0x90, CHR 0x8E, CHR 0xE6, CHR 0x89, CHR 0x8D, CHR 0xE8, CHR 0x83, CHR 0xBD, CHR 0xE6, CHR 0xBF, CHR 0x80, CHR 0xE6, CHR 0xB4, CHR 0xBB]),
      [CHR 0xE5, CHR 0x8F, CHR 0x82, CHR 0xE8, CHR 0x80, CHR 0x83, CHR 0xE6, CHR 0x9D, CHR 0x90, CHR 0xE6, CHR 0x96, CHR 0x99, CHR 0xE7, CHR 0xBC, CHR 0xBA, CHR 0xE5, CHR 0xB0, CHR 0x91, CHR 0xE5, CHR 0x8F, CHR 0xAF, CHR 0xE5, CHR 0xA4, CHR 0x8D, CHR 0xE7, CHR 0x8E, CHR 0xB0, CHR 0xE6, CHR 0xAD, CHR 0xA5, CHR 0xE9, CHR 0xAA, CHR 0xA4, CHR 0xE6, CHR 0x88, CHR 0x96, CHR 0xE5, CHR 0x8F, CHR 0xAF, CHR 0xE8, CHR 0xA7, CHR 0x82, CHR 0xE5, CHR 0xAF, CHR 0x9F, CHR 0xE5, CHR 0xAE, CHR 0x8C, CHR 0xE6, CHR 0x88, CHR 0x90, CHR 0xE5, CHR 0x88, CHR 0xA4, CHR 0xE6, CHR 0x8D, CHR 0xAE, CHR 0xE6, CHR 0x97, CHR 0xB6, CHR 0xEF, CHR 0xBC, CHR 0x8C, CHR 0xE6, CHR 0x8A, CHR 0xBD, CHR 0xE5, CHR 0x8F, CHR 0x96, CHR 0xE5, CHR 0x8F, CHR 0xAF, CHR 0xE8, CHR 0x83, CHR 0xBD, CHR 0xE5, CHR 0xA4, CHR 0xB1, CHR 0xE8, CHR 0xB4, CHR 0xA5, CHR 0xE6, CHR 0x88, CHR 0x96, CHR 0xE5, CHR 0x81, CHR 0x9C, CHR 0xE7, CHR 0x95, CHR 0x99, CHR 0xE5, CHR 0x9C, CHR 0xA8, CHR 0xE5, CHR 0x8F, CHR 0x82, CHR 0xE8, CHR 0x80, CHR 0x83, CHR 0xE7, CHR 0xBB, CHR 0x8F, CHR 0xE9, CHR 0xAA, CHR 0x8C]]"

definition promote_warnings_with :: "bool \<Rightarrow> string list" where
  "promote_warnings_with fallback_agent =
     promote_warnings @ (if fallback_agent then [([CHR 0xE6, CHR 0x9C, CHR 0xAA, CHR 0xE6, CHR 0x98, CHR 0xBE, CHR 0xE5, CHR 0xBC, CHR 0x8F, CHR 0xE6, CHR 0x8C, CHR 0x87, CHR 0xE5, CHR 0xAE, CHR 0x9A, CHR 0xE5, CHR 0x8A, CHR 0xA9, CHR 0xE6, CHR 0x89, CHR 0x8B, CHR 0xEF, CHR 0xBC, CHR 0x8C, CHR 0xE5, CHR 0xB7, CHR 0xB2, CHR 0xE4, CHR 0xBD, CHR 0xBF, CHR 0xE7, CHR 0x94, CHR 0xA8, CHR 0xE8, CHR 0x87, CHR 0xAA, CHR 0xE5, CHR 0x8A, CHR 0xA8, CHR 0xE5, CHR 0x8F, CHR 0x91, CHR 0xE7, CHR 0x8E, CHR 0xB0, CHR 0xE7, CHR 0x9A, CHR 0x84] @ '' codex'' @ [CHR 0xEF, CHR 0xBC, CHR 0x9B, CHR 0xE5, CHR 0xBB, CHR 0xBA, CHR 0xE8, CHR 0xAE, CHR 0xAE, CHR 0xE5, CHR 0x9C, CHR 0xA8, CHR 0xE8, CHR 0xB0, CHR 0x83, CHR 0xE7, CHR 0x94, CHR 0xA8, CHR 0xE6, CHR 0x97, CHR 0xB6, CHR 0xE6, CHR 0x8C, CHR 0x87, CHR 0xE5, CHR 0xAE, CHR 0x9A] @ '' agent'')] else [])"

definition reference_round :: "ReferenceEntry \<Rightarrow> RoundTrace" where
  "reference_round entry =
     \<lparr>round_task = ref_title entry, round_events = map (\<lambda>step. ToolCall ''exec_command'' None (Some step)) (ref_steps entry)\<rparr>"

definition requested_agent :: "AdminEnv \<Rightarrow> string \<Rightarrow> string option" where
  "requested_agent env body =
     (case ad_json env body of
        Inr v \<Rightarrow> Option.bind (case json_get v ''agent'' of Some w \<Rightarrow> Some w | None \<Rightarrow> json_get v ''agent_id'') as_str
      | Inl _ \<Rightarrow> None)"

definition promote_draft :: "AdminEnv \<Rightarrow> string \<Rightarrow> string \<Rightarrow> string list \<Rightarrow> Experience \<Rightarrow> route" where
  "promote_draft env rid body warnings draft = lock_store (\<lambda>app.
     case store_insert draft (app_store app) of
       Inl err \<Rightarrow> Pair (bad_request (store_error_text err))
     | Inr store \<Rightarrow>
         with_app
           (Answer 201 (json_object [(''ok'', JBool True), (''candidate'', JString (exp_name draft)), (''warnings'', JArray (map JString warnings))]))
           (settle env store
              (admin_record env ''promoted_reference'' (exp_name draft) ''promote_reference'' (Some rid) (Some (exp_name draft))
                 (Some (''actor='' @ request_actor env body))) app))"

definition promote_reference :: "AdminEnv \<Rightarrow> string \<Rightarrow> string \<Rightarrow> route" where
  "promote_reference env rid body = lock_store (\<lambda>app srv.
     case reference (app_store app) rid of
       None \<Rightarrow> (bad_request (''reference '' @ quoted_name rid @ '' not found''), srv)
     | Some entry \<Rightarrow>
         (if ref_steps entry = [] then (bad_request ((''reference '' @ [CHR 0xE7, CHR 0xBC, CHR 0xBA, CHR 0xE5, CHR 0xB0, CHR 0x91] @ '' steps'' @ [CHR 0xEF, CHR 0xBC, CHR 0x8C, CHR 0xE6, CHR 0x97, CHR 0xA0, CHR 0xE6, CHR 0xB3, CHR 0x95, CHR 0xE6, CHR 0x8F, CHR 0x90, CHR 0xE5, CHR 0x8D, CHR 0x87, CHR 0xE4, CHR 0xB8, CHR 0xBA, CHR 0xE5, CHR 0x8F, CHR 0xAF, CHR 0xE6, CHR 0x89, CHR 0xA7, CHR 0xE8, CHR 0xA1, CHR 0x8C, CHR 0xE5, CHR 0x80, CHR 0x99, CHR 0xE9, CHR 0x80, CHR 0x89])), srv)
          else case resolve_agent_distiller env (requested_agent env body) srv of
            Inl message \<Rightarrow>
              (Answer 400 (json_object [(''error'', JString message), (''code'', JString ''compiler_unavailable''),
                 (''warnings'', JArray (map JString promote_warnings))]), srv)
          | Inr (distiller, fallback) \<Rightarrow>
              (case distiller (reference_round entry) of
                 None \<Rightarrow> (bad_request ((''LLM compiler '' @ [CHR 0xE6, CHR 0x9C, CHR 0xAA, CHR 0xE8, CHR 0x83, CHR 0xBD, CHR 0xE6, CHR 0x8A, CHR 0xBD, CHR 0xE5, CHR 0x87, CHR 0xBA, CHR 0xE5, CHR 0x8F, CHR 0xAF, CHR 0xE6, CHR 0x89, CHR 0xA7, CHR 0xE8, CHR 0xA1, CHR 0x8C, CHR 0xE4, CHR 0xBD, CHR 0x93, CHR 0xEF, CHR 0xBC, CHR 0x88, CHR 0xE8, CHR 0xAF, CHR 0x9A, CHR 0xE5, CHR 0xAE, CHR 0x9E, CHR 0xE6, CHR 0x8B, CHR 0x92, CHR 0xE7, CHR 0xBB, CHR 0x9D, CHR 0xEF, CHR 0xBC, CHR 0x89])), srv)
               | Some draft \<Rightarrow>
                   (case validate_editable_body draft of
                      Inl issue \<Rightarrow> (bad_request issue, srv)
                    | Inr _ \<Rightarrow>
                        promote_draft env rid body (promote_warnings_with fallback)
                          (draft\<lparr>exp_name := (if trim_str (exp_name draft) = [] then candidate_name (ref_title entry) else exp_name draft),
                             exp_status := Candidate\<rparr>) srv))))"

section \<open>Agents\<close>

definition agents_persist :: "AdminEnv \<Rightarrow> AgentManager \<Rightarrow> App \<Rightarrow> App" where
  "agents_persist env m app =
     app\<lparr>app_fs := fst (agents_save (ad_config_print env) m (path_join (app_home app) ''agents.json'') (app_fs app))\<rparr>"

definition create_agent :: "AdminEnv \<Rightarrow> string \<Rightarrow> route" where
  "create_agent env body srv =
     (case ad_config_str env body of
        Inl err \<Rightarrow> (bad_request (''invalid agent body: '' @ err), srv)
      | Inr config \<Rightarrow>
          (case agent_create (ad_now env) config (srv_agents srv) of
             Inl err \<Rightarrow> (bad_request err, srv)
           | Inr (_, m) \<Rightarrow> (Answer 201 ok_json, srv\<lparr>srv_agents := m, srv_app := agents_persist env m (srv_app srv)\<rparr>)))"

definition remove_agent :: "AdminEnv \<Rightarrow> string \<Rightarrow> route" where
  "remove_agent env i srv =
     (case agent_remove i (srv_agents srv) of
        Inl err \<Rightarrow> (bad_request err, srv)
      | Inr m \<Rightarrow> (Answer 200 ok_json, srv\<lparr>srv_agents := m, srv_app := agents_persist env m (srv_app srv)\<rparr>))"

definition connect_agent :: "AdminEnv \<Rightarrow> string \<Rightarrow> route" where
  "connect_agent env i srv =
     (case agent_connect (ad_agent env) (app_fs (srv_app srv)) (ad_now env) i (srv_agents srv) of
        Inl err \<Rightarrow> (bad_request err, srv)
      | Inr (status, m) \<Rightarrow> (Answer 200 (ad_status_json env status), srv\<lparr>srv_agents := m\<rparr>))"

definition disconnect_agent :: "AdminEnv \<Rightarrow> string \<Rightarrow> route" where
  "disconnect_agent env i srv =
     (case agent_disconnect (ad_now env) i (srv_agents srv) of
        Inl err \<Rightarrow> (bad_request err, srv)
      | Inr (status, m) \<Rightarrow> (Answer 200 (ad_status_json env status), srv\<lparr>srv_agents := m\<rparr>))"

section \<open>Dispatch\<close>

definition hex_value :: "char \<Rightarrow> nat option" where
  "hex_value c =
     (let b = byte_of c
      in if 48 \<le> b \<and> b \<le> 57 then Some (b - 48)
         else if 97 \<le> b \<and> b \<le> 102 then Some (b - 97 + 10)
         else if 65 \<le> b \<and> b \<le> 70 then Some (b - 65 + 10)
         else None)"

fun percent_bytes :: "string \<Rightarrow> string" where
  "percent_bytes [] = []"
| "percent_bytes (c # h # l # cs) =
     (case (hex_value h, hex_value l) of
        (Some x, Some y) \<Rightarrow> (if c = CHR ''%'' then char_of (16 * x + y) # percent_bytes cs else c # percent_bytes (h # l # cs))
      | _ \<Rightarrow> c # percent_bytes (h # l # cs))"
| "percent_bytes (c # cs) = c # percent_bytes cs"

definition percent_decode :: "string \<Rightarrow> string" where
  "percent_decode s = utf8_lossy (percent_bytes s)"

definition query_param :: "string \<Rightarrow> string \<Rightarrow> string option" where
  "query_param url key =
     (let query = (case split_once url ''?'' of Some (_, q) \<Rightarrow> q | None \<Rightarrow> [])
      in case List.map_filter (\<lambda>pair. strip_prefix pair (key @ ''='')) (split_char (CHR ''&'') query) of
           v # _ \<Rightarrow> Some (percent_decode v)
         | [] \<Rightarrow> None)"

datatype Method = MGet | MPost | MPut | MPatch | MDelete | MOther

datatype AdminRequest =
    PutPolicy | RestoreBackup string | CreateAgent | RemoveAgent string | ConnectAgent string | DisconnectAgent string
  | PromoteReference string | ExportExperiences "string option" | ImportExperiences | InsertExperience | PutSettings
  | DeleteExperience string | SetScope string | SetDisplayName string | SetPreference string | MakeDraft string
  | EditBody string | AdoptDraft string | PinExperience string | UnpinExperience string | PatchStatus string
  | WrongMethod | OtherRoute

definition path_is :: "string \<Rightarrow> string \<Rightarrow> bool" where
  "path_is url p \<longleftrightarrow> url = p \<or> starts_with url (p @ ''?'')"

definition agent_request :: "Method \<Rightarrow> string \<Rightarrow> AdminRequest" where
  "agent_request m rest =
     (let (i, action) = (case split_once rest ''/'' of Some (i, a) \<Rightarrow> (i, Some a) | None \<Rightarrow> (rest, None))
      in if m = MGet \<and> action = None then OtherRoute
         else if m = MDelete \<and> action = None then RemoveAgent i
         else if m = MPost \<and> action = Some ''connect'' then ConnectAgent i
         else if m = MPost \<and> action = Some ''disconnect'' then DisconnectAgent i
         else WrongMethod)"

definition experience_request :: "Method \<Rightarrow> string \<Rightarrow> AdminRequest" where
  "experience_request m rest =
     (let (n, action) = (case split_once rest ''/'' of Some (n, a) \<Rightarrow> (n, Some a) | None \<Rightarrow> (rest, None))
      in if m = MGet \<and> action = None then OtherRoute
         else if m = MDelete \<and> action = None then DeleteExperience n
         else if m = MPost \<and> action = Some ''scope'' then SetScope n
         else if m = MPost \<and> action = Some ''display_name'' then SetDisplayName n
         else if m = MPost \<and> action = Some ''user-preference'' then SetPreference n
         else if m = MPost \<and> action = Some ''draft'' then MakeDraft n
         else if m = MPut \<and> action = Some ''body'' then EditBody n
         else if m = MPost \<and> action = Some ''adopt'' then AdoptDraft n
         else if m = MPost \<and> action = Some ''pin'' then PinExperience n
         else if m = MPost \<and> action = Some ''unpin'' then UnpinExperience n
         else if m = MPatch \<and> action = Some ''status'' then PatchStatus n
         else WrongMethod)"

text \<open>\<open>OtherRoute\<close> stands for the routes of other components and for the read-only views.\<close>

definition admin_request :: "Method \<Rightarrow> string \<Rightarrow> AdminRequest" where
  "admin_request m url =
     (if path_is url ''/api/policy'' then (if m = MPut then PutPolicy else if m = MGet then OtherRoute else WrongMethod)
      else if path_is url ''/api/backups'' then (if m = MGet then OtherRoute else WrongMethod)
      else case Option.bind (strip_prefix url ''/api/backups/'') (\<lambda>rest. strip_suffix rest ''/restore'') of
        Some session \<Rightarrow> (if m = MPost then RestoreBackup session else WrongMethod)
      | None \<Rightarrow>
     (if url = ''/api/agents'' then (if m = MPost then CreateAgent else if m = MGet then OtherRoute else WrongMethod)
      else case strip_prefix url ''/api/agents/'' of
        Some rest \<Rightarrow> agent_request m rest
      | None \<Rightarrow>
     (case Option.bind (strip_prefix url ''/api/references/'') (\<lambda>rest. strip_suffix rest ''/promote'') of
        Some rid \<Rightarrow> (if m = MPost then PromoteReference rid else WrongMethod)
      | None \<Rightarrow>
     (if path_is url ''/api/experiences/export'' then (if m = MGet then ExportExperiences (query_param url ''scope'') else WrongMethod)
      else if url = ''/api/experiences/import'' then (if m = MPost then ImportExperiences else WrongMethod)
      else if path_is url ''/api/experiences'' then (if m = MPost then InsertExperience else if m = MGet then OtherRoute else WrongMethod)
      else if url = ''/api/settings'' then (if m = MPut then PutSettings else if m = MGet then OtherRoute else WrongMethod)
      else case strip_prefix url ''/api/experiences/'' of Some rest \<Rightarrow> experience_request m rest | None \<Rightarrow> OtherRoute))))"

fun serve :: "AdminEnv \<Rightarrow> (rat \<Rightarrow> json) \<Rightarrow> AdminRequest \<Rightarrow> string \<Rightarrow> Server \<Rightarrow> (Reply \<times> Server) option" where
  "serve env number PutPolicy body srv = Some (put_policy env body srv)"
| "serve env number (RestoreBackup session) body srv = Some (restore_backup env session body srv)"
| "serve env number CreateAgent body srv = Some (create_agent env body srv)"
| "serve env number (RemoveAgent i) body srv = Some (remove_agent env i srv)"
| "serve env number (ConnectAgent i) body srv = Some (connect_agent env i srv)"
| "serve env number (DisconnectAgent i) body srv = Some (disconnect_agent env i srv)"
| "serve env number (PromoteReference rid) body srv = Some (promote_reference env rid body srv)"
| "serve env number (ExportExperiences scope) body srv = Some (export_route env number scope srv)"
| "serve env number ImportExperiences body srv = Some (import_route env body srv)"
| "serve env number InsertExperience body srv = Some (insert_experience env body srv)"
| "serve env number PutSettings body srv = Some (put_settings env body srv)"
| "serve env number (DeleteExperience name) body srv = Some (delete_experience env name srv)"
| "serve env number (SetScope name) body srv = Some (scope_route env name body srv)"
| "serve env number (SetDisplayName name) body srv = Some (display_name_route env name body srv)"
| "serve env number (SetPreference name) body srv = Some (preference_route env name body srv)"
| "serve env number (MakeDraft name) body srv = Some (draft_route env name body srv)"
| "serve env number (EditBody name) body srv = Some (body_route env name body srv)"
| "serve env number (AdoptDraft name) body srv = Some (adopt_route env name body srv)"
| "serve env number (PinExperience name) body srv = Some (pin_route env True name body srv)"
| "serve env number (UnpinExperience name) body srv = Some (pin_route env False name body srv)"
| "serve env number (PatchStatus name) body srv = Some (status_route env name body srv)"
| "serve env number WrongMethod body srv = Some (method_not_allowed, srv)"
| "serve env number OtherRoute body srv = None"

section \<open>The routes as steps of the store\<close>

text \<open>
  What a request may do to the stored artifacts. The relation leaves out answers, files and the ledger: it is the
  specification the handlers refine, and the invariants below are proved on it.
\<close>

inductive admin_step :: "AdminEnv \<Rightarrow> string \<Rightarrow> AdminRequest \<Rightarrow> ExperienceStore \<Rightarrow> ExperienceStore \<Rightarrow> bool" for env body where
  same: "admin_step env body rq s s"
| policy: "set_scope_policy k pol s = Inr s' \<Longrightarrow> admin_step env body PutPolicy s s'"
| scope: "set_scope n sc s = Inr s' \<Longrightarrow> admin_step env body (SetScope n) s s'"
| display: "set_display_name n d s = Inr s' \<Longrightarrow> admin_step env body (SetDisplayName n) s s'"
| usage: "set_user_usage n u s = Inr s' \<Longrightarrow> admin_step env body (SetPreference n) s s'"
| preference: "set_user_usage n u s = Inr s1 \<Longrightarrow> set_user_confidence n c s1 = Inr s' \<Longrightarrow> admin_step env body (SetPreference n) s s'"
| pin: "Store.pin n s = Inr s' \<Longrightarrow> admin_step env body (PinExperience n) s s'"
| unpin: "Store.unpin n s = Inr s' \<Longrightarrow> admin_step env body (UnpinExperience n) s s'"
| insert: "ad_exp_str env body = Inr e \<Longrightarrow> store_insert e s = Inr s' \<Longrightarrow> admin_step env body InsertExperience s s'"
| delete: "store_remove n s = Inr s' \<Longrightarrow> admin_step env body (DeleteExperience n) s s'"
| draft: "store_get s n = Some e \<Longrightarrow> store_insert (e\<lparr>exp_name := n @ DRAFT_SUFFIX, exp_status := Draft\<rparr>) s = Inr s' \<Longrightarrow>
    admin_step env body (MakeDraft n) s s'"
| edit: "ad_exp_str env body = Inr x \<Longrightarrow> store_get s n = Some e \<Longrightarrow> exp_status e = Draft \<Longrightarrow>
    replace_existing n (x\<lparr>exp_name := n\<rparr>) s = Inr s' \<Longrightarrow> admin_step env body (EditBody n) s s'"
| adopt_half: "store_get s (n @ DRAFT_SUFFIX) = Some d \<Longrightarrow> exp_status d = Draft \<Longrightarrow>
    replace_existing n (d\<lparr>exp_name := n\<rparr>) s = Inr s' \<Longrightarrow> admin_step env body (AdoptDraft (n @ DRAFT_SUFFIX)) s s'"
| adopt: "store_get s (n @ DRAFT_SUFFIX) = Some d \<Longrightarrow> exp_status d = Draft \<Longrightarrow>
    replace_existing n (d\<lparr>exp_name := n\<rparr>) s = Inr s1 \<Longrightarrow> store_remove (n @ DRAFT_SUFFIX) s1 = Inr s' \<Longrightarrow>
    admin_step env body (AdoptDraft (n @ DRAFT_SUFFIX)) s s'"
| promote: "exp_status e = Candidate \<Longrightarrow> store_insert e s = Inr s' \<Longrightarrow> admin_step env body (PromoteReference rid) s s'"
| patch: "transition_status n a s = Inr (st, s') \<Longrightarrow> a \<noteq> Decay \<Longrightarrow> store_get s n = Some e \<Longrightarrow>
    (a = Validate \<or> a = Revalidate \<Longrightarrow> \<exists>tmp fs fs'. qualify tmp e resolve_default_source fs = (Inr (Inr ()), fs')) \<Longrightarrow>
    admin_step env body (PatchStatus n) s s'"
| import: "ad_json env body = Inr v \<Longrightarrow> json_get v ''payload'' = Some payload \<Longrightarrow> payload_items payload = Some items \<Longrightarrow>
    import_items env sc (payload_scopes payload) 0 items s = (r, s') \<Longrightarrow> admin_step env body ImportExperiences s s'"

inductive_cases admin_stepE: "admin_step env body rq s s'"

lemma settle_store [simp]: "app_store (settle env store rec app) = store"
  by (simp add: settle_def Ledger.persist_def)

lemma persist_store [simp]: "app_store (Ledger.persist cd app) = app_store app"
  by (simp add: Ledger.persist_def)

lemma policy_ledger_store [simp]: "app_store (append_policy_ledger cd now k actor action reason app) = app_store app"
  by (simp add: append_policy_ledger_def)

abbreviation srv_store :: "Server \<Rightarrow> ExperienceStore" where
  "srv_store srv \<equiv> app_store (srv_app srv)"

lemmas route_defs = with_json_def lock_store_def with_app_def Let_def

lemma strip_suffix_Some: "strip_suffix s p = Some t \<Longrightarrow> s = t @ p"
  by (auto simp: strip_suffix_def ends_with_def split: if_splits) (metis append_take_drop_id)

lemma policy_route_step: "put_policy env body srv = (reply, srv') \<Longrightarrow> admin_step env body PutPolicy (srv_store srv) (srv_store srv')"
  unfolding put_policy_def policy_clear_def policy_set_def
  by (auto simp: route_defs intro: admin_step.intros
      split: sum.splits option.splits if_splits prod.splits)

lemma metadata_route_step:
  "scope_route env n body srv = (reply, srv') \<Longrightarrow> admin_step env body (SetScope n) (srv_store srv) (srv_store srv')"
  "display_name_route env n body srv = (reply, srv') \<Longrightarrow> admin_step env body (SetDisplayName n) (srv_store srv) (srv_store srv')"
  "preference_route env n body srv = (reply, srv') \<Longrightarrow> admin_step env body (SetPreference n) (srv_store srv) (srv_store srv')"
  "pin_route env True n body srv = (reply, srv') \<Longrightarrow> admin_step env body (PinExperience n) (srv_store srv) (srv_store srv')"
  "pin_route env False n body srv = (reply, srv') \<Longrightarrow> admin_step env body (UnpinExperience n) (srv_store srv) (srv_store srv')"
  unfolding scope_route_def display_name_route_def preference_route_def pin_route_def
  by (auto simp: route_defs intro: admin_step.intros split: sum.splits if_splits)

lemma artifact_route_step:
  "insert_experience env body srv = (reply, srv') \<Longrightarrow> admin_step env body InsertExperience (srv_store srv) (srv_store srv')"
  "delete_experience env n srv = (reply, srv') \<Longrightarrow> admin_step env body (DeleteExperience n) (srv_store srv) (srv_store srv')"
  "draft_route env n body srv = (reply, srv') \<Longrightarrow> admin_step env body (MakeDraft n) (srv_store srv) (srv_store srv')"
  "body_route env n body srv = (reply, srv') \<Longrightarrow> admin_step env body (EditBody n) (srv_store srv) (srv_store srv')"
  unfolding insert_experience_def delete_experience_def draft_route_def body_route_def
  by (auto simp: route_defs intro: admin_step.intros split: sum.splits if_splits option.splits)

lemma adopt_route_step:
  "adopt_route env n body srv = (reply, srv') \<Longrightarrow> admin_step env body (AdoptDraft n) (srv_store srv) (srv_store srv')"
  unfolding adopt_route_def
  by (auto simp: route_defs intro: admin_step.intros dest!: strip_suffix_Some split: sum.splits if_splits option.splits)

lemma promote_route_step:
  "promote_reference env rid body srv = (reply, srv') \<Longrightarrow> admin_step env body (PromoteReference rid) (srv_store srv) (srv_store srv')"
  unfolding promote_reference_def promote_draft_def
  by (auto simp: route_defs intro: admin_step.same admin_step.promote [rotated] split: sum.splits if_splits option.splits prod.splits)

lemma import_route_step:
  "import_route env body srv = (reply, srv') \<Longrightarrow> admin_step env body ImportExperiences (srv_store srv) (srv_store srv')"
  unfolding import_route_def import_experiences_def
  by (auto simp: route_defs intro: admin_step.intros split: sum.splits if_splits option.splits prod.splits)

lemma apply_status_step:
  assumes "apply_status env n verb a reason (exp_status e) app srv = (reply, srv')" and "a \<noteq> Decay" and "store_get (app_store app) n = Some e"
    and "a = Validate \<or> a = Revalidate \<Longrightarrow> \<exists>tmp fs fs'. qualify tmp e resolve_default_source fs = (Inr (Inr ()), fs')"
  shows "admin_step env body (PatchStatus n) (app_store app) (srv_store srv')"
proof (cases "next_status n a (exp_status e) (app_store app)")
  case (Inl err)
  with assms(1) show ?thesis by (simp add: apply_status_def with_app_def) (metis Server.select_convs(1) Server.surjective Server.update_convs(1) admin_step.same)
next
  case (Inr x)
  obtain st s' where x: "x = (st, s')" by (cases x)
  with Inr assms(1) have s': "srv_store srv' = s'" by (auto simp: apply_status_def with_app_def)
  from Inr x have "s' = app_store app \<or> transition_status n a (app_store app) = Inr (st, s')"
    by (auto simp: next_status_def split: if_splits)
  then show ?thesis
  proof
    assume "transition_status n a (app_store app) = Inr (st, s')"
    then show ?thesis unfolding s' by (rule admin_step.patch [OF _ assms(2,3,4)])
  qed (simp add: s' admin_step.same)
qed

lemma verb_action_not_decay: "verb_action verb = Some a \<Longrightarrow> a \<noteq> Decay"
  by (auto simp: verb_action_def split: if_splits)

lemma status_route_cases:
  assumes "status_route env n body srv = (reply, srv')"
  obtains (refused) msg where "srv' = srv" "reply = Dropped \<and> srv_poisoned srv \<or> reply = bad_request msg"
  | (locked) v verb a where "\<not> srv_poisoned srv" "ad_json env body = Inr v" "requested_verb v = Some verb" "verb_action verb = Some a"
      "a = ForceActivate \<Longrightarrow> trim_str (text_or [] (get_str v ''reason'')) \<noteq> []"
      "locked_status env n verb a (get_str v ''reason'') (srv_app srv) srv = (reply, srv')"
  using assms unfolding status_route_def with_json_def lock_store_def
  by (auto split: sum.splits option.splits if_splits)

lemma locked_status_step:
  assumes "locked_status env n verb a reason app srv = (reply, srv')" and "a \<noteq> Decay" and "app = srv_app srv"
  shows "admin_step env body (PatchStatus n) (app_store app) (srv_store srv')"
proof (cases "store_get (app_store app) n")
  case None
  with assms show ?thesis by (auto simp: locked_status_def admin_step.same)
next
  case e: (Some e)
  obtain q fs where q: "qualify (ad_scratch env) e resolve_default_source (app_fs app) = (q, fs)" by (metis surj_pair)
  show ?thesis
  proof (cases "(a = Validate \<or> a = Revalidate) \<and> q \<noteq> Inr (Inr ())")
    case True
    with assms e q show ?thesis
      by (cases q) (auto simp: locked_status_def with_app_def admin_step.same split: sum.splits)
  next
    case False
    define app' where "app' = (if a = Validate \<or> a = Revalidate then app\<lparr>app_fs := fs\<rparr> else app)"
    have "apply_status env n verb a reason (exp_status e) app' srv = (reply, srv')"
      using assms(1) e q False by (auto simp: locked_status_def app'_def split: if_splits)
    moreover have "store_get (app_store app') n = Some e" "app_store app' = app_store app" using e by (simp_all add: app'_def)
    moreover have "\<exists>tmp fs fs'. qualify tmp e resolve_default_source fs = (Inr (Inr ()), fs')" if "a = Validate \<or> a = Revalidate"
      using q False that by blast
    ultimately show ?thesis using apply_status_step [OF _ assms(2)] by metis
  qed
qed

lemma status_route_step:
  assumes "status_route env n body srv = (reply, srv')"
  shows "admin_step env body (PatchStatus n) (srv_store srv) (srv_store srv')"
  using assms
proof (cases rule: status_route_cases)
  case (locked v verb a)
  from locked_status_step [OF locked(6) verb_action_not_decay [OF locked(4)] refl] show ?thesis .
qed (simp add: admin_step.same)

text \<open>The handlers refine the relation.\<close>

lemma serve_refines:
  assumes "serve env number rq body srv = Some (reply, srv')"
  shows "admin_step env body rq (srv_store srv) (srv_store srv')"
proof -
  have export: "export_route env number sc srv = (reply, srv') \<Longrightarrow> srv' = srv" for sc
    by (auto simp: export_route_def lock_store_def split: if_splits)
  have restore: "restore_backup env i body srv = (reply, srv') \<Longrightarrow> srv_store srv' = srv_store srv" for i
    by (auto simp: restore_backup_def Let_def with_app_def split: if_splits sum.splits prod.splits)
  have settings: "put_settings env body srv = (reply, srv') \<Longrightarrow> srv_store srv' = srv_store srv"
    by (auto simp: put_settings_def Let_def with_app_def split: sum.splits prod.splits)
  have agents: "create_agent env body srv = (reply, srv') \<Longrightarrow> srv_store srv' = srv_store srv"
    "remove_agent env i srv = (reply, srv') \<Longrightarrow> srv_store srv' = srv_store srv"
    "connect_agent env i srv = (reply, srv') \<Longrightarrow> srv_store srv' = srv_store srv"
    "disconnect_agent env i srv = (reply, srv') \<Longrightarrow> srv_store srv' = srv_store srv" for i
    by (auto simp: create_agent_def remove_agent_def connect_agent_def disconnect_agent_def agents_persist_def split: sum.splits prod.splits)
  note same = admin_step.same [of env body rq "srv_store srv"]
  show ?thesis
    using assms same policy_route_step metadata_route_step artifact_route_step adopt_route_step promote_route_step import_route_step status_route_step
    by (cases rq) (auto dest: export restore settings agents)
qed

section \<open>Invariants of the routes\<close>

lemma import_items_reachable:
  "import_items env sc emb i items s = (r, s') \<Longrightarrow> store_reachable s \<Longrightarrow> store_reachable s'"
proof (induction items arbitrary: i s)
  case (Cons item items)
  show ?case
  proof (cases "\<exists>e s1. store_insert e s = Inr s1 \<and> (s' = s1 \<or>
      (\<exists>sc' s2. set_scope (exp_name e) sc' s1 = Inr s2 \<and> import_items env sc emb (Suc i) items s2 = (r, s')))")
    case True
    then obtain e s1 where ins: "store_insert e s = Inr s1" and
      rest: "s' = s1 \<or> (\<exists>sc' s2. set_scope (exp_name e) sc' s1 = Inr s2 \<and> import_items env sc emb (Suc i) items s2 = (r, s'))" by blast
    have s1: "store_reachable s1" using Cons.prems(2) ins by (blast intro: reach_step step_insert)
    from rest show ?thesis
    proof
      assume "\<exists>sc' s2. set_scope (exp_name e) sc' s1 = Inr s2 \<and> import_items env sc emb (Suc i) items s2 = (r, s')"
      then obtain sc' s2 where "set_scope (exp_name e) sc' s1 = Inr s2" "import_items env sc emb (Suc i) items s2 = (r, s')" by blast
      with Cons.IH s1 show ?thesis by (blast intro: reach_step step_scope)
    qed (simp add: s1)
  next
    case False
    with Cons.prems show ?thesis by (auto split: sum.splits)
  qed
qed simp

lemma admin_step_reachable: "admin_step env body rq s s' \<Longrightarrow> store_reachable s \<Longrightarrow> store_reachable s'"
  by (induction rule: admin_step.induct)
    (blast intro: reach_step store_step.intros import_items_reachable)+


lemma metadata_get:
  "set_scope_policy k pol s = Inr s' \<Longrightarrow> store_get s' = store_get s"
  "set_scope n sc s = Inr s' \<Longrightarrow> store_get s' = store_get s"
  "set_display_name n d s = Inr s' \<Longrightarrow> store_get s' = store_get s"
  "set_user_usage n u s = Inr s' \<Longrightarrow> store_get s' = store_get s"
  "set_user_confidence n c s = Inr s' \<Longrightarrow> store_get s' = store_get s"
  "Store.pin n s = Inr s' \<Longrightarrow> store_get s' = store_get s"
  "Store.unpin n s = Inr s' \<Longrightarrow> store_get s' = store_get s"
  by (auto simp: metadata_defs store_get_def fun_eq_iff split: if_splits option.splits)

lemma update_get:
  assumes "store_wf s" "store_wf s'" "experiences s' = (experiences s)[i := x]"
    and i: "i < length (experiences s)" "exp_name (experiences s ! i) = k" and x: "exp_name x = k"
  shows "store_get s' m = (if m = k then Some x else store_get s m)"
proof (cases "m = k")
  case True
  with i x show ?thesis by (auto simp: store_get_iff [OF assms(2)] assms(3) set_update_memI)
next
  case False
  have "store_get s' m = store_get s m"
  proof (rule option_eqI)
    fix y
    have "y \<in> set (experiences s') \<longleftrightarrow> y \<in> set (experiences s)" if "exp_name y \<noteq> k"
      using that i x by (auto simp: assms(3) in_set_conv_nth nth_list_update)
    then show "store_get s' m = Some y \<longleftrightarrow> store_get s m = Some y"
      using False by (auto simp: store_get_iff [OF assms(1)] store_get_iff [OF assms(2)])
  qed
  with False show ?thesis by simp
qed

lemma replace_get:
  assumes "store_wf s" "replace_existing k r s = Inr s'"
  shows "\<exists>old. store_get s k = Some old \<and> (\<forall>m. store_get s' m = (if m = k then Some (r\<lparr>exp_name := k, exp_status := exp_status old\<rparr>) else store_get s m))"
proof -
  from assms obtain i where i: "i < length (experiences s)" "exp_name (experiences s ! i) = k"
    and e: "experiences s' = (experiences s)[i := r\<lparr>exp_name := k, exp_status := exp_status (experiences s ! i)\<rparr>]"
    by (auto simp: replace_existing_def by_name_get Let_def split: option.splits if_splits)
  have "store_get s k = Some (experiences s ! i)" using i by (simp add: store_get_iff [OF assms(1)])
  then show ?thesis using update_get [OF assms(1) replace_wf [OF assms] e i] by simp
qed

lemma transition_get:
  assumes "store_wf s" "transition_status k a s = Inr (st, s')"
  shows "\<exists>e. store_get s k = Some e \<and> status_transition (exp_status e) a = Inr st \<and>
    (\<forall>m. store_get s' m = (if m = k then Some (e\<lparr>exp_status := st\<rparr>) else store_get s m))"
proof -
  from assms obtain i where i: "i < length (experiences s)" "exp_name (experiences s ! i) = k"
      and t: "status_transition (exp_status (experiences s ! i)) a = Inr st"
      and e: "experiences s' = (experiences s)[i := (experiences s ! i)\<lparr>exp_status := st\<rparr>]"
    by (auto simp: transition_status_def by_name_get split: option.splits sum.splits)
  have "store_get s k = Some (experiences s ! i)" using i by (simp add: store_get_iff [OF assms(1)])
  then show ?thesis using update_get [OF assms(1) transition_wf [OF assms] e i] i t by simp
qed

lemma import_items_get:
  "import_items env sc emb i items s = (r, s') \<Longrightarrow> store_wf s \<Longrightarrow> store_get s' n = Some e \<Longrightarrow>
   store_get s n = Some e \<or> (\<exists>item \<in> set items. ad_exp_value env item = Inr e)"
proof (induction items arbitrary: i s)
  case (Cons item items)
  show ?case
  proof (cases "\<exists>x s1. ad_exp_value env item = Inr x \<and> store_insert x s = Inr s1 \<and> (s' = s1 \<or>
      (\<exists>sc' s2. set_scope (exp_name x) sc' s1 = Inr s2 \<and> import_items env sc emb (Suc i) items s2 = (r, s')))")
    case True
    then obtain x s1 where x: "ad_exp_value env item = Inr x" and ins: "store_insert x s = Inr s1" and
      rest: "s' = s1 \<or> (\<exists>sc' s2. set_scope (exp_name x) sc' s1 = Inr s2 \<and> import_items env sc emb (Suc i) items s2 = (r, s'))" by blast
    have one: "store_get s1 n = Some e \<Longrightarrow> store_get s n = Some e \<or> x = e"
      using exps.look_ins [OF Cons.prems(2) ins] by (auto split: if_splits)
    from rest show ?thesis
    proof
      assume "s' = s1"
      with Cons.prems(3) one x show ?thesis by auto
    next
      assume "\<exists>sc' s2. set_scope (exp_name x) sc' s1 = Inr s2 \<and> import_items env sc emb (Suc i) items s2 = (r, s')"
      then obtain sc' s2 where s2: "set_scope (exp_name x) sc' s1 = Inr s2" "import_items env sc emb (Suc i) items s2 = (r, s')" by blast
      have "store_wf s2" using insert_wf [OF Cons.prems(2) ins] s2(1) by (blast intro: store_step_wf step_scope)
      from Cons.IH [OF s2(2) this Cons.prems(3)] metadata_get(2) [OF s2(1)] one x show ?thesis by auto
    qed
  next
    case False
    with Cons.prems show ?thesis by (auto split: sum.splits)
  qed
qed simp

text \<open>Where an experience that is ACTIVE after a request can come from.\<close>

definition sent_items :: "AdminEnv \<Rightarrow> string \<Rightarrow> json list" where
  "sent_items env body =
     (case ad_json env body of
        Inr v \<Rightarrow> (case Option.bind (json_get v ''payload'') payload_items of Some items \<Rightarrow> items | None \<Rightarrow> [])
      | Inl _ \<Rightarrow> [])"

definition activated_by :: "AdminEnv \<Rightarrow> string \<Rightarrow> AdminRequest \<Rightarrow> ExperienceStore \<Rightarrow> string \<Rightarrow> Experience \<Rightarrow> bool" where
  "activated_by env body rq s n e' \<longleftrightarrow>
     (\<exists>e. store_get s n = Some e \<and> exp_status e = Validated \<and> e' = e\<lparr>exp_status := Active\<rparr> \<and> rq = PatchStatus n) \<or>
     (\<exists>e d. store_get s n = Some e \<and> exp_status e = Active \<and> rq = AdoptDraft (n @ DRAFT_SUFFIX) \<and>
        store_get s (n @ DRAFT_SUFFIX) = Some d \<and> exp_status d = Draft \<and> e' = d\<lparr>exp_name := n, exp_status := Active\<rparr>) \<or>
     rq = InsertExperience \<and> ad_exp_str env body = Inr e' \<or>
     rq = ImportExperiences \<and> (\<exists>item \<in> set (sent_items env body). ad_exp_value env item = Inr e')"

lemma status_to_active: "status_transition st a = Inr Active \<Longrightarrow> st = Validated"
  by (cases a) (auto split: if_splits)

lemma adopted_active:
  assumes "store_wf s" and "store_get s (k @ DRAFT_SUFFIX) = Some d" and "exp_status d = Draft"
    and "replace_existing k (d\<lparr>exp_name := k\<rparr>) s = Inr s1" and "store_get s1 n = Some e'" and "exp_status e' = Active"
  shows "store_get s n = Some e' \<or> activated_by env body (AdoptDraft (k @ DRAFT_SUFFIX)) s n e'"
proof -
  from replace_get [OF assms(1,4)] obtain old where old: "store_get s k = Some old"
    and new: "\<And>m. store_get s1 m = (if m = k then Some (d\<lparr>exp_name := k, exp_status := exp_status old\<rparr>) else store_get s m)" by auto
  show ?thesis
  proof (cases "n = k")
    case True
    with new [of n] assms(5,6) have "e' = d\<lparr>exp_name := n, exp_status := Active\<rparr>" "exp_status old = Active" by auto
    with old assms(2,3) True show ?thesis by (simp add: activated_by_def)
  qed (use new [of n] assms(5) in simp)
qed

lemma admin_step_active:
  assumes "admin_step env body rq s s'" and wf: "store_wf s" and e': "store_get s' n = Some e'" and act: "exp_status e' = Active"
  shows "store_get s n = Some e' \<or> activated_by env body rq s n e'"
  using assms(1)
proof (cases rule: admin_step.cases)
  case (adopt_half k d)
  with adopted_active [OF wf adopt_half(2-4) e' act] show ?thesis by simp
next
  case (adopt k d s1)
  have wf1: "store_wf s1" using wf adopt(4) by (rule replace_wf)
  have "store_get s1 n = Some e'" using exps.look_del [OF wf1 adopt(5), of n] e' by (simp split: if_splits)
  with adopted_active [OF wf adopt(2-4) _ act] adopt(1) show ?thesis by simp
next
  case (edit x k e)
  from replace_get [OF wf edit(5)] edit(3,4) e' act show ?thesis by (auto split: if_splits)
next
  case (patch k a st e)
  from transition_get [OF wf patch(2)] obtain e0 where e0: "store_get s k = Some e0" "status_transition (exp_status e0) a = Inr st"
    and new: "\<And>m. store_get s' m = (if m = k then Some (e0\<lparr>exp_status := st\<rparr>) else store_get s m)" by blast
  show ?thesis
  proof (cases "n = k")
    case True
    with new [of n] e' act have "e' = e0\<lparr>exp_status := Active\<rparr>" "st = Active" by auto
    with e0 status_to_active [of "exp_status e0" a] True patch(1) show ?thesis by (simp add: activated_by_def)
  qed (use new [of n] e' in simp)
next
  case (import v payload items sc r)
  then have "sent_items env body = items" by (simp add: sent_items_def)
  with import_items_get [OF import(5) wf e'] import(1) show ?thesis by (auto simp: activated_by_def)
next
  case (insert e)
  from exps.look_ins [OF wf insert(3), of n] e' insert show ?thesis by (auto simp: activated_by_def split: if_splits)
next
  case (draft k e)
  from exps.look_ins [OF wf draft(3), of n] e' act show ?thesis by (auto split: if_splits)
next
  case (promote e rid)
  from exps.look_ins [OF wf promote(3), of n] e' act promote show ?thesis by (auto split: if_splits)
next
  case (delete k)
  from exps.look_del [OF wf delete(2), of n] e' show ?thesis by (auto split: if_splits)
next
  case (preference k u s1 c)
  from metadata_get(4) [OF preference(2)] metadata_get(5) [OF preference(3)] e' show ?thesis by simp
qed (use e' metadata_get in auto)

text \<open>C38: nothing becomes ACTIVE unnoticed. If an experience is ACTIVE after a request, then it was there before with
  the same contents, or the request was one of four: a status request moved it there from VALIDATED; a draft was adopted
  over an experience that was ACTIVE; the body of an insertion carried it with that status; or it was an item
  of an import. The last three do not qualify what they activate.\<close>

theorem activation_sources:
  assumes "store_reachable (srv_store srv)" and "serve env number rq body srv = Some (reply, srv')"
    and "store_get (srv_store srv') n = Some e'" and "exp_status e' = Active"
  shows "store_get (srv_store srv) n = Some e' \<or> activated_by env body rq (srv_store srv) n e'"
  using admin_step_active [OF serve_refines [OF assms(2)] store_reachable_imp_wf [OF assms(1)] assms(3,4)] .

section \<open>The status route\<close>

definition settled_status :: "QualificationAction \<Rightarrow> ExperienceStatus \<Rightarrow> ExperienceStatus \<Rightarrow> bool" where
  "settled_status a st st' \<longleftrightarrow> status_transition st a = Inr st' \<or>
     st' = st \<and> ((a = Activate \<or> a = ForceActivate) \<and> st = Active \<or> a = Disable \<and> st = Disabled)"

lemma next_status_exact:
  assumes "store_wf s" "next_status n a (exp_status e) s = Inr (st, s')" "store_get s n = Some e"
  shows "settled_status a (exp_status e) st \<and> (\<forall>m. store_get s' m = (if m = n then Some (e\<lparr>exp_status := st\<rparr>) else store_get s m))"
proof (cases "transition_status n a s = Inr (st, s')")
  case True
  from transition_get [OF assms(1) True] assms(3) show ?thesis by (auto simp: settled_status_def)
next
  case False
  with assms(2) have "s' = s" "st = exp_status e" "(a = Activate \<or> a = ForceActivate) \<and> st = Active \<or> a = Disable \<and> st = Disabled"
    by (auto simp: next_status_def split: if_splits)
  with assms(3) show ?thesis by (auto simp: settled_status_def)
qed

lemma locked_status_exact:
  assumes wf: "store_wf (app_store app)" and run: "locked_status env n verb a reason app srv = (Answer 200 v, srv')"
  shows "\<exists>e st. store_get (app_store app) n = Some e \<and>
    (a = Validate \<or> a = Revalidate \<longrightarrow> fst (qualify (ad_scratch env) e resolve_default_source (app_fs app)) = Inr (Inr ())) \<and>
    settled_status a (exp_status e) st \<and> get_str v ''status'' = Some (status_str st) \<and>
    (\<forall>m. store_get (srv_store srv') m = (if m = n then Some (e\<lparr>exp_status := st\<rparr>) else store_get (app_store app) m))"
proof -
  from run obtain e where e: "store_get (app_store app) n = Some e"
    by (auto simp: locked_status_def bad_request_def split: option.splits)
  obtain q fs where q: "qualify (ad_scratch env) e resolve_default_source (app_fs app) = (q, fs)" by fastforce
  have ok: "a = Validate \<or> a = Revalidate \<Longrightarrow> q = Inr (Inr ())"
    using run e q by (cases q) (auto simp: locked_status_def with_app_def split: sum.splits)
  obtain app' where "app_store app' = app_store app" and "apply_status env n verb a reason (exp_status e) app' srv = (Answer 200 v, srv')"
  proof (cases "a = Validate \<or> a = Revalidate")
    case True
    with run e q ok that [of "app\<lparr>app_fs := fs\<rparr>"] show thesis by (simp add: locked_status_def)
  next
    case False
    with run e that [of app] show thesis by (simp add: locked_status_def)
  qed
  then obtain st s' where st: "next_status n a (exp_status e) (app_store app) = Inr (st, s')" "srv_store srv' = s'"
      and v: "v = json_object [(''ok'', JBool True), (''status'', JString (status_str st))]"
    by (auto simp: apply_status_def with_app_def bad_request_def split: sum.splits prod.splits)
  have "get_str v ''status'' = Some (status_str st)" by (simp add: v get_str_def json_get_object)
  with next_status_exact [OF wf st(1) e] st(2) e q ok show ?thesis by auto
qed

text \<open>C37: what a successful status request has done. If \<open>PATCH /api/experiences/<name>/status\<close> answers 200, then the verb is
  one of the known ones, a forced activation came with a reason that is not blank, a (re)validated experience has
  only predicates with a state source and only steps the dry run can replay, and the experience now has exactly the
  status the transition table gives, or the one it had if the target was already reached. Its
  other fields and every other experience are unchanged, and the answer names the new status.\<close>

theorem patch_status_exact:
  assumes "store_reachable (srv_store srv)" and "status_route env n body srv = (Answer 200 v, srv')"
  shows "\<exists>w verb a e st. ad_json env body = Inr w \<and> requested_verb w = Some verb \<and> verb_action verb = Some a \<and>
    store_get (srv_store srv) n = Some e \<and>
    (a = ForceActivate \<longrightarrow> trim_str (text_or [] (get_str w ''reason'')) \<noteq> []) \<and>
    (a = Validate \<or> a = Revalidate \<longrightarrow>
       (\<forall>p \<in> set (exp_preconditions e @ exp_postconditions e). sourced resolve_default_source p) \<and> list_all replayable (exp_workflow e)) \<and>
    settled_status a (exp_status e) st \<and> get_str v ''status'' = Some (status_str st) \<and>
    (\<forall>m. store_get (srv_store srv') m = (if m = n then Some (e\<lparr>exp_status := st\<rparr>) else store_get (srv_store srv) m))"
  using assms(2)
proof (cases rule: status_route_cases)
  case (refused msg)
  then show ?thesis by (auto simp: bad_request_def)
next
  case (locked w verb a)
  from locked_status_exact [OF store_reachable_imp_wf [OF assms(1)] locked(6)] obtain e st where
    e: "store_get (srv_store srv) n = Some e"
    and q: "a = Validate \<or> a = Revalidate \<Longrightarrow> fst (qualify (ad_scratch env) e resolve_default_source (app_fs (srv_app srv))) = Inr (Inr ())"
    and st: "settled_status a (exp_status e) st" "get_str v ''status'' = Some (status_str st)"
      "\<forall>m. store_get (srv_store srv') m = (if m = n then Some (e\<lparr>exp_status := st\<rparr>) else store_get (srv_store srv) m)" by blast
  have "(\<forall>p \<in> set (exp_preconditions e @ exp_postconditions e). sourced resolve_default_source p) \<and> list_all replayable (exp_workflow e)"
    if "a = Validate \<or> a = Revalidate"
    using qualified_checked [of "ad_scratch env" e resolve_default_source "app_fs (srv_app srv)"] q [OF that] by (metis prod.collapse)
  with locked(2-5) e st show ?thesis by blast
qed

section \<open>A panic while the store is locked\<close>

definition store_request :: "AdminRequest \<Rightarrow> bool" where
  "store_request rq \<longleftrightarrow> (case rq of
     RestoreBackup _ \<Rightarrow> False | CreateAgent \<Rightarrow> False | RemoveAgent _ \<Rightarrow> False | ConnectAgent _ \<Rightarrow> False | DisconnectAgent _ \<Rightarrow> False
   | PutSettings \<Rightarrow> False | WrongMethod \<Rightarrow> False | OtherRoute \<Rightarrow> False | _ \<Rightarrow> True)"

text \<open>Requests answered one after the other, each with its own environment.\<close>

fun run_requests :: "(rat \<Rightarrow> json) \<Rightarrow> (AdminEnv \<times> AdminRequest \<times> string) list \<Rightarrow> Server \<Rightarrow> Server" where
  "run_requests number [] srv = srv"
| "run_requests number ((env, rq, body) # rs) srv =
     (case serve env number rq body srv of None \<Rightarrow> run_requests number rs srv | Some (_, srv1) \<Rightarrow> run_requests number rs srv1)"

lemma poisoned_store_routes:
  assumes "srv_poisoned srv" "serve env number rq body srv = Some (reply, srv')" "store_request rq"
  shows "srv' = srv \<and> (reply = Dropped \<or> (\<exists>msg. reply = bad_request msg))"
proof -
  have policy: "put_policy env body srv = (reply, srv') \<Longrightarrow> ?thesis"
    using assms(1) unfolding put_policy_def policy_clear_def policy_set_def
    by (auto simp: lock_store_def Let_def split: sum.splits option.splits if_splits)
  have artifact: "insert_experience env body srv = (reply, srv') \<Longrightarrow> ?thesis" "delete_experience env n srv = (reply, srv') \<Longrightarrow> ?thesis"
    "draft_route env n body srv = (reply, srv') \<Longrightarrow> ?thesis" "body_route env n body srv = (reply, srv') \<Longrightarrow> ?thesis"
    "adopt_route env n body srv = (reply, srv') \<Longrightarrow> ?thesis" for n
    using assms(1) unfolding insert_experience_def delete_experience_def draft_route_def body_route_def adopt_route_def
    by (auto simp: lock_store_def split: sum.splits option.splits if_splits)
  have metadata: "scope_route env n body srv = (reply, srv') \<Longrightarrow> ?thesis" "display_name_route env n body srv = (reply, srv') \<Longrightarrow> ?thesis"
    "preference_route env n body srv = (reply, srv') \<Longrightarrow> ?thesis" "pin_route env b n body srv = (reply, srv') \<Longrightarrow> ?thesis"
    "status_route env n body srv = (reply, srv') \<Longrightarrow> ?thesis" for n b
    using assms(1) unfolding scope_route_def display_name_route_def preference_route_def pin_route_def status_route_def
    by (auto simp: with_json_def lock_store_def split: sum.splits option.splits if_splits)
  have transfer: "import_route env body srv = (reply, srv') \<Longrightarrow> ?thesis" "export_route env number sc srv = (reply, srv') \<Longrightarrow> ?thesis"
    "promote_reference env rid body srv = (reply, srv') \<Longrightarrow> ?thesis" for sc rid
    using assms(1) unfolding import_route_def export_route_def promote_reference_def
    by (auto simp: with_json_def lock_store_def split: sum.splits option.splits if_splits)
  show ?thesis using assms(2,3) policy artifact metadata transfer by (cases rq) (simp_all add: store_request_def)
qed

lemma other_routes_keep:
  assumes "serve env number rq body srv = Some (reply, srv')" "\<not> store_request rq"
  shows "srv_store srv' = srv_store srv \<and> srv_poisoned srv' = srv_poisoned srv \<and> reply \<noteq> Dropped"
proof -
  have files: "restore_backup env i body srv = (reply, srv') \<Longrightarrow> ?thesis" "put_settings env body srv = (reply, srv') \<Longrightarrow> ?thesis" for i
    unfolding restore_backup_def put_settings_def
    by (auto simp: Let_def with_app_def bad_request_def missing_route_def split: if_splits sum.splits prod.splits)
  have agents: "create_agent env body srv = (reply, srv') \<Longrightarrow> ?thesis" "remove_agent env i srv = (reply, srv') \<Longrightarrow> ?thesis"
    "connect_agent env i srv = (reply, srv') \<Longrightarrow> ?thesis" "disconnect_agent env i srv = (reply, srv') \<Longrightarrow> ?thesis" for i
    unfolding create_agent_def remove_agent_def connect_agent_def disconnect_agent_def
    by (auto simp: agents_persist_def bad_request_def split: sum.splits prod.splits)
  show ?thesis using assms files agents by (cases rq) (auto simp: store_request_def method_not_allowed_def)
qed

lemma poisoned_run:
  "srv_poisoned srv \<Longrightarrow> srv_store (run_requests number rs srv) = srv_store srv \<and> srv_poisoned (run_requests number rs srv)"
proof (induction rs arbitrary: srv)
  case (Cons r rs)
  obtain env rq body where r: "r = (env, rq, body)" by (cases r)
  show ?case
  proof (cases "serve env number rq body srv")
    case (Some a)
    obtain reply srv1 where a: "a = (reply, srv1)" by fastforce
    with Some Cons.prems poisoned_store_routes [of srv env number rq body reply srv1] other_routes_keep [of env number rq body srv reply srv1]
    have "srv_store srv1 = srv_store srv \<and> srv_poisoned srv1" by (cases "store_request rq") simp_all
    with Cons.IH [of srv1] Some r a show ?thesis by simp
  qed (use Cons r in simp)
qed simp

lemmas reply_defs = with_app_def bad_request_def missing_route_def

text \<open>Outside the status route a connection is dropped only by a poisoned lock.\<close>

lemma dropped_routes:
  assumes "serve env number rq body srv = Some (Dropped, srv')" "\<forall>n. rq \<noteq> PatchStatus n"
  shows "srv_poisoned srv"
proof -
  have policy: "put_policy env body srv = (Dropped, srv') \<Longrightarrow> ?thesis"
    unfolding put_policy_def policy_clear_def policy_set_def
    by (auto simp: lock_store_def Let_def reply_defs split: sum.splits option.splits if_splits prod.splits)
  have artifact: "insert_experience env body srv = (Dropped, srv') \<Longrightarrow> ?thesis" "delete_experience env n srv = (Dropped, srv') \<Longrightarrow> ?thesis"
    "draft_route env n body srv = (Dropped, srv') \<Longrightarrow> ?thesis" "body_route env n body srv = (Dropped, srv') \<Longrightarrow> ?thesis"
    "adopt_route env n body srv = (Dropped, srv') \<Longrightarrow> ?thesis" for n
    unfolding insert_experience_def delete_experience_def draft_route_def body_route_def adopt_route_def
    by (auto simp: lock_store_def reply_defs split: sum.splits option.splits if_splits)
  have metadata: "scope_route env n body srv = (Dropped, srv') \<Longrightarrow> ?thesis" "display_name_route env n body srv = (Dropped, srv') \<Longrightarrow> ?thesis"
    "preference_route env n body srv = (Dropped, srv') \<Longrightarrow> ?thesis" "pin_route env b n body srv = (Dropped, srv') \<Longrightarrow> ?thesis" for n b
    unfolding scope_route_def display_name_route_def preference_route_def pin_route_def
    by (auto simp: route_defs bad_request_def split: sum.splits option.splits if_splits)
  have transfer: "import_route env body srv = (Dropped, srv') \<Longrightarrow> ?thesis" "export_route env number sc srv = (Dropped, srv') \<Longrightarrow> ?thesis"
    "promote_reference env rid body srv = (Dropped, srv') \<Longrightarrow> ?thesis" for sc rid
    unfolding import_route_def export_route_def promote_reference_def promote_draft_def
    by (auto simp: route_defs bad_request_def split: sum.splits option.splits if_splits prod.splits)
  show ?thesis
  proof (cases "store_request rq")
    case True
    then show ?thesis using assms policy artifact metadata transfer by (cases rq) (simp_all add: store_request_def)
  next
    case False
    with other_routes_keep [OF assms(1)] show ?thesis by simp
  qed
qed

definition panicking :: "AdminEnv \<Rightarrow> AdminRequest \<Rightarrow> App \<Rightarrow> bool" where
  "panicking env rq app \<longleftrightarrow> (case rq of
     PatchStatus n \<Rightarrow> (case store_get (app_store app) n of
        Some e \<Rightarrow> isl (fst (qualify (ad_scratch env) e resolve_default_source (app_fs app))) | None \<Rightarrow> False)
   | _ \<Rightarrow> False)"

lemma status_route_dropped:
  assumes "status_route env n body srv = (Dropped, srv')" "\<not> srv_poisoned srv"
  shows "panicking env (PatchStatus n) (srv_app srv) \<and> srv_store srv' = srv_store srv \<and> srv_poisoned srv'"
  using assms(1)
proof (cases rule: status_route_cases)
  case (refused msg)
  with assms(2) show ?thesis by (simp add: bad_request_def)
next
  case (locked v verb a)
  have "apply_status env n verb a r st app srv \<noteq> (Dropped, srv')" for r st app
    by (auto simp: apply_status_def reply_defs split: sum.splits prod.splits)
  with locked(6) show ?thesis
    by (auto simp: locked_status_def panicking_def reply_defs split: option.splits if_splits sum.splits prod.splits)
qed


section \<open>Export and import\<close>

lemma chosen_in_scope:
  "filter (\<lambda>e. exp_name e \<in> set (kept_names s sc)) (experiences s) = filter (\<lambda>e. is_in_scope s (exp_name e) sc) (experiences s)"
  by (rule filter_cong) (auto simp: kept_names_def)

lemma named_map_get:
  "json_get (named_map f look names) n = (if n \<in> set names then map_option f (look n) else None)"
proof -
  have "map_of (rev (List.map_filter (\<lambda>n. map_option (\<lambda>v. (n, f v)) (look n)) names)) n =
      (if n \<in> set names then map_option f (look n) else None)"
    by (induction names) (auto simp: List.map_filter_simps map_add_def split: option.splits if_splits)
  then show ?thesis by (simp add: named_map_def json_get_object)
qed

lemma payload_scopes_get:
  assumes "json_get payload ''scopes'' = Some (JObject m)" "bt_sorted m"
  shows "bt_get (payload_scopes payload) n = Option.bind (bt_get m n) as_str"
proof -
  have "distinct (map fst m)" using assms(2) by (simp add: bt_sorted_def strict_sorted_iff)
  then have "map_of (rev (List.map_filter (\<lambda>(n, v). map_option (Pair n) (as_str v)) m)) n = Option.bind (map_of m n) as_str"
  proof (induction m)
    case (Cons p m)
    obtain k v where p: "p = (k, v)" by (cases p)
    with Cons.prems have "map_of m k = None" by (simp add: map_of_eq_None_iff)
    with Cons p show ?case by (cases "as_str v") (auto simp: List.map_filter_simps map_add_def split: option.splits)
  qed (simp add: List.map_filter_simps)
  then show ?thesis by (simp add: payload_scopes_def assms(1) bt_get_collect bt_get_def [of m])
qed

text \<open>What an import never touches.\<close>

abbreviation extras :: "ExperienceStore \<Rightarrow> string list \<times> string btree \<times> string btree \<times> rat btree" where
  "extras s \<equiv> (Store.pinned s, display_names s, user_usage s, user_confidence s)"

lemma import_fresh_items:
  assumes "store_wf s" "distinct (map exp_name es)" "\<forall>e \<in> set es. store_get s (exp_name e) = None"
    and "\<forall>e \<in> set es. ad_exp_value env (ad_exp_json env e) = Inr e \<and> validate_editable_body e = Inr ()"
  shows "\<exists>t. import_items env None emb i (map (ad_exp_json env) es) s = (Inr (), t) \<and> experiences t = experiences s @ es \<and>
    extras t = extras s \<and> (\<forall>n. scope_of t n = (if n \<in> exp_name ` set es then bt_get emb n else scope_of s n))"
  using assms
proof (induction es arbitrary: s i)
  case (Cons e es)
  have e: "ad_exp_value env (ad_exp_json env e) = Inr e" "validate_editable_body e = Inr ()" using Cons.prems(4) by simp_all
  then have "schema_issues e = []" by (auto simp: validate_editable_body_def is_schema_valid_def split: if_splits)
  moreover have "\<not> bt_contains (by_name s) (exp_name e)" using Cons.prems(3) by (simp add: store_get_def bt_contains_def)
  ultimately obtain s1 where s1: "store_insert e s = Inr s1" "experiences s1 = experiences s @ [e]" "extras s1 = extras s" "scopes s1 = scopes s"
    by (simp add: store_insert_def)
  have look1: "store_get s1 m = (if m = exp_name e then Some e else store_get s m)" for m
    using exps.look_ins [OF Cons.prems(1) s1(1)] .
  from this [of "exp_name e"] have "Store.contains s1 (exp_name e)" by (auto simp: Store.contains_def store_get_def bt_contains_def)
  then obtain s2 where s2: "set_scope (exp_name e) (bt_get emb (exp_name e)) s1 = Inr s2" "experiences s2 = experiences s1" "extras s2 = extras s1"
      and scope2: "\<And>n. scope_of s2 n = (if n = exp_name e then bt_get emb n else scope_of s1 n)"
    by (cases "bt_get emb (exp_name e)") (simp_all add: set_scope_def scope_of_def map_simps)
  have "store_wf s2" using insert_wf [OF Cons.prems(1) s1(1)] s2(1) by (blast intro: store_step_wf step_scope)
  moreover have "\<forall>x \<in> set es. store_get s2 (exp_name x) = None"
    using Cons.prems(2,3) by (auto simp: metadata_get(2) [OF s2(1)] look1 image_iff)
  ultimately obtain t where t: "import_items env None emb (Suc i) (map (ad_exp_json env) es) s2 = (Inr (), t)"
      "experiences t = experiences s2 @ es" "extras t = extras s2"
      "\<forall>n. scope_of t n = (if n \<in> exp_name ` set es then bt_get emb n else scope_of s2 n)"
    using Cons.IH [of s2 "Suc i"] Cons.prems(2,4) by auto
  have "scope_of s1 n = scope_of s n" for n by (simp add: scope_of_def s1(4))
  with t s1 s2 e scope2 show ?case by simp
qed simp

text \<open>C25: exporting and importing moves the experiences, and only them. If the printed form of each exported experience parses back to it and
  each is one the editor accepts, then importing an export of a store into an empty one succeeds, takes exactly the
  experiences of the requested scope in their order, and gives each the scope it had; pins, display names and user
  preferences, which the export contains, are dropped by the import.\<close>

theorem export_import_roundtrip:
  assumes "store_reachable s"
    and "\<forall>e \<in> set (experiences s). ad_exp_value env (ad_exp_json env e) = Inr e \<and> validate_editable_body e = Inr ()"
  shows "\<exists>t. import_experiences env (export_experiences env number s sc) None ExperienceStore_default = (Inr (length (experiences t)), t) \<and>
    experiences t = filter (\<lambda>e. is_in_scope s (exp_name e) sc) (experiences s) \<and>
    (\<forall>e \<in> set (experiences t). scope_of t (exp_name e) = scope_of s (exp_name e)) \<and>
    Store.pinned t = [] \<and> display_names t = [] \<and> user_usage t = [] \<and> user_confidence t = []"
proof -
  define es where "es = filter (\<lambda>e. is_in_scope s (exp_name e) sc) (experiences s)"
  define payload where "payload = export_experiences env number s sc"
  have items: "payload_items payload = Some (map (ad_exp_json env) es)"
    by (simp add: payload_def export_experiences_def Let_def chosen_in_scope payload_items_def json_get_object es_def)
  define m where "m = named_map JString (scope_of s) (map exp_name es)"
  have sc: "json_get payload ''scopes'' = Some m"
    by (simp add: payload_def export_experiences_def Let_def chosen_in_scope json_get_object es_def m_def)
  obtain ps where ps: "m = JObject ps" "bt_sorted ps" by (simp add: m_def named_map_def json_object_def)
  have emb: "bt_get (payload_scopes payload) n = scope_of s n" if "n \<in> exp_name ` set es" for n
    using payload_scopes_get [OF sc [unfolded ps(1)] ps(2), of n] named_map_get [of JString "scope_of s" "map exp_name es" n] that ps(1)
    by (cases "scope_of s n") (auto simp: m_def)
  have d: "distinct (map exp_name es)"
    using store_reachable_imp_wf [OF assms(1)] by (simp add: store_wf_def es_def distinct_map_filter)
  have "\<forall>e \<in> set es. store_get ExperienceStore_default (exp_name e) = None"
    by (simp add: store_get_def ExperienceStore_default_def)
  with import_fresh_items [OF store_wf_default d, of env "payload_scopes payload" 0] assms(2) obtain t where
    t: "import_items env None (payload_scopes payload) 0 (map (ad_exp_json env) es) ExperienceStore_default = (Inr (), t)"
      "experiences t = es" "extras t = extras ExperienceStore_default"
      "\<forall>n. scope_of t n = (if n \<in> exp_name ` set es then bt_get (payload_scopes payload) n else scope_of ExperienceStore_default n)"
    by (auto simp: es_def ExperienceStore_default_def)
  with emb items show ?thesis
    by (auto simp: import_experiences_def payload_def [symmetric] es_def [symmetric] ExperienceStore_default_def)
qed

section \<open>Concrete runs\<close>

text \<open>An environment in which a body is the verb of a status request, and the only experience that can be sent is \<open>touch\<close>.\<close>

definition demo_admin :: AdminEnv where
  "demo_admin = \<lparr>ad_codecs = demo_codecs, ad_now = 7, ad_scratch = [''w'', ''tmp''], ad_vars = (\<lambda>_. None), ad_agent = demo_agent_env,
     ad_json = (\<lambda>body. Inr (JObject [(''status'', JString body)])), ad_exp_str = (\<lambda>_. Inr demo_instance),
     ad_exp_value = (\<lambda>v. if v = JString ''touch'' then Inr demo_instance else Inl ''unknown''), ad_exp_json = (\<lambda>e. JString (exp_name e)),
     ad_policy_value = (\<lambda>_. Inl ''no policy''), ad_policy_json = (\<lambda>_. JNull), ad_config_str = (\<lambda>_. Inl ''no agent''),
     ad_config_print = (\<lambda>_. ''{}''), ad_status_json = (\<lambda>_. JNull), ad_manifest = (\<lambda>_. Inl ''no manifest''),
     ad_f64 = (\<lambda>_. None), ad_compile = (\<lambda>_ _ _. None)\<rparr>"

definition demo_server :: "ExperienceStore \<Rightarrow> Server" where
  "demo_server s = \<lparr>srv_app = demo_app\<lparr>app_store := s\<rparr>, srv_agents = [], srv_poisoned = False\<rparr>"

lemma demo_server_fields [simp]:
  "srv_store (demo_server s) = s" "srv_app (demo_server s) = demo_app\<lparr>app_store := s\<rparr>" "\<not> srv_poisoned (demo_server s)"
  by (simp_all add: demo_server_def)

lemma demo_admin_fields [simp]:
  "ad_json demo_admin body = Inr (JObject [(''status'', JString body)])" "ad_scratch demo_admin = [''w'', ''tmp'']"
  "ad_exp_str demo_admin body = Inr demo_instance" "ad_exp_json demo_admin e = JString (exp_name e)"
  "ad_exp_value demo_admin v = (if v = JString ''touch'' then Inr demo_instance else Inl ''unknown'')"
  by (simp_all add: demo_admin_def)

lemma demo_store_touch: "store_get demo_store ''touch'' = Some demo_instance"
  by code_simp

lemma demo_requested [simp]: "requested_verb (JObject [(''status'', JString verb)]) = Some verb"
  by (simp add: requested_verb_def bt_get_def)

lemma demo_disable:
  obtains v srv' where "status_route demo_admin ''touch'' ''disable'' (demo_server demo_store) = (Answer 200 v, srv')"
proof -
  have "\<not> isl (transition_status ''touch'' Disable demo_store)" by code_simp
  then have t: "\<exists>r. transition_status ''touch'' Disable demo_store = Inr r" by (metis isl_def sum.exhaust)
  have "exp_status demo_instance = Active" "verb_action ''disable'' = Some Disable" by code_simp+
  with t that show thesis
    by (auto simp: status_route_def with_json_def lock_store_def locked_status_def demo_store_touch apply_status_def next_status_def with_app_def)
qed


theorem activation_sources_witness:
  "\<exists>reply srv'. serve demo_admin (\<lambda>_. JNull) InsertExperience ''touch'' (demo_server ExperienceStore_default) = Some (reply, srv') \<and>
     activated_by demo_admin ''touch'' InsertExperience ExperienceStore_default ''touch'' demo_instance"
proof -
  have r: "\<exists>srv'. serve demo_admin (\<lambda>_. JNull) InsertExperience ''touch'' (demo_server ExperienceStore_default) = Some (Answer 201 ok_json, srv') \<and>
      srv_store srv' = demo_store"
    by (simp add: insert_experience_def lock_store_def with_app_def demo_store_insert)
  then obtain srv' where r: "serve demo_admin (\<lambda>_. JNull) InsertExperience ''touch'' (demo_server ExperienceStore_default) = Some (Answer 201 ok_json, srv')"
    and s: "srv_store srv' = demo_store" by blast
  have "exp_status demo_instance = Active" "store_get ExperienceStore_default ''touch'' = None" by code_simp+
  with activation_sources [OF _ r, of "''touch''" demo_instance] s demo_store_touch reach_default r show ?thesis by auto
qed

theorem patch_status_exact_witness:
  "\<exists>v srv'. status_route demo_admin ''touch'' ''disable'' (demo_server demo_store) = (Answer 200 v, srv') \<and>
     store_get (srv_store srv') ''touch'' = Some (demo_instance\<lparr>exp_status := Disabled\<rparr>)"
proof -
  obtain v srv' where r: "status_route demo_admin ''touch'' ''disable'' (demo_server demo_store) = (Answer 200 v, srv')" by (rule demo_disable)
  have "verb_action ''disable'' = Some Disable" "status_transition (exp_status demo_instance) Disable = Inr Disabled"
    "exp_status demo_instance = Active" by code_simp+
  with patch_status_exact [OF _ r] r demo_store_reachable demo_store_touch show ?thesis by (auto simp: settled_status_def)
qed

definition demo_move_store :: ExperienceStore where
  "demo_move_store = (case store_insert demo_move ExperienceStore_default of Inr s \<Rightarrow> s | Inl _ \<Rightarrow> ExperienceStore_default)"


theorem export_import_roundtrip_witness:
  "\<exists>t. import_experiences demo_admin (export_experiences demo_admin (\<lambda>_. JNull) demo_store None) None ExperienceStore_default = (Inr 1, t) \<and>
     experiences t = [demo_instance]"
proof -
  have e: "experiences demo_store = [demo_instance]" "validate_editable_body demo_instance = Inr ()" "exp_name demo_instance = ''touch''" by code_simp+
  then have "\<forall>e \<in> set (experiences demo_store).
      ad_exp_value demo_admin (ad_exp_json demo_admin e) = Inr e \<and> validate_editable_body e = Inr ()" by simp
  from export_import_roundtrip [OF demo_store_reachable this, of "\<lambda>_. JNull" None] show ?thesis by (auto simp: e is_in_scope_def)
qed

end
