(* ===== verification/Run_Notes.thy ===== *)
theory Run_Notes
  imports Admin
begin

text \<open>
  Ingestion of agent material (\<open>experience-server/src/main.rs\<close>): the deterministic parser of an agent's
  \<open>run-notes.md\<close> and the routes \<open>/api/ingestion/parse\<close>, \<open>/api/ingestion/run-notes\<close>, \<open>/api/ingestion/package\<close> and
  \<open>/api/references\<close>. Notes become reference entries of the store, which are read by agents and never executed.
  The clock in nanoseconds, which numbers the references, and the encoding of an entry are arguments.
\<close>

section \<open>Lines of Markdown\<close>

record RunNotesDraft =
  rn_task :: string
  rn_steps :: "string list"
  rn_tools_used :: "string list"
  rn_plugins_used :: "string list"
  rn_artifacts :: "string list"
  rn_evidence_lines :: "string list"
  rn_sections :: "string list"

definition RunNotesDraft_default :: RunNotesDraft where
  "RunNotesDraft_default = \<lparr>rn_task = [], rn_steps = [], rn_tools_used = [], rn_plugins_used = [], rn_artifacts = [],
     rn_evidence_lines = [], rn_sections = []\<rparr>"

definition BULLETS :: "string list" where
  "BULLETS = [''- '', ''* '', ''+ '', ([CHR 0xE2, CHR 0x80, CHR 0xA2] @ '' ''), ([CHR 0xC2, CHR 0xB7] @ '' '')]"

text \<open>The characters that may follow a number; three of them are not ASCII.\<close>

definition NUMBER_MARKS :: "string list" where
  "NUMBER_MARKS = [''.'', [CHR 0xE3, CHR 0x80, CHR 0x81], [CHR 0x29], [CHR 0xEF, CHR 0xBC, CHR 0x89], [CHR 0xEF, CHR 0xBC, CHR 0x8E]]"

definition bulleted :: "string \<Rightarrow> string list" where
  "bulleted trimmed =
     filter (\<lambda>v. v \<noteq> []) (map trim_str (List.map_filter (\<lambda>b. strip_prefix trimmed b) BULLETS))"

definition strip_bullet :: "string \<Rightarrow> string option" where
  "strip_bullet line =
     (let trimmed = trim_str line
      in if trimmed = [] then None
         else case bulleted trimmed of
           v # _ \<Rightarrow> Some v
         | [] \<Rightarrow>
             (let digits = takeWhile is_ascii_digit trimmed; remainder = drop (length digits) trimmed;
                  value = trim_str (concat (dropWhile (\<lambda>c. c \<in> set NUMBER_MARKS) (chars_of remainder)))
              in if digits \<noteq> [] \<and> list_ex (starts_with remainder) NUMBER_MARKS \<and> value \<noteq> [] then Some value else None))"

definition HEADINGS :: "(string \<times> string list) list" where
  "HEADINGS =
     [(''task'', [[CHR 0xE7, CHR 0x9B, CHR 0xAE, CHR 0xE6, CHR 0xA0, CHR 0x87], [CHR 0xE7, CHR 0xBA, CHR 0xA6, CHR 0xE6, CHR 0x9D, CHR 0x9F], ''task'', ''goal'', ''objective'']),
      (''tools'', [[CHR 0xE5, CHR 0xB7, CHR 0xA5, CHR 0xE5, CHR 0x85, CHR 0xB7], [CHR 0xE6, CHR 0x8F, CHR 0x92, CHR 0xE4, CHR 0xBB, CHR 0xB6], ''tool'', ''plugin'']),
      (''steps'', [[CHR 0xE6, CHR 0xAD, CHR 0xA5, CHR 0xE9, CHR 0xAA, CHR 0xA4], [CHR 0xE5, CHR 0xAD, CHR 0x90, CHR 0xE6, CHR 0xAD, CHR 0xA5, CHR 0xE9, CHR 0xAA, CHR 0xA4], [CHR 0xE6, CHR 0xB5, CHR 0x81, CHR 0xE7, CHR 0xA8, CHR 0x8B], ''step'', ''workflow'']),
      (''failure'', [[CHR 0xE5, CHR 0xA4, CHR 0xB1, CHR 0xE8, CHR 0xB4, CHR 0xA5], [CHR 0xE4, CHR 0xBF, CHR 0xAE, CHR 0xE6, CHR 0xAD, CHR 0xA3], [CHR 0xE9, CHR 0x97, CHR 0xAE, CHR 0xE9, CHR 0xA2, CHR 0x98], ''failure'', ''fix'']),
      (''artifacts'', [[CHR 0xE4, CHR 0xBA, CHR 0xA7, CHR 0xE7, CHR 0x89, CHR 0xA9], [CHR 0xE9, CHR 0xAA, CHR 0x8C, CHR 0xE8, CHR 0xAF, CHR 0x81], ''evidence'', ''artifact'', ''diff'', ''output'']),
      (''template'', [[CHR 0xE6, CHR 0xA8, CHR 0xA1, CHR 0xE6, CHR 0x9D, CHR 0xBF], [CHR 0xE5, CHR 0x8F, CHR 0x82, CHR 0xE6, CHR 0x95, CHR 0xB0], [CHR 0xE5, CHR 0xA4, CHR 0x8D, CHR 0xE7, CHR 0x94, CHR 0xA8], ''template'', ''reuse''])]"

definition heading_label :: "string \<Rightarrow> string" where
  "heading_label line = trim_str (dropWhile (\<lambda>c. c = CHR 0x23) (trim_str line))"

definition classify_run_notes_heading :: "string \<Rightarrow> string option" where
  "classify_run_notes_heading line =
     (let heading = to_lowercase (heading_label line)
      in map_option fst (find (\<lambda>(_, keywords). list_ex (contains_str heading) keywords) HEADINGS))"

definition COLONS :: "string list" where "COLONS = [[CHR 0xEF, CHR 0xBC, CHR 0x9A], '':'']"

definition names_plugin :: "string \<Rightarrow> bool" where
  "names_plugin item \<longleftrightarrow> contains_str item [CHR 0xE6, CHR 0x8F, CHR 0x92, CHR 0xE4, CHR 0xBB, CHR 0xB6] \<or> contains_str (to_lowercase item) ''plugin''"

definition clean_plugin_name :: "string \<Rightarrow> string" where
  "clean_plugin_name item =
     (case dropWhile (\<lambda>c. c \<notin> set COLONS) (chars_of item) of
        [] \<Rightarrow> item
      | _ # value \<Rightarrow> (if names_plugin item then trim_str (concat value) else item))"

definition table_cells :: "string \<Rightarrow> string list option" where
  "table_cells line =
     (let trimmed = trim_str line
      in if \<not> starts_with trimmed ''|'' \<or> \<not> ends_with trimmed ''|'' then None
         else Some (map trim_str (split_char (CHR ''|'') (trim_matches (\<lambda>c. c = CHR ''|'') trimmed))))"

definition is_table_separator :: "string list \<Rightarrow> bool" where
  "is_table_separator cells \<longleftrightarrow>
     list_all (\<lambda>cell. cell \<noteq> [] \<and> list_all (\<lambda>c. c = CHR ''-'' \<or> c = CHR '':'' \<or> is_whitespace c) cell) cells"

definition is_table_header :: "string list \<Rightarrow> bool" where
  "is_table_header cells \<longleftrightarrow>
     (let joined = to_lowercase (join_str '' '' cells)
      in (case cells of
            [] \<Rightarrow> False
          | first # _ \<Rightarrow> list_ex (contains_str (to_lowercase first)) [[CHR 0xE7, CHR 0xB1, CHR 0xBB, CHR 0xE5, CHR 0x88, CHR 0xAB], ''category'', [CHR 0xE5, CHR 0xAD, CHR 0x97, CHR 0xE6, CHR 0xAE, CHR 0xB5], [CHR 0xE5, CHR 0x90, CHR 0x8D, CHR 0xE7, CHR 0xA7, CHR 0xB0], [CHR 0xE9, CHR 0xAA, CHR 0x8C, CHR 0xE8, CHR 0xAF, CHR 0x81, CHR 0xE9, CHR 0xA1, CHR 0xB9]]) \<and>
         list_ex (contains_str joined) [[CHR 0xE5, CHR 0x90, CHR 0x8D, CHR 0xE7, CHR 0xA7, CHR 0xB0], ''version'', [CHR 0xE8, CHR 0xAF, CHR 0xB4, CHR 0xE6, CHR 0x98, CHR 0x8E], [CHR 0xE6, CHR 0x96, CHR 0xB9, CHR 0xE6, CHR 0xB3, CHR 0x95], [CHR 0xE7, CHR 0xBB, CHR 0x93, CHR 0xE6, CHR 0x9E, CHR 0x9C]])"

definition table_row_text :: "string list \<Rightarrow> string" where
  "table_row_text cells = l3_cap (join_str '' | '' cells) 200"

section \<open>The parser\<close>

definition note_heading :: "string \<Rightarrow> RunNotesDraft \<times> string option \<Rightarrow> RunNotesDraft \<times> string option" where
  "note_heading trimmed st =
     (let (draft, current) = st; label = heading_label trimmed; level = length (takeWhile (\<lambda>c. c = CHR 0x23) trimmed);
          draft1 = (if label \<noteq> [] then draft\<lparr>rn_sections := rn_sections draft @ [label]\<rparr> else draft)
      in (draft1, case classify_run_notes_heading trimmed of
                    Some category \<Rightarrow> Some category
                  | None \<Rightarrow> (if level \<le> 2 then Some ''other'' else current)))"

definition note_tools :: "string \<Rightarrow> RunNotesDraft \<Rightarrow> RunNotesDraft" where
  "note_tools trimmed draft =
     (case table_cells trimmed of
        Some cells \<Rightarrow>
          (if is_table_separator cells \<or> is_table_header cells then draft
           else let joined = join_str '' '' cells;
                    value = (if 3 \<le> length cells then cells ! 1 @ [CHR 0xEF, CHR 0xBC, CHR 0x88] @ l3_cap (cells ! 2) 80 @ [CHR 0xEF, CHR 0xBC, CHR 0x89]
                             else if length cells = 2 then cells ! 1 else joined)
                in if names_plugin joined then draft\<lparr>rn_plugins_used := rn_plugins_used draft @ [value]\<rparr>
                   else draft\<lparr>rn_tools_used := rn_tools_used draft @ [value]\<rparr>)
      | None \<Rightarrow>
          (case strip_bullet trimmed of
             None \<Rightarrow> draft
           | Some item \<Rightarrow>
               (let cleaned = clean_plugin_name item
                in if length cleaned \<noteq> length item then draft\<lparr>rn_plugins_used := rn_plugins_used draft @ [cleaned]\<rparr>
                   else draft\<lparr>rn_tools_used := rn_tools_used draft @ [item]\<rparr>)))"

definition is_evidence :: "string \<Rightarrow> bool" where
  "is_evidence item \<longleftrightarrow> (let lower = to_lowercase item
     in contains_str lower ''diff'' \<or> contains_str lower ''sha'' \<or> contains_str item [CHR 0xE9, CHR 0xAA, CHR 0x8C, CHR 0xE8, CHR 0xAF, CHR 0x81])"

definition note_artifact :: "string \<Rightarrow> RunNotesDraft \<Rightarrow> RunNotesDraft" where
  "note_artifact item draft =
     draft\<lparr>rn_evidence_lines := rn_evidence_lines draft @ (if is_evidence item then [item] else []),
       rn_artifacts := rn_artifacts draft @ [item]\<rparr>"

definition note_artifacts :: "string \<Rightarrow> RunNotesDraft \<Rightarrow> RunNotesDraft" where
  "note_artifacts trimmed draft =
     (case table_cells trimmed of
        Some cells \<Rightarrow>
          (if is_table_separator cells \<or> is_table_header cells then draft else note_artifact (table_row_text cells) draft)
      | None \<Rightarrow> (case strip_bullet trimmed of None \<Rightarrow> draft | Some item \<Rightarrow> note_artifact item draft))"

definition note_body :: "string option \<Rightarrow> string \<Rightarrow> RunNotesDraft \<Rightarrow> RunNotesDraft" where
  "note_body current trimmed draft =
     (if current = Some ''task'' then (if rn_task draft = [] then draft\<lparr>rn_task := trimmed\<rparr> else draft)
      else if current = Some ''tools'' then note_tools trimmed draft
      else if current = Some ''steps'' then
        (case strip_bullet trimmed of Some item \<Rightarrow> draft\<lparr>rn_steps := rn_steps draft @ [item]\<rparr> | None \<Rightarrow> draft)
      else if current = Some ''artifacts'' then note_artifacts trimmed draft
      else if current = None \<and> rn_task draft = [] then draft\<lparr>rn_task := heading_label trimmed\<rparr>
      else draft)"

definition note_line :: "string \<Rightarrow> RunNotesDraft \<times> string option \<Rightarrow> RunNotesDraft \<times> string option" where
  "note_line line st =
     (let trimmed = trim_str line
      in if starts_with trimmed ''#'' then note_heading trimmed st
         else if trimmed = [] then st
         else (note_body (snd st) trimmed (fst st), snd st))"

definition fallback_task :: "string \<Rightarrow> string" where
  "fallback_task markdown =
     heading_label (case find (\<lambda>l. l \<noteq> []) (map trim_str (str_lines markdown)) of Some l \<Rightarrow> l | None \<Rightarrow> ''run-notes'')"

definition parse_run_notes :: "string \<Rightarrow> RunNotesDraft" where
  "parse_run_notes markdown =
     (let draft = fst (fold note_line (str_lines markdown) (RunNotesDraft_default, None));
          draft1 = (if rn_steps draft = [] then draft\<lparr>rn_steps := List.map_filter strip_bullet (str_lines markdown)\<rparr> else draft);
          title = (if rn_task draft1 = [] then fallback_task markdown else rn_task draft1)
      in draft1\<lparr>rn_task := l3_cap title 200\<rparr>)"

section \<open>Identifiers and redaction\<close>

fun single_underscores :: "string \<Rightarrow> string" where
  "single_underscores (a # b # cs) =
     (if a = CHR ''_'' \<and> b = CHR ''_'' then CHR ''_'' # single_underscores cs else a # single_underscores (b # cs))"
| "single_underscores cs = cs"

definition slug_char :: "string \<Rightarrow> char" where
  "slug_char ch = (case ch of [c] \<Rightarrow> (if is_ascii_alphanumeric c then lower_char c else CHR ''_'') | _ \<Rightarrow> CHR ''_'')"

definition slugify :: "string \<Rightarrow> nat \<Rightarrow> string" where
  "slugify str limit = take limit (single_underscores (trim_matches (\<lambda>c. c = CHR ''_'') (map slug_char (chars_of str))))"

definition trust_level_from :: "bool \<Rightarrow> string" where
  "trust_level_from workspace_evidence = (if workspace_evidence then ''workspace_verified'' else ''declared'')"

definition REDACTION_MARKERS :: "string list" where
  "REDACTION_MARKERS = [''<masked:'', ''<payload:'', ''<id:'', ''<path:'', ''<host:'']"

definition count_redactions :: "string \<Rightarrow> nat" where
  "count_redactions str = sum_list (map (\<lambda>m. length (match_indices str m 0)) REDACTION_MARKERS)"

definition redact_vec :: "Redactor \<Rightarrow> string list \<Rightarrow> string list" where
  "redact_vec r values = map (redact_text r) values"

definition count_all :: "string list \<Rightarrow> nat" where
  "count_all values = sum_list (map count_redactions values)"

section \<open>The ingestion routes\<close>

definition notes_markdown :: "json \<Rightarrow> string" where
  "notes_markdown v =
     text_or [] (Option.bind (case json_get v ''markdown'' of Some w \<Rightarrow> Some w | None \<Rightarrow> json_get v ''content'') as_str)"

definition MISSING_MARKDOWN :: Reply where
  "MISSING_MARKDOWN = bad_request ([CHR 0xE7, CHR 0xBC, CHR 0xBA, CHR 0xE5, CHR 0xB0, CHR 0x91] @ '' markdown/content'')"

definition strings_json :: "string list \<Rightarrow> json" where
  "strings_json values = JArray (map JString values)"

definition parse_notes_route :: "AdminEnv \<Rightarrow> string \<Rightarrow> route" where
  "parse_notes_route env body = with_json env body (\<lambda>v srv.
     if trim_str (notes_markdown v) = [] then (MISSING_MARKDOWN, srv)
     else let r = app_redactor (srv_app srv); safe = redact_text r (notes_markdown v); draft = parse_run_notes safe;
              steps = redact_vec r (rn_steps draft); tools = redact_vec r (rn_tools_used draft);
              plugins = redact_vec r (rn_plugins_used draft); artifacts = redact_vec r (rn_artifacts draft);
              evidence = redact_vec r (rn_evidence_lines draft); sections = redact_vec r (rn_sections draft)
          in (Answer 200 (json_object
                [(''task'', JString (rn_task draft)), (''scope'', opt_json (get_str v ''scope'')),
                 (''source'', json_object [(''agent'', JString (text_or ''generic'' (get_str v ''agent''))), (''declared'', JBool True)]),
                 (''materials'', json_object [(''run_notes'', JString safe), (''steps'', strings_json steps), (''tools_used'', strings_json tools),
                    (''plugins_used'', strings_json plugins), (''artifacts'', strings_json artifacts)]),
                 (''evidence'', json_object [(''provided'', JNull), (''suggested'', strings_json evidence)]),
                 (''sections'', strings_json sections), (''redacted'', JBool True),
                 (''redactions'', JNumber (int (count_redactions safe + count_all (steps @ tools @ plugins @ artifacts @ evidence))))]), srv))"

definition sent_evidence :: "json \<Rightarrow> string option \<times> nat" where
  "sent_evidence v =
     (Option.bind (json_get v ''evidence'') (\<lambda>ev. get_str ev ''diff_summary''),
      case Option.bind (Option.bind (json_get v ''evidence'') (\<lambda>ev. json_get ev ''verified_files'')) as_array of
        Some items \<Rightarrow> length items | None \<Rightarrow> 0)"

definition evidence_parts :: "string option \<Rightarrow> nat \<Rightarrow> string list \<Rightarrow> string list \<Rightarrow> string list" where
  "evidence_parts diff verified artifacts suggested =
     (case diff of Some d \<Rightarrow> [d] | None \<Rightarrow> []) @
     (if 0 < verified then [''verified_files='' @ nat_digits verified] else []) @
     (if artifacts \<noteq> [] then [''artifacts='' @ join_str '','' artifacts] else []) @
     (if suggested \<noteq> [] then [''suggested='' @ l3_cap (join_str ''; '' suggested) 200] else [])"

definition summary_of :: "string list \<Rightarrow> string option" where
  "summary_of parts = (if parts = [] then None else Some (join_str ''; '' parts))"

definition reference_id :: "string option \<Rightarrow> nat \<Rightarrow> string" where
  "reference_id agent nanos = ''ref_'' @ slugify (text_or ''generic'' agent) 24 @ ''_'' @ nat_digits nanos"

definition notes_entry :: "AdminEnv \<Rightarrow> nat \<Rightarrow> Redactor \<Rightarrow> json \<Rightarrow> ReferenceEntry" where
  "notes_entry env nanos r v =
     (let safe = redact_text r (notes_markdown v); draft = parse_run_notes safe; (diff, verified) = sent_evidence v;
          agent = get_str v ''agent''
      in \<lparr>ref_id = reference_id agent nanos, ref_title = rn_task draft, ref_scope = get_str v ''scope'', ref_tags = [],
          ref_body = safe, ref_steps = redact_vec r (rn_steps draft), ref_tools_used = redact_vec r (rn_tools_used draft),
          ref_plugins_used = redact_vec r (rn_plugins_used draft), ref_source_agent = agent, ref_declared = True,
          ref_trust_level = trust_level_from (diff \<noteq> None \<or> 0 < verified),
          ref_evidence_summary = summary_of (evidence_parts diff verified (redact_vec r (rn_artifacts draft)) (redact_vec r (rn_evidence_lines draft))),
          ref_created_at = ad_now env\<rparr>)"

definition notes_redactions :: "Redactor \<Rightarrow> json \<Rightarrow> nat" where
  "notes_redactions r v =
     (let safe = redact_text r (notes_markdown v); draft = parse_run_notes safe
      in count_redactions safe + count_all (redact_vec r (rn_steps draft @ rn_tools_used draft @ rn_plugins_used draft @ rn_artifacts draft @ rn_evidence_lines draft)))"

text \<open>Insert the entry under the lock, write the store, append the record.\<close>

definition ingest :: "AdminEnv \<Rightarrow> ReferenceEntry \<Rightarrow> string \<Rightarrow> string \<Rightarrow> json \<Rightarrow> route" where
  "ingest env entry action reason answer = lock_store (\<lambda>app.
     case insert_reference entry (app_store app) of
       Inl err \<Rightarrow> Pair (bad_request (store_error_text err))
     | Inr store \<Rightarrow>
         with_app (Answer 201 answer) (settle env store (admin_record env ''ingested'' (ref_id entry) action None None (Some reason)) app))"

definition run_notes_route :: "AdminEnv \<Rightarrow> nat \<Rightarrow> string \<Rightarrow> route" where
  "run_notes_route env nanos body = with_json env body (\<lambda>v srv.
     if trim_str (notes_markdown v) = [] then (MISSING_MARKDOWN, srv)
     else let r = app_redactor (srv_app srv); entry = notes_entry env nanos r v
          in ingest env entry ''ingest_run_notes''
               (''source=run-notes;trust='' @ ref_trust_level entry @ '';scope='' @ text_or ''(unscoped)'' (ref_scope entry) @
                '';reason='' @ text_or [] (get_str v ''reason'') @ '';actor='' @ text_or ''user'' (get_str v ''actor''))
               (json_object [(''ok'', JBool True), (''reference_id'', JString (ref_id entry)), (''trust_level'', JString (ref_trust_level entry)),
                  (''task'', JString (ref_title entry)), (''steps'', JNumber (int (length (ref_steps entry)))), (''redacted'', JBool True),
                  (''redactions'', JNumber (int (notes_redactions r v)))]) srv)"

fun json_path :: "json \<Rightarrow> string list \<Rightarrow> json option" where
  "json_path v [] = Some v"
| "json_path v (k # ks) = (case json_get v k of Some w \<Rightarrow> json_path w ks | None \<Rightarrow> None)"

definition path_text_of :: "json \<Rightarrow> string list \<Rightarrow> string option" where
  "path_text_of v ks = Option.bind (json_path v ks) as_str"

definition path_strings :: "json \<Rightarrow> string list \<Rightarrow> string list" where
  "path_strings v ks =
     (case Option.bind (json_path v ks) as_array of Some items \<Rightarrow> List.map_filter as_str items | None \<Rightarrow> [])"

definition package_entry :: "AdminEnv \<Rightarrow> nat \<Rightarrow> Redactor \<Rightarrow> json \<Rightarrow> string \<Rightarrow> ReferenceEntry" where
  "package_entry env nanos r v title =
     (let diff = map_option (redact_text r) (path_text_of v [''evidence'', ''diff_summary'']); verified = snd (sent_evidence v);
          agent = path_text_of v [''source'', ''agent'']; material = (\<lambda>k. redact_vec r (path_strings v [''materials'', k]))
      in \<lparr>ref_id = reference_id agent nanos, ref_title = redact_text r title, ref_scope = path_text_of v [''scope''], ref_tags = [],
          ref_body = redact_text r (text_or [] (path_text_of v [''materials'', ''run_notes''])),
          ref_steps = material ''steps'', ref_tools_used = material ''tools_used'', ref_plugins_used = material ''plugins_used'',
          ref_source_agent = agent, ref_declared = True, ref_trust_level = trust_level_from (diff \<noteq> None \<or> 0 < verified),
          ref_evidence_summary = summary_of (evidence_parts diff verified (material ''artifacts'') []),
          ref_created_at = ad_now env\<rparr>)"

definition package_redactions :: "Redactor \<Rightarrow> json \<Rightarrow> string \<Rightarrow> nat" where
  "package_redactions r v title =
     count_all (map (redact_text r)
       ([title, text_or [] (path_text_of v [''materials'', ''run_notes''])] @
        concat (map (\<lambda>k. path_strings v [''materials'', k]) [''steps'', ''tools_used'', ''plugins_used'', ''artifacts'']) @
        (case path_text_of v [''evidence'', ''diff_summary''] of Some d \<Rightarrow> [d] | None \<Rightarrow> [])))"

definition package_route :: "AdminEnv \<Rightarrow> nat \<Rightarrow> string \<Rightarrow> route" where
  "package_route env nanos body = with_json env body (\<lambda>v srv.
     case path_text_of v [''task''] of
       None \<Rightarrow> (bad_request (([CHR 0xE7, CHR 0xBC, CHR 0xBA, CHR 0xE5, CHR 0xB0, CHR 0x91] @ '' '' @ [CHR 0x27] @ ''task'' @ [CHR 0x27])), srv)
     | Some title \<Rightarrow>
         (let r = app_redactor (srv_app srv); entry = package_entry env nanos r v title
          in ingest env entry ''ingest_reference''
               (''trust='' @ ref_trust_level entry @ '';scope='' @ text_or ''(unscoped)'' (ref_scope entry) @
                '';actor='' @ text_or ''user'' (path_text_of v [''actor'']))
               (json_object [(''ok'', JBool True), (''reference_id'', JString (ref_id entry)), (''trust_level'', JString (ref_trust_level entry)),
                  (''redacted'', JBool True), (''redactions'', JNumber (int (package_redactions r v title)))]) srv))"

text \<open>The list of references: newest first, ties in the order of the identifiers.\<close>

definition listed_references :: "ExperienceStore \<Rightarrow> string option \<Rightarrow> string option \<Rightarrow> ReferenceEntry list" where
  "listed_references store scope tag =
     sort_key (\<lambda>entry. - int (ref_created_at entry))
       (filter (\<lambda>entry. case tag of None \<Rightarrow> True | Some t \<Rightarrow> t \<in> set (ref_tags entry)) (references_in_scope store scope))"

definition references_route :: "(ReferenceEntry \<Rightarrow> json) \<Rightarrow> string \<Rightarrow> route" where
  "references_route encode url = lock_store (\<lambda>app. Pair (Answer 200 (json_object [(''references'',
     JArray (map encode (listed_references (app_store app) (query_param url ''scope'') (query_param url ''tag''))))])))"

definition post_only :: "Method \<Rightarrow> route \<Rightarrow> route" where
  "post_only m f srv = (if m = MPost then f srv else (method_not_allowed, srv))"

definition ingestion_serve :: "AdminEnv \<Rightarrow> nat \<Rightarrow> (ReferenceEntry \<Rightarrow> json) \<Rightarrow> Method \<Rightarrow> string \<Rightarrow> string \<Rightarrow> Server \<Rightarrow> (Reply \<times> Server) option" where
  "ingestion_serve env nanos encode m url body srv =
     (if url = ''/api/ingestion/parse'' then Some (post_only m (parse_notes_route env body) srv)
      else if url = ''/api/ingestion/run-notes'' then Some (post_only m (run_notes_route env nanos body) srv)
      else if url = ''/api/ingestion/package'' then Some (post_only m (package_route env nanos body) srv)
      else if path_is url ''/api/references'' then
        Some (if m = MGet then references_route encode url srv else (method_not_allowed, srv))
      else None)"

section \<open>What ingestion may change\<close>

lemma ingest_outcome:
  assumes "ingest env entry action reason answer srv = (reply, srv')"
  shows "srv_store srv' = srv_store srv \<and> (\<forall>v. reply \<noteq> Answer 201 v) \<or> insert_reference entry (srv_store srv) = Inr (srv_store srv')"
  using assms by (auto simp: ingest_def route_defs bad_request_def split: if_splits sum.splits)

definition sound_entry :: "Redactor \<Rightarrow> ReferenceEntry \<Rightarrow> bool" where
  "sound_entry r entry \<longleftrightarrow> ref_declared entry \<and> (\<exists>raw. ref_body entry = redact_text r raw) \<and>
     (\<forall>s \<in> set (ref_steps entry @ ref_tools_used entry @ ref_plugins_used entry). \<exists>raw. s = redact_text r raw) \<and>
     (ref_trust_level entry = ''workspace_verified'' \<longrightarrow> ref_evidence_summary entry \<noteq> None)"

lemma evidence_trusted: "0 < n \<or> d \<noteq> None \<Longrightarrow> \<exists>y. summary_of (evidence_parts d n a s) = Some y"
  by (auto simp: summary_of_def evidence_parts_def)

lemma entries_sound: "sound_entry r (notes_entry env nanos r v)" "sound_entry r (package_entry env nanos r v title)"
  by (auto simp: sound_entry_def notes_entry_def package_entry_def Let_def redact_vec_def trust_level_from_def intro!: evidence_trusted
      split: prod.splits if_splits)

lemma ingestion_cases:
  assumes "ingestion_serve env nanos encode m url body srv = Some (reply, srv')"
  obtains (same) "srv_store srv' = srv_store srv" "\<forall>v. reply \<noteq> Answer 201 v"
  | (added) entry where "sound_entry (app_redactor (srv_app srv)) entry" "insert_reference entry (srv_store srv) = Inr (srv_store srv')"
proof -
  let ?same = "srv_store srv' = srv_store srv \<and> (\<forall>v. reply \<noteq> Answer 201 v)"
  let ?added = "\<exists>entry. sound_entry (app_redactor (srv_app srv)) entry \<and> insert_reference entry (srv_store srv) = Inr (srv_store srv')"
  have a: "parse_notes_route env body srv = (reply, srv') \<Longrightarrow> ?same"
    by (auto simp: parse_notes_route_def with_json_def Let_def bad_request_def MISSING_MARKDOWN_def split: sum.splits if_splits)
  have b: "run_notes_route env nanos body srv = (reply, srv') \<Longrightarrow> ?same \<or> ?added"
    using entries_sound(1) ingest_outcome
    by (fastforce simp: run_notes_route_def with_json_def Let_def bad_request_def MISSING_MARKDOWN_def split: sum.splits if_splits)
  have c: "package_route env nanos body srv = (reply, srv') \<Longrightarrow> ?same \<or> ?added"
    using entries_sound(2) ingest_outcome
    by (fastforce simp: package_route_def with_json_def Let_def bad_request_def split: sum.splits option.splits)
  have d: "references_route encode url srv = (reply, srv') \<Longrightarrow> ?same"
    by (auto simp: references_route_def lock_store_def split: if_splits)
  have "?same \<or> ?added"
    using assms a b c d by (auto simp: ingestion_serve_def post_only_def method_not_allowed_def split: if_splits)
  then show thesis using same added by blast
qed

text \<open>C36: ingested material is never executable. A request to the ingestion routes leaves every experience and every template,
  their status, their indexes, and every reference that was there as they are. It answers 201 only if it added exactly
  one reference under a fresh identifier; that entry is marked as declared, its body, steps, tools and plugins are outputs
  of the redactor, and it is called verified only if it carries an evidence summary.\<close>

theorem ingestion_adds_reference_only:
  assumes "ingestion_serve env nanos encode m url body srv = Some (reply, srv')"
  shows "experiences (srv_store srv') = experiences (srv_store srv) \<and> templates (srv_store srv') = templates (srv_store srv) \<and>
    store_get (srv_store srv') = store_get (srv_store srv) \<and> active_by_tool (srv_store srv') = active_by_tool (srv_store srv) \<and>
    (\<forall>k e. reference (srv_store srv) k = Some e \<longrightarrow> reference (srv_store srv') k = Some e) \<and>
    ((\<exists>v. reply = Answer 201 v) \<longrightarrow> (\<exists>entry. reference (srv_store srv) (ref_id entry) = None \<and>
       sound_entry (app_redactor (srv_app srv)) entry \<and>
       (\<forall>k. reference (srv_store srv') k = (if k = ref_id entry then Some entry else reference (srv_store srv) k))))"
  using assms
proof (cases rule: ingestion_cases)
  case (added entry)
  then have "reference (srv_store srv) (ref_id entry) = None"
    and s: "srv_store srv' = (srv_store srv)\<lparr>references := bt_insert (ref_id entry) entry (references (srv_store srv))\<rparr>"
    by (auto simp: insert_reference_def reference_def bt_contains_def split: if_splits)
  moreover from s have "\<And>k. reference (srv_store srv') k = (if k = ref_id entry then Some entry else reference (srv_store srv) k)"
    by (simp add: reference_def map_simps)
  moreover from s have "store_get (srv_store srv') = store_get (srv_store srv)" by (simp add: fun_eq_iff store_get_def)
  ultimately show ?thesis using added(1) s by auto
qed simp

section \<open>What the parser reads\<close>

lemma sublist_dropWhile: "sublist (dropWhile P s) s"
  by (simp add: suffix_dropWhile)

lemma sublist_concat_dropWhile: "sublist (concat (dropWhile P cs)) (concat cs)"
proof -
  have "concat cs = concat (takeWhile P cs) @ concat (dropWhile P cs)" by (simp flip: concat_append)
  then show ?thesis by (metis sublist_appendI append_Nil2)
qed

lemma strip_prefix_sublist: "strip_prefix s p = Some t \<Longrightarrow> sublist t s"
  by (auto simp: strip_prefix_def split: if_splits)

text \<open>An item is a trimmed, non-empty piece of its line.\<close>

lemma bulleted_piece: "v \<in> set (bulleted t) \<Longrightarrow> v \<noteq> [] \<and> trim_str v = v \<and> sublist v t"
  by (auto simp: bulleted_def List.map_filter_def split: option.splits)
    (meson strip_prefix_sublist trim_str_sublist sublist_order.order_trans)

lemma numbered_piece: "sublist (trim_str (concat (dropWhile P (chars_of (drop n t))))) t"
proof -
  have "sublist (concat (dropWhile P (chars_of (drop n t)))) (drop n t)"
    using sublist_concat_dropWhile [of P "chars_of (drop n t)"] by simp
  then show ?thesis by (meson trim_str_sublist sublist_drop sublist_order.order_trans)
qed

lemma strip_bullet_piece:
  assumes "strip_bullet line = Some item"
  shows "item \<noteq> [] \<and> trim_str item = item \<and> sublist item line"
proof -
  let ?t = "trim_str line"
  have "item \<noteq> [] \<and> trim_str item = item \<and> sublist item ?t"
  proof (cases "bulleted ?t")
    case Nil
    with assms show ?thesis using numbered_piece by (auto simp: strip_bullet_def Let_def split: if_splits)
  next
    case (Cons v vs)
    with assms have "item \<in> set (bulleted ?t)" by (auto simp: strip_bullet_def Let_def split: if_splits)
    then show ?thesis by (rule bulleted_piece)
  qed
  then show ?thesis by (meson trim_str_sublist sublist_order.order_trans)
qed

text \<open>The section a line stands in, and the items of the sections of steps: the reference for the one-pass parser.\<close>

definition is_heading :: "string \<Rightarrow> bool" where
  "is_heading line \<longleftrightarrow> starts_with (trim_str line) ''#''"

definition next_section :: "string \<Rightarrow> string option \<Rightarrow> string option" where
  "next_section line current =
     (if \<not> is_heading line then current
      else case classify_run_notes_heading line of
        Some category \<Rightarrow> Some category
      | None \<Rightarrow> (if starts_with (trim_str line) ''###'' then current else Some ''other''))"

definition section_after :: "string list \<Rightarrow> string option" where
  "section_after lines = fold next_section lines None"

definition step_items :: "string list \<Rightarrow> string list" where
  "step_items lines = concat (map (\<lambda>i. if section_after (take i lines) = Some ''steps'' \<and> \<not> is_heading (lines ! i)
     then (case strip_bullet (lines ! i) of Some item \<Rightarrow> [item] | None \<Rightarrow> []) else []) [0..<length lines])"

lemma strip_bullet_trim: "strip_bullet (trim_str line) = strip_bullet line"
  by (simp add: strip_bullet_def)

lemma strip_bullet_blank: "trim_str line = [] \<Longrightarrow> strip_bullet line = None"
  by (simp add: strip_bullet_def)

lemma note_tools_steps [simp]: "rn_steps (note_tools t d) = rn_steps d"
  by (simp add: note_tools_def Let_def split: option.split)

lemma note_artifacts_steps [simp]: "rn_steps (note_artifacts t d) = rn_steps d"
  by (simp add: note_artifacts_def note_artifact_def split: option.split)

lemma note_line_steps:
  "rn_steps (fst (note_line line st)) = rn_steps (fst st) @
     (if snd st = Some ''steps'' \<and> \<not> is_heading line then (case strip_bullet line of Some x \<Rightarrow> [x] | None \<Rightarrow> []) else [])"
  by (auto simp: note_line_def is_heading_def note_heading_def note_body_def Let_def strip_bullet_trim strip_bullet_blank
      split: prod.splits option.splits)

lemma heading_level: "length (takeWhile (\<lambda>c. c = CHR 0x23) s) \<le> 2 \<longleftrightarrow> \<not> starts_with s ''###''"
proof -
  have "starts_with (a # b # c # t) ''###'' \<longleftrightarrow> a = CHR 0x23 \<and> b = CHR 0x23 \<and> c = CHR 0x23" for a b c and t :: string
    by (auto simp: starts_with_def)
  moreover have "\<not> starts_with s ''###''" if "length s < 3" using that by (auto simp: starts_with_def)
  ultimately show ?thesis
    by (cases s rule: remdups_adj.cases; cases "tl (tl s)") (auto simp: less_Suc_eq)
qed

lemma note_line_section: "snd (note_line line st) = next_section line (snd st)"
  by (auto simp: note_line_def note_heading_def next_section_def is_heading_def heading_level classify_run_notes_heading_def heading_label_def Let_def
      split: prod.splits option.splits)

lemma parsed_section: "snd (fold note_line lines (RunNotesDraft_default, None)) = section_after lines"
  by (induction lines rule: rev_induct) (simp_all add: section_after_def note_line_section)

lemma parsed_steps: "rn_steps (fst (fold note_line lines (RunNotesDraft_default, None))) = step_items lines"
proof (induction lines rule: rev_induct)
  case (snoc line lines)
  have "step_items (lines @ [line]) = step_items lines @
      (if section_after lines = Some ''steps'' \<and> \<not> is_heading line then (case strip_bullet line of Some x \<Rightarrow> [x] | None \<Rightarrow> []) else [])"
    by (auto simp: step_items_def nth_append intro!: arg_cong [where f = concat] map_cong)
  with snoc show ?case by (simp add: note_line_steps parsed_section)
qed (simp add: step_items_def RunNotesDraft_default_def)

text \<open>C31: the steps of parsed notes are the listed items, no more and no less. The one-pass parser returns exactly the bullet and numbered items
  of the lines that stand in a section of steps, in their order; only if there are none does it return the items of the
  whole document. Each step is a non-empty trimmed piece of a line of the notes.\<close>

theorem run_notes_steps_exact:
  "rn_steps (parse_run_notes md) =
     (if step_items (str_lines md) = [] then List.map_filter strip_bullet (str_lines md) else step_items (str_lines md)) \<and>
   (\<forall>step \<in> set (rn_steps (parse_run_notes md)). step \<noteq> [] \<and> trim_str step = step \<and> (\<exists>line \<in> set (str_lines md). sublist step line))"
proof -
  have eq: "rn_steps (parse_run_notes md) =
     (if step_items (str_lines md) = [] then List.map_filter strip_bullet (str_lines md) else step_items (str_lines md))"
    by (simp add: parse_run_notes_def Let_def parsed_steps)
  have "\<exists>line \<in> set (str_lines md). strip_bullet line = Some step" if "step \<in> set (rn_steps (parse_run_notes md))" for step
    using that unfolding eq
    by (auto simp: step_items_def List.map_filter_def split: if_splits option.splits)
  with strip_bullet_piece eq show ?thesis by blast
qed

section \<open>Concrete runs\<close>

definition demo_notes :: string where
  "demo_notes = join_str [CHR 0x0A] [''# Ship it'', ''- not this'', ''## Steps'', ''1. build'', ''- test'', ''## Output'', ''- diff.txt'']"

definition demo_ingest :: AdminEnv where
  "demo_ingest = demo_admin\<lparr>ad_json := (\<lambda>body. Inr (JObject [(''markdown'', JString body)]))\<rparr>"

theorem run_notes_steps_exact_witness:
  "rn_steps (parse_run_notes demo_notes) = [''build'', ''test''] \<and> (\<exists>line \<in> set (str_lines demo_notes). sublist ''build'' line)"
proof -
  have "step_items (str_lines demo_notes) = [''build'', ''test'']" by code_simp
  with run_notes_steps_exact [of demo_notes] show ?thesis by simp
qed

theorem ingestion_adds_reference_only_witness:
  "\<exists>reply srv'. ingestion_serve demo_ingest 5 (\<lambda>_. JNull) MPost ''/api/ingestion/run-notes'' demo_notes (demo_server demo_store) = Some (reply, srv') \<and>
     store_get (srv_store srv') = store_get demo_store \<and> (\<exists>entry. sound_entry (app_redactor demo_app) entry \<and> reference (srv_store srv') (ref_id entry) = Some entry)"
proof -
  let ?serve = "ingestion_serve demo_ingest 5 (\<lambda>_. JNull) MPost ''/api/ingestion/run-notes'' demo_notes (demo_server demo_store)"
  let ?entry = "notes_entry demo_ingest 5 (app_redactor demo_app) (JObject [(''markdown'', JString demo_notes)])"
  have v: "trim_str demo_notes \<noteq> []" "notes_markdown (JObject [(''markdown'', JString demo_notes)]) = demo_notes" by code_simp+
  have "\<not> isl (insert_reference ?entry demo_store)" by code_simp
  then obtain s where "insert_reference ?entry demo_store = Inr s" by (cases "insert_reference ?entry demo_store") auto
  then have "\<exists>v srv'. ?serve = Some (Answer 201 v, srv')"
    by (simp add: ingestion_serve_def post_only_def run_notes_route_def with_json_def demo_ingest_def v ingest_def route_defs)
  then obtain v srv' where r: "?serve = Some (Answer 201 v, srv')" by blast
  from ingestion_adds_reference_only [OF r] r show ?thesis by auto
qed

end
