(* ===== verification/Server_Views.thy ===== *)
theory Server_Views
  imports Server_Session Run_Notes
begin

text \<open>
  What is left of the server (\<open>experience-server/src/main.rs\<close>): the files of the user interface, the views of the
  store (list, tree, summaries), the routes that resume and cancel a session, and the redaction settings read at
  the start. The views return the JSON value of the answer; the encodings of a provenance record and of a session are
  arguments, and so are the clock and the process number that seed a new redaction key.
\<close>

section \<open>Files of the user interface\<close>

datatype StaticReply = StaticBytes string string | StaticText nat string

definition relative_of :: "string \<Rightarrow> string" where
  "relative_of url =
     (let p = takeWhile (\<lambda>c. c \<noteq> CHR ''?'') url in if p = ''/'' then ''index.html'' else dropWhile (\<lambda>c. c = CHR ''/'') p)"

definition content_type_for :: "string \<Rightarrow> string" where
  "content_type_for p =
     (let extension = last (split_char (CHR ''.'') p)
      in if extension = ''html'' then ''text/html; charset=utf-8''
         else if extension = ''js'' then ''text/javascript; charset=utf-8''
         else if extension = ''css'' then ''text/css; charset=utf-8''
         else if extension = ''json'' then ''application/json''
         else if extension = ''svg'' then ''image/svg+xml''
         else if extension = ''png'' then ''image/png''
         else if extension = ''ico'' then ''image/x-icon''
         else ''application/octet-stream'')"

definition canonical_or :: "fsys \<Rightarrow> path \<Rightarrow> path" where
  "canonical_or fs p = (case fs_canonicalize fs p of Inr q \<Rightarrow> q | Inl _ \<Rightarrow> p)"

definition serve_static :: "fsys \<Rightarrow> path \<Rightarrow> string \<Rightarrow> StaticReply" where
  "serve_static fs ui_dir relative =
     (let rt = canonical_or fs ui_dir; candidate = canonical_or fs (path_join rt relative)
      in if \<not> path_starts_with candidate rt then StaticText 400 ''path traversal rejected''
         else case fs_read_bytes fs candidate of
           Inr bytes \<Rightarrow> StaticBytes (content_type_for relative) bytes
         | Inl _ \<Rightarrow> StaticText 404 (''resource not found: '' @ relative))"

section \<open>Views of the store\<close>

definition summary_fields :: "Experience \<Rightarrow> bool \<Rightarrow> string option \<Rightarrow> (string \<times> json) list" where
  "summary_fields e is_pin scope =
     [(''name'', JString (exp_name e)), (''status'', JString (status_str (exp_status e))), (''trigger_tool'', JString (pat_tool (exp_trigger e))),
      (''workflow_steps'', JNumber (int (length (exp_workflow e)))), (''postconditions'', JNumber (int (length (exp_postconditions e)))),
      (''pinned'', JBool is_pin), (''scope'', opt_json scope)]"

definition summary :: "Experience \<Rightarrow> bool \<Rightarrow> string option \<Rightarrow> json" where
  "summary e is_pin scope = json_object (summary_fields e is_pin scope)"

definition status_matches :: "string option \<Rightarrow> Experience \<Rightarrow> bool" where
  "status_matches status e \<longleftrightarrow> (case status of None \<Rightarrow> True | Some st \<Rightarrow> status_str (exp_status e) = st)"

definition visible :: "ExperienceStore \<Rightarrow> string option \<Rightarrow> string option \<Rightarrow> Experience list" where
  "visible store scope status = filter (\<lambda>e. is_in_scope store (exp_name e) scope \<and> status_matches status e) (experiences store)"

text \<open>The usage filter keeps an experience only if it has an entry with enough uses.\<close>

definition used_enough :: "UsageFile \<Rightarrow> nat option \<Rightarrow> Experience \<Rightarrow> bool" where
  "used_enough usage least e \<longleftrightarrow> (case least of
     None \<Rightarrow> True
   | Some n \<Rightarrow> (case bt_get (uf_entries usage) (exp_name e) of Some entry \<Rightarrow> n \<le> usage_count (activity entry) | None \<Rightarrow> False))"

definition list_view :: "(CandidateOrigin \<Rightarrow> json) \<Rightarrow> (rat \<Rightarrow> json) \<Rightarrow> UsageFile \<Rightarrow> ExperienceStore \<Rightarrow> string option \<Rightarrow> string option \<Rightarrow> nat option \<Rightarrow> json" where
  "list_view origin number usage store scope status least =
     JArray (map (\<lambda>e. json_object (summary_fields e (Store.is_pinned store (exp_name e)) (scope_of store (exp_name e)) @
         [(''display_name'', opt_json (display_name_of store (exp_name e))), (''user_usage'', opt_json (user_usage_of store (exp_name e))),
          (''user_confidence'', case user_confidence_of store (exp_name e) of Some c \<Rightarrow> number c | None \<Rightarrow> JNull),
          (''origin'', case candidate_origin_of store (exp_name e) of Some og \<Rightarrow> origin og | None \<Rightarrow> JNull)]))
       (filter (used_enough usage least) (visible store scope status)))"

definition family_of_name :: "string \<Rightarrow> string" where
  "family_of_name name =
     (let stripped = (case strip_prefix name ''cand_'' of Some r \<Rightarrow> r | None \<Rightarrow> name)
      in case split_once stripped ''_'' of Some (family, _) \<Rightarrow> (if family \<noteq> [] then family else stripped) | None \<Rightarrow> stripped)"

type_synonym scenes = "(Experience list btree) btree"

definition push_at :: "string \<Rightarrow> 'a \<Rightarrow> 'a list btree \<Rightarrow> 'a list btree" where
  "push_at k x m = bt_insert k ((case bt_get m k of Some xs \<Rightarrow> xs | None \<Rightarrow> []) @ [x]) m"

definition scene_of :: "ExperienceStore \<Rightarrow> string option \<Rightarrow> Experience \<Rightarrow> string" where
  "scene_of store scope e = text_or (text_or ((''('' @ [CHR 0xE6, CHR 0x9C, CHR 0xAA, CHR 0xE5, CHR 0x88, CHR 0x86, CHR 0xE7, CHR 0xB1, CHR 0xBB] @ '')'')) scope) (scope_of store (exp_name e))"

definition place_experience :: "ExperienceStore \<Rightarrow> string option \<Rightarrow> Experience \<Rightarrow> scenes \<Rightarrow> scenes" where
  "place_experience store scope e m =
     (let scene = scene_of store scope e
      in bt_insert scene (push_at (family_of_name (exp_name e)) e (case bt_get m scene of Some fams \<Rightarrow> fams | None \<Rightarrow> [])) m)"

definition experience_scenes :: "ExperienceStore \<Rightarrow> string option \<Rightarrow> string option \<Rightarrow> scenes" where
  "experience_scenes store scope status = fold (place_experience store scope) (visible store scope status) []"

definition tree_node :: "string \<Rightarrow> string \<Rightarrow> json list \<Rightarrow> json" where
  "tree_node kind name children = json_object [(''kind'', JString kind), (''name'', JString name), (''children'', JArray children)]"

definition experience_node :: "ExperienceStore \<Rightarrow> Experience \<Rightarrow> json" where
  "experience_node store e = json_object [(''kind'', JString ''experience''), (''name'', JString (exp_name e)),
     (''status'', JString (status_str (exp_status e))), (''pinned'', JBool (Store.is_pinned store (exp_name e))),
     (''scope'', opt_json (scope_of store (exp_name e)))]"

definition experience_tree :: "ExperienceStore \<Rightarrow> string option \<Rightarrow> string option \<Rightarrow> json" where
  "experience_tree store scope status =
     tree_node ''root'' ''experience''
       (map (\<lambda>(scene, fams). tree_node ''scene'' scene
          (map (\<lambda>(family, es). tree_node ''family'' family (map (experience_node store) es)) fams))
        (experience_scenes store scope status))"

section \<open>Sessions\<close>

definition resume_check :: "AdminEnv \<Rightarrow> string \<Rightarrow> json \<Rightarrow> Server \<Rightarrow> string + (string \<times> string \<times> path)" where
  "resume_check env i v srv =
     (case get_str v ''task'' of
        None \<Rightarrow> Inl (''missing '' @ quoted_name ''task'')
      | Some follow_up \<Rightarrow>
          (case session_get (app_sessions (srv_app srv)) i of
             None \<Rightarrow> Inl (''session '' @ quoted_name i @ '' not found'')
           | Some s \<Rightarrow>
               (case se_thread_id s of
                  None \<Rightarrow> Inl (([CHR 0xE8, CHR 0xAF, CHR 0xA5, CHR 0xE4, CHR 0xBC, CHR 0x9A, CHR 0xE8, CHR 0xAF, CHR 0x9D, CHR 0xE6, CHR 0x97, CHR 0xA0] @ '' thread_id'' @ [CHR 0xEF, CHR 0xBC, CHR 0x8C, CHR 0xE6, CHR 0x97, CHR 0xA0, CHR 0xE6, CHR 0xB3, CHR 0x95] @ '' resume''))
                | Some thread \<Rightarrow>
                    (let entry = agent_get (srv_agents srv) (se_agent_id s)
                     in case Option.bind entry (\<lambda>e. case resolve_executable (ad_agent env) (app_fs (srv_app srv)) (ae_config e) of Inr x \<Rightarrow> Some x | Inl _ \<Rightarrow> None) of
                          None \<Rightarrow> Inl ((''agent executable '' @ [CHR 0xE6, CHR 0x97, CHR 0xA0, CHR 0xE6, CHR 0xB3, CHR 0x95, CHR 0xE8, CHR 0xA7, CHR 0xA3, CHR 0xE6, CHR 0x9E, CHR 0x90, CHR 0xEF, CHR 0xBC, CHR 0x88] @ ''resume'' @ [CHR 0xEF, CHR 0xBC, CHR 0x89]))
                        | Some _ \<Rightarrow>
                            (case (case Option.bind entry (\<lambda>e. ag_codex_home (ae_config e)) of Some h \<Rightarrow> Some h | None \<Rightarrow> ad_vars env ''CODEX_HOME'') of
                               None \<Rightarrow> Inl ((''session channel '' @ [CHR 0xE9, CHR 0x9C, CHR 0x80, CHR 0xE8, CHR 0xA6, CHR 0x81] @ '' codex_home'' @ [CHR 0xEF, CHR 0xBC, CHR 0x88] @ ''agent '' @ [CHR 0xE9, CHR 0x85, CHR 0x8D, CHR 0xE7, CHR 0xBD, CHR 0xAE, CHR 0xE6, CHR 0x88, CHR 0x96, CHR 0xE7, CHR 0x8E, CHR 0xAF, CHR 0xE5, CHR 0xA2, CHR 0x83, CHR 0xE5, CHR 0x8F, CHR 0x98, CHR 0xE9, CHR 0x87, CHR 0x8F] @ '' CODEX_HOME'' @ [CHR 0xEF, CHR 0xBC, CHR 0x89]))
                             | Some _ \<Rightarrow>
                                 Inr (follow_up, thread, case se_cwd s of Some d \<Rightarrow> path_of_text d | None \<Rightarrow> app_home (srv_app srv)))))))"

definition with_sessions :: "session_world \<Rightarrow> Server \<Rightarrow> Server" where
  "with_sessions w srv = srv\<lparr>srv_app := (srv_app srv)\<lparr>app_sessions := fst w, app_fs := snd w\<rparr>\<rparr>"

definition resume_route :: "AdminEnv \<Rightarrow> (Session \<Rightarrow> json) \<Rightarrow> string \<Rightarrow> string \<Rightarrow> route" where
  "resume_route env encode i body = with_json env body (\<lambda>v srv.
     case resume_check env i v srv of
       Inl err \<Rightarrow> (bad_request err, srv)
     | Inr (follow_up, _, _) \<Rightarrow>
         (case resume_start (cd_sessions_print (ad_codecs env)) i follow_up (app_sessions (srv_app srv), app_fs (srv_app srv)) of
            (Inl err, w) \<Rightarrow> (bad_request err, with_sessions w srv)
          | (Inr s, ss, fs) \<Rightarrow> (Answer 201 (encode s), with_sessions (register_cancel_flag (se_id s) False ss, fs) srv)))"

text \<open>What the thread of a resumed session does when the host is done.\<close>

definition settle_resume :: "AdminEnv \<Rightarrow> L1Distiller option \<Rightarrow> string \<Rightarrow> string \<Rightarrow> DriverRun \<Rightarrow> App \<Rightarrow> App" where
  "settle_resume env llm i thread run app =
     (case channel_finish (cd_sessions_print (ad_codecs env)) (ad_now env) i ''resume completed'' (Some thread) run (app_sessions app, app_fs app) of
        (ss, fs) \<Rightarrow>
          (let app1 = app\<lparr>app_sessions := ss, app_fs := fs\<rparr>
           in case dr_result run of
                Inr oc \<Rightarrow> (if so_ok oc then l1_sink_session (ad_codecs env) (ad_vars env) llm (ad_now env) i app1 else app1)
              | Inl _ \<Rightarrow> app1))"

definition resumed_session :: "AdminEnv \<Rightarrow> L1Distiller option \<Rightarrow> HostEnv \<Rightarrow> string \<Rightarrow> string \<Rightarrow> string \<Rightarrow> path \<Rightarrow> App \<Rightarrow> App option" where
  "resumed_session env llm henv i follow_up thread workspace app =
     map_option (\<lambda>run. settle_resume env llm i thread run app)
       (resume_thread henv thread \<lparr>st_workspace = path_text workspace, st_task = follow_up\<rparr>)"

definition cancel_route :: "AdminEnv \<Rightarrow> string \<Rightarrow> route" where
  "cancel_route env i srv =
     (case session_cancel (cd_sessions_print (ad_codecs env)) (ad_now env) i (app_sessions (srv_app srv), app_fs (srv_app srv)) of
        (Inr _, w) \<Rightarrow> (Answer 200 ok_json, with_sessions w srv)
      | (Inl err, w) \<Rightarrow> (missing_route err, with_sessions w srv))"

definition get_session :: "(Session \<Rightarrow> json) \<Rightarrow> string \<Rightarrow> route" where
  "get_session encode i srv =
     (case session_get (app_sessions (srv_app srv)) i of
        Some s \<Rightarrow> (Answer 200 (encode s), srv)
      | None \<Rightarrow> (missing_route (''session '' @ quoted_name i @ '' not found''), srv))"

definition sessions_request :: "AdminEnv \<Rightarrow> (Session \<Rightarrow> json) \<Rightarrow> Method \<Rightarrow> string \<Rightarrow> string \<Rightarrow> route" where
  "sessions_request env encode m i body =
     (case strip_suffix i ''/resume'' of
        Some j \<Rightarrow> post_only m (resume_route env encode j body)
      | None \<Rightarrow>
          (case strip_suffix i ''/cancel'' of
             Some j \<Rightarrow> post_only m (cancel_route env j)
           | None \<Rightarrow> (if m = MGet then get_session encode i else Pair method_not_allowed)))"

section \<open>Redaction settings\<close>

definition redaction_mode :: "(string \<Rightarrow> string option) \<Rightarrow> RedactMode" where
  "redaction_mode vars =
     (case map_option to_lowercase (vars ''EXPERIENCE_REDACTION'') of
        Some v \<Rightarrow> (if v = ''off'' then ModeOff else if v = ''strict'' then Strict else Standard)
      | None \<Rightarrow> Standard)"

definition redaction_disclosure :: "(string \<Rightarrow> string option) \<Rightarrow> Disclosure" where
  "redaction_disclosure vars =
     (case map_option to_lowercase (vars ''EXPERIENCE_DISCLOSURE'') of
        Some v \<Rightarrow> (if v = ''metadata'' \<or> v = ''metadata-only'' then MetadataOnly else if v = ''content'' then Content else Structure)
      | None \<Rightarrow> Structure)"

definition load_or_create_redaction_key :: "nat \<Rightarrow> nat \<Rightarrow> path \<Rightarrow> fsys \<Rightarrow> string \<times> fsys" where
  "load_or_create_redaction_key nanos pid home fs =
     (let p = path_join home ''redaction.key''; seed = nat_digits nanos @ '':'' @ nat_digits pid @ '':'' @ path_text home; key = sha256 seed;
          fresh = (key, case fs_write_bytes fs p key of Inr fs' \<Rightarrow> fs' | Inl _ \<Rightarrow> fs)
      in case fs_read_bytes fs p of Inr bytes \<Rightarrow> (if 32 \<le> length bytes then (bytes, fs) else fresh) | Inl _ \<Rightarrow> fresh)"

section \<open>The static files stay in their directory\<close>

lemma resolve_real:
  assumes "tree_ok fs" "node_at fs p = Some n" "\<And>t. n \<noteq> LinkNode t"
  shows "resolve_path fs p = p"
  using assms(2,3)
proof (induction p arbitrary: n rule: rev_induct)
  case (snoc c p)
  have "entry_ok fs (p @ [c]) n" using assms(1) snoc.prems(1) by (rule tree_okD)
  then have d: "node_at fs p = Some DirNode" "c \<noteq> ''..''" by (auto simp: entry_ok_def)
  from snoc.IH [OF d(1)] have "resolve_path fs p = p" by simp
  with d(2) snoc.prems show ?case by (simp add: resolve_path_snoc walk_def follow_def split: node.splits)
qed simp

lemma canonical_real:
  assumes "tree_ok fs" "fs_canonicalize fs p = Inr q"
  shows "resolve_path fs q = q \<and> (\<exists>n. node_at fs q = Some n \<and> (\<forall>t. n \<noteq> LinkNode t))"
proof -
  from assms(2) obtain n where n: "node_at fs q = Some n" "\<And>t. n \<noteq> LinkNode t"
    by (auto simp: fs_canonicalize_def fs_exists_def stat_def split: if_splits option.splits node.splits)
  with resolve_real [OF assms(1) n] show ?thesis by blast
qed

text \<open>C35: the server hands out only files of its own interface. On a sane file tree whose interface directory exists, whatever
  the URL is, with parent components, doubled slashes or links on the way, bytes that are sent are the contents of a
  regular file that really lies below the canonical interface directory.\<close>

theorem static_files_contained:
  assumes "tree_ok fs" and "fs_canonicalize fs ui_dir = Inr rt" and "serve_static fs ui_dir (relative_of url) = StaticBytes kind bytes"
  shows "\<exists>q. prefix rt q \<and> node_at fs q = Some (FileNode bytes) \<and> resolve_path fs q = q \<and> ''..'' \<notin> set q"
proof -
  define c where "c = canonical_or fs (path_join rt (relative_of url))"
  have rt: "canonical_or fs ui_dir = rt" by (simp add: canonical_or_def assms(2))
  have b: "prefix rt c" "fs_read_bytes fs c = Inr bytes"
    using assms(3) unfolding serve_static_def Let_def rt c_def [symmetric]
    by (auto simp: path_starts_with_prefix split: if_splits sum.splits)
  then have "fs_exists fs c" by (auto simp: fs_read_bytes_def fs_exists_def split: option.splits)
  then have "\<exists>p. fs_canonicalize fs p = Inr c"
    unfolding c_def canonical_or_def by (auto simp: fs_canonicalize_def split: sum.splits if_splits)
  then obtain p where "fs_canonicalize fs p = Inr c" by blast
  from canonical_real [OF assms(1) this] obtain n where c: "resolve_path fs c = c" "node_at fs c = Some n" by blast
  with b(2) have f: "node_at fs c = Some (FileNode bytes)"
    by (auto simp: fs_read_bytes_def stat_def split: option.splits node.splits)
  from tree_okD [OF assms(1) f] have "''..'' \<notin> set c" by (simp add: entry_ok_def)
  with b(1) f c(1) show ?thesis by blast
qed

section \<open>The tree shows every visible experience once\<close>

definition leaves :: "scenes \<Rightarrow> Experience list" where
  "leaves m = concat (map (\<lambda>(_, fams). concat (map snd fams)) m)"

lemma bt_insert_sum:
  fixes g :: "'v \<Rightarrow> 'a multiset"
  assumes "bt_sorted m"
  shows "sum_list (map (g \<circ> snd) (bt_insert k v m)) + (case bt_get m k of Some w \<Rightarrow> g w | None \<Rightarrow> {#}) =
    sum_list (map (g \<circ> snd) m) + g v"
  using assms
proof (induction m)
  case (Cons p m)
  obtain a b where p: "p = (a, b)" by (cases p)
  have s: "bt_sorted m" "\<forall>q \<in> set m. a < fst q" using Cons.prems p by (auto simp: bt_sorted_def)
  have "k < a \<Longrightarrow> bt_get m k = None" using s(2) by (auto simp: bt_get_def map_of_eq_None_iff)
  with Cons.IH [OF s(1)] p show ?case by (auto simp: bt_get_def ac_simps split: option.splits)
qed simp

lemma push_at_mset:
  assumes "bt_sorted m"
  shows "mset (concat (map snd (push_at k x m))) = mset (concat (map snd m)) + {#x#}"
proof -
  let ?v = "(case bt_get m k of Some xs \<Rightarrow> xs | None \<Rightarrow> []) @ [x]"
  have "mset (concat (map snd m')) = sum_list (map (mset \<circ> snd) m')" for m' :: "'a list btree"
    by (simp add: mset_concat comp_def)
  with bt_insert_sum [OF assms, of mset k ?v] show ?thesis
    by (cases "bt_get m k") (simp_all add: push_at_def add.assoc)
qed

lemma bt_get_mem: "bt_get m k = Some v \<Longrightarrow> (k, v) \<in> set m"
  by (simp add: bt_get_def map_of_SomeD)

lemma bt_insert_mem: "p \<in> set (bt_insert k v m) \<Longrightarrow> p = (k, v) \<or> p \<in> set m"
  by (induction m) (auto split: if_splits)

definition fams_ok :: "ExperienceStore \<Rightarrow> string option \<Rightarrow> string \<Rightarrow> Experience list btree \<Rightarrow> bool" where
  "fams_ok store scope scene fams \<longleftrightarrow> bt_sorted fams \<and>
     (\<forall>(family, es) \<in> set fams. \<forall>e \<in> set es. scene = scene_of store scope e \<and> family = family_of_name (exp_name e))"

definition scenes_ok :: "ExperienceStore \<Rightarrow> string option \<Rightarrow> scenes \<Rightarrow> bool" where
  "scenes_ok store scope m \<longleftrightarrow> bt_sorted m \<and> (\<forall>(scene, fams) \<in> set m. fams_ok store scope scene fams)"

lemma push_at_ok:
  assumes "fams_ok store scope (scene_of store scope e) fams"
  shows "fams_ok store scope (scene_of store scope e) (push_at (family_of_name (exp_name e)) e fams)"
proof (cases "bt_get fams (family_of_name (exp_name e))")
  case None
  with assms show ?thesis by (auto simp: fams_ok_def push_at_def dest!: bt_insert_mem)
next
  case (Some xs)
  from bt_get_mem [OF Some] assms have "\<forall>x \<in> set xs. scene_of store scope e = scene_of store scope x \<and> family_of_name (exp_name e) = family_of_name (exp_name x)"
    unfolding fams_ok_def by fast
  with assms Some show ?thesis by (auto simp: fams_ok_def push_at_def dest!: bt_insert_mem)
qed

lemma place_ok:
  assumes "scenes_ok store scope m"
  shows "scenes_ok store scope (place_experience store scope e m) \<and> mset (leaves (place_experience store scope e m)) = mset (leaves m) + {#e#}"
proof -
  let ?sc = "scene_of store scope e"
  define fams where "fams = (case bt_get m ?sc of Some fams \<Rightarrow> fams | None \<Rightarrow> [])"
  define pushed where "pushed = push_at (family_of_name (exp_name e)) e fams"
  have placed: "place_experience store scope e m = bt_insert ?sc pushed m" by (simp add: place_experience_def pushed_def fams_def Let_def)
  have ok: "fams_ok store scope ?sc fams"
    using assms by (auto simp: fams_def scenes_ok_def fams_ok_def [of _ _ _ "[]"] split: option.split dest!: bt_get_mem)
  have sorted: "bt_sorted m" using assms by (simp add: scenes_ok_def)
  have "fams_ok store scope ?sc pushed" unfolding pushed_def using ok by (rule push_at_ok)
  then have "scenes_ok store scope (place_experience store scope e m)"
    using assms by (auto simp: scenes_ok_def placed dest!: bt_insert_mem)
  moreover have "mset (leaves (place_experience store scope e m)) = mset (leaves m) + {#e#}"
  proof -
    let ?g = "\<lambda>fams. mset (concat (map snd fams))"
    have l: "mset (leaves m') = sum_list (map (?g \<circ> snd) m')" for m'
      by (simp add: leaves_def mset_concat comp_def case_prod_unfold)
    have "bt_sorted fams" using ok by (simp add: fams_ok_def)
    then have g: "?g pushed = ?g fams + {#e#}" unfolding pushed_def by (rule push_at_mset)
    have "(case bt_get m ?sc of Some w \<Rightarrow> ?g w | None \<Rightarrow> {#}) = ?g fams" by (simp add: fams_def split: option.split)
    with bt_insert_sum [OF sorted, of ?g ?sc pushed] g show ?thesis unfolding l placed by simp
  qed
  ultimately show ?thesis by blast
qed

text \<open>The tree is a partition of what the filters let through: its leaves are the experiences in scope with the
  requested status, each exactly once, and each stands under its own scene and its own family.\<close>

theorem tree_partitions_visible:
  "mset (leaves (experience_scenes store scope status)) = mset (visible store scope status) \<and>
   scenes_ok store scope (experience_scenes store scope status)"
proof -
  have "scenes_ok store scope m \<Longrightarrow> scenes_ok store scope (fold (place_experience store scope) es m) \<and>
      mset (leaves (fold (place_experience store scope) es m)) = mset (leaves m) + mset es" for es m
    by (induction es arbitrary: m) (auto simp: place_ok)
  from this [of "[]" "visible store scope status"] show ?thesis
    by (simp add: experience_scenes_def scenes_ok_def leaves_def)
qed

section \<open>Resuming a session\<close>

text \<open>A session is resumed only from rest: if the route answers 201, the session was recorded, not running, with the
  thread of its agent, and the executable of the agent was found; afterwards it runs the follow-up as a new round.
  Otherwise no session has changed.\<close>

theorem resume_guarded:
  assumes "resume_route env encode i body srv = (reply, srv')"
  shows "(\<exists>s t th. reply = Answer 201 (encode (resume_record t s)) \<and> session_get (app_sessions (srv_app srv)) i = Some s \<and>
      se_status s \<noteq> SessRunning \<and> se_thread_id s = Some th \<and> agent_get (srv_agents srv) (se_agent_id s) \<noteq> None \<and>
      ss_sessions (app_sessions (srv_app srv')) = update_first (\<lambda>s. se_id s = i) (resume_record t) (ss_sessions (app_sessions (srv_app srv)))) \<or>
    (\<exists>msg. reply = bad_request msg) \<and> srv' = srv"
proof -
  have same: "with_sessions (app_sessions (srv_app srv), app_fs (srv_app srv)) srv = srv" by (simp add: with_sessions_def)
  show ?thesis
  proof (cases "\<exists>v f. ad_json env body = Inr v \<and> resume_check env i v srv = Inr f")
    case False
    with assms show ?thesis by (auto simp: resume_route_def with_json_def split: sum.splits)
  next
    case True
    then obtain v t th ws where v: "ad_json env body = Inr v" and f: "resume_check env i v srv = Inr (t, th, ws)" by auto
    from f obtain s where s: "session_get (app_sessions (srv_app srv)) i = Some s" "se_thread_id s = Some th"
        "agent_get (srv_agents srv) (se_agent_id s) \<noteq> None"
      by (auto simp: resume_check_def Let_def bind_eq_Some_conv split: option.splits)
    show ?thesis
    proof (cases "se_status s = SessRunning")
      case True
      with assms v f s same show ?thesis by (auto simp: resume_route_def with_json_def resume_start_def)
    next
      case False
      with assms v f s show ?thesis
        by (auto simp: resume_route_def with_json_def resume_start_def Let_def with_sessions_def register_cancel_flag_def)
    qed
  qed
qed

section \<open>Concrete runs\<close>

theorem static_files_contained_witness:
  "\<exists>q. prefix [''w''] q \<and> node_at demo_fs q = Some (FileNode ''old'') \<and> resolve_path demo_fs q = q \<and> ''..'' \<notin> set q"
proof -
  have "fs_canonicalize demo_fs [''w''] = Inr [''w'']"
    "serve_static demo_fs [''w''] (relative_of ''//./a.txt?v=1'') = StaticBytes ''application/octet-stream'' ''old''" by code_simp+
  from static_files_contained [OF demo_fs_ok this] show ?thesis .
qed

end
