(* ===== verification/Spec2Isabelle.thy ===== *)
theory Spec2Isabelle
  imports Qualification Similarity Experience_Runtime Codex_Gate Server_Views
begin

text \<open>
  A verification development of the Experience runtime (\<open>src/experience-main\<close>), the part of the
  repository that decides whether a step of an agent can be carried out from stored experience
  instead of by a language model, carries it out under a policy, and learns new experience.

  \<^bold>\<open>The program.\<close> An agent proposes an action. The \<^emph>\<open>gate\<close> (\<open>experience-controller\<close>) looks up the
  active experiences for the tool, probes their preconditions, and answers with a miss, a hit or
  \<open>already satisfied\<close>; a hit runs the workflow of the experience through the \<^emph>\<open>step executor\<close>, whose
  file capabilities go through the \<^emph>\<open>path guard\<close> and whose steps and programs go through the
  \<^emph>\<open>capability policy\<close>, and then observes the postconditions. Experiences live in the \<^emph>\<open>store\<close>, either
  concrete or as \<^emph>\<open>templates\<close> with parameters captured from the request. They are learned from traces
  (\<^emph>\<open>trace learning\<close>, \<^emph>\<open>producer translation\<close>, \<^emph>\<open>template induction\<close>), checked before they may be
  promoted (\<^emph>\<open>qualification\<close>, with \<^emph>\<open>state sources\<close> to observe the world), and everything that leaves
  the process is \<^emph>\<open>redacted\<close>. A second, turn-level system (\<open>experience/experience_*.rs\<close>) keeps its own
  re-runnable experiences: a matcher ranks them against the state of the turn, a controller decides
  before each sampling request whether the language model is needed at all, feedback moves
  experiences through a lifecycle, and unused ones are forgotten. The \<^emph>\<open>server\<close> (\<open>experience-server\<close>)
  ties these together: a task becomes a session, task entry may run an experience first, an agent
  carries out the rest, and the session's trace feeds learning, the ledger and the usage scores.

  \<^bold>\<open>The theories.\<close> Names of definitions are those of the source where possible; a Rust \<open>Result\<close> is a
  sum whose left side is the error, a \<open>BTreeMap\<close> a strictly sorted list of pairs, a string a list of
  bytes (UTF-8), mutable state an explicit argument and result.

  \<^item> \<open>Prelude\<close>: byte strings (trimming, splitting, searching, UTF-8), sorted maps, decimal and hexadecimal
    digits, the error monad on lists; the collections \<open>rust_str\<close> and \<open>map_simps\<close>.
  \<^item> \<open>Json\<close>: \<open>serde_json::Value\<close>, its accessors and compact printer. \<open>Text\<close>: byte-level text helpers.
  \<^item> \<open>Filesystem\<close>: a finite tree of files, directories and symbolic links with the calls of \<open>std::fs\<close>.
  \<^item> \<open>Domain\<close> (\<open>domain/*.rs\<close>): proposals, trigger patterns, predicates with three truth values, workflows,
    schema validation and the status machine. Activation is reachable only through validation.
  \<^item> \<open>Template\<close> (\<open>domain/template.rs\<close>): capture, validation, rendering, binding. Binding succeeds exactly
    under its declared conditions; rendering refines simultaneous substitution.
  \<^item> \<open>Policy\<close> (\<open>policy.rs\<close>), \<open>Safety\<close> (\<open>safety.rs\<close>), \<open>Redact\<close> (\<open>redact.rs\<close>): the check of a step against a
    policy and its narrowing; containment of every guarded path; masking of secrets, SHA-256, HMAC.
  \<^item> \<open>Store\<close> (\<open>store.rs\<close>): the vectors with their indexes. Every operation keeps the indexes consistent,
    indexed lookup is the scan, saving and opening is the identity.
  \<^item> \<open>Exec\<close> (\<open>exec.rs\<close>): file capabilities with backups, guarded processes, restore.
  \<^item> \<open>Gate\<close> (\<open>runtime.rs\<close>, \<open>runner.rs\<close>, \<open>probe.rs\<close> of the controller): decide, execute, verify.
  \<^item> \<open>Shell_Translate\<close>, \<open>Induce\<close>, \<open>Similarity\<close>, \<open>Learning\<close> (\<open>shell_translate.rs\<close>, \<open>template_induce.rs\<close>,
    \<open>similarity.rs\<close>, \<open>trace_*.rs\<close>, \<open>learning_l1.rs\<close>, \<open>process_log.rs\<close>): from observed rounds to candidates.
  \<^item> \<open>State_Source\<close>, \<open>Qualification\<close> (\<open>state_source.rs\<close>, \<open>qualification.rs\<close>, \<open>delegation.rs\<close>): observation
    with provenance, observability, dry run, evidence, and the choice of a plan.
  \<^item> \<open>Runtime_State\<close>, \<open>Runtime_Lifecycle\<close>, \<open>Runtime_Learner\<close>, \<open>Experience_Runtime\<close>
    (\<open>experience/experience_*.rs\<close>): the turn-level system.
  \<^item> \<open>Sessions\<close> (\<open>experience-server/src/session_manager.rs\<close>): session records with their file, migration,
    cancellation, resumption and the worker that watches an executor. Sessions only move along their
    phases, a restart marks interrupted ones, and the worker ends when its process does.
  \<^item> \<open>Session_Host\<close> (\<open>agent-codex/src/session_host.rs\<close>): the dialogue with the agent host and its event loop.
    Success is reported only for an observed end of turn, and the driver ends when the host does.
  \<^item> \<open>Ledger\<close> (\<open>experience-server/src/main.rs\<close>): the state of the server, settings, audit ledger, usage file with
    automatic decay, and the learning sink. The ledger only grows, decay happens exactly under its
    conditions, scores stay two-decimal numbers between 0 and 1.
  \<^item> \<open>Task_Entry\<close> (\<open>l3_entry\<close> and its helpers in \<open>main.rs\<close>): what happens to a task before an agent sees it. An
    experience runs by itself only if it is the one clear match that passed every gate, the run stays
    inside the workspace and the server's own directory, and its outcome is what was observed.
  \<^item> \<open>Agents\<close> (\<open>agent_manager.rs\<close>, \<open>fs_browse.rs\<close>): agent configurations, readiness probe, spawning.
  \<^item> \<open>Server_Session\<close> (the route \<open>POST /api/sessions\<close>): the composition of the five theories above.
  \<^item> \<open>Containment\<close>: the laws of what the calls of \<open>std::fs\<close> leave alone.
  \<^item> \<open>Management\<close> (\<open>codex-rs/core/src/experience_paths.rs\<close>, \<open>experience_management.rs\<close>): where the store of the Codex
    integration lives, its usage file and audit trail, and the service behind the management page over a
    canonical or a legacy store. A failed operation writes nothing, a successful one is audited, a
    canonical store stays canonical unless it could not be opened, and the two lifecycles agree exactly
    where listed.
  \<^item> \<open>Codex_Gate\<close> (\<open>experience_p1_gate.rs\<close>): the gate inside the agent, with the tool, task and state seats over the
    runtime of \<open>Gate\<close>. Runs of the process are a step relation in which other programs may change every
    file between two calls; the fuse bounds the takeovers of every run, the first store is kept, a
    completed task was observed, and passing through changes nothing that exists.
  \<^item> \<open>Admin\<close> (the other routes of \<open>main.rs\<close> that change state): policies, restore, settings, experiences with metadata,
    drafts, adoption and status, export and import, promotion of references, agents, and the dispatch of a
    request. The handlers refine a step relation on the store; every request keeps the store
    consistent, an experience becomes ACTIVE only in the listed ways, the status route is exact, an
    export can be imported, and a panic under the lock freezes the store.
  \<^item> \<open>Run_Notes\<close> (\<open>parse_run_notes\<close> and the ingestion routes): run notes become references. The one-pass parser
    returns the listed steps, and ingestion adds one redacted reference and nothing executable.
  \<^item> \<open>Server_Views\<close> (the rest of \<open>main.rs\<close>): files of the interface, which stay below their directory; the tree of
    experiences, a partition of what the filters let through; resuming and cancelling a session.

  \<^bold>\<open>Interfaces.\<close> Locales state what a client relies on, and are interpreted on the model's own
  definitions in the theory of the component that provides them.

  \<^bold>\<open>Parameters.\<close> Code outside the repository is an argument with its documented laws as hypotheses:
  the serde encodings of stored files (decoding inverts encoding), spawning a process (record \<open>Host\<close>),
  the git process, the TCP peer and the clock (record \<open>World\<close>), the cancellation flag another thread
  sets, the action runner and the distiller of a session, the codecs of the server's files (record
  \<open>Codecs\<close>), the scratch directory and character classes of task entry (\<open>EntryEnv\<close>), the agent host as the
  messages and exit it produces (\<open>HostEnv\<close>), the probe and spawn of an agent (\<open>AgentEnv\<close>), the codecs of the
  management service (\<open>MgmtCodecs\<close>), and the environment, clocks and host of the gate process (\<open>GateEnv\<close>), and the codecs,
  clock, environment and compiler of the routes (\<open>AdminEnv\<close>). Numbers of type \<open>f32\<close> and \<open>f64\<close> are real or
  rational numbers: rounding is not modelled. Case folding and character classes are those of ASCII.

  \<^bold>\<open>Bounds.\<close> All recursions of the model are structural or have a measure; no fuel is used. Saturating
  counters saturate at the width of the source; hashes are computed on 64-bit and 32-bit words.

  \<^bold>\<open>Not modelled.\<close> Texts for people and for the language model (\<open>reference_text\<close>,
  \<open>render_result_message\<close>, \<open>experience_report.rs\<close>, the \<open>Display\<close> of error types where the value is returned
  instead); the HTTP layer, the routes that only print a value, the launcher and the process adapters
  (\<open>agent-runtime\<close>, \<open>agent-codex/src/lib.rs\<close>), which are input, output and process plumbing around the
  operations above; the action runner, the model-backed distiller and the state builder of the Codex
  session, which are arguments of the turn-level model; the user interface and the scripts; and the
  rest of \<open>src/codex-main\<close>, a fork of the upstream Codex agent (terminal interface, protocol, sandboxing,
  model client) that the experience runtime only calls. \<open>codex-rs/core/src/experience\<close> is a copy of modules
  modelled from \<open>experience-core\<close>. Mutexes are poisoned only in \<open>Admin\<close>, and each call of a component is one step.
\<close>

end
